(* ===== verification/Eng_Prelude.thy ===== *)
theory Eng_Prelude
  imports Main "HOL-Library.Word"
begin

unbundle bit_operations_syntax

text \<open>
  Shared vocabulary of the development: the C integer types the sources compute with
  (two's-complement wrap-around of \<open>int64_t\<close> and \<open>int\<close>, truncating division),
  the power-of-two rounding every storage component uses (\<open>align_up\<close> of
  \<^verbatim>\<open>storage/streamer.c\<close> and the masks of \<^verbatim>\<open>storage/file.c\<close>), and the
  generic list lemmas the component theories share.  The collection \<open>eng_simps\<close>
  gathers the facts that component proofs pass to the simplifier.
\<close>

named_theorems eng_simps

section \<open>Machine integers\<close>

type_synonym byte = "8 word"

text \<open>
  \<open>i64 x\<close> is the value an \<open>int64_t\<close> holds after a conversion or an arithmetic step
  whose exact result is \<open>x\<close>, on a two's-complement machine; \<open>i32\<close> is the same for \<open>int\<close>.
\<close>

definition i64 :: "int \<Rightarrow> int" where
  "i64 x = (x + 2 ^ 63) mod 2 ^ 64 - 2 ^ 63"

definition i32 :: "int \<Rightarrow> int" where
  "i32 x = (x + 2 ^ 31) mod 2 ^ 32 - 2 ^ 31"

definition in_i64 :: "int \<Rightarrow> bool" where
  "in_i64 x \<longleftrightarrow> - (2 ^ 63) \<le> x \<and> x < 2 ^ 63"

definition in_i32 :: "int \<Rightarrow> bool" where
  "in_i32 x \<longleftrightarrow> - (2 ^ 31) \<le> x \<and> x < 2 ^ 31"

text \<open>C division truncates towards zero.\<close>

definition c_div :: "int \<Rightarrow> int \<Rightarrow> int" where
  "c_div a b = sgn a * sgn b * (\<bar>a\<bar> div \<bar>b\<bar>)"

definition c_mod :: "int \<Rightarrow> int \<Rightarrow> int" where
  "c_mod a b = a - c_div a b * b"

text \<open>A number as \<open>printf\<close> writes it for \<open>%d\<close>.\<close>

fun dec_nat :: "nat \<Rightarrow> string" where
  "dec_nat n = (if n < 10 then [char_of (48 + n)] else dec_nat (n div 10) @ [char_of (48 + n mod 10)])"

declare dec_nat.simps [simp del]

section \<open>Alignment\<close>

definition ENG_IO_ALIGN :: int where
  "ENG_IO_ALIGN = 4096"

definition align_up :: "int \<Rightarrow> int \<Rightarrow> int" where
  "align_up v a = (v + a - 1) AND NOT (a - 1)"

definition align_down :: "int \<Rightarrow> int \<Rightarrow> int" where
  "align_down v a = v AND NOT (a - 1)"

section \<open>Facts about machine integers\<close>

lemma i64_id [simp]: "in_i64 x \<Longrightarrow> i64 x = x"
  by (simp add: i64_def in_i64_def)

lemma i32_id [simp]: "in_i32 x \<Longrightarrow> i32 x = x"
  by (simp add: i32_def in_i32_def)

lemma in_i64_i64 [simp]: "in_i64 (i64 x)"
proof -
  have "0 \<le> (x + 2 ^ 63) mod (2 ^ 64 :: int)" "(x + 2 ^ 63) mod (2 ^ 64 :: int) < 2 ^ 64"
    by simp_all
  then show ?thesis unfolding i64_def in_i64_def by simp
qed

lemma in_i64_nonneg: "0 \<le> x \<Longrightarrow> x < 2 ^ 63 \<Longrightarrow> in_i64 x"
  by (simp add: in_i64_def)

lemma c_div_nonneg [simp]: "0 \<le> a \<Longrightarrow> 0 < b \<Longrightarrow> c_div a b = a div b"
  by (cases "a = 0") (auto simp: c_div_def)

lemma c_mod_nonneg [simp]: "0 \<le> a \<Longrightarrow> 0 < b \<Longrightarrow> c_mod a b = a mod b"
  by (simp add: c_mod_def minus_div_mult_eq_mod)

section \<open>Facts about alignment\<close>

lemma and_not_mask_int: "(v :: int) AND NOT (mask k) = v div 2 ^ k * 2 ^ k"
proof -
  have "v AND NOT (mask k) = push_bit k (drop_bit k v)"
    by (rule bit_eqI) (auto simp: bit_simps)
  then show ?thesis by (simp add: push_bit_eq_mult drop_bit_eq_div)
qed

lemma align_down_pow2: "align_down v (2 ^ k) = v div 2 ^ k * 2 ^ k"
  by (simp add: align_down_def and_not_mask_int flip: mask_eq_exp_minus_1)

lemma align_up_pow2: "align_up v (2 ^ k) = (v + 2 ^ k - 1) div 2 ^ k * 2 ^ k"
proof -
  have "align_up v (2 ^ k) = (v + 2 ^ k - 1) AND NOT (mask k)"
    by (simp add: align_up_def mask_eq_exp_minus_1)
  then show ?thesis by (simp add: and_not_mask_int)
qed

lemma align_down_io: "align_down v ENG_IO_ALIGN = v div ENG_IO_ALIGN * ENG_IO_ALIGN"
  using align_down_pow2 [of v 12] by (simp add: ENG_IO_ALIGN_def)

lemma align_up_io: "align_up v ENG_IO_ALIGN = (v + 4095) div ENG_IO_ALIGN * ENG_IO_ALIGN"
  using align_up_pow2 [of v 12] by (simp add: ENG_IO_ALIGN_def)

lemma ENG_IO_ALIGN_pos [simp]: "0 < ENG_IO_ALIGN"
  by (simp add: ENG_IO_ALIGN_def)

lemma div_mult_io_bounds:
  "x - ENG_IO_ALIGN < x div ENG_IO_ALIGN * ENG_IO_ALIGN" "x div ENG_IO_ALIGN * ENG_IO_ALIGN \<le> x"
  using pos_mod_bound [of ENG_IO_ALIGN x] pos_mod_sign [of ENG_IO_ALIGN x]
  by (simp_all add: minus_mod_eq_div_mult [symmetric])

lemma align_up_ge: "v \<le> align_up v ENG_IO_ALIGN"
  using div_mult_io_bounds(1) [of "v + 4095"]
  unfolding align_up_io by (simp add: ENG_IO_ALIGN_def)

lemma align_up_less: "align_up v ENG_IO_ALIGN < v + ENG_IO_ALIGN"
  using div_mult_io_bounds(2) [of "v + 4095"]
  unfolding align_up_io by (simp add: ENG_IO_ALIGN_def)

lemma align_up_dvd [simp]: "ENG_IO_ALIGN dvd align_up v ENG_IO_ALIGN"
  unfolding align_up_io by simp

lemma align_up_mono: "v \<le> w \<Longrightarrow> align_up v ENG_IO_ALIGN \<le> align_up w ENG_IO_ALIGN"
  unfolding align_up_io by (intro mult_right_mono zdiv_mono1) (auto simp: ENG_IO_ALIGN_def)

lemma align_up_least:
  assumes "ENG_IO_ALIGN dvd w" and "v \<le> w"
  shows "align_up v ENG_IO_ALIGN \<le> w"
proof (rule ccontr)
  assume "\<not> ?thesis"
  moreover from assms(1) obtain q where w: "w = ENG_IO_ALIGN * q" ..
  moreover obtain p where u: "align_up v ENG_IO_ALIGN = ENG_IO_ALIGN * p"
    using align_up_dvd [of v] by (elim dvdE)
  ultimately have "q < p" by simp
  then have "ENG_IO_ALIGN * q + ENG_IO_ALIGN \<le> ENG_IO_ALIGN * p"
    using mult_left_mono [of "q + 1" p ENG_IO_ALIGN] by (simp add: algebra_simps less_imp_le)
  with align_up_less [of v] assms(2) w u show False by simp
qed

lemma align_up_id: "ENG_IO_ALIGN dvd v \<Longrightarrow> align_up v ENG_IO_ALIGN = v"
  by (rule antisym [OF align_up_least [OF _ order_refl] align_up_ge])

lemma align_up_nonneg: "0 \<le> v \<Longrightarrow> 0 \<le> align_up v ENG_IO_ALIGN"
  using align_up_ge [of v] by simp

lemma align_down_le: "align_down v ENG_IO_ALIGN \<le> v"
  unfolding align_down_io by (rule div_mult_io_bounds)

lemma align_down_gt: "v - ENG_IO_ALIGN < align_down v ENG_IO_ALIGN"
  unfolding align_down_io by (rule div_mult_io_bounds)

lemma align_down_dvd [simp]: "ENG_IO_ALIGN dvd align_down v ENG_IO_ALIGN"
  unfolding align_down_io by simp

lemma align_down_nonneg: "0 \<le> v \<Longrightarrow> 0 \<le> align_down v ENG_IO_ALIGN"
  unfolding align_down_io by (intro mult_nonneg_nonneg) (auto simp: pos_imp_zdiv_nonneg_iff less_imp_le)

lemmas align_up_bounds = align_up_ge align_up_less

end
