(* ===== verification/Storage.thy ===== *)
theory Storage
  imports Eng_Prelude
begin

text \<open>
  The file storage backend, \<^verbatim>\<open>src/storage/storage.h\<close> and
  \<^verbatim>\<open>src/storage/file.c\<close>.

  The operating system's \<open>pread\<close> is a parameter \<open>pr off n\<close>: the bytes one call
  delivers (the empty list stands for a return value \<open>\<le> 0\<close>).  A descriptor may deliver
  fewer bytes than asked for, so what the code relies on is stated twice: \<open>pread_sound\<close>
  (whatever arrives is the file's bytes at that offset) and \<open>pread_live\<close> (inside the
  file something arrives).  A read is described by the value it returns, the payload
  offset it stores through its out-parameter (\<open>None\<close> when it stores nothing) and the
  bytes it has written to the front of the caller's buffer.  Timing fields are left out.

  The locale \<open>aligned_store\<close> is the contract \<^verbatim>\<open>storage.h\<close> gives to the streamer and
  the weight cache; it is discharged for \<open>file_read_aligned\<close>.
\<close>

section \<open>State and operations\<close>

record eng_storage =
  fc_dfd :: bool               \<comment> \<open>a direct descriptor was obtained\<close>
  fc_size :: int
  st_reads :: nat
  st_bytes_read :: nat
  st_direct_reads :: nat

record rd_result =
  rr_ret :: int
  rr_poff :: "int option"
  rr_buf :: "byte list"

type_synonym pread_fn = "int \<Rightarrow> int \<Rightarrow> byte list"

definition slice :: "int \<Rightarrow> int \<Rightarrow> 'a list \<Rightarrow> 'a list" where
  "slice off n xs = take (nat n) (drop (nat off) xs)"

function pread_loop :: "pread_fn \<Rightarrow> int \<Rightarrow> int \<Rightarrow> byte list \<Rightarrow> byte list" where
  "pread_loop pr nbytes off acc =
     (let got = int (length acc) in
      if got < nbytes
      then let r = pr (off + got) (nbytes - got) in
           if r = [] then acc else pread_loop pr nbytes off (acc @ r)
      else acc)"
  by pat_completeness auto
termination
  by (relation "measure (\<lambda>(pr, nbytes, off, acc). nat (nbytes - int (length acc)))") auto

declare pread_loop.simps [simp del]

definition pread_all :: "pread_fn \<Rightarrow> int \<Rightarrow> int \<Rightarrow> byte list" where
  "pread_all pr nbytes off = pread_loop pr nbytes off []"

definition file_read ::
  "pread_fn \<Rightarrow> eng_storage \<Rightarrow> int \<Rightarrow> int \<Rightarrow> rd_result \<times> eng_storage" where
  "file_read fd s off nbytes =
     (if off < 0 \<or> nbytes < 0 then (\<lparr>rr_ret = 0, rr_poff = None, rr_buf = []\<rparr>, s)
      else let d = pread_all fd nbytes off in
        (\<lparr>rr_ret = int (length d), rr_poff = None, rr_buf = d\<rparr>,
         s\<lparr>st_reads := st_reads s + 1, st_bytes_read := st_bytes_read s + length d\<rparr>))"

definition file_read_aligned ::
  "pread_fn \<Rightarrow> pread_fn \<Rightarrow> eng_storage \<Rightarrow> int \<Rightarrow> int \<Rightarrow> int \<Rightarrow> rd_result \<times> eng_storage" where
  "file_read_aligned fd dfd s off nbytes bufcap =
     (if off < 0 \<or> nbytes < 0 then (\<lparr>rr_ret = 0, rr_poff = None, rr_buf = []\<rparr>, s)
      else if \<not> fc_dfd s then
        (if bufcap < nbytes then (\<lparr>rr_ret = 0, rr_poff = Some 0, rr_buf = []\<rparr>, s)
         else let (r, s') = file_read fd s off nbytes in (r\<lparr>rr_poff := Some 0\<rparr>, s'))
      else
        (let lo = align_down off ENG_IO_ALIGN;
             hi = align_up (off + nbytes) ENG_IO_ALIGN;
             len = hi - lo;
             pad = off - lo
         in if len > bufcap then (\<lparr>rr_ret = 0, rr_poff = None, rr_buf = []\<rparr>, s)
            else
              (let d = pread_loop dfd len lo [];
                   got = int (length d)
               in (\<lparr>rr_ret = (if got \<ge> pad + nbytes then nbytes
                             else if got > pad then got - pad else 0),
                    rr_poff = Some pad, rr_buf = d\<rparr>,
                   s\<lparr>st_reads := st_reads s + 1, st_direct_reads := st_direct_reads s + 1,
                     st_bytes_read := st_bytes_read s + length d\<rparr>))))"

text \<open>The buffer size \<open>eng_storage_alloc_aligned\<close> reports through \<open>out_cap\<close>.\<close>

definition eng_storage_alloc_cap :: "int \<Rightarrow> int option" where
  "eng_storage_alloc_cap nbytes =
     (if nbytes < 0 then None else Some (align_up (nbytes + 2 * ENG_IO_ALIGN) ENG_IO_ALIGN))"

text \<open>The payload a caller sees: \<open>rr_ret\<close> bytes from \<open>buf + payload_off\<close>.\<close>

definition rd_payload :: "rd_result \<Rightarrow> byte list" where
  "rd_payload r = slice (case rr_poff r of None \<Rightarrow> 0 | Some p \<Rightarrow> p) (rr_ret r) (rr_buf r)"

section \<open>What the code relies on\<close>

definition pread_sound :: "byte list \<Rightarrow> pread_fn \<Rightarrow> bool" where
  "pread_sound img pr \<longleftrightarrow>
     (\<forall>off n. 0 \<le> off \<longrightarrow> 0 < n \<longrightarrow>
        (\<exists>k \<le> nat n. pr off n = take k (drop (nat off) img)))"

definition pread_live :: "byte list \<Rightarrow> pread_fn \<Rightarrow> bool" where
  "pread_live img pr \<longleftrightarrow>
     (\<forall>off n. 0 \<le> off \<longrightarrow> 0 < n \<longrightarrow> off < int (length img) \<longrightarrow> pr off n \<noteq> [])"

text \<open>A descriptor that delivers at most \<open>m\<close> bytes per call, with the expected behaviour.\<close>

definition short_pread :: "byte list \<Rightarrow> nat \<Rightarrow> pread_fn" where
  "short_pread img m off n = take (min m (nat n)) (drop (nat off) img)"

lemma short_pread_sound: "pread_sound img (short_pread img m)"
  unfolding pread_sound_def short_pread_def by (metis min.cobounded2)

lemma short_pread_live: "0 < m \<Longrightarrow> pread_live img (short_pread img m)"
  by (auto simp: pread_live_def short_pread_def)

section \<open>The read loop\<close>

lemma pread_soundD:
  assumes "pread_sound img pr" "0 \<le> off" "0 < n"
  obtains k where "k \<le> nat n" "pr off n = take k (drop (nat off) img)"
  using assms unfolding pread_sound_def by blast

lemma take_append_take_drop:
  assumes "length acc = i" "acc = take i ys"
  shows "acc @ take k (drop i ys) = take (i + k) ys"
  using assms by (metis take_add)

lemma take_length_of_take: "xs = take k ys \<Longrightarrow> xs = take (length xs) ys"
  by (auto simp: min_def)

lemma pread_loop_prefix:
  assumes "pread_sound img pr" "0 \<le> off" "acc = take (length acc) (drop (nat off) img)"
    "int (length acc) \<le> max 0 nbytes"
  shows "pread_loop pr nbytes off acc =
      take (length (pread_loop pr nbytes off acc)) (drop (nat off) img) \<and>
    int (length (pread_loop pr nbytes off acc)) \<le> max 0 nbytes"
  using assms
proof (induction pr nbytes off acc rule: pread_loop.induct [case_names loop])
  case (loop pr nbytes off acc)
  let ?r = "pr (off + int (length acc)) (nbytes - int (length acc))"
  show ?case
  proof (cases "int (length acc) < nbytes \<and> ?r \<noteq> []")
    case False
    then have "pread_loop pr nbytes off acc = acc"
      by (auto simp: pread_loop.simps [of pr nbytes off acc] Let_def)
    with loop.prems show ?thesis by simp
  next
    case True
    then obtain k where k: "k \<le> nat (nbytes - int (length acc))"
      and r: "?r = take k (drop (nat (off + int (length acc))) img)"
      using pread_soundD [OF loop.prems(1), of "off + int (length acc)" "nbytes - int (length acc)"]
        loop.prems(2) by auto
    have dr: "drop (nat (off + int (length acc))) img = drop (length acc) (drop (nat off) img)"
      using loop.prems(2) by (simp add: nat_add_distrib add.commute)
    have "acc @ ?r = take (length acc + k) (drop (nat off) img)"
      using take_append_take_drop [OF refl loop.prems(3)] by (simp add: r dr)
    then have pre1: "acc @ ?r = take (length (acc @ ?r)) (drop (nat off) img)"
      by (rule take_length_of_take)
    have "length ?r \<le> k" by (simp add: r)
    with k True have pre2: "int (length (acc @ ?r)) \<le> max 0 nbytes" by auto
    have "pread_loop pr nbytes off acc = pread_loop pr nbytes off (acc @ ?r)"
      using True by (simp add: pread_loop.simps [of pr nbytes off acc] Let_def)
    with loop.IH [OF refl _ refl _ loop.prems(1,2) pre1 pre2] True show ?thesis
      by metis
  qed
qed

lemma pread_loop_complete:
  assumes "pread_live img pr" "0 \<le> off"
  shows "nbytes \<le> int (length (pread_loop pr nbytes off acc)) \<or>
         int (length img) \<le> off + int (length (pread_loop pr nbytes off acc))"
  using assms
proof (induction pr nbytes off acc rule: pread_loop.induct [case_names loop])
  case (loop pr nbytes off acc)
  let ?g = "int (length acc)"
  show ?case
  proof (cases "?g < nbytes \<and> pr (off + ?g) (nbytes - ?g) \<noteq> []")
    case True
    then show ?thesis
      using loop.IH [OF refl _ refl] loop.prems
      by (subst (1 2) pread_loop.simps) (simp add: Let_def)
  next
    case False
    then have "pread_loop pr nbytes off acc = acc"
      by (auto simp: pread_loop.simps [of pr nbytes off acc] Let_def)
    moreover have "int (length img) \<le> off + ?g" if "?g < nbytes"
      using loop.prems False that unfolding pread_live_def
      by (metis add_nonneg_nonneg diff_gt_0_iff_gt linorder_not_less of_nat_0_le_iff)
    ultimately show ?thesis by (cases "?g < nbytes") auto
  qed
qed

lemma pread_loop_slice:
  assumes "pread_sound img pr" "0 \<le> off" "0 \<le> nbytes"
  shows "\<exists>m \<le> nat nbytes. pread_loop pr nbytes off [] = take m (drop (nat off) img)"
  using pread_loop_prefix [OF assms(1,2), of "[]" nbytes] assms(3)
  by (intro exI [of _ "length (pread_loop pr nbytes off [])"]) auto

section \<open>Aligned reads\<close>

text \<open>The widened window of a range never exceeds the rounded size plus one unit.\<close>

lemma window_len:
  "align_up (off + n) ENG_IO_ALIGN - align_down off ENG_IO_ALIGN
     \<le> align_up n ENG_IO_ALIGN + ENG_IO_ALIGN"
proof -
  have "off + n \<le> align_down off ENG_IO_ALIGN + (align_up n ENG_IO_ALIGN + ENG_IO_ALIGN)"
    using align_down_gt [of off] align_up_ge [of n] by linarith
  then have "align_up (off + n) ENG_IO_ALIGN
      \<le> align_down off ENG_IO_ALIGN + (align_up n ENG_IO_ALIGN + ENG_IO_ALIGN)"
    by (intro align_up_least dvd_add) auto
  then show ?thesis by simp
qed

lemma window_pad: "0 \<le> off - align_down off ENG_IO_ALIGN" "off - align_down off ENG_IO_ALIGN < ENG_IO_ALIGN"
  using align_down_le [of off] align_down_gt [of off] by linarith+

lemma window_covers:
  "off - align_down off ENG_IO_ALIGN + n \<le> align_up (off + n) ENG_IO_ALIGN - align_down off ENG_IO_ALIGN"
  using align_up_ge [of "off + n"] by simp

lemma slice_of_take:
  assumes "d = take m (drop (nat lo) img)" "0 \<le> lo" "0 \<le> pad" "0 \<le> n" "pad + n \<le> int (length d)"
  shows "slice pad n d = slice (lo + pad) n img"
proof -
  from assms have "nat pad + nat n \<le> m" by simp
  then have "nat n \<le> m - nat pad" by linarith
  then have "take (nat n) (take (m - nat pad) (drop (nat lo + nat pad) img)) =
      take (nat n) (drop (nat lo + nat pad) img)"
    by (simp add: min_absorb1)
  with assms show ?thesis
    by (simp add: slice_def drop_take nat_add_distrib add.commute)
qed

text \<open>What a caller of a direct read may rely on, whichever path ran.\<close>

lemma file_read_buf:
  assumes "pread_sound img fd" "0 \<le> off" "0 \<le> nbytes"
  shows "\<exists>m \<le> nat nbytes. rr_buf (fst (file_read fd s off nbytes)) = take m (drop (nat off) img)"
    and "rr_ret (fst (file_read fd s off nbytes)) = int (length (rr_buf (fst (file_read fd s off nbytes))))"
  using assms pread_loop_slice [OF assms] by (auto simp: file_read_def pread_all_def Let_def)

lemma file_read_aligned_sound:
  fixes s :: eng_storage and cap :: int
  assumes "pread_sound img fd" "pread_sound img dfd"
    and "0 \<le> off" "0 \<le> nbytes"
  defines "r \<equiv> fst (file_read_aligned fd dfd s off nbytes cap)"
  assumes full: "rr_ret r = nbytes" "0 < nbytes"
  shows "\<exists>p. rr_poff r = Some p \<and> 0 \<le> p \<and> p < ENG_IO_ALIGN \<and>
    p + nbytes \<le> int (length (rr_buf r)) \<and> int (length (rr_buf r)) \<le> cap \<and>
    slice p nbytes (rr_buf r) = slice off nbytes img"
proof (cases "fc_dfd s")
  case False
  from pread_loop_slice [OF assms(1,3,4)] obtain m where "m \<le> nat nbytes"
    "pread_loop fd nbytes off [] = take m (drop (nat off) img)" by blast
  moreover have "nbytes \<le> cap"
    using full assms(3,4) False by (auto simp: r_def file_read_aligned_def split: if_splits)
  moreover have "rr_buf r = pread_loop fd nbytes off []" "rr_poff r = Some 0"
      "int (length (pread_loop fd nbytes off [])) = nbytes"
    using full assms(3,4) False
    by (auto simp: r_def file_read_aligned_def file_read_def pread_all_def Let_def split: if_splits)
  ultimately show ?thesis
    using slice_of_take [of "rr_buf r" m off img 0 nbytes] assms(3,4) by auto
next
  case True
  let ?lo = "align_down off ENG_IO_ALIGN" and ?hi = "align_up (off + nbytes) ENG_IO_ALIGN"
  let ?d = "pread_loop dfd (?hi - ?lo) ?lo []"
  have lo: "0 \<le> ?lo" using assms(3) by (rule align_down_nonneg)
  have "0 \<le> ?hi - ?lo" using window_covers [of off nbytes] window_pad [of off] assms(4) by linarith
  from pread_loop_slice [OF assms(2) lo this] obtain m
    where m: "m \<le> nat (?hi - ?lo)" "?d = take m (drop (nat ?lo) img)" by blast
  have rr: "rr_poff r = Some (off - ?lo)" "rr_buf r = ?d" "?hi - ?lo \<le> cap"
      "off - ?lo + nbytes \<le> int (length ?d)"
    using full assms(3,4) True by (auto simp: r_def file_read_aligned_def Let_def split: if_splits)
  have "slice (off - ?lo) nbytes ?d = slice off nbytes img"
    using slice_of_take [OF m(2) lo window_pad(1) assms(4) rr(4)] by simp
  moreover have "int (length ?d) \<le> ?hi - ?lo"
    using m \<open>0 \<le> ?hi - ?lo\<close> by simp
  ultimately show ?thesis using rr window_pad [of off] by auto
qed

lemma file_read_aligned_complete:
  assumes "pread_live img fd" "pread_live img dfd"
    and "0 \<le> off" "0 \<le> nbytes" "off + nbytes \<le> int (length img)"
    and "align_up nbytes ENG_IO_ALIGN + ENG_IO_ALIGN \<le> cap"
    and "pread_sound img fd"
  shows "rr_ret (fst (file_read_aligned fd dfd s off nbytes cap)) = nbytes"
proof (cases "fc_dfd s")
  case False
  have "nbytes \<le> cap" using assms(6) align_up_ge [of nbytes] ENG_IO_ALIGN_pos by linarith
  moreover have "int (length (pread_loop fd nbytes off [])) = nbytes"
    using pread_loop_complete [OF assms(1,3), of nbytes "[]"] assms(4,5)
      pread_loop_prefix [OF assms(7,3), of "[]" nbytes] by auto
  ultimately show ?thesis
    using False assms(3,4) by (simp add: file_read_aligned_def file_read_def pread_all_def Let_def)
next
  case True
  let ?lo = "align_down off ENG_IO_ALIGN" and ?hi = "align_up (off + nbytes) ENG_IO_ALIGN"
  have lo: "0 \<le> ?lo" using assms(3) by (rule align_down_nonneg)
  have "off - ?lo + nbytes \<le> int (length (pread_loop dfd (?hi - ?lo) ?lo []))"
    using pread_loop_complete [OF assms(2) lo, of "?hi - ?lo" "[]"] window_covers [of off nbytes]
      assms(5) by linarith
  moreover have "?hi - ?lo \<le> cap" using window_len [of off nbytes] assms(6) by linarith
  ultimately show ?thesis
    using True assms(3,4) by (simp add: file_read_aligned_def Let_def)
qed

text \<open>No read, complete or not, writes past the capacity it was given.\<close>

lemma file_read_aligned_cap:
  assumes "pread_sound img fd" "pread_sound img dfd" "0 \<le> off" "0 \<le> nbytes" "0 \<le> cap"
  shows "int (length (rr_buf (fst (file_read_aligned fd dfd s off nbytes cap)))) \<le> cap"
proof (cases "fc_dfd s")
  case False
  then show ?thesis
    using assms(3-5) pread_loop_prefix [OF assms(1,3), of "[]" nbytes]
    by (auto simp: file_read_aligned_def file_read_def pread_all_def Let_def)
next
  case True
  let ?lo = "align_down off ENG_IO_ALIGN" and ?hi = "align_up (off + nbytes) ENG_IO_ALIGN"
  have "int (length (pread_loop dfd (?hi - ?lo) ?lo [])) \<le> max 0 (?hi - ?lo)"
    using pread_loop_prefix [OF assms(2) align_down_nonneg [OF assms(3)], of "[]" "?hi - ?lo"] by simp
  then show ?thesis
    using True assms(3-5) by (auto simp: file_read_aligned_def Let_def)
qed

section \<open>The storage contract\<close>

text \<open>
  What \<^verbatim>\<open>storage.h\<close> promises to the tiers above: a full-length return means the payload
  is the stored range, it starts less than one alignment unit into the buffer, and the
  read stayed inside the capacity it was given.
\<close>

locale aligned_store =
  fixes rdal :: "int \<Rightarrow> int \<Rightarrow> int \<Rightarrow> rd_result" and data :: "byte list"
  assumes rdal_full: "0 \<le> off \<Longrightarrow> 0 < n \<Longrightarrow> rr_ret (rdal off n cap) = n \<Longrightarrow>
    \<exists>p. rr_poff (rdal off n cap) = Some p \<and> 0 \<le> p \<and> p < ENG_IO_ALIGN \<and>
      p + n \<le> int (length (rr_buf (rdal off n cap))) \<and>
      int (length (rr_buf (rdal off n cap))) \<le> cap \<and>
      slice p n (rr_buf (rdal off n cap)) = slice off n data"
    and rdal_cap: "0 \<le> off \<Longrightarrow> 0 \<le> n \<Longrightarrow> 0 \<le> cap \<Longrightarrow>
      int (length (rr_buf (rdal off n cap))) \<le> cap"
begin

lemma payload_exact:
  assumes "0 \<le> off" "0 < n" "rr_ret (rdal off n cap) = n"
  shows "rd_payload (rdal off n cap) = slice off n data"
  using rdal_full [OF assms] assms(3) by (auto simp: rd_payload_def)

end

locale pread_pair =
  fixes img :: "byte list" and fd dfd :: pread_fn and st :: eng_storage
  assumes fd_sound: "pread_sound img fd" and dfd_sound: "pread_sound img dfd"

sublocale pread_pair \<subseteq> aligned_store "\<lambda>off n cap. fst (file_read_aligned fd dfd st off n cap)" img
  by unfold_locales
    (simp_all add: file_read_aligned_sound [OF fd_sound dfd_sound]
      file_read_aligned_cap [OF fd_sound dfd_sound])

interpretation short_file:
  pread_pair img "short_pread img m" "short_pread img (m * 4096)" st for img m st
  by unfold_locales (rule short_pread_sound)+

end
