(* ===== verification/Weight_Cache.thy ===== *)
theory Weight_Cache
  imports Storage
begin

text \<open>
  The keyed LRU weight cache, \<^verbatim>\<open>src/storage/cache.h\<close> and \<^verbatim>\<open>src/storage/cache.c\<close>.

  The arrays of \<open>struct EngCache\<close> are lists indexed by slot or key.  \<open>key_of\<close> holds
  \<open>-1\<close>, \<open>-2\<close> or a key in the source; here these are the three constructors of
  \<open>slot_state\<close>.  The arena is one byte list per slot (slot \<open>i\<close> is
  \<open>arena + i * stride\<close> in the source).  The vtable \<open>EngCacheSrc\<close> is the
  record \<open>cache_src\<close>: \<open>describe k m\<close> gives the return flag, the payload size and
  the contents of the metadata buffer afterwards, when that buffer held \<open>m\<close> before the
  call; \<open>load k m cap\<close> gives the bytes delivered, the payload offset and the buffer's
  contents.  \<open>cache_sys\<close> is what the operating system answers: whether \<^verbatim>\<open>ENG_NOHUGE\<close> is
  set, whether \<open>posix_memalign\<close> grants the arena (rounded up to 2 MB when huge pages are
  wanted) and whether the \<open>realloc\<close> of the trace, which the source survives, succeeds.  The
  small \<open>calloc\<close> blocks are taken to be granted.  Counters are unbounded.
\<close>

section \<open>State\<close>

datatype slot_state = Empty | Inflight | Holds nat

record cache_cfg =
  budget_bytes :: int
  slot_bytes :: int
  nkeys :: int
  min_slots :: int
  want_hist :: bool
  want_trace :: bool
  hugepages :: int

record cache_sys =
  realloc_ok :: "nat \<Rightarrow> bool"
  memalign_ok :: "int \<Rightarrow> int \<Rightarrow> bool"
  nohuge :: bool

record 'm cache_src =
  describe :: "nat \<Rightarrow> 'm \<Rightarrow> bool \<times> int \<times> 'm"
  load :: "nat \<Rightarrow> 'm \<Rightarrow> int \<Rightarrow> int \<times> int \<times> byte list"
  locate :: "('m \<Rightarrow> int \<times> int) option"
  zero_meta :: 'm
  c_sys :: cache_sys

record 'm eng_cache =
  cfg :: cache_cfg
  stride :: int
  nslot :: nat
  arena :: "byte list list"
  arena_bytes :: int
  slot_of :: "nat option list"
  key_of :: "slot_state list"
  used_at :: "nat list"
  pinned :: "bool list"
  meta :: "'m list"
  pad :: "int list"
  nbytes :: "int list"
  clock :: nat
  hits :: nat
  misses :: nat
  evictions :: nat
  bytes_read :: nat
  prefetch_reads :: nat
  requests :: nat
  hist :: "32 word list option"
  trace :: "nat list"
  captrace :: nat

record 'm cache_entry =
  e_slot :: nat
  e_data :: "byte list"
  e_nbytes :: int
  e_meta :: 'm

record 'm work =
  w_slot :: nat
  w_key :: nat
  w_need :: int
  w_got :: int
  w_pad :: int
  w_device :: int
  w_offset :: int

definition ENG_CACHE_MAX_BATCH :: nat where
  "ENG_CACHE_MAX_BATCH = 64"

section \<open>Operations\<close>

definition eng_cache_stride_for :: "int \<Rightarrow> int" where
  "eng_cache_stride_for payload_bytes =
     (if payload_bytes < 0 then 0
      else let s = payload_bytes + 2 * ENG_IO_ALIGN in (s + ENG_IO_ALIGN - 1) AND NOT (ENG_IO_ALIGN - 1))"

fun victim_scan :: "'m eng_cache \<Rightarrow> nat list \<Rightarrow> nat option \<Rightarrow> int \<Rightarrow> nat option" where
  "victim_scan c [] best oldest = best"
| "victim_scan c (i # is) best oldest =
     (case key_of c ! i of
        Inflight \<Rightarrow> victim_scan c is best oldest
      | Empty \<Rightarrow> Some i
      | Holds _ \<Rightarrow>
          if pinned c ! i then victim_scan c is best oldest
          else if int (used_at c ! i) < oldest then victim_scan c is (Some i) (int (used_at c ! i))
          else victim_scan c is best oldest)"

definition pick_victim :: "'m eng_cache \<Rightarrow> nat option" where
  "pick_victim c = victim_scan c [0..<nslot c] None (2 ^ 64 - 1)"

text \<open>\<open>entry_of\<close>: the payload a caller reads from \<open>slot_base + pad\<close>.\<close>

definition entry_of :: "'m eng_cache \<Rightarrow> nat \<Rightarrow> 'm cache_entry" where
  "entry_of c slot =
     \<lparr>e_slot = slot, e_data = slice (pad c ! slot) (nbytes c ! slot) (arena c ! slot),
      e_nbytes = nbytes c ! slot, e_meta = meta c ! slot\<rparr>"

text \<open>
  The common step of \<open>admit\<close> and of the batch path: the victim's old key, if any, is
  unregistered and counted as an eviction.
\<close>

definition unregister :: "'m eng_cache \<Rightarrow> nat \<Rightarrow> 'm eng_cache" where
  "unregister c slot =
     (case key_of c ! slot of
        Holds k \<Rightarrow> c\<lparr>slot_of := (slot_of c)[k := None], evictions := evictions c + 1\<rparr>
      | _ \<Rightarrow> c)"

definition publish :: "'m eng_cache \<Rightarrow> nat \<Rightarrow> nat \<Rightarrow> int \<Rightarrow> int \<Rightarrow> 'm eng_cache" where
  "publish c slot key got pd =
     c\<lparr>bytes_read := bytes_read c + nat got,
       pad := (pad c)[slot := i32 pd],
       nbytes := (nbytes c)[slot := got],
       key_of := (key_of c)[slot := Holds key],
       slot_of := (slot_of c)[key := Some slot],
       used_at := (used_at c)[slot := clock c + 1],
       clock := clock c + 1\<rparr>"

definition admit :: "'m cache_src \<Rightarrow> 'm eng_cache \<Rightarrow> nat \<Rightarrow> nat option \<times> 'm eng_cache" where
  "admit src c key =
     (case slot_of c ! key of
        Some slot \<Rightarrow>
          (Some slot, c\<lparr>hits := hits c + 1, clock := clock c + 1,
                        used_at := (used_at c)[slot := clock c + 1]\<rparr>)
      | None \<Rightarrow>
          (let c = c\<lparr>misses := misses c + 1\<rparr>;
               (ok, need, m) = describe src key (zero_meta src)
           in if \<not> ok then (None, c)
              else if need > slot_bytes (cfg c) then (None, c)
              else (case pick_victim c of
                      None \<Rightarrow> (None, c)
                    | Some slot \<Rightarrow>
                        (let c = unregister c slot;
                             c = c\<lparr>meta := (meta c)[slot := m]\<rparr>;
                             (got, pd, buf) = load src key (meta c ! slot) (stride c);
                             c = c\<lparr>arena := (arena c)[slot := buf]\<rparr>
                         in if got \<noteq> need
                            then (None, c\<lparr>key_of := (key_of c)[slot := Empty]\<rparr>)
                            else (Some slot, publish c slot key got pd)))))"

definition record_trace :: "'m cache_src \<Rightarrow> 'm eng_cache \<Rightarrow> nat \<Rightarrow> 'm eng_cache" where
  "record_trace src c key =
     (if \<not> want_trace (cfg c) then c
      else let c = (if length (trace c) + 1 > captrace c
                    then let nc = (if captrace c \<noteq> 0 then captrace c * 2 else 2 ^ 15)
                         in if realloc_ok (c_sys src) nc then c\<lparr>captrace := nc\<rparr> else c
                    else c)
           in if length (trace c) + 1 \<le> captrace c then c\<lparr>trace := trace c @ [key]\<rparr> else c)"

definition eng_cache_get ::
  "'m cache_src \<Rightarrow> 'm eng_cache \<Rightarrow> nat \<Rightarrow> 'm cache_entry option \<times> 'm eng_cache" where
  "eng_cache_get src c key =
     (if int key \<ge> nkeys (cfg c) then (None, c)
      else let c = c\<lparr>requests := requests c + 1,
                     hist := map_option (\<lambda>h. h[key := h ! key + 1]) (hist c)\<rparr>;
               c = record_trace src c key;
               (slot, c) = admit src c key
           in (map_option (entry_of c) slot, c))"

definition eng_cache_peek :: "'m eng_cache \<Rightarrow> nat \<Rightarrow> 'm cache_entry option" where
  "eng_cache_peek c key =
     (if int key \<ge> nkeys (cfg c) then None else map_option (entry_of c) (slot_of c ! key))"

text \<open>Phase 1 of \<open>eng_cache_get_many\<close>: resolve each miss and reserve it a slot, serially.\<close>

fun gm_reserve ::
  "'m cache_src \<Rightarrow> 'm eng_cache \<Rightarrow> nat list \<Rightarrow> 'm work list \<Rightarrow> 'm work list \<times> 'm eng_cache" where
  "gm_reserve src c [] w = (w, c)"
| "gm_reserve src c (k # ks) w =
     (if length w \<ge> ENG_CACHE_MAX_BATCH then (w, c)
      else if int k \<ge> nkeys (cfg c) then gm_reserve src c ks w
      else if slot_of c ! k \<noteq> None then gm_reserve src c ks w
      else if k \<in> w_key ` set w then gm_reserve src c ks w
      else (case pick_victim c of
              None \<Rightarrow> (w, c)
            | Some slot \<Rightarrow>
                (let (ok, need, m) = describe src k (meta c ! slot);
                     c = c\<lparr>meta := (meta c)[slot := m]\<rparr>
                 in if \<not> ok then gm_reserve src c ks w
                    else if need > slot_bytes (cfg c) then gm_reserve src c ks w
                    else let c = unregister c slot;
                             c = c\<lparr>key_of := (key_of c)[slot := Inflight],
                                   used_at := (used_at c)[slot := clock c + 1],
                                   clock := clock c + 1\<rparr>;
                             (dev, off) = (case locate src of None \<Rightarrow> (0, 0)
                                           | Some f \<Rightarrow> f (meta c ! slot))
                         in gm_reserve src c ks
                              (w @ [\<lparr>w_slot = slot, w_key = k, w_need = need, w_got = -1,
                                     w_pad = 0, w_device = dev, w_offset = off\<rparr>]))))"

text \<open>The storage-order insertion sort: the inner loop shifts larger entries right.\<close>

definition work_after :: "'m work \<Rightarrow> 'm work \<Rightarrow> bool" where
  "work_after a t \<longleftrightarrow> w_device a > w_device t \<or>
     (w_device a = w_device t \<and> w_offset a > w_offset t)"

fun work_insert :: "'m work \<Rightarrow> 'm work list \<Rightarrow> 'm work list" where
  "work_insert t [] = [t]"
| "work_insert t (a # rs) = (if work_after a t then a # work_insert t rs else t # a # rs)"

definition work_sort :: "'m work list \<Rightarrow> 'm work list" where
  "work_sort w = rev (foldl (\<lambda>done t. work_insert t done) [] w)"

text \<open>Phase 2: one read per reserved slot.  The source runs the iterations in parallel.\<close>

definition gm_read1 ::
  "'m cache_src \<Rightarrow> 'm eng_cache \<Rightarrow> 'm work \<Rightarrow> 'm work \<times> byte list" where
  "gm_read1 src c wk =
     (let (got, pd, buf) = load src (w_key wk) (meta c ! w_slot wk) (stride c)
      in (wk\<lparr>w_got := got, w_pad := pd\<rparr>, buf))"

fun gm_read ::
  "'m cache_src \<Rightarrow> 'm eng_cache \<Rightarrow> 'm work list \<Rightarrow> 'm work list \<times> 'm eng_cache" where
  "gm_read src c [] = ([], c)"
| "gm_read src c (wk # ws) =
     (let (wk', buf) = gm_read1 src c wk;
          (ws', c') = gm_read src (c\<lparr>arena := (arena c)[w_slot wk := buf]\<rparr>) ws
      in (wk' # ws', c'))"

text \<open>Phase 3: publish what arrived, and leave the slot of a short read empty.\<close>

fun gm_publish :: "'m eng_cache \<Rightarrow> 'm work list \<Rightarrow> nat \<Rightarrow> nat \<times> 'm eng_cache" where
  "gm_publish c [] ok = (ok, c)"
| "gm_publish c (wk # ws) ok =
     (if w_got wk \<noteq> w_need wk
      then gm_publish (c\<lparr>key_of := (key_of c)[w_slot wk := Empty]\<rparr>) ws ok
      else let c = publish c (w_slot wk) (w_key wk) (w_got wk) (w_pad wk)
           in gm_publish (c\<lparr>prefetch_reads := prefetch_reads c + 1\<rparr>) ws (ok + 1))"

definition eng_cache_get_many ::
  "'m cache_src \<Rightarrow> 'm eng_cache \<Rightarrow> nat list \<Rightarrow> nat \<times> 'm eng_cache" where
  "eng_cache_get_many src c keys =
     (let (w, c) = gm_reserve src c keys [] in
      if w = [] then (0, c)
      else let w = (if locate src \<noteq> None then work_sort w else w);
               (w, c) = gm_read src c w
           in gm_publish c w 0)"

definition eng_cache_pin :: "'m eng_cache \<Rightarrow> nat \<Rightarrow> bool \<Rightarrow> bool \<times> 'm eng_cache" where
  "eng_cache_pin c key p =
     (if int key \<ge> nkeys (cfg c) then (False, c)
      else case slot_of c ! key of
             None \<Rightarrow> (False, c)
           | Some slot \<Rightarrow> (True, c\<lparr>pinned := (pinned c)[slot := p]\<rparr>))"

text \<open>\<open>arena_request\<close>: the alignment and the size asked of \<open>posix_memalign\<close>.\<close>

definition arena_request :: "int \<Rightarrow> cache_sys \<Rightarrow> int \<Rightarrow> int \<times> int" where
  "arena_request hp os bytes =
     (let huge = (if hp < 0 then \<not> nohuge os else hp \<noteq> 0);
          al = (if huge then 2 * 2 ^ 20 else ENG_IO_ALIGN)
      in (al, if huge then (bytes + al - 1) AND NOT (al - 1) else bytes))"

definition eng_cache_create :: "cache_cfg \<Rightarrow> 'm cache_src \<Rightarrow> 'm eng_cache option" where
  "eng_cache_create cf src =
     (if nkeys cf \<le> 0 \<or> slot_bytes cf \<le> 0 then None
      else let st = eng_cache_stride_for (slot_bytes cf);
               ns = i32 (c_div (budget_bytes cf) st)
           in if ns < min_slots cf \<or> ns < 1 then None
              else let n = nat ns; k = nat (nkeys cf);
                       (al, want) = arena_request (hugepages cf) (c_sys src) (ns * st) in
                if \<not> memalign_ok (c_sys src) al want then None else
                Some \<lparr>cfg = cf, stride = st, nslot = n, arena = replicate n [], arena_bytes = want,
                      slot_of = replicate k None, key_of = replicate n Empty,
                      used_at = replicate n 0, pinned = replicate n False,
                      meta = replicate n (zero_meta src), pad = replicate n 0,
                      nbytes = replicate n 0, clock = 0, hits = 0, misses = 0,
                      evictions = 0, bytes_read = 0, prefetch_reads = 0, requests = 0,
                      hist = (if want_hist cf then Some (replicate k 0) else None),
                      trace = [], captrace = 0\<rparr>)"

definition eng_cache_reset_stats :: "'m eng_cache \<Rightarrow> 'm eng_cache" where
  "eng_cache_reset_stats c =
     c\<lparr>hits := 0, misses := 0, evictions := 0, bytes_read := 0, prefetch_reads := 0,
       requests := 0\<rparr>"

section \<open>The invariant\<close>

text \<open>
  The two index arrays are inverse to each other on resident keys, only resident slots are
  pinned, and no stamp is ahead of the clock.  \<open>quiescent\<close> says no read is in flight.
\<close>

definition cache_lens :: "'m eng_cache \<Rightarrow> bool" where
  "cache_lens c \<longleftrightarrow>
     length (arena c) = nslot c \<and> length (key_of c) = nslot c \<and> length (used_at c) = nslot c \<and>
     length (pinned c) = nslot c \<and> length (meta c) = nslot c \<and> length (pad c) = nslot c \<and>
     length (nbytes c) = nslot c \<and> length (slot_of c) = nat (nkeys (cfg c))"

definition cache_maps :: "'m eng_cache \<Rightarrow> bool" where
  "cache_maps c \<longleftrightarrow>
     (\<forall>k s. k < length (slot_of c) \<and> slot_of c ! k = Some s \<longrightarrow>
        s < length (key_of c) \<and> key_of c ! s = Holds k) \<and>
     (\<forall>s k. s < length (key_of c) \<and> key_of c ! s = Holds k \<longrightarrow>
        k < length (slot_of c) \<and> slot_of c ! k = Some s)"

definition cache_marks :: "'m eng_cache \<Rightarrow> bool" where
  "cache_marks c \<longleftrightarrow>
     (\<forall>s < nslot c. used_at c ! s \<le> clock c \<and> (pinned c ! s \<longrightarrow> (\<exists>k. key_of c ! s = Holds k)))"

definition cache_inv :: "'m eng_cache \<Rightarrow> bool" where
  "cache_inv c \<longleftrightarrow> cache_lens c \<and> cache_maps c \<and> cache_marks c"

definition quiescent :: "'m eng_cache \<Rightarrow> bool" where
  "quiescent c \<longleftrightarrow> Inflight \<notin> set (key_of c)"

lemmas cache_inv_defs = cache_inv_def cache_lens_def cache_maps_def cache_marks_def

lemma unregister_simps [simp]:
  "cfg (unregister c s) = cfg c" "stride (unregister c s) = stride c" "nslot (unregister c s) = nslot c"
  "arena (unregister c s) = arena c" "key_of (unregister c s) = key_of c"
  "used_at (unregister c s) = used_at c" "pinned (unregister c s) = pinned c"
  "meta (unregister c s) = meta c" "pad (unregister c s) = pad c" "nbytes (unregister c s) = nbytes c"
  "clock (unregister c s) = clock c" "hits (unregister c s) = hits c" "misses (unregister c s) = misses c"
  "bytes_read (unregister c s) = bytes_read c" "prefetch_reads (unregister c s) = prefetch_reads c"
  "requests (unregister c s) = requests c" "hist (unregister c s) = hist c"
  "trace (unregister c s) = trace c" "captrace (unregister c s) = captrace c"
  "length (slot_of (unregister c s)) = length (slot_of c)"
  by (simp_all add: unregister_def split: slot_state.split)

text \<open>The slot states only matter through these updates of the two index arrays.\<close>

lemma slot_of_unregister:
  "k < length (slot_of c) \<Longrightarrow>
   slot_of (unregister c s) ! k = (if key_of c ! s = Holds k then None else slot_of c ! k)"
  by (auto simp: unregister_def nth_list_update split: slot_state.split)

lemma slot_of_unregister_other [simp]:
  "k < length (slot_of c) \<Longrightarrow> slot_of c ! k = None \<Longrightarrow> slot_of (unregister c s) ! k = None"
  by (simp add: slot_of_unregister)

lemma cache_mapsI:
  assumes "\<And>k s. k < length (slot_of c) \<Longrightarrow> slot_of c ! k = Some s \<Longrightarrow>
      s < length (key_of c) \<and> key_of c ! s = Holds k"
    and "\<And>s k. s < length (key_of c) \<Longrightarrow> key_of c ! s = Holds k \<Longrightarrow>
      k < length (slot_of c) \<and> slot_of c ! k = Some s"
  shows "cache_maps c"
  using assms unfolding cache_maps_def by blast

lemma cache_mapsD1:
  assumes "cache_maps c" "k < length (slot_of c)" "slot_of c ! k = Some s"
  shows "s < length (key_of c)" "key_of c ! s = Holds k"
  using assms unfolding cache_maps_def by blast+

lemma cache_mapsD2:
  assumes "cache_maps c" "s < length (key_of c)" "key_of c ! s = Holds k"
  shows "k < length (slot_of c)" "slot_of c ! k = Some s"
  using assms unfolding cache_maps_def by blast+

lemma cache_maps_cong:
  assumes "cache_maps c" "slot_of d = slot_of c" "key_of d = key_of c"
  shows "cache_maps d"
  using assms(1) unfolding cache_maps_def assms(2,3) .

lemma maps_vacate:
  assumes c: "cache_maps c" "s < length (key_of c)" and x: "\<forall>k. x \<noteq> Holds k"
    and d: "slot_of d = slot_of (unregister c s)" "key_of d = (key_of c)[s := x]"
  shows "cache_maps d"
proof (rule cache_mapsI)
  fix k t assume k: "k < length (slot_of d)" "slot_of d ! k = Some t"
  then have "slot_of c ! k = Some t" "key_of c ! s \<noteq> Holds k"
    by (auto simp: d slot_of_unregister split: if_splits)
  with k cache_mapsD1 [OF c(1), of k t] show "t < length (key_of d) \<and> key_of d ! t = Holds k"
    by (cases "t = s") (auto simp: d)
next
  fix t k assume t: "t < length (key_of d)" "key_of d ! t = Holds k"
  with x c(2) have "t \<noteq> s" by (auto simp: d)
  with t have "t < length (key_of c)" "key_of c ! t = Holds k" by (auto simp: d)
  from cache_mapsD2 [OF c(1) this] have k: "k < length (slot_of c)" "slot_of c ! k = Some t" by blast+
  moreover have "key_of c ! s \<noteq> Holds k"
    using cache_mapsD2 [OF c, of k] k \<open>t \<noteq> s\<close> by auto
  ultimately show "k < length (slot_of d) \<and> slot_of d ! k = Some t"
    by (simp add: d slot_of_unregister)
qed

lemma maps_occupy:
  assumes c: "cache_maps c" "s < length (key_of c)" and k: "k < length (slot_of c)" "slot_of c ! k = None"
    and free: "\<forall>j. key_of c ! s \<noteq> Holds j"
    and d: "slot_of d = (slot_of c)[k := Some s]" "key_of d = (key_of c)[s := Holds k]"
  shows "cache_maps d"
proof (rule cache_mapsI)
  fix j t assume j: "j < length (slot_of d)" "slot_of d ! j = Some t"
  show "t < length (key_of d) \<and> key_of d ! t = Holds j"
  proof (cases "j = k")
    case True
    with j k c(2) show ?thesis by (simp add: d)
  next
    case False
    with j have "j < length (slot_of c)" "slot_of c ! j = Some t" by (auto simp: d)
    from cache_mapsD1 [OF c(1) this] free show ?thesis by (cases "t = s") (auto simp: d)
  qed
next
  fix t j assume t: "t < length (key_of d)" "key_of d ! t = Holds j"
  show "j < length (slot_of d) \<and> slot_of d ! j = Some t"
  proof (cases "t = s")
    case True
    with t k c(2) show ?thesis by (simp add: d)
  next
    case False
    with t have "t < length (key_of c)" "key_of c ! t = Holds j" by (auto simp: d)
    from cache_mapsD2 [OF c(1) this] k show ?thesis by (cases "j = k") (auto simp: d)
  qed
qed

lemma maps_replace:
  assumes "cache_maps c" "s < length (key_of c)" "k < length (slot_of c)" "slot_of c ! k = None"
    and "slot_of d = (slot_of (unregister c s))[k := Some s]" "key_of d = (key_of c)[s := Holds k]"
  shows "cache_maps d"
proof -
  let ?c = "(unregister c s)\<lparr>key_of := (key_of c)[s := Empty]\<rparr>"
  have "cache_maps ?c" by (rule maps_vacate [OF assms(1,2), of Empty]) auto
  then show ?thesis by (rule maps_occupy [where s = s and k = k]) (use assms in auto)
qed

section \<open>The victim search\<close>

definition evictable :: "'m eng_cache \<Rightarrow> nat \<Rightarrow> bool" where
  "evictable c i \<longleftrightarrow> (\<exists>k. key_of c ! i = Holds k) \<and> \<not> pinned c ! i"

lemma victim_scan_cases:
  assumes "victim_scan c is best oldest = Some v"
  shows "(v \<in> set is \<and> key_of c ! v = Empty) \<or> (best = Some v) \<or>
    (v \<in> set is \<and> evictable c v \<and> int (used_at c ! v) < oldest)"
  using assms
proof (induction "is" arbitrary: best oldest)
  case (Cons i "is")
  note IH = Cons.IH [of best oldest] Cons.IH [of "Some i" "int (used_at c ! i)"]
  show ?case
    using IH Cons.prems by (cases "key_of c ! i") (auto simp: evictable_def split: if_splits)
qed simp

lemma pick_victim_slot:
  assumes "pick_victim c = Some v"
  shows "v < nslot c" "key_of c ! v = Empty \<or> evictable c v" "key_of c ! v \<noteq> Inflight"
  using victim_scan_cases [OF assms [unfolded pick_victim_def]] by (auto simp: evictable_def)

lemma victim_scan_least:
  assumes "victim_scan c is best oldest = Some v" "\<forall>i \<in> set is. key_of c ! i \<noteq> Empty"
    and "\<forall>b. best = Some b \<longrightarrow> int (used_at c ! b) = oldest"
  shows "int (used_at c ! v) \<le> oldest \<and> (\<forall>i \<in> set is. evictable c i \<longrightarrow> used_at c ! v \<le> used_at c ! i)"
  using assms
proof (induction "is" arbitrary: best oldest)
  case (Cons i "is")
  consider (skip) "victim_scan c is best oldest = Some v" "evictable c i \<longrightarrow> oldest \<le> int (used_at c ! i)"
    | (take) "victim_scan c is (Some i) (int (used_at c ! i)) = Some v" "int (used_at c ! i) < oldest"
    using Cons.prems by (cases "key_of c ! i") (auto simp: evictable_def split: if_splits)
  then show ?case
  proof cases
    case skip
    with Cons.IH [OF skip(1)] Cons.prems have
      "int (used_at c ! v) \<le> oldest \<and> (\<forall>i \<in> set is. evictable c i \<longrightarrow> used_at c ! v \<le> used_at c ! i)"
      by simp
    with skip(2) show ?thesis by auto
  next
    case take
    from Cons.IH [OF take(1)] Cons.prems have
      "used_at c ! v \<le> used_at c ! i \<and>
       (\<forall>i \<in> set is. evictable c i \<longrightarrow> used_at c ! v \<le> used_at c ! i)"
      by simp
    with take(2) show ?thesis by auto
  qed
qed simp

lemma victim_scan_None:
  assumes "victim_scan c is best oldest = None"
  shows "best = None \<and> (\<forall>i \<in> set is. key_of c ! i \<noteq> Empty \<and> (evictable c i \<longrightarrow> oldest \<le> int (used_at c ! i)))"
  using assms
proof (induction "is" arbitrary: best oldest)
  case (Cons i "is")
  note IH = Cons.IH [of best oldest] Cons.IH [of "Some i" "int (used_at c ! i)"]
  show ?case
    using IH Cons.prems by (cases "key_of c ! i") (auto simp: evictable_def split: if_splits)
qed simp

section \<open>Every operation keeps the invariant\<close>

lemma cache_invD:
  assumes "cache_inv c"
  shows "cache_lens c" "cache_maps c" "cache_marks c"
  using assms by (auto simp: cache_inv_def)

lemma cache_lensD:
  assumes "cache_lens c"
  shows "length (arena c) = nslot c" "length (key_of c) = nslot c" "length (used_at c) = nslot c"
    "length (pinned c) = nslot c" "length (meta c) = nslot c" "length (pad c) = nslot c"
    "length (nbytes c) = nslot c" "length (slot_of c) = nat (nkeys (cfg c))"
  using assms by (auto simp: cache_lens_def)

lemma cache_marksD:
  assumes "cache_marks c" "s < nslot c"
  shows "used_at c ! s \<le> clock c" "pinned c ! s \<Longrightarrow> \<exists>k. key_of c ! s = Holds k"
  using assms by (auto simp: cache_marks_def)

text \<open>Marks survive touching one slot, as long as a pinned slot stays occupied.\<close>

lemma marks_touch:
  assumes "cache_marks c" "cache_lens c" "s < nslot c"
    and "nslot d = nslot c" "pinned d = pinned c" "clock c \<le> clock d"
    and "used_at d = (used_at c)[s := u] \<or> used_at d = used_at c" "u \<le> clock d"
    and "key_of d = (key_of c)[s := x]" "\<not> pinned c ! s \<or> (\<exists>k. x = Holds k)"
  shows "cache_marks d"
  unfolding cache_marks_def
proof (intro allI impI)
  fix t assume t: "t < nslot d"
  note m = cache_marksD [OF assms(1), of t]
  show "used_at d ! t \<le> clock d \<and> (pinned d ! t \<longrightarrow> (\<exists>k. key_of d ! t = Holds k))"
    using m t cache_lensD [OF assms(2)] assms(3-) by (cases "t = s") auto
qed

lemma victim_not_pinned:
  assumes "cache_inv c" "pick_victim c = Some s"
  shows "s < nslot c" "\<not> pinned c ! s"
  using pick_victim_slot [OF assms(2)] cache_marksD(2) [OF cache_invD(3) [OF assms(1)], of s]
  by (auto simp: evictable_def)

lemma cache_inv_touch_stats:
  assumes "cache_inv c" "cfg d = cfg c" "nslot d = nslot c" "slot_of d = slot_of c" "key_of d = key_of c"
    "used_at d = used_at c" "pinned d = pinned c" "clock d = clock c"
    "length (arena d) = length (arena c)" "length (meta d) = length (meta c)"
    "length (pad d) = length (pad c)" "length (nbytes d) = length (nbytes c)"
  shows "cache_inv d"
proof -
  note c = cache_invD [OF assms(1)]
  have "cache_lens d" using c(1) assms by (simp add: cache_lens_def)
  moreover have "cache_maps d" by (rule cache_maps_cong [OF c(2) assms(4,5)])
  moreover have "cache_marks d" using c(3) assms by (simp add: cache_marks_def)
  ultimately show ?thesis by (simp add: cache_inv_def)
qed

lemma vacate_inv:
  assumes "cache_inv c" "s < nslot c" "\<not> pinned c ! s" "\<forall>k. x \<noteq> Holds k"
    and "cfg d = cfg c" "nslot d = nslot c" "slot_of d = slot_of (unregister c s)"
    "key_of d = (key_of c)[s := x]" "pinned d = pinned c" "clock c \<le> clock d" "u \<le> clock d"
    "used_at d = (used_at c)[s := u] \<or> used_at d = used_at c"
    "length (arena d) = length (arena c)" "length (meta d) = length (meta c)"
    "length (pad d) = length (pad c)" "length (nbytes d) = length (nbytes c)"
  shows "cache_inv d"
proof -
  note c = cache_invD [OF assms(1)]
  have "cache_lens d" using c(1) assms by (auto simp: cache_lens_def)
  moreover have "cache_maps d" by (rule maps_vacate [OF c(2) _ assms(4,7,8)]) (use cache_lensD [OF c(1)] assms(2) in simp)
  moreover have "cache_marks d"
    by (rule marks_touch [OF c(3) c(1) assms(2,6,9,10,12,11,8)]) (use assms(3) in simp)
  ultimately show ?thesis by (simp add: cache_inv_def)
qed

lemma publish_simps [simp]:
  "cfg (publish c s k g p) = cfg c" "stride (publish c s k g p) = stride c"
  "nslot (publish c s k g p) = nslot c" "arena (publish c s k g p) = arena c"
  "meta (publish c s k g p) = meta c" "pinned (publish c s k g p) = pinned c"
  "pad (publish c s k g p) = (pad c)[s := i32 p]" "nbytes (publish c s k g p) = (nbytes c)[s := g]"
  "key_of (publish c s k g p) = (key_of c)[s := Holds k]"
  "slot_of (publish c s k g p) = (slot_of c)[k := Some s]"
  "used_at (publish c s k g p) = (used_at c)[s := clock c + 1]"
  "clock (publish c s k g p) = clock c + 1"
  "hits (publish c s k g p) = hits c" "misses (publish c s k g p) = misses c"
  "evictions (publish c s k g p) = evictions c" "requests (publish c s k g p) = requests c"
  "prefetch_reads (publish c s k g p) = prefetch_reads c"
  by (simp_all add: publish_def)

lemma publish_inv:
  assumes "cache_inv c" "s < nslot c" "int k < nkeys (cfg c)" "slot_of c ! k = None"
    and "\<forall>j. key_of c ! s \<noteq> Holds j"
  shows "cache_inv (publish c s k g p)"
proof -
  note c = cache_invD [OF assms(1)]
  have k: "k < length (slot_of c)" using cache_lensD [OF c(1)] assms(3) by simp
  have "cache_lens (publish c s k g p)" using c(1) by (auto simp: cache_lens_def)
  moreover have "cache_maps (publish c s k g p)"
    by (rule maps_occupy [OF c(2) _ k assms(4,5)]) (use cache_lensD [OF c(1)] assms(2) in auto)
  moreover have "cache_marks (publish c s k g p)"
    by (rule marks_touch [OF c(3,1) assms(2)]) auto
  ultimately show ?thesis by (simp add: cache_inv_def)
qed

text \<open>The object a key stands for, as the source describes and loads it.\<close>

definition object_of :: "'m cache_src \<Rightarrow> int \<Rightarrow> nat \<Rightarrow> (byte list \<times> int \<times> 'm) option" where
  "object_of src cap k =
     (let (ok, need, m) = describe src k (zero_meta src); (got, pd, buf) = load src k m cap
      in if ok \<and> got = need then Some (slice (i32 pd) got buf, got, m) else None)"

definition slot_object :: "'m eng_cache \<Rightarrow> nat \<Rightarrow> byte list \<times> int \<times> 'm" where
  "slot_object c s = (slice (pad c ! s) (nbytes c ! s) (arena c ! s), nbytes c ! s, meta c ! s)"

text \<open>
  A slot holds the object of a key: its bytes and size, and with \<open>st\<close> its metadata as well.
\<close>

definition slot_ok :: "bool \<Rightarrow> 'm cache_src \<Rightarrow> 'm eng_cache \<Rightarrow> nat \<Rightarrow> nat \<Rightarrow> bool" where
  "slot_ok st src c s k \<longleftrightarrow>
     (\<exists>m. object_of src (stride c) k = Some (slice (pad c ! s) (nbytes c ! s) (arena c ! s), nbytes c ! s, m) \<and> (st \<longrightarrow> m = meta c ! s))"

lemma slot_okI: "Some (slot_object c s) = object_of src (stride c) k \<Longrightarrow> slot_ok st src c s k"
  unfolding slot_ok_def slot_object_def by (rule exI [of _ "meta c ! s"]) simp

lemma slot_ok_cong: "slot_object d s = slot_object c s \<Longrightarrow> stride d = stride c \<Longrightarrow> slot_ok st src d s k = slot_ok st src c s k"
proof -
  have e: "slot_ok st src c s k \<longleftrightarrow> (\<exists>m. object_of src (stride c) k = Some (fst (slot_object c s), fst (snd (slot_object c s)), m) \<and>
      (st \<longrightarrow> m = snd (snd (slot_object c s))))" for c by (simp add: slot_ok_def slot_object_def)
  show "slot_object d s = slot_object c s \<Longrightarrow> stride d = stride c \<Longrightarrow> ?thesis" by (simp only: e)
qed

definition data_ok :: "bool \<Rightarrow> 'm cache_src \<Rightarrow> 'm eng_cache \<Rightarrow> bool" where
  "data_ok st src c \<longleftrightarrow> (\<forall>s < nslot c. \<forall>k. key_of c ! s = Holds k \<longrightarrow> slot_ok st src c s k)"

lemma data_okD:
  assumes "data_ok st src c" "s < nslot c" "key_of c ! s = Holds k"
  shows "slot_ok st src c s k"
  using assms by (auto simp: data_ok_def)

text \<open>Data survives a change to one slot that does not leave it occupied by a wrong object.\<close>

lemma data_ok_change:
  assumes "data_ok st src c" "cache_lens c"
    and "nslot d = nslot c" "stride d = stride c" "key_of d = (key_of c)[s := x]"
    and "\<And>t. t < nslot c \<Longrightarrow> t \<noteq> s \<Longrightarrow> slot_object d t = slot_object c t"
    and "\<And>k. s < nslot c \<Longrightarrow> x = Holds k \<Longrightarrow> slot_ok st src d s k"
  shows "data_ok st src d"
  unfolding data_ok_def
proof (intro allI impI)
  fix t k assume t: "t < nslot d" "key_of d ! t = Holds k"
  show "slot_ok st src d t k"
  proof (cases "t = s")
    case True
    with t assms(7) [of k] cache_lensD [OF assms(2)] assms(3-5) show ?thesis by simp
  next
    case False
    with t data_okD [OF assms(1), of t k] slot_ok_cong [of d t c st src k] assms(3-6) show ?thesis by simp
  qed
qed

definition admit_miss :: "'m cache_src \<Rightarrow> 'm eng_cache \<Rightarrow> nat \<Rightarrow> nat \<Rightarrow> 'm \<Rightarrow> 'm eng_cache" where
  "admit_miss src c key slot m =
     (unregister c slot)\<lparr>meta := (meta c)[slot := m],
        arena := (arena c)[slot := snd (snd (load src key m (stride c)))]\<rparr>"

text \<open>The four outcomes of \<open>admit\<close>.\<close>

lemma admit_cases:
  assumes "admit src c key = (r, c')" "cache_inv c" "int key < nkeys (cfg c)"
  obtains (hit) s where "slot_of c ! key = Some s" "r = Some s"
      "c' = c\<lparr>hits := hits c + 1, clock := clock c + 1, used_at := (used_at c)[s := clock c + 1]\<rparr>"
  | (refused) "slot_of c ! key = None" "r = None" "c' = c\<lparr>misses := misses c + 1\<rparr>"
  | (short) s need m where "slot_of c ! key = None" "r = None" "pick_victim c = Some s"
      "describe src key (zero_meta src) = (True, need, m)"
      "fst (load src key m (stride c)) \<noteq> need"
      "c' = (admit_miss src (c\<lparr>misses := misses c + 1\<rparr>) key s m)\<lparr>key_of := (key_of c)[s := Empty]\<rparr>"
  | (loaded) s need m pd where "slot_of c ! key = None" "r = Some s" "pick_victim c = Some s"
      "describe src key (zero_meta src) = (True, need, m)" "need \<le> slot_bytes (cfg c)"
      "fst (load src key m (stride c)) = need" "pd = fst (snd (load src key m (stride c)))"
      "c' = publish (admit_miss src (c\<lparr>misses := misses c + 1\<rparr>) key s m) s key need pd"
proof -
  have pv: "pick_victim (c\<lparr>misses := misses c + 1\<rparr>) = pick_victim c"
  proof -
    have "victim_scan (c\<lparr>misses := misses c + 1\<rparr>) is b old = victim_scan c is b old" for "is" b old
      by (induction "is" arbitrary: b old) (auto split: slot_state.splits)
    then show ?thesis by (simp add: pick_victim_def)
  qed
  obtain ok need m where dd: "describe src key (zero_meta src) = (ok, need, m)" by (cases "describe src key (zero_meta src)")
  obtain got pd buf where ll: "load src key m (stride c) = (got, pd, buf)" by (cases "load src key m (stride c)")
  note ls = cache_lensD [OF cache_invD(1) [OF assms(2)]]
  show thesis
  proof (cases "slot_of c ! key")
    case (Some s)
    with assms(1) show thesis by (intro hit) (auto simp: admit_def)
  next
    case None
    show thesis
    proof (cases "ok \<and> need \<le> slot_bytes (cfg c) \<and> pick_victim c \<noteq> None")
      case False
      with None dd pv assms(1) show thesis
        by (intro refused) (auto simp: admit_def Let_def split: option.splits if_splits)
    next
      case True
      then obtain s where s: "pick_victim c = Some s" by auto
      with victim_not_pinned [OF assms(2)] ls have "s < length (meta c)" by simp
      then have "(r, c') = (if got \<noteq> need
          then (None, (admit_miss src (c\<lparr>misses := misses c + 1\<rparr>) key s m)\<lparr>key_of := (key_of c)[s := Empty]\<rparr>)
          else (Some s, publish (admit_miss src (c\<lparr>misses := misses c + 1\<rparr>) key s m) s key need pd))"
        using assms(1) True None dd pv ll s
        by (cases "got = need") (simp_all add: admit_def admit_miss_def Let_def)
      with True None dd ll s show thesis
        by (cases "got = need") (auto intro: short loaded)
    qed
  qed
qed

lemma admit_miss_simps [simp]:
  "cfg (admit_miss src c k s m) = cfg c" "stride (admit_miss src c k s m) = stride c"
  "nslot (admit_miss src c k s m) = nslot c" "key_of (admit_miss src c k s m) = key_of c"
  "slot_of (admit_miss src c k s m) = slot_of (unregister c s)"
  "used_at (admit_miss src c k s m) = used_at c" "pinned (admit_miss src c k s m) = pinned c"
  "clock (admit_miss src c k s m) = clock c" "hits (admit_miss src c k s m) = hits c"
  "misses (admit_miss src c k s m) = misses c" "requests (admit_miss src c k s m) = requests c"
  "pad (admit_miss src c k s m) = pad c" "nbytes (admit_miss src c k s m) = nbytes c"
  "meta (admit_miss src c k s m) = (meta c)[s := m]"
  "arena (admit_miss src c k s m) = (arena c)[s := snd (snd (load src k m (stride c)))]"
  by (simp_all add: admit_miss_def)

lemma slot_of_unregister_cong [simp]: "slot_of (unregister (c\<lparr>misses := x\<rparr>) s) = slot_of (unregister c s)"
  by (simp add: unregister_def split: slot_state.split)

lemma admit_inv:
  assumes "admit src c key = (r, c')" "cache_inv c" "int key < nkeys (cfg c)"
  shows "cache_inv c'"
  using assms
proof (cases rule: admit_cases)
  case (hit s)
  note c = cache_invD [OF assms(2)] and ls = cache_lensD [OF cache_invD(1) [OF assms(2)]]
  have s: "s < nslot c" "key_of c ! s = Holds key"
    using cache_mapsD1 [OF c(2) _ hit(1)] ls assms(3) by auto
  have same: "(key_of c)[s := Holds key] = key_of c" using list_update_id [of "key_of c" s] s(2) by simp
  have "cache_marks c'"
    by (rule marks_touch [OF c(3,1) s(1), where x = "Holds key" and u = "clock c + 1"])
      (simp_all add: hit same)
  moreover have "cache_maps c'" by (rule cache_maps_cong [OF c(2)]) (simp_all add: hit)
  moreover have "cache_lens c'" using ls by (simp add: hit cache_lens_def)
  ultimately show ?thesis by (simp add: cache_inv_def)
next
  case refused
  with assms(2) show ?thesis by (intro cache_inv_touch_stats [OF assms(2)]) auto
next
  case (short s need m)
  note v = victim_not_pinned [OF assms(2) short(3)]
  show ?thesis
    by (rule vacate_inv [OF assms(2) v, where x = Empty and u = 0]) (auto simp: short)
next
  case (loaded s need m pd)
  note c = cache_invD [OF assms(2)] and ls = cache_lensD [OF cache_invD(1) [OF assms(2)]]
  note v = victim_not_pinned [OF assms(2) loaded(3)]
  have "cache_maps c'"
    by (rule maps_replace [OF c(2), of s key]) (use v ls assms(3) loaded in auto)
  moreover have "cache_marks c'"
    by (rule marks_touch [OF c(3,1) v(1), where x = "Holds key" and u = "clock c + 1"]) (auto simp: loaded)
  moreover have "cache_lens c'" using ls by (simp add: loaded cache_lens_def)
  ultimately show ?thesis by (simp add: cache_inv_def)
qed

lemma admit_data:
  assumes "admit src c key = (r, c')" "cache_inv c" "int key < nkeys (cfg c)" "data_ok st src c"
  shows "data_ok st src c'"
  using assms(1-3)
proof (cases rule: admit_cases)
  case (hit s)
  then show ?thesis using assms(4) by (simp add: data_ok_def slot_ok_def)
next
  case refused
  then show ?thesis using assms(4) by (simp add: data_ok_def slot_ok_def)
next
  case (short s need m)
  show ?thesis
    by (rule data_ok_change [OF assms(4) cache_invD(1) [OF assms(2)], where s = s and x = Empty])
      (auto simp: short slot_object_def)
next
  case (loaded s need m pd)
  have "Some (slot_object c' s) = object_of src (stride c) key"
    using loaded victim_not_pinned [OF assms(2) loaded(3)] cache_lensD [OF cache_invD(1) [OF assms(2)]]
    by (cases "load src key m (stride c)") (auto simp: slot_object_def object_of_def)
  moreover have "stride c' = stride c" by (simp add: loaded)
  ultimately have "slot_ok st src c' s key" by (intro slot_okI) simp
  then show ?thesis
    by (intro data_ok_change [OF assms(4) cache_invD(1) [OF assms(2)], where s = s and x = "Holds key"])
      (auto simp: loaded slot_object_def)
qed

lemma admit_result:
  assumes "admit src c key = (Some s, c')" "cache_inv c" "int key < nkeys (cfg c)"
  shows "s < nslot c' \<and> key_of c' ! s = Holds key \<and> stride c' = stride c \<and> slot_of c' ! key = Some s"
  using assms
proof (cases rule: admit_cases)
  case (hit t)
  then show ?thesis
    using cache_mapsD1 [OF cache_invD(2) [OF assms(2)] _ hit(1)] assms(3)
      cache_lensD [OF cache_invD(1) [OF assms(2)]] by auto
next
  case (loaded t need m pd)
  then show ?thesis
    using victim_not_pinned [OF assms(2) loaded(3)] cache_lensD [OF cache_invD(1) [OF assms(2)]] assms(3)
    by auto
qed auto

lemma record_trace_simps [simp]:
  "cfg (record_trace src c k) = cfg c" "stride (record_trace src c k) = stride c"
  "nslot (record_trace src c k) = nslot c" "arena (record_trace src c k) = arena c"
  "slot_of (record_trace src c k) = slot_of c" "key_of (record_trace src c k) = key_of c"
  "used_at (record_trace src c k) = used_at c" "pinned (record_trace src c k) = pinned c"
  "meta (record_trace src c k) = meta c" "pad (record_trace src c k) = pad c"
  "nbytes (record_trace src c k) = nbytes c" "clock (record_trace src c k) = clock c"
  "hits (record_trace src c k) = hits c" "misses (record_trace src c k) = misses c"
  "requests (record_trace src c k) = requests c" "hist (record_trace src c k) = hist c"
  "evictions (record_trace src c k) = evictions c"
  by (simp_all add: record_trace_def Let_def)

text \<open>The state in which \<open>eng_cache_get\<close> calls \<open>admit\<close>.\<close>

definition get_noted :: "'m cache_src \<Rightarrow> 'm eng_cache \<Rightarrow> nat \<Rightarrow> 'm eng_cache" where
  "get_noted src c key = record_trace src
     (c\<lparr>requests := requests c + 1,
        hist := map_option (\<lambda>h. h[key := h ! key + 1]) (hist c)\<rparr>) key"

lemma get_noted_simps [simp]:
  "cfg (get_noted src c k) = cfg c" "stride (get_noted src c k) = stride c"
  "nslot (get_noted src c k) = nslot c" "arena (get_noted src c k) = arena c"
  "slot_of (get_noted src c k) = slot_of c" "key_of (get_noted src c k) = key_of c"
  "used_at (get_noted src c k) = used_at c" "pinned (get_noted src c k) = pinned c"
  "meta (get_noted src c k) = meta c" "pad (get_noted src c k) = pad c"
  "nbytes (get_noted src c k) = nbytes c" "clock (get_noted src c k) = clock c"
  "hits (get_noted src c k) = hits c" "misses (get_noted src c k) = misses c"
  "requests (get_noted src c k) = requests c + 1"
  by (simp_all add: get_noted_def)

lemma get_noted_inv [simp]: "cache_inv c \<Longrightarrow> cache_inv (get_noted src c k)"
  by (rule cache_inv_touch_stats) auto

lemma get_noted_data [simp]: "data_ok st src (get_noted src' c k) = data_ok st src c"
  by (simp add: data_ok_def slot_ok_def)

lemma eng_cache_get_in_range:
  assumes "int key < nkeys (cfg c)"
  shows "eng_cache_get src c key =
    (let (slot, c') = admit src (get_noted src c key) key in (map_option (entry_of c') slot, c'))"
  using assms by (simp add: eng_cache_get_def get_noted_def Let_def)

lemma get_inv: "cache_inv c \<Longrightarrow> cache_inv (snd (eng_cache_get src c key))"
proof (cases "int key < nkeys (cfg c)")
  case True
  obtain r c' where "admit src (get_noted src c key) key = (r, c')" by fastforce
  moreover assume "cache_inv c"
  ultimately show ?thesis
    using admit_inv [of src "get_noted src c key" key r c'] True by (simp add: eng_cache_get_in_range)
qed (simp add: eng_cache_get_def)

lemma get_data:
  "cache_inv c \<Longrightarrow> data_ok st src c \<Longrightarrow> data_ok st src (snd (eng_cache_get src c key))"
proof (cases "int key < nkeys (cfg c)")
  case True
  obtain r c' where "admit src (get_noted src c key) key = (r, c')" by fastforce
  moreover assume "cache_inv c" "data_ok st src c"
  ultimately show ?thesis
    using admit_data [of src "get_noted src c key" key r c'] True by (simp add: eng_cache_get_in_range)
qed (simp add: eng_cache_get_def)

lemma get_entry:
  assumes "cache_inv c" "data_ok st src c" "eng_cache_get src c key = (Some e, c')"
  shows "(\<exists>m. object_of src (stride c) key = Some (e_data e, e_nbytes e, m) \<and> (st \<longrightarrow> m = e_meta e)) \<and>
    slot_of c' ! key = Some (e_slot e) \<and> stride c' = stride c"
proof -
  have k: "int key < nkeys (cfg c)" using assms(3) by (auto simp: eng_cache_get_def split: if_splits)
  with assms(3) obtain s where a: "admit src (get_noted src c key) key = (Some s, c')"
    and e: "e = entry_of c' s"
    by (auto simp: eng_cache_get_in_range split: prod.splits)
  from admit_result [OF a] k assms(1) have r: "s < nslot c'" "key_of c' ! s = Holds key" "stride c' = stride c"
    "slot_of c' ! key = Some s" by auto
  have "data_ok st src c'" using admit_data [OF a] assms(1,2) k by simp
  from data_okD [OF this r(1,2)] r show ?thesis by (simp add: e entry_of_def slot_ok_def)
qed

lemma pin_inv: "cache_inv c \<Longrightarrow> cache_inv (snd (eng_cache_pin c key p))"
proof (cases "int key < nkeys (cfg c) \<and> slot_of c ! key \<noteq> None")
  case True
  assume inv: "cache_inv c"
  from True obtain s where s: "slot_of c ! key = Some s" by auto
  note c = cache_invD [OF inv] and ls = cache_lensD [OF cache_invD(1) [OF inv]]
  from cache_mapsD1 [OF c(2) _ s] True ls have k: "s < nslot c" "key_of c ! s = Holds key" by auto
  let ?d = "c\<lparr>pinned := (pinned c)[s := p]\<rparr>"
  have "cache_marks ?d" unfolding cache_marks_def
  proof (intro allI impI)
    fix t assume "t < nslot ?d"
    then show "used_at ?d ! t \<le> clock ?d \<and> (pinned ?d ! t \<longrightarrow> (\<exists>k. key_of ?d ! t = Holds k))"
      using cache_marksD [OF c(3), of t] k ls by (cases "t = s") auto
  qed
  moreover have "cache_maps ?d" by (rule cache_maps_cong [OF c(2)]) auto
  moreover have "cache_lens ?d" using ls by (simp add: cache_lens_def)
  ultimately show ?thesis using True s by (simp add: eng_cache_pin_def cache_inv_def)
qed (auto simp: eng_cache_pin_def)

lemma create_inv:
  assumes "eng_cache_create cf src = Some c"
  shows "cache_inv c" "data_ok st src c" "quiescent c" "1 \<le> nslot c" "cfg c = cf"
    "stride c = eng_cache_stride_for (slot_bytes cf)" "min_slots cf \<le> int (nslot c)"
    "hits c = 0" "misses c = 0" "requests c = 0" "clock c = 0"
    "key_of c = replicate (nslot c) Empty" "pinned c = replicate (nslot c) False"
  using assms by (auto simp: eng_cache_create_def Let_def case_prod_beta cache_inv_defs data_ok_def quiescent_def
      split: if_splits)

end
