(* ===== verification/Cache_Batch.thy ===== *)
theory Cache_Batch
  imports Weight_Cache "HOL-Library.Multiset"
begin

text \<open>
  The three-phase batch admission \<open>eng_cache_get_many\<close> of \<^verbatim>\<open>src/storage/cache.c\<close>: what
  its phases keep, why the slots of one batch are pairwise distinct, and what the cache
  serves afterwards.  \<open>gm_inv c w\<close> relates the work list to the slots in flight.
\<close>

definition gm_inv :: "'m eng_cache \<Rightarrow> 'm work list \<Rightarrow> bool" where
  "gm_inv c w \<longleftrightarrow> distinct (map w_slot w) \<and> distinct (map w_key w) \<and>
     (\<forall>wk \<in> set w. w_slot wk < nslot c \<and> key_of c ! w_slot wk = Inflight \<and>
        int (w_key wk) < nkeys (cfg c) \<and> slot_of c ! w_key wk = None) \<and>
     (\<forall>s < nslot c. key_of c ! s = Inflight \<longrightarrow> s \<in> w_slot ` set w)"

definition gm_meta :: "'m cache_src \<Rightarrow> 'm eng_cache \<Rightarrow> 'm work list \<Rightarrow> bool" where
  "gm_meta src c w \<longleftrightarrow>
     (\<forall>wk \<in> set w. describe src (w_key wk) (zero_meta src) = (True, w_need wk, meta c ! w_slot wk))"

text \<open>
  A source whose \<open>describe\<close> fills the metadata independently of the buffer's old contents, and, with
  \<open>st\<close>, leaves it alone when the key will not be admitted.
\<close>

definition faithful_at :: "bool \<Rightarrow> 'm cache_src \<Rightarrow> int \<Rightarrow> nat \<Rightarrow> bool" where
  "faithful_at st src sb k \<longleftrightarrow>
     (\<forall>m ok need m'. describe src k m = (ok, need, m') \<longrightarrow>
        (if ok \<and> need \<le> sb then describe src k (zero_meta src) = (True, need, m') else st \<longrightarrow> m' = m))"

text \<open>What the comment on \<open>describe\<close> asks for: on success the metadata is filled.\<close>

definition fills_meta :: "'m cache_src \<Rightarrow> bool" where
  "fills_meta src \<longleftrightarrow> (\<forall>k m need m'. describe src k m = (True, need, m') \<longrightarrow> describe src k (zero_meta src) = (True, need, m'))"

text \<open>What it does not say: a refused or oversized key leaves the metadata it was given alone.\<close>

definition quiet_refusal :: "'m cache_src \<Rightarrow> int \<Rightarrow> bool" where
  "quiet_refusal src sb \<longleftrightarrow> (\<forall>k m ok need m'. describe src k m = (ok, need, m') \<longrightarrow> \<not> (ok \<and> need \<le> sb) \<longrightarrow> m' = m)"

lemma filled_faithful: "fills_meta src \<Longrightarrow> st \<longrightarrow> quiet_refusal src sb \<Longrightarrow> faithful_at st src sb k"
  unfolding faithful_at_def fills_meta_def quiet_refusal_def by (auto split: if_splits)

definition reserved :: "'m eng_cache \<Rightarrow> nat \<Rightarrow> 'm \<Rightarrow> 'm eng_cache" where
  "reserved c slot m = (unregister (c\<lparr>meta := (meta c)[slot := m]\<rparr>) slot)
     \<lparr>key_of := (key_of c)[slot := Inflight], used_at := (used_at c)[slot := clock c + 1],
      clock := clock c + 1\<rparr>"

lemma slot_of_unregister_meta [simp]:
  "slot_of (unregister (c\<lparr>meta := x\<rparr>) s) = slot_of (unregister c s)"
  by (simp add: unregister_def split: slot_state.split)

lemma reserved_simps [simp]:
  "cfg (reserved c s m) = cfg c" "stride (reserved c s m) = stride c" "nslot (reserved c s m) = nslot c"
  "arena (reserved c s m) = arena c" "pinned (reserved c s m) = pinned c"
  "pad (reserved c s m) = pad c" "nbytes (reserved c s m) = nbytes c"
  "meta (reserved c s m) = (meta c)[s := m]" "key_of (reserved c s m) = (key_of c)[s := Inflight]"
  "used_at (reserved c s m) = (used_at c)[s := clock c + 1]" "clock (reserved c s m) = clock c + 1"
  "slot_of (reserved c s m) = slot_of (unregister c s)"
  by (simp_all add: reserved_def)

lemma reserved_inv:
  assumes "cache_inv c" "pick_victim c = Some s"
  shows "cache_inv (reserved c s m)"
  using victim_not_pinned [OF assms]
  by (intro vacate_inv [OF assms(1), where s = s and x = Inflight and u = "clock c + 1"]) auto

lemma meta_only_inv: "cache_inv c \<Longrightarrow> cache_inv (c\<lparr>meta := (meta c)[s := m]\<rparr>)"
  by (rule cache_inv_touch_stats) auto

lemma reserved_gm_inv:
  assumes inv: "cache_inv c" "gm_inv c w" and s: "pick_victim c = Some s"
    and k: "int k < nkeys (cfg c)" "slot_of c ! k = None" "k \<notin> w_key ` set w"
    and wk: "w_slot wk = s" "w_key wk = k"
  shows "gm_inv (reserved c s m) (w @ [wk])"
proof -
  note ls = cache_lensD [OF cache_invD(1) [OF inv(1)]]
  note v = pick_victim_slot [OF s]
  have "s \<notin> w_slot ` set w" using inv(2) v(3) by (auto simp: gm_inv_def)
  moreover have "slot_of (unregister c s) ! j = None" if "j < nat (nkeys (cfg c))" "slot_of c ! j = None" for j
    using that ls by simp
  ultimately show ?thesis
    using inv(2) v(1) k wk ls unfolding gm_inv_def
    by (auto simp: nth_list_update split: if_splits)
qed

lemma reserved_data:
  assumes "cache_inv c" "data_ok st src c" "pick_victim c = Some s"
  shows "data_ok st src (reserved c s m)"
  by (rule data_ok_change [OF assms(2) cache_invD(1) [OF assms(1)], where s = s and x = Inflight])
    (auto simp: slot_object_def)

lemma reserved_gm_meta:
  assumes "cache_inv c" "gm_inv c w" "gm_meta src c w" "pick_victim c = Some s"
    and "describe src (w_key wk) (zero_meta src) = (True, w_need wk, m)" "w_slot wk = s"
  shows "gm_meta src (reserved c s m) (w @ [wk])"
proof -
  have "s \<notin> w_slot ` set w" using assms(2) pick_victim_slot(3) [OF assms(4)] by (auto simp: gm_inv_def)
  moreover have "s < length (meta c)"
    using pick_victim_slot(1) [OF assms(4)] cache_lensD [OF cache_invD(1) [OF assms(1)]] by simp
  ultimately show ?thesis using assms(3,5,6) by (auto simp: gm_meta_def nth_list_update)
qed

section \<open>Phase 1: reservation\<close>

text \<open>One key of the batch either changes nothing but the victim's metadata, or reserves a slot.\<close>

lemma gm_reserve_step:
  assumes "gm_reserve src c (k # ks) w = (w', c')" "cache_inv c"
  obtains (stop) "w' = w" "c' = c"
  | (skip) "gm_reserve src c ks w = (w', c')"
  | (refuse) s ok need m where "pick_victim c = Some s" "describe src k (meta c ! s) = (ok, need, m)"
      "\<not> (ok \<and> need \<le> slot_bytes (cfg c))"
      "gm_reserve src (c\<lparr>meta := (meta c)[s := m]\<rparr>) ks w = (w', c')" "int k < nkeys (cfg c)"
  | (take) s need m wk where "pick_victim c = Some s" "describe src k (meta c ! s) = (True, need, m)"
      "need \<le> slot_bytes (cfg c)" "int k < nkeys (cfg c)" "slot_of c ! k = None"
      "k \<notin> w_key ` set w" "w_slot wk = s" "w_key wk = k" "w_need wk = need"
      "length w < ENG_CACHE_MAX_BATCH"
      "gm_reserve src (reserved c s m) ks (w @ [wk]) = (w', c')"
proof (cases "length w \<ge> ENG_CACHE_MAX_BATCH \<or> (int k < nkeys (cfg c) \<and> slot_of c ! k = None \<and>
    k \<notin> w_key ` set w \<and> pick_victim c = None)")
  case True
  then show thesis using assms(1) by (intro stop) (auto split: if_splits)
next
  case False
  show thesis
  proof (cases "int k \<ge> nkeys (cfg c) \<or> slot_of c ! k \<noteq> None \<or> k \<in> w_key ` set w")
    case True
    then show thesis using False assms(1) by (intro skip) (auto split: if_splits)
  next
    case adm: False
    with False obtain s where s: "pick_victim c = Some s" by auto
    obtain ok need m where d: "describe src k (meta c ! s) = (ok, need, m)"
      by (cases "describe src k (meta c ! s)")
    have sl: "s < length (meta c)"
      using victim_not_pinned(1) [OF assms(2) s] cache_lensD [OF cache_invD(1) [OF assms(2)]] by simp
    show thesis
    proof (cases "ok \<and> need \<le> slot_bytes (cfg c)")
      case r: False
      show thesis
        by (rule refuse [OF s d r]) (use assms(1) False adm s d r in \<open>auto simp: Let_def split: if_splits\<close>)
    next
      case t: True
      obtain dev off where lo: "(dev, off) = (case locate src of None \<Rightarrow> (0, 0) | Some f \<Rightarrow> f m)"
        by (metis surj_pair)
      let ?wk = "\<lparr>w_slot = s, w_key = k, w_need = need, w_got = -1, w_pad = 0,
         w_device = dev, w_offset = off\<rparr>"
      have "gm_reserve src (reserved c s m) ks (w @ [?wk]) = (w', c')"
        using assms(1) False adm s d t sl lo [symmetric]
        by (simp add: Let_def reserved_def split: option.splits)
      then show thesis using t False adm d by (intro take [OF s, of need m ?wk]) auto
    qed
  qed
qed

lemma gm_reserve_inv:
  assumes "gm_reserve src c ks w = (w', c')" "cache_inv c" "gm_inv c w" "length w \<le> ENG_CACHE_MAX_BATCH"
  shows "cache_inv c' \<and> gm_inv c' w' \<and> length w' \<le> ENG_CACHE_MAX_BATCH \<and>
    cfg c' = cfg c \<and> stride c' = stride c \<and> nslot c' = nslot c \<and> w_key ` set w' \<subseteq> w_key ` set w \<union> set ks"
  using assms
proof (induction ks arbitrary: c w)
  case (Cons k ks)
  from Cons.prems(1,2) show ?case
  proof (cases rule: gm_reserve_step)
    case stop
    then show ?thesis using Cons.prems by auto
  next
    case skip
    then show ?thesis using Cons.IH [OF skip] Cons.prems by auto
  next
    case (refuse s ok need m)
    have "gm_inv (c\<lparr>meta := (meta c)[s := m]\<rparr>) w" using Cons.prems(3) by (simp add: gm_inv_def)
    from Cons.IH [OF refuse(4) meta_only_inv [OF Cons.prems(2)] this Cons.prems(4)] show ?thesis by auto
  next
    case (take s need m wk)
    have g: "gm_inv (reserved c s m) (w @ [wk])"
      by (rule reserved_gm_inv [OF Cons.prems(2,3) take(1,4,5,6,7,8)])
    have "length (w @ [wk]) \<le> ENG_CACHE_MAX_BATCH" using take(10) by simp
    from Cons.IH [OF take(11) reserved_inv [OF Cons.prems(2) take(1)] g this] take(8) show ?thesis by auto
  qed
qed auto

text \<open>The victim of a refused key is not in flight, so no reserved slot's metadata changes.\<close>

lemma refused_gm_meta:
  assumes "cache_inv c" "gm_inv c w" "gm_meta src c w" "pick_victim c = Some s"
  shows "gm_meta src (c\<lparr>meta := (meta c)[s := m]\<rparr>) w"
proof -
  have "w_slot wk \<noteq> s" if "wk \<in> set w" for wk
    using that assms(2) pick_victim_slot(3) [OF assms(4)] by (auto simp: gm_inv_def)
  then have "(meta c)[s := m] ! w_slot wk = meta c ! w_slot wk" if "wk \<in> set w" for wk using that by (metis nth_list_update_neq)
  then show ?thesis using assms(3) by (simp add: gm_meta_def)
qed

lemma gm_reserve_data:
  assumes "gm_reserve src c ks w = (w', c')" "cache_inv c" "gm_inv c w" "data_ok st src c" "gm_meta src c w"
    and "\<forall>k \<in> set ks. int k < nkeys (cfg c) \<longrightarrow> faithful_at st src (slot_bytes (cfg c)) k"
  shows "data_ok st src c' \<and> gm_meta src c' w'"
  using assms
proof (induction ks arbitrary: c w)
  case (Cons k ks)
  from Cons.prems(1,2) show ?case
  proof (cases rule: gm_reserve_step)
    case stop
    then show ?thesis using Cons.prems by auto
  next
    case skip
    then show ?thesis using Cons.IH [OF skip] Cons.prems by auto
  next
    case (refuse s ok need m)
    let ?c = "c\<lparr>meta := (meta c)[s := m]\<rparr>"
    have "st \<longrightarrow> m = meta c ! s" using Cons.prems(6) refuse(2,3,5) by (auto simp: faithful_at_def split: if_splits)
    then have d: "data_ok st src ?c" using Cons.prems(4) by (cases st) (simp_all add: data_ok_def slot_ok_def)
    have "gm_meta src ?c w" by (rule refused_gm_meta [OF Cons.prems(2,3,5) refuse(1)])
    moreover have "gm_inv ?c w" using Cons.prems(3) by (simp add: gm_inv_def)
    ultimately show ?thesis
      using Cons.IH [OF refuse(4) meta_only_inv [OF Cons.prems(2)] _ d] Cons.prems(6) by simp
  next
    case (take s need m wk)
    have d: "describe src k (zero_meta src) = (True, need, m)"
      using Cons.prems(6) take(2,3,4) unfolding faithful_at_def by (metis (full_types) list.set_intros(1))
    have g: "gm_inv (reserved c s m) (w @ [wk])"
      by (rule reserved_gm_inv [OF Cons.prems(2,3) take(1,4,5,6,7,8)])
    have gm: "gm_meta src (reserved c s m) (w @ [wk])"
      using d take(7,8,9) by (intro reserved_gm_meta [OF Cons.prems(2,3,5) take(1)]) auto
    show ?thesis
      by (rule Cons.IH [OF take(11) reserved_inv [OF Cons.prems(2) take(1)] g
            reserved_data [OF Cons.prems(2,4) take(1)] gm]) (use Cons.prems(6) in simp)
  qed
qed auto

section \<open>The storage-order sort\<close>

lemma mset_work_insert: "mset (work_insert t ws) = add_mset t (mset ws)"
  by (induction ws) auto

lemma mset_work_sort: "mset (work_sort w) = mset w"
proof -
  have "mset (foldl (\<lambda>d t. work_insert t d) acc w) = mset acc + mset w" for acc
    by (induction w arbitrary: acc) (auto simp: mset_work_insert)
  then show ?thesis by (simp add: work_sort_def)
qed

lemma work_after_trans: "work_after a b \<Longrightarrow> work_after b d \<Longrightarrow> work_after a d"
  by (auto simp: work_after_def)

lemma work_after_total: "\<not> work_after a b \<Longrightarrow> \<not> work_after b d \<Longrightarrow> \<not> work_after a d"
  by (auto simp: work_after_def)

lemma work_after_asym: "work_after a b \<Longrightarrow> \<not> work_after b a"
  by (auto simp: work_after_def)

lemma set_work_insert: "set (work_insert t ws) = insert t (set ws)"
  by (induction ws) auto

lemma work_insert_ordered:
  "sorted_wrt (\<lambda>a b. \<not> work_after b a) ws \<Longrightarrow> sorted_wrt (\<lambda>a b. \<not> work_after b a) (work_insert t ws)"
proof (induction ws)
  case (Cons a ws)
  have "\<not> work_after x t" if "\<not> work_after a t" "x \<in> set ws" for x
    using Cons.prems that work_after_total [of x a t] by auto
  then show ?case
    using Cons by (auto simp: set_work_insert dest: work_after_asym)
qed simp

lemma work_sort_ordered: "sorted_wrt (\<lambda>a b. \<not> work_after a b) (work_sort w)"
proof -
  have "sorted_wrt (\<lambda>a b. \<not> work_after b a) (foldl (\<lambda>d t. work_insert t d) acc w)"
    if "sorted_wrt (\<lambda>a b. \<not> work_after b a) acc" for acc
    using that by (induction w arbitrary: acc) (auto intro: work_insert_ordered)
  from this [of "[]"] show ?thesis by (simp add: work_sort_def sorted_wrt_rev)
qed

lemma gm_inv_perm: "mset w = mset w' \<Longrightarrow> gm_inv c w \<Longrightarrow> gm_inv c w'"
  unfolding gm_inv_def
  by (metis mset_map mset_eq_imp_distinct_iff mset_eq_setD)

lemma gm_meta_perm: "mset w = mset w' \<Longrightarrow> gm_meta src c w \<Longrightarrow> gm_meta src c w'"
  by (auto simp: gm_meta_def dest: mset_eq_setD)

section \<open>Phase 2: the reads\<close>

definition read_into :: "'m cache_src \<Rightarrow> 'm eng_cache \<Rightarrow> 'm work list \<Rightarrow> byte list list \<Rightarrow> byte list list" where
  "read_into src c ws a = fold (\<lambda>wk a. a[w_slot wk := snd (gm_read1 src c wk)]) ws a"

lemma gm_read1_arena [simp]: "gm_read1 src (c\<lparr>arena := a\<rparr>) wk = gm_read1 src c wk"
  by (simp add: gm_read1_def)

lemma read_into_arena [simp]: "read_into src (c\<lparr>arena := a\<rparr>) ws b = read_into src c ws b"
  by (simp add: read_into_def)

lemma gm_read_eq:
  "gm_read src c ws =
     (map (\<lambda>wk. fst (gm_read1 src c wk)) ws, c\<lparr>arena := read_into src c ws (arena c)\<rparr>)"
  by (induction ws arbitrary: c) (auto simp: Let_def read_into_def split: prod.splits)

lemma length_read_into [simp]: "length (read_into src c ws a) = length a"
  by (induction ws arbitrary: a) (auto simp: read_into_def)

lemma read_into_other:
  "s \<notin> w_slot ` set ws \<Longrightarrow> read_into src c ws a ! s = a ! s"
  by (induction ws arbitrary: a) (auto simp: read_into_def)

lemma read_into_slot:
  assumes "distinct (map w_slot ws)" "wk \<in> set ws" "w_slot wk < length a"
  shows "read_into src c ws a ! w_slot wk = snd (gm_read1 src c wk)"
  using assms
proof (induction ws arbitrary: a)
  case (Cons x ws)
  have step: "read_into src c (x # ws) a = read_into src c ws (a[w_slot x := snd (gm_read1 src c x)])"
    by (simp add: read_into_def)
  show ?case
  proof (cases "wk = x")
    case True
    then show ?thesis using Cons.prems by (simp add: step read_into_other)
  next
    case False
    then show ?thesis using Cons.IH [of "a[w_slot x := snd (gm_read1 src c x)]"] Cons.prems
      by (simp add: step)
  qed
qed simp

text \<open>Distinct destinations: the order in which the parallel loop runs does not matter.\<close>

lemma read_into_order:
  assumes "distinct (map w_slot ws)" "mset ws = mset ws'"
  shows "read_into src c ws a = read_into src c ws' a"
proof (rule nth_equalityI)
  fix s assume s: "s < length (read_into src c ws a)"
  have d: "distinct (map w_slot ws')" using assms by (metis mset_map mset_eq_imp_distinct_iff)
  have st: "set ws = set ws'" using assms(2) by (rule mset_eq_setD)
  show "read_into src c ws a ! s = read_into src c ws' a ! s"
  proof (cases "s \<in> w_slot ` set ws")
    case True
    then obtain wk where "wk \<in> set ws" "s = w_slot wk" by auto
    then show ?thesis
      using s read_into_slot [OF assms(1), of wk a src c] read_into_slot [OF d, of wk a src c] st by simp
  qed (simp add: read_into_other st)
qed simp

section \<open>Phase 3: publication\<close>

definition landed :: "'m cache_src \<Rightarrow> 'm eng_cache \<Rightarrow> 'm work \<Rightarrow> bool" where
  "landed src c wk \<longleftrightarrow>
     (\<exists>buf. load src (w_key wk) (meta c ! w_slot wk) (stride c) = (w_got wk, w_pad wk, buf) \<and>
        arena c ! w_slot wk = buf)"

lemma gm_read_landed:
  assumes "gm_inv c w" "length (arena c) = nslot c" "wk \<in> set (fst (gm_read src c w))"
  shows "landed src (snd (gm_read src c w)) wk"
proof -
  from assms(3) obtain v where v: "v \<in> set w" "wk = fst (gm_read1 src c v)" by (auto simp: gm_read_eq)
  moreover have "read_into src c w (arena c) ! w_slot v = snd (gm_read1 src c v)"
    using assms(1,2) v(1) by (intro read_into_slot) (auto simp: gm_inv_def)
  ultimately show ?thesis
    by (auto simp: gm_read_eq landed_def gm_read1_def split: prod.splits)
qed

lemma w_gm_read1 [simp]:
  "w_slot (fst (gm_read1 src c v)) = w_slot v" "w_key (fst (gm_read1 src c v)) = w_key v"
  "w_need (fst (gm_read1 src c v)) = w_need v"
  by (auto simp: gm_read1_def split: prod.splits)

lemma gm_read_inv: "gm_inv c w \<Longrightarrow> gm_inv (snd (gm_read src c w)) (fst (gm_read src c w))"
  by (simp add: gm_read_eq gm_inv_def comp_def image_image)

lemma gm_read_meta: "gm_meta src c w \<Longrightarrow> gm_meta src (snd (gm_read src c w)) (fst (gm_read src c w))"
  by (auto simp: gm_read_eq gm_meta_def)

lemma gm_read_cache_inv: "cache_inv c \<Longrightarrow> cache_inv (snd (gm_read src c w))"
  by (rule cache_inv_touch_stats) (auto simp: gm_read_eq)

lemma gm_read_data:
  assumes "data_ok st src c" "gm_inv c w"
  shows "data_ok st src (snd (gm_read src c w))"
  unfolding data_ok_def
proof (intro allI impI)
  fix s k assume s: "s < nslot (snd (gm_read src c w))" "key_of (snd (gm_read src c w)) ! s = Holds k"
  then have "s \<notin> w_slot ` set w" using assms(2) by (auto simp: gm_read_eq gm_inv_def)
  then show "slot_ok st src (snd (gm_read src c w)) s k"
    using s data_okD [OF assms(1), of s k] by (simp add: gm_read_eq slot_ok_def read_into_other)
qed

text \<open>The state after publishing or dropping the first entry of the work list.\<close>

definition publish1 :: "'m eng_cache \<Rightarrow> 'm work \<Rightarrow> 'm eng_cache" where
  "publish1 c wk =
     (if w_got wk \<noteq> w_need wk then c\<lparr>key_of := (key_of c)[w_slot wk := Empty]\<rparr>
      else (publish c (w_slot wk) (w_key wk) (w_got wk) (w_pad wk))
             \<lparr>prefetch_reads := prefetch_reads c + 1\<rparr>)"

lemma gm_publish_Cons:
  "gm_publish c (wk # ws) ok = gm_publish (publish1 c wk) ws (if w_got wk \<noteq> w_need wk then ok else ok + 1)"
  by (simp add: publish1_def Let_def)

lemma publish1_simps [simp]:
  "cfg (publish1 c wk) = cfg c" "stride (publish1 c wk) = stride c" "nslot (publish1 c wk) = nslot c"
  "arena (publish1 c wk) = arena c" "meta (publish1 c wk) = meta c"
  "key_of (publish1 c wk) =
     (key_of c)[w_slot wk := (if w_got wk \<noteq> w_need wk then Empty else Holds (w_key wk))]"
  by (simp_all add: publish1_def)

lemma publish1_inv:
  assumes "cache_inv c" "gm_inv c (wk # ws)"
  shows "cache_inv (publish1 c wk)"
proof (cases "w_got wk = w_need wk")
  case True
  have "cache_inv (publish c (w_slot wk) (w_key wk) (w_got wk) (w_pad wk))"
    using assms(2) by (intro publish_inv [OF assms(1)]) (auto simp: gm_inv_def)
  then show ?thesis using True by (auto simp: publish1_def intro: cache_inv_touch_stats)
next
  case False
  have w: "w_slot wk < nslot c" "key_of c ! w_slot wk = Inflight" using assms(2) by (auto simp: gm_inv_def)
  then have np: "\<not> pinned c ! w_slot wk" using cache_marksD(2) [OF cache_invD(3) [OF assms(1)] w(1)] by auto
  have un: "slot_of c = slot_of (unregister c (w_slot wk))" using w(2) by (simp add: unregister_def)
  show ?thesis
    by (rule vacate_inv [OF assms(1) w(1) np, where x = Empty and u = 0])
      (use False un in \<open>auto simp: publish1_def\<close>)
qed

lemma publish1_gm_inv:
  assumes "cache_inv c" "gm_inv c (wk # ws)"
  shows "gm_inv (publish1 c wk) ws"
proof -
  note ls = cache_lensD [OF cache_invD(1) [OF assms(1)]]
  have "slot_of (publish1 c wk) ! w_key v = None" if "v \<in> set ws" for v
  proof -
    have "w_key v \<noteq> w_key wk" "slot_of c ! w_key v = None"
      using assms(2) that by (auto simp: gm_inv_def) (metis image_eqI)
    then show ?thesis by (auto simp: publish1_def)
  qed
  then show ?thesis
    using assms(2) ls unfolding gm_inv_def
    by (auto simp: nth_list_update split: if_splits)
qed

lemma publish1_data:
  assumes "cache_inv c" "gm_inv c (wk # ws)" "data_ok st src c" "gm_meta src c (wk # ws)" "landed src c wk"
  shows "data_ok st src (publish1 c wk)"
proof (rule data_ok_change [OF assms(3) cache_invD(1) [OF assms(1)]])
  show "key_of (publish1 c wk) =
      (key_of c)[w_slot wk := (if w_got wk \<noteq> w_need wk then Empty else Holds (w_key wk))]" by simp
  fix t assume "t < nslot c" "t \<noteq> w_slot wk"
  then show "slot_object (publish1 c wk) t = slot_object c t"
    by (auto simp: slot_object_def publish1_def)
next
  fix k assume k: "w_slot wk < nslot c" "(if w_got wk \<noteq> w_need wk then Empty else Holds (w_key wk)) = Holds k"
  then show "slot_ok st src (publish1 c wk) (w_slot wk) k"
    using assms(4,5) cache_lensD [OF cache_invD(1) [OF assms(1)]]
    by (intro slot_okI) (auto simp: slot_object_def object_of_def publish1_def gm_meta_def landed_def split: if_splits)
qed auto

lemma gm_publish_inv:
  assumes "cache_inv c" "gm_inv c ws"
  shows "cache_inv (snd (gm_publish c ws ok)) \<and> quiescent (snd (gm_publish c ws ok)) \<and>
    stride (snd (gm_publish c ws ok)) = stride c"
  using assms
proof (induction ws arbitrary: c ok)
  case Nil
  then show ?case using cache_lensD [OF cache_invD(1) [OF Nil(1)]]
    by (auto simp: gm_inv_def quiescent_def in_set_conv_nth)
next
  case (Cons wk ws)
  from Cons.IH [OF publish1_inv [OF Cons.prems] publish1_gm_inv [OF Cons.prems]] show ?case
    by (simp only: gm_publish_Cons publish1_simps)
qed

lemma gm_publish_data:
  assumes "cache_inv c" "gm_inv c ws" "data_ok st src c" "gm_meta src c ws" "\<forall>wk \<in> set ws. landed src c wk"
  shows "data_ok st src (snd (gm_publish c ws ok))"
  using assms
proof (induction ws arbitrary: c ok)
  case (Cons wk ws)
  have "data_ok st src (publish1 c wk)" using Cons.prems by (intro publish1_data) auto
  moreover have "gm_meta src (publish1 c wk) ws" using Cons.prems(4) by (simp add: gm_meta_def)
  moreover have "\<forall>v \<in> set ws. landed src (publish1 c wk) v" using Cons.prems(5) by (simp add: landed_def)
  ultimately show ?case
    unfolding gm_publish_Cons
    by (intro Cons.IH publish1_inv [OF Cons.prems(1,2)] publish1_gm_inv [OF Cons.prems(1,2)])
qed simp

section \<open>The batch as a whole\<close>

lemma quiescent_gm_inv: "cache_inv c \<Longrightarrow> quiescent c \<Longrightarrow> gm_inv c []"
  using cache_lensD(2) [OF cache_invD(1), of c]
  by (auto simp: gm_inv_def quiescent_def) (metis nth_mem)

lemma get_many_unfold:
  assumes "gm_reserve src c keys [] = (w, c1)" "w \<noteq> []"
    and "w1 = (if locate src \<noteq> None then work_sort w else w)"
  shows "eng_cache_get_many src c keys =
    gm_publish (snd (gm_read src c1 w1)) (fst (gm_read src c1 w1)) 0"
  using assms by (simp add: eng_cache_get_many_def split: prod.splits)

lemma get_many_inv:
  assumes "cache_inv c" "quiescent c"
  shows "cache_inv (snd (eng_cache_get_many src c keys)) \<and> quiescent (snd (eng_cache_get_many src c keys)) \<and>
    stride (snd (eng_cache_get_many src c keys)) = stride c"
proof -
  obtain w c1 where r: "gm_reserve src c keys [] = (w, c1)" by fastforce
  from gm_reserve_inv [OF r assms(1) quiescent_gm_inv [OF assms]]
  have c1: "cache_inv c1" "gm_inv c1 w" "stride c1 = stride c" by auto
  show ?thesis
  proof (cases "w = []")
    case True
    have "quiescent c1" using c1 cache_lensD [OF cache_invD(1) [OF c1(1)]] True
      by (auto simp: gm_inv_def quiescent_def in_set_conv_nth)
    then show ?thesis using c1 r True by (simp add: eng_cache_get_many_def)
  next
    case False
    define w1 where "w1 = (if locate src \<noteq> None then work_sort w else w)"
    have "gm_inv c1 w1" by (rule gm_inv_perm [OF _ c1(2)]) (simp add: w1_def mset_work_sort)
    from gm_publish_inv [OF gm_read_cache_inv [OF c1(1)] gm_read_inv [OF this]] c1(3) show ?thesis
      unfolding get_many_unfold [OF r False w1_def] by (simp add: gm_read_eq)
  qed
qed

lemma get_many_data:
  assumes "cache_inv c" "quiescent c" "data_ok st src c" "\<forall>k \<in> set keys. int k < nkeys (cfg c) \<longrightarrow> faithful_at st src (slot_bytes (cfg c)) k"
  shows "data_ok st src (snd (eng_cache_get_many src c keys))"
proof -
  obtain w c1 where r: "gm_reserve src c keys [] = (w, c1)" by fastforce
  from gm_reserve_inv [OF r assms(1) quiescent_gm_inv [OF assms(1,2)]]
  have c1: "cache_inv c1" "gm_inv c1 w" by auto
  from gm_reserve_data [OF r assms(1) quiescent_gm_inv [OF assms(1,2)] assms(3) _ assms(4)]
  have d1: "data_ok st src c1" "gm_meta src c1 w" by (auto simp: gm_meta_def)
  show ?thesis
  proof (cases "w = []")
    case True
    then show ?thesis using r d1 by (simp add: eng_cache_get_many_def)
  next
    case False
    define w1 where "w1 = (if locate src \<noteq> None then work_sort w else w)"
    have ms: "mset w = mset w1" by (simp add: w1_def mset_work_sort)
    have g: "gm_inv c1 w1" by (rule gm_inv_perm [OF ms c1(2)])
    have la: "length (arena c1) = nslot c1" by (rule cache_lensD [OF cache_invD(1) [OF c1(1)]])
    show ?thesis
      unfolding get_many_unfold [OF r False w1_def]
      by (rule gm_publish_data [OF gm_read_cache_inv [OF c1(1)] gm_read_inv [OF g]
            gm_read_data [OF d1(1) g] gm_read_meta [OF gm_meta_perm [OF ms d1(2)]]])
        (intro ballI gm_read_landed [OF g la])
  qed
qed

section \<open>The interface of an object cache\<close>

text \<open>
  What the expert tier relies on: requests keep the cache well-formed, and a served request
  hands out the object the key stands for.  The consequence for a client is that a whole
  sequence of requests returns the right objects, whatever was evicted in between.
\<close>

fun request_seq :: "('c \<Rightarrow> nat \<Rightarrow> 'o option \<times> 'c) \<Rightarrow> 'c \<Rightarrow> nat list \<Rightarrow> 'o option list \<times> 'c" where
  "request_seq get c [] = ([], c)"
| "request_seq get c (k # ks) =
     (let (x, c') = get c k; (xs, c'') = request_seq get c' ks in (x # xs, c''))"

locale object_cache =
  fixes wf :: "'c \<Rightarrow> bool" and get :: "'c \<Rightarrow> nat \<Rightarrow> 'o option \<times> 'c" and obj :: "nat \<Rightarrow> 'o option"
  assumes get_wf: "wf c \<Longrightarrow> wf (snd (get c k))"
    and get_obj: "wf c \<Longrightarrow> fst (get c k) = Some x \<Longrightarrow> obj k = Some x"
begin

lemma request_seq_wf: "wf c \<Longrightarrow> wf (snd (request_seq get c ks))"
proof (induction ks arbitrary: c)
  case (Cons k ks)
  from Cons.IH [OF get_wf [OF Cons.prems, of k]] show ?case by (simp add: split_def Let_def)
qed simp

lemma request_seq_objects:
  "wf c \<Longrightarrow> list_all2 (\<lambda>k x. x = None \<or> x = obj k) ks (fst (request_seq get c ks))"
proof (induction ks arbitrary: c)
  case (Cons k ks)
  have "fst (get c k) = None \<or> fst (get c k) = obj k"
    using get_obj [OF Cons.prems, of k] by (cases "fst (get c k)") auto
  with Cons.IH [OF get_wf [OF Cons.prems, of k]] show ?case by (simp add: split_def Let_def)
qed simp

end

definition cache_wf :: "'m cache_src \<Rightarrow> int \<Rightarrow> 'm eng_cache \<Rightarrow> bool" where
  "cache_wf src cap c \<longleftrightarrow> cache_inv c \<and> data_ok True src c \<and> stride c = cap"

definition get_object :: "'m cache_src \<Rightarrow> 'm eng_cache \<Rightarrow> nat \<Rightarrow> (byte list \<times> int \<times> 'm) option \<times> 'm eng_cache" where
  "get_object src c k =
     (let (e, c') = eng_cache_get src c k in (map_option (\<lambda>e. (e_data e, e_nbytes e, e_meta e)) e, c'))"

lemma get_stride: "cache_inv c \<Longrightarrow> stride (snd (eng_cache_get src c key)) = stride c"
proof (cases "int key < nkeys (cfg c)")
  case True
  assume "cache_inv c"
  obtain r c' where a: "admit src (get_noted src c key) key = (r, c')" by fastforce
  then have "stride c' = stride c"
    by (cases rule: admit_cases) (use \<open>cache_inv c\<close> True in auto)
  then show ?thesis using a True by (simp add: eng_cache_get_in_range)
qed (simp add: eng_cache_get_def)

interpretation ec: object_cache "cache_wf src cap" "get_object src" "object_of src cap" for src cap
proof
  fix c k assume "cache_wf src cap c"
  then show "cache_wf src cap (snd (get_object src c k))"
    using get_inv [of c src k] get_data [of c True src k] get_stride [of c src k]
    by (simp add: cache_wf_def get_object_def split_def Let_def)
next
  fix c k x assume c: "cache_wf src cap c" and x: "fst (get_object src c k) = Some x"
  then obtain e c' where "eng_cache_get src c k = (Some e, c')" "x = (e_data e, e_nbytes e, e_meta e)"
    by (auto simp: get_object_def split: prod.splits)
  with get_entry [of c True src k e c'] c show "object_of src cap k = Some x" by (simp add: cache_wf_def)
qed

section \<open>Reachable caches\<close>

text \<open>The states a cache passes through between \<open>eng_cache_create\<close> and \<open>eng_cache_destroy\<close>.\<close>

inductive cache_reach :: "'m cache_src \<Rightarrow> cache_cfg \<Rightarrow> 'm eng_cache \<Rightarrow> bool"
  for src :: "'m cache_src" and cf :: cache_cfg where
  created: "eng_cache_create cf src = Some c \<Longrightarrow> cache_reach src cf c"
| get: "cache_reach src cf c \<Longrightarrow> cache_reach src cf (snd (eng_cache_get src c k))"
| get_many: "cache_reach src cf c \<Longrightarrow> cache_reach src cf (snd (eng_cache_get_many src c ks))"
| pin: "cache_reach src cf c \<Longrightarrow> cache_reach src cf (snd (eng_cache_pin c k p))"
| reset: "cache_reach src cf c \<Longrightarrow> cache_reach src cf (eng_cache_reset_stats c)"

lemma admit_quiescent_stats:
  assumes "admit src c key = (r, c')" "cache_inv c" "int key < nkeys (cfg c)"
  shows "(quiescent c \<longrightarrow> quiescent c') \<and> cfg c' = cfg c \<and> hits c' + misses c' = hits c + misses c + 1 \<and>
    requests c' = requests c"
  using assms
proof (cases rule: admit_cases)
  case (short s need m)
  then show ?thesis by (auto simp: quiescent_def dest!: set_update_subset_insert [THEN subsetD])
next
  case (loaded s need m pd)
  then show ?thesis by (auto simp: quiescent_def dest!: set_update_subset_insert [THEN subsetD])
qed (auto simp: quiescent_def)

lemma get_quiescent_stats:
  assumes "cache_inv c"
  shows "(quiescent c \<longrightarrow> quiescent (snd (eng_cache_get src c k))) \<and>
    cfg (snd (eng_cache_get src c k)) = cfg c \<and>
    (hits c + misses c = requests c \<longrightarrow>
      hits (snd (eng_cache_get src c k)) + misses (snd (eng_cache_get src c k)) =
      requests (snd (eng_cache_get src c k)))"
proof (cases "int k < nkeys (cfg c)")
  case True
  obtain r c' where a: "admit src (get_noted src c k) k = (r, c')" by fastforce
  from admit_quiescent_stats [OF a] assms True show ?thesis
    using a True by (auto simp: eng_cache_get_in_range quiescent_def)
qed (simp add: eng_cache_get_def)

lemma gm_reserve_stats:
  "hits (snd (gm_reserve src c ks w)) = hits c \<and> misses (snd (gm_reserve src c ks w)) = misses c \<and>
   requests (snd (gm_reserve src c ks w)) = requests c \<and> cfg (snd (gm_reserve src c ks w)) = cfg c"
proof (induction ks arbitrary: c w)
  case (Cons k ks)
  then show ?case by (auto simp: Let_def split: option.splits prod.splits)
qed simp

lemma gm_publish_stats:
  "hits (snd (gm_publish c ws ok)) = hits c \<and> misses (snd (gm_publish c ws ok)) = misses c \<and>
   requests (snd (gm_publish c ws ok)) = requests c \<and> cfg (snd (gm_publish c ws ok)) = cfg c"
  by (induction ws arbitrary: c ok) (auto simp: Let_def)

lemma get_many_stats:
  "hits (snd (eng_cache_get_many src c ks)) = hits c \<and>
   misses (snd (eng_cache_get_many src c ks)) = misses c \<and>
   requests (snd (eng_cache_get_many src c ks)) = requests c \<and>
   cfg (snd (eng_cache_get_many src c ks)) = cfg c"
  using gm_reserve_stats [of src c ks "[]"]
  by (auto simp: eng_cache_get_many_def gm_read_eq gm_publish_stats Let_def split: prod.splits)

lemma pin_frame:
  "quiescent (snd (eng_cache_pin c k p)) = quiescent c" "cfg (snd (eng_cache_pin c k p)) = cfg c"
  "data_ok st src (snd (eng_cache_pin c k p)) = data_ok st src c"
  "hits (snd (eng_cache_pin c k p)) = hits c" "misses (snd (eng_cache_pin c k p)) = misses c"
  "requests (snd (eng_cache_pin c k p)) = requests c"
  by (auto simp: eng_cache_pin_def quiescent_def data_ok_def slot_ok_def split: option.splits)

lemma reset_frame:
  "cache_inv c \<Longrightarrow> cache_inv (eng_cache_reset_stats c)"
  "quiescent (eng_cache_reset_stats c) = quiescent c" "cfg (eng_cache_reset_stats c) = cfg c"
  "data_ok st src (eng_cache_reset_stats c) = data_ok st src c"
  by (auto simp: eng_cache_reset_stats_def quiescent_def data_ok_def slot_ok_def
      intro: cache_inv_touch_stats)

lemma reach_inv:
  assumes "cache_reach src cf c"
  shows "cache_inv c \<and> quiescent c \<and> cfg c = cf \<and> hits c + misses c = requests c"
  using assms
proof (induction rule: cache_reach.induct)
  case (created c)
  show ?case using create_inv [OF created] by simp
next
  case (get c k)
  then show ?case using get_inv [of c src k] get_quiescent_stats [of c src k] by auto
next
  case (get_many c ks)
  then show ?case using get_many_inv [of c src ks] get_many_stats [of src c ks] by auto
next
  case (pin c k p)
  then show ?case using pin_inv [of c k p] by (simp add: pin_frame)
next
  case (reset c)
  then show ?case by (simp add: reset_frame) (simp add: eng_cache_reset_stats_def)
qed

lemma reach_data:
  assumes "cache_reach src cf c" "\<And>k. faithful_at st src (slot_bytes cf) k"
  shows "data_ok st src c"
  using assms
proof (induction rule: cache_reach.induct)
  case (created c)
  then show ?case by (simp add: create_inv)
next
  case (get c k)
  then show ?case using reach_inv [OF get(1)] by (simp add: get_data)
next
  case (get_many c ks)
  then show ?case using reach_inv [OF get_many(1)] by (simp add: get_many_data)
qed (simp_all add: pin_frame reset_frame)

end
