(* ===== verification/Cache_LRU.thy ===== *)
theory Cache_LRU
  imports Cache_Batch
begin

text \<open>
  Replacement under a cyclic scan: \<^verbatim>\<open>src/storage/cache.h\<close> and
  \<^verbatim>\<open>src/storage/streamer.h\<close> justify the pinned-prefix streamer by the claim that an
  LRU cache with fewer slots than keys never hits on such a scan.  That is a theorem about
  the model of \<open>eng_cache_get\<close>.
\<close>

text \<open>A source all of whose keys can be described and read.\<close>

definition loads_ok :: "'m cache_src \<Rightarrow> int \<Rightarrow> int \<Rightarrow> nat \<Rightarrow> bool" where
  "loads_ok src sb cap L \<longleftrightarrow>
     (\<forall>k < L. let (ok, need, m) = describe src k (zero_meta src)
              in ok \<and> need \<le> sb \<and> fst (load src k m cap) = need)"

fun cyclic_walk :: "'m cache_src \<Rightarrow> nat \<Rightarrow> 'm eng_cache \<Rightarrow> nat \<Rightarrow> nat \<Rightarrow> 'm eng_cache" where
  "cyclic_walk src L c t 0 = c"
| "cyclic_walk src L c t (Suc m) = cyclic_walk src L (snd (eng_cache_get src c (t mod L))) (t + 1) m"

text \<open>After \<open>t\<close> requests slot \<open>j mod n\<close> holds request \<open>j\<close>, for the last \<open>n\<close> requests \<open>j\<close>.\<close>

definition scan_inv :: "nat \<Rightarrow> 'm eng_cache \<Rightarrow> nat \<Rightarrow> bool" where
  "scan_inv L c t \<longleftrightarrow> cache_inv c \<and> clock c = t \<and> hits c = 0 \<and> misses c = t \<and>
     (\<forall>s < nslot c. \<not> pinned c ! s) \<and>
     (\<forall>j < t. t \<le> j + nslot c \<longrightarrow>
        key_of c ! (j mod nslot c) = Holds (j mod L) \<and> used_at c ! (j mod nslot c) = j + 1) \<and>
     (\<forall>s < nslot c. t \<le> s \<longrightarrow> key_of c ! s = Empty)"

lemma victim_scan_first_empty:
  assumes "\<forall>i \<in> set xs. key_of c ! i \<noteq> Empty" "key_of c ! i = Empty"
  shows "victim_scan c (xs @ i # ys) b old = Some i"
  using assms by (induction xs arbitrary: b old) (auto split: slot_state.splits)

lemma slot_covered:
  assumes "n \<le> t" "s < (n :: nat)"
  obtains j where "j < t" "t \<le> j + n" "j mod n = s"
proof -
  define q where "q = (t - 1 - s) div n"
  have n: "0 < n" using assms by simp
  have "(t - 1 - s) mod n < n" using n by simp
  moreover have "n * q + (t - 1 - s) mod n = t - 1 - s" by (simp add: q_def)
  ultimately have "n * q \<le> t - 1 - s" "t - 1 - s < n * q + n" by linarith+
  with assms have "s + n * q < t" "t \<le> s + n * q + n" by linarith+
  moreover have "(s + n * q) mod n = s" using assms by simp
  ultimately show thesis by (intro that [of "s + n * q"])
qed

lemma scan_victim:
  assumes inv: "scan_inv L c t" and n: "1 \<le> nslot c" and t: "t < 2 ^ 64 - 1"
  shows "pick_victim c = Some (t mod nslot c)"
proof (cases "t < nslot c")
  case True
  have "\<forall>i \<in> set [0..<t]. key_of c ! i \<noteq> Empty"
    using inv True by (auto simp: scan_inv_def)
  moreover have "key_of c ! t = Empty" using inv True by (simp add: scan_inv_def)
  moreover have "[0..<nslot c] = [0..<t] @ t # [Suc t..<nslot c]"
    using True upt_add_eq_append [of 0 t "nslot c - t"] upt_conv_Cons [of t "nslot c"] by simp
  ultimately show ?thesis using True by (simp add: pick_victim_def victim_scan_first_empty)
next
  case False
  then have le: "nslot c \<le> t" by simp
  have held: "\<exists>j < t. t \<le> j + nslot c \<and> s = j mod nslot c \<and> key_of c ! s = Holds (j mod L) \<and> used_at c ! s = j + 1"
    if "s < nslot c" for s
    using slot_covered [OF le that] inv by (metis scan_inv_def)
  have ev: "evictable c s" if "s < nslot c" for s
    using held [OF that] inv that by (auto simp: evictable_def scan_inv_def)
  obtain v where v: "pick_victim c = Some v"
  proof (cases "pick_victim c")
    case None
    then have "\<forall>i < nslot c. evictable c i \<longrightarrow> 2 ^ 64 - 1 \<le> int (used_at c ! i)"
      using victim_scan_None [OF None [unfolded pick_victim_def]] by simp
    then have "2 ^ 64 - 1 \<le> int (used_at c ! 0)" using ev [of 0] n by auto
    moreover have "used_at c ! 0 \<le> t"
      using held [of 0] n by auto
    ultimately show ?thesis using t by simp
  qed auto
  have vn: "v < nslot c" by (rule pick_victim_slot [OF v])
  let ?o = "t mod nslot c"
  have on: "?o < nslot c" using n by simp
  have "\<forall>i \<in> set [0..<nslot c]. key_of c ! i \<noteq> Empty" using held by fastforce
  with victim_scan_least [OF v [unfolded pick_victim_def]] ev [OF on] on
  have "used_at c ! v \<le> used_at c ! ?o" by simp
  moreover have "used_at c ! ?o = t - nslot c + 1"
  proof -
    have "(t - nslot c) mod nslot c = ?o" using le by (simp add: le_mod_geq)
    moreover have "t - nslot c < t" "t \<le> (t - nslot c) + nslot c" using n le by linarith+
    ultimately show ?thesis using inv unfolding scan_inv_def by metis
  qed
  moreover from held [OF vn] obtain j where j: "j < t" "t \<le> j + nslot c" "v = j mod nslot c" "used_at c ! v = j + 1"
    by blast
  ultimately have "j = t - nslot c" by linarith
  then have "v = ?o" using j(3) le by (simp add: le_mod_geq)
  then show ?thesis using v by simp
qed

lemma scan_miss:
  assumes inv: "scan_inv L c t" and L: "nslot c < L" "int L \<le> nkeys (cfg c)"
  shows "slot_of c ! (t mod L) = None"
proof (rule ccontr)
  assume "\<not> ?thesis"
  then obtain s where s: "slot_of c ! (t mod L) = Some s" by auto
  have ci: "cache_inv c" using inv by (simp add: scan_inv_def)
  note ls = cache_lensD [OF cache_invD(1) [OF ci]]
  have "t mod L < length (slot_of c)" 
  proof -
    have "t mod L < L" using L(1) by simp
    then show ?thesis using L(2) ls(8) by linarith
  qed
  from cache_mapsD1 [OF cache_invD(2) [OF ci] this s] ls
  have k: "s < nslot c" "key_of c ! s = Holds (t mod L)" by auto
  have "\<not> t \<le> s" using inv k by (auto simp: scan_inv_def)
  obtain j where j: "j < t" "t \<le> j + nslot c" "j mod nslot c = s"
  proof (cases "nslot c \<le> t")
    case True
    then show ?thesis using slot_covered [OF True k(1)] that by blast
  next
    case False
    then show ?thesis using that [of s] k \<open>\<not> t \<le> s\<close> by auto
  qed
  then have "j mod L = t mod L" using inv k by (auto simp: scan_inv_def)
  then have "L dvd t - j" using j(1) by (metis mod_eq_dvd_iff_nat less_imp_le)
  moreover have "0 < t - j" "t - j < L" using j L(1) by linarith+
  ultimately show False by (auto dest: dvd_imp_le)
qed

lemma admit_loaded:
  assumes "cache_inv c" "int key < nkeys (cfg c)" "slot_of c ! key = None" "pick_victim c = Some s"
    and "describe src key (zero_meta src) = (True, need, m)" "need \<le> slot_bytes (cfg c)"
    and "fst (load src key m (stride c)) = need"
  shows "\<exists>pd. admit src c key =
    (Some s, publish (admit_miss src (c\<lparr>misses := misses c + 1\<rparr>) key s m) s key need pd)"
proof -
  obtain r c' where a: "admit src c key = (r, c')" by fastforce
  show ?thesis
    using a assms(1,2)
  proof (cases rule: admit_cases)
    case refused
    have "victim_scan (c\<lparr>misses := misses c + 1\<rparr>) is b old = victim_scan c is b old" for "is" b old
      by (induction "is" arbitrary: b old) (auto split: slot_state.splits)
    then have "pick_victim (c\<lparr>misses := misses c + 1\<rparr>) = Some s" using assms(4) by (simp add: pick_victim_def)
    then have "r \<noteq> None \<or> c' \<noteq> c\<lparr>misses := misses c + 1\<rparr>"
      using a assms(3,5,6,7) victim_not_pinned(1) [OF assms(1,4)] cache_lensD [OF cache_invD(1) [OF assms(1)]]
      by (cases "load src key m (stride c)") (auto simp: admit_def Let_def)
    with refused show ?thesis by simp
  next
    case (hit s)
    with assms(3) show ?thesis by simp
  next
    case (short s need m)
    with assms(5,7) show ?thesis by simp
  next
    case (loaded t need' m' pd)
    with assms(4,5) have "t = s" "need' = need" "m' = m" by simp_all
    with loaded a show ?thesis by blast
  qed
qed

lemma pick_victim_noted [simp]: "pick_victim (get_noted src c k) = pick_victim c"
proof -
  have "victim_scan (get_noted src c k) is b old = victim_scan c is b old" for "is" b old
    by (induction "is" arbitrary: b old) (auto split: slot_state.splits)
  then show ?thesis by (simp add: pick_victim_def)
qed

lemma scan_step:
  assumes inv: "scan_inv L c t" and n: "1 \<le> nslot c" and t: "t < 2 ^ 64 - 1"
    and L: "nslot c < L" "int L \<le> nkeys (cfg c)" and src: "loads_ok src (slot_bytes (cfg c)) (stride c) L"
  defines "c' \<equiv> snd (eng_cache_get src c (t mod L))"
  shows "scan_inv L c' (t + 1) \<and> nslot c' = nslot c \<and> cfg c' = cfg c \<and> stride c' = stride c"
proof -
  let ?k = "t mod L" and ?s = "t mod nslot c"
  have kL: "?k < L" using L by simp
  then have k: "int ?k < nkeys (cfg c)" using L(2) by linarith
  have ci: "cache_inv c" and g: "cache_inv (get_noted src c ?k)" using inv by (auto simp: scan_inv_def)
  obtain need m where d: "describe src ?k (zero_meta src) = (True, need, m)" "need \<le> slot_bytes (cfg c)"
      "fst (load src ?k m (stride c)) = need"
    using src kL by (fastforce simp: loads_ok_def)
  obtain pd where a: "admit src (get_noted src c ?k) ?k = (Some ?s, publish
      (admit_miss src ((get_noted src c ?k)\<lparr>misses := misses c + 1\<rparr>) ?k ?s m) ?s ?k need pd)"
    using admit_loaded [OF g, of ?k ?s src need m] scan_miss [OF inv L] scan_victim [OF inv n t] k d
    by auto
  have c': "c' = publish (admit_miss src ((get_noted src c ?k)\<lparr>misses := misses c + 1\<rparr>) ?k ?s m) ?s ?k need pd"
    using a k by (simp add: c'_def eng_cache_get_in_range)
  have ci': "cache_inv c'" unfolding c'_def by (rule get_inv [OF ci])
  note ls = cache_lensD [OF cache_invD(1) [OF ci]]
  have new: "key_of c' ! (j mod nslot c) = Holds (j mod L) \<and> used_at c' ! (j mod nslot c) = j + 1"
    if j: "j < t + 1" "t + 1 \<le> j + nslot c" for j
  proof (cases "j = t")
    case True
    then show ?thesis using inv ls n by (simp add: c' scan_inv_def)
  next
    case False
    then have jt: "j < t" "t \<le> j + nslot c" using j by auto
    have "j mod nslot c \<noteq> ?s"
    proof
      assume "j mod nslot c = ?s"
      then have "nslot c dvd t - j" using jt by (metis mod_eq_dvd_iff_nat less_imp_le)
      moreover have "0 < t - j" "t - j < nslot c" using jt j(2) by linarith+
      ultimately show False by (auto dest: dvd_imp_le)
    qed
    then show ?thesis using inv jt by (simp add: c' scan_inv_def)
  qed
  have rest: "key_of c' ! s = Empty" if "s < nslot c" "t + 1 \<le> s" for s
    using inv that by (auto simp: c' scan_inv_def)
  show ?thesis
    using inv ci' new rest by (auto simp: scan_inv_def c')
qed

lemma cyclic_walk_scan:
  assumes "scan_inv L c t" "1 \<le> nslot c" "t + m < 2 ^ 64" "nslot c < L" "int L \<le> nkeys (cfg c)"
    and "loads_ok src (slot_bytes (cfg c)) (stride c) L"
  shows "scan_inv L (cyclic_walk src L c t m) (t + m)"
  using assms
proof (induction m arbitrary: c t)
  case (Suc m)
  have "t < 2 ^ 64 - 1" using Suc.prems(3) by linarith
  from scan_step [OF Suc.prems(1,2) this Suc.prems(4,5,6)] Suc.prems show ?case
    using Suc.IH [of "snd (eng_cache_get src c (t mod L))" "t + 1"] by simp
qed simp

lemma created_scan_inv:
  assumes "eng_cache_create cf src = Some c"
  shows "scan_inv L c 0"
  using create_inv [OF assms] by (simp add: scan_inv_def)

end
