(* ===== verification/Cache_Props.thy ===== *)
theory Cache_Props
  imports Cache_LRU
begin

text \<open>
  The properties of the weight cache, over the reachable states of the model and with the
  interface facts of \<open>object_cache\<close>.  \<open>demo_src\<close> is a source with one-byte objects on
  which the hypotheses are shown to hold; \<open>oversize_src\<close> has one key too large for a slot.
\<close>

text \<open>An operating system that grants every request.\<close>

definition calm_sys :: cache_sys where
  "calm_sys = \<lparr>realloc_ok = (\<lambda>n. True), memalign_ok = (\<lambda>al n. True), nohuge = False\<rparr>"

definition demo_src :: "nat cache_src" where
  "demo_src = \<lparr>describe = (\<lambda>k m. (True, 1, k)), load = (\<lambda>k m cap. (1, 0, [of_nat m])),
     locate = Some (\<lambda>m. (0, - int m)), zero_meta = 0, c_sys = calm_sys\<rparr>"

definition demo_cfg :: cache_cfg where
  "demo_cfg = \<lparr>budget_bytes = 24576, slot_bytes = 1, nkeys = 4, min_slots = 1,
     want_hist = True, want_trace = False, hugepages = - 1\<rparr>"

definition oversize_src :: "nat cache_src" where
  "oversize_src = demo_src\<lparr>describe := (\<lambda>k m. (True, if k = 3 then 2 else 1, k))\<rparr>"

definition cache_after :: "'m cache_src \<Rightarrow> cache_cfg \<Rightarrow> nat list \<Rightarrow> 'm eng_cache" where
  "cache_after src cf ks = foldl (\<lambda>c k. snd (eng_cache_get src c k)) (the (eng_cache_create cf src)) ks"

lemma stride_for_align:
  "0 \<le> n \<Longrightarrow> eng_cache_stride_for n = align_up (n + 2 * ENG_IO_ALIGN) ENG_IO_ALIGN"
  by (simp add: eng_cache_stride_for_def align_up_def Let_def)

lemma demo_created: "eng_cache_create demo_cfg demo_src = Some (the (eng_cache_create demo_cfg demo_src))"
  by code_simp

lemma reach_after:
  assumes "eng_cache_create cf src = Some (the (eng_cache_create cf src))"
  shows "cache_reach src cf (cache_after src cf ks)"
proof -
  have "cache_reach src cf (foldl (\<lambda>c k. snd (eng_cache_get src c k)) c ks)" if "cache_reach src cf c" for c
    using that by (induction ks arbitrary: c) (auto intro: cache_reach.get)
  from this [OF cache_reach.created [OF assms]] show ?thesis by (simp add: cache_after_def)
qed

lemma demo_faithful: "fills_meta demo_src" "quiet_refusal demo_src 1"
  by (auto simp: fills_meta_def quiet_refusal_def demo_src_def)

lemma gm_reserve_pinned: "pinned (snd (gm_reserve src c ks w)) = pinned c"
proof (induction ks arbitrary: c w)
  case (Cons k ks)
  then show ?case by (auto simp: Let_def split: option.splits prod.splits)
qed simp

section \<open>Properties\<close>

text \<open>
  C5: in every state a cache reaches through any sequence of requests, batches, pins and
  statistics resets, \<open>slot_of\<close> and \<open>key_of\<close> are inverse on resident keys, only
  resident slots are pinned, no slot is left in flight, and hits plus misses equals
  requests.
\<close>

theorem cache_reachable_wellformed:
  assumes "cache_reach src cf c"
  shows "cache_inv c \<and> quiescent c \<and> hits c + misses c = requests c"
  using reach_inv [OF assms] by blast

theorem cache_reachable_wellformed_witness:
  "cache_reach demo_src demo_cfg (cache_after demo_src demo_cfg [2, 0, 2]) \<and>
   hits (cache_after demo_src demo_cfg [2, 0, 2]) + misses (cache_after demo_src demo_cfg [2, 0, 2]) =
   requests (cache_after demo_src demo_cfg [2, 0, 2])"
  using cache_reachable_wellformed [OF reach_after [OF demo_created, of "[2, 0, 2]"]]
    reach_after [OF demo_created, of "[2, 0, 2]"] by blast

text \<open>
  C6: an entry handed out by \<open>eng_cache_get\<close> in any reachable state holds the object of the
  requested key, for a source that fills the metadata of the keys it accepts: its bytes and its size are
  what the source describes and loads for that key, however often the slot was recycled, prefetched into
  or refilled before.  Its metadata is the key's as well when the source leaves the metadata of a refused key
  alone; otherwise a batch that names a refused key may have overwritten it.
\<close>

theorem cache_get_exact:
  assumes "cache_reach src cf c" and "fills_meta src"
    and "eng_cache_get src c k = (Some e, c')"
  shows "\<exists>m. object_of src (stride c) k = Some (e_data e, e_nbytes e, m) \<and>
    (quiet_refusal src (slot_bytes cf) \<longrightarrow> m = e_meta e)"
proof -
  let ?st = "quiet_refusal src (slot_bytes cf)"
  have "data_ok ?st src c" by (rule reach_data [OF assms(1)]) (rule filled_faithful [OF assms(2)], simp)
  then show ?thesis using get_entry [OF _ _ assms(3), of ?st] reach_inv [OF assms(1)] by blast
qed

theorem cache_get_exact_witness:
  "object_of demo_src 12288 3 = Some ([3], 1, 3)"
proof -
  let ?c = "cache_after demo_src demo_cfg [0, 1, 2]"
  have g: "eng_cache_get demo_src ?c 3 =
      (Some \<lparr>e_slot = 1, e_data = [3], e_nbytes = 1, e_meta = 3\<rparr>, snd (eng_cache_get demo_src ?c 3))"
    by code_simp
  have "stride ?c = 12288" by code_simp
  with cache_get_exact [OF reach_after [OF demo_created, of "[0, 1, 2]"] demo_faithful(1) g] demo_faithful(2)
  show ?thesis by (simp add: demo_cfg_def)
qed

text \<open>
  A whole sequence of requests, started in any reachable state, returns for each key
  either nothing or exactly that key's object; evictions in between cannot mix objects up.
\<close>

theorem cache_request_seq_exact:
  assumes "cache_reach src cf c" and "fills_meta src" "quiet_refusal src (slot_bytes cf)"
  shows "list_all2 (\<lambda>k x. x = None \<or> x = object_of src (stride c) k) ks
           (fst (request_seq (get_object src) c ks))"
  using reach_inv [OF assms(1)] reach_data [OF assms(1), of True] filled_faithful [of src True "slot_bytes cf"] assms(2,3)
  by (intro ec.request_seq_objects) (simp add: cache_wf_def)

theorem cache_request_seq_exact_witness:
  "list_all2 (\<lambda>k x. x = None \<or> x = object_of demo_src 12288 k) [0, 1, 2, 3, 0, 7]
     (fst (request_seq (get_object demo_src) (cache_after demo_src demo_cfg []) [0, 1, 2, 3, 0, 7]))"
proof -
  have "stride (cache_after demo_src demo_cfg []) = 12288" by code_simp
  with cache_request_seq_exact [OF reach_after [OF demo_created, of "[]"], of "[0, 1, 2, 3, 0, 7]"]
    demo_faithful show ?thesis by (simp add: demo_cfg_def)
qed

text \<open>
  A request that is not served leaves the key non-resident: after a refused or short
  load neither \<open>eng_cache_peek\<close> nor any slot claims the object, so a later request
  cannot be counted as a hit on bytes that never arrived.
\<close>

theorem cache_failed_get_not_resident:
  assumes "cache_reach src cf c" and "eng_cache_get src c k = (None, c')" and "int k < nkeys cf"
  shows "eng_cache_peek c' k = None \<and> Holds k \<notin> set (key_of c')"
proof -
  from reach_inv [OF assms(1)] have c: "cache_inv c" "cfg c = cf" by auto
  have ci: "cache_inv c'" using get_inv [OF c(1), of src k] assms(2) by simp
  obtain r where a: "admit src (get_noted src c k) k = (r, c')" "r = None"
    using assms(2,3) c(2) by (auto simp: eng_cache_get_in_range split: prod.splits)
  have k: "k < length (slot_of c)" using cache_lensD(8) [OF cache_invD(1) [OF c(1)]] assms(3) c(2) by simp
  have kr: "int k < nkeys (cfg (get_noted src c k))" using assms(3) c(2) by simp
  have "slot_of c' ! k = None"
    using a(1) get_noted_inv [OF c(1)] kr
  proof (cases rule: admit_cases)
    case (short s need m)
    have "slot_of c' = slot_of (unregister (get_noted src c k) s)" by (simp add: short)
    with k short(1) show ?thesis by simp
  qed (use a(2) in simp_all)
  moreover have "Holds k \<notin> set (key_of c')"
  proof
    assume "Holds k \<in> set (key_of c')"
    then obtain s where "s < length (key_of c')" "key_of c' ! s = Holds k" by (auto simp: in_set_conv_nth)
    from cache_mapsD2 [OF cache_invD(2) [OF ci] this] \<open>slot_of c' ! k = None\<close> show False by simp
  qed
  ultimately show ?thesis by (simp add: eng_cache_peek_def)
qed

definition failing_src :: "nat cache_src" where
  "failing_src = demo_src\<lparr>load := (\<lambda>k m cap. if k = 1 then (0, 0, []) else (1, 0, [of_nat m]))\<rparr>"

theorem cache_failed_get_not_resident_witness:
  "eng_cache_peek (snd (eng_cache_get failing_src (cache_after failing_src demo_cfg [0, 2]) 1)) 1 = None"
proof -
  have cr: "eng_cache_create demo_cfg failing_src = Some (the (eng_cache_create demo_cfg failing_src))"
    by code_simp
  let ?c = "cache_after failing_src demo_cfg [0, 2]"
  have g: "eng_cache_get failing_src ?c 1 = (None, snd (eng_cache_get failing_src ?c 1))" by code_simp
  show ?thesis
    using cache_failed_get_not_resident [OF reach_after [OF cr, of "[0, 2]"] g] by (simp add: demo_cfg_def)
qed

text \<open>
  The slots one batch reserves are pairwise distinct and never pinned, so each of the
  concurrent reads of \<open>eng_cache_get_many\<close> has a buffer of its own: running the reads in
  any order leaves the same arena.
\<close>

theorem batch_reads_independent:
  assumes "cache_reach src cf c" and "gm_reserve src c keys [] = (w, c1)"
    and "mset ws = mset w"
  shows "distinct (map w_slot w) \<and> (\<forall>wk \<in> set w. \<not> pinned c ! w_slot wk) \<and>
    length w \<le> ENG_CACHE_MAX_BATCH \<and> snd (gm_read src c1 ws) = snd (gm_read src c1 w)"
proof -
  from reach_inv [OF assms(1)] have c: "cache_inv c" "quiescent c" by auto
  from gm_reserve_inv [OF assms(2) c(1) quiescent_gm_inv [OF c]]
  have c1: "cache_inv c1" "gm_inv c1 w" "length w \<le> ENG_CACHE_MAX_BATCH" by auto
  have "\<not> pinned c ! w_slot wk" if "wk \<in> set w" for wk
    using c1 that cache_marksD(2) [OF cache_invD(3) [OF c1(1)], of "w_slot wk"]
      gm_reserve_pinned [of src c keys "[]"] assms(2) by (auto simp: gm_inv_def)
  moreover have "read_into src c1 w (arena c1) = read_into src c1 ws (arena c1)"
    using c1(2) assms(3) by (intro read_into_order) (auto simp: gm_inv_def)
  ultimately show ?thesis using c1 by (simp add: gm_read_eq gm_inv_def)
qed

theorem batch_reads_independent_witness:
  "snd (gm_read demo_src (snd (gm_reserve demo_src (cache_after demo_src demo_cfg [0]) [1, 2] []))
     (rev (fst (gm_reserve demo_src (cache_after demo_src demo_cfg [0]) [1, 2] [])))) =
   snd (gm_read demo_src (snd (gm_reserve demo_src (cache_after demo_src demo_cfg [0]) [1, 2] []))
     (fst (gm_reserve demo_src (cache_after demo_src demo_cfg [0]) [1, 2] [])))"
proof -
  let ?g = "gm_reserve demo_src (cache_after demo_src demo_cfg [0]) [1, 2] []"
  have "mset (rev (fst ?g)) = mset (fst ?g)" by simp
  with batch_reads_independent [OF reach_after [OF demo_created, of "[0]"], of "[1, 2]" "fst ?g" "snd ?g" "rev (fst ?g)"]
  show ?thesis by simp
qed

text \<open>
  The victim is never pinned or in flight; unless a slot is free, it is a least
  recently used one among the slots that are not pinned; and there is no victim exactly
  when every slot is pinned.
\<close>

theorem victim_is_lru:
  assumes "cache_reach src cf c" and "clock c < 2 ^ 64 - 1"
  shows "case pick_victim c of
      None \<Rightarrow> \<forall>i < nslot c. pinned c ! i
    | Some v \<Rightarrow> v < nslot c \<and> \<not> pinned c ! v \<and> key_of c ! v \<noteq> Inflight \<and>
        (key_of c ! v = Empty \<or> (\<forall>i < nslot c. \<not> pinned c ! i \<longrightarrow> used_at c ! v \<le> used_at c ! i))"
proof -
  from reach_inv [OF assms(1)] have c: "cache_inv c" "quiescent c" by auto
  note ls = cache_lensD [OF cache_invD(1) [OF c(1)]] and mk = cache_marksD [OF cache_invD(3) [OF c(1)]]
  have cases: "key_of c ! i = Empty \<or> pinned c ! i \<or> evictable c i" if "i < nslot c" for i
  proof -
    have "key_of c ! i \<noteq> Inflight" using c(2) that ls(2) by (metis nth_mem quiescent_def)
    then show ?thesis by (cases "key_of c ! i") (auto simp: evictable_def)
  qed
  show ?thesis
  proof (cases "pick_victim c")
    case None
    have "pinned c ! i" if i: "i < nslot c" for i
      using victim_scan_None [OF None [unfolded pick_victim_def]] cases [OF i] mk(1) [OF i] i assms(2)
      by fastforce
    with None show ?thesis by simp
  next
    case (Some v)
    note v = pick_victim_slot [OF Some] victim_not_pinned [OF c(1) Some]
    have "used_at c ! v \<le> used_at c ! i"
      if ne: "key_of c ! v \<noteq> Empty" and i: "i < nslot c" "\<not> pinned c ! i" for i
    proof -
      have "\<forall>j \<in> set [0..<nslot c]. key_of c ! j \<noteq> Empty"
      proof (rule ccontr)
        assume "\<not> ?thesis"
        then obtain j where j: "j < nslot c" "key_of c ! j = Empty" "\<forall>l < j. key_of c ! l \<noteq> Empty"
          using exists_least_iff [of "\<lambda>j. j < nslot c \<and> key_of c ! j = Empty"] by auto
        then have "[0..<nslot c] = [0..<j] @ j # [Suc j..<nslot c]"
          using upt_add_eq_append [of 0 j "nslot c - j"] upt_conv_Cons [of j "nslot c"] by simp
        then have "pick_victim c = Some j"
          using j by (simp add: pick_victim_def victim_scan_first_empty)
        with Some j(2) ne show False by simp
      qed
      with victim_scan_least [OF Some [unfolded pick_victim_def]] cases [OF i(1)] i show ?thesis by auto
    qed
    with v Some show ?thesis by auto
  qed
qed

theorem victim_is_lru_witness:
  "pick_victim (cache_after demo_src demo_cfg [0, 1, 0]) = Some 1 \<and>
   used_at (cache_after demo_src demo_cfg [0, 1, 0]) ! 1 \<le> used_at (cache_after demo_src demo_cfg [0, 1, 0]) ! 0"
proof -
  let ?c = "cache_after demo_src demo_cfg [0, 1, 0]"
  have "pick_victim ?c = Some 1" "int (clock ?c) = 3" "int (nslot ?c) = 2" "key_of ?c ! 1 = Holds 1"
    "\<not> pinned ?c ! 0"
    by code_simp+
  with victim_is_lru [OF reach_after [OF demo_created, of "[0, 1, 0]"]] show ?thesis by simp
qed

text \<open>
  C28: on a cyclic scan over more keys than there are slots the cache never hits, for any
  number of requests: every one of them is a miss.  This is the reason
  \<^verbatim>\<open>streamer.h\<close> gives for not using this cache for layers.
\<close>

theorem cyclic_scan_never_hits:
  assumes "eng_cache_create cf src = Some c" and "nslot c < L" and "int L \<le> nkeys cf"
    and "loads_ok src (slot_bytes cf) (stride c) L" and "m < 2 ^ 64"
  shows "hits (cyclic_walk src L c 0 m) = 0 \<and> misses (cyclic_walk src L c 0 m) = m"
  using cyclic_walk_scan [OF created_scan_inv [OF assms(1)], where m = m and L = L and src = src]
    create_inv [OF assms(1)] assms by (simp add: scan_inv_def)

theorem cyclic_scan_never_hits_witness:
  "hits (cyclic_walk demo_src 3 (the (eng_cache_create demo_cfg demo_src)) 0 1000000) = 0"
proof -
  let ?c = "the (eng_cache_create demo_cfg demo_src)"
  have "nslot ?c < 3" by code_simp
  moreover have "loads_ok demo_src (slot_bytes demo_cfg) (stride ?c) 3"
    by (simp add: loads_ok_def demo_src_def demo_cfg_def)
  ultimately show ?thesis
    using cyclic_scan_never_hits [OF demo_created, of 3 1000000] by (simp add: demo_cfg_def)
qed

text \<open>
  The slot stride is a multiple of the direct-I/O alignment, so every slot base is
  aligned when the arena is, and a direct read of any object that fits the slot payload,
  from any file offset, stays inside its slot after widening.
\<close>

theorem slot_stride_fits_widened_reads:
  assumes "0 \<le> n" and "n \<le> sb"
  shows "ENG_IO_ALIGN dvd int i * eng_cache_stride_for sb \<and>
    align_up (off + n) ENG_IO_ALIGN - align_down off ENG_IO_ALIGN \<le> eng_cache_stride_for sb \<and>
    eng_cache_stride_for sb < sb + 3 * ENG_IO_ALIGN"
proof -
  have s: "eng_cache_stride_for sb = align_up (sb + 2 * ENG_IO_ALIGN) ENG_IO_ALIGN"
    using assms by (simp add: stride_for_align)
  have "align_up n ENG_IO_ALIGN + ENG_IO_ALIGN \<le> sb + 2 * ENG_IO_ALIGN"
    using align_up_less [of n] assms(2) by linarith
  with window_len [of off n] have "align_up (off + n) ENG_IO_ALIGN - align_down off ENG_IO_ALIGN
      \<le> align_up (sb + 2 * ENG_IO_ALIGN) ENG_IO_ALIGN"
    using align_up_ge [of "sb + 2 * ENG_IO_ALIGN"] by linarith
  with align_up_less [of "sb + 2 * ENG_IO_ALIGN"] show ?thesis by (simp add: s)
qed

theorem slot_stride_fits_widened_reads_witness:
  "align_up (4095 + 17547264) ENG_IO_ALIGN - align_down 4095 ENG_IO_ALIGN \<le> eng_cache_stride_for 17547264"
  using slot_stride_fits_widened_reads [of 17547264 17547264 0 4095] by simp

text \<open>
  The batch path writes a candidate's metadata into the victim slot before it knows
  that the candidate fits, and does not restore it.  Here key 3 is too large for a slot:
  the batch admits nothing, yet afterwards a request for the still resident key 0 is a hit
  that hands out key 3's metadata.
\<close>

theorem batch_refusal_clobbers_metadata:
  "let c = cache_after oversize_src demo_cfg [0, 1];
       (n, c1) = eng_cache_get_many oversize_src c [3];
       (e, c2) = eng_cache_get oversize_src c1 0
   in map_option e_meta (eng_cache_peek c 0) = Some 0 \<and> n = 0 \<and> hits c2 = hits c1 + 1 \<and>
      map_option e_meta e = Some 3 \<and> map_option e_data e = Some [0]"
  by code_simp

end
