(* ===== verification/Planner.thy ===== *)
theory Planner
  imports Eng_Prelude Complex_Main
begin

text \<open>
  The memory partition and the execution planner: \<^verbatim>\<open>src/runtime/memory.c\<close> and
  \<^verbatim>\<open>src/runtime/planner.c\<close>.  \<open>int64_t\<close> arithmetic wraps (\<open>i64\<close>), C division
  truncates (\<open>c_div\<close>).  The messages in \<open>problem\<close> and \<open>notes\<close> are represented by one
  constructor per message; \<open>double\<close> ratios by exact rationals.
\<close>

section \<open>The memory partition\<close>

datatype mem_problem = NoBudget | BelowReserve | ResidentTooBig | WorkingSetTooBig
  | NothingForKv | NoKvPosition | WeightsTooSmall

record eng_mem_needs =
  nd_resident :: int
  nd_activations :: int
  nd_scratch :: int
  nd_kv_per_pos :: int
  nd_context :: int
  nd_min_weights :: int

record mem_plan_rec =
  mp_budget :: int
  mp_reserve :: int
  mp_resident :: int
  mp_activations :: int
  mp_scratch :: int
  mp_kv_cache :: int
  mp_weights :: int
  mp_ok :: bool
  mp_problem :: "mem_problem option"

definition empty_plan :: "int \<Rightarrow> mem_plan_rec" where
  "empty_plan budget = \<lparr>mp_budget = budget, mp_reserve = 0, mp_resident = 0, mp_activations = 0,
     mp_scratch = 0, mp_kv_cache = 0, mp_weights = 0, mp_ok = False, mp_problem = None\<rparr>"

definition eng_mem_max_context :: "int \<Rightarrow> int \<Rightarrow> int" where
  "eng_mem_max_context avail kv_per_pos =
     (if kv_per_pos \<le> 0 then 0 else if avail \<le> 0 then 0
      else let n = c_div avail kv_per_pos in if n > 2 ^ 30 then 2 ^ 30 else i32 n)"

definition eng_mem_auto_budget :: "int \<Rightarrow> int \<Rightarrow> int" where
  "eng_mem_auto_budget ram_available ram_total =
     (let base = (if ram_available > 0 then ram_available else c_div (i64 (ram_total * 3)) 4)
      in if base \<le> 0 then 0
         else let keep_prop = c_div base 5;
                  keep = (if keep_prop > 2 ^ 30 then keep_prop else 2 ^ 30);
                  budget = i64 (base - keep)
              in if budget > 0 then budget else 0)"

definition mem_reserve :: "int \<Rightarrow> int" where
  "mem_reserve budget =
     (let res_prop = c_div (i64 (budget * 12)) 100
      in if res_prop > 768 * 2 ^ 20 then res_prop else 768 * 2 ^ 20)"

text \<open>The KV stage: the bytes and the context granted, or the refusal.\<close>

definition kv_stage :: "eng_mem_needs \<Rightarrow> int \<Rightarrow> mem_problem + int \<times> int" where
  "kv_stage needs left =
     (let ctx = nd_context needs in
      if nd_kv_per_pos needs > 0 \<and> ctx > 0
      then let for_kv = i64 (left - nd_min_weights needs);
               want = i64 (ctx * nd_kv_per_pos needs)
           in if for_kv \<le> 0 then Inl NothingForKv
              else let ctx = (if want > for_kv then eng_mem_max_context for_kv (nd_kv_per_pos needs) else ctx)
                   in if ctx \<le> 0 then Inl NoKvPosition
                      else Inr (i64 (ctx * nd_kv_per_pos needs), ctx)
      else Inr (0, ctx))"

text \<open>
  The verdict (0 or -1), the plan as far as it was filled in, and the value stored through
  \<open>context_out\<close>, if any.
\<close>

definition eng_mem_plan :: "int \<Rightarrow> eng_mem_needs \<Rightarrow> int \<times> mem_plan_rec \<times> int option" where
  "eng_mem_plan budget needs =
     (let plan = empty_plan budget in
      if budget \<le> 0 then (-1, plan\<lparr>mp_problem := Some NoBudget\<rparr>, None)
      else
      let plan = plan\<lparr>mp_reserve := mem_reserve budget\<rparr>
      in if mp_reserve plan \<ge> budget then (-1, plan\<lparr>mp_problem := Some BelowReserve\<rparr>, None)
      else
      let left = i64 (budget - mp_reserve plan);
          plan = plan\<lparr>mp_resident := nd_resident needs\<rparr>
      in if mp_resident plan > left then (-1, plan\<lparr>mp_problem := Some ResidentTooBig\<rparr>, None)
      else
      let left = i64 (left - mp_resident plan);
          plan = plan\<lparr>mp_activations := nd_activations needs, mp_scratch := nd_scratch needs\<rparr>;
          work = i64 (mp_activations plan + mp_scratch plan)
      in if work > left then (-1, plan\<lparr>mp_problem := Some WorkingSetTooBig\<rparr>, None)
      else
      let left = i64 (left - work)
      in case kv_stage needs left of
           Inl e \<Rightarrow> (-1, plan\<lparr>mp_problem := Some e\<rparr>, None)
         | Inr (kv, ctx) \<Rightarrow>
             let plan = plan\<lparr>mp_kv_cache := kv\<rparr>;
                 left = (if nd_kv_per_pos needs > 0 \<and> nd_context needs > 0 then i64 (left - kv) else left);
                 plan = plan\<lparr>mp_weights := left\<rparr>
             in if mp_weights plan < nd_min_weights needs
                then (-1, plan\<lparr>mp_problem := Some WeightsTooSmall\<rparr>, Some ctx)
                else (0, plan\<lparr>mp_ok := True\<rparr>, Some ctx))"

section \<open>The planner\<close>

datatype eng_storage_class = ENG_STORE_UNKNOWN | ENG_STORE_ROTATIONAL | ENG_STORE_SSD

record eng_hwinfo =
  hw_cores_physical :: int
  hw_cores_logical :: int
  hw_isa :: "32 word"
  hw_isa_built :: "32 word"
  hw_ram_total :: int
  hw_ram_available :: int
  hw_storage :: eng_storage_class
  hw_storage_free :: int

definition ENG_ISA_AVX2 :: "32 word" where
  "ENG_ISA_AVX2 = push_bit 2 1"

record eng_model_facts =
  mf_n_layers :: int
  mf_total_weight_bytes :: int
  mf_resident_bytes :: int
  mf_max_layer_bytes :: int
  mf_avg_layer_bytes :: int
  mf_activation_bytes :: int
  mf_scratch_bytes :: int
  mf_kv_bytes_per_pos :: int
  mf_context_max :: int
  mf_n_experts :: int
  mf_topk :: int
  mf_expert_bytes :: int
  mf_bytes_per_weight :: rat

definition ENG_DEFAULT_CONTEXT :: int where
  "ENG_DEFAULT_CONTEXT = 4096"

datatype plan_note = NoteAutoBudget | NoteThreadsLogical | NoteThreadsPhysical | NoteOversubscribed
  | NoteContextCapped int | NoteContextReduced int int | NoteResident | NoteCacheMinimum | NoteTightSplit
  | NoteStreaming int int | NoteRotational | NoteNoAvx2 | NoteNotBuiltAvx2 | NoteLowDisk

datatype plan_problem = NoRam | Mem mem_problem | ResidencyImpossible

record plan_rec =
  pl_memory_budget :: int
  pl_threads :: int
  pl_context :: int
  pl_streaming :: bool
  pl_stream_budget :: int
  pl_cache_budget :: int
  pl_prefetch_depth :: int
  pl_mem :: mem_plan_rec
  pl_predicted_stream_hit_rate :: rat
  pl_notes :: "plan_note list"
  pl_ok :: bool
  pl_problem :: "plan_problem option"

record eng_plan_request =
  rq_memory_budget :: int
  rq_threads :: int
  rq_context :: int
  rq_force_stream :: int

definition eng_plan_request_init :: eng_plan_request where
  "eng_plan_request_init = \<lparr>rq_memory_budget = 0, rq_threads = 0, rq_context = 0, rq_force_stream = -1\<rparr>"

definition note_plan :: "plan_note \<Rightarrow> plan_rec \<Rightarrow> plan_rec" where
  "note_plan n p = (if length (pl_notes p) \<ge> 10 then p else p\<lparr>pl_notes := pl_notes p @ [n]\<rparr>)"

definition choose_threads :: "eng_hwinfo \<Rightarrow> eng_model_facts \<Rightarrow> plan_rec \<Rightarrow> int \<times> plan_rec" where
  "choose_threads hw m p =
     (let phys = (if hw_cores_physical hw > 0 then hw_cores_physical hw else 1);
          logi = (if hw_cores_logical hw > 0 then hw_cores_logical hw else phys)
      in if mf_bytes_per_weight m > 0 \<and> mf_bytes_per_weight m < 1
         then (logi, if logi > phys then note_plan NoteThreadsLogical p else p)
         else (phys, if logi > phys then note_plan NoteThreadsPhysical p else p))"

text \<open>The context the planner asks for, and the plan with the note it may have left.\<close>

definition want_context :: "eng_model_facts \<Rightarrow> eng_plan_request \<Rightarrow> plan_rec \<Rightarrow> int \<times> plan_rec" where
  "want_context m req plan =
     (if rq_context req > 0 then (rq_context req, plan)
      else
      let c = (if mf_context_max m > 0 \<and> mf_context_max m < ENG_DEFAULT_CONTEXT
               then mf_context_max m else ENG_DEFAULT_CONTEXT)
      in if mf_kv_bytes_per_pos m > 0
         then let spare = i64 (pl_memory_budget plan - mf_resident_bytes m - mf_activation_bytes m - mf_scratch_bytes m);
                  kv_cap = (if spare > 0 then c_div spare 4 else 0);
                  fits = eng_mem_max_context kv_cap (mf_kv_bytes_per_pos m)
              in if fits > 0 \<and> fits < c then (fits, note_plan (NoteContextCapped fits) plan) else (c, plan)
         else (c, plan))"

text \<open>The split of the weight budget between the layer stream and the expert cache.\<close>

definition split_weights :: "eng_model_facts \<Rightarrow> int \<Rightarrow> plan_rec \<Rightarrow> plan_rec" where
  "split_weights m wbudget plan =
     (if mf_n_experts m > 0 \<and> mf_expert_bytes m > 0
      then let cache_min = i64 ((mf_topk m + 1) * mf_expert_bytes m)
           in if wbudget > i64 (cache_min + mf_max_layer_bytes m * 2)
              then note_plan NoteCacheMinimum
                     (plan\<lparr>pl_cache_budget := cache_min, pl_stream_budget := i64 (wbudget - cache_min)\<rparr>)
              else note_plan NoteTightSplit
                     (plan\<lparr>pl_cache_budget := c_div wbudget 2,
                           pl_stream_budget := i64 (wbudget - c_div wbudget 2)\<rparr>)
      else plan\<lparr>pl_stream_budget := wbudget, pl_cache_budget := 0\<rparr>)"

definition predict_hits :: "eng_model_facts \<Rightarrow> plan_rec \<Rightarrow> plan_rec" where
  "predict_hits m plan =
     (if mf_avg_layer_bytes m > 0 \<and> mf_n_layers m > 0
      then let slot = (if mf_max_layer_bytes m > 0 then mf_max_layer_bytes m else mf_avg_layer_bytes m);
               after_ring = i64 (pl_stream_budget plan - 2 * slot);
               npin = (if after_ring > 0 then i32 (c_div after_ring (mf_avg_layer_bytes m)) else 0);
               npin = (if npin > mf_n_layers m then mf_n_layers m else npin)
           in note_plan (NoteStreaming npin (mf_n_layers m))
                (plan\<lparr>pl_predicted_stream_hit_rate := of_int npin / of_int (mf_n_layers m)\<rparr>)
      else plan)"

definition closing_notes :: "eng_hwinfo \<Rightarrow> eng_model_facts \<Rightarrow> plan_rec \<Rightarrow> plan_rec" where
  "closing_notes hw m plan =
     (let plan = (if hw_storage hw = ENG_STORE_ROTATIONAL \<and> pl_streaming plan
                  then note_plan NoteRotational plan else plan);
          plan = (if hw_isa hw AND ENG_ISA_AVX2 = 0 then note_plan NoteNoAvx2 plan
                  else if hw_isa_built hw AND ENG_ISA_AVX2 = 0 then note_plan NoteNotBuiltAvx2 plan else plan)
      in if hw_storage_free hw > 0 \<and> hw_storage_free hw < c_div (mf_total_weight_bytes m) 10
         then note_plan NoteLowDisk plan else plan)"

definition plan_budget :: "eng_hwinfo \<Rightarrow> eng_plan_request \<Rightarrow> plan_rec" where
  "plan_budget hw req =
     (let plan = \<lparr>pl_memory_budget = 0, pl_threads = 0, pl_context = 0, pl_streaming = False,
                  pl_stream_budget = 0, pl_cache_budget = 0, pl_prefetch_depth = 0, pl_mem = empty_plan 0,
                  pl_predicted_stream_hit_rate = -1, pl_notes = [], pl_ok = False, pl_problem = None\<rparr>
      in if rq_memory_budget req > 0 then plan\<lparr>pl_memory_budget := rq_memory_budget req\<rparr>
         else note_plan NoteAutoBudget
                (plan\<lparr>pl_memory_budget := eng_mem_auto_budget (hw_ram_available hw) (hw_ram_total hw)\<rparr>))"

definition plan_threads :: "eng_hwinfo \<Rightarrow> eng_model_facts \<Rightarrow> eng_plan_request \<Rightarrow> plan_rec \<Rightarrow> plan_rec" where
  "plan_threads hw m req plan =
     (let (threads, plan) = (if rq_threads req > 0 then (rq_threads req, plan) else choose_threads hw m plan);
          plan = plan\<lparr>pl_threads := threads\<rparr>
      in if rq_threads req > 0 \<and> rq_threads req > hw_cores_logical hw
         then note_plan NoteOversubscribed plan else plan)"

definition facts_needs :: "eng_model_facts \<Rightarrow> int \<Rightarrow> eng_mem_needs" where
  "facts_needs m ctx =
     \<lparr>nd_resident = mf_resident_bytes m, nd_activations = mf_activation_bytes m,
      nd_scratch = mf_scratch_bytes m, nd_kv_per_pos = mf_kv_bytes_per_pos m, nd_context = ctx,
      nd_min_weights = (if mf_max_layer_bytes m > 0 then mf_max_layer_bytes m else mf_avg_layer_bytes m)\<rparr>"

text \<open>Resident or streaming, and what follows from it.\<close>

definition plan_place :: "eng_hwinfo \<Rightarrow> eng_model_facts \<Rightarrow> eng_plan_request \<Rightarrow> int \<Rightarrow> plan_rec \<Rightarrow> int \<times> plan_rec" where
  "plan_place hw m req wbudget plan =
     (let streamable = i64 (mf_total_weight_bytes m - mf_resident_bytes m)
      in if rq_force_stream req = 0 \<and> wbudget < streamable
         then (-1, plan\<lparr>pl_problem := Some ResidencyImpossible\<rparr>)
      else
      let plan = plan\<lparr>pl_streaming := (rq_force_stream req = 1 \<or> wbudget < streamable)\<rparr>;
          plan = (if \<not> pl_streaming plan
                  then (note_plan NoteResident plan)
                         \<lparr>pl_stream_budget := streamable, pl_cache_budget := i64 (wbudget - streamable),
                          pl_predicted_stream_hit_rate := 1\<rparr>
                  else predict_hits m (split_weights m wbudget plan));
          plan = plan\<lparr>pl_prefetch_depth := (if pl_streaming plan then 1 else 0)\<rparr>;
          plan = closing_notes hw m plan
      in (0, plan\<lparr>pl_ok := True\<rparr>))"

definition eng_plan :: "eng_hwinfo \<Rightarrow> eng_model_facts \<Rightarrow> eng_plan_request option \<Rightarrow> int \<times> plan_rec" where
  "eng_plan hw m reqo =
     (let req = (case reqo of None \<Rightarrow> eng_plan_request_init | Some r \<Rightarrow> r);
          plan = plan_budget hw req
      in if pl_memory_budget plan \<le> 0 then (-1, plan\<lparr>pl_problem := Some NoRam\<rparr>)
      else
      let plan = plan_threads hw m req plan;
          (nctx, plan) = want_context m req plan;
          (rc, mem, cout) = eng_mem_plan (pl_memory_budget plan) (facts_needs m nctx);
          plan = plan\<lparr>pl_mem := mem\<rparr>
      in if rc \<noteq> 0 then (-1, plan\<lparr>pl_problem := map_option Mem (mp_problem mem)\<rparr>)
      else
      let ctx = (case cout of None \<Rightarrow> nctx | Some c \<Rightarrow> c);
          plan = plan\<lparr>pl_context := ctx\<rparr>;
          plan = (if nctx > 0 \<and> ctx < nctx then note_plan (NoteContextReduced nctx ctx) plan else plan)
      in plan_place hw m req (mp_weights mem) plan)"

section \<open>What the partition guarantees\<close>

definition reserve_of :: "int \<Rightarrow> int" where
  "reserve_of budget = max (budget * 12 div 100) (768 * 2 ^ 20)"

text \<open>Figures for which no 64-bit step wraps.\<close>

definition needs_in_range :: "int \<Rightarrow> eng_mem_needs \<Rightarrow> bool" where
  "needs_in_range budget needs \<longleftrightarrow> budget < 2 ^ 59 \<and>
     0 \<le> nd_resident needs \<and> 0 \<le> nd_activations needs \<and> nd_activations needs < 2 ^ 61 \<and>
     0 \<le> nd_scratch needs \<and> nd_scratch needs < 2 ^ 61 \<and>
     0 \<le> nd_min_weights needs \<and> nd_min_weights needs < 2 ^ 61 \<and>
     0 \<le> nd_kv_per_pos needs \<and> 0 \<le> nd_context needs \<and> nd_context needs < 2 ^ 31 \<and>
     nd_context needs * nd_kv_per_pos needs < 2 ^ 63"

text \<open>The bytes that must be there before any context can be granted.\<close>

definition fixed_cost :: "int \<Rightarrow> eng_mem_needs \<Rightarrow> int" where
  "fixed_cost budget needs = reserve_of budget + nd_resident needs + nd_activations needs + nd_scratch needs
     + nd_min_weights needs + (if nd_kv_per_pos needs > 0 \<and> nd_context needs > 0 then nd_kv_per_pos needs else 0)"

lemma max_context_bounds:
  assumes "0 < kv" "0 < avail" "avail < 2 ^ 62"
  shows "eng_mem_max_context avail kv = min (avail div kv) (2 ^ 30)"
proof -
  have "0 \<le> avail div kv" using assms by (simp add: pos_imp_zdiv_nonneg_iff)
  then show ?thesis using assms by (auto simp: eng_mem_max_context_def Let_def in_i32_def)
qed

lemma div_mult_le_self: "0 < k \<Longrightarrow> a div k * k \<le> (a :: int)"
  using div_mult_mod_eq [of a k] pos_mod_sign [of k a] by linarith

lemma div_Suc_mult_gt: "0 < k \<Longrightarrow> (a :: int) < (a div k + 1) * k"
proof -
  assume k: "0 < k"
  have "a = a div k * k + a mod k" by simp
  moreover have "a mod k < k" using k by simp
  ultimately have "a < a div k * k + k" by linarith
  then show ?thesis by (simp add: distrib_right)
qed

lemma kv_stage_spec:
  assumes rng: "needs_in_range budget needs" and left: "0 \<le> left" "left < 2 ^ 59"
  shows "case kv_stage needs left of
      Inl e \<Rightarrow> nd_kv_per_pos needs > 0 \<and> nd_context needs > 0 \<and> left < nd_min_weights needs + nd_kv_per_pos needs
    | Inr (kv, ctx) \<Rightarrow>
        kv = (if nd_kv_per_pos needs > 0 \<and> nd_context needs > 0 then ctx * nd_kv_per_pos needs else 0) \<and>
        ctx \<le> nd_context needs \<and>
        (nd_kv_per_pos needs > 0 \<and> nd_context needs > 0 \<longrightarrow> 1 \<le> ctx \<and> kv + nd_min_weights needs \<le> left) \<and>
        (ctx = nd_context needs \<or> ctx = 2 ^ 30 \<or> (ctx + 1) * nd_kv_per_pos needs + nd_min_weights needs > left)"
proof (cases "nd_kv_per_pos needs > 0 \<and> nd_context needs > 0")
  case False
  then show ?thesis by (auto simp: kv_stage_def)
next
  case True
  let ?kv = "nd_kv_per_pos needs" and ?f = "left - nd_min_weights needs" and ?c = "nd_context needs"
  have "0 \<le> ?c * ?kv" "?c * ?kv < 2 ^ 63" using rng True by (simp_all add: needs_in_range_def)
  from i64_id [OF in_i64_nonneg [OF this]] have i: "i64 ?f = ?f" "i64 (?c * ?kv) = ?c * ?kv"
    using rng left by (auto simp: needs_in_range_def in_i64_def intro!: i64_id)
  show ?thesis
  proof (cases "?f < ?kv")
    case small: True
    have "?f div ?kv = 0" if "0 < ?f" using that small by simp
    moreover have "?f < ?c * ?kv"
    proof -
      have "1 * ?kv \<le> ?c * ?kv" using True by (intro mult_right_mono) auto
      with small show ?thesis by linarith
    qed
    moreover have "0 < ?f \<Longrightarrow> eng_mem_max_context ?f ?kv = min (?f div ?kv) (2 ^ 30)"
      using True left rng by (intro max_context_bounds) (auto simp: needs_in_range_def)
    ultimately show ?thesis using True small by (auto simp: kv_stage_def Let_def i)
  next
    case big: False
    define g where "g = (if ?c * ?kv > ?f then min (?f div ?kv) (2 ^ 30) else ?c)"
    have "0 < ?f" using big True by linarith
    moreover have "?f < 2 ^ 62" using left rng by (auto simp: needs_in_range_def)
    ultimately have mc: "eng_mem_max_context ?f ?kv = min (?f div ?kv) (2 ^ 30)"
      using True by (intro max_context_bounds) auto
    have "0 < ?f div ?kv" using big True by (simp add: pos_imp_zdiv_pos_iff)
    then have d: "1 \<le> ?f div ?kv" by simp
    have g1: "1 \<le> g" using d True by (simp add: g_def)
    have g2: "g * ?kv \<le> ?f"
    proof (cases "?c * ?kv > ?f")
      case t: True
      then have "g * ?kv \<le> ?f div ?kv * ?kv" using True by (intro mult_right_mono) (auto simp: g_def)
      then show ?thesis using div_mult_le_self [of ?kv ?f] True by linarith
    qed (simp add: g_def)
    have g3: "g \<le> ?c"
    proof (cases "?c * ?kv > ?f")
      case t: True
      then have "\<not> ?c < ?f div ?kv"
        using mult_right_mono [of "?c" "?f div ?kv" ?kv] div_mult_le_self [of ?kv ?f] True by linarith
      then show ?thesis using t by (simp add: g_def)
    qed (simp add: g_def)
    have g4: "g = ?c \<or> g = 2 ^ 30 \<or> (g + 1) * ?kv > ?f"
      using div_Suc_mult_gt [of ?kv ?f] True by (auto simp: g_def min_def)
    have "i64 (g * ?kv) = g * ?kv"
    proof (rule i64_id)
      have "0 \<le> g * ?kv" using g1 True by simp
      then show "in_i64 (g * ?kv)" using g2 \<open>?f < 2 ^ 62\<close> by (simp add: in_i64_def)
    qed
    moreover have "(if ?c * ?kv > ?f then eng_mem_max_context ?f ?kv else ?c) = g" by (simp add: g_def mc)
    ultimately have "kv_stage needs left = Inr (g * ?kv, g)"
      using True \<open>0 < ?f\<close> g1 by (simp add: kv_stage_def Let_def i)
    then show ?thesis using True g1 g2 g3 g4 by auto
  qed
qed

lemma reserve_of_eq:
  assumes "0 < budget" "budget < 2 ^ 59"
  shows "c_div (i64 (budget * 12)) 100 = budget * 12 div 100"
proof -
  have "i64 (budget * 12) = budget * 12" using assms by (intro i64_id) (simp add: in_i64_def)
  then show ?thesis using assms by simp
qed

lemma reserve_of_bounds: "0 < budget \<Longrightarrow> 0 < reserve_of budget"
  by (simp add: reserve_of_def)

text \<open>One equation for the whole function, free of wrap-around.\<close>

lemma eng_mem_plan_eq:
  assumes rng: "needs_in_range budget needs" and pos: "0 < budget"
  defines "left \<equiv> budget - reserve_of budget - nd_resident needs - (nd_activations needs + nd_scratch needs)"
  assumes r: "reserve_of budget < budget"
  shows "0 \<le> left \<Longrightarrow> eng_mem_plan budget needs =
    (let plan = \<lparr>mp_budget = budget, mp_reserve = reserve_of budget, mp_resident = nd_resident needs,
           mp_activations = nd_activations needs, mp_scratch = nd_scratch needs, mp_kv_cache = 0, mp_weights = 0,
           mp_ok = False, mp_problem = None\<rparr>
     in case kv_stage needs left of
          Inl e \<Rightarrow> (-1, plan\<lparr>mp_problem := Some e\<rparr>, None)
        | Inr (kv, ctx) \<Rightarrow>
            let plan = plan\<lparr>mp_kv_cache := kv, mp_weights := left - kv\<rparr>
            in if left - kv < nd_min_weights needs then (-1, plan\<lparr>mp_problem := Some WeightsTooSmall\<rparr>, Some ctx)
               else (0, plan\<lparr>mp_ok := True\<rparr>, Some ctx))"
    and "left < 0 \<Longrightarrow> fst (eng_mem_plan budget needs) = -1"
proof -
  let ?l1 = "budget - reserve_of budget" and ?w = "nd_activations needs + nd_scratch needs"
  have rg: "0 \<le> nd_resident needs" "0 \<le> nd_activations needs" "nd_activations needs < 2 ^ 61"
     "0 \<le> nd_scratch needs" "nd_scratch needs < 2 ^ 61" "budget < 2 ^ 59" "0 \<le> nd_min_weights needs"
    using rng by (auto simp: needs_in_range_def)
  have rv: "mem_reserve budget = reserve_of budget"
    unfolding mem_reserve_def Let_def reserve_of_eq [OF pos rg(6)] by (simp add: reserve_of_def)
  have i1: "i64 ?l1 = ?l1" using r reserve_of_bounds [OF pos] rg(6) by (intro i64_id) (simp add: in_i64_def)
  have iw: "i64 ?w = ?w" using rg by (intro i64_id) (simp add: in_i64_def)
  have i2: "i64 (?l1 - nd_resident needs) = ?l1 - nd_resident needs" if "nd_resident needs \<le> ?l1"
    using that rg reserve_of_bounds [OF pos] by (intro i64_id) (simp add: in_i64_def)
  have i3: "i64 left = left" if "0 \<le> left"
    using that rg reserve_of_bounds [OF pos] by (intro i64_id) (simp add: in_i64_def left_def)
  show "fst (eng_mem_plan budget needs) = -1" if "left < 0"
  proof (cases "nd_resident needs > ?l1")
    case True
    then show ?thesis using pos r i1 by (simp add: eng_mem_plan_def Let_def rv empty_plan_def)
  next
    case False
    then have "?w > ?l1 - nd_resident needs" using that by (simp add: left_def)
    then show ?thesis using pos r i1 i2 iw False
      by (simp add: eng_mem_plan_def Let_def rv empty_plan_def)
  qed
  show "eng_mem_plan budget needs =
    (let plan = \<lparr>mp_budget = budget, mp_reserve = reserve_of budget, mp_resident = nd_resident needs,
           mp_activations = nd_activations needs, mp_scratch = nd_scratch needs, mp_kv_cache = 0, mp_weights = 0,
           mp_ok = False, mp_problem = None\<rparr>
     in case kv_stage needs left of
          Inl e \<Rightarrow> (-1, plan\<lparr>mp_problem := Some e\<rparr>, None)
        | Inr (kv, ctx) \<Rightarrow>
            let plan = plan\<lparr>mp_kv_cache := kv, mp_weights := left - kv\<rparr>
            in if left - kv < nd_min_weights needs then (-1, plan\<lparr>mp_problem := Some WeightsTooSmall\<rparr>, Some ctx)
               else (0, plan\<lparr>mp_ok := True\<rparr>, Some ctx))" if nn: "0 \<le> left"
  proof -
    have g: "\<not> nd_resident needs > ?l1" "\<not> ?w > ?l1 - nd_resident needs"
      using nn rg by (auto simp: left_def)
    have i2: "i64 (?l1 - nd_resident needs) = ?l1 - nd_resident needs" using i2 g by simp
    have il: "i64 (?l1 - nd_resident needs - ?w) = left" using i3 [OF nn] by (simp add: left_def)
    have lb: "left < 2 ^ 59" using rg reserve_of_bounds [OF pos] by (simp add: left_def)
    have ik: "i64 (left - kv) = left - kv" if "kv_stage needs left = Inr (kv, ctx)"
      "nd_kv_per_pos needs > 0 \<and> nd_context needs > 0" for kv ctx
    proof -
      have "0 \<le> kv" "kv + nd_min_weights needs \<le> left"
        using kv_stage_spec [OF rng nn lb] that by auto
      then show ?thesis using rg lb by (intro i64_id) (simp add: in_i64_def)
    qed
    have k0: "kv = 0" if "kv_stage needs left = Inr (kv, ctx)"
      "\<not> (nd_kv_per_pos needs > 0 \<and> nd_context needs > 0)" for kv ctx
      using kv_stage_spec [OF rng nn lb] that by auto
    show ?thesis
    proof (cases "kv_stage needs left")
      case (Inl e)
      then show ?thesis using pos r g i1 i2 iw il
        by (simp add: eng_mem_plan_def Let_def rv empty_plan_def)
    next
      case (Inr kc)
      obtain kv ctx where kc: "kc = (kv, ctx)" by fastforce
      have "(if nd_kv_per_pos needs > 0 \<and> nd_context needs > 0 then i64 (left - kv) else left) = left - kv"
        using ik k0 Inr kc by auto
      then show ?thesis using pos r g i1 i2 iw il Inr kc
        by (simp add: eng_mem_plan_def Let_def rv empty_plan_def)
    qed
  qed
qed

end
