(* ===== verification/Streamer.thy ===== *)
theory Streamer
  imports Storage
begin

text \<open>
  The pinned-prefix layer streamer, \<^verbatim>\<open>src/storage/streamer.h\<close> and
  \<^verbatim>\<open>src/storage/streamer.c\<close>: the budget split of \<open>eng_streamer_create\<close>, the
  synchronous and the overlapped read paths, and the reader thread.

  Blocks \<open>0..npin-1\<close> have buffers of their own (\<open>s_pin\<close>), the others share a ring of
  \<open>s_nslot\<close> slots (\<open>s_arena\<close>).  A mapping that is \<open>-1\<close> in the source is \<open>None\<close>.
  \<open>rd off n cap\<close> is the storage backend's \<open>read_aligned\<close>; a read replaces the front of
  its destination buffer, also when it fails.  \<open>io_main\<close> is one step of the reader: it
  serves the pending request and raises \<open>done\<close>.  Where the source waits on the condition
  variable, the model lets the reader take that step.  Shutdown (\<open>stop\<close>) is not modelled.
\<close>

section \<open>State\<close>

record eng_block =
  b_off :: int
  b_nbytes :: int

record stream_io =
  io_busy :: bool
  io_done :: bool
  io_block :: nat
  io_slot :: nat
  io_result :: bool

record eng_streamer =
  s_blk :: "eng_block list"
  s_npin :: nat
  s_nslot :: nat
  s_slot_bytes :: int
  s_extra_bytes :: int
  s_pin :: "byte list list"
  s_pin_pad :: "int list"
  s_arena :: "byte list list"
  s_slot_pad :: "int list"
  s_block_of :: "nat option list"
  s_slot_of :: "nat option list"
  s_ring :: nat
  s_io :: "stream_io option"
  s_hits :: nat
  s_misses :: nat
  s_bytes_read :: nat
  s_pinned_bytes :: int
  s_mem :: "int list"

text \<open>
  What construction asks of the system: the variable \<open>ENG_NOHUGE\<close>, whether the \<open>n\<close>-th call of
  \<open>posix_memalign\<close> succeeds for an alignment and a length, and whether the reader thread starts.  The
  small arrays of the streamer itself are taken to be allocated.
\<close>

record stream_env =
  se_nohuge :: bool
  se_memalign :: "nat \<Rightarrow> int \<Rightarrow> int \<Rightarrow> bool"
  se_thread_ok :: bool

datatype stream_ptr = InPin nat int | InRing nat int

type_synonym read_fn = "int \<Rightarrow> int \<Rightarrow> int \<Rightarrow> rd_result"

section \<open>Sizing\<close>

definition block_need :: "int \<Rightarrow> int \<Rightarrow> int" where
  "block_need extra nb = align_up nb ENG_IO_ALIGN + ENG_IO_ALIGN + extra"

definition biggest :: "int list \<Rightarrow> nat \<Rightarrow> int" where
  "biggest nbs npin =
     (let big = foldl (\<lambda>big n. if n > big then n else big) 0 (drop npin nbs)
      in if big = 0 then nbs ! (length nbs - 1) else big)"

definition ring_slot_for :: "int \<Rightarrow> int \<Rightarrow> int" where
  "ring_slot_for extra big = align_up (align_up big ENG_IO_ALIGN + ENG_IO_ALIGN + extra) ENG_IO_ALIGN"

fun ring_fit :: "nat \<Rightarrow> int \<Rightarrow> int \<Rightarrow> nat" where
  "ring_fit ring rs budget =
     (if ring > 1 \<and> int ring * rs > budget then ring_fit (ring - 1) rs budget else ring)"

declare ring_fit.simps [simp del]

fun pin_fit :: "int \<Rightarrow> int \<Rightarrow> int list \<Rightarrow> int \<Rightarrow> nat \<times> int" where
  "pin_fit extra budget [] sp = (0, sp)"
| "pin_fit extra budget (nb # nbs) sp =
     (if sp + block_need extra nb > budget then (0, sp)
      else let (np, sp') = pin_fit extra budget nbs (sp + block_need extra nb) in (Suc np, sp'))"

text \<open>One pass: from the number of pinned blocks to slot size, ring length, new count, spending.\<close>

definition size_pass :: "int \<Rightarrow> int \<Rightarrow> nat \<Rightarrow> int list \<Rightarrow> nat \<Rightarrow> int \<times> nat \<times> nat \<times> int" where
  "size_pass extra budget ring_want nbs npin =
     (let rs = ring_slot_for extra (biggest nbs npin);
          ring = ring_fit ring_want rs budget;
          (np, sp) = pin_fit extra budget nbs (int ring * rs)
      in (rs, ring, np, sp))"

fun sizing :: "nat \<Rightarrow> int \<Rightarrow> int \<Rightarrow> nat \<Rightarrow> int list \<Rightarrow> int \<times> nat \<times> nat \<times> int \<Rightarrow> int \<times> nat \<times> nat \<times> int" where
  "sizing 0 extra budget ring_want nbs st = st"
| "sizing (Suc n) extra budget ring_want nbs (ring_slot, ring, npin, spent) =
     (let (rs, ring', np, sp) = size_pass extra budget ring_want nbs npin
      in if rs = ring_slot \<and> np = npin then (rs, ring', npin, sp)
         else sizing n extra budget ring_want nbs (rs, ring', np, sp))"

text \<open>
  \<open>alloc_direct\<close> gives the length of the block it obtained: with huge pages the request is rounded up
  to whole pages of 2 MB.  \<open>s_mem\<close> keeps the lengths behind \<open>pin[0..npin-1]\<close> and \<open>arena\<close>.
\<close>

definition HUGE_PAGE :: int where
  "HUGE_PAGE = 2 * 2 ^ 20"

definition alloc_direct :: "stream_env \<Rightarrow> nat \<Rightarrow> int \<Rightarrow> bool \<Rightarrow> int option" where
  "alloc_direct env i bytes huge =
     (let al = (if huge then HUGE_PAGE else ENG_IO_ALIGN);
          len = (if huge then align_up bytes al else bytes)
      in if se_memalign env i al len then Some len else None)"

fun alloc_each :: "stream_env \<Rightarrow> bool \<Rightarrow> nat \<Rightarrow> int list \<Rightarrow> int list option" where
  "alloc_each env huge i [] = Some []"
| "alloc_each env huge i (b # bs) =
     (case alloc_direct env i b huge of None \<Rightarrow> None
      | Some l \<Rightarrow> map_option ((#) l) (alloc_each env huge (Suc i) bs))"

definition want_huge :: "int \<Rightarrow> stream_env \<Rightarrow> bool" where
  "want_huge hugepages env = (if hugepages < 0 then \<not> se_nohuge env else hugepages \<noteq> 0)"

definition eng_streamer_create ::
  "eng_block list \<Rightarrow> int \<Rightarrow> int \<Rightarrow> int \<Rightarrow> bool \<Rightarrow> int \<Rightarrow> stream_env \<Rightarrow> eng_streamer option" where
  "eng_streamer_create blocks budget extra_cfg ring_cfg async hugepages env =
     (if blocks = [] then None
      else let extra = (if extra_cfg > 0 then extra_cfg else 0);
               ring_want = (if ring_cfg > 0 then nat ring_cfg else 2);
               nbs = map b_nbytes blocks;
               (ring_slot, ring, npin, spent) = sizing 4 extra budget ring_want nbs (0, ring_want, 0, 0)
           in if ring_slot \<le> 0 \<or> int ring * ring_slot > budget then None
              else case alloc_each env (want_huge hugepages env) 0
                          (map (block_need extra) (take npin nbs) @ [int ring * ring_slot]) of
                None \<Rightarrow> None
              | Some lens \<Rightarrow> Some \<lparr>s_blk = blocks, s_npin = npin, s_nslot = ring, s_slot_bytes = ring_slot,
                s_extra_bytes = extra, s_pin = replicate npin [], s_pin_pad = replicate npin 0,
                s_arena = replicate ring [], s_slot_pad = replicate ring 0,
                s_block_of = replicate ring None, s_slot_of = replicate (length blocks) None,
                s_ring = 0,
                s_io = (if async \<and> ring \<ge> 2 \<and> se_thread_ok env
                        then Some \<lparr>io_busy = False, io_done = False, io_block = 0, io_slot = 0,
                                   io_result = True\<rparr> else None),
                s_hits = 0, s_misses = 0, s_bytes_read = 0,
                s_pinned_bytes = sum_list (map (block_need extra) (take npin nbs)), s_mem = lens\<rparr>)"

section \<open>Reading\<close>

definition overwrite :: "byte list \<Rightarrow> byte list \<Rightarrow> byte list" where
  "overwrite new old = new @ drop (length new) old"

text \<open>\<open>load_block\<close>: the payload offset on success, and the destination buffer afterwards.\<close>

definition load_block :: "read_fn \<Rightarrow> eng_streamer \<Rightarrow> nat \<Rightarrow> byte list \<Rightarrow> int \<Rightarrow>
    int option \<times> byte list \<times> eng_streamer" where
  "load_block rd s b dst cap =
     (let bk = s_blk s ! b;
          r = rd (b_off bk) (b_nbytes bk) cap;
          dst' = overwrite (rr_buf r) dst
      in if rr_ret r \<noteq> b_nbytes bk then (None, dst', s)
         else (Some (i32 (case rr_poff r of None \<Rightarrow> 0 | Some p \<Rightarrow> p)), dst',
               s\<lparr>s_bytes_read := s_bytes_read s + nat (rr_ret r)\<rparr>))"

text \<open>Load into ring slot \<open>slot\<close>: the arena changes either way, the pad only on success.\<close>

definition load_ring :: "read_fn \<Rightarrow> eng_streamer \<Rightarrow> nat \<Rightarrow> nat \<Rightarrow> bool \<times> eng_streamer" where
  "load_ring rd s b slot =
     (let (p, buf, s') = load_block rd s b (s_arena s ! slot) (s_slot_bytes s);
          s' = s'\<lparr>s_arena := (s_arena s')[slot := buf]\<rparr>
      in case p of None \<Rightarrow> (False, s')
         | Some pad \<Rightarrow> (True, s'\<lparr>s_slot_pad := (s_slot_pad s')[slot := pad]\<rparr>))"

definition io_main :: "read_fn \<Rightarrow> eng_streamer \<Rightarrow> eng_streamer" where
  "io_main rd s =
     (case s_io s of
        None \<Rightarrow> s
      | Some io \<Rightarrow>
          if \<not> io_busy io then s
          else let (ok, s') = load_ring rd s (io_block io) (io_slot io)
               in s'\<lparr>s_io := Some (io\<lparr>io_result := ok, io_done := True, io_busy := False\<rparr>)\<rparr>)"

datatype collected = Nothing | Landed | Failed

definition io_collect :: "read_fn \<Rightarrow> eng_streamer \<Rightarrow> nat \<Rightarrow> collected \<times> eng_streamer" where
  "io_collect rd s b =
     (case s_io s of
        None \<Rightarrow> (Nothing, s)
      | Some io \<Rightarrow>
          if (io_busy io \<or> io_done io) \<and> io_block io = b
          then let s = (if io_done io then s else io_main rd s);
                   io = the (s_io s);
                   rc = io_result io;
                   s = (if rc then s\<lparr>s_block_of := (s_block_of s)[io_slot io := Some b],
                                     s_slot_of := (s_slot_of s)[b := Some (io_slot io)],
                                     s_misses := s_misses s + 1\<rparr> else s)
               in (if rc then Landed else Failed, s\<lparr>s_io := Some (io\<lparr>io_done := False\<rparr>)\<rparr>)
          else (Nothing, s))"

text \<open>Take the next ring slot: whatever block it held is no longer resident.\<close>

definition claim_slot :: "eng_streamer \<Rightarrow> nat \<times> eng_streamer" where
  "claim_slot s =
     (let slot = s_ring s;
          s = s\<lparr>s_ring := (s_ring s + 1) mod s_nslot s\<rparr>;
          s = (case s_block_of s ! slot of None \<Rightarrow> s
               | Some b \<Rightarrow> s\<lparr>s_slot_of := (s_slot_of s)[b := None]\<rparr>)
      in (slot, s\<lparr>s_block_of := (s_block_of s)[slot := None]\<rparr>))"

fun find_slot :: "nat option list \<Rightarrow> nat \<Rightarrow> nat option" where
  "find_slot [] b = None"
| "find_slot (x # xs) b = (if x = Some b then Some 0 else map_option Suc (find_slot xs b))"

definition get_pinned :: "read_fn \<Rightarrow> eng_streamer \<Rightarrow> nat \<Rightarrow> stream_ptr option \<times> eng_streamer" where
  "get_pinned rd s block =
     (if s_slot_of s ! block = None
      then let cap = align_up (b_nbytes (s_blk s ! block)) ENG_IO_ALIGN + ENG_IO_ALIGN + s_extra_bytes s;
               (p, buf, s) = load_block rd s block (s_pin s ! block) cap;
               s = s\<lparr>s_pin := (s_pin s)[block := buf]\<rparr>
           in case p of
                None \<Rightarrow> (None, s)
              | Some pad \<Rightarrow>
                  (Some (InPin block pad),
                   s\<lparr>s_pin_pad := (s_pin_pad s)[block := pad],
                     s_slot_of := (s_slot_of s)[block := Some block], s_misses := s_misses s + 1\<rparr>)
      else (Some (InPin block (s_pin_pad s ! block)), s\<lparr>s_hits := s_hits s + 1\<rparr>))"

definition get_ring :: "read_fn \<Rightarrow> eng_streamer \<Rightarrow> nat \<Rightarrow> stream_ptr option \<times> eng_streamer" where
  "get_ring rd s block =
     (case find_slot (s_block_of s) block of
        Some slot \<Rightarrow> (Some (InRing slot (s_slot_pad s ! slot)), s\<lparr>s_hits := s_hits s + 1\<rparr>)
      | None \<Rightarrow>
          (let (slot, s) = claim_slot s;
               (ok, s) = load_ring rd s block slot
           in if \<not> ok then (None, s)
              else (Some (InRing slot (s_slot_pad s ! slot)),
                    s\<lparr>s_block_of := (s_block_of s)[slot := Some block],
                      s_slot_of := (s_slot_of s)[block := Some slot],
                      s_misses := s_misses s + 1\<rparr>)))"

definition eng_streamer_get :: "read_fn \<Rightarrow> eng_streamer \<Rightarrow> nat \<Rightarrow> stream_ptr option \<times> eng_streamer" where
  "eng_streamer_get rd s block =
     (if block \<ge> length (s_blk s) then (None, s)
      else if block < s_npin s then get_pinned rd s block
      else case io_collect rd s block of
             (Failed, s) \<Rightarrow> (None, s)
           | (Landed, s) \<Rightarrow>
               (let slot = the (s_slot_of s ! block) in (Some (InRing slot (s_slot_pad s ! slot)), s))
           | (Nothing, s) \<Rightarrow> get_ring rd s block)"

definition eng_streamer_prefetch :: "eng_streamer \<Rightarrow> nat \<Rightarrow> eng_streamer" where
  "eng_streamer_prefetch s block =
     (if block \<ge> length (s_blk s) \<or> block < s_npin s then s
      else case s_io s of
             None \<Rightarrow> s
           | Some io \<Rightarrow>
               if Some block \<in> set (s_block_of s) \<or> io_busy io \<or> io_done io \<or> s_slot_of s ! block \<noteq> None
               then s
               else let (slot, s) = claim_slot s
                    in s\<lparr>s_io := Some (io\<lparr>io_block := block, io_slot := slot, io_done := False,
                                        io_busy := True\<rparr>)\<rparr>)"

text \<open>The bytes a caller reads through the returned pointer, and the scratch offset after them.\<close>

definition ptr_buffer :: "eng_streamer \<Rightarrow> stream_ptr \<Rightarrow> byte list" where
  "ptr_buffer s p = (case p of InPin b _ \<Rightarrow> s_pin s ! b | InRing i _ \<Rightarrow> s_arena s ! i)"

definition ptr_off :: "stream_ptr \<Rightarrow> int" where
  "ptr_off p = (case p of InPin _ o' \<Rightarrow> o' | InRing _ o' \<Rightarrow> o')"

definition block_at :: "eng_streamer \<Rightarrow> stream_ptr \<Rightarrow> nat \<Rightarrow> byte list" where
  "block_at s p b = slice (ptr_off p) (b_nbytes (s_blk s ! b)) (ptr_buffer s p)"

definition extra_off :: "eng_streamer \<Rightarrow> stream_ptr \<Rightarrow> nat \<Rightarrow> int" where
  "extra_off s p b = ptr_off p + align_up (b_nbytes (s_blk s ! b)) ENG_IO_ALIGN"

section \<open>Sizing is sound\<close>

lemma foldl_max_ge: "a \<le> foldl (\<lambda>big n. if n > big then n else big) a (xs :: int list)"
  by (induction xs arbitrary: a) (auto intro: order_trans less_imp_le)

lemma foldl_max_mem: "x \<in> set xs \<Longrightarrow> x \<le> foldl (\<lambda>big n. if n > big then n else big) a (xs :: int list)"
proof (induction xs arbitrary: a)
  case (Cons y ys)
  then show ?case using foldl_max_ge [of "if y > a then y else a" ys] by auto
qed simp

lemma foldl_max_attained:
  "foldl (\<lambda>big n. if n > big then n else big) a (xs :: int list) \<in> insert a (set xs)"
proof (induction xs arbitrary: a)
  case (Cons y ys)
  then show ?case using Cons.IH [of "if y > a then y else a"] by (auto split: if_splits)
qed simp

definition sizes_ok :: "int list \<Rightarrow> bool" where
  "sizes_ok nbs \<longleftrightarrow> nbs \<noteq> [] \<and> (\<forall>n \<in> set nbs. 0 \<le> n)"

lemma biggest_cases:
  assumes "sizes_ok nbs"
  shows "(\<exists>i < length nbs. npin \<le> i \<and> biggest nbs npin = nbs ! i) \<or>
    biggest nbs npin = nbs ! (length nbs - 1) \<and> (\<forall>i < length nbs. npin \<le> i \<longrightarrow> nbs ! i \<le> 0)"
proof (cases "foldl (\<lambda>big n. if n > big then n else big) 0 (drop npin nbs) = 0")
  case True
  have "nbs ! i \<le> 0" if "i < length nbs" "npin \<le> i" for i
  proof -
    have "nbs ! i \<in> set (drop npin nbs)"
      using that by (auto simp: in_set_conv_nth intro: exI [of _ "i - npin"])
    from foldl_max_mem [OF this, of 0] True show ?thesis by simp
  qed
  with True show ?thesis by (simp add: biggest_def)
next
  case False
  with foldl_max_attained [of 0 "drop npin nbs"]
  have "biggest nbs npin \<in> set (drop npin nbs)" by (auto simp: biggest_def Let_def)
  then obtain k where "k < length nbs - npin" "biggest nbs npin = nbs ! (npin + k)"
    by (auto simp: in_set_conv_nth)
  then have "npin + k < length nbs \<and> npin \<le> npin + k \<and> biggest nbs npin = nbs ! (npin + k)" by simp
  then show ?thesis by blast
qed

lemma biggest_ge:
  assumes "sizes_ok nbs" "npin \<le> i" "i < length nbs"
  shows "nbs ! i \<le> biggest nbs npin"
proof -
  have mem: "nbs ! i \<in> set (drop npin nbs)"
    using assms by (auto simp: in_set_conv_nth intro: exI [of _ "i - npin"])
  have "nbs ! (length nbs - 1) \<in> set nbs" using assms by simp
  then have "0 \<le> nbs ! (length nbs - 1)" using assms by (simp add: sizes_ok_def)
  with foldl_max_mem [OF mem, of 0] show ?thesis by (auto simp: biggest_def Let_def)
qed

text \<open>Once everything is pinned the slot is sized for the last block.\<close>

lemma biggest_source:
  assumes "sizes_ok nbs"
  obtains i where "i < length nbs" "npin \<le> i \<or> length nbs \<le> npin" "biggest nbs npin = nbs ! i"
proof (cases "npin < length nbs")
  case True
  from biggest_cases [OF assms, of npin] show ?thesis
  proof
    assume "\<exists>i<length nbs. npin \<le> i \<and> biggest nbs npin = nbs ! i"
    then show ?thesis using that by blast
  next
    assume "biggest nbs npin = nbs ! (length nbs - 1) \<and> (\<forall>i<length nbs. npin \<le> i \<longrightarrow> nbs ! i \<le> 0)"
    then show ?thesis using that [of "length nbs - 1"] True by auto
  qed
next
  case False
  then have "biggest nbs npin = nbs ! (length nbs - 1)" by (simp add: biggest_def)
  with False assms show ?thesis using that [of "length nbs - 1"] by (auto simp: sizes_ok_def)
qed

lemma biggest_antimono:
  assumes "sizes_ok nbs" "a \<le> b" "a < length nbs"
  shows "biggest nbs b \<le> biggest nbs a"
proof -
  obtain i where i: "i < length nbs" "biggest nbs b = nbs ! i" and "b \<le> i \<or> length nbs \<le> b"
    by (rule biggest_source [OF assms(1)])
  show ?thesis
  proof (cases "length nbs \<le> b")
    case True
    then have "biggest nbs b = nbs ! (length nbs - 1)" by (simp add: biggest_def)
    then show ?thesis using biggest_ge [OF assms(1), of a "length nbs - 1"] assms(3) by simp
  next
    case False
    with \<open>b \<le> i \<or> _\<close> assms(2) have "a \<le> i" by simp
    then show ?thesis using biggest_ge [OF assms(1) _ i(1), of a] i by simp
  qed
qed

lemma ring_fit_bounds:
  "ring_fit ring rs budget \<le> ring"
  "1 \<le> ring \<Longrightarrow> 1 \<le> ring_fit ring rs budget"
  "ring_fit ring rs budget < ring \<Longrightarrow> int (Suc (ring_fit ring rs budget)) * rs > budget"
proof (induction ring rs budget rule: ring_fit.induct)
  case (1 ring rs budget)
  note IH = this
  show "ring_fit ring rs budget \<le> ring"
    using IH(1) by (subst ring_fit.simps) auto
  show "1 \<le> ring_fit ring rs budget" if "1 \<le> ring"
    using IH(2) that by (subst ring_fit.simps) auto
  show "int (Suc (ring_fit ring rs budget)) * rs > budget" if "ring_fit ring rs budget < ring"
  proof (cases "ring > 1 \<and> int ring * rs > budget")
    case True
    then have eq: "ring_fit ring rs budget = ring_fit (ring - 1) rs budget"
      by (subst ring_fit.simps) simp
    show ?thesis
    proof (cases "ring_fit (ring - 1) rs budget < ring - 1")
      case True
      then show ?thesis using IH(3) \<open>ring > 1 \<and> _\<close> unfolding eq by blast
    next
      case False
      then have "Suc (ring_fit (ring - 1) rs budget) = ring"
        using that eq True by simp
      then show ?thesis using True by (simp only: eq)
    qed
  next
    case False
    then have "ring_fit ring rs budget = ring" by (subst ring_fit.simps) auto
    with that show ?thesis by simp
  qed
qed

lemma ring_fit_mono:
  assumes "rs' \<le> rs" "ring_fit ring rs budget = ring"
  shows "ring_fit ring rs' budget = ring"
proof (cases "ring > 1 \<and> int ring * rs' > budget")
  case True
  have "int ring * rs' \<le> int ring * rs" using assms(1) by (simp add: mult_left_mono)
  with True have t: "ring > 1 \<and> int ring * rs > budget" by linarith
  then have "ring_fit ring rs budget = ring_fit (ring - 1) rs budget" by (subst ring_fit.simps) simp
  with ring_fit_bounds(1) [of "ring - 1" rs budget] assms(2) t have False by linarith
  then show ?thesis ..
next
  case False
  then show ?thesis by (subst ring_fit.simps) auto
qed

lemma pin_fit_spent:
  "pin_fit extra budget nbs sp = (np, sp') \<Longrightarrow>
    np \<le> length nbs \<and> sp' = sp + sum_list (map (block_need extra) (take np nbs)) \<and> (sp \<le> budget \<longrightarrow> sp' \<le> budget)"
proof (induction nbs arbitrary: sp np sp')
  case (Cons nb nbs)
  then show ?case
    by (cases "sp + block_need extra nb > budget")
      (fastforce split: prod.splits)+
qed simp

lemma block_need_pos: "0 \<le> extra \<Longrightarrow> 0 \<le> nb \<Longrightarrow> 0 < block_need extra nb"
  using align_up_nonneg [of nb] by (simp add: block_need_def add_pos_nonneg add_nonneg_pos)

lemma pin_fit_mono:
  assumes "sp \<le> sq"
  shows "fst (pin_fit extra budget nbs sq) \<le> fst (pin_fit extra budget nbs sp)"
  using assms
proof (induction nbs arbitrary: sp sq)
  case (Cons nb nbs)
  show ?case
    using Cons.IH [of "sp + block_need extra nb" "sq + block_need extra nb"] Cons.prems
    by (auto split: prod.splits)
qed simp

lemma pin_fit_each:
  assumes "pin_fit extra budget nbs sp = (np, sp')" "i < np" "\<forall>n \<in> set nbs. 0 \<le> n" "0 \<le> extra"
  shows "sp + block_need extra (nbs ! i) \<le> budget"
  using assms
proof (induction nbs arbitrary: sp np sp' i)
  case (Cons nb nbs)
  have nn: "0 < block_need extra nb" using Cons.prems by (intro block_need_pos) auto
  from Cons.prems show ?case
  proof (cases i)
    case (Suc j)
    obtain np' where "pin_fit extra budget nbs (sp + block_need extra nb) = (np', sp')" "np = Suc np'"
      using Cons.prems by (auto split: if_splits prod.splits)
    then have "sp + block_need extra nb + block_need extra (nbs ! j) \<le> budget"
      using Cons.IH Cons.prems Suc by auto
    with nn Suc show ?thesis by simp
  qed (auto split: if_splits)
qed simp

lemma block_need_mono: "a \<le> b \<Longrightarrow> block_need extra a \<le> block_need extra b"
  by (simp add: block_need_def align_up_mono)

lemma ring_slot_for_aligned:
  "ENG_IO_ALIGN dvd extra \<Longrightarrow> ring_slot_for extra big = block_need extra big"
  by (simp add: ring_slot_for_def block_need_def align_up_id)

lemma ring_slot_for_ge: "block_need extra big \<le> ring_slot_for extra big"
  unfolding ring_slot_for_def block_need_def by (rule align_up_ge)

text \<open>The pinned prefix never shrinks from one pass to the next.\<close>

lemma size_pass_grows:
  assumes ok: "sizes_ok nbs" and ex: "0 \<le> extra" "ENG_IO_ALIGN dvd extra"
    and p1: "size_pass extra budget want nbs p = (rs, ring, np, sp)" and "p \<le> np"
    and p2: "size_pass extra budget want nbs np = (rs', ring', np', sp')"
  shows "np \<le> np'"
proof -
  let ?big = "biggest nbs p" and ?big' = "biggest nbs np"
  have r: "rs = block_need extra ?big" "rs' = block_need extra ?big'"
    and g: "ring = ring_fit want rs budget" "ring' = ring_fit want rs' budget"
    and f: "pin_fit extra budget nbs (int ring * rs) = (np, sp)"
      "pin_fit extra budget nbs (int ring' * rs') = (np', sp')"
    using p1 p2 ex(2) by (auto simp: size_pass_def ring_slot_for_aligned Let_def split: prod.splits)
  have npl: "np \<le> length nbs" using pin_fit_spent [OF f(1)] by simp
  have le: "rs' \<le> rs"
  proof (cases "p < length nbs")
    case True
    then show ?thesis
      using biggest_antimono [OF ok \<open>p \<le> np\<close>] r by (simp add: block_need_mono)
  next
    case False
    then have "p = np" using \<open>p \<le> np\<close> npl by simp
    then show ?thesis using r by simp
  qed
  show ?thesis
  proof (cases "ring = want")
    case True
    have "ring' = want" using ring_fit_mono [OF le] g True by metis
    then have "int ring' * rs' \<le> int ring * rs" using le True by (simp add: mult_left_mono)
    from pin_fit_mono [OF this, of extra budget nbs] f show ?thesis by simp
  next
    case False
    then have "ring < want" using ring_fit_bounds(1) [of want rs budget] g by simp
    then have over: "int ring * rs + rs > budget"
      using ring_fit_bounds(3) [of want rs budget] g by (simp add: algebra_simps)
    obtain i where i: "i < length nbs" "p \<le> i \<or> length nbs \<le> p" "?big = nbs ! i"
      by (rule biggest_source [OF ok])
    have "\<not> i < np"
      using pin_fit_each [OF f(1), of i] ok ex(1) over i r by (auto simp: sizes_ok_def)
    then have "nbs ! i \<le> ?big'" using biggest_ge [OF ok, of np i] i by simp
    then have "rs \<le> rs'" using r i by (simp add: block_need_mono)
    with le have "rs = rs'" by simp
    then show ?thesis using f g by simp
  qed
qed

text \<open>The result of the sizing loop comes from a pass whose pinned prefix did not shrink.\<close>

lemma sizing_last_pass:
  assumes ok: "sizes_ok nbs" and ex: "0 \<le> extra" "ENG_IO_ALIGN dvd extra"
    and "size_pass extra budget want nbs p = (rs, ring, np, sp)" "p \<le> np"
  shows "\<exists>q rs' ring' np' sp'. size_pass extra budget want nbs q = (rs', ring', np', sp') \<and> q \<le> np' \<and>
    sizing n extra budget want nbs (rs, ring, np, sp) = (rs', ring', np', sp')"
  using assms(4,5)
proof (induction n arbitrary: p rs ring np sp)
  case (Suc n)
  obtain rs' ring' np' sp' where p2: "size_pass extra budget want nbs np = (rs', ring', np', sp')"
    using prod_cases4 by blast
  have "np \<le> np'" by (rule size_pass_grows [OF ok ex Suc.prems p2])
  from Suc.IH [OF p2 this] p2 \<open>np \<le> np'\<close> show ?case
    by (cases "rs' = rs \<and> np' = np") auto
qed auto

lemma sizing_covers:
  assumes ok: "sizes_ok nbs" and ex: "0 \<le> extra" "ENG_IO_ALIGN dvd extra"
    and res: "sizing 4 extra budget want nbs (0, want, 0, 0) = (rs, ring, np, sp)"
  shows "\<forall>i < length nbs. np \<le> i \<longrightarrow> block_need extra (nbs ! i) \<le> rs"
proof -
  obtain rs1 ring1 np1 sp1 where p1: "size_pass extra budget want nbs 0 = (rs1, ring1, np1, sp1)"
    using prod_cases4 by blast
  have "rs1 \<noteq> 0"
  proof -
    have "nbs ! 0 \<le> biggest nbs 0" "0 \<le> nbs ! 0"
      using biggest_ge [OF ok, of 0 0] ok by (auto simp: sizes_ok_def)
    then have "0 < block_need extra (biggest nbs 0)" using ex by (intro block_need_pos) auto
    then show ?thesis using p1 ex(2)
      by (auto simp: size_pass_def ring_slot_for_aligned Let_def split: prod.splits)
  qed
  then have "sizing 4 extra budget want nbs (0, want, 0, 0)
      = sizing 3 extra budget want nbs (rs1, ring1, np1, sp1)"
    using p1 by (simp add: numeral_eq_Suc)
  with sizing_last_pass [OF ok ex p1, of 3] res
  obtain q where q: "size_pass extra budget want nbs q = (rs, ring, np, sp)" "q \<le> np" by auto
  have "rs = block_need extra (biggest nbs q)"
    using q(1) ex(2) by (auto simp: size_pass_def ring_slot_for_aligned Let_def split: prod.splits)
  then show ?thesis using biggest_ge [OF ok] q(2) by (auto intro!: block_need_mono)
qed

end
