(* ===== verification/Streamer_Inv.thy ===== *)
theory Streamer_Inv
  imports Streamer
begin

text \<open>
  The residency invariant of the streamer: the two maps between slots and blocks agree,
  an outstanding prefetch owns its slot exclusively, and every slot that claims a block
  holds that block's bytes.  Preservation is proved once, inside the storage contract
  \<open>aligned_store\<close>.  A ring miss is safe while a prefetch is outstanding as long as the ring
  has not come round to the reserved slot (\<open>steals\<close>); the source does not check this.
\<close>

section \<open>The invariant\<close>

definition outstanding :: "eng_streamer \<Rightarrow> (nat \<times> nat) option" where
  "outstanding s = (case s_io s of None \<Rightarrow> None
     | Some io \<Rightarrow> if io_busy io \<or> io_done io then Some (io_block io, io_slot io) else None)"

definition stream_shape :: "eng_streamer \<Rightarrow> bool" where
  "stream_shape s \<longleftrightarrow>
     length (s_pin s) = s_npin s \<and> length (s_pin_pad s) = s_npin s \<and>
     length (s_arena s) = s_nslot s \<and> length (s_slot_pad s) = s_nslot s \<and>
     length (s_block_of s) = s_nslot s \<and> length (s_slot_of s) = length (s_blk s) \<and>
     s_npin s \<le> length (s_blk s) \<and> s_ring s < s_nslot s \<and> 0 \<le> s_slot_bytes s \<and> 0 \<le> s_extra_bytes s \<and>
     (\<forall>bk \<in> set (s_blk s). 0 \<le> b_off bk \<and> 0 < b_nbytes bk)"

definition stream_maps :: "eng_streamer \<Rightarrow> bool" where
  "stream_maps s \<longleftrightarrow>
     (\<forall>i < s_nslot s. \<forall>b. s_block_of s ! i = Some b \<longrightarrow>
        s_npin s \<le> b \<and> b < length (s_blk s) \<and> s_slot_of s ! b = Some i) \<and>
     (\<forall>b < length (s_blk s). \<forall>i. s_npin s \<le> b \<longrightarrow> s_slot_of s ! b = Some i \<longrightarrow>
        i < s_nslot s \<and> s_block_of s ! i = Some b)"

definition stream_reserved :: "eng_streamer \<Rightarrow> bool" where
  "stream_reserved s \<longleftrightarrow>
     (\<forall>b i. outstanding s = Some (b, i) \<longrightarrow>
        s_npin s \<le> b \<and> b < length (s_blk s) \<and> i < s_nslot s \<and>
        s_block_of s ! i = None \<and> s_slot_of s ! b = None) \<and>
     (\<forall>io. s_io s = Some io \<longrightarrow> \<not> (io_busy io \<and> io_done io))"

definition holds :: "byte list \<Rightarrow> eng_block \<Rightarrow> byte list \<Rightarrow> int \<Rightarrow> bool" where
  "holds img bk buf pad \<longleftrightarrow> 0 \<le> pad \<and> pad < ENG_IO_ALIGN \<and>
     slice pad (b_nbytes bk) buf = slice (b_off bk) (b_nbytes bk) img"

definition slot_has :: "byte list \<Rightarrow> eng_streamer \<Rightarrow> nat \<Rightarrow> nat \<Rightarrow> bool" where
  "slot_has img s b i \<longleftrightarrow> holds img (s_blk s ! b) (s_arena s ! i) (s_slot_pad s ! i)"

definition stream_data :: "byte list \<Rightarrow> eng_streamer \<Rightarrow> bool" where
  "stream_data img s \<longleftrightarrow>
     (\<forall>i < s_nslot s. \<forall>b. s_block_of s ! i = Some b \<longrightarrow> slot_has img s b i) \<and>
     (\<forall>b < s_npin s. s_slot_of s ! b \<noteq> None \<longrightarrow> holds img (s_blk s ! b) (s_pin s ! b) (s_pin_pad s ! b)) \<and>
     (\<forall>io. s_io s = Some io \<longrightarrow> io_done io \<longrightarrow> io_result io \<longrightarrow> slot_has img s (io_block io) (io_slot io))"

text \<open>No buffer is ever written past its end.\<close>

definition stream_caps :: "eng_streamer \<Rightarrow> bool" where
  "stream_caps s \<longleftrightarrow>
     (\<forall>i < s_nslot s. int (length (s_arena s ! i)) \<le> s_slot_bytes s) \<and>
     (\<forall>b < s_npin s. int (length (s_pin s ! b)) \<le> block_need (s_extra_bytes s) (b_nbytes (s_blk s ! b)))"

definition stream_inv :: "byte list \<Rightarrow> eng_streamer \<Rightarrow> bool" where
  "stream_inv img s \<longleftrightarrow> stream_shape s \<and> stream_maps s \<and> stream_reserved s \<and> stream_data img s \<and> stream_caps s"

text \<open>A request that would recycle the slot of an outstanding prefetch.\<close>

definition steals :: "eng_streamer \<Rightarrow> nat \<Rightarrow> bool" where
  "steals s block \<longleftrightarrow> s_npin s \<le> block \<and> block < length (s_blk s) \<and> Some block \<notin> set (s_block_of s) \<and>
     (case outstanding s of None \<Rightarrow> False | Some (b, i) \<Rightarrow> b \<noteq> block \<and> i = s_ring s)"

section \<open>Building blocks\<close>

lemma find_slot_Some: "find_slot xs b = Some i \<Longrightarrow> i < length xs \<and> xs ! i = Some b"
  by (induction xs arbitrary: i) (auto split: if_splits)

lemma find_slot_None: "find_slot xs b = None \<longleftrightarrow> Some b \<notin> set xs"
  by (induction xs) auto

lemma length_overwrite [simp]: "length (overwrite new old) = max (length new) (length old)"
  by (simp add: overwrite_def)

lemma slice_overwrite:
  assumes "0 \<le> p" "0 \<le> n" "p + n \<le> int (length new)"
  shows "slice p n (overwrite new old) = slice p n new"
proof -
  have "nat p + nat n \<le> length new" using assms by linarith
  then show ?thesis by (simp add: slice_def overwrite_def)
qed

lemma in_i32_pad: "0 \<le> p \<Longrightarrow> p < ENG_IO_ALIGN \<Longrightarrow> in_i32 p"
  by (simp add: in_i32_def ENG_IO_ALIGN_def)

lemma ring_step: "s_ring s < s_nslot s \<Longrightarrow> (s_ring s + 1) mod s_nslot s < s_nslot s"
  by (simp add: mod_less_divisor)

lemma stream_mapsD1:
  "stream_maps s \<Longrightarrow> i < s_nslot s \<Longrightarrow> s_block_of s ! i = Some b \<Longrightarrow>
     s_npin s \<le> b \<and> b < length (s_blk s) \<and> s_slot_of s ! b = Some i"
  unfolding stream_maps_def by blast

lemma stream_mapsD2:
  "stream_maps s \<Longrightarrow> b < length (s_blk s) \<Longrightarrow> s_npin s \<le> b \<Longrightarrow> s_slot_of s ! b = Some i \<Longrightarrow>
     i < s_nslot s \<and> s_block_of s ! i = Some b"
  unfolding stream_maps_def by blast

lemma stream_mapsI:
  assumes "\<And>i b. i < s_nslot s \<Longrightarrow> s_block_of s ! i = Some b \<Longrightarrow>
      s_npin s \<le> b \<and> b < length (s_blk s) \<and> s_slot_of s ! b = Some i"
    and "\<And>b i. b < length (s_blk s) \<Longrightarrow> s_npin s \<le> b \<Longrightarrow> s_slot_of s ! b = Some i \<Longrightarrow>
      i < s_nslot s \<and> s_block_of s ! i = Some b"
  shows "stream_maps s"
  using assms unfolding stream_maps_def by blast

lemma stream_maps_cong:
  assumes "s_nslot s' = s_nslot s" "s_block_of s' = s_block_of s" "s_slot_of s' = s_slot_of s"
    "s_npin s' = s_npin s" "s_blk s' = s_blk s"
  shows "stream_maps s' \<longleftrightarrow> stream_maps s"
  by (simp only: stream_maps_def assms)

text \<open>Everything but the buffers and counters.\<close>

definition same_map :: "eng_streamer \<Rightarrow> eng_streamer \<Rightarrow> bool" where
  "same_map s s' \<longleftrightarrow> s_blk s' = s_blk s \<and> s_npin s' = s_npin s \<and> s_nslot s' = s_nslot s \<and>
     s_slot_bytes s' = s_slot_bytes s \<and> s_extra_bytes s' = s_extra_bytes s \<and>
     s_pin s' = s_pin s \<and> s_pin_pad s' = s_pin_pad s \<and> s_block_of s' = s_block_of s \<and>
     s_slot_of s' = s_slot_of s \<and> s_ring s' = s_ring s \<and> s_io s' = s_io s"

lemma load_ring_frame:
  assumes "load_ring rd s b slot = (ok, s')" "slot < s_nslot s"
  shows "same_map s s'" "length (s_arena s') = length (s_arena s)"
    "length (s_slot_pad s') = length (s_slot_pad s)"
    "\<forall>i. i \<noteq> slot \<longrightarrow> s_arena s' ! i = s_arena s ! i \<and> s_slot_pad s' ! i = s_slot_pad s ! i"
  using assms by (auto simp: load_ring_def load_block_def same_map_def Let_def split: if_splits)

lemma claim_slot_eq:
  "claim_slot s = (s_ring s,
     s\<lparr>s_ring := (s_ring s + 1) mod s_nslot s,
       s_slot_of := (case s_block_of s ! s_ring s of None \<Rightarrow> s_slot_of s
                     | Some b \<Rightarrow> (s_slot_of s)[b := None]),
       s_block_of := (s_block_of s)[s_ring s := None]\<rparr>)"
  by (cases "s_block_of s ! s_ring s") (simp_all add: claim_slot_def Let_def)

lemma outstanding_claim [simp]: "outstanding (snd (claim_slot s)) = outstanding s"
  by (simp add: claim_slot_eq outstanding_def)

lemma claim_slot_inv:
  assumes inv: "stream_inv img s"
  shows "stream_inv img (snd (claim_slot s))"
proof -
  let ?r = "s_ring s" and ?s = "snd (claim_slot s)"
  have sh: "stream_shape s" and mp: "stream_maps s" and rv: "stream_reserved s"
    and da: "stream_data img s" and cp: "stream_caps s"
    using inv by (auto simp: stream_inv_def)
  have r: "?r < s_nslot s" "length (s_block_of s) = s_nslot s" "length (s_slot_of s) = length (s_blk s)"
    using sh by (auto simp: stream_shape_def)
  have bo: "s_block_of ?s ! i = (if i = ?r then None else s_block_of s ! i)" if "i < s_nslot s" for i
    using that r by (simp add: claim_slot_eq)
  have so: "s_slot_of ?s ! b = (if s_block_of s ! ?r = Some b then None else s_slot_of s ! b)"
    if "b < length (s_blk s)" for b
    using that r by (auto simp: claim_slot_eq split: option.splits)
  have same: "s_nslot ?s = s_nslot s" "s_npin ?s = s_npin s" "s_blk ?s = s_blk s" "s_arena ?s = s_arena s"
    "s_slot_pad ?s = s_slot_pad s" "s_pin ?s = s_pin s" "s_pin_pad ?s = s_pin_pad s" "s_io ?s = s_io s"
    "s_slot_bytes ?s = s_slot_bytes s" "s_extra_bytes ?s = s_extra_bytes s"
    by (simp_all add: claim_slot_eq)
  have "stream_shape ?s"
    using sh ring_step [OF r(1)] by (auto simp: stream_shape_def claim_slot_eq split: option.splits)
  moreover have "stream_maps ?s"
  proof (rule stream_mapsI, unfold same)
    fix i b assume i: "i < s_nslot s" and "s_block_of ?s ! i = Some b"
    then have ib: "i \<noteq> ?r" "s_block_of s ! i = Some b" using bo by (auto split: if_splits)
    from stream_mapsD1 [OF mp i ib(2)] have b: "s_npin s \<le> b" "b < length (s_blk s)" "s_slot_of s ! b = Some i"
      by auto
    have "s_block_of s ! ?r \<noteq> Some b" using stream_mapsD1 [OF mp r(1), of b] b(3) ib(1) by auto
    with b so show "s_npin s \<le> b \<and> b < length (s_blk s) \<and> s_slot_of ?s ! b = Some i" by simp
  next
    fix b i assume b: "b < length (s_blk s)" "s_npin s \<le> b" and "s_slot_of ?s ! b = Some i"
    then have i: "s_slot_of s ! b = Some i" "s_block_of s ! ?r \<noteq> Some b" using so by (auto split: if_splits)
    from stream_mapsD2 [OF mp b i(1)] have "i < s_nslot s" "s_block_of s ! i = Some b" by auto
    with i bo show "i < s_nslot s \<and> s_block_of ?s ! i = Some b" by auto
  qed
  moreover have "stream_reserved ?s"
  proof -
    have "s_block_of ?s ! i = None" "s_slot_of ?s ! b = None" if "outstanding s = Some (b, i)" for b i
      using rv that bo so by (simp_all add: stream_reserved_def)
    then show ?thesis using rv unfolding stream_reserved_def outstanding_claim same by simp
  qed
  moreover have "stream_data img ?s"
  proof -
    have "s_slot_of ?s ! b = s_slot_of s ! b" if "b < s_npin s" for b
    proof -
      have "s_block_of s ! ?r \<noteq> Some b" using stream_mapsD1 [OF mp r(1), of b] that by auto
      moreover have "b < length (s_blk s)" using sh that by (auto simp: stream_shape_def)
      ultimately show ?thesis using so by simp
    qed
    then show ?thesis using da bo
      by (auto simp: stream_data_def same slot_has_def split: if_splits)
  qed
  moreover have "stream_caps ?s" using cp by (simp add: stream_caps_def same)
  ultimately show ?thesis by (simp add: stream_inv_def)
qed

section \<open>Preservation\<close>

lemma invD:
  assumes "stream_inv img s"
  shows "stream_shape s" "stream_maps s" "stream_reserved s" "stream_data img s" "stream_caps s"
  using assms by (auto simp: stream_inv_def)

lemma shapeD:
  assumes "stream_shape s"
  shows "length (s_pin s) = s_npin s" "length (s_pin_pad s) = s_npin s" "length (s_arena s) = s_nslot s"
    "length (s_slot_pad s) = s_nslot s" "length (s_block_of s) = s_nslot s"
    "length (s_slot_of s) = length (s_blk s)" "s_npin s \<le> length (s_blk s)" "s_ring s < s_nslot s"
    "0 \<le> s_slot_bytes s" "0 \<le> s_extra_bytes s"
    "\<And>b. b < length (s_blk s) \<Longrightarrow> 0 \<le> b_off (s_blk s ! b) \<and> 0 < b_nbytes (s_blk s ! b)"
  using assms by (auto simp: stream_shape_def)

lemma reservedD:
  "stream_reserved s \<Longrightarrow> outstanding s = Some (b, i) \<Longrightarrow>
     s_npin s \<le> b \<and> b < length (s_blk s) \<and> i < s_nslot s \<and> s_block_of s ! i = None \<and> s_slot_of s ! b = None"
  unfolding stream_reserved_def by blast

text \<open>Recording that block \<open>b\<close> now lives in the free slot \<open>i\<close>.\<close>

definition publish_block :: "nat \<Rightarrow> nat \<Rightarrow> eng_streamer \<Rightarrow> eng_streamer" where
  "publish_block b i s = s\<lparr>s_block_of := (s_block_of s)[i := Some b], s_slot_of := (s_slot_of s)[b := Some i],
     s_misses := s_misses s + 1\<rparr>"

lemma publish_block_inv:
  assumes inv: "stream_inv img s" and b: "s_npin s \<le> b" "b < length (s_blk s)" "s_slot_of s ! b = None"
    and i: "i < s_nslot s" "s_block_of s ! i = None" and has: "slot_has img s b i"
    and free: "\<And>b' i'. outstanding s = Some (b', i') \<Longrightarrow> b' \<noteq> b \<and> i' \<noteq> i"
  shows "stream_inv img (publish_block b i s)"
proof -
  let ?s = "publish_block b i s"
  note inv = invD [OF inv]
  note sh = shapeD [OF inv(1)]
  have bo: "s_block_of ?s ! j = (if j = i then Some b else s_block_of s ! j)" if "j < s_nslot s" for j
    using that sh i by (simp add: publish_block_def)
  have so: "s_slot_of ?s ! c = (if c = b then Some i else s_slot_of s ! c)" if "c < length (s_blk s)" for c
    using that sh b by (simp add: publish_block_def)
  have same: "s_nslot ?s = s_nslot s" "s_npin ?s = s_npin s" "s_blk ?s = s_blk s" "s_arena ?s = s_arena s"
    "s_slot_pad ?s = s_slot_pad s" "s_pin ?s = s_pin s" "s_pin_pad ?s = s_pin_pad s" "s_io ?s = s_io s"
    "s_slot_bytes ?s = s_slot_bytes s" "s_extra_bytes ?s = s_extra_bytes s" "outstanding ?s = outstanding s"
    by (simp_all add: publish_block_def outstanding_def)
  have "stream_shape ?s" using inv(1) by (simp add: stream_shape_def publish_block_def)
  moreover have "stream_maps ?s"
  proof (rule stream_mapsI, unfold same)
    fix j c assume j: "j < s_nslot s" and "s_block_of ?s ! j = Some c"
    then show "s_npin s \<le> c \<and> c < length (s_blk s) \<and> s_slot_of ?s ! c = Some j"
      using bo so b stream_mapsD1 [OF inv(2) j, of c] by (auto split: if_splits)
  next
    fix c j assume c: "c < length (s_blk s)" "s_npin s \<le> c" and "s_slot_of ?s ! c = Some j"
    then show "j < s_nslot s \<and> s_block_of ?s ! j = Some c"
      using bo so i stream_mapsD2 [OF inv(2) c, of j] by (auto split: if_splits)
  qed
  moreover have "stream_reserved ?s"
  proof -
    have "s_block_of ?s ! i' = None" "s_slot_of ?s ! b' = None" if "outstanding s = Some (b', i')" for b' i'
      using reservedD [OF inv(3) that] free [OF that] bo so by simp_all
    then show ?thesis using inv(3) unfolding stream_reserved_def same by simp
  qed
  moreover have "stream_data img ?s"
  proof -
    have "s_slot_of ?s ! c = s_slot_of s ! c" if "c < s_npin s" for c
      using that b so [of c] sh(7) by simp
    then show ?thesis using inv(4) bo has
      by (auto simp: stream_data_def same slot_has_def split: if_splits)
  qed
  moreover have "stream_caps ?s" using inv(5) by (simp add: stream_caps_def same)
  ultimately show ?thesis by (simp add: stream_inv_def)
qed

lemma stats_inv [simp]:
  "stream_inv img (s\<lparr>s_hits := h\<rparr>) \<longleftrightarrow> stream_inv img s"
  using stream_maps_cong [of "s\<lparr>s_hits := h\<rparr>" s]
  by (simp add: stream_inv_def stream_shape_def stream_reserved_def outstanding_def
      stream_data_def slot_has_def stream_caps_def)

lemma set_io_inv:
  assumes inv: "stream_inv img s"
    and "io_busy io \<or> io_done io \<Longrightarrow> s_npin s \<le> io_block io \<and> io_block io < length (s_blk s) \<and>
      io_slot io < s_nslot s \<and> s_block_of s ! io_slot io = None \<and> s_slot_of s ! io_block io = None"
    and "io_done io \<Longrightarrow> io_result io \<Longrightarrow> slot_has img s (io_block io) (io_slot io)"
    and "\<not> (io_busy io \<and> io_done io)"
  shows "stream_inv img (s\<lparr>s_io := Some io\<rparr>)"
proof -
  let ?s = "s\<lparr>s_io := Some io\<rparr>"
  note i = invD [OF inv]
  have "stream_shape ?s" using i(1) by (simp add: stream_shape_def)
  moreover have "stream_maps ?s" using i(2) by (subst stream_maps_cong [of _ s]) simp_all
  moreover have "stream_reserved ?s" using assms(2,4) by (simp add: stream_reserved_def outstanding_def)
  moreover have "stream_data img ?s" using i(4) assms(3) by (simp add: stream_data_def slot_has_def)
  moreover have "stream_caps ?s" using i(5) by (simp add: stream_caps_def)
  ultimately show ?thesis by (simp add: stream_inv_def)
qed

lemma load_ring_blk: "load_ring rd s b slot = (ok, s') \<Longrightarrow> s_blk s' = s_blk s"
  by (auto simp: load_ring_def load_block_def Let_def split: if_splits)

lemma io_collect_blk: "io_collect rd s b = (c, s') \<Longrightarrow> s_blk s' = s_blk s"
  by (auto simp: io_collect_def io_main_def Let_def dest: load_ring_blk split: if_splits option.splits prod.splits)

context aligned_store
begin

lemma load_block_holds:
  assumes "load_block rdal s b dst cap = (Some pad, buf, s')" "0 \<le> b_off (s_blk s ! b)" "0 < b_nbytes (s_blk s ! b)"
  shows "holds data (s_blk s ! b) buf pad"
proof -
  let ?bk = "s_blk s ! b"
  let ?r = "rdal (b_off ?bk) (b_nbytes ?bk) cap"
  have r: "rr_ret ?r = b_nbytes ?bk" "buf = overwrite (rr_buf ?r) dst"
    "pad = i32 (case rr_poff ?r of None \<Rightarrow> 0 | Some p \<Rightarrow> p)"
    using assms(1) by (auto simp: load_block_def Let_def split: if_splits)
  from rdal_full [OF assms(2,3) r(1)] obtain p where p: "rr_poff ?r = Some p" "0 \<le> p" "p < ENG_IO_ALIGN"
    "p + b_nbytes ?bk \<le> int (length (rr_buf ?r))"
    "slice p (b_nbytes ?bk) (rr_buf ?r) = slice (b_off ?bk) (b_nbytes ?bk) data" by blast
  have "pad = p" using r(3) p in_i32_pad by simp
  with p r(2) assms(3) show ?thesis by (simp add: holds_def slice_overwrite)
qed

lemma load_block_cap:
  assumes "load_block rdal s b dst cap = (q, buf, s')" "0 \<le> b_off (s_blk s ! b)" "0 < b_nbytes (s_blk s ! b)"
    "0 \<le> cap" "int (length dst) \<le> cap"
  shows "int (length buf) \<le> cap"
  using assms(1,5) rdal_cap [OF assms(2) less_imp_le [OF assms(3)] assms(4)]
  by (auto simp: load_block_def Let_def split: if_splits)

lemma load_ring_inv:
  assumes inv: "stream_inv data s" and slot: "slot < s_nslot s" "s_block_of s ! slot = None"
    and b: "b < length (s_blk s)"
    and free: "\<And>io. s_io s = Some io \<Longrightarrow> io_done io \<Longrightarrow> io_slot io \<noteq> slot"
    and ld: "load_ring rdal s b slot = (ok, s')"
  shows "stream_inv data s'" "ok \<Longrightarrow> slot_has data s' b slot"
proof -
  note i = invD [OF inv]
  note sh = shapeD [OF i(1)]
  note fr = load_ring_frame [OF ld slot(1)]
  have eqs: "s_blk s' = s_blk s" "s_npin s' = s_npin s" "s_nslot s' = s_nslot s"
     "s_slot_bytes s' = s_slot_bytes s" "s_extra_bytes s' = s_extra_bytes s"
     "s_pin s' = s_pin s" "s_pin_pad s' = s_pin_pad s" "s_block_of s' = s_block_of s"
     "s_slot_of s' = s_slot_of s" "s_ring s' = s_ring s" "s_io s' = s_io s"
    using fr(1) by (auto simp: same_map_def)
  obtain q buf s1 where lb: "load_block rdal s b (s_arena s ! slot) (s_slot_bytes s) = (q, buf, s1)"
    by (metis prod_cases3)
  have s1: "s_arena s1 = s_arena s" "s_slot_pad s1 = s_slot_pad s"
    using lb by (auto simp: load_block_def Let_def split: if_splits)
  have ar: "s_arena s' ! slot = buf" using ld lb s1 slot sh by (auto simp: load_ring_def Let_def split: option.splits)
  have cap: "int (length buf) \<le> s_slot_bytes s"
    using load_block_cap [OF lb] sh(11) [OF b] sh(9) i(5) slot(1) by (auto simp: stream_caps_def)
  have keep: "slot_has data s' c j = slot_has data s c j" if "j \<noteq> slot" for c j
    using fr(4) that by (simp add: slot_has_def eqs)
  show "slot_has data s' b slot" if okay: ok
  proof -
    obtain pad where pad: "q = Some pad" "s_slot_pad s' ! slot = pad"
      using ld lb s1 slot sh okay by (auto simp: load_ring_def Let_def split: option.splits)
    then show ?thesis
      using load_block_holds [of s b] lb sh(11) [OF b] ar by (auto simp: slot_has_def eqs)
  qed
  have "stream_shape s'" using i(1) fr(2,3) by (simp add: stream_shape_def eqs)
  moreover have "stream_maps s'" using i(2) by (subst stream_maps_cong [of _ s]) (simp_all add: eqs)
  moreover have "stream_reserved s'" using i(3) by (simp add: stream_reserved_def outstanding_def eqs)
  moreover have "stream_data data s'"
    using i(4) keep slot(2) free unfolding stream_data_def eqs by (metis option.distinct(1))
  moreover have "stream_caps s'"
    using i(5) fr(4) ar cap unfolding stream_caps_def eqs by metis
  ultimately show "stream_inv data s'" by (simp add: stream_inv_def)
qed

text \<open>The reader thread: it touches the reserved slot only, and leaves it complete or unpublished.\<close>

lemma io_main_inv:
  assumes inv: "stream_inv data s"
  shows "stream_inv data (io_main rdal s)"
proof (cases "\<exists>io. s_io s = Some io \<and> io_busy io")
  case False
  then have "io_main rdal s = s" by (auto simp: io_main_def split: option.splits)
  with inv show ?thesis by simp
next
  case True
  then obtain io where io: "s_io s = Some io" "io_busy io" by blast
  obtain ok s1 where ld: "load_ring rdal s (io_block io) (io_slot io) = (ok, s1)" by fastforce
  let ?io = "io\<lparr>io_result := ok, io_done := True, io_busy := False\<rparr>"
  have eq: "io_main rdal s = s1\<lparr>s_io := Some ?io\<rparr>" using io ld by (simp add: io_main_def)
  note i = invD [OF inv]
  have out: "outstanding s = Some (io_block io, io_slot io)" using io by (simp add: outstanding_def)
  from reservedD [OF i(3) out] have res: "io_block io < length (s_blk s)" "io_slot io < s_nslot s"
    "s_block_of s ! io_slot io = None" "s_npin s \<le> io_block io" "s_slot_of s ! io_block io = None" by auto
  note fr = load_ring_frame [OF ld res(2)]
  have eqs: "s_blk s1 = s_blk s" "s_npin s1 = s_npin s" "s_nslot s1 = s_nslot s"
     "s_slot_bytes s1 = s_slot_bytes s" "s_extra_bytes s1 = s_extra_bytes s"
     "s_pin s1 = s_pin s" "s_pin_pad s1 = s_pin_pad s" "s_block_of s1 = s_block_of s"
     "s_slot_of s1 = s_slot_of s" "s_ring s1 = s_ring s" "s_io s1 = s_io s"
    using fr(1) by (auto simp: same_map_def)
  let ?clr = "Some (io\<lparr>io_done := False\<rparr>)"
  have t: "stream_inv data (s\<lparr>s_io := ?clr\<rparr>)"
    using res by (intro set_io_inv [OF inv]) auto
  have ldt: "load_ring rdal (s\<lparr>s_io := ?clr\<rparr>) (io_block io) (io_slot io) = (ok, s1\<lparr>s_io := ?clr\<rparr>)"
    using ld by (auto simp: load_ring_def load_block_def Let_def split: if_splits)
  have inv1: "stream_inv data (s1\<lparr>s_io := ?clr\<rparr>)"
    and has: "ok \<Longrightarrow> slot_has data (s1\<lparr>s_io := ?clr\<rparr>) (io_block io) (io_slot io)"
    using load_ring_inv [OF t _ _ _ _ ldt] res by auto
  have "stream_inv data ((s1\<lparr>s_io := ?clr\<rparr>)\<lparr>s_io := Some ?io\<rparr>)"
    using has res eqs by (intro set_io_inv [OF inv1]) auto
  then show ?thesis by (simp add: eq)
qed

lemma io_main_io:
  assumes "s_io s = Some io" "io_busy io"
  shows "\<exists>ok. s_io (io_main rdal s) = Some (io\<lparr>io_result := ok, io_done := True, io_busy := False\<rparr>)"
  using assms by (auto simp: io_main_def split: prod.splits)

lemma io_collect_inv:
  assumes inv: "stream_inv data s" and col: "io_collect rdal s b = (c, s')"
  shows "stream_inv data s'"
    and "c = Nothing \<Longrightarrow> s' = s \<and> (\<forall>i. outstanding s \<noteq> Some (b, i))"
    and "c = Landed \<Longrightarrow> \<exists>i. s_slot_of s' ! b = Some i \<and> slot_has data s' b i"
proof -
  have A: "stream_inv data s' \<and> (c = Nothing \<longrightarrow> s' = s \<and> (\<forall>i. outstanding s \<noteq> Some (b, i))) \<and>
    (c = Landed \<longrightarrow> (\<exists>i. s_slot_of s' ! b = Some i \<and> slot_has data s' b i))"
  proof (cases "\<exists>io. s_io s = Some io \<and> (io_busy io \<or> io_done io) \<and> io_block io = b")
    case False
    then have "c = Nothing" "s' = s" using col by (auto simp: io_collect_def split: option.splits if_splits)
    with inv False show ?thesis by (auto simp: outstanding_def split: option.splits if_splits)
  next
    case True
    then obtain io where io: "s_io s = Some io" "io_busy io \<or> io_done io" "io_block io = b" by blast
    define s1 where "s1 = (if io_done io then s else io_main rdal s)"
    have inv1: "stream_inv data s1" using inv io_main_inv by (simp add: s1_def)
    obtain io1 where io1: "s_io s1 = Some io1" "io_done io1" "io_block io1 = b" "io_slot io1 = io_slot io"
      using io io_main_io [OF io(1)] by (cases "io_done io") (auto simp: s1_def)
    have out: "outstanding s1 = Some (b, io_slot io1)" using io1 by (simp add: outstanding_def)
    note i1 = invD [OF inv1]
    from reservedD [OF i1(3) out] have res: "s_npin s1 \<le> b" "b < length (s_blk s1)"
      "io_slot io1 < s_nslot s1" "s_block_of s1 ! io_slot io1 = None" "s_slot_of s1 ! b = None" by auto
    let ?clr = "Some (io1\<lparr>io_done := False\<rparr>)"
    have c: "c = (if io_result io1 then Landed else Failed)"
      "s' = (if io_result io1 then publish_block b (io_slot io1) (s1\<lparr>s_io := ?clr\<rparr>) else s1\<lparr>s_io := ?clr\<rparr>)"
      using col io io1 unfolding io_collect_def publish_block_def
      by (auto simp: Let_def s1_def [symmetric])
    have nb: "\<not> io_busy io1" using i1(3) io1 by (auto simp: stream_reserved_def)
    have inv2: "stream_inv data (s1\<lparr>s_io := ?clr\<rparr>)"
      using nb by (intro set_io_inv [OF inv1]) auto
    show ?thesis
    proof (cases "io_result io1")
      case True
      have has: "slot_has data (s1\<lparr>s_io := ?clr\<rparr>) b (io_slot io1)"
        using i1(4) io1 True by (auto simp: stream_data_def slot_has_def)
      have "stream_inv data s'"
        unfolding c(2) using True res has nb by (auto intro!: publish_block_inv [OF inv2] simp: outstanding_def)
      moreover have "s_slot_of s' ! b = Some (io_slot io1)" "slot_has data s' b (io_slot io1)"
        using True has res shapeD(6) [OF i1(1)] by (auto simp: c(2) publish_block_def slot_has_def)
      ultimately show ?thesis using c(1) True by auto
    next
      case False
      with inv2 show ?thesis by (simp add: c)
    qed
  qed
  show "stream_inv data s'" "c = Nothing \<Longrightarrow> s' = s \<and> (\<forall>i. outstanding s \<noteq> Some (b, i))"
    "c = Landed \<Longrightarrow> \<exists>i. s_slot_of s' ! b = Some i \<and> slot_has data s' b i"
    using A by auto
qed

lemma get_pinned_inv:
  assumes inv: "stream_inv data s" and b: "b < s_npin s" and g: "get_pinned rdal s b = (p, s')"
  shows "stream_inv data s'" "p = Some q \<Longrightarrow> block_at s' q b = slice (b_off (s_blk s ! b)) (b_nbytes (s_blk s ! b)) data"
proof -
  note i = invD [OF inv]
  note sh = shapeD [OF i(1)]
  have bl: "b < length (s_blk s)" using b sh(7) by simp
  have A: "stream_inv data s' \<and> (p = Some q \<longrightarrow> block_at s' q b = slice (b_off (s_blk s ! b)) (b_nbytes (s_blk s ! b)) data)"
  proof (cases "s_slot_of s ! b")
    case (Some x)
    then have "s' = s\<lparr>s_hits := s_hits s + 1\<rparr>" "p = Some (InPin b (s_pin_pad s ! b))"
      using g by (auto simp: get_pinned_def)
    moreover have "holds data (s_blk s ! b) (s_pin s ! b) (s_pin_pad s ! b)"
      using i(4) Some b by (auto simp: stream_data_def)
    ultimately show ?thesis
      using inv by (auto simp: block_at_def ptr_off_def ptr_buffer_def holds_def)
  next
    case None
    let ?cap = "block_need (s_extra_bytes s) (b_nbytes (s_blk s ! b))"
    obtain pd buf s1 where lb: "load_block rdal s b (s_pin s ! b) ?cap = (pd, buf, s1)"
      by (metis prod_cases3)
    then obtain n where s1: "s1 = s\<lparr>s_bytes_read := n\<rparr>"
      by (cases s) (auto simp: load_block_def Let_def split: if_splits)
    have cap0: "0 \<le> ?cap" using block_need_pos [OF sh(10), of "b_nbytes (s_blk s ! b)"] sh(11) [OF bl] by simp
    have cap: "int (length buf) \<le> ?cap"
      using load_block_cap [OF lb _ _ cap0] sh(11) [OF bl] i(5) b by (auto simp: stream_caps_def)
    let ?t = "s1\<lparr>s_pin := (s_pin s)[b := buf]\<rparr>"
    have s': "s' = (case pd of None \<Rightarrow> ?t | Some pad \<Rightarrow> ?t\<lparr>s_pin_pad := (s_pin_pad s)[b := pad],
          s_slot_of := (s_slot_of s)[b := Some b], s_misses := s_misses s + 1\<rparr>)"
      "p = map_option (InPin b) pd"
      using g None lb s1 by (auto simp: get_pinned_def block_need_def [symmetric] Let_def split: option.splits)
    have pad: "holds data (s_blk s ! b) buf pad" if "pd = Some pad" for pad
      using load_block_holds [of s b] lb that sh(11) [OF bl] by blast
    have eqs: "s_blk s' = s_blk s" "s_npin s' = s_npin s" "s_nslot s' = s_nslot s"
      "s_slot_bytes s' = s_slot_bytes s" "s_extra_bytes s' = s_extra_bytes s" "s_block_of s' = s_block_of s"
      "s_ring s' = s_ring s" "s_io s' = s_io s" "s_arena s' = s_arena s" "s_slot_pad s' = s_slot_pad s"
      "s_pin s' = (s_pin s)[b := buf]"
      "s_pin_pad s' = (case pd of None \<Rightarrow> s_pin_pad s | Some pad \<Rightarrow> (s_pin_pad s)[b := pad])"
      "s_slot_of s' = (case pd of None \<Rightarrow> s_slot_of s | Some pad \<Rightarrow> (s_slot_of s)[b := Some b])"
      using s'(1) by (simp_all add: s1 split: option.splits)
    have so: "s_slot_of s' ! c = s_slot_of s ! c" if "c \<noteq> b" for c
      using that by (simp add: eqs split: option.splits)
    have "stream_shape s'" using i(1) by (auto simp: stream_shape_def eqs split: option.splits)
    moreover have "stream_maps s'"
    proof (rule stream_mapsI, unfold eqs(1-3,6))
      fix j c assume "j < s_nslot s" "s_block_of s ! j = Some c"
      from stream_mapsD1 [OF i(2) this] so [of c] b
      show "s_npin s \<le> c \<and> c < length (s_blk s) \<and> s_slot_of s' ! c = Some j" by auto
    next
      fix c j assume c: "c < length (s_blk s)" "s_npin s \<le> c" "s_slot_of s' ! c = Some j"
      with b so [of c] have "s_slot_of s ! c = Some j" by auto
      from stream_mapsD2 [OF i(2) c(1,2) this] show "j < s_nslot s \<and> s_block_of s ! j = Some c" .
    qed
    moreover have "stream_reserved s'"
    proof -
      have out: "outstanding s' = outstanding s" by (simp add: outstanding_def eqs)
      have "s_slot_of s' ! c = None" if "outstanding s = Some (c, j)" for c j
        using reservedD [OF i(3) that] so [of c] b by auto
      then show ?thesis using i(3) by (simp add: stream_reserved_def out eqs(1-10))
    qed
    moreover have "stream_data data s'"
    proof -
      have "holds data (s_blk s ! c) (s_pin s' ! c) (s_pin_pad s' ! c)"
        if "c < s_npin s" "s_slot_of s' ! c \<noteq> None" for c
      proof (cases "c = b")
        case True
        then have "pd \<noteq> None" using that None by (auto simp: eqs split: option.splits)
        then show ?thesis using True b sh pad by (auto simp: eqs)
      next
        case False
        then have "s_slot_of s ! c \<noteq> None" using that so by auto
        with i(4) that(1) have "holds data (s_blk s ! c) (s_pin s ! c) (s_pin_pad s ! c)"
          by (auto simp: stream_data_def)
        with False show ?thesis by (auto simp: eqs split: option.splits)
      qed
      then show ?thesis using i(4) by (auto simp: stream_data_def slot_has_def eqs(1-10))
    qed
    moreover have "stream_caps s'"
    proof -
      have "int (length ((s_pin s)[b := buf] ! c)) \<le> block_need (s_extra_bytes s) (b_nbytes (s_blk s ! c))"
        if "c < s_npin s" for c
        using i(5) cap sh(1) that by (cases "c = b") (auto simp: stream_caps_def)
      then show ?thesis using i(5) by (simp add: stream_caps_def eqs(1-11))
    qed
    moreover have "block_at s' q b = slice (b_off (s_blk s ! b)) (b_nbytes (s_blk s ! b)) data" if "p = Some q"
      using that s'(2) pad b sh by (auto simp: block_at_def ptr_off_def ptr_buffer_def eqs holds_def)
    ultimately show ?thesis by (simp add: stream_inv_def)
  qed
  show "stream_inv data s'" using A by simp
  show "p = Some q \<Longrightarrow> block_at s' q b = slice (b_off (s_blk s ! b)) (b_nbytes (s_blk s ! b)) data"
    using A by simp
qed

lemma get_ring_inv:
  assumes inv: "stream_inv data s" and b: "s_npin s \<le> b" "b < length (s_blk s)"
    and st: "\<not> steals s b" and out: "\<And>i. outstanding s \<noteq> Some (b, i)"
    and g: "get_ring rdal s b = (p, s')"
  shows "stream_inv data s' \<and> s_blk s' = s_blk s \<and> (\<forall>q. p = Some q \<longrightarrow>
    (\<exists>i. q = InRing i (s_slot_pad s' ! i) \<and> slot_has data s' b i))"
proof (cases "find_slot (s_block_of s) b")
  case (Some slot)
  note i = invD [OF inv]
  have "slot < s_nslot s" "s_block_of s ! slot = Some b"
    using find_slot_Some [OF Some] shapeD [OF i(1)] by auto
  then have "slot_has data s b slot" using i(4) by (auto simp: stream_data_def)
  with g Some inv show ?thesis by (auto simp: get_ring_def slot_has_def)
next
  case None
  define t where "t = snd (claim_slot s)"
  have cl: "claim_slot s = (s_ring s, t)" by (simp add: t_def claim_slot_eq)
  have ti: "stream_inv data t" unfolding t_def by (rule claim_slot_inv [OF inv])
  note sh = shapeD [OF invD(1) [OF inv]]
  have te: "s_blk t = s_blk s" "s_nslot t = s_nslot s" "s_npin t = s_npin s" "s_io t = s_io s"
    "outstanding t = outstanding s"
    by (simp_all add: t_def claim_slot_eq outstanding_def)
  have bof: "s_block_of t = (s_block_of s)[s_ring s := None]" by (simp add: t_def claim_slot_eq)
  have free: "s_block_of t ! s_ring s = None" using bof sh by simp
  have nm: "Some b \<notin> set (s_block_of s)" using None by (simp add: find_slot_None)
  have nos: "outstanding s = Some (b', i') \<Longrightarrow> b' \<noteq> b \<and> i' \<noteq> s_ring s" for b' i'
    using st b nm out by (auto simp: steals_def)
  have nb: "s_slot_of t ! b = None"
  proof (cases "s_slot_of t ! b")
    case (Some j)
    from stream_mapsD2 [OF invD(2) [OF ti], of b j] Some b te
    have "j < s_nslot s" "s_block_of t ! j = Some b" by auto
    then have "Some b \<in> set (s_block_of t)" using bof sh by (metis length_list_update nth_mem)
    then show ?thesis using bof nm set_update_subset_insert [of "s_block_of s" "s_ring s" None] by auto
  qed
  obtain ok u where ld: "load_ring rdal t b (s_ring s) = (ok, u)" by fastforce
  have fin: "io_slot io \<noteq> s_ring s" if "s_io t = Some io" "io_done io" for io
    using nos that te by (auto simp: outstanding_def)
  have ui: "stream_inv data u" and uh: "ok \<Longrightarrow> slot_has data u b (s_ring s)"
    using load_ring_inv [OF ti _ free _ _ ld] sh b te fin by auto
  have fr: "same_map t u" using load_ring_frame(1) [OF ld] sh te by simp
  then have ue: "s_blk u = s_blk s" "s_npin u = s_npin s" "s_nslot u = s_nslot s" "s_slot_of u = s_slot_of t"
    "s_block_of u = s_block_of t" "outstanding u = outstanding s"
    using te by (auto simp: same_map_def outstanding_def)
  have res: "p = (if ok then Some (InRing (s_ring s) (s_slot_pad u ! s_ring s)) else None)"
    "s' = (if ok then publish_block b (s_ring s) u else u)"
    using g None cl ld by (auto simp: get_ring_def publish_block_def)
  have "stream_inv data (publish_block b (s_ring s) u)" if ok
    using ui uh that b sh nb free nos by (intro publish_block_inv) (auto simp: ue)
  moreover have "slot_has data (publish_block b (s_ring s) u) b (s_ring s)" if ok
    using uh that by (simp add: slot_has_def publish_block_def)
  ultimately show ?thesis using ui ue(1) by (auto simp: res publish_block_def)
qed

lemma stream_get_inv:
  assumes inv: "stream_inv data s" and st: "\<not> steals s b" and g: "eng_streamer_get rdal s b = (p, s')"
  shows "stream_inv data s' \<and> (\<forall>q. p = Some q \<longrightarrow>
    block_at s' q b = slice (b_off (s_blk s ! b)) (b_nbytes (s_blk s ! b)) data)"
proof -
  consider "b \<ge> length (s_blk s)" | "b < s_npin s" "b < length (s_blk s)"
    | "s_npin s \<le> b" "b < length (s_blk s)" by linarith
  then show ?thesis
  proof cases
    case 1
    with g inv show ?thesis by (simp add: eng_streamer_get_def)
  next
    case 2
    with g have "get_pinned rdal s b = (p, s')" by (simp add: eng_streamer_get_def)
    from get_pinned_inv [OF inv 2(1) this] show ?thesis by blast
  next
    case 3
    obtain c t where c: "io_collect rdal s b = (c, t)" by fastforce
    note col = io_collect_inv [OF inv c]
    have blk: "s_blk t = s_blk s" by (rule io_collect_blk [OF c])
    show ?thesis
    proof (cases c)
      case Nothing
      then have "t = s" "\<And>i. outstanding s \<noteq> Some (b, i)" using col(2) by auto
      moreover have "get_ring rdal s b = (p, s')"
        using g 3 c Nothing \<open>t = s\<close> by (simp add: eng_streamer_get_def)
      ultimately show ?thesis using get_ring_inv [OF inv 3 st, of p s']
        by (auto simp: block_at_def ptr_off_def ptr_buffer_def slot_has_def holds_def)
    next
      case Landed
      then obtain i where i: "s_slot_of t ! b = Some i" "slot_has data t b i" using col(3) by blast
      have "p = Some (InRing i (s_slot_pad t ! i))" "s' = t"
        using g 3 c Landed i(1) by (auto simp: eng_streamer_get_def)
      then show ?thesis using col(1) i(2) blk
        by (auto simp: block_at_def ptr_off_def ptr_buffer_def slot_has_def holds_def)
    next
      case Failed
      then show ?thesis using g 3 c col(1) by (simp add: eng_streamer_get_def)
    qed
  qed
qed

end

section \<open>Prefetch and creation\<close>

lemma prefetch_inv:
  assumes inv: "stream_inv img s"
  shows "stream_inv img (eng_streamer_prefetch s b)"
proof (cases "b \<ge> length (s_blk s) \<or> b < s_npin s \<or> s_io s = None")
  case True
  with inv show ?thesis by (auto simp: eng_streamer_prefetch_def)
next
  case False
  then obtain io where io: "s_io s = Some io" by blast
  show ?thesis
  proof (cases "Some b \<in> set (s_block_of s) \<or> io_busy io \<or> io_done io \<or> s_slot_of s ! b \<noteq> None")
    case True
    with inv False io show ?thesis by (simp add: eng_streamer_prefetch_def)
  next
    case n: False
    define t where "t = snd (claim_slot s)"
    have cl: "claim_slot s = (s_ring s, t)" by (simp add: t_def claim_slot_eq)
    have ti: "stream_inv img t" unfolding t_def by (rule claim_slot_inv [OF inv])
    note sh = shapeD [OF invD(1) [OF inv]]
    have "(s_slot_of s)[c := None] ! b = None" for c
      using n sh(6) False by (cases "c = b") auto
    then have "s_slot_of t ! b = None" using n by (simp add: t_def claim_slot_eq split: option.splits)
    moreover have "s_block_of t ! s_ring s = None" "s_blk t = s_blk s"
      "s_npin t = s_npin s" "s_nslot t = s_nslot s"
      using sh by (simp_all add: t_def claim_slot_eq)
    ultimately have "stream_inv img (t\<lparr>s_io := Some (io\<lparr>io_block := b, io_slot := s_ring s,
        io_done := False, io_busy := True\<rparr>)\<rparr>)"
      using False n sh by (intro set_io_inv [OF ti]) auto
    then show ?thesis using False n io cl by (simp add: eng_streamer_prefetch_def)
  qed
qed

definition blocks_ok :: "eng_block list \<Rightarrow> bool" where
  "blocks_ok bs \<longleftrightarrow> list_all (\<lambda>bk. 0 \<le> b_off bk \<and> 0 < b_nbytes bk) bs"

lemma create_fields:
  assumes "eng_streamer_create bs budget ec rc async hp env = Some s"
  obtains rs ring np sp want ls where "want = (if rc > 0 then nat rc else 2)"
    "sizing 4 (s_extra_bytes s) budget want (map b_nbytes bs) (0, want, 0, 0) = (rs, ring, np, sp)"
    "s_extra_bytes s = max 0 ec" "bs \<noteq> []" "0 < rs" "int ring * rs \<le> budget"
    "alloc_each env (want_huge hp env) 0 (map (block_need (s_extra_bytes s)) (take np (map b_nbytes bs)) @ [int ring * rs]) = Some ls"
    "s = \<lparr>s_blk = bs, s_npin = np, s_nslot = ring, s_slot_bytes = rs,
          s_extra_bytes = max 0 ec, s_pin = replicate np [], s_pin_pad = replicate np 0,
          s_arena = replicate ring [], s_slot_pad = replicate ring 0,
          s_block_of = replicate ring None, s_slot_of = replicate (length bs) None,
          s_ring = 0,
          s_io = (if async \<and> ring \<ge> 2 \<and> se_thread_ok env
                  then Some \<lparr>io_busy = False, io_done = False, io_block = 0, io_slot = 0,
                             io_result = True\<rparr> else None),
          s_hits = 0, s_misses = 0, s_bytes_read = 0,
          s_pinned_bytes = sum_list (map (block_need (max 0 ec)) (take np (map b_nbytes bs))), s_mem = ls\<rparr>"
proof -
  define ex where "ex = max 0 ec"
  define want where "want = (if rc > 0 then nat rc else 2)"
  obtain rs ring np sp where sz: "sizing 4 ex budget want (map b_nbytes bs) (0, want, 0, 0) = (rs, ring, np, sp)"
    using prod_cases4 by blast
  have ex: "(if 0 < ec then ec else 0) = ex" by (simp add: ex_def)
  show ?thesis
    using assms that [of want rs ring np sp] sz
    unfolding eng_streamer_create_def ex want_def [symmetric] ex_def [symmetric] Let_def
    by (auto split: if_splits option.splits simp: want_def)
qed

lemma sizing_facts:
  assumes "sizing (Suc n) ex budget want nbs (r0, g0, p0, s0) = (rs, ring, np, sp)" "1 \<le> want"
  shows "np \<le> length nbs \<and> 1 \<le> ring \<and>
    sp = int ring * rs + sum_list (map (block_need ex) (take np nbs)) \<and> (int ring * rs \<le> budget \<longrightarrow> sp \<le> budget)"
  using assms(1)
proof (induction n arbitrary: r0 g0 p0 s0)
  case (Suc n)
  obtain a b c d where p: "size_pass ex budget want nbs p0 = (a, b, c, d)" using prod_cases4 by blast
  show ?case
  proof (cases "a = r0 \<and> c = p0")
    case False
    then have "sizing (Suc (Suc n)) ex budget want nbs (r0, g0, p0, s0) = sizing (Suc n) ex budget want nbs (a, b, c, d)"
      using p by (subst sizing.simps(2)) (auto simp del: sizing.simps)
    then have "sizing (Suc n) ex budget want nbs (a, b, c, d) = (rs, ring, np, sp)"
      using Suc.prems by simp
    then show ?thesis by (rule Suc.IH)
  next
    case True
    then have "(rs, ring, np, sp) = (a, b, c, d)" using Suc.prems p by simp
    then show ?thesis using p pin_fit_spent ring_fit_bounds(2) [OF assms(2)]
      by (auto simp: size_pass_def Let_def split: prod.splits)
  qed
next
  case 0
  obtain a b c d where p: "size_pass ex budget want nbs p0 = (a, b, c, d)" using prod_cases4 by blast
  then have "(rs, ring, np, sp) = (a, b, c, d)" using 0 by (auto split: if_splits)
  then show ?case using p pin_fit_spent ring_fit_bounds(2) [OF assms(2)]
    by (auto simp: size_pass_def Let_def split: prod.splits)
qed

lemma created_inv:
  assumes "eng_streamer_create bs budget ec rc async hp env = Some s" "blocks_ok bs"
  shows "stream_inv img s"
  using assms(1)
proof (rule create_fields)
  fix rs ring np sp want ls
  assume want: "want = (if rc > 0 then nat rc else 2)"
    and sz: "sizing 4 (s_extra_bytes s) budget want (map b_nbytes bs) (0, want, 0, 0) = (rs, ring, np, sp)"
    and "0 < rs" "bs \<noteq> []"
    and s: "s = \<lparr>s_blk = bs, s_npin = np, s_nslot = ring, s_slot_bytes = rs,
          s_extra_bytes = max 0 ec, s_pin = replicate np [], s_pin_pad = replicate np 0,
          s_arena = replicate ring [], s_slot_pad = replicate ring 0,
          s_block_of = replicate ring None, s_slot_of = replicate (length bs) None,
          s_ring = 0,
          s_io = (if async \<and> ring \<ge> 2 \<and> se_thread_ok env
                  then Some \<lparr>io_busy = False, io_done = False, io_block = 0, io_slot = 0,
                             io_result = True\<rparr> else None),
          s_hits = 0, s_misses = 0, s_bytes_read = 0,
          s_pinned_bytes = sum_list (map (block_need (max 0 ec)) (take np (map b_nbytes bs))), s_mem = ls\<rparr>"
  have f: "np \<le> length bs" "1 \<le> ring"
    using sizing_facts [of 3 "s_extra_bytes s" budget want "map b_nbytes bs" 0 want 0 0] sz want
    by (auto simp: numeral_eq_Suc split: if_splits)
  have "stream_shape s" using f assms(2) \<open>0 < rs\<close>
    by (auto simp: stream_shape_def s blocks_ok_def list_all_iff)
  moreover have "stream_maps s" using f by (intro stream_mapsI) (simp_all add: s)
  moreover have "stream_reserved s" by (simp add: stream_reserved_def outstanding_def s)
  moreover have "stream_data img s" using f by (simp add: stream_data_def s)
  moreover have "stream_caps s"
  proof -
    have "0 \<le> block_need (max 0 ec) (b_nbytes (bs ! i))" if "i < np" for i
    proof -
      have "0 < b_nbytes (bs ! i)" using assms(2) that f by (simp add: blocks_ok_def list_all_length)
      then show ?thesis using block_need_pos [of "max 0 ec" "b_nbytes (bs ! i)"] by simp
    qed
    then show ?thesis using \<open>0 < rs\<close> by (simp add: stream_caps_def s)
  qed
  ultimately show ?thesis by (simp add: stream_inv_def)
qed

end
