(* ===== verification/Streamer_Props.thy ===== *)
theory Streamer_Props
  imports Streamer_Inv
begin

text \<open>
  Properties of the storage backend and of the streamer above it, over the model's own
  \<open>file_read_aligned\<close>: exactness and bounds of aligned reads, the budget split with the memory it
  really takes, and the bytes a caller of \<open>eng_streamer_get\<close> sees on the synchronous path, for any
  order of requests.  The overlapped path is exact for the cyclic walk only (\<open>Streamer_Walk\<close>); closed
  counterexamples mark where the source's comments promise more than the code does.
\<close>

section \<open>Reachable states\<close>

definition geometry :: "eng_streamer \<Rightarrow> eng_block list \<times> nat \<times> nat \<times> int \<times> int" where
  "geometry s = (s_blk s, s_npin s, s_nslot s, s_slot_bytes s, s_extra_bytes s)"

inductive stream_reach :: "read_fn \<Rightarrow> eng_streamer \<Rightarrow> eng_streamer \<Rightarrow> bool" for rd s0 where
  start: "stream_reach rd s0 s0"
| get: "stream_reach rd s0 s \<Longrightarrow> stream_reach rd s0 (snd (eng_streamer_get rd s b))"
| prefetch: "stream_reach rd s0 s \<Longrightarrow> stream_reach rd s0 (eng_streamer_prefetch s b)"
| reader: "stream_reach rd s0 s \<Longrightarrow> stream_reach rd s0 (io_main rd s)"

lemma load_block_geometry: "load_block rd s b dst cap = (p, buf, s') \<Longrightarrow> geometry s' = geometry s \<and> s_io s' = s_io s"
  by (auto simp: load_block_def Let_def geometry_def split: if_splits)

lemma load_ring_geometry: "load_ring rd s b slot = (ok, s') \<Longrightarrow> geometry s' = geometry s \<and> s_io s' = s_io s"
  by (auto simp: load_ring_def load_block_def Let_def geometry_def split: if_splits)

lemma claim_slot_geometry: "claim_slot s = (i, s') \<Longrightarrow> geometry s' = geometry s \<and> s_io s' = s_io s"
  by (auto simp: claim_slot_eq geometry_def)

lemma io_main_geometry: "geometry (io_main rd s) = geometry s"
proof (cases "s_io s")
  case (Some io)
  obtain ok t where ld: "load_ring rd s (io_block io) (io_slot io) = (ok, t)" by fastforce
  then have "geometry (t\<lparr>s_io := x\<rparr>) = geometry s" for x
    using load_ring_geometry [OF ld] by (simp add: geometry_def)
  then show ?thesis using Some ld by (simp add: io_main_def)
qed (simp add: io_main_def)

lemma geometry_io_upd [simp]: "geometry (s\<lparr>s_io := x\<rparr>) = geometry s"
  by (simp add: geometry_def)

lemma geometry_maps_upd [simp]:
  "geometry (s\<lparr>s_block_of := x\<rparr>) = geometry s" "geometry (s\<lparr>s_slot_of := y\<rparr>) = geometry s"
  "geometry (s\<lparr>s_misses := m\<rparr>) = geometry s" "geometry (s\<lparr>s_hits := m\<rparr>) = geometry s"
  "geometry (s\<lparr>s_pin := p\<rparr>) = geometry s" "geometry (s\<lparr>s_pin_pad := pp\<rparr>) = geometry s"
  by (simp_all add: geometry_def)

lemma io_collect_geometry: "geometry (snd (io_collect rd s b)) = geometry s"
  by (auto simp: io_collect_def Let_def io_main_geometry split: option.splits)

lemma get_geometry: "geometry (snd (eng_streamer_get rd s b)) = geometry s"
proof -
  have "geometry (snd (get_pinned rd s b)) = geometry s"
    by (auto simp: get_pinned_def Let_def dest: load_block_geometry split: prod.splits option.splits)
  moreover have "geometry (snd (get_ring rd t b)) = geometry t" for t
    by (auto simp: get_ring_def dest!: load_ring_geometry claim_slot_geometry split: prod.splits option.splits)
  ultimately show ?thesis
    using io_collect_geometry [of rd s b]
    by (auto simp: eng_streamer_get_def Let_def split: prod.splits collected.splits)
qed

lemma prefetch_geometry: "geometry (eng_streamer_prefetch s b) = geometry s"
  by (auto simp: eng_streamer_prefetch_def dest!: claim_slot_geometry split: option.splits prod.splits)

lemma reach_geometry: "stream_reach rd s0 s \<Longrightarrow> geometry s = geometry s0"
  by (induction rule: stream_reach.induct) (simp_all add: get_geometry prefetch_geometry io_main_geometry)

text \<open>Without the reader thread nothing is ever outstanding, whatever the caller asks for.\<close>

lemma get_sync:
  assumes "s_io s = None"
  shows "s_io (snd (eng_streamer_get rd s b)) = None"
proof -
  have "s_io (snd (get_pinned rd s b)) = None"
    using assms by (auto simp: get_pinned_def Let_def dest!: load_block_geometry split: prod.splits option.splits)
  moreover have "s_io (snd (get_ring rd s b)) = None"
    using assms by (auto simp: get_ring_def dest!: load_ring_geometry claim_slot_geometry split: prod.splits option.splits)
  ultimately show ?thesis using assms by (simp add: eng_streamer_get_def io_collect_def)
qed

lemma sync_not_steals: "s_io s = None \<Longrightarrow> \<not> steals s b"
  by (simp add: steals_def outstanding_def)

lemma reach_sync: "stream_reach rd s0 s \<Longrightarrow> s_io s0 = None \<Longrightarrow> s_io s = None"
  by (induction rule: stream_reach.induct) (simp_all add: get_sync eng_streamer_prefetch_def io_main_def)

context aligned_store
begin

lemma reach_stream_inv:
  assumes "stream_reach rdal s0 s" "stream_inv data s0" "s_io s0 = None"
  shows "stream_inv data s"
  using assms
proof (induction rule: stream_reach.induct)
  case (get s b)
  then show ?case using stream_get_inv [of s b] sync_not_steals [OF reach_sync [OF get(1,4)]] by (metis prod.collapse)
qed (simp_all add: prefetch_inv io_main_inv)

end

section \<open>A block that is not resident\<close>

text \<open>
  The discipline of the layer loop: the requested block is not resident, and a pending
  prefetch is for exactly this block, issued last.
\<close>

definition walk_ready :: "eng_streamer \<Rightarrow> nat \<Rightarrow> bool" where
  "walk_ready s b \<longleftrightarrow> s_npin s \<le> b \<and> Some b \<notin> set (s_block_of s) \<and>
     (case outstanding s of None \<Rightarrow> True
      | Some (b', i) \<Rightarrow> b' = b \<and> s_ring s = (i + 1) mod s_nslot s)"

lemma io_main_ring: "s_ring (io_main rd s) = s_ring s" "s_nslot (io_main rd s) = s_nslot s"
  by (auto simp: io_main_def load_ring_def load_block_def Let_def split: option.splits prod.splits if_splits)

lemma io_main_io_fields:
  assumes "s_io s = Some io" "io_busy io"
  shows "\<exists>ok. s_io (io_main rd s) = Some (io\<lparr>io_result := ok, io_done := True, io_busy := False\<rparr>)"
  using assms by (auto simp: io_main_def split: prod.splits)

lemma io_main_length: "length (s_slot_of (io_main rd s)) = length (s_slot_of s)"
  by (auto simp: io_main_def load_ring_def load_block_def Let_def split: option.splits prod.splits if_splits)

lemma collect_slot:
  assumes "io_collect rd s b = (Landed, s')" "outstanding s = Some (b', i)" "b < length (s_slot_of s)"
    "stream_reserved s"
  shows "s_slot_of s' ! b = Some i" "s_ring s' = s_ring s" "outstanding s' = None"
proof -
  obtain io where io: "s_io s = Some io" "io_busy io \<or> io_done io" "io_block io = b" "io_slot io = i"
    using assms(1,2) by (auto simp: io_collect_def outstanding_def split: option.splits if_splits)
  define t where "t = (if io_done io then s else io_main rd s)"
  obtain io1 where io1: "s_io t = Some io1" "\<not> io_busy io1" "io_slot io1 = i"
    using io io_main_io_fields [OF io(1), of rd] assms(4)
    by (cases "io_done io") (auto simp: t_def stream_reserved_def)
  have s': "s' = (t\<lparr>s_block_of := (s_block_of t)[i := Some b], s_slot_of := (s_slot_of t)[b := Some i],
      s_misses := s_misses t + 1\<rparr>)\<lparr>s_io := Some (io1\<lparr>io_done := False\<rparr>)\<rparr>"
    using assms(1) io io1 by (auto simp: io_collect_def Let_def t_def [symmetric] split: if_splits)
  have "length (s_slot_of t) = length (s_slot_of s)" "s_ring t = s_ring s"
    by (simp_all add: t_def io_main_length io_main_ring)
  then show "s_slot_of s' ! b = Some i" "s_ring s' = s_ring s" "outstanding s' = None"
    using io1 assms(3) by (simp_all add: s' outstanding_def)
qed

lemma load_ring_ring: "load_ring rd s b i = (ok, s') \<Longrightarrow> s_ring s' = s_ring s"
  by (auto simp: load_ring_def load_block_def Let_def split: if_splits)

lemma ready_get:
  assumes inv: "stream_inv img s" and rdy: "walk_ready s b" and b: "b < length (s_blk s)"
    and g: "eng_streamer_get rd s b = (Some q, s')"
  shows "\<exists>i pad. q = InRing i pad \<and> i < s_nslot s \<and> s_ring s' = (i + 1) mod s_nslot s \<and> outstanding s' = None"
proof -
  note i = invD [OF inv]
  note sh = shapeD [OF i(1)]
  have np: "\<not> b < s_npin s" using rdy by (simp add: walk_ready_def)
  show ?thesis
  proof (cases "outstanding s")
    case None
    then have "io_collect rd s b = (Nothing, s)"
      by (auto simp: io_collect_def outstanding_def split: option.splits if_splits)
    then have gr: "get_ring rd s b = (Some q, s')" using g np b by (simp add: eng_streamer_get_def)
    have nf: "find_slot (s_block_of s) b = None" using rdy by (simp add: find_slot_None walk_ready_def)
    obtain t where cl: "claim_slot s = (s_ring s, t)" by (simp add: claim_slot_eq)
    obtain ok u where ld: "load_ring rd t b (s_ring s) = (ok, u)" by fastforce
    have "s_io u = s_io s" using load_ring_geometry [OF ld] claim_slot_geometry [OF cl] by simp
    moreover have "s_ring u = (s_ring s + 1) mod s_nslot s"
      using load_ring_ring [OF ld] cl by (auto simp: claim_slot_eq)
    moreover have "q = InRing (s_ring s) (s_slot_pad u ! s_ring s)" "s_ring s' = s_ring u" "s_io s' = s_io u"
      using gr nf cl ld by (auto simp: get_ring_def split: if_splits)
    ultimately show ?thesis using sh None by (auto simp: outstanding_def)
  next
    case (Some bi)
    then obtain j where out: "outstanding s = Some (b, j)" and ring: "s_ring s = (j + 1) mod s_nslot s"
      using rdy by (auto simp: walk_ready_def split: prod.splits)
    obtain c t where c: "io_collect rd s b = (c, t)" by fastforce
    have "c \<noteq> Nothing"
      using c out by (auto simp: io_collect_def outstanding_def Let_def split: option.splits if_splits)
    then have "c = Landed" using g np b c by (cases c) (auto simp: eng_streamer_get_def)
    with collect_slot [OF c [unfolded \<open>c = Landed\<close>] out _ i(3)] b sh
    have "s_slot_of t ! b = Some j" "s_ring t = s_ring s" "outstanding t = None" by auto
    then show ?thesis
      using g np b c \<open>c = Landed\<close> ring reservedD [OF i(3) out] by (auto simp: eng_streamer_get_def)
  qed
qed

lemma io_main_other_slot:
  assumes "outstanding s = Some (b, j)" "j < s_nslot s" "i \<noteq> j"
  shows "s_arena (io_main rd s) ! i = s_arena s ! i"
proof (cases "\<exists>io. s_io s = Some io \<and> io_busy io")
  case True
  then obtain io where io: "s_io s = Some io" "io_busy io" by blast
  then have j: "io_slot io = j" using assms(1) by (simp add: outstanding_def)
  obtain ok t where ld: "load_ring rd s (io_block io) j = (ok, t)" by fastforce
  show ?thesis using io j ld load_ring_frame(4) [OF ld assms(2)] assms(3) by (simp add: io_main_def)
qed (auto simp: io_main_def split: option.splits)

lemma prefetch_other_slot:
  assumes inv: "stream_inv img s" and out: "outstanding s = None" and ring: "s_ring s = (i + 1) mod s_nslot s"
    and i: "i < s_nslot s" "2 \<le> s_nslot s"
  shows "s_arena (io_main rd (eng_streamer_prefetch s c)) ! i = s_arena s ! i"
    and "outstanding (eng_streamer_prefetch s c) = Some (c', j) \<Longrightarrow>
      c' = c \<and> j \<noteq> i \<and> s_ring (eng_streamer_prefetch s c) = (j + 1) mod s_nslot s"
proof -
  let ?s = "eng_streamer_prefetch s c"
  have ne: "s_ring s \<noteq> i"
    using ring i by (cases "i + 1 < s_nslot s") (auto simp: not_less le_Suc_eq)
  have sr: "s_ring s < s_nslot s" using shapeD [OF invD(1) [OF inv]] by simp
  show "s_arena (io_main rd ?s) ! i = s_arena s ! i"
  proof (cases "outstanding ?s")
    case None
    then have "io_main rd ?s = ?s" by (auto simp: io_main_def outstanding_def split: option.splits if_splits)
    then show ?thesis by (auto simp: eng_streamer_prefetch_def claim_slot_eq split: option.splits)
  next
    case (Some bj)
    then obtain b j where bj: "outstanding ?s = Some (b, j)" by (cases bj) auto
    then have "j = s_ring s" "s_nslot ?s = s_nslot s" "s_arena ?s = s_arena s"
      using out by (auto simp: eng_streamer_prefetch_def outstanding_def claim_slot_eq
          split: option.splits if_splits)
    then show ?thesis using io_main_other_slot [OF bj] ne sr by simp
  qed
  show "c' = c \<and> j \<noteq> i \<and> s_ring ?s = (j + 1) mod s_nslot s" if "outstanding ?s = Some (c', j)"
    using that out ne by (auto simp: eng_streamer_prefetch_def outstanding_def claim_slot_eq
        split: option.splits if_splits)
qed

section \<open>Every block is served\<close>

text \<open>The storage is complete for this streamer: no read it issues comes back short.\<close>

definition serves :: "read_fn \<Rightarrow> eng_streamer \<Rightarrow> bool" where
  "serves rd s \<longleftrightarrow> (\<forall>b < length (s_blk s). \<forall>cap.
     block_need (s_extra_bytes s) (b_nbytes (s_blk s ! b)) \<le> cap \<longrightarrow>
     rr_ret (rd (b_off (s_blk s ! b)) (b_nbytes (s_blk s ! b)) cap) = b_nbytes (s_blk s ! b))"

definition fits :: "eng_streamer \<Rightarrow> bool" where
  "fits s \<longleftrightarrow> (\<forall>b < length (s_blk s). s_npin s \<le> b \<longrightarrow>
     block_need (s_extra_bytes s) (b_nbytes (s_blk s ! b)) \<le> s_slot_bytes s)"

definition io_fine :: "eng_streamer \<Rightarrow> bool" where
  "io_fine s \<longleftrightarrow> (\<forall>io. s_io s = Some io \<longrightarrow> io_result io)"

lemma serves_geometry: "geometry s' = geometry s \<Longrightarrow> serves rd s' = serves rd s \<and> fits s' = fits s"
  by (simp add: geometry_def serves_def fits_def)

lemma load_ring_serves:
  assumes "serves rd s" "fits s" "b < length (s_blk s)" "s_npin s \<le> b" "load_ring rd s b i = (ok, s')"
  shows ok
  using assms by (auto simp: load_ring_def load_block_def serves_def fits_def Let_def split: if_splits)

lemma io_main_fine:
  assumes "io_fine s" "stream_inv img s" "serves rd s" "fits s"
  shows "io_fine (io_main rd s)"
proof (cases "s_io s")
  case (Some io)
  show ?thesis
  proof (cases "io_busy io")
    case True
    then have "outstanding s = Some (io_block io, io_slot io)" using Some by (simp add: outstanding_def)
    from reservedD [OF invD(3) [OF assms(2)] this]
    have "io_block io < length (s_blk s)" "s_npin s \<le> io_block io" by auto
    moreover obtain ok t where ld: "load_ring rd s (io_block io) (io_slot io) = (ok, t)" by fastforce
    ultimately have ok using load_ring_serves [OF assms(3,4)] by blast
    with Some True ld show ?thesis by (simp add: io_main_def io_fine_def)
  qed (use Some assms(1) in \<open>simp add: io_main_def\<close>)
qed (simp add: io_main_def io_fine_def)

lemma collect_fine:
  assumes "io_fine s" "stream_inv img s" "serves rd s" "fits s" "io_collect rd s b = (c, s')"
  shows "c \<noteq> Failed \<and> io_fine s'"
  using assms(1,5) io_main_fine [OF assms(1-4)] io_main_io_fields [of s _ rd]
  by (auto simp: io_collect_def io_fine_def Let_def split: option.splits if_splits)

lemma get_served:
  assumes fine: "io_fine s" and inv: "stream_inv img s" and sv: "serves rd s" and ft: "fits s"
    and b: "b < length (s_blk s)"
  shows "fst (eng_streamer_get rd s b) \<noteq> None \<and> io_fine (snd (eng_streamer_get rd s b))"
proof (cases "b < s_npin s")
  case True
  obtain p buf t where lb: "load_block rd s b (s_pin s ! b) (block_need (s_extra_bytes s) (b_nbytes (s_blk s ! b)))
      = (p, buf, t)" by (metis prod_cases3)
  have "p \<noteq> None" "s_io t = s_io s"
    using lb sv b by (auto simp: load_block_def serves_def Let_def split: if_splits)
  then show ?thesis
    using True b lb fine
    by (auto simp: eng_streamer_get_def get_pinned_def io_fine_def Let_def block_need_def [symmetric])
next
  case False
  obtain c t where c: "io_collect rd s b = (c, t)" by fastforce
  have cf: "c \<noteq> Failed" "io_fine t" using collect_fine [OF assms(1-4) c] by auto
  have gt: "geometry t = geometry s" using io_collect_geometry [of rd s b] c by simp
  have gr: "fst (get_ring rd t b) \<noteq> None \<and> io_fine (snd (get_ring rd t b))"
  proof (cases "find_slot (s_block_of t) b")
    case None
    obtain u where cl: "claim_slot t = (s_ring t, u)" by (simp add: claim_slot_eq)
    obtain ok v where ld: "load_ring rd u b (s_ring t) = (ok, v)" by fastforce
    have g: "geometry u = geometry s" "s_io v = s_io t"
      using claim_slot_geometry [OF cl] load_ring_geometry [OF ld] gt by auto
    have ok using load_ring_serves [OF _ _ _ _ ld] sv ft g(1) b False serves_geometry [OF g(1)]
      by (simp add: geometry_def)
    with None cl ld cf(2) g(2) show ?thesis by (simp add: get_ring_def io_fine_def)
  qed (use cf(2) in \<open>auto simp: get_ring_def io_fine_def\<close>)
  show ?thesis using False b c cf gr by (cases c) (auto simp: eng_streamer_get_def Let_def)
qed

lemma prefetch_fine: "io_fine s \<Longrightarrow> io_fine (eng_streamer_prefetch s b)"
  by (auto simp: eng_streamer_prefetch_def io_fine_def claim_slot_eq split: option.splits)

section \<open>Properties\<close>

text \<open>The reads of the file backend, as the tiers above call them.\<close>

abbreviation file_rd :: "pread_fn \<Rightarrow> pread_fn \<Rightarrow> eng_storage \<Rightarrow> read_fn" where
  "file_rd fd dfd st \<equiv> (\<lambda>off n cap. fst (file_read_aligned fd dfd st off n cap))"

lemma file_store:
  assumes "pread_sound img fd" "pread_sound img dfd"
  shows "aligned_store (file_rd fd dfd st) img"
  by unfold_locales
    (simp_all add: file_read_aligned_sound [OF assms] file_read_aligned_cap [OF assms])

lemma created_fine: "eng_streamer_create bs budget ec rc async hp env = Some s \<Longrightarrow> io_fine s"
  by (erule create_fields) (simp add: io_fine_def)

lemma created_blk: "eng_streamer_create bs budget ec rc async hp env = Some s \<Longrightarrow> s_blk s = bs"
  by (erule create_fields) simp

lemma created_fits:
  assumes "eng_streamer_create bs budget ec rc async hp env = Some s" "blocks_ok bs" "ENG_IO_ALIGN dvd ec"
  shows "fits s"
  using assms(1)
proof (rule create_fields)
  fix rs ring np sp want ls
  assume sz: "sizing 4 (s_extra_bytes s) budget want (map b_nbytes bs) (0, want, 0, 0) = (rs, ring, np, sp)"
    and ex: "s_extra_bytes s = max 0 ec" and "bs \<noteq> []"
    and s: "s = \<lparr>s_blk = bs, s_npin = np, s_nslot = ring, s_slot_bytes = rs,
          s_extra_bytes = max 0 ec, s_pin = replicate np [], s_pin_pad = replicate np 0,
          s_arena = replicate ring [], s_slot_pad = replicate ring 0,
          s_block_of = replicate ring None, s_slot_of = replicate (length bs) None,
          s_ring = 0,
          s_io = (if async \<and> ring \<ge> 2 \<and> se_thread_ok env
                  then Some \<lparr>io_busy = False, io_done = False, io_block = 0, io_slot = 0,
                             io_result = True\<rparr> else None),
          s_hits = 0, s_misses = 0, s_bytes_read = 0,
          s_pinned_bytes = sum_list (map (block_need (max 0 ec)) (take np (map b_nbytes bs))), s_mem = ls\<rparr>"
  have "sizes_ok (map b_nbytes bs)"
    using assms(2) \<open>bs \<noteq> []\<close> by (auto simp: sizes_ok_def blocks_ok_def list_all_iff)
  moreover have "0 \<le> s_extra_bytes s" "ENG_IO_ALIGN dvd s_extra_bytes s"
    using ex assms(3) by (auto simp: max_def)
  ultimately have "\<forall>i < length bs. np \<le> i \<longrightarrow> block_need (max 0 ec) (b_nbytes (bs ! i)) \<le> rs"
    using sizing_covers [OF _ _ _ sz] by (simp add: ex)
  then show ?thesis by (simp add: fits_def s)
qed

lemma created_budget:
  assumes "eng_streamer_create bs budget ec rc async hp env = Some s"
  shows "s_pinned_bytes s = sum_list (map (block_need (s_extra_bytes s) \<circ> b_nbytes) (take (s_npin s) bs)) \<and>
    s_pinned_bytes s + int (s_nslot s) * s_slot_bytes s \<le> budget \<and> 1 \<le> s_nslot s \<and> s_npin s \<le> length bs"
  using assms
proof (rule create_fields)
  fix rs ring np sp want ls
  assume want: "want = (if rc > 0 then nat rc else 2)"
    and sz: "sizing 4 (s_extra_bytes s) budget want (map b_nbytes bs) (0, want, 0, 0) = (rs, ring, np, sp)"
    and bd: "int ring * rs \<le> budget"
    and s: "s = \<lparr>s_blk = bs, s_npin = np, s_nslot = ring, s_slot_bytes = rs,
          s_extra_bytes = max 0 ec, s_pin = replicate np [], s_pin_pad = replicate np 0,
          s_arena = replicate ring [], s_slot_pad = replicate ring 0,
          s_block_of = replicate ring None, s_slot_of = replicate (length bs) None,
          s_ring = 0,
          s_io = (if async \<and> ring \<ge> 2 \<and> se_thread_ok env
                  then Some \<lparr>io_busy = False, io_done = False, io_block = 0, io_slot = 0,
                             io_result = True\<rparr> else None),
          s_hits = 0, s_misses = 0, s_bytes_read = 0,
          s_pinned_bytes = sum_list (map (block_need (max 0 ec)) (take np (map b_nbytes bs))), s_mem = ls\<rparr>"
  have "np \<le> length bs \<and> 1 \<le> ring \<and> int ring * rs + sum_list (map (block_need (s_extra_bytes s)) (take np (map b_nbytes bs))) \<le> budget"
  proof -
    have "4 = Suc 3" "1 \<le> want" using want by auto
    from sizing_facts [OF sz [unfolded this(1)] this(2)] bd show ?thesis by simp
  qed
  then show ?thesis by (simp add: s take_map add.commute)
qed

text \<open>Rounding to huge pages adds less than a page to each allocation.\<close>

lemma align_up_huge: "align_up v HUGE_PAGE \<le> v + (HUGE_PAGE - 1)"
proof -
  have h: "HUGE_PAGE = 2 ^ 21" by (simp add: HUGE_PAGE_def)
  have "align_up v HUGE_PAGE = (v + 2 ^ 21 - 1) div 2 ^ 21 * 2 ^ 21" unfolding h by (rule align_up_pow2)
  also have "\<dots> \<le> v + 2 ^ 21 - 1" by (simp add: div_times_less_eq_dividend)
  finally show ?thesis by (simp add: HUGE_PAGE_def)
qed

lemma alloc_direct_len: "alloc_direct env i b huge = Some l \<Longrightarrow> l \<le> b + (if huge then HUGE_PAGE - 1 else 0)"
  using align_up_huge [of b] by (auto simp: alloc_direct_def Let_def split: if_splits)

lemma alloc_each_len:
  "alloc_each env huge i bs = Some ls \<Longrightarrow>
    length ls = length bs \<and> sum_list ls \<le> sum_list bs + (if huge then int (length bs) * (HUGE_PAGE - 1) else 0)"
proof (induction bs arbitrary: i ls)
  case (Cons b bs)
  then obtain l ls' where l: "alloc_direct env i b huge = Some l" "alloc_each env huge (Suc i) bs = Some ls'" "ls = l # ls'"
    by (auto split: option.splits)
  from Cons.IH [OF l(2)] alloc_direct_len [OF l(1)] show ?case by (auto simp: l(3) algebra_simps)
qed simp

lemma created_memory:
  assumes "eng_streamer_create bs budget ec rc async hp env = Some s"
  shows "length (s_mem s) = s_npin s + 1 \<and>
    sum_list (s_mem s) \<le> budget + (if want_huge hp env then int (s_npin s + 1) * (HUGE_PAGE - 1) else 0)"
  using assms
proof (rule create_fields)
  fix rs ring np sp want ls
  assume al: "alloc_each env (want_huge hp env) 0 (map (block_need (s_extra_bytes s)) (take np (map b_nbytes bs)) @ [int ring * rs]) = Some ls"
    and s: "s = \<lparr>s_blk = bs, s_npin = np, s_nslot = ring, s_slot_bytes = rs,
          s_extra_bytes = max 0 ec, s_pin = replicate np [], s_pin_pad = replicate np 0,
          s_arena = replicate ring [], s_slot_pad = replicate ring 0,
          s_block_of = replicate ring None, s_slot_of = replicate (length bs) None,
          s_ring = 0,
          s_io = (if async \<and> ring \<ge> 2 \<and> se_thread_ok env
                  then Some \<lparr>io_busy = False, io_done = False, io_block = 0, io_slot = 0,
                             io_result = True\<rparr> else None),
          s_hits = 0, s_misses = 0, s_bytes_read = 0,
          s_pinned_bytes = sum_list (map (block_need (max 0 ec)) (take np (map b_nbytes bs))), s_mem = ls\<rparr>"
  from alloc_each_len [OF al] created_budget [OF assms] show ?thesis by (auto simp: s take_map split: if_splits)
qed

definition blocks_within :: "eng_block list \<Rightarrow> byte list \<Rightarrow> bool" where
  "blocks_within bs img \<longleftrightarrow> list_all (\<lambda>bk. b_off bk + b_nbytes bk \<le> int (length img)) bs"

lemma file_serves:
  assumes "pread_sound img fd" "pread_live img fd" "pread_live img dfd"
    and "blocks_ok (s_blk s)" "blocks_within (s_blk s) img" "0 \<le> s_extra_bytes s"
  shows "serves (file_rd fd dfd st) s"
  unfolding serves_def
proof (intro allI impI)
  fix b cap
  assume b: "b < length (s_blk s)" and cap: "block_need (s_extra_bytes s) (b_nbytes (s_blk s ! b)) \<le> cap"
  let ?bk = "s_blk s ! b"
  have "0 \<le> b_off ?bk" "0 \<le> b_nbytes ?bk" "b_off ?bk + b_nbytes ?bk \<le> int (length img)"
    using assms(4,5) b by (auto simp: blocks_ok_def blocks_within_def list_all_length)
  then show "rr_ret (fst (file_read_aligned fd dfd st (b_off ?bk) (b_nbytes ?bk) cap)) = b_nbytes ?bk"
    using cap assms(6) by (intro file_read_aligned_complete [OF assms(2,3) _ _ _ _ assms(1)])
      (auto simp: block_need_def)
qed

text \<open>
  An aligned read of the file backend that reports the full length has put exactly the
  requested file range at the payload offset it reports, that offset is less than one alignment
  unit, and nothing was written past the capacity of the buffer --- whichever of the direct and
  the buffered path ran, and however many short \<open>pread\<close> calls it took.
\<close>

theorem aligned_read_exact:
  assumes "pread_sound img fd" "pread_sound img dfd" "0 \<le> off" "0 < nbytes"
    and "rr_ret (fst (file_read_aligned fd dfd st off nbytes cap)) = nbytes"
  shows "rd_payload (fst (file_read_aligned fd dfd st off nbytes cap)) = slice off nbytes img \<and>
    (\<exists>p. rr_poff (fst (file_read_aligned fd dfd st off nbytes cap)) = Some p \<and> 0 \<le> p \<and> p < ENG_IO_ALIGN) \<and>
    int (length (rr_buf (fst (file_read_aligned fd dfd st off nbytes cap)))) \<le> cap"
  using file_read_aligned_sound [OF assms(1-3) less_imp_le [OF assms(4)] assms(5,4)] assms(5)
  by (auto simp: rd_payload_def)

theorem aligned_read_exact_witness:
  "rd_payload (fst (file_read_aligned (short_pread [1, 2, 3, 4, 5, 6, 7] 2) (short_pread [1, 2, 3, 4, 5, 6, 7] 3)
     \<lparr>fc_dfd = False, fc_size = 7, st_reads = 0, st_bytes_read = 0, st_direct_reads = 0\<rparr> 2 4 8))
   = [3, 4, 5, 6]"
proof -
  have "rr_ret (fst (file_read_aligned (short_pread [1, 2, 3, 4, 5, 6, 7] 2) (short_pread [1, 2, 3, 4, 5, 6, 7] 3)
     \<lparr>fc_dfd = False, fc_size = 7, st_reads = 0, st_bytes_read = 0, st_direct_reads = 0\<rparr> 2 4 8)) = 4"
    by code_simp
  from aligned_read_exact [OF short_pread_sound short_pread_sound _ _ this]
  show ?thesis by (simp add: slice_def)
qed

text \<open>
  A buffer of the size \<open>eng_storage_alloc_aligned\<close> reports is large enough for any aligned
  read of that many bytes, and then a read inside the file always delivers the full length: the
  widened window never makes the backend refuse or come back short.
\<close>

theorem aligned_read_completes:
  assumes "pread_sound img fd" "pread_live img fd" "pread_live img dfd"
    and "0 \<le> off" "off + nbytes \<le> int (length img)"
    and "eng_storage_alloc_cap nbytes = Some cap"
  shows "rr_ret (fst (file_read_aligned fd dfd st off nbytes cap)) = nbytes"
proof -
  have n: "0 \<le> nbytes" and cap: "cap = align_up (nbytes + 2 * ENG_IO_ALIGN) ENG_IO_ALIGN"
    using assms(6) by (auto simp: eng_storage_alloc_cap_def split: if_splits)
  have "align_up nbytes ENG_IO_ALIGN + ENG_IO_ALIGN \<le> cap"
    using align_up_less [of nbytes] align_up_ge [of "nbytes + 2 * ENG_IO_ALIGN"] by (simp add: cap)
  then show ?thesis
    by (rule file_read_aligned_complete [OF assms(2,3,4) n assms(5) _ assms(1)])
qed

theorem aligned_read_completes_witness:
  "rr_ret (fst (file_read_aligned (short_pread [1, 2, 3, 4, 5, 6, 7] 2) (short_pread [1, 2, 3, 4, 5, 6, 7] 3)
     \<lparr>fc_dfd = True, fc_size = 7, st_reads = 0, st_bytes_read = 0, st_direct_reads = 0\<rparr> 2 4 12288)) = 4"
proof -
  have "eng_storage_alloc_cap 4 = Some 12288" by code_simp
  from aligned_read_completes [OF short_pread_sound short_pread_live short_pread_live _ _ this]
  show ?thesis by simp
qed

text \<open>
  C29: the synchronous path.  When the streamer has no reader thread (asynchronous reads not asked for,
  only one ring slot affordable, or the thread did not start), every pointer \<open>eng_streamer_get\<close> returns
  addresses exactly the bytes the container stores for the requested block, in whatever order blocks
  are requested, hinted and missed before, whether earlier reads failed or came back in pieces, and
  through the direct as through the buffered path.
\<close>

theorem sync_stream_exact:
  assumes "pread_sound img fd" "pread_sound img dfd" "blocks_ok bs"
    and "eng_streamer_create bs budget ec rc async hp env = Some s0" "s_io s0 = None"
    and "stream_reach (file_rd fd dfd st) s0 s"
    and "eng_streamer_get (file_rd fd dfd st) s b = (Some q, s')"
  shows "block_at s' q b = slice (b_off (bs ! b)) (b_nbytes (bs ! b)) img"
proof -
  note fs = file_store [OF assms(1,2), of st]
  have "stream_inv img s"
    by (rule aligned_store.reach_stream_inv [OF fs assms(6) created_inv [OF assms(4,3)] assms(5)])
  moreover have "s_blk s = bs"
    using reach_geometry [OF assms(6)] created_blk [OF assms(4)] by (simp add: geometry_def)
  ultimately show ?thesis
    using aligned_store.stream_get_inv [OF fs _ sync_not_steals [OF reach_sync [OF assms(6,5)]] assms(7)] by simp
qed

definition demo_img :: "byte list" where
  "demo_img = [10, 11, 12, 13, 14, 15, 16, 17, 18, 19]"

definition demo_blocks :: "eng_block list" where
  "demo_blocks = [\<lparr>b_off = 1, b_nbytes = 2\<rparr>, \<lparr>b_off = 3, b_nbytes = 3\<rparr>, \<lparr>b_off = 6, b_nbytes = 2\<rparr>, \<lparr>b_off = 8, b_nbytes = 2\<rparr>]"

definition demo_rd :: read_fn where
  "demo_rd = file_rd (short_pread demo_img 2) (short_pread demo_img 2)
     \<lparr>fc_dfd = False, fc_size = 10, st_reads = 0, st_bytes_read = 0, st_direct_reads = 0\<rparr>"

text \<open>A system that grants every request, without huge pages.\<close>

definition good_env :: "bool \<Rightarrow> stream_env" where
  "good_env thread = \<lparr>se_nohuge = True, se_memalign = (\<lambda>_ _ _. True), se_thread_ok = thread\<rparr>"

definition demo_start :: eng_streamer where
  "demo_start = the (eng_streamer_create demo_blocks 16384 0 2 True (- 1) (good_env True))"

lemma demo_facts:
  "blocks_ok demo_blocks" "blocks_within demo_blocks demo_img"
  "eng_streamer_create demo_blocks 16384 0 2 True (- 1) (good_env True) = Some demo_start"
  by code_simp+

definition demo_sync :: eng_streamer where
  "demo_sync = the (eng_streamer_create demo_blocks 16384 0 2 True (- 1) (good_env False))"

theorem sync_stream_exact_witness:
  "block_at (snd (eng_streamer_get demo_rd (snd (eng_streamer_get demo_rd (snd (eng_streamer_get demo_rd demo_sync 2)) 0)) 1))
     (InRing 0 0) 1 = [13, 14, 15]"
proof -
  let ?s = "snd (eng_streamer_get demo_rd (snd (eng_streamer_get demo_rd demo_sync 2)) 0)"
  have c: "eng_streamer_create demo_blocks 16384 0 2 True (- 1) (good_env False) = Some demo_sync" "s_io demo_sync = None"
    by code_simp+
  have r: "stream_reach demo_rd demo_sync ?s" by (intro stream_reach.intros)
  have "fst (eng_streamer_get demo_rd ?s 1) = Some (InRing 0 0)" by code_simp
  then have g: "eng_streamer_get demo_rd ?s 1 = (Some (InRing 0 0), snd (eng_streamer_get demo_rd ?s 1))"
    by (metis prod.collapse)
  from sync_stream_exact [OF short_pread_sound short_pread_sound demo_facts(1) c r [unfolded demo_rd_def] g [unfolded demo_rd_def]]
  show ?thesis by (simp add: demo_rd_def slice_def demo_blocks_def demo_img_def)
qed

text \<open>
  C30: the budget split and the memory it takes.  The sizes a created streamer plans with stay within
  its budget, and there is one allocation per pinned block and one for the ring.  What is allocated stays within
  the budget too without huge pages; with them every allocation is rounded up to 2 MB, and the total
  exceeds the budget by less than 2 MB for each allocation.  When the scratch size is a whole number
  of alignment units, every block that is not pinned fits its ring slot with the scratch area and the
  widening of a direct read, however the four sizing passes ran.
\<close>

theorem streamer_split_fits:
  assumes "eng_streamer_create bs budget ec rc async hp env = Some s" "blocks_ok bs"
  shows "s_pinned_bytes s + int (s_nslot s) * s_slot_bytes s \<le> budget \<and> 1 \<le> s_nslot s \<and> s_npin s \<le> length bs \<and>
    length (s_mem s) = s_npin s + 1 \<and>
    sum_list (s_mem s) \<le> budget + (if want_huge hp env then int (s_npin s + 1) * (HUGE_PAGE - 1) else 0) \<and>
    (ENG_IO_ALIGN dvd ec \<longrightarrow> (\<forall>b < length bs. s_npin s \<le> b \<longrightarrow>
       block_need (s_extra_bytes s) (b_nbytes (bs ! b)) \<le> s_slot_bytes s))"
  using created_budget [OF assms(1)] created_memory [OF assms(1)] created_fits [OF assms] created_blk [OF assms(1)]
  by (auto simp: fits_def)

theorem streamer_split_fits_witness:
  "(\<lambda>s. s_pinned_bytes s + int (s_nslot s) * s_slot_bytes s \<le> 16384 \<and> s_npin s = 0 \<and> s_nslot s = 2 \<and>
      sum_list (s_mem s) \<le> 16384 \<and> block_need (s_extra_bytes s) 3 \<le> s_slot_bytes s) demo_start"
proof -
  have "s_npin demo_start = 0" "s_nslot demo_start = 2" "demo_blocks ! 1 = \<lparr>b_off = 3, b_nbytes = 3\<rparr>"
    "length demo_blocks = 4" "\<not> want_huge (- 1) (good_env True)"
    by code_simp+
  with streamer_split_fits [OF demo_facts(3,1)] show ?thesis by (auto dest!: spec [of _ 1])
qed

text \<open>
  Where the budget is overshot.  With huge pages, the default, the ring of a streamer with a budget
  of 16384 bytes is an allocation of 2 MB.
\<close>

theorem huge_pages_overshoot_budget:
  "map_option s_mem (eng_streamer_create demo_blocks 16384 0 2 True (- 1) ((good_env True)\<lparr>se_nohuge := False\<rparr>)) = Some [2097152]"
  by code_simp

text \<open>
  Where the sizing loop is not monotone.  With one byte of scratch and room for the larger
  block's buffer but not for a second ring slot, the loop alternates between pinning that block
  and not pinning it; it ends after its fourth pass with the block unpinned and ring slots sized
  for the smaller one.  The streamer is created, and the block can never be loaded.
\<close>

theorem sizing_can_leave_a_block_unservable:
  "map_option (\<lambda>s. (s_npin s, s_nslot s, s_slot_bytes s))
     (eng_streamer_create [\<lparr>b_off = 0, b_nbytes = 40960\<rparr>, \<lparr>b_off = 40960, b_nbytes = 24576\<rparr>] 94209 1 2 False (- 1) (good_env True))
     = Some (0, 2, 32768) \<and>
   rr_ret (fst (file_read_aligned fd dfd st 0 40960 32768)) = 0"
proof
  show "map_option (\<lambda>s. (s_npin s, s_nslot s, s_slot_bytes s))
     (eng_streamer_create [\<lparr>b_off = 0, b_nbytes = 40960\<rparr>, \<lparr>b_off = 40960, b_nbytes = 24576\<rparr>] 94209 1 2 False (- 1) (good_env True))
     = Some (0, 2, 32768)" by code_simp
  have "align_up 40960 ENG_IO_ALIGN - align_down 0 ENG_IO_ALIGN = 40960" by code_simp
  then show "rr_ret (fst (file_read_aligned fd dfd st 0 40960 32768)) = 0"
    by (simp add: file_read_aligned_def)
qed

text \<open>
  Where a prefetch is served stale.  Two ring misses while a prefetch is outstanding bring
  a two-slot ring back to the reserved slot; the third request is read into it, and collecting
  the prefetch then returns the other block's bytes without an error.
\<close>

theorem stale_prefetch_returns_wrong_block:
  "(let s = eng_streamer_prefetch demo_start 1;
        s = io_main demo_rd s;
        s = snd (eng_streamer_get demo_rd s 2);
        s = snd (eng_streamer_get demo_rd s 3);
        (p, s') = eng_streamer_get demo_rd s 1
    in map_option (\<lambda>q. take 2 (block_at s' q 1)) p)
   = Some (slice 8 2 demo_img)"
  by code_simp

end
