(* ===== verification/Planner_Props.thy ===== *)
theory Planner_Props
  imports Planner Streamer_Props
begin

text \<open>
  Properties of the memory partition and the planner, and of the planner together with the
  streamer it sizes.
\<close>

section \<open>The partition\<close>

lemma mem_plan_success:
  assumes rng: "needs_in_range budget needs" and ok: "eng_mem_plan budget needs = (0, plan, co)"
  obtains left kv ctx where "0 < budget" "reserve_of budget < budget"
    "left = budget - reserve_of budget - nd_resident needs - (nd_activations needs + nd_scratch needs)"
    "0 \<le> left" "left < 2 ^ 59" "kv_stage needs left = Inr (kv, ctx)" "nd_min_weights needs \<le> left - kv" "co = Some ctx"
    "plan = \<lparr>mp_budget = budget, mp_reserve = reserve_of budget, mp_resident = nd_resident needs,
       mp_activations = nd_activations needs, mp_scratch = nd_scratch needs, mp_kv_cache = kv, mp_weights = left - kv,
       mp_ok = True, mp_problem = None\<rparr>"
proof -
  define left where "left = budget - reserve_of budget - nd_resident needs - (nd_activations needs + nd_scratch needs)"
  have pos: "0 < budget" using ok by (auto simp: eng_mem_plan_def Let_def split: if_splits)
  have bl: "budget < 2 ^ 59" using rng by (simp add: needs_in_range_def)
  have r: "reserve_of budget < budget"
  proof (rule ccontr)
    assume "\<not> ?thesis"
    moreover have "mem_reserve budget = reserve_of budget"
      unfolding mem_reserve_def Let_def reserve_of_eq [OF pos bl] by (simp add: reserve_of_def)
    ultimately show False using ok pos by (simp add: eng_mem_plan_def Let_def empty_plan_def)
  qed
  note eqs = eng_mem_plan_eq [OF rng pos r, folded left_def]
  have nn: "0 \<le> left" using eqs(2) ok by (cases "left < 0") auto
  have "left < 2 ^ 59" using bl reserve_of_bounds [OF pos] rng by (simp add: left_def needs_in_range_def)
  with eqs(1) [OF nn] ok that [OF pos r left_def nn] show ?thesis
    by (auto simp: Let_def split: sum.splits prod.splits if_splits)
qed

text \<open>
  C14: a viable memory plan partitions the budget exactly.  Reserve, resident weights,
  activations, scratch, KV cache and weight budget are non-negative and sum to the budget; the
  reserve is at least 768 MB and 12 percent; the weights keep their minimum; and the context
  granted is the requested one, or the largest that fits.
\<close>

theorem mem_plan_partition:
  assumes "needs_in_range budget needs" "eng_mem_plan budget needs = (0, plan, co)"
  shows "mp_reserve plan + mp_resident plan + mp_activations plan + mp_scratch plan + mp_kv_cache plan
        + mp_weights plan = budget \<and>
    0 \<le> mp_kv_cache plan \<and> nd_min_weights needs \<le> mp_weights plan \<and>
    768 * 2 ^ 20 \<le> mp_reserve plan \<and> budget * 12 div 100 \<le> mp_reserve plan \<and>
    (\<exists>ctx. co = Some ctx \<and> ctx \<le> nd_context needs \<and>
      (0 < nd_kv_per_pos needs \<and> 0 < nd_context needs \<longrightarrow>
         1 \<le> ctx \<and> mp_kv_cache plan = ctx * nd_kv_per_pos needs) \<and>
      (ctx = nd_context needs \<or> ctx = 2 ^ 30 \<or>
       mp_kv_cache plan + nd_kv_per_pos needs + nd_min_weights needs > mp_kv_cache plan + mp_weights plan))"
proof (rule mem_plan_success [OF assms])
  fix left kv ctx
  assume left: "left = budget - reserve_of budget - nd_resident needs - (nd_activations needs + nd_scratch needs)"
    and nn: "0 \<le> left" "left < 2 ^ 59" and k: "kv_stage needs left = Inr (kv, ctx)"
    and mw: "nd_min_weights needs \<le> left - kv" and co: "co = Some ctx"
    and plan: "plan = \<lparr>mp_budget = budget, mp_reserve = reserve_of budget, mp_resident = nd_resident needs,
       mp_activations = nd_activations needs, mp_scratch = nd_scratch needs, mp_kv_cache = kv, mp_weights = left - kv,
       mp_ok = True, mp_problem = None\<rparr>"
  have spec: "kv = (if nd_kv_per_pos needs > 0 \<and> nd_context needs > 0 then ctx * nd_kv_per_pos needs else 0)"
    "ctx \<le> nd_context needs" "nd_kv_per_pos needs > 0 \<and> nd_context needs > 0 \<longrightarrow> 1 \<le> ctx"
    "ctx = nd_context needs \<or> ctx = 2 ^ 30 \<or> (ctx + 1) * nd_kv_per_pos needs + nd_min_weights needs > left"
    using kv_stage_spec [OF assms(1) nn] k by auto
  have "0 \<le> kv" using spec(1,3) by auto
  moreover have "ctx = nd_context needs \<or> ctx = 2 ^ 30 \<or> kv + nd_kv_per_pos needs + nd_min_weights needs > left"
  proof (cases "nd_kv_per_pos needs > 0 \<and> nd_context needs > 0")
    case True
    then have "(ctx + 1) * nd_kv_per_pos needs = kv + nd_kv_per_pos needs" using spec(1) by (simp add: distrib_right)
    then show ?thesis using spec(4) by auto
  next
    case False
    then have "ctx = nd_context needs" using k by (auto simp: kv_stage_def)
    then show ?thesis by simp
  qed
  ultimately show ?thesis
    using spec mw co by (auto simp: plan left reserve_of_def)
qed

theorem mem_plan_partition_witness:
  "\<exists>plan co. eng_mem_plan 2000000000 \<lparr>nd_resident = 100000000, nd_activations = 1000000, nd_scratch = 2000000,
       nd_kv_per_pos = 147456, nd_context = 40960, nd_min_weights = 120000000\<rparr> = (0, plan, co) \<and>
     mp_reserve plan + mp_resident plan + mp_activations plan + mp_scratch plan + mp_kv_cache plan
        + mp_weights plan = 2000000000 \<and> co = Some 6589"
proof -
  let ?n = "\<lparr>nd_resident = 100000000, nd_activations = 1000000, nd_scratch = 2000000,
       nd_kv_per_pos = 147456, nd_context = 40960, nd_min_weights = 120000000\<rparr>"
  have r: "needs_in_range 2000000000 ?n" by code_simp
  have v: "fst (eng_mem_plan 2000000000 ?n) = 0 \<and> snd (snd (eng_mem_plan 2000000000 ?n)) = Some 6589" by code_simp
  then have e: "eng_mem_plan 2000000000 ?n = (0, fst (snd (eng_mem_plan 2000000000 ?n)), Some 6589)"
    by (metis prod.collapse)
  from mem_plan_partition [OF r e] e show ?thesis by blast
qed

text \<open>
  The planner refuses exactly the budgets that cannot work: a plan is viable if and only if
  the budget exceeds its reserve and covers the reserve, the non-streaming weights, activations,
  scratch, the minimal weight budget and, when a context is wanted, one KV position.
\<close>

theorem mem_plan_viable_iff:
  assumes "needs_in_range budget needs"
  shows "fst (eng_mem_plan budget needs) = 0 \<longleftrightarrow>
    0 < budget \<and> reserve_of budget < budget \<and> fixed_cost budget needs \<le> budget"
proof
  assume "fst (eng_mem_plan budget needs) = 0"
  then obtain plan co where "eng_mem_plan budget needs = (0, plan, co)" by (metis prod.collapse)
  then show "0 < budget \<and> reserve_of budget < budget \<and> fixed_cost budget needs \<le> budget"
  proof (rule mem_plan_success [OF assms])
    fix left kv ctx
    assume a: "0 < budget" "reserve_of budget < budget"
      and left: "left = budget - reserve_of budget - nd_resident needs - (nd_activations needs + nd_scratch needs)"
      and nn: "0 \<le> left" "left < 2 ^ 59" and k: "kv_stage needs left = Inr (kv, ctx)"
      and mw: "nd_min_weights needs \<le> left - kv"
    have spec: "kv = (if nd_kv_per_pos needs > 0 \<and> nd_context needs > 0 then ctx * nd_kv_per_pos needs else 0)"
      "nd_kv_per_pos needs > 0 \<and> nd_context needs > 0 \<longrightarrow> 1 \<le> ctx"
      using kv_stage_spec [OF assms nn] k by auto
    have "(if nd_kv_per_pos needs > 0 \<and> nd_context needs > 0 then nd_kv_per_pos needs else 0) \<le> kv"
      using spec mult_right_mono [of 1 ctx "nd_kv_per_pos needs"] by auto
    then show ?thesis using a mw unfolding left fixed_cost_def by linarith
  qed
next
  assume a: "0 < budget \<and> reserve_of budget < budget \<and> fixed_cost budget needs \<le> budget"
  define left where "left = budget - reserve_of budget - nd_resident needs - (nd_activations needs + nd_scratch needs)"
  have fc: "nd_min_weights needs + (if nd_kv_per_pos needs > 0 \<and> nd_context needs > 0 then nd_kv_per_pos needs else 0) \<le> left"
    using a by (simp add: fixed_cost_def left_def)
  have rg: "0 \<le> nd_min_weights needs" "0 \<le> nd_kv_per_pos needs" "budget < 2 ^ 59" "0 \<le> nd_resident needs"
    "0 \<le> nd_activations needs" "0 \<le> nd_scratch needs"
    using assms by (auto simp: needs_in_range_def)
  have nn: "0 \<le> left" using fc rg by (auto split: if_splits)
  have lb: "left < 2 ^ 59" using rg reserve_of_bounds [of budget] a by (simp add: left_def)
  note spec = kv_stage_spec [OF assms nn lb]
  obtain kv ctx where k: "kv_stage needs left = Inr (kv, ctx)"
    using spec fc by (auto split: sum.splits)
  then have "nd_min_weights needs \<le> left - kv"
    using spec fc by (auto split: if_splits)
  then show "fst (eng_mem_plan budget needs) = 0"
    using eng_mem_plan_eq(1) [OF assms _ _ nn [unfolded left_def]] a k by (simp add: Let_def left_def [symmetric])
qed

theorem mem_plan_viable_iff_witness:
  "fst (eng_mem_plan 2000000000 \<lparr>nd_resident = 1900000000, nd_activations = 1000000, nd_scratch = 2000000,
       nd_kv_per_pos = 147456, nd_context = 40960, nd_min_weights = 120000000\<rparr>) \<noteq> 0"
proof -
  let ?n = "\<lparr>nd_resident = 1900000000, nd_activations = 1000000, nd_scratch = 2000000,
       nd_kv_per_pos = 147456, nd_context = 40960, nd_min_weights = 120000000\<rparr>"
  have r: "needs_in_range 2000000000 ?n" "\<not> fixed_cost 2000000000 ?n \<le> 2000000000" by code_simp+
  from mem_plan_viable_iff [OF r(1)] r(2) show ?thesis by simp
qed

text \<open>
  The automatic budget never endangers the rest of the system: it is non-negative, and
  when positive it leaves exactly the larger of 1 GB and a fifth of the available memory.
\<close>

theorem auto_budget_leaves_headroom:
  assumes "0 < ram_available" "ram_available < 2 ^ 62"
  shows "eng_mem_auto_budget ram_available ram_total
    = max 0 (ram_available - max (ram_available div 5) (2 ^ 30))"
proof -
  have "in_i64 (ram_available - max (ram_available div 5) (2 ^ 30))"
    using assms pos_imp_zdiv_nonneg_iff [of 5 ram_available] by (auto simp: in_i64_def max_def)
  then have "i64 (ram_available - max (ram_available div 5) (2 ^ 30))
      = ram_available - max (ram_available div 5) (2 ^ 30)" by simp
  then show ?thesis
    using assms by (auto simp: eng_mem_auto_budget_def Let_def max_def split: if_splits)
qed

theorem auto_budget_leaves_headroom_witness:
  "eng_mem_auto_budget 8000000000 16000000000 = 6400000000"
  using auto_budget_leaves_headroom [of 8000000000 16000000000] by simp

section \<open>The planner\<close>

lemma note_plan_fields [simp]:
  "pl_memory_budget (note_plan n p) = pl_memory_budget p" "pl_threads (note_plan n p) = pl_threads p"
  "pl_context (note_plan n p) = pl_context p" "pl_streaming (note_plan n p) = pl_streaming p"
  "pl_stream_budget (note_plan n p) = pl_stream_budget p" "pl_cache_budget (note_plan n p) = pl_cache_budget p"
  "pl_mem (note_plan n p) = pl_mem p" "pl_ok (note_plan n p) = pl_ok p" "pl_problem (note_plan n p) = pl_problem p"
  "pl_predicted_stream_hit_rate (note_plan n p) = pl_predicted_stream_hit_rate p"
  "pl_prefetch_depth (note_plan n p) = pl_prefetch_depth p"
  by (simp_all add: note_plan_def)

lemma closing_notes_fields [simp]:
  "pl_memory_budget (closing_notes hw m p) = pl_memory_budget p" "pl_threads (closing_notes hw m p) = pl_threads p"
  "pl_context (closing_notes hw m p) = pl_context p" "pl_streaming (closing_notes hw m p) = pl_streaming p"
  "pl_stream_budget (closing_notes hw m p) = pl_stream_budget p" "pl_cache_budget (closing_notes hw m p) = pl_cache_budget p"
  "pl_mem (closing_notes hw m p) = pl_mem p"
  "pl_predicted_stream_hit_rate (closing_notes hw m p) = pl_predicted_stream_hit_rate p"
  by (simp_all add: closing_notes_def Let_def)

lemma predict_hits_fields [simp]:
  "pl_memory_budget (predict_hits m p) = pl_memory_budget p" "pl_threads (predict_hits m p) = pl_threads p"
  "pl_context (predict_hits m p) = pl_context p" "pl_streaming (predict_hits m p) = pl_streaming p"
  "pl_stream_budget (predict_hits m p) = pl_stream_budget p" "pl_cache_budget (predict_hits m p) = pl_cache_budget p"
  "pl_mem (predict_hits m p) = pl_mem p"
  by (simp_all add: predict_hits_def Let_def)

lemma split_weights_fields [simp]:
  "pl_memory_budget (split_weights m w p) = pl_memory_budget p" "pl_threads (split_weights m w p) = pl_threads p"
  "pl_context (split_weights m w p) = pl_context p" "pl_streaming (split_weights m w p) = pl_streaming p"
  "pl_mem (split_weights m w p) = pl_mem p"
  by (simp_all add: split_weights_def Let_def)

lemma want_context_fields:
  "want_context m req p = (c, p') \<Longrightarrow> pl_memory_budget p' = pl_memory_budget p \<and> pl_threads p' = pl_threads p"
  by (auto simp: want_context_def Let_def split: if_splits)

lemma choose_threads_fields:
  "choose_threads hw m p = (t, p') \<Longrightarrow> pl_memory_budget p' = pl_memory_budget p \<and> 1 \<le> t"
  by (auto simp: choose_threads_def Let_def split: if_splits)

lemma plan_threads_fields:
  "pl_memory_budget (plan_threads hw m req p) = pl_memory_budget p" "1 \<le> pl_threads (plan_threads hw m req p)"
  by (auto simp: plan_threads_def Let_def dest!: choose_threads_fields split: prod.splits if_splits)

text \<open>The shape of every successful plan.\<close>

lemma eng_plan_success:
  assumes "eng_plan hw m (Some req) = (0, plan)"
  obtains nctx mem co p0 where "nctx = fst (want_context m req (plan_threads hw m req (plan_budget hw req)))"
    "pl_memory_budget plan = pl_memory_budget (plan_budget hw req)" "0 < pl_memory_budget plan"
    "eng_mem_plan (pl_memory_budget plan) (facts_needs m nctx) = (0, mem, co)"
    "pl_context plan = (case co of None \<Rightarrow> nctx | Some c \<Rightarrow> c)" "pl_mem plan = mem" "1 \<le> pl_threads plan"
    "plan_place hw m req (mp_weights mem) p0 = (0, plan)"
proof -
  define p1 where "p1 = plan_threads hw m req (plan_budget hw req)"
  obtain nctx p2 where w: "want_context m req p1 = (nctx, p2)" by fastforce
  obtain rc mem co where e: "eng_mem_plan (pl_memory_budget p2) (facts_needs m nctx) = (rc, mem, co)"
    by (metis prod_cases3)
  define p3 where "p3 = p2\<lparr>pl_mem := mem, pl_context := (case co of None \<Rightarrow> nctx | Some c \<Rightarrow> c)\<rparr>"
  define p4 where "p4 = (if nctx > 0 \<and> (case co of None \<Rightarrow> nctx | Some c \<Rightarrow> c) < nctx
    then note_plan (NoteContextReduced nctx (case co of None \<Rightarrow> nctx | Some c \<Rightarrow> c)) p3 else p3)"
  have pos: "0 < pl_memory_budget (plan_budget hw req)" and rc: "rc = 0"
    and place: "plan_place hw m req (mp_weights mem) p4 = (0, plan)"
    using assms w e
    by (auto simp: eng_plan_def Let_def p1_def [symmetric] p3_def [symmetric] p4_def split: if_splits)
  have f2: "pl_memory_budget p2 = pl_memory_budget (plan_budget hw req)" "1 \<le> pl_threads p2"
    using want_context_fields [OF w] plan_threads_fields by (auto simp: p1_def)
  have "pl_memory_budget plan = pl_memory_budget p4" "pl_context plan = pl_context p4"
    "pl_mem plan = pl_mem p4" "pl_threads plan = pl_threads p4"
    using place by (auto simp: plan_place_def Let_def split: if_splits)
  moreover have "pl_memory_budget p4 = pl_memory_budget p2" "pl_threads p4 = pl_threads p2" "pl_mem p4 = mem"
    "pl_context p4 = (case co of None \<Rightarrow> nctx | Some c \<Rightarrow> c)"
    by (simp_all add: p4_def p3_def)
  ultimately show ?thesis
    using that [of nctx mem co p4] w e rc place pos f2 by (auto simp: p1_def)
qed

definition facts_in_range :: "int \<Rightarrow> eng_model_facts \<Rightarrow> bool" where
  "facts_in_range budget m \<longleftrightarrow>
     budget < 2 ^ 59 \<and> 0 \<le> mf_resident_bytes m \<and>
     0 \<le> mf_activation_bytes m \<and> mf_activation_bytes m < 2 ^ 61 \<and>
     0 \<le> mf_scratch_bytes m \<and> mf_scratch_bytes m < 2 ^ 61 \<and>
     0 \<le> mf_kv_bytes_per_pos m \<and> mf_kv_bytes_per_pos m \<le> 2 ^ 32 \<and> 0 \<le> mf_max_layer_bytes m \<and> mf_max_layer_bytes m < 2 ^ 60 \<and>
     0 \<le> mf_avg_layer_bytes m \<and> mf_avg_layer_bytes m < 2 ^ 60 \<and>
     mf_resident_bytes m \<le> mf_total_weight_bytes m \<and> mf_total_weight_bytes m < 2 ^ 62 \<and>
     0 \<le> mf_topk m \<and> 0 \<le> mf_expert_bytes m \<and> (mf_topk m + 1) * mf_expert_bytes m < 2 ^ 61"

lemma want_context_bounds:
  assumes "0 \<le> rq_context req" "rq_context req < 2 ^ 31"
  shows "0 < fst (want_context m req p)" "fst (want_context m req p) < 2 ^ 31"
    "0 < rq_context req \<Longrightarrow> fst (want_context m req p) = rq_context req"
    "rq_context req = 0 \<Longrightarrow> fst (want_context m req p) \<le> ENG_DEFAULT_CONTEXT"
  using assms by (auto simp: want_context_def Let_def ENG_DEFAULT_CONTEXT_def)

lemma facts_needs_in_range:
  assumes "facts_in_range budget m" "0 \<le> c" "c < 2 ^ 31"
  shows "needs_in_range budget (facts_needs m c)"
proof -
  have "c * mf_kv_bytes_per_pos m \<le> c * 2 ^ 32"
    using assms by (intro mult_left_mono) (auto simp: facts_in_range_def)
  also have "\<dots> < 2 ^ 31 * 2 ^ 32" using assms(3) by simp
  finally show ?thesis using assms by (auto simp: needs_in_range_def facts_needs_def facts_in_range_def)
qed

lemma split_weights_sum:
  assumes "0 \<le> w" "w < 2 ^ 62" "0 \<le> mf_topk m" "0 \<le> mf_expert_bytes m"
    "(mf_topk m + 1) * mf_expert_bytes m < 2 ^ 61" "0 \<le> mf_max_layer_bytes m" "mf_max_layer_bytes m < 2 ^ 60"
  shows "pl_stream_budget (split_weights m w p) + pl_cache_budget (split_weights m w p) = w"
    "0 \<le> pl_stream_budget (split_weights m w p)" "0 \<le> pl_cache_budget (split_weights m w p)"
proof -
  define cm where "cm = (mf_topk m + 1) * mf_expert_bytes m"
  have cm: "0 \<le> cm" "cm < 2 ^ 61" using assms by (auto simp: cm_def)
  have i1: "i64 cm = cm" "i64 (cm + mf_max_layer_bytes m * 2) = cm + mf_max_layer_bytes m * 2"
    using assms cm by (auto intro!: i64_id simp: in_i64_def)
  have i2: "i64 (w - cm) = w - cm" using assms cm by (intro i64_id) (simp add: in_i64_def)
  have "0 \<le> w div 2" "w div 2 \<le> w" using assms by auto
  then have i3: "i64 (w - w div 2) = w - w div 2" using assms by (intro i64_id) (simp add: in_i64_def)
  show "pl_stream_budget (split_weights m w p) + pl_cache_budget (split_weights m w p) = w"
    "0 \<le> pl_stream_budget (split_weights m w p)" "0 \<le> pl_cache_budget (split_weights m w p)"
    using assms i1 i2 i3 cm unfolding split_weights_def cm_def [symmetric] by (auto simp: Let_def)
qed

lemma mem_plan_ok_facts:
  assumes "needs_in_range budget needs" "eng_mem_plan budget needs = (0, plan, co)"
  shows "mp_reserve plan + mp_resident plan + mp_activations plan + mp_scratch plan + mp_kv_cache plan
        + mp_weights plan = budget"
    "nd_min_weights needs \<le> mp_weights plan" "mp_weights plan < 2 ^ 59"
    "\<exists>ctx. co = Some ctx \<and> ctx \<le> nd_context needs"
proof -
  have "mp_reserve plan + mp_resident plan + mp_activations plan + mp_scratch plan + mp_kv_cache plan
        + mp_weights plan = budget \<and> nd_min_weights needs \<le> mp_weights plan \<and> mp_weights plan < 2 ^ 59 \<and>
    (\<exists>ctx. co = Some ctx \<and> ctx \<le> nd_context needs)"
  proof (rule mem_plan_success [OF assms])
    fix left kv ctx
    assume left: "left = budget - reserve_of budget - nd_resident needs - (nd_activations needs + nd_scratch needs)"
      and nn: "0 \<le> left" "left < 2 ^ 59" and k: "kv_stage needs left = Inr (kv, ctx)"
      and mw: "nd_min_weights needs \<le> left - kv" and co: "co = Some ctx"
      and plan: "plan = \<lparr>mp_budget = budget, mp_reserve = reserve_of budget, mp_resident = nd_resident needs,
       mp_activations = nd_activations needs, mp_scratch = nd_scratch needs, mp_kv_cache = kv, mp_weights = left - kv,
       mp_ok = True, mp_problem = None\<rparr>"
    have "0 \<le> kv" "ctx \<le> nd_context needs" using kv_stage_spec [OF assms(1) nn] k by auto
    then show ?thesis using mw co nn by (auto simp: plan left)
  qed
  then show "mp_reserve plan + mp_resident plan + mp_activations plan + mp_scratch plan + mp_kv_cache plan
        + mp_weights plan = budget"
    "nd_min_weights needs \<le> mp_weights plan" "mp_weights plan < 2 ^ 59"
    "\<exists>ctx. co = Some ctx \<and> ctx \<le> nd_context needs" by auto
qed

text \<open>
  A viable execution plan spends exactly its budget.  Reserve, resident weights,
  activations, scratch, KV cache, stream budget and cache budget sum to the memory budget, none
  is negative, at least one thread runs, and weights stream exactly when that was forced or they
  do not fit.
\<close>

theorem plan_spends_exactly_the_budget:
  assumes "eng_plan hw m (Some req) = (0, plan)" "facts_in_range (pl_memory_budget plan) m"
    and "0 \<le> rq_context req" "rq_context req < 2 ^ 31"
  shows "mp_reserve (pl_mem plan) + mp_resident (pl_mem plan) + mp_activations (pl_mem plan)
      + mp_scratch (pl_mem plan) + mp_kv_cache (pl_mem plan) + pl_stream_budget plan + pl_cache_budget plan
      = pl_memory_budget plan \<and>
    0 \<le> pl_stream_budget plan \<and> 0 \<le> pl_cache_budget plan \<and> 1 \<le> pl_threads plan \<and>
    pl_streaming plan = (rq_force_stream req = 1 \<or>
      mp_weights (pl_mem plan) < mf_total_weight_bytes m - mf_resident_bytes m) \<and>
    (pl_streaming plan \<longrightarrow> rq_force_stream req \<noteq> 0) \<and>
    (0 < rq_context req \<longrightarrow> pl_context plan \<le> rq_context req) \<and>
    (rq_context req = 0 \<longrightarrow> pl_context plan \<le> ENG_DEFAULT_CONTEXT)"
  using assms(1)
proof (rule eng_plan_success)
  fix nctx mem co p0
  assume n: "nctx = fst (want_context m req (plan_threads hw m req (plan_budget hw req)))"
    and e: "eng_mem_plan (pl_memory_budget plan) (facts_needs m nctx) = (0, mem, co)"
    and c: "pl_context plan = (case co of None \<Rightarrow> nctx | Some c \<Rightarrow> c)" and pm: "pl_mem plan = mem"
    and t: "1 \<le> pl_threads plan" and pl: "plan_place hw m req (mp_weights mem) p0 = (0, plan)"
  note wb = want_context_bounds [OF assms(3,4), of m "plan_threads hw m req (plan_budget hw req)", folded n]
  have nr: "0 < nctx" "nctx < 2 ^ 31" using wb by auto
  have rng: "needs_in_range (pl_memory_budget plan) (facts_needs m nctx)"
    using facts_needs_in_range [OF assms(2)] nr by simp
  note mf = mem_plan_ok_facts [OF rng e]
  have r: "0 \<le> mf_resident_bytes m" "mf_resident_bytes m \<le> mf_total_weight_bytes m" "mf_total_weight_bytes m < 2 ^ 62"
    "0 \<le> mf_topk m" "0 \<le> mf_expert_bytes m" "(mf_topk m + 1) * mf_expert_bytes m < 2 ^ 61"
    "0 \<le> mf_max_layer_bytes m" "mf_max_layer_bytes m < 2 ^ 60" "0 \<le> mf_avg_layer_bytes m"
    using assms(2) by (auto simp: facts_in_range_def)
  have "0 \<le> nd_min_weights (facts_needs m nctx)" using r by (simp add: facts_needs_def)
  then have w0: "0 \<le> mp_weights mem" "mp_weights mem < 2 ^ 62" using mf(2,3) by auto
  define sb where "sb = mf_total_weight_bytes m - mf_resident_bytes m"
  have isb: "i64 sb = sb" "0 \<le> sb" "sb < 2 ^ 62" using r by (auto simp: sb_def in_i64_def)
  have iw: "i64 (mp_weights mem - sb) = mp_weights mem - sb" using w0 isb by (intro i64_id) (simp add: in_i64_def)
  note sw = split_weights_sum [OF w0 r(4-8)]
  have st: "pl_streaming plan = (rq_force_stream req = 1 \<or> mp_weights mem < sb)"
    "pl_streaming plan \<longrightarrow> rq_force_stream req \<noteq> 0"
    using pl isb unfolding plan_place_def sb_def [symmetric] by (auto simp: Let_def split: if_splits)
  have split: "pl_stream_budget plan + pl_cache_budget plan = mp_weights mem"
    "0 \<le> pl_stream_budget plan" "0 \<le> pl_cache_budget plan"
    using pl isb iw sw unfolding plan_place_def sb_def [symmetric] by (auto simp: Let_def split: if_splits)
  have "pl_context plan \<le> nctx" using mf(4) c by (auto simp: facts_needs_def)
  then have ctx: "0 < rq_context req \<longrightarrow> pl_context plan \<le> rq_context req"
    "rq_context req = 0 \<longrightarrow> pl_context plan \<le> ENG_DEFAULT_CONTEXT"
    using wb(3,4) by auto
  show ?thesis using mf(1) split st ctx t pm by (auto simp: sb_def)
qed

theorem plan_spends_exactly_the_budget_witness:
  "\<exists>plan. eng_plan \<lparr>hw_cores_physical = 2, hw_cores_logical = 4, hw_isa = 4, hw_isa_built = 4,
        hw_ram_total = 8000000000, hw_ram_available = 6000000000, hw_storage = ENG_STORE_SSD, hw_storage_free = 0\<rparr>
      \<lparr>mf_n_layers = 36, mf_total_weight_bytes = 5000000000, mf_resident_bytes = 300000000,
        mf_max_layer_bytes = 120000000, mf_avg_layer_bytes = 110000000, mf_activation_bytes = 1000000,
        mf_scratch_bytes = 2000000, mf_kv_bytes_per_pos = 147456, mf_context_max = 40960, mf_n_experts = 0,
        mf_topk = 0, mf_expert_bytes = 0, mf_bytes_per_weight = 1 / 2\<rparr> (Some eng_plan_request_init) = (0, plan) \<and>
      mp_reserve (pl_mem plan) + mp_resident (pl_mem plan) + mp_activations (pl_mem plan)
      + mp_scratch (pl_mem plan) + mp_kv_cache (pl_mem plan) + pl_stream_budget plan + pl_cache_budget plan
      = 4800000000 \<and> pl_streaming plan"
proof -
  define hw where "hw = \<lparr>hw_cores_physical = 2, hw_cores_logical = 4, hw_isa = 4, hw_isa_built = 4,
        hw_ram_total = 8000000000, hw_ram_available = 6000000000, hw_storage = ENG_STORE_SSD, hw_storage_free = 0\<rparr>"
  define m where "m = \<lparr>mf_n_layers = 36, mf_total_weight_bytes = 5000000000, mf_resident_bytes = 300000000,
        mf_max_layer_bytes = 120000000, mf_avg_layer_bytes = 110000000, mf_activation_bytes = 1000000,
        mf_scratch_bytes = 2000000, mf_kv_bytes_per_pos = 147456, mf_context_max = 40960, mf_n_experts = 0,
        mf_topk = 0, mf_expert_bytes = 0, mf_bytes_per_weight = 1 / 2\<rparr>"
  have "fst (eng_plan hw m (Some eng_plan_request_init)) = 0 \<and>
    pl_memory_budget (snd (eng_plan hw m (Some eng_plan_request_init))) = 4800000000 \<and>
    pl_streaming (snd (eng_plan hw m (Some eng_plan_request_init))) \<and>
    facts_in_range (pl_memory_budget (snd (eng_plan hw m (Some eng_plan_request_init)))) m"
    unfolding hw_def m_def by code_simp
  then have e: "eng_plan hw m (Some eng_plan_request_init) = (0, snd (eng_plan hw m (Some eng_plan_request_init)))"
    and f: "facts_in_range (pl_memory_budget (snd (eng_plan hw m (Some eng_plan_request_init)))) m"
    and b: "pl_memory_budget (snd (eng_plan hw m (Some eng_plan_request_init))) = 4800000000"
    and s: "pl_streaming (snd (eng_plan hw m (Some eng_plan_request_init)))"
    by (metis prod.collapse)+
  from plan_spends_exactly_the_budget [OF e f] e b s show ?thesis
    unfolding hw_def [symmetric] m_def [symmetric] by (auto simp: eng_plan_request_init_def)
qed

section \<open>The planner and the streamer\<close>

lemma ring_fit_fits: "rs \<le> budget \<Longrightarrow> 1 \<le> ring \<Longrightarrow> int (ring_fit ring rs budget) * rs \<le> budget"
  by (induction ring rs budget rule: ring_fit.induct) (subst ring_fit.simps, auto)

lemma biggest_le:
  assumes "sizes_ok nbs" "\<forall>n \<in> set nbs. n \<le> mx"
  shows "biggest nbs np \<le> mx"
  using biggest_source [OF assms(1), of np] assms(2) by (metis nth_mem)

lemma pass_fits:
  assumes "sizes_ok nbs" "\<forall>n \<in> set nbs. n \<le> mx" "block_need 0 mx \<le> budget" "1 \<le> want"
    and "size_pass 0 budget want nbs p = (rs, ring, np, sp)"
  shows "0 < rs \<and> int ring * rs \<le> budget"
proof -
  have rs: "rs = block_need 0 (biggest nbs p)" "ring = ring_fit want rs budget"
    using assms(5) by (auto simp: size_pass_def ring_slot_for_aligned Let_def split: prod.splits)
  have "rs \<le> budget" using block_need_mono [OF biggest_le [OF assms(1,2), of p], of 0] rs(1) assms(3) by simp
  moreover have "0 \<le> biggest nbs p"
    using biggest_source [OF assms(1), of p] assms(1) unfolding sizes_ok_def by (metis nth_mem)
  ultimately show ?thesis
    using ring_fit_fits [OF _ assms(4)] rs block_need_pos [of 0 "biggest nbs p"] by simp
qed

lemma sizing_ring_fits:
  assumes "sizes_ok nbs" "\<forall>n \<in> set nbs. n \<le> mx" "block_need 0 mx \<le> budget" "1 \<le> want"
    and "sizing (Suc n) 0 budget want nbs (r0, g0, p0, s0) = (rs, ring, np, sp)"
  shows "0 < rs \<and> int ring * rs \<le> budget"
  using assms(5)
proof (induction n arbitrary: r0 g0 p0 s0)
  case (Suc n)
  obtain a b c d where p: "size_pass 0 budget want nbs p0 = (a, b, c, d)" using prod_cases4 by blast
  show ?case
  proof (cases "a = r0 \<and> c = p0")
    case False
    then have "sizing (Suc (Suc n)) 0 budget want nbs (r0, g0, p0, s0) = sizing (Suc n) 0 budget want nbs (a, b, c, d)"
      using p by (subst sizing.simps(2)) (auto simp del: sizing.simps)
    then show ?thesis using Suc.IH Suc.prems by simp
  next
    case True
    then have "(rs, ring, np, sp) = (a, b, c, d)" using Suc.prems p by simp
    then show ?thesis using p pass_fits [OF assms(1-4)] by blast
  qed
next
  case 0
  obtain a b c d where p: "size_pass 0 budget want nbs p0 = (a, b, c, d)" using prod_cases4 by blast
  then have "(rs, ring, np, sp) = (a, b, c, d)" using 0 by (auto split: if_splits)
  then show ?case using p pass_fits [OF assms(1-4)] by blast
qed

lemma alloc_each_granted: "\<forall>i al len. se_memalign env i al len \<Longrightarrow> \<exists>ls. alloc_each env huge i bs = Some ls"
  by (induction bs arbitrary: i) (force simp: alloc_direct_def Let_def)+

text \<open>
  A stream budget that holds one aligned ring slot for the largest layer is enough: the
  streamer is created, for every ring length asked for, on a system that grants its allocations.
\<close>

theorem streamer_created_when_one_slot_fits:
  assumes "bs \<noteq> []" "blocks_ok bs" "list_all (\<lambda>bk. b_nbytes bk \<le> mx) bs" "block_need 0 mx \<le> budget"
    and "\<forall>i al len. se_memalign env i al len"
  shows "eng_streamer_create bs budget 0 rc async hp env \<noteq> None"
proof -
  define want where "want = (if rc > 0 then nat rc else 2)"
  obtain rs ring np sp where sz: "sizing 4 0 budget want (map b_nbytes bs) (0, want, 0, 0) = (rs, ring, np, sp)"
    using prod_cases4 by blast
  have "sizes_ok (map b_nbytes bs)" "\<forall>n \<in> set (map b_nbytes bs). n \<le> mx"
    using assms by (auto simp: sizes_ok_def blocks_ok_def list_all_iff)
  moreover have "1 \<le> want" "4 = Suc 3" by (auto simp: want_def)
  ultimately have "0 < rs \<and> int ring * rs \<le> budget"
    using sizing_ring_fits [of "map b_nbytes bs" mx budget want 3 0 want 0 0 rs ring np sp] assms(4) sz
    by (simp del: sizing.simps)
  moreover obtain ls where "alloc_each env (want_huge hp env) 0 (map (block_need 0) (take np (map b_nbytes bs)) @ [int ring * rs]) = Some ls"
    using alloc_each_granted [OF assms(5)] by blast
  ultimately show ?thesis
    using assms(1) sz unfolding eng_streamer_create_def Let_def want_def [symmetric] by simp
qed

theorem streamer_created_when_one_slot_fits_witness:
  "eng_streamer_create demo_blocks 8192 0 2 True (- 1) (good_env True) \<noteq> None"
proof (rule streamer_created_when_one_slot_fits [where mx = 3])
  show "demo_blocks \<noteq> []" "blocks_ok demo_blocks" "list_all (\<lambda>bk. b_nbytes bk \<le> 3) demo_blocks"
    "block_need 0 3 \<le> 8192" by code_simp+
qed (simp add: good_env_def)

lemma sum_need_ge:
  "list_all (\<lambda>bk. 0 < b_nbytes bk) bs \<Longrightarrow>
    sum_list (map b_nbytes bs) \<le> sum_list (map (block_need 0 \<circ> b_nbytes) bs)"
proof (induction bs)
  case (Cons bk bs)
  have "b_nbytes bk \<le> block_need 0 (b_nbytes bk)"
    using align_up_ge [of "b_nbytes bk"] by (simp add: block_need_def ENG_IO_ALIGN_def)
  with Cons show ?case by simp
qed simp

text \<open>
  A plan that promises residency does not get it.  When the planner decides that all
  streamable weights fit and hands the streamer exactly their size, the streamer cannot pin every
  layer: alignment padding and the ring slots leave at least one layer to be read again on every
  pass, although the plan announces no streaming and a hit rate of one.
\<close>

theorem resident_plan_leaves_a_layer_streaming:
  assumes "eng_plan hw m (Some req) = (0, plan)" "\<not> pl_streaming plan"
    and "blocks_ok bs" "sum_list (map b_nbytes bs) = mf_total_weight_bytes m - mf_resident_bytes m"
    and "in_i64 (mf_total_weight_bytes m - mf_resident_bytes m)"
    and "eng_streamer_create bs (pl_stream_budget plan) 0 rc async hp env = Some s"
  shows "pl_predicted_stream_hit_rate plan = 1 \<and> s_npin s < length bs"
proof -
  obtain mem :: mem_plan_rec and p0 where pl: "plan_place hw m req (mp_weights mem) p0 = (0, plan)"
    by (rule eng_plan_success [OF assms(1)]) blast
  then have sb: "pl_stream_budget plan = mf_total_weight_bytes m - mf_resident_bytes m"
    "pl_predicted_stream_hit_rate plan = 1"
    using assms(2,5) by (auto simp: plan_place_def Let_def split: if_splits)
  have ex: "s_extra_bytes s = 0" by (rule create_fields [OF assms(6)]) simp
  have rs: "0 < s_slot_bytes s" by (rule create_fields [OF assms(6)]) simp
  note cb = created_budget [OF assms(6)]
  have pb: "s_pinned_bytes s = sum_list (map (block_need 0 \<circ> b_nbytes) (take (s_npin s) bs))" using cb by (simp add: ex)
  have "0 < int (s_nslot s) * s_slot_bytes s" using cb rs by simp
  moreover have "sum_list (map b_nbytes bs) \<le> sum_list (map (block_need 0 \<circ> b_nbytes) bs)"
    using assms(3) by (intro sum_need_ge) (auto simp: blocks_ok_def list_all_iff)
  ultimately have "s_npin s \<noteq> length bs" using cb pb sb(1) assms(4) by auto
  with cb sb(2) show ?thesis by simp
qed

theorem resident_plan_leaves_a_layer_streaming_witness:
  "\<exists>plan s. eng_plan \<lparr>hw_cores_physical = 2, hw_cores_logical = 4, hw_isa = 4, hw_isa_built = 4,
        hw_ram_total = 0, hw_ram_available = 0, hw_storage = ENG_STORE_SSD, hw_storage_free = 0\<rparr>
      \<lparr>mf_n_layers = 2, mf_total_weight_bytes = 40960, mf_resident_bytes = 0, mf_max_layer_bytes = 20480,
        mf_avg_layer_bytes = 20480, mf_activation_bytes = 0, mf_scratch_bytes = 0, mf_kv_bytes_per_pos = 0,
        mf_context_max = 0, mf_n_experts = 0, mf_topk = 0, mf_expert_bytes = 0, mf_bytes_per_weight = 1 / 2\<rparr>
      (Some (eng_plan_request_init\<lparr>rq_memory_budget := 2000000000\<rparr>)) = (0, plan) \<and>
    eng_streamer_create [\<lparr>b_off = 0, b_nbytes = 20480\<rparr>, \<lparr>b_off = 20480, b_nbytes = 20480\<rparr>]
      (pl_stream_budget plan) 0 2 True (- 1) (good_env True) = Some s \<and>
    pl_predicted_stream_hit_rate plan = 1 \<and> s_npin s < 2"
proof -
  define hw where "hw = \<lparr>hw_cores_physical = 2, hw_cores_logical = 4, hw_isa = 4, hw_isa_built = 4,
        hw_ram_total = 0, hw_ram_available = 0, hw_storage = ENG_STORE_SSD, hw_storage_free = 0\<rparr>"
  define m where "m = \<lparr>mf_n_layers = 2, mf_total_weight_bytes = 40960, mf_resident_bytes = 0, mf_max_layer_bytes = 20480,
        mf_avg_layer_bytes = 20480, mf_activation_bytes = 0, mf_scratch_bytes = 0, mf_kv_bytes_per_pos = 0,
        mf_context_max = 0, mf_n_experts = 0, mf_topk = 0, mf_expert_bytes = 0, mf_bytes_per_weight = 1 / 2\<rparr>"
  define rq where "rq = eng_plan_request_init\<lparr>rq_memory_budget := 2000000000\<rparr>"
  define bs where "bs = [\<lparr>b_off = 0, b_nbytes = 20480\<rparr>, \<lparr>b_off = 20480, b_nbytes = 20480\<rparr>]"
  define pl where "pl = snd (eng_plan hw m (Some rq))"
  define s where "s = the (eng_streamer_create bs (pl_stream_budget pl) 0 2 True (- 1) (good_env True))"
  have "fst (eng_plan hw m (Some rq)) = 0 \<and> \<not> pl_streaming pl"
    unfolding pl_def hw_def m_def rq_def by code_simp
  then have e: "eng_plan hw m (Some rq) = (0, pl)" and st: "\<not> pl_streaming pl"
    by (auto simp: pl_def prod_eq_iff)
  have "eng_streamer_create bs (pl_stream_budget pl) 0 2 True (- 1) (good_env True) \<noteq> None"
    unfolding pl_def hw_def m_def rq_def bs_def by code_simp
  then have c: "eng_streamer_create bs (pl_stream_budget pl) 0 2 True (- 1) (good_env True) = Some s" by (auto simp: s_def)
  have b: "blocks_ok bs" "sum_list (map b_nbytes bs) = mf_total_weight_bytes m - mf_resident_bytes m"
    "in_i64 (mf_total_weight_bytes m - mf_resident_bytes m)" "length bs = 2"
    unfolding bs_def m_def by code_simp+
  from resident_plan_leaves_a_layer_streaming [OF e st b(1-3) c] e c b(4) show ?thesis
    unfolding hw_def [symmetric] m_def [symmetric] rq_def [symmetric] bs_def [symmetric] by auto
qed

text \<open>
  A viable plan that cannot run.  On a mixture-of-experts model whose weight budget is just
  above one layer, the planner splits it evenly between stream and cache; the plan is marked
  viable, and the streamer it sizes refuses to start.
\<close>

theorem viable_plan_streamer_refuses:
  "\<exists>plan. eng_plan \<lparr>hw_cores_physical = 2, hw_cores_logical = 4, hw_isa = 4, hw_isa_built = 4,
        hw_ram_total = 0, hw_ram_available = 0, hw_storage = ENG_STORE_SSD, hw_storage_free = 0\<rparr>
      \<lparr>mf_n_layers = 2, mf_total_weight_bytes = 4000000000, mf_resident_bytes = 0, mf_max_layer_bytes = 1000000000,
        mf_avg_layer_bytes = 1000000000, mf_activation_bytes = 0, mf_scratch_bytes = 0, mf_kv_bytes_per_pos = 0,
        mf_context_max = 0, mf_n_experts = 8, mf_topk = 2, mf_expert_bytes = 1000, mf_bytes_per_weight = 1 / 2\<rparr>
      (Some (eng_plan_request_init\<lparr>rq_memory_budget := 2000000000\<rparr>)) = (0, plan) \<and> pl_ok plan \<and>
    eng_streamer_create [\<lparr>b_off = 0, b_nbytes = 1000000000\<rparr>, \<lparr>b_off = 1000000000, b_nbytes = 1000000000\<rparr>]
      (pl_stream_budget plan) 0 2 True (- 1) (good_env True) = None"
proof -
  define hw where "hw = \<lparr>hw_cores_physical = 2, hw_cores_logical = 4, hw_isa = 4, hw_isa_built = 4,
        hw_ram_total = 0, hw_ram_available = 0, hw_storage = ENG_STORE_SSD, hw_storage_free = 0\<rparr>"
  define m where "m = \<lparr>mf_n_layers = 2, mf_total_weight_bytes = 4000000000, mf_resident_bytes = 0, mf_max_layer_bytes = 1000000000,
        mf_avg_layer_bytes = 1000000000, mf_activation_bytes = 0, mf_scratch_bytes = 0, mf_kv_bytes_per_pos = 0,
        mf_context_max = 0, mf_n_experts = 8, mf_topk = 2, mf_expert_bytes = 1000, mf_bytes_per_weight = 1 / 2\<rparr>"
  define rq where "rq = eng_plan_request_init\<lparr>rq_memory_budget := 2000000000\<rparr>"
  define pl where "pl = snd (eng_plan hw m (Some rq))"
  have "fst (eng_plan hw m (Some rq)) = 0 \<and> pl_ok pl \<and>
    eng_streamer_create [\<lparr>b_off = 0, b_nbytes = 1000000000\<rparr>, \<lparr>b_off = 1000000000, b_nbytes = 1000000000\<rparr>]
      (pl_stream_budget pl) 0 2 True (- 1) (good_env True) = None"
    unfolding pl_def hw_def m_def rq_def by code_simp
  moreover from this have "eng_plan hw m (Some rq) = (0, pl)" by (auto simp: pl_def prod_eq_iff)
  ultimately show ?thesis unfolding hw_def [symmetric] m_def [symmetric] rq_def [symmetric] by blast
qed

end
