(* ===== verification/Tensor.thy ===== *)
theory Tensor
  imports Eng_Prelude Complex_Main
begin

text \<open>
  The data-type table, half-precision widening and tensor descriptors:
  \<^verbatim>\<open>src/tensor/dtype.h\<close>, \<^verbatim>\<open>src/tensor/dtype.c\<close> and
  \<^verbatim>\<open>src/tensor/tensor.c\<close>.

  A data type is its number.  A shape is the list of its dimensions (the source's
  \<open>ndim\<close> is its length), fastest axis first.  \<open>int64_t\<close> products wrap (\<open>i64\<close>).
  A \<open>data\<close> pointer is an address, a store is an identifier.
\<close>

section \<open>The dtype table\<close>

definition ENG_DTF_FLOAT :: "32 word" where "ENG_DTF_FLOAT = push_bit 0 1"
definition ENG_DTF_INT :: "32 word" where "ENG_DTF_INT = push_bit 1 1"
definition ENG_DTF_QUANTIZED :: "32 word" where "ENG_DTF_QUANTIZED = push_bit 2 1"
definition ENG_DTF_BLOCKED :: "32 word" where "ENG_DTF_BLOCKED = push_bit 3 1"
definition ENG_DTF_EXT_SCALES :: "32 word" where "ENG_DTF_EXT_SCALES = push_bit 4 1"
definition ENG_DTF_ROW_SCALE :: "32 word" where "ENG_DTF_ROW_SCALE = push_bit 5 1"

record eng_dtype_info_rec =
  di_name :: string
  di_flags :: "32 word"
  di_block_elems :: int
  di_block_bytes :: int
  di_row_extra :: int

definition row :: "string \<Rightarrow> 32 word \<Rightarrow> int \<Rightarrow> int \<Rightarrow> int \<Rightarrow> eng_dtype_info_rec" where
  "row n f be bb re = \<lparr>di_name = n, di_flags = f, di_block_elems = be, di_block_bytes = bb, di_row_extra = re\<rparr>"

definition TBL :: "(int \<times> eng_dtype_info_rec) list" where
  "TBL =
    (let F = ENG_DTF_FLOAT; I = ENG_DTF_INT; Q = ENG_DTF_QUANTIZED; B = ENG_DTF_BLOCKED;
         X = ENG_DTF_EXT_SCALES; R = ENG_DTF_ROW_SCALE in
     [(1, row ''f32'' F 1 4 0), (2, row ''f16'' F 1 2 0), (3, row ''bf16'' F 1 2 0), (4, row ''f64'' F 1 8 0),
      (5, row ''i8'' I 1 1 0), (6, row ''u8'' I 1 1 0), (7, row ''i16'' I 1 2 0), (8, row ''i32'' I 1 4 0),
      (9, row ''i64'' I 1 8 0),
      (16, row ''q4_0'' (F OR Q OR B) 32 18 0), (17, row ''q4_1'' (F OR Q OR B) 32 20 0),
      (18, row ''q5_0'' (F OR Q OR B) 32 22 0), (19, row ''q5_1'' (F OR Q OR B) 32 24 0),
      (20, row ''q8_0'' (F OR Q OR B) 32 34 0), (21, row ''q8_1'' (F OR Q OR B) 32 36 0),
      (32, row ''q2_k'' (F OR Q OR B) 256 84 0), (33, row ''q3_k'' (F OR Q OR B) 256 110 0),
      (34, row ''q4_k'' (F OR Q OR B) 256 144 0), (35, row ''q5_k'' (F OR Q OR B) 256 176 0),
      (36, row ''q6_k'' (F OR Q OR B) 256 210 0), (37, row ''q8_k'' (F OR Q OR B) 256 292 0),
      (48, row ''mxfp4'' (F OR Q OR B OR X) 2 1 0),
      (49, row ''i8r'' (F OR Q OR R) 1 1 4)])"

definition ENG_DT_MAX :: int where
  "ENG_DT_MAX = 64"

definition eng_dtype_info :: "int \<Rightarrow> eng_dtype_info_rec option" where
  "eng_dtype_info dt = (if dt \<le> 0 \<or> dt \<ge> ENG_DT_MAX then None else map_of TBL dt)"

definition eng_dtype_name :: "int \<Rightarrow> string" where
  "eng_dtype_name dt = (case eng_dtype_info dt of None \<Rightarrow> ''?'' | Some i \<Rightarrow> di_name i)"

definition eng_dtype_by_name :: "string option \<Rightarrow> int" where
  "eng_dtype_by_name name =
     (case name of None \<Rightarrow> 0
      | Some n \<Rightarrow> (case List.find (\<lambda>d. map_option di_name (map_of TBL d) = Some n) [1..ENG_DT_MAX - 1] of
                   None \<Rightarrow> 0 | Some d \<Rightarrow> d))"

definition has_flag :: "int \<Rightarrow> 32 word \<Rightarrow> bool" where
  "has_flag dt f = (case eng_dtype_info dt of None \<Rightarrow> False | Some i \<Rightarrow> di_flags i AND f \<noteq> 0)"

definition eng_dtype_is_quantized :: "int \<Rightarrow> bool" where
  "eng_dtype_is_quantized dt = has_flag dt ENG_DTF_QUANTIZED"

definition eng_dtype_is_blocked :: "int \<Rightarrow> bool" where
  "eng_dtype_is_blocked dt = has_flag dt ENG_DTF_BLOCKED"

definition eng_dtype_has_ext_scales :: "int \<Rightarrow> bool" where
  "eng_dtype_has_ext_scales dt = has_flag dt ENG_DTF_EXT_SCALES"

definition eng_dtype_bytes :: "int \<Rightarrow> int \<Rightarrow> int" where
  "eng_dtype_bytes dt nelem =
     (case eng_dtype_info dt of None \<Rightarrow> -1
      | Some i \<Rightarrow>
          if nelem < 0 then -1
          else if di_flags i AND ENG_DTF_ROW_SCALE \<noteq> 0 then -1
          else if c_mod nelem (di_block_elems i) \<noteq> 0 then -1
          else i64 (c_div nelem (di_block_elems i) * di_block_bytes i))"

definition eng_dtype_row_bytes :: "int \<Rightarrow> int \<Rightarrow> int" where
  "eng_dtype_row_bytes dt cols =
     (case eng_dtype_info dt of None \<Rightarrow> -1
      | Some i \<Rightarrow>
          if cols < 0 then -1
          else if c_mod cols (di_block_elems i) \<noteq> 0 then -1
          else i64 (i64 (c_div cols (di_block_elems i) * di_block_bytes i) + di_row_extra i))"

definition eng_dtype_scale_group :: "int \<Rightarrow> 32 word" where
  "eng_dtype_scale_group dt = (if has_flag dt ENG_DTF_EXT_SCALES then 32 else 0)"

section \<open>Half to single precision\<close>

text \<open>The renormalisation loop; \<open>None\<close> would be a loop that never ends.\<close>

partial_function (option) renorm :: "32 word \<Rightarrow> 32 word \<Rightarrow> (32 word \<times> 32 word) option" where
  "renorm m e = (if m AND 0x400 = 0 then renorm (push_bit 1 m) (e + 1) else Some (m, e))"

declare renorm.simps [code]

definition eng_f16_to_f32 :: "16 word \<Rightarrow> 32 word option" where
  "eng_f16_to_f32 h =
     (let sign = push_bit 16 (ucast (h AND 0x8000));
          exp = ucast (drop_bit 10 h) AND 0x1F;
          man = ucast h AND 0x3FF
      in if exp = 0
         then if man = 0 then Some sign
              else map_option (\<lambda>(m, e). sign OR push_bit 23 (127 - 15 - e + 1) OR push_bit 13 (m AND 0x3FF))
                     (renorm man 0)
         else if exp = 0x1F then Some (sign OR 0x7F800000 OR push_bit 13 man)
         else Some (sign OR push_bit 23 (exp + (127 - 15)) OR push_bit 13 man))"

section \<open>Tensors\<close>

definition ENG_MAX_DIMS :: nat where
  "ENG_MAX_DIMS = 4"

definition ENG_TF_OWNED :: "32 word" where "ENG_TF_OWNED = push_bit 0 1"
definition ENG_TF_RESIDENT :: "32 word" where "ENG_TF_RESIDENT = push_bit 1 1"
definition ENG_TF_MAPPED :: "32 word" where "ENG_TF_MAPPED = push_bit 2 1"
definition ENG_TF_CACHED :: "32 word" where "ENG_TF_CACHED = push_bit 3 1"
definition ENG_TF_PINNED :: "32 word" where "ENG_TF_PINNED = push_bit 4 1"
definition ENG_TF_VIEW :: "32 word" where "ENG_TF_VIEW = push_bit 5 1"

record eng_tensor =
  t_name :: "string option"
  t_dtype :: int
  t_shape :: "int list"
  t_stride :: "int list"
  t_nbytes :: int
  t_store :: "nat option"
  t_file_off :: int
  t_data :: "int option"
  t_flags :: "32 word"
  t_scales :: "nat option"

definition eng_tensor_zero :: eng_tensor where
  "eng_tensor_zero = \<lparr>t_name = None, t_dtype = 0, t_shape = [], t_stride = [], t_nbytes = 0, t_store = None,
     t_file_off = 0, t_data = None, t_flags = 0, t_scales = None\<rparr>"

text \<open>The running product of a C loop, at 64 bits.\<close>

definition prod64 :: "int list \<Rightarrow> int" where
  "prod64 xs = foldl (\<lambda>n d. i64 (n * d)) 1 xs"

definition eng_tensor_numel :: "eng_tensor \<Rightarrow> int" where
  "eng_tensor_numel t = (if list_ex (\<lambda>d. d < 0) (t_shape t) then 0 else prod64 (t_shape t))"

definition eng_tensor_cols :: "eng_tensor \<Rightarrow> int" where
  "eng_tensor_cols t = (case t_shape t of [] \<Rightarrow> 1 | c # _ \<Rightarrow> c)"

definition eng_tensor_rows :: "eng_tensor \<Rightarrow> int" where
  "eng_tensor_rows t = prod64 (drop 1 (t_shape t))"

definition eng_tensor_nbytes :: "int \<Rightarrow> int list \<Rightarrow> int" where
  "eng_tensor_nbytes dt shape =
     (case eng_dtype_info dt of None \<Rightarrow> -1
      | Some info \<Rightarrow>
          if length shape > ENG_MAX_DIMS then -1
          else if list_ex (\<lambda>d. d < 0) shape then -1
          else let cols = (case shape of [] \<Rightarrow> 1 | c # _ \<Rightarrow> c);
                   rows = prod64 (drop 1 shape)
               in if di_flags info AND ENG_DTF_ROW_SCALE \<noteq> 0
                  then let rb = eng_dtype_row_bytes dt cols in if rb < 0 then -1 else i64 (rows * rb)
                  else if di_block_elems info > 1 \<and> c_mod cols (di_block_elems info) \<noteq> 0 then -1
                  else eng_dtype_bytes dt (prod64 shape))"

text \<open>The verdict and the descriptor, which is zeroed when the verdict is -1.\<close>

definition eng_tensor_init_file :: "string option \<Rightarrow> int \<Rightarrow> int list \<Rightarrow> nat option \<Rightarrow> int \<Rightarrow> int \<times> eng_tensor" where
  "eng_tensor_init_file name dt shape store file_off =
     (let nb = eng_tensor_nbytes dt shape in
      if nb < 0 \<or> file_off < 0 then (-1, eng_tensor_zero)
      else (0, eng_tensor_zero\<lparr>t_name := name, t_dtype := dt, t_shape := shape, t_nbytes := nb, t_store := store,
                 t_file_off := file_off\<rparr>))"

definition eng_tensor_init_mem :: "string option \<Rightarrow> int \<Rightarrow> int list \<Rightarrow> int option \<Rightarrow> bool \<Rightarrow> int \<times> eng_tensor" where
  "eng_tensor_init_mem name dt shape data owned =
     (let nb = eng_tensor_nbytes dt shape in
      if nb < 0 then (-1, eng_tensor_zero)
      else (0, eng_tensor_zero\<lparr>t_name := name, t_dtype := dt, t_shape := shape, t_nbytes := nb, t_data := data,
                 t_flags := ENG_TF_RESIDENT OR (if owned then ENG_TF_OWNED else 0)\<rparr>))"

text \<open>The address freed, if any, and the zeroed descriptor.\<close>

definition eng_tensor_free :: "eng_tensor \<Rightarrow> int option \<times> eng_tensor" where
  "eng_tensor_free t = (if t_flags t AND ENG_TF_OWNED \<noteq> 0 then t_data t else None, eng_tensor_zero)"

definition eng_tensor_is_resident :: "eng_tensor \<Rightarrow> bool" where
  "eng_tensor_is_resident t \<longleftrightarrow> t_data t \<noteq> None \<and> t_flags t AND ENG_TF_RESIDENT \<noteq> 0"

definition eng_tensor_is_dense :: "eng_tensor \<Rightarrow> bool" where
  "eng_tensor_is_dense t \<longleftrightarrow> t_shape t \<noteq> [] \<and> list_all (\<lambda>s. s = 0) (take (length (t_shape t)) (t_stride t))"

definition eng_tensor_view_rows :: "eng_tensor \<Rightarrow> int \<Rightarrow> int \<Rightarrow> eng_tensor option" where
  "eng_tensor_view_rows src first count =
     (if \<not> eng_tensor_is_dense src then None
      else let rows = eng_tensor_rows src in
        if first < 0 \<or> count < 0 \<or> i64 (first + count) > rows then None
        else let cols = eng_tensor_cols src;
                 rb = eng_dtype_row_bytes (t_dtype src) cols
             in if rb < 0 then None
                else let out = eng_tensor_zero\<lparr>t_name := t_name src, t_dtype := t_dtype src,
                           t_shape := [cols, count], t_nbytes := i64 (count * rb), t_scales := t_scales src\<rparr>;
                         byte_off = i64 (first * rb)
                     in Some (case t_data src of
                          Some d \<Rightarrow> out\<lparr>t_data := Some (d + byte_off),
                             t_flags := ENG_TF_RESIDENT OR ENG_TF_VIEW OR
                               (t_flags src AND (ENG_TF_MAPPED OR ENG_TF_CACHED))\<rparr>
                        | None \<Rightarrow> out\<lparr>t_store := t_store src, t_file_off := i64 (t_file_off src + byte_off),
                             t_flags := ENG_TF_VIEW\<rparr>))"

end
