(* ===== verification/Gguf.thy ===== *)
theory Gguf
  imports Tensor
begin

text \<open>
  The GGUF container reader, \<^verbatim>\<open>src/formats/gguf.c\<close> and
  \<^verbatim>\<open>src/formats/gguf.h\<close>.

  The cursor is the list of header bytes not yet consumed and the latching \<open>bad\<close> flag.
  A pointer into the header blob is the suffix it points at, with a length where the
  source keeps one.  The string pool is modelled by its fill level and capacity; a pooled
  name is the copied bytes, and \<open>cstr\<close> is what \<open>strcmp\<close> sees of them.  The three return
  values of \<open>parse_header\<close> are \<open>POk\<close> (0), \<open>PMore\<close> (1) and \<open>PBad\<close> (-1).  Floats are kept as
  their bit patterns.  Allocation failures are left out.
\<close>

section \<open>Cursor\<close>

record cur =
  c_p :: "byte list"
  c_bad :: bool

fun le_from :: "nat \<Rightarrow> byte list \<Rightarrow> 64 word \<Rightarrow> 64 word" where
  "le_from i [] v = v"
| "le_from i (b # bs) v = le_from (Suc i) bs (v OR push_bit (8 * i) (ucast b))"

definition rd :: "nat \<Rightarrow> cur \<Rightarrow> 64 word \<times> cur" where
  "rd n c = (if c_bad c \<or> length (c_p c) < n then (0, c\<lparr>c_bad := True\<rparr>)
             else (le_from 0 (take n (c_p c)) 0, c\<lparr>c_p := drop n (c_p c)\<rparr>))"

definition rd_u8 :: "cur \<Rightarrow> 8 word \<times> cur" where "rd_u8 c = (let (v, c) = rd 1 c in (ucast v, c))"
definition rd_u16 :: "cur \<Rightarrow> 16 word \<times> cur" where "rd_u16 c = (let (v, c) = rd 2 c in (ucast v, c))"
definition rd_u32 :: "cur \<Rightarrow> 32 word \<times> cur" where "rd_u32 c = (let (v, c) = rd 4 c in (ucast v, c))"
definition rd_u64 :: "cur \<Rightarrow> 64 word \<times> cur" where "rd_u64 c = rd 8 c"

definition rd_str :: "cur \<Rightarrow> byte list option \<times> cur" where
  "rd_str c = (let (n, c) = rd_u64 c in
     if c_bad c \<or> unat n > length (c_p c) then (None, c\<lparr>c_bad := True\<rparr>)
     else (Some (take (unat n) (c_p c)), c\<lparr>c_p := drop (unat n) (c_p c)\<rparr>))"

section \<open>Types\<close>

datatype gguf_type = GGUF_T_UINT8 | GGUF_T_INT8 | GGUF_T_UINT16 | GGUF_T_INT16 | GGUF_T_UINT32 | GGUF_T_INT32
  | GGUF_T_FLOAT32 | GGUF_T_BOOL | GGUF_T_STRING | GGUF_T_ARRAY | GGUF_T_UINT64 | GGUF_T_INT64 | GGUF_T_FLOAT64
  | GGUF_T_OTHER int

definition gguf_type_of :: "32 word \<Rightarrow> gguf_type" where
  "gguf_type_of w =
     (let l = [GGUF_T_UINT8, GGUF_T_INT8, GGUF_T_UINT16, GGUF_T_INT16, GGUF_T_UINT32, GGUF_T_INT32,
               GGUF_T_FLOAT32, GGUF_T_BOOL, GGUF_T_STRING, GGUF_T_ARRAY, GGUF_T_UINT64, GGUF_T_INT64, GGUF_T_FLOAT64]
      in if w < 13 then l ! unat w else GGUF_T_OTHER (uint w))"

fun scalar_size :: "gguf_type \<Rightarrow> nat" where
  "scalar_size GGUF_T_UINT8 = 1" | "scalar_size GGUF_T_INT8 = 1" | "scalar_size GGUF_T_BOOL = 1"
| "scalar_size GGUF_T_UINT16 = 2" | "scalar_size GGUF_T_INT16 = 2"
| "scalar_size GGUF_T_UINT32 = 4" | "scalar_size GGUF_T_INT32 = 4" | "scalar_size GGUF_T_FLOAT32 = 4"
| "scalar_size GGUF_T_UINT64 = 8" | "scalar_size GGUF_T_INT64 = 8" | "scalar_size GGUF_T_FLOAT64 = 8"
| "scalar_size GGUF_T_STRING = 0" | "scalar_size GGUF_T_ARRAY = 0" | "scalar_size (GGUF_T_OTHER _) = 0"

definition gguf_dtype :: "32 word \<Rightarrow> int" where
  "gguf_dtype t =
     (case map_of [(0, 1), (1, 2), (2, 16), (3, 17), (6, 18), (7, 19), (8, 20), (9, 21), (10, 32), (11, 33),
        (12, 34), (13, 35), (14, 36), (15, 37), (24, 5), (25, 7), (26, 8), (27, 9), (28, 4), (30, 3)] t of
        None \<Rightarrow> 0 | Some d \<Rightarrow> d)"

definition gguf_type_name :: "32 word \<Rightarrow> string" where
  "gguf_type_name t = (let d = gguf_dtype t in if d = 0 then ''?'' else eng_dtype_name d)"

datatype float_bits = FNone | FSingle "32 word" | FDouble "64 word"

record gguf_kv =
  k_key :: "byte list"
  k_type :: gguf_type
  k_i :: int
  k_f :: float_bits
  k_str :: "byte list option"
  k_arr_type :: gguf_type
  k_arr_len :: int
  k_arr_data :: "byte list"

record gguf_tensor =
  g_name :: "byte list"
  g_shape :: "int list"
  g_ggml_type :: "32 word"
  g_dtype :: int
  g_rel_off :: int
  g_file_off :: int
  g_nbytes :: int

record gguf =
  gg_version :: "32 word"
  gg_blob :: "byte list"
  gg_strcap :: int
  gg_strused :: int
  gg_kv :: "gguf_kv list"
  gg_t :: "gguf_tensor list"
  gg_alignment :: int
  gg_data_start :: int
  gg_data_bytes :: int
  gg_file_size :: int

datatype 'a presult = POk 'a | PMore | PBad

fun pbind :: "'a presult \<Rightarrow> ('a \<Rightarrow> 'b presult) \<Rightarrow> 'b presult" where
  "pbind (POk x) f = f x" | "pbind PMore f = PMore" | "pbind PBad f = PBad"

section \<open>Metadata\<close>

definition pool_add :: "int \<Rightarrow> int \<Rightarrow> byte list \<Rightarrow> int option" where
  "pool_add cap used s = (if used + int (length s) + 1 > cap then None else Some (used + int (length s) + 1))"

definition kv_zero :: gguf_kv where
  "kv_zero = \<lparr>k_key = [], k_type = GGUF_T_UINT8, k_i = 0, k_f = FNone, k_str = None, k_arr_type = GGUF_T_UINT8,
     k_arr_len = 0, k_arr_data = []\<rparr>"

fun skip_strs :: "nat \<Rightarrow> cur \<Rightarrow> cur presult" where
  "skip_strs 0 c = POk c"
| "skip_strs (Suc n) c = (let (s, c) = rd_str c in if c_bad c then PMore else skip_strs n c)"

definition rd_array :: "gguf_kv \<Rightarrow> cur \<Rightarrow> (gguf_kv \<times> cur) presult" where
  "rd_array k c =
     (let (ty, c) = rd_u32 c; (al, c) = rd_u64 c;
          k = k\<lparr>k_arr_type := gguf_type_of ty, k_arr_len := sint al\<rparr>
      in if c_bad c then PMore
         else let k = k\<lparr>k_arr_data := c_p c\<rparr>; es = scalar_size (k_arr_type k)
              in if es > 0
                 then let need = of_nat es * al in
                   if unat need > length (c_p c) then PMore
                   else POk (k, c\<lparr>c_p := drop (unat need) (c_p c)\<rparr>)
                 else if k_arr_type k = GGUF_T_STRING
                 then pbind (skip_strs (nat (k_arr_len k)) c) (\<lambda>c. POk (k, c))
                 else PBad)"

definition rd_value :: "gguf_kv \<Rightarrow> cur \<Rightarrow> (gguf_kv \<times> cur) presult" where
  "rd_value k c =
     (case k_type k of
        GGUF_T_UINT8 \<Rightarrow> (let (v, c) = rd_u8 c in POk (k\<lparr>k_i := uint v\<rparr>, c))
      | GGUF_T_INT8 \<Rightarrow> (let (v, c) = rd_u8 c in POk (k\<lparr>k_i := sint v\<rparr>, c))
      | GGUF_T_UINT16 \<Rightarrow> (let (v, c) = rd_u16 c in POk (k\<lparr>k_i := uint v\<rparr>, c))
      | GGUF_T_INT16 \<Rightarrow> (let (v, c) = rd_u16 c in POk (k\<lparr>k_i := sint v\<rparr>, c))
      | GGUF_T_UINT32 \<Rightarrow> (let (v, c) = rd_u32 c in POk (k\<lparr>k_i := uint v\<rparr>, c))
      | GGUF_T_INT32 \<Rightarrow> (let (v, c) = rd_u32 c in POk (k\<lparr>k_i := sint v\<rparr>, c))
      | GGUF_T_UINT64 \<Rightarrow> (let (v, c) = rd_u64 c in POk (k\<lparr>k_i := sint v\<rparr>, c))
      | GGUF_T_INT64 \<Rightarrow> (let (v, c) = rd_u64 c in POk (k\<lparr>k_i := sint v\<rparr>, c))
      | GGUF_T_BOOL \<Rightarrow> (let (v, c) = rd_u8 c in POk (k\<lparr>k_i := (if v \<noteq> 0 then 1 else 0)\<rparr>, c))
      | GGUF_T_FLOAT32 \<Rightarrow> (let (v, c) = rd_u32 c in POk (k\<lparr>k_f := FSingle v\<rparr>, c))
      | GGUF_T_FLOAT64 \<Rightarrow> (let (v, c) = rd_u64 c in POk (k\<lparr>k_f := FDouble v\<rparr>, c))
      | GGUF_T_STRING \<Rightarrow> (let (s, c) = rd_str c in POk (k\<lparr>k_str := s\<rparr>, c))
      | GGUF_T_ARRAY \<Rightarrow> rd_array k c
      | GGUF_T_OTHER _ \<Rightarrow> PBad)"

text \<open>One key-value pair: the entry, the pool's new fill level, the cursor.\<close>

definition rd_kv :: "int \<Rightarrow> int \<Rightarrow> cur \<Rightarrow> (gguf_kv \<times> int \<times> cur) presult" where
  "rd_kv cap used c =
     (let (key, c) = rd_str c in
      if c_bad c then PMore
      else case pool_add cap used (the key) of
        None \<Rightarrow> PBad
      | Some used \<Rightarrow>
          let (t, c) = rd_u32 c;
              k = kv_zero\<lparr>k_key := the key, k_type := gguf_type_of t\<rparr>
          in pbind (rd_value k c) (\<lambda>(k, c). if c_bad c then PMore else POk (k, used, c)))"

fun rd_kvs :: "nat \<Rightarrow> int \<Rightarrow> int \<Rightarrow> cur \<Rightarrow> (gguf_kv list \<times> int \<times> cur) presult" where
  "rd_kvs 0 cap used c = POk ([], used, c)"
| "rd_kvs (Suc n) cap used c =
     pbind (rd_kv cap used c) (\<lambda>(k, used, c).
       pbind (rd_kvs n cap used c) (\<lambda>(ks, used, c). POk (k # ks, used, c)))"

section \<open>Tensor table\<close>

definition GGUF_MAX_DIMS :: int where
  "GGUF_MAX_DIMS = 4"

fun rd_dims :: "nat \<Rightarrow> cur \<Rightarrow> int list \<times> cur" where
  "rd_dims 0 c = ([], c)"
| "rd_dims (Suc n) c = (let (d, c) = rd_u64 c; (ds, c) = rd_dims n c in (sint d # ds, c))"

definition rd_tensor :: "int \<Rightarrow> int \<Rightarrow> cur \<Rightarrow> (gguf_tensor \<times> int \<times> cur) presult" where
  "rd_tensor cap used c =
     (let (nm, c) = rd_str c in
      if c_bad c then PMore
      else case pool_add cap used (the nm) of
        None \<Rightarrow> PBad
      | Some used \<Rightarrow>
          let (nd, c) = rd_u32 c in
          if c_bad c then PMore
          else if sint nd < 1 \<or> sint nd > GGUF_MAX_DIMS then PBad
          else let (shape, c) = rd_dims (unat nd) c; (ty, c) = rd_u32 c; (ro, c) = rd_u64 c in
            if c_bad c then PMore
            else let dt = gguf_dtype ty in
              if dt = 0 then PBad
              else let nb = eng_tensor_nbytes dt shape in
                if nb < 0 then PBad
                else POk (\<lparr>g_name = the nm, g_shape = shape, g_ggml_type = ty, g_dtype = dt, g_rel_off = sint ro,
                           g_file_off = 0, g_nbytes = nb\<rparr>, used, c))"

fun rd_tensors :: "nat \<Rightarrow> int \<Rightarrow> int \<Rightarrow> cur \<Rightarrow> (gguf_tensor list \<times> int \<times> cur) presult" where
  "rd_tensors 0 cap used c = POk ([], used, c)"
| "rd_tensors (Suc n) cap used c =
     pbind (rd_tensor cap used c) (\<lambda>(t, used, c).
       pbind (rd_tensors n cap used c) (\<lambda>(ts, used, c). POk (t # ts, used, c)))"

section \<open>Alignment and placement\<close>

definition cstr :: "byte list \<Rightarrow> byte list" where
  "cstr s = takeWhile (\<lambda>b. b \<noteq> 0) s"

definition ascii :: "string \<Rightarrow> byte list" where
  "ascii s = map (\<lambda>c. of_nat (of_char c)) s"

definition kv_find :: "gguf_kv list \<Rightarrow> byte list \<Rightarrow> gguf_kv option" where
  "kv_find ks key = List.find (\<lambda>k. cstr (k_key k) = cstr key) ks"

definition alignment_of :: "gguf_kv list \<Rightarrow> int" where
  "alignment_of ks =
     (case kv_find ks (ascii ''general.alignment'') of
        None \<Rightarrow> 32 | Some k \<Rightarrow> if k_i k > 0 then k_i k else 32)"

fun place :: "int \<Rightarrow> int \<Rightarrow> int \<Rightarrow> gguf_tensor list \<Rightarrow> (gguf_tensor list \<times> int) option" where
  "place data_start file_size data_bytes [] = Some ([], data_bytes)"
| "place data_start file_size data_bytes (t # ts) =
     (let t = t\<lparr>g_file_off := i64 (data_start + g_rel_off t)\<rparr>;
          e = i64 (g_file_off t + g_nbytes t);
          r = i64 (g_rel_off t + g_nbytes t)
      in if e > file_size then None
         else map_option (\<lambda>(ts, db). (t # ts, db))
                (place data_start file_size (if r > data_bytes then r else data_bytes) ts))"

text \<open>The last stage: alignment, start of the data section, absolute offsets.\<close>

definition place_tensors ::
  "int \<Rightarrow> byte list \<Rightarrow> 32 word \<Rightarrow> int \<Rightarrow> gguf_kv list \<Rightarrow> gguf_tensor list \<Rightarrow> int \<Rightarrow> cur \<Rightarrow> gguf presult" where
  "place_tensors file_size blob ver cap ks ts used c =
     (let al = alignment_of ks in
      if al \<le> 0 \<or> al AND (al - 1) \<noteq> 0 then PBad
      else let hdr_end = int (length blob - length (c_p c));
               data_start = i64 (hdr_end + al - 1) AND NOT (al - 1)
           in case place data_start file_size 0 ts of
                None \<Rightarrow> PBad
              | Some (ts, db) \<Rightarrow> POk
                  \<lparr>gg_version = ver, gg_blob = blob, gg_strcap = cap, gg_strused = used, gg_kv = ks, gg_t = ts,
                   gg_alignment = al, gg_data_start = data_start, gg_data_bytes = db, gg_file_size = file_size\<rparr>)"

definition parse_header :: "int \<Rightarrow> byte list \<Rightarrow> gguf presult" where
  "parse_header file_size blob =
     (let c = \<lparr>c_p = blob, c_bad = False\<rparr> in
      if length blob < 24 then PMore
      else if take 4 (c_p c) \<noteq> ascii ''GGUF'' then PBad
      else let c = c\<lparr>c_p := drop 4 (c_p c)\<rparr>; (ver, c) = rd_u32 c in
        if ver \<noteq> 2 \<and> ver \<noteq> 3 then PBad
        else let (nt, c) = rd_u64 c; (nk, c) = rd_u64 c in
          if c_bad c then PMore
          else if sint nt < 0 \<or> sint nt > 2 ^ 22 \<or> sint nk < 0 \<or> sint nk > 2 ^ 20 then PBad
          else let cap = int (length blob) + sint nk + sint nt + 2 in
            pbind (rd_kvs (nat (sint nk)) cap 0 c) (\<lambda>(ks, used, c).
            pbind (rd_tensors (nat (sint nt)) cap used c) (\<lambda>(ts, used, c).
              place_tensors file_size blob ver cap ks ts used c)))"

section \<open>Opening\<close>

definition GGUF_HDR_FIRST :: int where "GGUF_HDR_FIRST = 8 * 2 ^ 20"
definition GGUF_HDR_MAX :: int where "GGUF_HDR_MAX = 256 * 2 ^ 20"

text \<open>
  The grow-and-retry loop.  \<open>rdf n\<close> are the bytes a read of the first \<open>n\<close> bytes delivers.
  Every turn that continues enlarges \<open>want\<close>; \<open>want\<close> is positive throughout, so the test
  \<open>want \<le> 0\<close>, which the source does not have, only makes the recursion total.
\<close>

function open_loop :: "int \<Rightarrow> (int \<Rightarrow> byte list) \<Rightarrow> int \<Rightarrow> int \<Rightarrow> gguf option" where
  "open_loop hmax rdf file_size want =
     (let blob = rdf want in
      if int (length blob) \<noteq> want then None
      else case parse_header file_size blob of
          POk g \<Rightarrow> Some g
        | PBad \<Rightarrow> None
        | PMore \<Rightarrow>
            if want \<ge> hmax \<or> want \<ge> file_size \<or> want \<le> 0 then None
            else open_loop hmax rdf file_size (min (min (want * 4) file_size) hmax))"
  by pat_completeness auto
termination
  by (relation "measure (\<lambda>(hmax, rdf, file_size, want). nat (min hmax file_size - want))") auto

declare open_loop.simps [simp del]

definition gguf_open :: "int \<Rightarrow> (int \<Rightarrow> byte list) \<Rightarrow> gguf option" where
  "gguf_open file_size rdf =
     (if file_size < 24 then None
      else open_loop GGUF_HDR_MAX rdf file_size
             (if GGUF_HDR_FIRST > file_size then file_size else GGUF_HDR_FIRST))"

section \<open>Accessors\<close>

definition gguf_find :: "gguf \<Rightarrow> byte list \<Rightarrow> gguf_kv option" where
  "gguf_find g key = kv_find (gg_kv g) key"

definition kv_is_int :: "gguf_kv \<Rightarrow> bool" where
  "kv_is_int k \<longleftrightarrow> k_type k \<in> {GGUF_T_UINT8, GGUF_T_INT8, GGUF_T_UINT16, GGUF_T_INT16, GGUF_T_UINT32, GGUF_T_INT32,
     GGUF_T_UINT64, GGUF_T_INT64, GGUF_T_BOOL}"

definition gguf_i64 :: "gguf \<Rightarrow> byte list \<Rightarrow> int option" where
  "gguf_i64 g key = (case gguf_find g key of None \<Rightarrow> None | Some k \<Rightarrow> if kv_is_int k then Some (k_i k) else None)"

definition gguf_u32 :: "gguf \<Rightarrow> byte list \<Rightarrow> 32 word option" where
  "gguf_u32 g key = (case gguf_i64 g key of None \<Rightarrow> None
     | Some v \<Rightarrow> if v < 0 \<or> v > 0xFFFFFFFF then None else Some (word_of_int v))"

definition gguf_str :: "gguf \<Rightarrow> byte list \<Rightarrow> byte list option" where
  "gguf_str g key = (case gguf_find g key of None \<Rightarrow> None
     | Some k \<Rightarrow> if k_type k = GGUF_T_STRING then k_str k else None)"

fun nth_str :: "nat \<Rightarrow> cur \<Rightarrow> byte list option" where
  "nth_str 0 c = (let (s, c) = rd_str c in if c_bad c then None else s)"
| "nth_str (Suc n) c = (let (s, c) = rd_str c in if c_bad c then None else nth_str n c)"

definition gguf_arr_str :: "gguf_kv \<Rightarrow> int \<Rightarrow> byte list option" where
  "gguf_arr_str kv i =
     (if k_type kv \<noteq> GGUF_T_ARRAY \<or> k_arr_type kv \<noteq> GGUF_T_STRING then None
      else if i < 0 \<or> i \<ge> k_arr_len kv then None
      else nth_str (nat i) \<lparr>c_p = k_arr_data kv, c_bad = False\<rparr>)"

definition gguf_tensor_find :: "gguf \<Rightarrow> byte list \<Rightarrow> gguf_tensor option" where
  "gguf_tensor_find g name = List.find (\<lambda>t. cstr (g_name t) = cstr name) (gg_t g)"

fun offsets_sorted :: "int list \<Rightarrow> bool" where
  "offsets_sorted (a # b # xs) \<longleftrightarrow> \<not> b < a \<and> offsets_sorted (b # xs)"
| "offsets_sorted xs \<longleftrightarrow> True"

definition gguf_layout_is_sequential :: "gguf \<Rightarrow> bool" where
  "gguf_layout_is_sequential g = offsets_sorted (map g_rel_off (gg_t g))"

end
