(* ===== verification/Bpe.thy ===== *)
theory Bpe
  imports Gguf
begin

text \<open>
  Byte-level BPE, \<^verbatim>\<open>src/tokenizer/bpe.c\<close>: the open-addressing hash map, the
  byte-to-codepoint alphabet, loading from a GGUF container, the pre-tokenizer, the merge loop,
  encoding and decoding.

  Strings are byte lists, so the lengths kept beside them are implicit.  A probe that finds
  neither the key nor a free slot in the whole table would loop for ever in the source; here it
  is \<open>None\<close>.  A return value of -1 is \<open>None\<close>, except for \<open>map_get\<close> and \<open>eng_bpe_find\<close>, which
  return an \<open>int\<close> as the source does.  An array that was never allocated is the empty list.
\<close>

section \<open>Hash map\<close>

type_synonym table = "(byte list \<times> int) option list"

definition hash_bytes :: "byte list \<Rightarrow> 64 word" where
  "hash_bytes s = foldl (\<lambda>h b. (h XOR ucast b) * 1099511628211) 1469598103934665603 s"

text \<open>
  Past \<open>want = 2 ^ 29\<close> the \<open>int\<close> arithmetic of the source overflows; the model stops there.
\<close>

function grow_cap :: "int \<Rightarrow> int \<Rightarrow> int" where
  "grow_cap cap want = (if 0 < cap \<and> cap < i32 (want * 2) then grow_cap (i32 (cap * 2)) want else cap)"
  by pat_completeness auto
termination
proof (relation "measure (\<lambda>(cap, want). if cap \<le> 0 then 0 else nat (2 ^ 32 - cap))", goal_cases)
  case (2 cap want)
  moreover have "i32 (want * 2) < 2 ^ 31" by (simp add: i32_def)
  ultimately have "0 < cap" "cap < 2 ^ 31" by linarith+
  then have "i32 (cap * 2) = cap * 2 \<or> i32 (cap * 2) \<le> 0"
    by (cases "cap * 2 < 2 ^ 31")
       (use mod_pos_pos_trivial [of "cap * 2 - 2 ^ 31" "2 ^ 32"] mod_add_self2 [of "cap * 2 - 2 ^ 31" "2 ^ 32 :: int"]
         in \<open>simp_all add: i32_def algebra_simps\<close>)
  then show ?case using \<open>0 < cap\<close> \<open>cap < 2 ^ 31\<close> by auto
qed simp

declare grow_cap.simps [simp del]

definition map_init :: "int \<Rightarrow> table" where
  "map_init want = replicate (nat (grow_cap 16 want)) None"

definition home :: "table \<Rightarrow> byte list \<Rightarrow> 64 word" where
  "home m s = hash_bytes s AND (of_nat (length m) - 1)"

text \<open>The slot that holds \<open>s\<close>, or the first free one, from slot \<open>h\<close> on.\<close>

fun probe :: "table \<Rightarrow> byte list \<Rightarrow> 64 word \<Rightarrow> nat \<Rightarrow> 64 word option" where
  "probe m s h 0 = None"
| "probe m s h (Suc n) =
     (case m ! unat h of
        None \<Rightarrow> Some h
      | Some (k, v) \<Rightarrow> if k = s then Some h else probe m s ((h + 1) AND (of_nat (length m) - 1)) n)"

definition map_put :: "table \<Rightarrow> byte list \<Rightarrow> int \<Rightarrow> table option" where
  "map_put m s v =
     (case probe m s (home m s) (length m) of
        None \<Rightarrow> None
      | Some h \<Rightarrow> Some (case m ! unat h of Some _ \<Rightarrow> m | None \<Rightarrow> m[unat h := Some (s, v)]))"

definition map_get :: "table \<Rightarrow> byte list \<Rightarrow> int" where
  "map_get m s =
     (if m = [] then -1
      else case probe m s (home m s) (length m) of
             None \<Rightarrow> -1
           | Some h \<Rightarrow> (case m ! unat h of None \<Rightarrow> -1 | Some (k, v) \<Rightarrow> v))"

section \<open>The byte alphabet\<close>

definition byte_used :: "int \<Rightarrow> bool" where
  "byte_used c \<longleftrightarrow> (33 \<le> c \<and> c \<le> 126) \<or> (0xA1 \<le> c \<and> c \<le> 0xAC) \<or> (0xAE \<le> c \<and> c \<le> 0xFF)"

fun cps_from :: "int list \<Rightarrow> int \<Rightarrow> int list" where
  "cps_from [] n = []"
| "cps_from (c # cs) n = (if byte_used c then c # cps_from cs n else (0x100 + n) # cps_from cs (n + 1))"

definition cps :: "int list" where
  "cps = cps_from [0..255] 0"

definition utf8 :: "int \<Rightarrow> byte list" where
  "utf8 cp = (if cp < 0x80 then [word_of_int cp]
              else [word_of_int (0xC0 OR drop_bit 6 cp), word_of_int (0x80 OR (cp AND 0x3F))])"

definition b2u :: "byte \<Rightarrow> byte list" where
  "b2u c = utf8 (cps ! unat c)"

text \<open>Codepoint to byte, -1 where the alphabet has no such codepoint.\<close>

definition u2b :: "int \<Rightarrow> int" where
  "u2b = foldl (\<lambda>t (cp, c). if cp < 0x200 then t(cp := c) else t) (\<lambda>_. -1) (zip cps [0..255])"

section \<open>The tokenizer\<close>

record eng_bpe =
  b_tok :: "byte list list"
  b_type :: "int list"
  b_vocab :: table
  b_merge :: table
  b_bos :: int
  b_eos :: int
  b_add_bos :: int
  b_spec :: "nat list"
  b_spec_first :: "byte list"

definition eng_bpe_is_special :: "eng_bpe \<Rightarrow> int \<Rightarrow> bool" where
  "eng_bpe_is_special b tid \<longleftrightarrow> 0 \<le> tid \<and> tid < int (length (b_tok b)) \<and>
     (b_type b ! nat tid = 3 \<or> b_type b ! nat tid = 4)"

fun load_tokens :: "gguf_kv \<Rightarrow> nat \<Rightarrow> int \<Rightarrow> int \<Rightarrow> int \<Rightarrow> table \<Rightarrow> (byte list list \<times> int \<times> table) option" where
  "load_tokens k 0 i cap used m = Some ([], used, m)"
| "load_tokens k (Suc n) i cap used m =
     (case gguf_arr_str k i of
        None \<Rightarrow> None
      | Some s \<Rightarrow>
          if used + int (length s) + 1 > cap then None
          else case map_put m s i of
                 None \<Rightarrow> None
               | Some m \<Rightarrow>
                   map_option (\<lambda>(ts, u, m). (s # ts, u, m))
                     (load_tokens k n (i + 1) cap (used + int (length s) + 1) m))"

text \<open>Four little-endian bytes at offset \<open>4 i\<close>.\<close>

definition type_at :: "byte list \<Rightarrow> nat \<Rightarrow> int" where
  "type_at p i = sint (foldl (\<lambda>v k. v OR push_bit (8 * k) (ucast (p ! (i * 4 + k)))) (0 :: 32 word) [0..<4])"

definition split_merge :: "byte list \<Rightarrow> (byte list \<times> byte list) option" where
  "split_merge s = (if 32 \<in> set s then Some (takeWhile (\<lambda>c. c \<noteq> 32) s, tl (dropWhile (\<lambda>c. c \<noteq> 32) s)) else None)"

fun load_merges :: "gguf_kv \<Rightarrow> nat \<Rightarrow> int \<Rightarrow> int \<Rightarrow> int \<Rightarrow> table \<Rightarrow> table option" where
  "load_merges k 0 i cap used m = Some m"
| "load_merges k (Suc n) i cap used m =
     (case gguf_arr_str k i of
        None \<Rightarrow> load_merges k n (i + 1) cap used m
      | Some s \<Rightarrow>
          (case split_merge s of
             None \<Rightarrow> load_merges k n (i + 1) cap used m
           | Some (a, bb) \<Rightarrow>
               if used + int (length a) + int (length bb) + 1 > cap then Some m
               else case map_put m (a @ bb) (i32 i) of
                      None \<Rightarrow> None
                    | Some m \<Rightarrow> load_merges k n (i + 1) cap (used + int (length a) + int (length bb) + 1) m))"

definition index_specials :: "eng_bpe \<Rightarrow> eng_bpe" where
  "index_specials b =
     (let sp = filter (\<lambda>i. eng_bpe_is_special b (int i) \<and> b_tok b ! i \<noteq> []) [0..<length (b_tok b)]
      in b\<lparr>b_spec := sp, b_spec_first := map (\<lambda>i. hd (b_tok b ! i)) sp\<rparr>)"

definition token_types :: "gguf \<Rightarrow> gguf_kv \<Rightarrow> nat \<Rightarrow> int list" where
  "token_types g ktok n =
     (case gguf_find g (ascii ''tokenizer.ggml.token_type'') of
        Some kt \<Rightarrow> if k_type kt = GGUF_T_ARRAY \<and> k_arr_len kt = k_arr_len ktok
                   then map (type_at (k_arr_data kt)) [0..<n] else replicate n 0
      | None \<Rightarrow> replicate n 0)"

definition merge_table :: "gguf \<Rightarrow> int \<Rightarrow> int \<Rightarrow> table option" where
  "merge_table g cap used =
     (case gguf_find g (ascii ''tokenizer.ggml.merges'') of
        Some km \<Rightarrow> if k_type km = GGUF_T_ARRAY \<and> k_arr_type km = GGUF_T_STRING
                   then load_merges km (nat (k_arr_len km)) 0 cap used (map_init (i32 (k_arr_len km)))
                   else Some []
      | None \<Rightarrow> Some [])"

definition meta_int :: "gguf \<Rightarrow> string \<Rightarrow> int \<Rightarrow> int" where
  "meta_int g key dflt = (case gguf_i64 g (ascii key) of Some v \<Rightarrow> i32 v | None \<Rightarrow> dflt)"

definition load_bpe :: "gguf \<Rightarrow> gguf_kv \<Rightarrow> int \<Rightarrow> int \<Rightarrow> eng_bpe option" where
  "load_bpe g ktok n cap =
     (case load_tokens ktok (nat n) 0 cap 0 (map_init n) of
        None \<Rightarrow> None
      | Some (toks, used, vocab) \<Rightarrow>
          (case merge_table g cap used of
             None \<Rightarrow> None
           | Some mg \<Rightarrow>
               Some (index_specials
                 \<lparr>b_tok = toks, b_type = token_types g ktok (nat n), b_vocab = vocab, b_merge = mg,
                  b_bos = meta_int g ''tokenizer.ggml.bos_token_id'' (-1),
                  b_eos = meta_int g ''tokenizer.ggml.eos_token_id'' (-1),
                  b_add_bos = meta_int g ''tokenizer.ggml.add_bos_token'' 0,
                  b_spec = [], b_spec_first = []\<rparr>)))"

definition eng_bpe_from_gguf :: "gguf \<Rightarrow> eng_bpe option" where
  "eng_bpe_from_gguf g =
     (case gguf_find g (ascii ''tokenizer.ggml.tokens'') of
        None \<Rightarrow> None
      | Some ktok \<Rightarrow>
          if k_type ktok \<noteq> GGUF_T_ARRAY \<or> k_arr_type ktok \<noteq> GGUF_T_STRING then None
          else
            let n = i32 (k_arr_len ktok) in
            if n < 0 then None else load_bpe g ktok n (int (length (gg_blob g)) + n + 8))"

definition eng_bpe_vocab_size :: "eng_bpe \<Rightarrow> nat" where
  "eng_bpe_vocab_size b = length (b_tok b)"

definition eng_bpe_token_text :: "eng_bpe \<Rightarrow> int \<Rightarrow> byte list option" where
  "eng_bpe_token_text b tid = (if tid < 0 \<or> tid \<ge> int (length (b_tok b)) then None else Some (b_tok b ! nat tid))"

definition eng_bpe_find :: "eng_bpe \<Rightarrow> byte list \<Rightarrow> int" where
  "eng_bpe_find b text = map_get (b_vocab b) text"

section \<open>Decoding\<close>

text \<open>One codepoint of stored text: its value and the bytes it takes.\<close>

definition utf8_step :: "byte list \<Rightarrow> int \<times> nat" where
  "utf8_step s =
     (let c = uint (hd s); n = length s in
      if c < 0x80 then (c, 1)
      else if c AND 0xE0 = 0xC0 \<and> 1 < n then (push_bit 6 (c AND 0x1F) OR (uint (s ! 1) AND 0x3F), 2)
      else if c AND 0xF0 = 0xE0 \<and> 2 < n
           then (push_bit 12 (c AND 0x0F) OR push_bit 6 (uint (s ! 1) AND 0x3F) OR (uint (s ! 2) AND 0x3F), 3)
      else (c, 1))"

lemma utf8_step_pos: "0 < snd (utf8_step s)"
  by (simp add: utf8_step_def Let_def)

function decode_text :: "byte list \<Rightarrow> int \<Rightarrow> byte list option" where
  "decode_text [] cap = Some []"
| "decode_text (c # s) cap =
     (let (cp, adv) = utf8_step (c # s);
          bt = (if 0 \<le> cp \<and> cp < 0x200 then u2b cp else -1)
      in if bt \<ge> 0
         then if 1 > cap then None
              else map_option (\<lambda>r. word_of_int bt # r) (decode_text (drop adv (c # s)) (cap - 1))
         else if int adv > cap then None
              else map_option (\<lambda>r. take adv (c # s) @ r) (decode_text (drop adv (c # s)) (cap - int adv)))"
  by pat_completeness auto
termination
proof (relation "measure (\<lambda>(s, cap). length s)")
  fix c s cap x cp adv bt
  assume "x = utf8_step (c # s)" "(cp, adv) = x"
  then have "0 < adv" using utf8_step_pos [of "c # s"] by (metis snd_conv)
  then show "((drop adv (c # s), cap - 1), c # s, cap) \<in> measure (\<lambda>(s, cap). length s)"
    and "((drop adv (c # s), cap - int adv), c # s, cap) \<in> measure (\<lambda>(s, cap). length s)"
    by simp_all
qed simp

declare decode_text.simps [simp del]

definition eng_bpe_decode_one :: "eng_bpe \<Rightarrow> int \<Rightarrow> int \<Rightarrow> byte list option" where
  "eng_bpe_decode_one b tid cap =
     (if tid < 0 \<or> tid \<ge> int (length (b_tok b)) then None else decode_text (b_tok b ! nat tid) cap)"

fun eng_bpe_decode :: "eng_bpe \<Rightarrow> int list \<Rightarrow> int \<Rightarrow> byte list option" where
  "eng_bpe_decode b [] cap = Some []"
| "eng_bpe_decode b (tid # ids) cap =
     (case eng_bpe_decode_one b tid cap of
        None \<Rightarrow> None
      | Some k \<Rightarrow> map_option (\<lambda>r. k @ r) (eng_bpe_decode b ids (cap - int (length k))))"

section \<open>Pre-tokenization\<close>

definition is_letter :: "byte \<Rightarrow> bool" where
  "is_letter c \<longleftrightarrow> (97 \<le> c \<and> c \<le> 122) \<or> (65 \<le> c \<and> c \<le> 90) \<or> 0x80 \<le> c"

definition is_digit :: "byte \<Rightarrow> bool" where
  "is_digit c \<longleftrightarrow> 48 \<le> c \<and> c \<le> 57"

definition is_space :: "byte \<Rightarrow> bool" where
  "is_space c \<longleftrightarrow> c = 32 \<or> c = 9 \<or> c = 10 \<or> c = 13 \<or> c = 11 \<or> c = 12"

definition is_newline :: "byte \<Rightarrow> bool" where
  "is_newline c \<longleftrightarrow> c = 13 \<or> c = 10"

definition eng_bpe_ascii_exact :: "byte list \<Rightarrow> bool" where
  "eng_bpe_ascii_exact text \<longleftrightarrow> list_all (\<lambda>c. \<not> 0x80 \<le> c) text"

text \<open>The loops of the form \<open>while (j < n && P(s[j])) j++\<close>.\<close>

function run :: "(byte \<Rightarrow> bool) \<Rightarrow> byte list \<Rightarrow> nat \<Rightarrow> nat \<Rightarrow> nat" where
  "run P s n j = (if j < n \<and> P (s ! j) then run P s n (j + 1) else j)"
  by pat_completeness auto
termination by (relation "measure (\<lambda>(P, s, n, j). n - j)") auto

declare run.simps [simp del]

definition contractions :: "byte list list" where
  "contractions = map ascii [''s'', ''t'', ''m'', ''d'', ''re'', ''ve'', ''ll'']"

definition contraction :: "byte list \<Rightarrow> nat \<Rightarrow> nat \<Rightarrow> nat option" where
  "contraction s n i =
     map_option (\<lambda>c. i + 1 + length c)
       (find (\<lambda>c. i + 1 + length c \<le> n \<and> map (\<lambda>a. a OR 0x20) (take (length c) (drop (i + 1) s)) = c)
         contractions)"

definition is_punct :: "byte \<Rightarrow> bool" where
  "is_punct c \<longleftrightarrow> \<not> is_space c \<and> \<not> is_letter c \<and> \<not> is_digit c"

definition next_space :: "byte list \<Rightarrow> nat \<Rightarrow> nat \<Rightarrow> nat" where
  "next_space s n i =
     (let j = run (\<lambda>c. is_space c \<and> \<not> is_newline c) s n i in
      if j < n \<and> is_newline (s ! j) then run is_newline s n j
      else if j < n \<and> i + 1 < j then j - 1
      else if i < j then j else i + 1)"

definition next_fragment :: "byte list \<Rightarrow> nat \<Rightarrow> nat \<Rightarrow> nat" where
  "next_fragment s n i =
     (let c = s ! i in
      case (if c = 39 \<and> i + 1 < n then contraction s n i else None) of
        Some e \<Rightarrow> e
      | None \<Rightarrow>
          let j = (if \<not> is_letter c \<and> \<not> is_digit c \<and> \<not> is_newline c then i + 1 else i) in
          if j < n \<and> is_letter (s ! j) then run is_letter s n j
          else if is_digit c then i + 1
          else
            let j = (if c = 32 then i + 1 else i) in
            if (\<not> is_space c \<or> (c = 32 \<and> i + 1 < n \<and> \<not> is_space (s ! (i + 1)))) \<and> j < n \<and> is_punct (s ! j)
            then run is_newline s n (run is_punct s n j)
            else if is_space c then next_space s n i
            else i + 1)"

section \<open>Encoding\<close>

text \<open>A symbol is the offset and the length of a piece of the fragment's mapped text.\<close>

type_synonym sym = "nat \<times> nat"

definition piece :: "byte list \<Rightarrow> sym \<Rightarrow> byte list" where
  "piece buf s = take (snd s) (drop (fst s) buf)"

text \<open>The pair search: \<open>best\<close> and \<open>best_rank\<close>, scanning from index \<open>i\<close>.\<close>

fun best_pair :: "table \<Rightarrow> byte list \<Rightarrow> sym list \<Rightarrow> nat \<Rightarrow> (nat \<times> int) option \<Rightarrow> (nat \<times> int) option" where
  "best_pair m buf (x # y # zs) i best =
     (let r = map_get m (piece buf (fst x, snd x + snd y)) in
      best_pair m buf (y # zs) (i + 1)
        (if r < 0 then best
         else case best of None \<Rightarrow> Some (i, r) | Some (b, br) \<Rightarrow> if r < br then Some (i, r) else best))"
| "best_pair m buf xs i best = best"

definition join_at :: "nat \<Rightarrow> sym list \<Rightarrow> sym list" where
  "join_at b sy = take b sy @ (fst (sy ! b), snd (sy ! b) + snd (sy ! (b + 1))) # drop (b + 2) sy"

lemma best_pair_bound:
  "best_pair m buf sy i best = Some (b, r) \<Longrightarrow> best = Some (b, r) \<or> (i \<le> b \<and> b + 1 < i + length sy)"
  by (induction m buf sy i best rule: best_pair.induct)
     (fastforce simp: Let_def split: if_splits option.splits)+

function merge_loop :: "table \<Rightarrow> byte list \<Rightarrow> sym list \<Rightarrow> sym list" where
  "merge_loop m buf sy =
     (case best_pair m buf sy 0 None of None \<Rightarrow> sy | Some (b, _) \<Rightarrow> merge_loop m buf (join_at b sy))"
  by pat_completeness auto
termination
  by (relation "measure (\<lambda>(m, buf, sy). length sy)")
     (use best_pair_bound in \<open>fastforce simp: join_at_def\<close>)+

declare merge_loop.simps [simp del]

fun emit :: "table \<Rightarrow> byte list \<Rightarrow> sym list \<Rightarrow> int \<Rightarrow> int list \<Rightarrow> int list option" where
  "emit m buf [] cap outp = Some outp"
| "emit m buf (s # sy) cap outp =
     (let tid = map_get m (piece buf s) in
      if int (length outp) \<ge> cap then None
      else if tid \<ge> 0 then emit m buf sy cap (outp @ [tid]) else None)"

definition merge_fragment :: "eng_bpe \<Rightarrow> byte list \<Rightarrow> sym list \<Rightarrow> int \<Rightarrow> int list \<Rightarrow> int list option" where
  "merge_fragment b buf sy cap outp = emit (b_vocab b) buf (merge_loop (b_merge b) buf sy) cap outp"

text \<open>The longest special token that stands at position \<open>j\<close>, the first one of that length.\<close>

definition special_step :: "eng_bpe \<Rightarrow> byte list \<Rightarrow> nat \<Rightarrow> (nat \<times> nat) option \<Rightarrow> nat \<Rightarrow> (nat \<times> nat) option" where
  "special_step b text j best t =
     (let tl = length (b_tok b ! t); sp_len = (case best of None \<Rightarrow> 0 | Some (_, l) \<Rightarrow> l) in
      if tl \<le> sp_len \<or> j + tl > length text then best
      else if take tl (drop j text) = b_tok b ! t then Some (t, tl) else best)"

definition special_at :: "eng_bpe \<Rightarrow> byte list \<Rightarrow> nat \<Rightarrow> (nat \<times> nat) option" where
  "special_at b text j = foldl (special_step b text j) None (b_spec b)"

definition special_ok :: "eng_bpe \<Rightarrow> byte list \<Rightarrow> nat \<Rightarrow> nat set \<Rightarrow> (nat \<times> nat) option \<Rightarrow> bool" where
  "special_ok b text j S best \<longleftrightarrow>
     (case best of None \<Rightarrow> True
      | Some (t, l) \<Rightarrow> 0 < l \<and> j + l \<le> length text \<and> t \<in> S \<and> take l (drop j text) = b_tok b ! t
                       \<and> l = length (b_tok b ! t))"

fun find_special :: "eng_bpe \<Rightarrow> byte list \<Rightarrow> nat list \<Rightarrow> (nat \<times> nat \<times> nat) option" where
  "find_special b text [] = None"
| "find_special b text (j # js) =
     (if text ! j \<notin> set (b_spec_first b) then find_special b text js
      else case special_at b text j of
             None \<Rightarrow> find_special b text js
           | Some (t, l) \<Rightarrow> Some (j, t, l))"

text \<open>Byte-mapping of a fragment into a buffer of 4096 bytes.\<close>

fun map_bytes :: "byte list \<Rightarrow> byte list \<Rightarrow> sym list \<Rightarrow> (byte list \<times> sym list) option" where
  "map_bytes [] buf sy = Some (buf, sy)"
| "map_bytes (c # cs) buf sy =
     (if int (length buf + length (b2u c)) > 4096 then None
      else map_bytes cs (buf @ b2u c) (sy @ [(length buf, length (b2u c))]))"

definition encode_fragment :: "eng_bpe \<Rightarrow> byte list \<Rightarrow> int \<Rightarrow> int list \<Rightarrow> int list option" where
  "encode_fragment b frag cap outp =
     (if int (length frag) > 1024 then None
      else case map_bytes frag [] [] of
             None \<Rightarrow> None
           | Some (buf, sy) \<Rightarrow> merge_fragment b buf sy cap outp)"

lemma run_ge: "j \<le> run P s n j"
  by (induction P s n j rule: run.induct) (subst run.simps, auto)

lemma run_le: "j \<le> n \<Longrightarrow> run P s n j \<le> n"
  by (induction P s n j rule: run.induct) (subst run.simps, auto)

lemma run_gt: "j < n \<Longrightarrow> P (s ! j) \<Longrightarrow> j < run P s n j"
  using run_ge [of "j + 1" P s n] by (subst run.simps) simp

lemma contraction_bounds: "contraction s n i = Some e \<Longrightarrow> i < e \<and> e \<le> n"
  by (auto simp: contraction_def find_Some_iff)

lemma next_space_bounds: "i < n \<Longrightarrow> i < next_space s n i \<and> next_space s n i \<le> n"
  using run_ge [of i "\<lambda>c. is_space c \<and> \<not> is_newline c" s n]
    run_le [of i n "\<lambda>c. is_space c \<and> \<not> is_newline c" s]
    run_le [of _ n is_newline s] run_gt [of _ n is_newline s]
  by (force simp: next_space_def Let_def)

lemma next_fragment_bounds:
  assumes "i < n"
  shows "i < next_fragment s n i \<and> next_fragment s n i \<le> n"
proof -
  define ok where "ok e \<longleftrightarrow> i < e \<and> e \<le> n" for e
  define j1 where "j1 = (if \<not> is_letter (s ! i) \<and> \<not> is_digit (s ! i) \<and> \<not> is_newline (s ! i) then i + 1 else i)"
  define j2 where "j2 = (if s ! i = 32 then i + 1 else i)"
  have j: "i \<le> j1" "i \<le> j2" by (simp_all add: j1_def j2_def)
  have letters: "ok (run is_letter s n j1)" if "j1 < n" "is_letter (s ! j1)"
    using run_gt [of j1 n is_letter s] run_le [of j1 n is_letter s] that j by (simp add: ok_def)
  have punct: "ok (run is_newline s n (run is_punct s n j2))" if "j2 < n" "is_punct (s ! j2)"
    using run_gt [of j2 n is_punct s] run_ge [of "run is_punct s n j2" is_newline s n]
      run_le [of j2 n is_punct s] run_le [of "run is_punct s n j2" n is_newline s] that j
    by (simp add: ok_def)
  have contr: "ok e" if "(if c then contraction s n i else None) = Some e" for c e
    using contraction_bounds [of s n i] that by (simp add: ok_def split: if_splits)
  have rest: "ok (next_space s n i)" "ok (i + 1)"
    using next_space_bounds [OF assms, of s] assms by (simp_all add: ok_def)
  have "ok (next_fragment s n i)"
    unfolding next_fragment_def Let_def j1_def [symmetric] j2_def [symmetric]
    using letters punct rest by (simp add: contr split: option.split)
  then show ?thesis by (simp add: ok_def)
qed

lemma special_step_keeps:
  assumes "special_ok b text j S best" "t \<in> S"
  shows "special_ok b text j S (special_step b text j best t)"
  using assms by (auto simp: special_step_def special_ok_def Let_def)

lemma special_fold_ok:
  "special_ok b text j S best \<Longrightarrow> set ts \<subseteq> S \<Longrightarrow> special_ok b text j S (foldl (special_step b text j) best ts)"
  by (induction ts arbitrary: best) (simp_all add: special_step_keeps)

lemma special_at_pos:
  assumes "special_at b s j = Some (t, l)"
  shows "0 < l \<and> j + l \<le> length s \<and> t \<in> set (b_spec b) \<and> take l (drop j s) = b_tok b ! t \<and> l = length (b_tok b ! t)"
  using special_fold_ok [of b s j "set (b_spec b)" None "b_spec b"] assms
  unfolding special_at_def special_ok_def by auto

lemma find_special_pos:
  "find_special b text js = Some (j, t, l) \<Longrightarrow>
     j \<in> set js \<and> 0 < l \<and> j + l \<le> length text \<and> t \<in> set (b_spec b) \<and> take l (drop j text) = b_tok b ! t"
  by (induction js) (auto split: if_splits option.splits dest: special_at_pos)

text \<open>
  The scan of \<open>eng_bpe_encode\<close> from position \<open>i\<close>, with the ids written so far.  The text is the
  \<open>len\<close> bytes the caller passes (or those before the NUL when \<open>len\<close> is negative).
\<close>

definition next_special :: "eng_bpe \<Rightarrow> byte list \<Rightarrow> bool \<Rightarrow> nat \<Rightarrow> (nat \<times> nat \<times> nat) option" where
  "next_special b text allow_special i =
     (if allow_special \<and> b_spec b \<noteq> [] then find_special b text [i..<length text] else None)"

definition chunk_end :: "byte list \<Rightarrow> (nat \<times> nat \<times> nat) option \<Rightarrow> nat" where
  "chunk_end text sp = (case sp of Some (j, _, _) \<Rightarrow> j | None \<Rightarrow> length text)"

lemma next_special_pos:
  "next_special b text allow_special i = Some (j, t, l) \<Longrightarrow>
     i \<le> j \<and> j < length text \<and> 0 < l \<and> j + l \<le> length text \<and> t \<in> set (b_spec b) \<and> take l (drop j text) = b_tok b ! t"
  unfolding next_special_def by (auto split: if_splits dest: find_special_pos)

lemma chunk_end_le: "sp = next_special b text allow_special i \<Longrightarrow> chunk_end text sp \<le> length text"
  by (auto simp: chunk_end_def split: option.split dest: next_special_pos)

function encode_from :: "eng_bpe \<Rightarrow> byte list \<Rightarrow> int \<Rightarrow> bool \<Rightarrow> nat \<Rightarrow> int list \<Rightarrow> int list option" where
  "encode_from b text cap allow_special i outp =
     (if i < length text then
        let sp = next_special b text allow_special i in
        if i \<ge> chunk_end text sp then
          (case sp of
             None \<Rightarrow> None
           | Some (sp_at, sp_id, sp_len) \<Rightarrow>
               if int (length outp) \<ge> cap then None
               else encode_from b text cap allow_special (sp_at + sp_len) (outp @ [int sp_id]))
        else
          let fend = next_fragment text (chunk_end text sp) i in
          (case encode_fragment b (take (fend - i) (drop i text)) cap outp of
             None \<Rightarrow> None
           | Some outp \<Rightarrow> encode_from b text cap allow_special fend outp)
      else Some outp)"
  by pat_completeness auto
termination
proof (relation "measure (\<lambda>(b, text, cap, sp, i, outp). length text - i)", goal_cases)
  case (2 b s cap allow_special i outp sp x2 sp_at y sp_id sp_len)
  then show ?case using next_special_pos [of b s allow_special i sp_at sp_id sp_len] by auto
next
  case (3 b s cap allow_special i outp sp fend x2)
  then show ?case using next_fragment_bounds [of i "chunk_end s sp" s] chunk_end_le [of sp b s allow_special i]
    by auto
qed simp

declare encode_from.simps [simp del]

definition eng_bpe_encode :: "eng_bpe \<Rightarrow> byte list \<Rightarrow> int \<Rightarrow> bool \<Rightarrow> int list option" where
  "eng_bpe_encode b text cap allow_special = encode_from b text cap allow_special 0 []"

end
