(* ===== verification/Bpe_Map.thy ===== *)
theory Bpe_Map
  imports Bpe
begin

text \<open>
  The hash map of \<^verbatim>\<open>tokenizer/bpe.c\<close> against the contract its callers rely on: a table built
  for \<open>want\<close> strings takes \<open>want\<close> insertions, every probe ends, and a lookup returns the value of
  the first insertion of a string or -1.  The contract is the locale \<open>string_map\<close>; loading a
  vocabulary is proved once inside it.
\<close>

section \<open>The contract\<close>

locale string_map =
  fixes init :: "int \<Rightarrow> 'm" and put :: "'m \<Rightarrow> byte list \<Rightarrow> int \<Rightarrow> 'm option"
    and get :: "'m \<Rightarrow> byte list \<Rightarrow> int" and room :: "'m \<Rightarrow> nat \<Rightarrow> bool"
  assumes init_room: "0 \<le> w \<Longrightarrow> w \<le> 2 ^ 29 \<Longrightarrow> room (init w) (nat w)"
    and init_get: "0 \<le> w \<Longrightarrow> w \<le> 2 ^ 29 \<Longrightarrow> get (init w) s = -1"
    and put_ok: "room m (Suc n) \<Longrightarrow> 0 \<le> v \<Longrightarrow>
      \<exists>m'. put m s v = Some m' \<and> room m' n \<and> (\<forall>t. get m' t = (if t = s \<and> get m s = -1 then v else get m t))"
    and room_less: "room m n \<Longrightarrow> k \<le> n \<Longrightarrow> room m k"
begin

fun put_list :: "'m \<Rightarrow> (byte list \<times> int) list \<Rightarrow> 'm option" where
  "put_list m [] = Some m"
| "put_list m ((s, v) # kvs) = (case put m s v of None \<Rightarrow> None | Some m \<Rightarrow> put_list m kvs)"

lemma put_list_total:
  "room m (length kvs) \<Longrightarrow> (\<forall>kv\<in>set kvs. 0 \<le> snd kv) \<Longrightarrow> \<exists>m'. put_list m kvs = Some m'"
proof (induction kvs arbitrary: m)
  case (Cons kv kvs)
  obtain s v where kv: "kv = (s, v)" by (cases kv)
  from put_ok [of m "length kvs" v s] Cons.prems kv obtain m1
    where "put m s v = Some m1" "room m1 (length kvs)" by auto
  with Cons.IH [of m1] Cons.prems(2) kv show ?case by auto
qed simp

lemma put_list_get:
  assumes "put_list m kvs = Some m'" "room m (length kvs)" "\<forall>kv\<in>set kvs. 0 \<le> snd kv"
  shows "get m' t = (if get m t = -1 then (case map_of kvs t of Some v \<Rightarrow> v | None \<Rightarrow> -1) else get m t)"
  using assms
proof (induction kvs arbitrary: m)
  case (Cons kv kvs)
  obtain s v where kv: "kv = (s, v)" by (cases kv)
  then have v: "0 \<le> v" using Cons.prems(3) by simp
  from put_ok [of m "length kvs" v s] Cons.prems kv v obtain m1
    where m1: "put m s v = Some m1" "room m1 (length kvs)"
      and g: "\<And>t. get m1 t = (if t = s \<and> get m s = -1 then v else get m t)" by auto
  have "get m' t = (if get m1 t = -1 then (case map_of kvs t of Some v \<Rightarrow> v | None \<Rightarrow> -1) else get m1 t)"
    using Cons.IH [of m1] Cons.prems(1,3) kv m1 by auto
  with g [of t] v kv show ?case by auto
qed simp

text \<open>Building a table from scratch: a lookup gives the first entry of the list.\<close>

lemma built_get:
  assumes "put_list (init w) kvs = Some m'" "0 \<le> w" "w \<le> 2 ^ 29" "length kvs \<le> nat w"
    and "\<forall>kv\<in>set kvs. 0 \<le> snd kv"
  shows "get m' t = (case map_of kvs t of Some v \<Rightarrow> v | None \<Rightarrow> -1)"
  using put_list_get [where t = t, OF assms(1) _ assms(5)] room_less [OF init_room [OF assms(2,3)] assms(4)]
    init_get [OF assms(2,3), of t] by simp

end

section \<open>Probing\<close>

definition pow2_len :: "table \<Rightarrow> bool" where
  "pow2_len m \<longleftrightarrow> (\<exists>k. k < 64 \<and> length m = 2 ^ k)"

lemma mask_index:
  assumes "pow2_len m"
  shows "unat (w AND (of_nat (length m) - 1)) = unat (w :: 64 word) mod length m"
proof -
  obtain k where k: "k < 64" "length m = 2 ^ k" using assms by (auto simp: pow2_len_def)
  have "w AND (of_nat (length m) - 1) = take_bit k w"
    by (simp add: k(2) take_bit_eq_mask mask_eq_exp_minus_1)
  then have "unat (w AND (of_nat (length m) - 1)) = take_bit k (unat w)"
    by (simp only: unsigned_take_bit_eq)
  then show ?thesis by (simp only: take_bit_eq_mod k(2))
qed

lemma pow2_len_pos: "pow2_len m \<Longrightarrow> 0 < length m"
  by (auto simp: pow2_len_def)

lemma next_index:
  assumes "pow2_len m"
  shows "unat ((h + 1) AND (of_nat (length m) - 1)) = (unat (h :: 64 word) + 1) mod length m"
proof -
  obtain k where k: "k < 64" "length m = 2 ^ k" using assms by (auto simp: pow2_len_def)
  have dvd: "(2 ^ k :: nat) dvd 2 ^ 64" using k by (intro le_imp_power_dvd) simp
  have "unat (h + 1) = (unat h + 1) mod 2 ^ 64" by (simp add: unat_word_ariths)
  then have "unat (h + 1) mod 2 ^ k = (unat h + 1) mod 2 ^ k"
    using mod_mod_cancel [OF dvd, of "unat h + 1"] by (simp only:)
  with mask_index [OF assms, of "h + 1"] show ?thesis unfolding k(2) by (simp only:)
qed

text \<open>Slot \<open>j\<close> of the probe sequence that starts at index \<open>i\<close>.\<close>

abbreviation step_slot :: "table \<Rightarrow> nat \<Rightarrow> nat \<Rightarrow> nat" where
  "step_slot m i j \<equiv> (i + j) mod length m"

definition other :: "table \<Rightarrow> byte list \<Rightarrow> nat \<Rightarrow> bool" where
  "other m s i \<longleftrightarrow> (\<exists>k v. m ! i = Some (k, v) \<and> k \<noteq> s)"

lemma step_slot_Suc: "step_slot m ((i + 1) mod length m) j = step_slot m i (Suc j)"
  by (simp add: mod_add_left_eq)

lemma probe_Some:
  assumes "probe m s h n = Some h'" "pow2_len m" "unat h < length m"
  shows "\<exists>j<n. unat h' = step_slot m (unat h) j \<and> \<not> other m s (unat h') \<and> (\<forall>j'<j. other m s (step_slot m (unat h) j'))"
  using assms
proof (induction m s h n rule: probe.induct)
  case (2 m s h n)
  show ?case
  proof (cases "other m s (unat h)")
    case False
    then have "h' = h" using 2(2) by (auto simp: other_def split: option.splits if_splits)
    then show ?thesis using False 2(4) by (intro exI [of _ 0]) simp
  next
    case True
    then obtain k v where kv: "m ! unat h = Some (k, v)" "k \<noteq> s" by (auto simp: other_def)
    let ?h = "(h + 1) AND (of_nat (length m) - 1)"
    have nx: "unat ?h = (unat h + 1) mod length m" by (rule next_index [OF 2(3)])
    have "probe m s ?h n = Some h'" using 2(2) kv by simp
    from 2(1) [OF kv(1) refl kv(2) this 2(3)] nx pow2_len_pos [OF 2(3)]
    obtain j where j: "j < n" "unat h' = step_slot m (unat ?h) j" "\<not> other m s (unat h')"
      "\<And>j'. j' < j \<Longrightarrow> other m s (step_slot m (unat ?h) j')" by auto
    have "other m s (step_slot m (unat h) j')" if "j' < Suc j" for j'
      using j(4) [of "j' - 1"] True that 2(4) unfolding nx step_slot_Suc by (cases j') simp_all
    with j show ?thesis unfolding nx step_slot_Suc by (intro exI [of _ "Suc j"]) simp
  qed
qed simp

lemma probe_ends:
  assumes "\<not> other m s (step_slot m (unat h) j)" "j < n" "pow2_len m" "unat h < length m"
  shows "probe m s h n \<noteq> None"
  using assms
proof (induction m s h n arbitrary: j rule: probe.induct)
  case (2 m s h n)
  show ?case
  proof (cases "other m s (unat h)")
    case False
    then show ?thesis by (auto simp: other_def split: option.splits)
  next
    case True
    then obtain k v where kv: "m ! unat h = Some (k, v)" "k \<noteq> s" by (auto simp: other_def)
    with True 2(2,5) obtain j0 where j0: "j = Suc j0" by (cases j) auto
    let ?h = "(h + 1) AND (of_nat (length m) - 1)"
    have nx: "unat ?h = (unat h + 1) mod length m" by (rule next_index [OF 2(4)])
    have "probe m s ?h n \<noteq> None"
      using 2(1) [OF kv(1) refl kv(2), of j0] 2(2,3,4) j0 nx pow2_len_pos [OF 2(4)]
      unfolding nx step_slot_Suc by simp
    then show ?thesis using kv by simp
  qed
qed simp

section \<open>The table invariant\<close>

text \<open>Every entry can be reached: the slots from its home to it hold other strings.\<close>

definition reach_slot :: "table \<Rightarrow> byte list \<Rightarrow> nat \<Rightarrow> bool" where
  "reach_slot m k i \<longleftrightarrow>
     (\<exists>j<length m. i = step_slot m (unat (home m k)) j \<and> (\<forall>j'<j. other m k (step_slot m (unat (home m k)) j')))"

definition table_inv :: "table \<Rightarrow> bool" where
  "table_inv m \<longleftrightarrow> pow2_len m \<and>
     (\<forall>i<length m. \<forall>k v. m ! i = Some (k, v) \<longrightarrow> 0 \<le> v \<and> reach_slot m k i)"

definition used_slots :: "table \<Rightarrow> nat" where
  "used_slots m = length (filter (\<lambda>x. x \<noteq> None) m)"

definition room :: "table \<Rightarrow> nat \<Rightarrow> bool" where
  "room m n \<longleftrightarrow> table_inv m \<and> used_slots m + n < length m"

lemma home_less: "pow2_len m \<Longrightarrow> unat (home m s) < length m"
  using pow2_len_pos [of m] by (simp add: home_def mask_index)

lemma home_cong: "length m' = length m \<Longrightarrow> home m' s = home m s"
  by (simp add: home_def)

lemma table_inv_len [simp]: "table_inv m \<Longrightarrow> pow2_len m"
  by (simp add: table_inv_def)

lemma table_invD:
  "table_inv m \<Longrightarrow> i < length m \<Longrightarrow> m ! i = Some (k, v) \<Longrightarrow> 0 \<le> v \<and> reach_slot m k i"
  by (simp add: table_inv_def)

text \<open>Every slot is on every probe sequence.\<close>

lemma slot_on_path:
  assumes "i < length m" "h < length m"
  shows "\<exists>j<length m. i = step_slot m h j"
proof (cases "h \<le> i")
  case True
  then show ?thesis using assms by (intro exI [of _ "i - h"]) simp
next
  case False
  then have "(h + (i + length m - h)) mod length m = i" using assms by simp
  then show ?thesis using assms False by (intro exI [of _ "i + length m - h"]) simp
qed

lemma probe_slot:
  assumes "probe m s (home m s) (length m) = Some h" "pow2_len m"
  shows "unat h < length m \<and> \<not> other m s (unat h) \<and> reach_slot m s (unat h)"
  using probe_Some [OF assms home_less [OF assms(2)]] pow2_len_pos [OF assms(2)]
  by (auto simp: reach_slot_def)

lemma probe_finds:
  assumes "\<not> other m s i" "i < length m" "pow2_len m"
  shows "probe m s (home m s) (length m) \<noteq> None"
  using slot_on_path [OF assms(2) home_less [OF assms(3), of s]] probe_ends [of m s "home m s" _ "length m"]
    assms home_less [OF assms(3), of s] by blast

text \<open>Two slots that a probe for the same string can stop at are the same slot.\<close>

lemma reach_slot_unique:
  assumes "reach_slot m k i" "reach_slot m k i'" "\<not> other m k i" "\<not> other m k i'"
  shows "i = i'"
  using assms unfolding reach_slot_def by (metis linorder_neqE_nat)

lemma get_stored:
  assumes "table_inv m" "i < length m" "m ! i = Some (k, v)"
  shows "map_get m k = v"
proof -
  have no: "\<not> other m k i" using assms(3) by (simp add: other_def)
  from probe_finds [OF no assms(2)] assms(1) obtain h
    where h: "probe m k (home m k) (length m) = Some h" by auto
  from probe_slot [OF h] assms(1) have "unat h = i"
    using reach_slot_unique [OF _ _ _ no, of "unat h"] table_invD [OF assms] by simp
  with h assms show ?thesis by (auto simp: map_get_def)
qed

lemma get_absent:
  assumes "table_inv m" "\<And>i v. i < length m \<Longrightarrow> m ! i \<noteq> Some (k, v)"
  shows "map_get m k = -1"
  using probe_slot [of m k] assms
  by (force simp: map_get_def other_def split: option.split)

section \<open>Insertion\<close>

lemma free_slot:
  assumes "used_slots m < length m"
  shows "\<exists>i<length m. m ! i = None"
proof (rule ccontr)
  assume "\<not> ?thesis"
  then have "\<forall>x\<in>set m. x \<noteq> None" by (metis in_set_conv_nth)
  then show False using assms by (simp add: used_slots_def)
qed

lemma used_fill: "i < length m \<Longrightarrow> m ! i = None \<Longrightarrow> used_slots (m[i := Some e]) = Suc (used_slots m)"
proof (induction m arbitrary: i)
  case (Cons x m)
  then show ?case by (cases i) (simp_all add: used_slots_def)
qed simp

lemma other_fill: "m ! i = None \<Longrightarrow> other m k i' \<Longrightarrow> other (m[i := Some e]) k i'"
  by (cases "i = i'") (auto simp: other_def)

lemma reach_slot_fill:
  "m ! i = None \<Longrightarrow> reach_slot m k i' \<Longrightarrow> reach_slot (m[i := Some e]) k i'"
  unfolding reach_slot_def by (fastforce simp: home_cong [of "m[i := Some e]" m] intro: other_fill)

lemma fill_inv:
  assumes inv: "table_inv m" and i: "i < length m" "m ! i = None" "reach_slot m s i" and v: "0 \<le> v"
  shows "table_inv (m[i := Some (s, v)])"
proof -
  have "0 \<le> v' \<and> reach_slot (m[i := Some (s, v)]) k i'"
    if "i' < length m" "m[i := Some (s, v)] ! i' = Some (k, v')" for i' k v'
    using that table_invD [OF inv, of i' k v'] i v by (cases "i' = i") (auto intro: reach_slot_fill)
  then show ?thesis using inv by (simp add: table_inv_def pow2_len_def)
qed

lemma fill_get:
  assumes inv: "table_inv m" and i: "i < length m" "m ! i = None" "reach_slot m s i" and v: "0 \<le> v"
  shows "map_get (m[i := Some (s, v)]) t = (if t = s then v else map_get m t)"
proof -
  let ?m = "m[i := Some (s, v)]"
  have inv': "table_inv ?m" by (rule fill_inv [OF assms])
  show ?thesis
  proof (cases "t = s")
    case True
    then show ?thesis using get_stored [OF inv', of i s v] i by simp
  next
    case ts: False
    show ?thesis
    proof (cases "\<exists>i' v'. i' < length m \<and> m ! i' = Some (t, v')")
      case True
      then obtain i' v' where e: "i' < length m" "m ! i' = Some (t, v')" by blast
      then have "i' \<noteq> i" using i(2) by auto
      with e get_stored [OF inv e] get_stored [OF inv', of i' t v'] ts show ?thesis by simp
    next
      case False
      then have "map_get m t = -1" "map_get ?m t = -1"
        using get_absent [OF inv, of t] get_absent [OF inv', of t] ts i(1)
        by (auto simp: nth_list_update)
      with ts show ?thesis by simp
    qed
  qed
qed

lemma map_put_ok:
  assumes "room m (Suc n)" "0 \<le> v"
  shows "\<exists>m'. map_put m s v = Some m' \<and> room m' n \<and>
    (\<forall>t. map_get m' t = (if t = s \<and> map_get m s = -1 then v else map_get m t))"
proof -
  have inv: "table_inv m" and len: "used_slots m + Suc n < length m" using assms(1) by (auto simp: room_def)
  then obtain i where i: "i < length m" "m ! i = None" using free_slot [of m] by auto
  then obtain h where h: "probe m s (home m s) (length m) = Some h"
    using probe_finds [of m s i] inv by (auto simp: other_def)
  note slot = probe_slot [OF h table_inv_len [OF inv]]
  show ?thesis
  proof (cases "m ! unat h")
    case None
    have "map_get m s = -1" using h None by (simp add: map_get_def)
    moreover have "map_put m s v = Some (m[unat h := Some (s, v)])" using h None by (simp add: map_put_def)
    ultimately show ?thesis
      using fill_inv [of m "unat h" s v] fill_get [of m "unat h" s v] used_fill [of "unat h" m "(s, v)"] inv slot None assms(2) len
      by (simp add: room_def)
  next
    case (Some e)
    then obtain w where e: "m ! unat h = Some (s, w)" using slot by (cases e) (auto simp: other_def)
    then have "map_get m s \<noteq> -1" using get_stored [OF inv, of "unat h" s w] table_invD [OF inv, of "unat h" s w] slot by simp
    moreover have "map_put m s v = Some m" using h e by (simp add: map_put_def)
    ultimately show ?thesis using inv len by (simp add: room_def)
  qed
qed

section \<open>Initial tables\<close>

lemma grow_cap_ok:
  assumes "0 < cap" "w \<le> 2 ^ 29" "0 \<le> w" "\<exists>k\<le>30. cap = 2 ^ k"
  shows "(\<exists>k\<le>30. grow_cap cap w = 2 ^ k) \<and> w * 2 \<le> grow_cap cap w \<and> cap \<le> grow_cap cap w"
  using assms
proof (induction cap w rule: grow_cap.induct)
  case (1 cap w)
  have iw: "i32 (w * 2) = w * 2" using 1(3,4) by (simp add: in_i32_def)
  show ?case
  proof (cases "cap < w * 2")
    case False
    then show ?thesis using 1(2,5) iw by (subst (1 2 3) grow_cap.simps) simp
  next
    case True
    obtain k where k: "k \<le> 30" "cap = 2 ^ k" using 1(5) by auto
    have "k \<noteq> 30" using True k(2) 1(3) by auto
    then have "\<exists>k\<le>30. cap * 2 = 2 ^ k" using k by (intro exI [of _ "Suc k"]) simp
    moreover have "i32 (cap * 2) = cap * 2" using True 1(2,3) by (simp add: in_i32_def)
    moreover have "grow_cap cap w = grow_cap (i32 (cap * 2)) w"
      using True 1(2) iw by (subst grow_cap.simps) simp
    ultimately show ?thesis using 1(1) True 1(2,3,4) iw by auto
  qed
qed

lemma map_init_room:
  assumes "0 \<le> w" "w \<le> 2 ^ 29"
  shows "room (map_init w) (nat w)" "map_get (map_init w) s = -1"
proof -
  have "\<exists>k\<le>30. (16::int) = 2 ^ k" by (intro exI [of _ 4]) simp
  from grow_cap_ok [of 16 w, OF _ assms(2,1) this] obtain k
    where k: "k \<le> 30" "grow_cap 16 w = 2 ^ k" "w * 2 \<le> grow_cap 16 w" "16 \<le> grow_cap 16 w" by auto
  have len: "length (map_init w) = 2 ^ k" by (simp add: map_init_def k(2) nat_power_eq)
  have inv: "table_inv (map_init w)"
    unfolding table_inv_def pow2_len_def using k(1) len by (auto simp: map_init_def)
  moreover have "used_slots (map_init w) = 0" by (simp add: used_slots_def map_init_def)
  moreover have "nat w < length (map_init w)" using k(3,4) assms(1) by (simp add: map_init_def)
  ultimately show "room (map_init w) (nat w)" by (simp add: room_def)
  show "map_get (map_init w) s = -1" using get_absent [OF inv] by (simp add: map_init_def)
qed

interpretation hm: string_map map_init map_put map_get room
  by unfold_locales (use map_init_room map_put_ok in \<open>auto simp: room_def\<close>)

end
