(* ===== verification/Bpe_Props.thy ===== *)
theory Bpe_Props
  imports Bpe_Map
begin

text \<open>
  Correctness of \<^verbatim>\<open>tokenizer/bpe.c\<close>: the loaded vocabulary answers with the first id of a text,
  the merge loop takes the leftmost pair of lowest rank, and decoding inverts encoding.
\<close>

section \<open>The byte alphabet\<close>

definition alphabet_ok :: "int \<Rightarrow> int \<Rightarrow> bool" where
  "alphabet_ok c cp \<longleftrightarrow>
     0 \<le> cp \<and> cp < 0x200 \<and> (33 \<le> c \<and> c \<le> 126 \<longrightarrow> cp = c) \<and>
     (if cp < 0x80 then uint (word_of_int cp :: byte) = cp
      else let a = uint (word_of_int (0xC0 OR drop_bit 6 cp) :: byte); b = uint (word_of_int (0x80 OR (cp AND 0x3F)) :: byte) in
        \<not> a < 0x80 \<and> a AND 0xE0 = 0xC0 \<and> push_bit 6 (a AND 0x1F) OR (b AND 0x3F) = cp)"

lemma alphabet_checked: "list_all (\<lambda>(c, cp). alphabet_ok c cp) (zip [0..255] cps)"
  by code_simp

lemma length_cps_from: "length (cps_from cs n) = length cs"
  by (induction cs n rule: cps_from.induct) simp_all

lemma length_cps [simp]: "length cps = 256"
  by (simp add: cps_def length_cps_from)

lemma cps_from_range: "x \<in> set (cps_from cs n) \<Longrightarrow> x \<in> set cs \<or> 0x100 + n \<le> x"
  by (induction cs n rule: cps_from.induct) (auto split: if_splits)

lemma distinct_cps_from:
  "distinct cs \<Longrightarrow> \<forall>c\<in>set cs. c < 0x100 \<Longrightarrow> 0 \<le> n \<Longrightarrow> distinct (cps_from cs n)"
proof (induction cs n rule: cps_from.induct)
  case (2 c cs n)
  then show ?case using cps_from_range [of c cs n] cps_from_range [of "0x100 + n" cs "n + 1"] by fastforce
qed simp

lemma distinct_cps: "distinct cps"
  unfolding cps_def by (rule distinct_cps_from) auto

lemma upto_byte: "[0..255] ! unat (c :: byte) = uint c"
proof -
  have "unat c < 256" using unsigned_less [where ?'a = nat, of c] by simp
  then show ?thesis by (subst nth_upto) (linarith, simp)
qed

lemma alphabet_ok_byte: "alphabet_ok (uint c) (cps ! unat (c :: byte))"
proof -
  have len: "unat c < length (zip [0..255::int] cps)" using unsigned_less [where ?'a = nat, of c] by simp
  then have "case zip [0..255] cps ! unat c of (c, cp) \<Rightarrow> alphabet_ok c cp"
    using alphabet_checked by (simp only: list_all_length)
  then show ?thesis using len by (simp add: upto_byte)
qed

lemma utf8_step_b2u: "utf8_step (b2u c @ rest) = (cps ! unat c, length (b2u c))"
  using alphabet_ok_byte [of c]
  by (auto simp: alphabet_ok_def b2u_def utf8_def utf8_step_def Let_def split: if_splits)

text \<open>The inverse table holds the byte of each codepoint of the alphabet.\<close>

lemma table_fold:
  "distinct xs \<Longrightarrow> length xs = length ys \<Longrightarrow> i < length xs \<Longrightarrow> \<forall>x\<in>set xs. x < (0x200 :: int) \<Longrightarrow>
   foldl (\<lambda>t (cp, c). if cp < 0x200 then t(cp := c) else t) f (zip xs ys) (xs ! i) = ys ! i"
proof (induction xs ys arbitrary: i f rule: list_induct2')
  case (4 x xs y ys)
  have keep: "foldl (\<lambda>t (cp, c). if cp < 0x200 then t(cp := c) else t) g (zip xs ys) z = g z"
    if "z \<notin> set xs" for g z
    using that by (induction xs ys arbitrary: g rule: list_induct2') auto
  show ?case using 4 keep by (cases i) auto
qed simp_all

lemma u2b_cps: "u2b (cps ! unat (c :: byte)) = uint c"
proof -
  have c: "unat c < 256" using unsigned_less [where ?'a = nat, of c] by simp
  have "\<forall>x\<in>set cps. x < 0x200"
  proof
    fix x assume "x \<in> set cps"
    then obtain i where i: "i < 256" "x = cps ! i" by (auto simp: in_set_conv_nth)
    then have "unat (of_nat i :: byte) = i" by (simp add: unat_of_nat)
    with alphabet_ok_byte [of "of_nat i"] i show "x < 0x200" by (simp add: alphabet_ok_def)
  qed
  with table_fold [of cps "[0..255]" "unat c" "\<lambda>_. -1"] c distinct_cps show ?thesis
    by (simp add: u2b_def upto_byte)
qed

section \<open>Decoding mapped text\<close>

definition enc :: "byte list \<Rightarrow> byte list" where
  "enc bs = concat (map b2u bs)"

lemma enc_simps [simp]: "enc [] = []" "enc (c # bs) = b2u c @ enc bs" "enc (xs @ ys) = enc xs @ enc ys"
  by (simp_all add: enc_def)

lemma b2u_cons: "\<exists>x xs. b2u c = x # xs"
  by (simp add: b2u_def utf8_def)

lemma b2u_len: "1 \<le> length (b2u c)" "length (b2u c) \<le> 2"
  by (simp_all add: b2u_def utf8_def)

lemma decode_text_b2u:
  "decode_text (b2u c @ rest) cap =
     (if 1 > cap then None else map_option (\<lambda>r. c # r) (decode_text rest (cap - 1)))"
proof -
  obtain x xs where x: "b2u c = x # xs" using b2u_cons by blast
  have "utf8_step (x # xs @ rest) = (cps ! unat c, Suc (length xs))"
    using utf8_step_b2u [of c rest] x by simp
  moreover have "0 \<le> cps ! unat c" "cps ! unat c < 0x200"
    using alphabet_ok_byte [of c] by (simp_all add: alphabet_ok_def)
  ultimately show ?thesis
    using x u2b_cps [of c] by (simp add: decode_text.simps(2))
qed

lemma decode_text_enc:
  "int (length bs) \<le> cap \<Longrightarrow> decode_text (enc bs) cap = Some bs"
  by (induction bs arbitrary: cap) (simp_all add: decode_text.simps(1) decode_text_b2u)

section \<open>The loaded vocabulary\<close>

lemma load_tokens_builds:
  "load_tokens k n i cap u m = Some (ts, u', m') \<Longrightarrow>
     length ts = n \<and> hm.put_list m (zip ts [i..i + int n - 1]) = Some m'"
proof (induction n arbitrary: i u m ts)
  case (Suc n)
  from Suc.prems obtain s m1 ts1 where s: "map_put m s i = Some m1" "ts = s # ts1"
    and l: "load_tokens k n (i + 1) cap (u + int (length s) + 1) m1 = Some (ts1, u', m')"
    by (auto split: option.splits if_splits)
  have "[i..i + int (Suc n) - 1] = i # [i + 1..i + 1 + int n - 1]"
    by (subst upto.simps) (simp add: algebra_simps)
  then show ?case using Suc.IH [OF l] s by simp
qed simp

text \<open>The id of a text: the first position it stands at, -1 when there is none.\<close>

definition first_id :: "byte list list \<Rightarrow> byte list \<Rightarrow> int" where
  "first_id ts t = (if t \<in> set ts then int (length (takeWhile (\<lambda>s. s \<noteq> t) ts)) else -1)"

lemma map_of_first:
  "map_of (zip ts [i..i + int (length ts) - 1]) t =
     (if t \<in> set ts then Some (i + int (length (takeWhile (\<lambda>s. s \<noteq> t) ts))) else None)"
proof (induction ts arbitrary: i)
  case (Cons s ts)
  have "[i..i + int (length (s # ts)) - 1] = i # [i + 1..i + 1 + int (length ts) - 1]"
    by (subst upto.simps) (simp add: algebra_simps)
  then show ?case using Cons.IH [of "i + 1"] by simp
qed simp

lemma first_id_nth: "0 \<le> first_id ts t \<Longrightarrow> nat (first_id ts t) < length ts \<and> ts ! nat (first_id ts t) = t"
proof -
  assume "0 \<le> first_id ts t"
  then have t: "t \<in> set ts" "nat (first_id ts t) = length (takeWhile (\<lambda>s. s \<noteq> t) ts)"
    by (simp_all add: first_id_def split: if_splits)
  then have "length (takeWhile (\<lambda>s. s \<noteq> t) ts) < length ts"
    by (metis (mono_tags, lifting) length_takeWhile_le le_neq_implies_less takeWhile_eq_all_conv takeWhile_eq_take take_all_iff order.refl)
  then show ?thesis using t nth_length_takeWhile [of "\<lambda>s. s \<noteq> t" ts] by simp
qed

lemma i32_bounds: "i32 x < 2 ^ 31" by (simp add: i32_def)

lemma loaded_tokens:
  assumes "load_tokens k (nat n) 0 cap 0 (map_init n) = Some (ts, u, m)" "0 \<le> n" "n \<le> 2 ^ 29"
  shows "int (length ts) = n \<and> map_get m t = first_id ts t"
proof -
  from load_tokens_builds [OF assms(1)] assms(2)
  have b: "int (length ts) = n" "hm.put_list (map_init n) (zip ts [0..int (length ts) - 1]) = Some m" by auto
  have "\<forall>kv\<in>set (zip ts [0..int (length ts) - 1]). 0 \<le> snd kv"
    by (auto dest: set_zip_rightD)
  from hm.built_get [OF b(2) assms(2,3) _ this] b(1) map_of_first [of ts 0 t]
  have "map_get m t = first_id ts t" by (simp add: first_id_def)
  with b show ?thesis by simp
qed

lemma index_specials_fields [simp]:
  "b_tok (index_specials b) = b_tok b" "b_vocab (index_specials b) = b_vocab b"
  "b_merge (index_specials b) = b_merge b" "b_type (index_specials b) = b_type b"
  by (simp_all add: index_specials_def Let_def)

lemma from_gguf_tokens:
  assumes "eng_bpe_from_gguf g = Some b"
  shows "\<exists>k n cap u. load_tokens k (nat n) 0 cap 0 (map_init n) = Some (b_tok b, u, b_vocab b) \<and> 0 \<le> n \<and>
           merge_table g cap u = Some (b_merge b)"
proof -
  from assms obtain ktok n cap where "\<not> n < 0" "load_bpe g ktok n cap = Some b"
    unfolding eng_bpe_from_gguf_def Let_def by (force split: option.splits if_splits)
  then show ?thesis unfolding load_bpe_def
    by (rule_tac x = ktok in exI, rule_tac x = n in exI, rule_tac x = cap in exI) (auto split: option.splits)
qed

lemma loaded_vocab:
  assumes "eng_bpe_from_gguf g = Some b" "int (length (b_tok b)) \<le> 2 ^ 29"
  shows "map_get (b_vocab b) t = first_id (b_tok b) t"
proof -
  from from_gguf_tokens [OF assms(1)] obtain k n cap u
    where l: "load_tokens k (nat n) 0 cap 0 (map_init n) = Some (b_tok b, u, b_vocab b)" "0 \<le> n" by blast
  then have "n = int (length (b_tok b))" using load_tokens_builds [OF l(1)] by simp
  with loaded_tokens [OF l] assms(2) show ?thesis by simp
qed

text \<open>
  Looking a text up in a tokenizer loaded from a container gives the first id whose stored
  text it is, and -1 when no token has it.  The table probes always end.
\<close>

theorem bpe_find_first:
  assumes "eng_bpe_from_gguf g = Some b" "int (length (b_tok b)) \<le> 2 ^ 29"
  shows "eng_bpe_find b t = first_id (b_tok b) t"
  unfolding eng_bpe_find_def by (rule loaded_vocab [OF assms])

section \<open>Merging\<close>

text \<open>
  The symbols of a fragment cut into \<open>parts\<close>: one per part, its mapped text at the running
  offset.  The merge loop only ever joins neighbours, so it keeps this shape.
\<close>

fun syms :: "nat \<Rightarrow> byte list list \<Rightarrow> sym list" where
  "syms off [] = []"
| "syms off (p # ps) = (off, length (enc p)) # syms (off + length (enc p)) ps"

lemma syms_len [simp]: "length (syms off ps) = length ps"
  by (induction off ps rule: syms.induct) simp_all

lemma syms_append: "syms off (ps @ qs) = syms off ps @ syms (off + length (enc (concat ps))) qs"
  by (induction off ps rule: syms.induct) (simp_all add: algebra_simps)

definition join_parts :: "nat \<Rightarrow> byte list list \<Rightarrow> byte list list" where
  "join_parts i ps = take i ps @ (ps ! i @ ps ! (i + 1)) # drop (i + 2) ps"

lemma split_pair:
  assumes "i + 1 < length ps"
  shows "ps = take i ps @ ps ! i # ps ! (i + 1) # drop (i + 2) ps"
  using assms by (metis Cons_nth_drop_Suc Suc_eq_plus1 Suc_lessD add_2_eq_Suc' append_take_drop_id)

lemma join_parts_concat: "i + 1 < length ps \<Longrightarrow> concat (join_parts i ps) = concat ps"
  using arg_cong [OF split_pair, of i ps concat] by (simp add: join_parts_def)

lemma join_at_syms:
  assumes "i + 1 < length ps"
  shows "join_at i (syms off ps) = syms off (join_parts i ps)"
proof -
  define xs x y zs where d: "xs = take i ps" "x = ps ! i" "y = ps ! (i + 1)" "zs = drop (i + 2) ps"
  have ps: "ps = xs @ x # y # zs" and len: "length xs = i" using split_pair [OF assms] assms by (simp_all add: d)
  have "join_parts i ps = xs @ (x @ y) # zs" by (simp add: join_parts_def d)
  moreover have "join_at i (syms off (xs @ x # y # zs)) = syms off (xs @ (x @ y) # zs)"
    by (simp add: syms_append join_at_def len [symmetric] nth_append algebra_simps)
  ultimately show ?thesis using ps by simp
qed

lemma merge_loop_syms:
  "\<exists>qs. merge_loop m buf (syms 0 ps) = syms 0 qs \<and> concat qs = concat ps \<and> length qs \<le> length ps"
proof (induction "length ps" arbitrary: ps rule: less_induct)
  case less
  show ?case
  proof (cases "best_pair m buf (syms 0 ps) 0 None")
    case None
    then show ?thesis by (subst merge_loop.simps) auto
  next
    case (Some br)
    obtain i r where br: "br = (i, r)" by (cases br)
    then have i: "i + 1 < length ps" using best_pair_bound [of m buf "syms 0 ps" 0 None i r] Some by simp
    then have "length (join_parts i ps) < length ps" by (simp add: join_parts_def)
    from less [OF this] join_parts_concat [OF i] \<open>length (join_parts i ps) < length ps\<close> show ?thesis
      by (subst merge_loop.simps) (auto simp: Some br join_at_syms [OF i])
  qed
qed

text \<open>The rank of the pair at index \<open>i\<close>; -1 when it cannot be merged.\<close>

definition pair_rank :: "table \<Rightarrow> byte list \<Rightarrow> sym list \<Rightarrow> nat \<Rightarrow> int" where
  "pair_rank m buf sy i = map_get m (piece buf (fst (sy ! i), snd (sy ! i) + snd (sy ! (i + 1))))"

definition lowest :: "(nat \<Rightarrow> int) \<Rightarrow> nat \<Rightarrow> (nat \<times> int) option \<Rightarrow> bool" where
  "lowest rank n best \<longleftrightarrow>
     (case best of
        None \<Rightarrow> (\<forall>j<n. rank j < 0)
      | Some (i, r) \<Rightarrow> i < n \<and> r = rank i \<and> 0 \<le> r \<and> (\<forall>j<n. 0 \<le> rank j \<longrightarrow> r \<le> rank j) \<and> (\<forall>j<i. 0 \<le> rank j \<longrightarrow> r < rank j))"

lemma lowest_step:
  assumes "lowest rank n best"
  shows "lowest rank (Suc n) (if rank n < 0 then best
     else case best of None \<Rightarrow> Some (n, rank n) | Some (b, br) \<Rightarrow> if rank n < br then Some (n, rank n) else best)"
  using assms by (fastforce simp: lowest_def less_Suc_eq split: option.split)

lemma best_pair_scan:
  "lowest rank i best \<Longrightarrow> (\<And>j. j + 1 < length sy \<Longrightarrow> rank (i + j) = pair_rank m buf sy j) \<Longrightarrow>
   lowest rank (i + (length sy - 1)) (best_pair m buf sy i best)"
proof (induction m buf sy i best rule: best_pair.induct)
  case (1 m buf x y zs i best)
  have r: "map_get m (piece buf (fst x, snd x + snd y)) = rank i"
    using 1(3) [of 0] by (simp add: pair_rank_def)
  have "rank (i + 1 + j) = pair_rank m buf (y # zs) j" if "j + 1 < length (y # zs)" for j
    using 1(3) [of "Suc j"] that by (simp add: pair_rank_def)
  from 1(1) [OF r [symmetric] _ this] lowest_step [OF 1(2)] show ?case by (simp add: r Let_def)
qed simp_all

text \<open>
  Each round of the merge loop joins the leftmost of the adjacent pairs with the lowest rank,
  and stops exactly when no adjacent pair has one.
\<close>

theorem merge_picks_leftmost_lowest:
  "lowest (pair_rank (b_merge b) buf sy) (length sy - 1) (best_pair (b_merge b) buf sy 0 None)"
  using best_pair_scan [of "pair_rank (b_merge b) buf sy" 0 None sy "b_merge b" buf]
  by (simp add: lowest_def)

section \<open>Encoding a fragment\<close>

lemma enc_len: "length (enc bs) \<le> 2 * length bs"
proof (induction bs)
  case (Cons c bs)
  then show ?case using b2u_len(2) [of c] by simp
qed simp

lemma map_bytes_syms:
  "length buf + length (enc cs) \<le> 4096 \<Longrightarrow>
   map_bytes cs buf sy = Some (buf @ enc cs, sy @ syms (length buf) (map (\<lambda>c. [c]) cs))"
  by (induction cs buf sy rule: map_bytes.induct) simp_all

lemma concat_singletons [simp]: "concat (map (\<lambda>c. [c]) cs) = cs"
  by (induction cs) simp_all

lemma encode_fragment_merges:
  assumes "int (length frag) \<le> 1024"
  shows "encode_fragment b frag cap outp =
    emit (b_vocab b) (enc frag) (merge_loop (b_merge b) (enc frag) (syms 0 (map (\<lambda>c. [c]) frag))) cap outp"
  using assms enc_len [of frag] map_bytes_syms [of "[]" frag "[]"]
  by (simp add: encode_fragment_def merge_fragment_def)

lemma piece_at: "piece (pre @ x @ post) (length pre, length x) = x"
  by (simp add: piece_def)

text \<open>A token id whose stored text is the mapped form of \<open>q\<close>.\<close>

definition names :: "eng_bpe \<Rightarrow> int \<Rightarrow> byte list \<Rightarrow> bool" where
  "names b t q \<longleftrightarrow> 0 \<le> t \<and> t < int (length (b_tok b)) \<and> b_tok b ! nat t = enc q"

lemma emit_names:
  assumes "\<And>t. map_get (b_vocab b) t = first_id (b_tok b) t"
    and "emit (b_vocab b) (pre @ enc (concat qs) @ post) (syms (length pre) qs) cap outp = Some ids"
  shows "\<exists>ts. ids = outp @ ts \<and> list_all2 (names b) ts qs"
  using assms(2)
proof (induction qs arbitrary: pre outp)
  case (Cons q qs)
  let ?t = "first_id (b_tok b) (enc q)"
  have p: "piece (pre @ enc (concat (q # qs)) @ post) (length pre, length (enc q)) = enc q"
    using piece_at [of pre "enc q" "enc (concat qs) @ post"] by simp
  with Cons.prems assms(1) have t: "0 \<le> ?t"
    and e: "emit (b_vocab b) ((pre @ enc q) @ enc (concat qs) @ post) (syms (length (pre @ enc q)) qs) cap (outp @ [?t]) = Some ids"
    by (auto simp: Let_def split: if_splits)
  from Cons.IH [OF e] obtain ts where "ids = outp @ [?t] @ ts" "list_all2 (names b) ts qs" by auto
  moreover have "names b ?t q" using first_id_nth [OF t] t unfolding names_def by linarith
  ultimately show ?case by (intro exI [of _ "?t # ts"]) simp
qed simp

section \<open>Decoding inverts encoding\<close>

definition spells :: "eng_bpe \<Rightarrow> int list \<Rightarrow> byte list \<Rightarrow> bool" where
  "spells b ids bs \<longleftrightarrow> (\<forall>cap. int (length bs) \<le> cap \<longrightarrow> eng_bpe_decode b ids cap = Some bs)"

lemma spells_Nil: "spells b [] []"
  by (simp add: spells_def)

lemma spells_Cons: "names b t q \<Longrightarrow> spells b ids bs \<Longrightarrow> spells b (t # ids) (q @ bs)"
  by (simp add: spells_def names_def eng_bpe_decode_one_def decode_text_enc)

lemma spells_all: "list_all2 (names b) ts qs \<Longrightarrow> spells b ids bs \<Longrightarrow> spells b (ts @ ids) (concat qs @ bs)"
  by (induction ts qs rule: list_all2_induct) (simp_all add: spells_Cons)

lemma encode_fragment_names:
  assumes "\<And>t. map_get (b_vocab b) t = first_id (b_tok b) t"
    and "encode_fragment b frag cap outp = Some ids"
  shows "\<exists>ts qs. ids = outp @ ts \<and> list_all2 (names b) ts qs \<and> concat qs = frag"
proof -
  have len: "int (length frag) \<le> 1024"
    using assms(2) by (auto simp: encode_fragment_def split: if_splits)
  obtain qs where q: "merge_loop (b_merge b) (enc frag) (syms 0 (map (\<lambda>c. [c]) frag)) = syms 0 qs" "concat qs = frag"
    using merge_loop_syms [of "b_merge b" "enc frag" "map (\<lambda>c. [c]) frag"] by auto
  then show ?thesis
    using emit_names [OF assms(1), of "[]" qs "[]" cap outp ids] assms(2) encode_fragment_merges [OF len, of b cap outp]
    by auto
qed

text \<open>Special tokens that are printable ASCII are stored as they read.\<close>

definition printable_specials :: "eng_bpe \<Rightarrow> bool" where
  "printable_specials b \<longleftrightarrow> list_all (\<lambda>t. t < length (b_tok b) \<and> list_all (\<lambda>c. 33 \<le> c \<and> c \<le> 126) (b_tok b ! t)) (b_spec b)"

lemma b2u_printable: "33 \<le> c \<Longrightarrow> c \<le> 126 \<Longrightarrow> b2u c = [c]"
  using alphabet_ok_byte [of c] by (simp add: alphabet_ok_def b2u_def utf8_def word_le_def word_less_def)

lemma enc_printable: "list_all (\<lambda>c. 33 \<le> c \<and> c \<le> 126) bs \<Longrightarrow> enc bs = bs"
  by (induction bs) (simp_all add: b2u_printable)

lemma special_names: "printable_specials b \<Longrightarrow> t \<in> set (b_spec b) \<Longrightarrow> names b (int t) (b_tok b ! t)"
  by (auto simp: printable_specials_def names_def list_all_iff enc_printable)

lemma encode_from_spells:
  assumes voc: "\<And>t. map_get (b_vocab b) t = first_id (b_tok b) t"
    and sp: "allow_special \<Longrightarrow> printable_specials b"
    and "encode_from b s cap allow_special i outp = Some ids"
  shows "\<exists>ts. ids = outp @ ts \<and> spells b ts (drop i s)"
  using assms
proof (induction b s cap allow_special i outp rule: encode_from.induct)
  case (1 b s cap allow_special i outp)
  note IH = 1(1,2) and voc = 1(3) and sp = 1(4) and run = 1(5)
  define spc where "spc = next_special b s allow_special i"
  consider "\<not> i < length s" | "i < length s" "chunk_end s spc \<le> i" | "i < length s" "i < chunk_end s spc" by linarith
  then show ?case
  proof cases
    case 1
    then have "ids = outp" using run by (simp add: encode_from.simps [of b s cap allow_special i outp])
    then show ?thesis using 1 by (simp add: spells_Nil)
  next
    case 2
    then obtain j t l where spc: "spc = Some (j, t, l)" by (cases spc) (auto simp: chunk_end_def)
    note pos = next_special_pos [OF spc [unfolded spc_def]]
    have ij: "j = i" using 2 spc pos by (simp add: chunk_end_def)
    have r: "\<not> cap \<le> int (length outp)" "encode_from b s cap allow_special (j + l) (outp @ [int t]) = Some ids"
      using run 2 spc by (simp_all add: encode_from.simps [of b s cap allow_special i outp] spc_def split: if_splits)
    have "allow_special" using spc by (simp add: spc_def next_special_def split: if_splits)
    then have nm: "names b (int t) (take l (drop i s))" using special_names [of b t] sp pos ij by simp
    from IH(1) [OF 2(1) spc_def 2(2) spc refl refl r(1) voc sp r(2)] obtain ts
      where ts: "ids = outp @ int t # ts" "spells b ts (drop (i + l) s)" using ij by auto
    have "take l (drop i s) @ drop (i + l) s = drop i s" by (metis append_take_drop_id drop_drop add.commute)
    with ts spells_Cons [OF nm ts(2)] show ?thesis by auto
  next
    case 3
    define fend where "fend = next_fragment s (chunk_end s spc) i"
    have fe: "i < fend" using next_fragment_bounds [OF 3(2), of s] by (simp add: fend_def)
    obtain out1 where r: "encode_fragment b (take (fend - i) (drop i s)) cap outp = Some out1"
      "encode_from b s cap allow_special fend out1 = Some ids"
      using run 3 by (auto simp: encode_from.simps [of b s cap allow_special i outp] spc_def [symmetric]
          fend_def [symmetric] Let_def split: option.splits if_splits)
    from encode_fragment_names [OF voc r(1)] obtain t1 qs
      where t1: "out1 = outp @ t1" "list_all2 (names b) t1 qs" "concat qs = take (fend - i) (drop i s)" by auto
    from IH(2) [OF 3(1) spc_def _ fend_def r(1) voc sp r(2)] 3(2) obtain ts
      where ts: "ids = out1 @ ts" "spells b ts (drop fend s)" by auto
    have "take (fend - i) (drop i s) @ drop fend s = drop i s"
      using fe append_take_drop_id [of "fend - i" "drop i s"] by (simp del: append_take_drop_id)
    with spells_all [OF t1(2) ts(2)] t1 ts show ?thesis by auto
  qed
qed

lemma specials_in_range:
  assumes "eng_bpe_from_gguf g = Some b"
  shows "\<forall>t\<in>set (b_spec b). t < length (b_tok b)"
  using assms unfolding eng_bpe_from_gguf_def load_bpe_def
  by (auto simp: index_specials_def Let_def split: option.splits if_splits)

text \<open>
  C8: decoding the ids of an encoded text gives the text back, byte for byte, for every tokenizer
  loaded from a container (of at most \<open>2 ^ 29\<close> tokens) and whatever its merges: always when special tokens are not
  recognised in the text, and when they are, provided the special tokens of the vocabulary are
  printable ASCII; a special token with other characters is matched as stored but decoded through the
  byte alphabet.
\<close>

theorem bpe_roundtrip:
  assumes "eng_bpe_from_gguf g = Some b" "int (length (b_tok b)) \<le> 2 ^ 29"
    and "allow_special \<longrightarrow> printable_specials b"
    and "eng_bpe_encode b s cap allow_special = Some ids" "int (length s) \<le> dcap"
  shows "eng_bpe_decode b ids dcap = Some s"
  using encode_from_spells [OF loaded_vocab [OF assms(1,2)], of allow_special s cap 0 "[]" ids] assms(3,4,5)
  by (simp add: eng_bpe_encode_def spells_def)

section \<open>Encoding succeeds\<close>

text \<open>Every mapped byte is a token and so is everything a merge can produce.\<close>

definition complete_vocab :: "eng_bpe \<Rightarrow> bool" where
  "complete_vocab b \<longleftrightarrow>
     (\<forall>c. 0 \<le> map_get (b_vocab b) (b2u c)) \<and> (\<forall>x. 0 \<le> map_get (b_merge b) x \<longrightarrow> 0 \<le> map_get (b_vocab b) x)"

lemma pair_text:
  assumes "i + 1 < length ps"
  shows "piece (enc (concat ps)) (fst (syms 0 ps ! i), snd (syms 0 ps ! i) + snd (syms 0 ps ! (i + 1)))
     = enc (ps ! i @ ps ! (i + 1))"
proof -
  define xs x y zs where d: "xs = take i ps" "x = ps ! i" "y = ps ! (i + 1)" "zs = drop (i + 2) ps"
  have ps: "ps = xs @ x # y # zs" and len: "length xs = i" using split_pair [OF assms] assms by (simp_all add: d)
  have "piece (enc (concat (xs @ x # y # zs)))
      (fst (syms 0 (xs @ x # y # zs) ! i), snd (syms 0 (xs @ x # y # zs) ! i) + snd (syms 0 (xs @ x # y # zs) ! (i + 1)))
    = enc (x @ y)"
    using piece_at [of "enc (concat xs)" "enc (x @ y)" "enc (concat zs)"]
    by (simp add: syms_append nth_append len)
  then show ?thesis unfolding ps [symmetric] unfolding d .
qed

lemma merge_loop_closed:
  assumes "\<And>x. 0 \<le> map_get m x \<Longrightarrow> P x" "\<forall>p\<in>set ps. P (enc p)" "concat ps = bs"
  shows "\<exists>qs. merge_loop m (enc bs) (syms 0 ps) = syms 0 qs \<and> concat qs = bs \<and> length qs \<le> length ps \<and> (\<forall>q\<in>set qs. P (enc q))"
  using assms(2,3)
proof (induction "length ps" arbitrary: ps rule: less_induct)
  case less
  show ?case
  proof (cases "best_pair m (enc bs) (syms 0 ps) 0 None")
    case None
    then show ?thesis using less.prems by (subst merge_loop.simps) auto
  next
    case (Some br)
    obtain i r where br: "br = (i, r)" by (cases br)
    then have i: "i + 1 < length ps" using best_pair_bound [of m _ "syms 0 ps" 0 None i r] Some by simp
    have "0 \<le> pair_rank m (enc bs) (syms 0 ps) i"
      using best_pair_scan [of "pair_rank m (enc bs) (syms 0 ps)" 0 None "syms 0 ps" m "enc bs"] Some br
      by (simp add: lowest_def)
    then have "P (enc (ps ! i @ ps ! (i + 1)))"
      using assms(1) pair_text [OF i] less.prems(2) by (simp add: pair_rank_def del: enc_simps)
    then have P: "\<forall>p\<in>set (join_parts i ps). P (enc p)"
      using less.prems(1) by (auto simp: join_parts_def simp del: enc_simps dest: in_set_takeD in_set_dropD)
    have shorter: "length (join_parts i ps) < length ps" using i by (simp add: join_parts_def)
    from less.hyps [OF shorter P] join_parts_concat [OF i] less.prems(2) shorter show ?thesis
      by (subst merge_loop.simps) (auto simp: Some br join_at_syms [OF i])
  qed
qed

lemma emit_total:
  assumes "\<forall>q\<in>set qs. 0 \<le> map_get m (enc q)" "int (length outp + length qs) \<le> cap"
  shows "\<exists>ids. emit m (pre @ enc (concat qs) @ post) (syms (length pre) qs) cap outp = Some ids \<and> length ids = length outp + length qs"
  using assms
proof (induction qs arbitrary: pre outp)
  case (Cons q qs)
  have p: "piece (pre @ enc (concat (q # qs)) @ post) (length pre, length (enc q)) = enc q"
    using piece_at [of pre "enc q" "enc (concat qs) @ post"] by simp
  from Cons.IH [of "outp @ [map_get m (enc q)]" "pre @ enc q"] Cons.prems p show ?case
    by (simp add: Let_def)
qed simp

lemma encode_fragment_total:
  assumes "complete_vocab b" "int (length frag) \<le> 1024" "int (length outp + length frag) \<le> cap"
  shows "\<exists>ids. encode_fragment b frag cap outp = Some ids \<and> length ids \<le> length outp + length frag"
proof -
  have "\<forall>p\<in>set (map (\<lambda>c. [c]) frag). 0 \<le> map_get (b_vocab b) (enc p)"
    using assms(1) by (auto simp: complete_vocab_def)
  from merge_loop_closed [where P = "\<lambda>x. 0 \<le> map_get (b_vocab b) x" and m = "b_merge b", OF _ this, of frag] assms(1)
  obtain qs where q: "merge_loop (b_merge b) (enc frag) (syms 0 (map (\<lambda>c. [c]) frag)) = syms 0 qs"
    "concat qs = frag" "length qs \<le> length frag" "\<forall>q\<in>set qs. 0 \<le> map_get (b_vocab b) (enc q)"
    by (auto simp: complete_vocab_def)
  from emit_total [OF q(4), of outp cap "[]" "[]"] q assms(3) encode_fragment_merges [OF assms(2), of b cap outp]
  show ?thesis by auto
qed

lemma encode_from_total:
  assumes "complete_vocab b" "int (length s) \<le> 1024" "int (length s) \<le> cap" "length outp \<le> i"
  shows "encode_from b s cap allow_special i outp \<noteq> None"
  using assms
proof (induction b s cap allow_special i outp rule: encode_from.induct)
  case (1 b s cap allow_special i outp)
  define spc where "spc = next_special b s allow_special i"
  consider "\<not> i < length s" | "i < length s" "chunk_end s spc \<le> i" | "i < length s" "i < chunk_end s spc" by linarith
  then show ?case
  proof cases
    case c1: 1
    then show ?thesis by (simp add: encode_from.simps [of b s cap allow_special i outp])
  next
    case c2: 2
    then obtain j t l where spc: "spc = Some (j, t, l)" by (cases spc) (auto simp: chunk_end_def)
    note pos = next_special_pos [OF spc [unfolded spc_def]]
    have cap: "\<not> cap \<le> int (length outp)" using 1(5,6) c2 by simp
    have "encode_from b s cap allow_special (j + l) (outp @ [int t]) \<noteq> None"
      using 1(1) [OF c2(1) spc_def c2(2) spc refl refl cap] 1(3,4,5,6) pos by simp
    then show ?thesis using c2 spc cap by (simp add: encode_from.simps [of b s cap allow_special i outp] spc_def)
  next
    case c3: 3
    define fend where "fend = next_fragment s (chunk_end s spc) i"
    have fe: "i < fend" "fend \<le> length s"
      using next_fragment_bounds [OF c3(2), of s] chunk_end_le [OF spc_def] by (simp_all add: fend_def)
    obtain out1 where f: "encode_fragment b (take (fend - i) (drop i s)) cap outp = Some out1" "length out1 \<le> fend"
      using encode_fragment_total [OF 1(3), of "take (fend - i) (drop i s)" outp cap] 1(4,5,6) fe by fastforce
    have "encode_from b s cap allow_special fend out1 \<noteq> None"
      using 1(2) [OF c3(1) spc_def _ fend_def f(1)] c3(2) 1(3,4,5) f(2) by simp
    then show ?thesis using c3 f
      by (simp add: encode_from.simps [of b s cap allow_special i outp] spc_def [symmetric] fend_def [symmetric] Let_def)
  qed
qed

text \<open>
  C33: with a vocabulary that holds every mapped byte and every merge result, any text of at most
  1024 bytes is encoded, with or without special tokens, given an output array of its length.
\<close>

theorem bpe_encode_succeeds:
  assumes "complete_vocab b" "int (length s) \<le> 1024" "int (length s) \<le> cap"
  shows "\<exists>ids. eng_bpe_encode b s cap allow_special = Some ids"
  using encode_from_total [OF assms, of "[]" 0 allow_special] by (auto simp: eng_bpe_encode_def)

section \<open>Concrete tokenizers\<close>

text \<open>A container with the token a, the control token <s> and no merges.\<close>

definition packed :: "byte list list \<Rightarrow> byte list" where
  "packed ss = concat (map (\<lambda>s. of_nat (length s) # [0, 0, 0, 0, 0, 0, 0] @ s) ss)"

definition demo_gguf :: gguf where
  "demo_gguf = \<lparr>gg_version = 3, gg_blob = replicate 8 0, gg_strcap = 0, gg_strused = 0,
     gg_kv = [\<lparr>k_key = ascii ''tokenizer.ggml.tokens'', k_type = GGUF_T_ARRAY, k_i = 0, k_f = FNone, k_str = None,
               k_arr_type = GGUF_T_STRING, k_arr_len = 2, k_arr_data = packed [[97], [60, 115, 62]]\<rparr>,
              \<lparr>k_key = ascii ''tokenizer.ggml.token_type'', k_type = GGUF_T_ARRAY, k_i = 0, k_f = FNone, k_str = None,
               k_arr_type = GGUF_T_INT32, k_arr_len = 2, k_arr_data = [1, 0, 0, 0, 3, 0, 0, 0]\<rparr>],
     gg_t = [], gg_alignment = 32, gg_data_start = 0, gg_data_bytes = 0, gg_file_size = 0\<rparr>"

fun put_pairs :: "table \<Rightarrow> (byte list \<times> int) list \<Rightarrow> table option" where
  "put_pairs m [] = Some m"
| "put_pairs m ((s, v) # kvs) = Option.bind (map_put m s v) (\<lambda>m. put_pairs m kvs)"

lemma put_pairs_list: "put_pairs m kvs = hm.put_list m kvs"
  by (induction m kvs rule: put_pairs.induct) (auto split: option.split)

definition demo_table :: "byte list list \<Rightarrow> table" where
  "demo_table ss = the (put_pairs (map_init (int (length ss))) (zip ss [0..int (length ss) - 1]))"

definition demo_bpe :: eng_bpe where
  "demo_bpe = \<lparr>b_tok = [[97], [60, 115, 62]], b_type = [1, 3], b_vocab = demo_table [[97], [60, 115, 62]], b_merge = [],
     b_bos = -1, b_eos = -1, b_add_bos = 0, b_spec = [1], b_spec_first = [60]\<rparr>"

lemma demo_loads: "eng_bpe_from_gguf demo_gguf = Some demo_bpe"
  by code_simp

theorem bpe_find_first_witness: "eng_bpe_find demo_bpe [60, 115, 62] = 1 \<and> eng_bpe_find demo_bpe [98] = -1"
  using bpe_find_first [OF demo_loads, of "[60, 115, 62]"] bpe_find_first [OF demo_loads, of "[98]"]
  by (simp add: demo_bpe_def first_id_def)

lemma demo_encodes: "eng_bpe_encode demo_bpe [97, 60, 115, 62, 97] 8 True = Some [0, 1, 0]"
  by code_simp

theorem bpe_roundtrip_witness: "eng_bpe_decode demo_bpe [0, 1, 0] 5 = Some [97, 60, 115, 62, 97]"
  by (rule bpe_roundtrip [OF demo_loads _ _ demo_encodes]) (simp_all add: demo_bpe_def printable_specials_def)

text \<open>
  Where the round trip fails.  A special token is matched in the text by its stored bytes, but
  \<open>eng_bpe_decode_one\<close> reads every stored token through the byte alphabet: the special token of the two
  bytes of an accented e is encoded to its id and decoded to the one byte that e stands for.
\<close>

definition accent_bpe :: eng_bpe where
  "accent_bpe = demo_bpe\<lparr>b_tok := [[97], [195, 169]], b_vocab := demo_table [[97], [195, 169]], b_spec_first := [195]\<rparr>"

theorem accented_special_not_restored:
  "eng_bpe_encode accent_bpe [195, 169] 8 True = Some [1] \<and> eng_bpe_decode accent_bpe [1] 8 = Some [233]"
  by code_simp

text \<open>The vocabulary of the 256 mapped bytes alone.\<close>

definition byte_bpe :: eng_bpe where
  "byte_bpe = demo_bpe\<lparr>b_tok := map b2u (map word_of_int [0..255]), b_vocab := demo_table (map b2u (map word_of_int [0..255])),
     b_spec := []\<rparr>"

lemma demo_table_get:
  assumes "int (length ss) \<le> 2 ^ 29"
  shows "map_get (demo_table ss) t = first_id ss t"
proof -
  let ?kvs = "zip ss [0..int (length ss) - 1]"
  have pos: "\<forall>kv\<in>set ?kvs. 0 \<le> snd kv" by (auto dest: set_zip_rightD)
  have "room (map_init (int (length ss))) (length ?kvs)" using map_init_room(1) [of "int (length ss)"] assms by simp
  from hm.put_list_total [OF this pos] have "hm.put_list (map_init (int (length ss))) ?kvs = Some (demo_table ss)"
    by (auto simp: demo_table_def put_pairs_list)
  from hm.built_get [OF this _ assms _ pos] map_of_first [of ss 0 t] show ?thesis by (simp add: first_id_def)
qed

lemma byte_bpe_complete: "complete_vocab byte_bpe"
proof -
  have "b2u c \<in> set (map b2u (map word_of_int [0..255]))" for c :: byte
  proof -
    have "c = word_of_int (uint c)" "uint c \<in> set [0..255]" using uint_bounded [of c] by simp_all
    then show ?thesis by (metis image_eqI list.set_map)
  qed
  then show ?thesis
    by (simp add: complete_vocab_def byte_bpe_def demo_bpe_def demo_table_get first_id_def map_get_def [of "[]"]
        del: set_map map_map)
qed

theorem bpe_encode_succeeds_witness: "\<exists>ids. eng_bpe_encode byte_bpe [104, 105, 255, 10] 4 False = Some ids"
  by (rule bpe_encode_succeeds [OF byte_bpe_complete]) simp_all

section \<open>Merges are found by their text\<close>

definition split_bpe :: eng_bpe where
  "split_bpe = demo_bpe\<lparr>b_tok := [[97], [98], [99], [97, 98], [97, 98, 99]],
     b_vocab := demo_table [[97], [98], [99], [97, 98], [97, 98, 99]], b_merge := demo_table [[97, 98], [97, 98, 99]]\<rparr>"

text \<open>
  The tokens a, b, c, ab and abc with the merges "a b" and "a bc": the pair (ab, c) is not a
  merge, but the table holds the concatenation abc, so the loop joins it.
\<close>

theorem merge_joins_an_unlisted_pair:
  "merge_loop (b_merge split_bpe) [97, 98, 99] [(0, 1), (1, 1), (2, 1)] = [(0, 3)] \<and>
   best_pair (b_merge split_bpe) [97, 98, 99] [(0, 2), (2, 1)] 0 None = Some (0, 1)"
  by code_simp

end
