(* ===== verification/Tensor_Props.thy ===== *)
theory Tensor_Props
  imports Tensor
begin

text \<open>
  Properties of the dtype table, of half-to-single widening (against the IEEE reading of
  both formats) and of tensor sizes and row views.
\<close>

section \<open>The table\<close>

definition info_ok :: "eng_dtype_info_rec \<Rightarrow> bool" where
  "info_ok i \<longleftrightarrow> 0 < di_block_elems i \<and> di_block_elems i \<le> 256 \<and> 0 < di_block_bytes i \<and> di_block_bytes i \<le> 292 \<and>
     0 \<le> di_row_extra i \<and> di_row_extra i \<le> 4 \<and>
     (if di_flags i AND ENG_DTF_ROW_SCALE \<noteq> 0 then di_block_elems i = 1 else di_row_extra i = 0)"

lemma TBL_ok: "list_all (\<lambda>(d, i). info_ok i) TBL"
  by code_simp

lemma dtype_info_ok: "eng_dtype_info dt = Some i \<Longrightarrow> info_ok i"
  using TBL_ok by (auto simp: eng_dtype_info_def list_all_iff split: if_splits dest!: map_of_SomeD)

lemma info_okD:
  assumes "eng_dtype_info dt = Some i"
  shows "0 < di_block_elems i" "di_block_elems i \<le> 256" "0 < di_block_bytes i" "di_block_bytes i \<le> 292"
    "0 \<le> di_row_extra i" "di_row_extra i \<le> 4"
    "di_flags i AND ENG_DTF_ROW_SCALE \<noteq> 0 \<Longrightarrow> di_block_elems i = 1"
    "di_flags i AND ENG_DTF_ROW_SCALE = 0 \<Longrightarrow> di_row_extra i = 0"
  using dtype_info_ok [OF assms] by (auto simp: info_ok_def split: if_splits)

section \<open>Sizes\<close>

text \<open>Dimensions for which no product leaves 64 bits, for any dtype.\<close>

definition dims_ok :: "int list \<Rightarrow> bool" where
  "dims_ok shape \<longleftrightarrow> list_all (\<lambda>d. 0 \<le> d) shape \<and> prod_list (map (max 1) shape) < 2 ^ 53"

lemma prod_max_ge1: "1 \<le> prod_list (map (max 1) (xs :: int list))"
proof (induction xs)
  case (Cons x xs)
  have "1 * 1 \<le> max 1 x * prod_list (map (max 1) xs)" using Cons by (intro mult_mono) auto
  then show ?case by simp
qed simp

lemma foldl_prod64:
  assumes "list_all (\<lambda>d. 0 \<le> d) xs" "0 \<le> a" "max 1 a * prod_list (map (max 1) xs) < 2 ^ 63"
  shows "foldl (\<lambda>n d. i64 (n * d)) a xs = a * prod_list xs"
  using assms
proof (induction xs arbitrary: a)
  case (Cons x xs)
  let ?p = "prod_list (map (max 1) xs)"
  have p1: "1 \<le> ?p" by (rule prod_max_ge1)
  have ax: "0 \<le> a * x" "max 1 (a * x) \<le> max 1 a * max 1 x"
  proof -
    show "0 \<le> a * x" using Cons.prems by simp
    have "a * x \<le> max 1 a * max 1 x" using Cons.prems by (intro mult_mono) auto
    moreover have "1 * 1 \<le> max 1 a * max 1 x" by (intro mult_mono) auto
    ultimately show "max 1 (a * x) \<le> max 1 a * max 1 x" by simp
  qed
  have b: "max 1 (a * x) * ?p \<le> max 1 a * max 1 x * ?p" using ax(2) p1 by (intro mult_right_mono) auto
  then have lt: "max 1 (a * x) * ?p < 2 ^ 63" using Cons.prems(3) by (simp add: mult.assoc)
  have "a * x \<le> max 1 (a * x) * ?p"
    using mult_mono [of "max 1 (a * x)" "max 1 (a * x)" 1 ?p] p1 by simp
  then have "i64 (a * x) = a * x" using ax(1) lt by (intro i64_id in_i64_nonneg) auto
  then show ?case using Cons.IH [OF _ ax(1) lt] Cons.prems(1) by (simp add: mult.assoc)
qed simp

lemma prod64_eq:
  assumes "list_all (\<lambda>d. 0 \<le> d) xs" "prod_list (map (max 1) xs) < 2 ^ 53"
  shows "prod64 xs = prod_list xs"
  using foldl_prod64 [of xs 1] assms by (simp add: prod64_def)

lemma prod_nonneg: "list_all (\<lambda>d. 0 \<le> d) xs \<Longrightarrow> 0 \<le> prod_list (xs :: int list)"
  by (induction xs) auto

lemma prod_le_max: "list_all (\<lambda>d. 0 \<le> d) xs \<Longrightarrow> prod_list xs \<le> prod_list (map (max 1) (xs :: int list))"
  by (induction xs) (auto intro!: mult_mono simp: prod_nonneg)

lemma dims_okD:
  assumes "dims_ok (c # ds)"
  shows "0 \<le> c" "c < 2 ^ 53" "prod64 ds = prod_list ds" "prod64 (c # ds) = c * prod_list ds"
    "0 \<le> prod_list ds" "max 1 c * prod_list ds < 2 ^ 53" "list_all (\<lambda>d. 0 \<le> d) ds"
proof -
  let ?p = "prod_list (map (max 1) ds)"
  have a: "0 \<le> c" "list_all (\<lambda>d. 0 \<le> d) ds" "max 1 c * ?p < 2 ^ 53" using assms by (auto simp: dims_ok_def)
  have p: "1 \<le> ?p" by (rule prod_max_ge1)
  have "max 1 c \<le> max 1 c * ?p" using p mult_left_mono [of 1 ?p "max 1 c"] by simp
  with a show "c < 2 ^ 53" by linarith
  have "?p \<le> max 1 c * ?p" using p mult_right_mono [of 1 "max 1 c" ?p] by simp
  with a have "?p < 2 ^ 53" by linarith
  with a show "prod64 ds = prod_list ds" by (intro prod64_eq)
  show "prod64 (c # ds) = c * prod_list ds" using assms prod64_eq [of "c # ds"] by (simp add: dims_ok_def)
  show "0 \<le> prod_list ds" using a by (intro prod_nonneg)
  have "max 1 c * prod_list ds \<le> max 1 c * ?p" using prod_le_max [OF a(2)] by (intro mult_left_mono) auto
  with a show "max 1 c * prod_list ds < 2 ^ 53" by linarith
  show "0 \<le> c" "list_all (\<lambda>d. 0 \<le> d) ds" by fact+
qed

lemma int_div_le: "0 \<le> a \<Longrightarrow> 0 < b \<Longrightarrow> a div b \<le> (a :: int)"
  using zdiv_mono2 [of a 1 b] by simp

text \<open>The bytes of one row, without wrap-around.\<close>

lemma row_bytes_eq:
  assumes "eng_dtype_info dt = Some i" "0 \<le> cols" "cols < 2 ^ 53"
  shows "eng_dtype_row_bytes dt cols =
    (if cols mod di_block_elems i \<noteq> 0 then -1 else cols div di_block_elems i * di_block_bytes i + di_row_extra i)"
proof -
  note ok = info_okD [OF assms(1)]
  have q: "0 \<le> cols div di_block_elems i" "cols div di_block_elems i \<le> cols"
    using ok assms(2) by (auto simp: pos_imp_zdiv_nonneg_iff int_div_le)
  have "cols div di_block_elems i * di_block_bytes i \<le> cols * 292"
    using q ok by (intro mult_mono) auto
  moreover have "0 \<le> cols div di_block_elems i * di_block_bytes i" using q ok by simp
  ultimately have "i64 (cols div di_block_elems i * di_block_bytes i) = cols div di_block_elems i * di_block_bytes i"
    "i64 (cols div di_block_elems i * di_block_bytes i + di_row_extra i)
      = cols div di_block_elems i * di_block_bytes i + di_row_extra i"
    using assms(3) ok by (auto intro!: i64_id simp: in_i64_def)
  then show ?thesis using assms ok by (simp add: eng_dtype_row_bytes_def)
qed

lemma row_bytes_bound:
  assumes "eng_dtype_info dt = Some i" "0 \<le> cols" "cols < 2 ^ 53"
  shows "eng_dtype_row_bytes dt cols \<le> 300 * max 1 cols" "-1 \<le> eng_dtype_row_bytes dt cols"
proof -
  note ok = info_okD [OF assms(1)]
  have q: "0 \<le> cols div di_block_elems i" "cols div di_block_elems i \<le> cols"
    using ok assms(2) by (auto simp: pos_imp_zdiv_nonneg_iff int_div_le)
  have "cols div di_block_elems i * di_block_bytes i \<le> cols * 292" using q ok by (intro mult_mono) auto
  moreover have "0 \<le> cols div di_block_elems i * di_block_bytes i" using q ok by simp
  ultimately show "eng_dtype_row_bytes dt cols \<le> 300 * max 1 cols" "-1 \<le> eng_dtype_row_bytes dt cols"
    using ok by (auto simp: row_bytes_eq [OF assms])
qed

lemma nbytes_rows:
  assumes "eng_dtype_info dt = Some i" "dims_ok (c # ds)" "length (c # ds) \<le> ENG_MAX_DIMS"
  shows "eng_tensor_nbytes dt (c # ds) =
    (if eng_dtype_row_bytes dt c < 0 then -1 else prod_list ds * eng_dtype_row_bytes dt c)"
proof -
  note ok = info_okD [OF assms(1)] and d = dims_okD [OF assms(2)]
  let ?rb = "eng_dtype_row_bytes dt c" and ?be = "di_block_elems i"
  have nn: "\<not> list_ex (\<lambda>d. d < 0) (c # ds)" using d by (auto simp: list_ex_iff list_all_iff)
  have "prod_list ds * ?rb \<le> prod_list ds * (300 * max 1 c)"
    using row_bytes_bound [OF assms(1) d(1,2)] d(5) by (intro mult_left_mono) auto
  also have "\<dots> < 2 ^ 63" using d(6) by (simp add: mult.commute mult.left_commute)
  finally have big: "prod_list ds * ?rb < 2 ^ 63" .
  show ?thesis
  proof (cases "di_flags i AND ENG_DTF_ROW_SCALE = 0")
    case False
    have "i64 (prod_list ds * ?rb) = prod_list ds * ?rb" if "0 \<le> ?rb"
      using that big d(5) by (intro i64_id in_i64_nonneg) auto
    then show ?thesis using False assms(1,3) nn d by (auto simp: eng_tensor_nbytes_def Let_def)
  next
    case True
    then have re: "di_row_extra i = 0" by (rule ok)
    have rb: "?rb = (if c mod ?be \<noteq> 0 then -1 else c div ?be * di_block_bytes i)"
      using row_bytes_eq [OF assms(1) d(1,2)] re by simp
    show ?thesis
    proof (cases "c mod ?be = 0")
      case m: True
      then obtain k where k: "c = ?be * k" by (auto simp: mod_eq_0_iff_dvd elim: dvdE)
      have k0: "0 \<le> k" using d(1) ok(1) k by (simp add: zero_le_mult_iff)
      have "0 \<le> ?be * (k * prod_list ds)" using ok(1) k0 d(5) by simp
      then have "eng_dtype_bytes dt (c * prod_list ds) = i64 (k * prod_list ds * di_block_bytes i)"
        using assms(1) True ok(1) k by (simp add: eng_dtype_bytes_def mult.assoc)
      also have "k * prod_list ds * di_block_bytes i = prod_list ds * ?rb"
        using rb k ok(1) by simp
      also have "i64 (prod_list ds * ?rb) = prod_list ds * ?rb"
        using big d(5) rb k k0 ok by (intro i64_id in_i64_nonneg) auto
      finally have e: "eng_dtype_bytes dt (c * prod_list ds) = prod_list ds * ?rb" .
      have "0 \<le> ?rb" using rb k k0 ok by simp
      then show ?thesis using True assms(1,3) nn d(1,3,4) m e ok(1)
        by (simp add: eng_tensor_nbytes_def)
    next
      case False
      then have "1 < ?be" using ok(1) by (cases "?be = 1") auto
      then show ?thesis using True False assms(1,3) nn d ok rb by (auto simp: eng_tensor_nbytes_def Let_def)
    qed
  qed
qed

text \<open>
  The two size computations agree.  For every dtype of the table --- dense, blocked, with
  external scales or with row scales --- the byte size of a tensor is its number of rows times
  the bytes of one row, and it is refused exactly when a row is not a whole number of blocks.
\<close>

theorem tensor_bytes_are_rows_of_row_bytes:
  assumes "eng_dtype_info dt = Some i" "dims_ok (c # ds)" "length ds < ENG_MAX_DIMS"
  shows "eng_tensor_nbytes dt (c # ds) =
      (if c mod di_block_elems i \<noteq> 0 then -1 else prod_list ds * eng_dtype_row_bytes dt c) \<and>
    (c mod di_block_elems i = 0 \<longrightarrow>
      eng_dtype_row_bytes dt c = c div di_block_elems i * di_block_bytes i + di_row_extra i)"
proof -
  note d = dims_okD [OF assms(2)]
  have "0 \<le> c div di_block_elems i * di_block_bytes i + di_row_extra i"
    using info_okD [OF assms(1)] d(1) by (simp add: pos_imp_zdiv_nonneg_iff)
  then show ?thesis
    using nbytes_rows [OF assms(1,2)] assms(3) by (auto simp: row_bytes_eq [OF assms(1) d(1,2)])
qed

theorem tensor_bytes_are_rows_of_row_bytes_witness:
  "eng_tensor_nbytes 34 [4096, 151936] = 350060544 \<and> eng_tensor_nbytes 49 [4096, 3] = 12300 \<and>
   eng_tensor_nbytes 34 [100, 2] = -1"
proof -
  have i: "eng_dtype_info 34 = Some (row ''q4_k'' (ENG_DTF_FLOAT OR ENG_DTF_QUANTIZED OR ENG_DTF_BLOCKED) 256 144 0)"
    "eng_dtype_info 49 = Some (row ''i8r'' (ENG_DTF_FLOAT OR ENG_DTF_QUANTIZED OR ENG_DTF_ROW_SCALE) 1 1 4)"
    by code_simp+
  have d: "dims_ok [4096, 151936]" "dims_ok [4096, 3]" "dims_ok [100, 2]" by code_simp+
  have "length [x] < ENG_MAX_DIMS" for x :: int by (simp add: ENG_MAX_DIMS_def)
  with tensor_bytes_are_rows_of_row_bytes [OF i(1) d(1)] tensor_bytes_are_rows_of_row_bytes [OF i(2) d(2)]
    tensor_bytes_are_rows_of_row_bytes [OF i(1) d(3)]
  show ?thesis by (simp add: row_def)
qed

text \<open>
  A row view addresses exactly its rows.  For a file-backed tensor and any range of rows
  inside it the view exists, starts \<open>first\<close> rows into the parent, is \<open>count\<close> rows long, stays inside
  the parent's bytes, and is never owned; out of range it is refused.
\<close>

theorem view_rows_addresses_its_rows:
  assumes "eng_tensor_init_file name dt (c # ds) store off = (0, t)" "dims_ok (c # ds)"
    and "0 \<le> first" "0 \<le> count" "first < 2 ^ 62" "count < 2 ^ 62" "off < 2 ^ 62"
  shows "(first + count > prod_list ds \<longrightarrow> eng_tensor_view_rows t first count = None) \<and>
    (first + count \<le> prod_list ds \<longrightarrow>
      (\<exists>v. eng_tensor_view_rows t first count = Some v \<and> t_store v = store \<and>
        t_file_off v = off + first * eng_dtype_row_bytes dt c \<and> t_nbytes v = count * eng_dtype_row_bytes dt c \<and>
        t_file_off v + t_nbytes v \<le> off + t_nbytes t \<and> t_shape v = [c, count] \<and>
        fst (eng_tensor_free v) = None))"
proof -
  note d = dims_okD [OF assms(2)]
  let ?rb = "eng_dtype_row_bytes dt c" and ?n = "prod_list ds"
  have nb: "0 \<le> eng_tensor_nbytes dt (c # ds)" "0 \<le> off"
    and t: "t = eng_tensor_zero\<lparr>t_name := name, t_dtype := dt, t_shape := c # ds,
      t_nbytes := eng_tensor_nbytes dt (c # ds), t_store := store, t_file_off := off\<rparr>"
    using assms(1) by (auto simp: eng_tensor_init_file_def Let_def split: if_splits)
  obtain i where i: "eng_dtype_info dt = Some i" and l: "length (c # ds) \<le> ENG_MAX_DIMS"
    using nb(1) by (auto simp: eng_tensor_nbytes_def split: option.splits if_splits)
  have rb: "0 \<le> ?rb" and tn: "t_nbytes t = ?n * ?rb"
    using nb nbytes_rows [OF i assms(2) l] by (auto simp: t split: if_splits)
  have rbm: "?rb \<le> 300 * max 1 c" using row_bytes_bound [OF i d(1,2)] by simp
  have dense: "eng_tensor_is_dense t" by (simp add: t eng_tensor_is_dense_def eng_tensor_zero_def)
  have rows: "eng_tensor_rows t = ?n" "eng_tensor_cols t = c" using d by (simp_all add: t eng_tensor_rows_def eng_tensor_cols_def)
  have ifc: "i64 (first + count) = first + count" using assms by (intro i64_id) (simp add: in_i64_def)
  have bnd: "k * ?rb < 2 ^ 62" if "0 \<le> k" "k \<le> ?n" for k
  proof -
    have "k * ?rb \<le> ?n * (300 * max 1 c)" using that rb rbm d(5) by (intro mult_mono) auto
    also have "\<dots> = 300 * (max 1 c * ?n)" by simp
    also have "\<dots> < 300 * 2 ^ 53" using d(6) by (intro mult_strict_left_mono) auto
    also have "(300 * 2 ^ 53 :: int) < 2 ^ 62" by simp
    finally show ?thesis .
  qed
  have A: "eng_tensor_view_rows t first count = None" if "first + count > ?n"
    using that dense rows ifc by (simp add: eng_tensor_view_rows_def)
  have B: "\<exists>v. eng_tensor_view_rows t first count = Some v \<and> t_store v = store \<and>
        t_file_off v = off + first * ?rb \<and> t_nbytes v = count * ?rb \<and>
        t_file_off v + t_nbytes v \<le> off + t_nbytes t \<and> t_shape v = [c, count] \<and>
        fst (eng_tensor_free v) = None" if le: "first + count \<le> ?n"
  proof -
    have "first * ?rb < 2 ^ 62" "count * ?rb < 2 ^ 62" using bnd assms le by auto
    moreover have "0 \<le> first * ?rb" "0 \<le> count * ?rb" using assms rb by auto
    ultimately have io: "i64 (first * ?rb) = first * ?rb" "i64 (count * ?rb) = count * ?rb"
      "i64 (off + first * ?rb) = off + first * ?rb"
      using assms(7) nb(2) by (auto intro!: i64_id simp: in_i64_def simp del: zero_le_mult_iff)
    have "(first + count) * ?rb \<le> ?n * ?rb" using le rb by (intro mult_right_mono)
    then have "first * ?rb + count * ?rb \<le> t_nbytes t" by (simp add: distrib_right tn)
    moreover have "ENG_TF_VIEW AND ENG_TF_OWNED = 0" by code_simp
    ultimately show ?thesis
      using dense rows ifc le assms(3,4) rb io
      by (simp add: eng_tensor_view_rows_def Let_def t eng_tensor_zero_def eng_tensor_free_def)
  qed
  from A B show ?thesis by blast
qed

theorem view_rows_addresses_its_rows_witness:
  "\<exists>v. eng_tensor_view_rows (snd (eng_tensor_init_file None 34 [512, 10] (Some 0) 4096)) 3 2 = Some v \<and>
     t_file_off v = 4960 \<and> t_nbytes v = 576"
proof -
  let ?t = "snd (eng_tensor_init_file None 34 [512, 10] (Some 0) 4096)"
  have "fst (eng_tensor_init_file None 34 [512, 10] (Some 0) 4096) = 0" by code_simp
  then have t: "eng_tensor_init_file None 34 [512, 10] (Some 0) 4096 = (0, ?t)" by (metis prod.collapse)
  have r: "dims_ok [512, 10]" "eng_dtype_row_bytes 34 512 = 288" by code_simp+
  from view_rows_addresses_its_rows [OF t r(1), of 3 2] r(2) show ?thesis by auto
qed

text \<open>
  Names and numbers of data types determine each other: looking up the name of a data type
  of the table gives it back, and every other number is reported as unknown.
\<close>

theorem dtype_name_roundtrip:
  "if dt \<in> fst ` set TBL
   then eng_dtype_by_name (Some (eng_dtype_name dt)) = dt
   else eng_dtype_info dt = None \<and> eng_dtype_name dt = ''?''"
proof (cases "dt \<in> fst ` set TBL")
  case True
  have "list_all (\<lambda>d. eng_dtype_by_name (Some (eng_dtype_name d)) = d) (map fst TBL)" by code_simp
  with True show ?thesis by (auto simp: list_all_iff)
next
  case False
  then have "map_of TBL dt = None" by (simp add: map_of_eq_None_iff)
  with False show ?thesis by (simp add: eng_dtype_info_def eng_dtype_name_def)
qed

section \<open>Half precision\<close>

text \<open>The IEEE reading of the two formats: sign and magnitude, infinities, not-a-number.\<close>

datatype ieee = Fin bool rat | Inf bool | NaN

definition f16_val :: "16 word \<Rightarrow> ieee" where
  "f16_val h =
     (let s = bit h 15; e = unat (take_bit 5 (drop_bit 10 h)); m = unat (take_bit 10 h)
      in if e = 31 then (if m = 0 then Inf s else NaN)
         else if e = 0 then Fin s (of_nat m / 2 ^ 24)
         else Fin s (of_nat (2 ^ 10 + m) * 2 ^ e / 2 ^ 25))"

definition f32_val :: "32 word \<Rightarrow> ieee" where
  "f32_val u =
     (let s = bit u 31; e = unat (take_bit 8 (drop_bit 23 u)); m = unat (take_bit 23 u)
      in if e = 255 then (if m = 0 then Inf s else NaN)
         else if e = 0 then Fin s (of_nat m / 2 ^ 149)
         else Fin s (of_nat (2 ^ 23 + m) * 2 ^ e / 2 ^ 150))"

definition sign_word :: "16 word \<Rightarrow> 32 word" where
  "sign_word h = push_bit 16 (ucast (h AND 0x8000))"

lemma sign_word_bit: "bit (sign_word h) n \<longleftrightarrow> n = 31 \<and> bit h 15"
proof -
  have eq: "(0x8000 :: 16 word) = 2 ^ 15" by simp
  have "bit (0x8000 :: 16 word) k \<longleftrightarrow> k = 15" for k
    unfolding eq by (simp only: bit_exp_iff possible_bit_word) auto
  then have x: "bit (h AND 0x8000) k \<longleftrightarrow> bit h 15 \<and> k = 15" for k
    by (auto simp only: bit_and_iff)
  show ?thesis
    unfolding sign_word_def
    by (simp only: bit_push_bit_iff bit_unsigned_iff possible_bit_word x) auto
qed

lemma take_bit_small: "unat (w :: 'a :: len word) < 2 ^ n \<Longrightarrow> take_bit n w = w"
  by (metis take_bit_nat_eq_self unsigned_take_bit_eq unsigned_word_eqI)

lemma f32_fields:
  fixes h :: "16 word" and E M :: "32 word"
  assumes "unat E < 2 ^ 8" "unat M < 2 ^ 10"
  defines "u \<equiv> sign_word h OR push_bit 23 E OR push_bit 13 M"
  shows "bit u 31 = bit h 15" "take_bit 8 (drop_bit 23 u) = E" "take_bit 23 u = push_bit 13 M"
proof -
  have E: "take_bit 8 E = E" and M: "take_bit 10 M = M"
    using assms(1,2) by (auto intro!: take_bit_small)
  have eb: "\<not> bit E n" if "8 \<le> n" for n using E that by (metis bit_take_bit_iff linorder_not_less)
  have mb: "\<not> bit M n" if "10 \<le> n" for n using M that by (metis bit_take_bit_iff linorder_not_less)
  show "bit u 31 = bit h 15" using eb mb by (simp add: u_def bit_simps sign_word_bit)
  show "take_bit 8 (drop_bit 23 u) = E"
    by (rule bit_word_eqI) (use eb mb in \<open>auto simp: u_def bit_simps sign_word_bit\<close>)
  show "take_bit 23 u = push_bit 13 M"
    by (rule bit_word_eqI) (use mb in \<open>auto simp: u_def bit_simps sign_word_bit\<close>)
qed

lemma unat_push13: "unat M < 2 ^ 10 \<Longrightarrow> unat (push_bit 13 (M :: 32 word)) = unat M * 2 ^ 13"
  by (simp add: push_bit_eq_mult unat_word_ariths)

text \<open>Putting a single-precision number together from its fields.\<close>

lemma f32_val_assemble:
  fixes h :: "16 word" and E M :: "32 word"
  assumes "unat E < 2 ^ 8" "unat M < 2 ^ 10"
  shows "f32_val (sign_word h OR push_bit 23 E OR push_bit 13 M) =
    (if unat E = 255 then (if M = 0 then Inf (bit h 15) else NaN)
     else if unat E = 0 then Fin (bit h 15) (of_nat (unat M * 2 ^ 13) / 2 ^ 149)
     else Fin (bit h 15) (of_nat (2 ^ 10 + unat M) * 2 ^ unat E / 2 ^ 137))"
proof -
  have "unat (push_bit 13 M) = 0 \<longleftrightarrow> M = 0"
    using unat_push13 [OF assms(2)] by (auto simp: unat_eq_0)
  then show ?thesis
    unfolding f32_val_def f32_fields [OF assms, of h] Let_def unat_push13 [OF assms(2)]
    by (auto simp: field_simps unat_push13 [OF assms(2)])
qed

lemma bit10_iff: "bit (m :: 32 word) 10 \<longleftrightarrow> odd (unat m div 2 ^ 10)"
  using bit_unsigned_iff [of m 10, where 'a = nat] by (simp add: bit_iff_odd)

lemma and_0x400: "(m :: 32 word) AND 0x400 = 0 \<longleftrightarrow> \<not> bit m 10"
proof -
  have eq: "(0x400 :: 32 word) = 2 ^ 10" by simp
  show ?thesis unfolding eq by (rule and_exp_eq_0_iff_not_bit)
qed

lemma renorm_shift:
  assumes "unat m * 2 ^ j < 2 ^ 11" "2 ^ 10 \<le> unat m * 2 ^ j"
  shows "renorm m e = Some (push_bit j m, e + of_nat j)"
  using assms
proof (induction j arbitrary: m e)
  case 0
  then have "unat m div 2 ^ 10 = 1" by (intro div_nat_eqI) auto
  then have "bit m 10" by (simp add: bit10_iff)
  then show ?case by (subst renorm.simps) (simp add: and_0x400)
next
  case (Suc j)
  have "unat m \<le> unat m * 2 ^ j" by simp
  moreover have "unat m * 2 ^ j < 2 ^ 10" using Suc.prems(1) by simp
  ultimately have small: "unat m < 2 ^ 10" by linarith
  then have "\<not> bit m 10" by (simp add: bit10_iff)
  moreover have "unat (push_bit 1 m) = unat m * 2"
    using small by (simp add: push_bit_eq_mult unat_word_ariths)
  ultimately show ?case
    using Suc.IH [of "push_bit 1 m" "e + 1"] Suc.prems
    by (subst renorm.simps) (simp add: and_0x400 mult.assoc push_bit_push_bit add.assoc)
qed

lemma renorm_exists:
  "0 < m \<Longrightarrow> m < 2 ^ n \<Longrightarrow> n \<le> 10 \<Longrightarrow> \<exists>j. 11 - n \<le> j \<and> j \<le> 10 \<and> m * 2 ^ j < 2 ^ 11 \<and> (2 ^ 10 :: nat) \<le> m * 2 ^ j"
proof (induction n)
  case (Suc n)
  show ?case
  proof (cases "m < 2 ^ n")
    case True
    with Suc obtain j where "11 - n \<le> j" "j \<le> 10" "m * 2 ^ j < 2 ^ 11" "2 ^ 10 \<le> m * 2 ^ j" by auto
    then show ?thesis by (intro exI [of _ j]) auto
  next
    case False
    have p: "(2 :: nat) ^ n * 2 ^ (10 - n) = 2 ^ 10" "(2 :: nat) ^ Suc n * 2 ^ (10 - n) = 2 ^ 11"
      using Suc.prems(3) by (simp_all flip: power_add)
    have "2 ^ n * 2 ^ (10 - n) \<le> m * 2 ^ (10 - n)" using False by (intro mult_le_mono1) simp
    moreover have "m * 2 ^ (10 - n) < 2 ^ Suc n * 2 ^ (10 - n)" using Suc.prems(2) by (intro mult_less_mono1) auto
    ultimately have "2 ^ 10 \<le> m * 2 ^ (10 - n)" "m * 2 ^ (10 - n) < 2 ^ 11" unfolding p by auto
    then show ?thesis using Suc.prems(3) by (intro exI [of _ "10 - n"]) auto
  qed
qed simp

lemma mask_lits: "(0x1F :: 32 word) = mask 5" "(0x3FF :: 32 word) = mask 10"
  by (simp_all add: mask_eq_exp_minus_1)

lemma unat_ucast_16_32: "unat (ucast (x :: 16 word) :: 32 word) = unat x"
proof -
  have "unat x < 2 ^ 16" using unsigned_less [of x] by simp
  then show ?thesis by (simp add: unsigned_ucast_eq take_bit_nat_eq_self_iff)
qed

lemma unat_113: "1 \<le> j \<Longrightarrow> j \<le> 10 \<Longrightarrow> unat (127 - 15 - of_nat j + 1 :: 32 word) = 113 - j"
proof -
  assume "1 \<le> j" "j \<le> 10"
  then have eq: "(127 - 15 - of_nat j + 1 :: 32 word) = of_nat (113 - j)" by (simp add: of_nat_diff)
  show ?thesis unfolding eq unat_of_nat by simp
qed

text \<open>A subnormal half, renormalised.\<close>

lemma f32_val_subnormal:
  fixes h :: "16 word" and m :: "32 word"
  assumes "m \<noteq> 0" and m10: "unat m < 2 ^ 10"
  shows "\<exists>m' e'. renorm m 0 = Some (m', e') \<and>
    f32_val (sign_word h OR push_bit 23 (127 - 15 - e' + 1) OR push_bit 13 (m' AND 0x3FF)) =
      Fin (bit h 15) (of_nat (unat m) / 2 ^ 24)"
proof -
  have "0 < unat m" using assms(1) by (simp add: unat_gt_0)
  then obtain j where j: "1 \<le> j" "j \<le> 10" "unat m * 2 ^ j < 2 ^ 11" "2 ^ 10 \<le> unat m * 2 ^ j"
    using renorm_exists [of "unat m" 10] m10 by auto
  define E where "E = (127 - 15 - of_nat j + 1 :: 32 word)"
  define M where "M = push_bit j m AND 0x3FF"
  have E: "unat E = 113 - j" unfolding E_def using j(1,2) by (rule unat_113)
  have pm: "unat (push_bit j m) = unat m * 2 ^ j"
    using j(3) unfolding unsigned_push_bit_eq by (simp add: push_bit_eq_mult take_bit_nat_eq_self_iff)
  have "unat M = unat m * 2 ^ j mod 2 ^ 10"
    unfolding M_def mask_lits take_bit_eq_mask [symmetric] unsigned_take_bit_eq pm by (simp add: take_bit_eq_mod)
  also have "\<dots> = unat m * 2 ^ j - 2 ^ 10" using j(3,4) by (simp add: mod_if)
  finally have M: "unat M = unat m * 2 ^ j - 2 ^ 10" .
  have "of_nat (2 ^ 10 + unat M) * 2 ^ (113 - j) / 2 ^ 137 = (of_nat (unat m) / 2 ^ 24 :: rat)"
  proof -
    have "2 ^ 10 + unat M = unat m * 2 ^ j" using M j(4) by simp
    then have "of_nat (2 ^ 10 + unat M) * 2 ^ (113 - j) = (of_nat (unat m) * (2 ^ j * 2 ^ (113 - j)) :: rat)"
      by simp
    also have "(2 :: rat) ^ j * 2 ^ (113 - j) = 2 ^ 113" using j(2) by (simp flip: power_add)
    finally show ?thesis by simp
  qed
  moreover have "unat E < 2 ^ 8" "unat M < 2 ^ 10" "unat E \<noteq> 255" "unat E \<noteq> 0" using E M j by auto
  ultimately have "f32_val (sign_word h OR push_bit 23 E OR push_bit 13 M) = Fin (bit h 15) (of_nat (unat m) / 2 ^ 24)"
    using f32_val_assemble [of E M h] unfolding E by presburger
  then show ?thesis using renorm_shift [OF j(3,4), of 0] by (simp add: E_def M_def)
qed

text \<open>
  C31: widening a half to a single is exact.  For every one of the 65536 bit patterns the loop
  that renormalises a subnormal ends, and the single-precision number has the same sign and the
  same value; infinities stay infinities, and only a NaN becomes a NaN.
\<close>

theorem f16_to_f32_exact:
  "\<exists>u. eng_f16_to_f32 h = Some u \<and> f32_val u = f16_val h"
proof -
  define e where "e = (ucast (drop_bit 10 h) AND 0x1F :: 32 word)"
  define m where "m = (ucast h AND 0x3FF :: 32 word)"
  have ue: "unat e = unat (take_bit 5 (drop_bit 10 h))" "unat m = unat (take_bit 10 h)"
    unfolding e_def m_def mask_lits take_bit_eq_mask [symmetric] unsigned_take_bit_eq
    by (simp_all add: unat_ucast_16_32)
  have e5: "unat e < 2 ^ 5" and m10: "unat m < 2 ^ 10"
    unfolding ue unsigned_take_bit_eq by (simp_all add: take_bit_eq_mod)
  have def: "eng_f16_to_f32 h =
     (if e = 0 then if m = 0 then Some (sign_word h)
        else map_option (\<lambda>(m, e). sign_word h OR push_bit 23 (127 - 15 - e + 1) OR push_bit 13 (m AND 0x3FF)) (renorm m 0)
      else if e = 0x1F then Some (sign_word h OR 0x7F800000 OR push_bit 13 m)
      else Some (sign_word h OR push_bit 23 (e + (127 - 15)) OR push_bit 13 m))"
    by (simp add: eng_f16_to_f32_def Let_def e_def m_def sign_word_def)
  note f16 = f16_val_def [of h, folded ue, unfolded Let_def]
  consider "e = 0" "m = 0" | "e = 0" "m \<noteq> 0" | "e = 0x1F" | "e \<noteq> 0" "e \<noteq> 0x1F" by blast
  then show ?thesis
  proof cases
    case 1
    have "f32_val (sign_word h) = Fin (bit h 15) 0" using f32_val_assemble [of 0 0 h] by simp
    then show ?thesis using 1 by (simp add: def f16)
  next
    case 2
    then show ?thesis using f32_val_subnormal [OF _ m10, of h] by (auto simp: def f16)
  next
    case 3
    have lit: "(0x7F800000 :: 32 word) = push_bit 23 0xFF" by simp
    have "f32_val (sign_word h OR 0x7F800000 OR push_bit 13 m) = (if m = 0 then Inf (bit h 15) else NaN)"
      unfolding lit using f32_val_assemble [of "0xFF" m h] m10 by simp
    then show ?thesis using 3 by (simp add: def f16 unat_eq_0)
  next
    case 4
    have "e = 31" if "unat e = 31" using arg_cong [OF that, of "word_of_nat :: nat \<Rightarrow> 32 word"] by simp
    then have u: "unat e \<noteq> 31" "unat e \<noteq> 0" using 4 by (auto simp: unat_eq_0)
    have E: "unat (e + (127 - 15)) = unat e + 112" using e5 by (simp add: unat_word_ariths)
    have "f32_val (sign_word h OR push_bit 23 (e + (127 - 15)) OR push_bit 13 m) =
        Fin (bit h 15) (of_nat (2 ^ 10 + unat m) * 2 ^ (unat e + 112) / 2 ^ 137)"
      using f32_val_assemble [of "e + (127 - 15)" m h] E e5 m10 u by simp
    also have "\<dots> = Fin (bit h 15) (of_nat (2 ^ 10 + unat m) * 2 ^ unat e / 2 ^ 25)"
      by (simp add: power_add)
    finally show ?thesis using 4 u by (simp add: def f16)
  qed
qed

end
