(* ===== verification/Gguf_Props.thy ===== *)
theory Gguf_Props
  imports Gguf Tensor_Props
begin

text \<open>
  Properties of the GGUF reader: decoding inverts the little-endian encoding of the format, a
  header written by the format's rules is read back field by field, accepted tensors lie inside
  the file, the string pool cannot run out, and two hostile headers the checks let through.
\<close>

section \<open>Encoding\<close>

definition enc_le :: "nat \<Rightarrow> 64 word \<Rightarrow> byte list" where
  "enc_le n w = map (\<lambda>i. ucast (drop_bit (8 * i) w)) [0..<n]"

definition enc_str :: "byte list \<Rightarrow> byte list" where
  "enc_str s = enc_le 8 (of_nat (length s)) @ s"

lemma length_enc_le [simp]: "length (enc_le n w) = n"
  by (simp add: enc_le_def)

lemma bit_le_from:
  "bit (le_from i bs v) k \<longleftrightarrow> bit v k \<or>
     (k < 64 \<and> 8 * i \<le> k \<and> k < 8 * (i + length bs) \<and> bit (bs ! ((k - 8 * i) div 8)) ((k - 8 * i) mod 8))"
proof (induction bs arbitrary: i v)
  case (Cons b bs)
  show ?case
  proof (cases "8 * i \<le> k \<and> k < 8 * i + 8")
    case True
    then have "(k - 8 * i) div 8 = 0" "(k - 8 * i) mod 8 = k - 8 * i" by auto
    then show ?thesis using True by (simp add: Cons.IH bit_simps) auto
  next
    case False
    have "bit (ucast b :: 64 word) (k - 8 * i) = False" if "8 * i + 8 \<le> k"
    proof -
      have "8 \<le> k - 8 * i" using that by simp
      then show ?thesis by (auto simp: bit_simps dest: bit_imp_le_length)
    qed
    moreover have "(k - 8 * i) div 8 = Suc ((k - 8 * Suc i) div 8)" "(k - 8 * i) mod 8 = (k - 8 * Suc i) mod 8"
      if "8 * i + 8 \<le> k"
    proof -
      have e: "k - 8 * i = (k - 8 * Suc i) + 8" using that by simp
      show "(k - 8 * i) div 8 = Suc ((k - 8 * Suc i) div 8)" unfolding e by simp
      show "(k - 8 * i) mod 8 = (k - 8 * Suc i) mod 8" unfolding e by simp
    qed
    ultimately show ?thesis using False by (auto simp: Cons.IH bit_simps)
  qed
qed auto

lemma le_from_enc: "n \<le> 8 \<Longrightarrow> le_from 0 (enc_le n w) 0 = take_bit (8 * n) w"
proof (rule bit_word_eqI)
  fix k assume n: "n \<le> 8" and "k < LENGTH(64)"
  show "bit (le_from 0 (enc_le n w) 0) k = bit (take_bit (8 * n) w) k"
  proof (cases "k < 8 * n")
    case True
    then have "k div 8 < n" by auto
    then have "enc_le n w ! (k div 8) = ucast (drop_bit (8 * (k div 8)) w)" by (simp add: enc_le_def)
    moreover have "8 * (k div 8) + k mod 8 = k" by simp
    ultimately show ?thesis using True \<open>k < LENGTH(64)\<close> by (simp add: bit_le_from bit_simps)
  next
    case False
    then show ?thesis by (simp add: bit_le_from bit_simps)
  qed
qed

lemma rd_enc [simp]:
  "n \<le> 8 \<Longrightarrow> rd n \<lparr>c_p = enc_le n w @ r, c_bad = False\<rparr> = (take_bit (8 * n) w, \<lparr>c_p = r, c_bad = False\<rparr>)"
  by (simp add: rd_def le_from_enc)

lemma rd_u64_enc [simp]:
  "rd_u64 \<lparr>c_p = enc_le 8 w @ r, c_bad = False\<rparr> = (w, \<lparr>c_p = r, c_bad = False\<rparr>)"
  using rd_enc [of 8 w r] take_bit_length_eq [of w] by (simp add: rd_u64_def)

lemma rd_u32_enc [simp]:
  "rd_u32 \<lparr>c_p = enc_le 4 (ucast w) @ r, c_bad = False\<rparr> = (w, \<lparr>c_p = r, c_bad = False\<rparr>)"
proof -
  have "ucast (take_bit 32 (ucast w :: 64 word)) = w" by (rule bit_word_eqI) (simp add: bit_simps)
  then show ?thesis using rd_enc [of 4 "ucast w" r] by (simp add: rd_u32_def)
qed

definition short :: "'a list \<Rightarrow> bool" where
  "short xs \<longleftrightarrow> int (length xs) < 2 ^ 60"

lemma shortD: "short xs \<Longrightarrow> length xs < 2 ^ 60"
  by (simp add: short_def)

lemma rd_str_enc [simp]:
  assumes "short s"
  shows "rd_str \<lparr>c_p = enc_str s @ r, c_bad = False\<rparr> = (Some s, \<lparr>c_p = r, c_bad = False\<rparr>)"
proof -
  have "unat (of_nat (length s) :: 64 word) = length s" using shortD [OF assms] by (simp add: unat_of_nat)
  then show ?thesis by (simp add: rd_str_def enc_str_def)
qed

text \<open>
  The content of a header as the format describes it: keys with values, and tensors.  An integer
  value is given by its type and its bits.
\<close>

datatype hval = HInt gguf_type "64 word" | HSingle "32 word" | HDouble "64 word" | HStr "byte list"
  | HArr gguf_type "byte list list" | HArrStr "byte list list"

fun type_code :: "gguf_type \<Rightarrow> 32 word" where
  "type_code GGUF_T_UINT8 = 0" | "type_code GGUF_T_INT8 = 1" | "type_code GGUF_T_UINT16 = 2" | "type_code GGUF_T_INT16 = 3"
| "type_code GGUF_T_UINT32 = 4" | "type_code GGUF_T_INT32 = 5" | "type_code GGUF_T_FLOAT32 = 6" | "type_code GGUF_T_BOOL = 7"
| "type_code GGUF_T_STRING = 8" | "type_code GGUF_T_ARRAY = 9" | "type_code GGUF_T_UINT64 = 10" | "type_code GGUF_T_INT64 = 11"
| "type_code GGUF_T_FLOAT64 = 12" | "type_code (GGUF_T_OTHER n) = word_of_int n"

fun enc_val :: "hval \<Rightarrow> byte list" where
  "enc_val (HInt t w) = enc_le (scalar_size t) w"
| "enc_val (HSingle w) = enc_le 4 (ucast w)"
| "enc_val (HDouble w) = enc_le 8 w"
| "enc_val (HStr s) = enc_str s"
| "enc_val (HArr t es) = enc_le 4 (ucast (type_code t)) @ enc_le 8 (of_nat (length es)) @ concat es"
| "enc_val (HArrStr ss) = enc_le 4 (ucast (type_code GGUF_T_STRING)) @ enc_le 8 (of_nat (length ss)) @ concat (map enc_str ss)"

fun hval_type :: "hval \<Rightarrow> gguf_type" where
  "hval_type (HInt t w) = t" | "hval_type (HSingle w) = GGUF_T_FLOAT32" | "hval_type (HDouble w) = GGUF_T_FLOAT64"
| "hval_type (HStr s) = GGUF_T_STRING" | "hval_type (HArr t es) = GGUF_T_ARRAY" | "hval_type (HArrStr ss) = GGUF_T_ARRAY"

text \<open>The number an integer value stands for, by its type.\<close>

fun int_of :: "gguf_type \<Rightarrow> 64 word \<Rightarrow> int" where
  "int_of GGUF_T_UINT8 w = uint (ucast w :: 8 word)" | "int_of GGUF_T_INT8 w = sint (ucast w :: 8 word)"
| "int_of GGUF_T_UINT16 w = uint (ucast w :: 16 word)" | "int_of GGUF_T_INT16 w = sint (ucast w :: 16 word)"
| "int_of GGUF_T_UINT32 w = uint (ucast w :: 32 word)" | "int_of GGUF_T_INT32 w = sint (ucast w :: 32 word)"
| "int_of GGUF_T_BOOL w = (if (ucast w :: 8 word) \<noteq> 0 then 1 else 0)"
| "int_of t w = sint w"

definition is_int_type :: "gguf_type \<Rightarrow> bool" where
  "is_int_type t \<longleftrightarrow> t \<in> {GGUF_T_UINT8, GGUF_T_INT8, GGUF_T_UINT16, GGUF_T_INT16, GGUF_T_UINT32, GGUF_T_INT32,
     GGUF_T_UINT64, GGUF_T_INT64, GGUF_T_BOOL}"

fun hval_ok :: "hval \<Rightarrow> bool" where
  "hval_ok (HInt t w) \<longleftrightarrow> is_int_type t"
| "hval_ok (HSingle w) \<longleftrightarrow> True" | "hval_ok (HDouble w) \<longleftrightarrow> True"
| "hval_ok (HStr s) \<longleftrightarrow> short s"
| "hval_ok (HArr t es) \<longleftrightarrow> scalar_size t > 0 \<and> short es \<and> list_all (\<lambda>e. length e = scalar_size t) es"
| "hval_ok (HArrStr ss) \<longleftrightarrow> short ss \<and> list_all short ss"

text \<open>The entry the reader should produce, given the bytes that follow the value.\<close>

fun entry_of_hval :: "byte list \<Rightarrow> hval \<Rightarrow> byte list \<Rightarrow> gguf_kv" where
  "entry_of_hval key (HInt t w) r = kv_zero\<lparr>k_key := key, k_type := t, k_i := int_of t w\<rparr>"
| "entry_of_hval key (HSingle w) r = kv_zero\<lparr>k_key := key, k_type := GGUF_T_FLOAT32, k_f := FSingle w\<rparr>"
| "entry_of_hval key (HDouble w) r = kv_zero\<lparr>k_key := key, k_type := GGUF_T_FLOAT64, k_f := FDouble w\<rparr>"
| "entry_of_hval key (HStr s) r = kv_zero\<lparr>k_key := key, k_type := GGUF_T_STRING, k_str := Some s\<rparr>"
| "entry_of_hval key (HArr t es) r = kv_zero\<lparr>k_key := key, k_type := GGUF_T_ARRAY, k_arr_type := t,
     k_arr_len := int (length es), k_arr_data := concat es @ r\<rparr>"
| "entry_of_hval key (HArrStr ss) r = kv_zero\<lparr>k_key := key, k_type := GGUF_T_ARRAY, k_arr_type := GGUF_T_STRING,
     k_arr_len := int (length ss), k_arr_data := concat (map enc_str ss) @ r\<rparr>"

definition enc_kv :: "byte list \<times> hval \<Rightarrow> byte list" where
  "enc_kv h = enc_str (fst h) @ enc_le 4 (ucast (type_code (hval_type (snd h)))) @ enc_val (snd h)"

definition hkv_ok :: "byte list \<times> hval \<Rightarrow> bool" where
  "hkv_ok h \<longleftrightarrow> short (fst h) \<and> hval_ok (snd h)"

lemma scalar_types: "scalar_size t > 0 \<Longrightarrow> gguf_type_of (type_code t) = t"
  by (cases t) (simp_all add: gguf_type_of_def Let_def)

lemma type_code_hval: "hval_ok v \<Longrightarrow> gguf_type_of (type_code (hval_type v)) = hval_type v"
  by (cases v) (auto simp: gguf_type_of_def Let_def is_int_type_def intro!: scalar_types)

lemma skip_strs_enc:
  "list_all short ss \<Longrightarrow>
    skip_strs (length ss) \<lparr>c_p = concat (map enc_str ss) @ r, c_bad = False\<rparr> = POk \<lparr>c_p = r, c_bad = False\<rparr>"
  by (induction ss) auto

lemma length_concat_eq: "list_all (\<lambda>e. length e = n) es \<Longrightarrow> length (concat es) = n * length es"
  by (induction es) auto

lemma sint_word_of_int: "in_i64 x \<Longrightarrow> sint (word_of_int x :: 64 word) = x"
  by (simp add: in_i64_def signed_of_int signed_take_bit_int_eq_self)

lemma sint_of_nat_small: "n < 2 ^ 60 \<Longrightarrow> sint (of_nat n :: 64 word) = int n"
  using sint_word_of_int [of "int n"] by (simp add: in_i64_def)

lemma rd_value_enc:
  assumes "hval_ok v"
  shows "rd_value (kv_zero\<lparr>k_key := key, k_type := hval_type v\<rparr>) \<lparr>c_p = enc_val v @ r, c_bad = False\<rparr>
    = POk (entry_of_hval key v r, \<lparr>c_p = r, c_bad = False\<rparr>)"
proof (cases v)
  case (HInt t w)
  have u: "ucast (take_bit 8 w) = (ucast w :: 8 word)" "ucast (take_bit 16 w) = (ucast w :: 16 word)"
    "ucast (take_bit 32 w) = (ucast w :: 32 word)"
    by (rule bit_word_eqI; simp add: bit_simps)+
  show ?thesis
    using assms HInt rd_enc [of 1 w r] rd_enc [of 2 w r] rd_enc [of 4 w r]
    by (auto simp: is_int_type_def rd_value_def rd_u8_def rd_u16_def rd_u32_def u)
next
  case (HArr t es)
  have al: "sint (of_nat (length es) :: 64 word) = int (length es)"
    using assms HArr by (intro sint_of_nat_small shortD) auto
  have sz: "scalar_size t \<le> 8" by (cases t) auto
  have "scalar_size t * length es < 2 ^ 64"
  proof -
    have "scalar_size t * length es \<le> 8 * 2 ^ 60" using sz assms HArr by (intro mult_le_mono less_imp_le [OF shortD]) auto
    then show ?thesis by simp
  qed
  then have "unat (of_nat (scalar_size t) * of_nat (length es) :: 64 word) = scalar_size t * length es"
    by (simp add: unat_of_nat flip: of_nat_mult)
  moreover have "length (concat es) = scalar_size t * length es"
    using assms HArr by (intro length_concat_eq) auto
  ultimately show ?thesis
    using assms HArr al scalar_types [of t] by (simp add: rd_value_def rd_array_def Let_def)
next
  case (HArrStr ss)
  have al: "sint (of_nat (length ss) :: 64 word) = int (length ss)"
    using assms HArrStr by (intro sint_of_nat_small shortD) auto
  have ty: "gguf_type_of 8 = GGUF_T_STRING" by (simp add: gguf_type_of_def Let_def)
  show ?thesis
    using assms HArrStr al ty skip_strs_enc [of ss r] rd_u32_enc [of 8]
    by (simp add: rd_value_def rd_array_def Let_def)
qed (use assms in \<open>auto simp: rd_value_def\<close>)

lemma rd_kv_enc:
  assumes "hkv_ok h" "used + int (length (fst h)) + 1 \<le> cap"
  shows "rd_kv cap used \<lparr>c_p = enc_kv h @ r, c_bad = False\<rparr> =
    POk (entry_of_hval (fst h) (snd h) r, used + int (length (fst h)) + 1, \<lparr>c_p = r, c_bad = False\<rparr>)"
  using assms rd_value_enc [of "snd h" "fst h" r] type_code_hval [of "snd h"]
  by (simp add: rd_kv_def enc_kv_def hkv_ok_def pool_add_def)

fun entries_of :: "(byte list \<times> hval) list \<Rightarrow> byte list \<Rightarrow> gguf_kv list" where
  "entries_of [] r = []"
| "entries_of (h # hs) r = entry_of_hval (fst h) (snd h) (concat (map enc_kv hs) @ r) # entries_of hs r"

lemma rd_kvs_enc:
  assumes "list_all hkv_ok hs" "used + sum_list (map (\<lambda>h. int (length (fst h)) + 1) hs) \<le> cap"
  shows "rd_kvs (length hs) cap used \<lparr>c_p = concat (map enc_kv hs) @ r, c_bad = False\<rparr> =
    POk (entries_of hs r, used + sum_list (map (\<lambda>h. int (length (fst h)) + 1) hs), \<lparr>c_p = r, c_bad = False\<rparr>)"
  using assms
proof (induction hs arbitrary: used)
  case (Cons h hs)
  have "0 \<le> sum_list (map (\<lambda>h. int (length (fst h)) + 1) hs)" by (intro sum_list_nonneg) auto
  then have "used + int (length (fst h)) + 1 \<le> cap" using Cons.prems by simp
  then show ?case
    using Cons rd_kv_enc [of h used cap "concat (map enc_kv hs) @ r"] by (simp add: add.assoc)
qed simp

section \<open>Tensors\<close>

definition enc_tensor :: "gguf_tensor \<Rightarrow> byte list" where
  "enc_tensor t = enc_str (g_name t) @ enc_le 4 (ucast (of_nat (length (g_shape t)) :: 32 word))
     @ concat (map (\<lambda>d. enc_le 8 (word_of_int d)) (g_shape t)) @ enc_le 4 (ucast (g_ggml_type t))
     @ enc_le 8 (word_of_int (g_rel_off t))"

definition tensor_ok :: "gguf_tensor \<Rightarrow> bool" where
  "tensor_ok t \<longleftrightarrow> short (g_name t) \<and> 1 \<le> length (g_shape t) \<and> length (g_shape t) \<le> 4 \<and>
     list_all in_i64 (g_shape t) \<and> in_i64 (g_rel_off t) \<and>
     gguf_dtype (g_ggml_type t) \<noteq> 0 \<and> g_dtype t = gguf_dtype (g_ggml_type t) \<and>
     g_nbytes t = eng_tensor_nbytes (g_dtype t) (g_shape t) \<and> 0 \<le> g_nbytes t \<and> g_file_off t = 0"

lemma rd_dims_enc:
  "list_all in_i64 ds \<Longrightarrow>
    rd_dims (length ds) \<lparr>c_p = concat (map (\<lambda>d. enc_le 8 (word_of_int d)) ds) @ r, c_bad = False\<rparr>
      = (ds, \<lparr>c_p = r, c_bad = False\<rparr>)"
  by (induction ds) (auto simp: sint_word_of_int)

lemma rd_tensor_enc:
  assumes "tensor_ok t" "used + int (length (g_name t)) + 1 \<le> cap"
  shows "rd_tensor cap used \<lparr>c_p = enc_tensor t @ r, c_bad = False\<rparr> =
    POk (t, used + int (length (g_name t)) + 1, \<lparr>c_p = r, c_bad = False\<rparr>)"
proof -
  have "length (g_shape t) \<in> {1, 2, 3, 4}" using assms by (auto simp: tensor_ok_def)
  then have nd: "sint (of_nat (length (g_shape t)) :: 32 word) = int (length (g_shape t))"
    "unat (of_nat (length (g_shape t)) :: 32 word) = length (g_shape t)"
    by auto
  have l: "1 \<le> length (g_shape t)" "length (g_shape t) \<le> 4" using assms by (auto simp: tensor_ok_def)
  show ?thesis
    using assms nd l rd_dims_enc [of "g_shape t"]
    by (cases t) (auto simp: rd_tensor_def enc_tensor_def tensor_ok_def pool_add_def
        sint_word_of_int GGUF_MAX_DIMS_def Let_def)
qed

lemma rd_tensors_enc:
  assumes "list_all tensor_ok ts" "used + sum_list (map (\<lambda>t. int (length (g_name t)) + 1) ts) \<le> cap"
  shows "rd_tensors (length ts) cap used \<lparr>c_p = concat (map enc_tensor ts) @ r, c_bad = False\<rparr> =
    POk (ts, used + sum_list (map (\<lambda>t. int (length (g_name t)) + 1) ts), \<lparr>c_p = r, c_bad = False\<rparr>)"
  using assms
proof (induction ts arbitrary: used)
  case (Cons t ts)
  have "0 \<le> sum_list (map (\<lambda>t. int (length (g_name t)) + 1) ts)" by (intro sum_list_nonneg) auto
  then have "used + int (length (g_name t)) + 1 \<le> cap" using Cons.prems by simp
  then show ?case
    using Cons rd_tensor_enc [of t used cap "concat (map enc_tensor ts) @ r"] by (simp add: add.assoc)
qed simp

section \<open>Whole headers\<close>

record header =
  h_version :: "32 word"
  h_kv :: "(byte list \<times> hval) list"
  h_tensors :: "gguf_tensor list"

definition enc_header :: "header \<Rightarrow> byte list" where
  "enc_header h = ascii ''GGUF'' @ enc_le 4 (ucast (h_version h)) @ enc_le 8 (of_nat (length (h_tensors h)))
     @ enc_le 8 (of_nat (length (h_kv h))) @ concat (map enc_kv (h_kv h)) @ concat (map enc_tensor (h_tensors h))"

definition header_ok :: "header \<Rightarrow> bool" where
  "header_ok h \<longleftrightarrow> (h_version h = 2 \<or> h_version h = 3) \<and> int (length (h_tensors h)) \<le> 2 ^ 22 \<and> int (length (h_kv h)) \<le> 2 ^ 20 \<and>
     list_all hkv_ok (h_kv h) \<and> list_all tensor_ok (h_tensors h)"

text \<open>The pool bytes all names of a header take, terminators included.\<close>

definition names_size :: "header \<Rightarrow> int" where
  "names_size h = sum_list (map (\<lambda>h. int (length (fst h)) + 1) (h_kv h))
     + sum_list (map (\<lambda>t. int (length (g_name t)) + 1) (h_tensors h))"

lemma names_fit:
  "names_size h \<le> int (length (enc_header h)) + int (length (h_kv h)) + int (length (h_tensors h))"
proof -
  have a: "sum_list (map (\<lambda>h. int (length (fst h)) + 1) hs) \<le> int (length (concat (map enc_kv hs))) + int (length hs)" for hs
    by (induction hs) (auto simp: enc_kv_def enc_str_def)
  have b: "sum_list (map (\<lambda>t. int (length (g_name t)) + 1) ts) \<le> int (length (concat (map enc_tensor ts))) + int (length ts)" for ts
    by (induction ts) (auto simp: enc_tensor_def enc_str_def)
  show ?thesis using a [of "h_kv h"] b [of "h_tensors h"] by (simp add: names_size_def enc_header_def)
qed

lemma length_enc_header: "24 \<le> length (enc_header h)"
  by (simp add: enc_header_def ascii_def)

lemma parse_header_enc:
  assumes "header_ok h"
    and "al = alignment_of (entries_of (h_kv h) (concat (map enc_tensor (h_tensors h)) @ rest))"
    and "al AND (al - 1) = 0"
    and "ds = i64 (int (length (enc_header h)) + al - 1) AND NOT (al - 1)"
    and "place ds file_size 0 (h_tensors h) = Some (ts, db)"
  shows "parse_header file_size (enc_header h @ rest) = POk
    \<lparr>gg_version = h_version h, gg_blob = enc_header h @ rest,
     gg_strcap = int (length (enc_header h @ rest)) + int (length (h_kv h)) + int (length (h_tensors h)) + 2,
     gg_strused = names_size h, gg_kv = entries_of (h_kv h) (concat (map enc_tensor (h_tensors h)) @ rest),
     gg_t = ts, gg_alignment = al, gg_data_start = ds, gg_data_bytes = db, gg_file_size = file_size\<rparr>"
proof -
  let ?r = "concat (map enc_tensor (h_tensors h)) @ rest"
  let ?cap = "int (length (enc_header h @ rest)) + int (length (h_kv h)) + int (length (h_tensors h)) + 2"
  have cnt: "sint (of_nat (length (h_kv h)) :: 64 word) = int (length (h_kv h))"
    "sint (of_nat (length (h_tensors h)) :: 64 word) = int (length (h_tensors h))"
    using assms(1) by (auto intro!: sint_of_nat_small simp: header_ok_def)
  have nk: "0 \<le> sum_list (map (\<lambda>h. int (length (fst h)) + 1) (h_kv h))"
    "0 \<le> sum_list (map (\<lambda>t. int (length (g_name t)) + 1) (h_tensors h))"
    by (auto intro!: sum_list_nonneg)
  have fit: "names_size h \<le> ?cap" using names_fit [of h] by simp
  have kvs: "rd_kvs (length (h_kv h)) ?cap 0 \<lparr>c_p = concat (map enc_kv (h_kv h)) @ ?r, c_bad = False\<rparr> =
      POk (entries_of (h_kv h) ?r, sum_list (map (\<lambda>h. int (length (fst h)) + 1) (h_kv h)), \<lparr>c_p = ?r, c_bad = False\<rparr>)"
    using rd_kvs_enc [of "h_kv h" 0 ?cap ?r] assms(1) fit nk by (simp add: header_ok_def names_size_def)
  have tns: "rd_tensors (length (h_tensors h)) ?cap (sum_list (map (\<lambda>h. int (length (fst h)) + 1) (h_kv h)))
      \<lparr>c_p = ?r, c_bad = False\<rparr> = POk (h_tensors h, names_size h, \<lparr>c_p = rest, c_bad = False\<rparr>)"
    using rd_tensors_enc [of "h_tensors h" _ ?cap rest] assms(1) fit by (simp add: header_ok_def names_size_def)
  have al: "0 < al" unfolding assms(2) alignment_of_def by (auto split: option.splits)
  have ver: "h_version h = 2 \<or> h_version h = 3" and lims: "int (length (h_tensors h)) \<le> 2 ^ 22" "int (length (h_kv h)) \<le> 2 ^ 20"
    using assms(1) by (auto simp: header_ok_def)
  define B where "B = enc_header h @ rest"
  have l4: "length (ascii ''GGUF'') = 4" by (simp add: ascii_def)
  have B: "take 4 B = ascii ''GGUF''" "drop 4 B = enc_le 4 (ucast (h_version h)) @
      enc_le 8 (of_nat (length (h_tensors h))) @ enc_le 8 (of_nat (length (h_kv h))) @ concat (map enc_kv (h_kv h)) @ ?r"
    using l4 by (simp_all add: B_def enc_header_def)
  have lB: "24 \<le> length B" "length B - length rest = length (enc_header h)"
    using length_enc_header [of h] by (simp_all add: B_def)
  have cap: "?cap = int (length B) + int (length (h_kv h)) + int (length (h_tensors h)) + 2" by (simp add: B_def)
  show ?thesis
    unfolding B_def [symmetric] parse_header_def Let_def
    using B lB ver lims cnt al kvs [unfolded cap] tns [unfolded cap] assms(3,5)
    by (simp add: place_tensors_def Let_def assms(2) [symmetric] assms(4) [symmetric])
qed

text \<open>
  C13: a header written by the rules of the format is read back field by field.  For any version 2
  or 3 header with any metadata --- integers of every width and sign, floats, strings, arrays of
  scalars and of strings --- and any tensor table, followed by any data, parsing succeeds whenever
  the alignment is a power of two and the tensors are placed inside the file; keys, types, values,
  array positions and tensor entries are exactly the ones written, and the data section starts at
  the first aligned offset after the header.
\<close>

theorem parse_header_reads_back:
  assumes "header_ok h"
    and "al = alignment_of (entries_of (h_kv h) (concat (map enc_tensor (h_tensors h)) @ rest))"
    and "al AND (al - 1) = 0"
    and "ds = i64 (int (length (enc_header h)) + al - 1) AND NOT (al - 1)"
    and "place ds file_size 0 (h_tensors h) = Some (ts, db)"
  shows "parse_header file_size (enc_header h @ rest) = POk
    \<lparr>gg_version = h_version h, gg_blob = enc_header h @ rest,
     gg_strcap = int (length (enc_header h @ rest)) + int (length (h_kv h)) + int (length (h_tensors h)) + 2,
     gg_strused = names_size h, gg_kv = entries_of (h_kv h) (concat (map enc_tensor (h_tensors h)) @ rest),
     gg_t = ts, gg_alignment = al, gg_data_start = ds, gg_data_bytes = db, gg_file_size = file_size\<rparr>"
  using assms by (rule parse_header_enc)

definition demo_header :: header where
  "demo_header = \<lparr>h_version = 3,
     h_kv = [(ascii ''general.alignment'', HInt GGUF_T_UINT32 64), (ascii ''t'', HArrStr [ascii ''ab'', []])],
     h_tensors = [\<lparr>g_name = ascii ''w'', g_shape = [2], g_ggml_type = 0, g_dtype = 1, g_rel_off = 0, g_file_off = 0,
       g_nbytes = 8\<rparr>]\<rparr>"

theorem parse_header_reads_back_witness:
  "\<exists>g. parse_header 200 (enc_header demo_header @ [1, 2, 3]) = POk g \<and> gg_alignment g = 64 \<and>
     gg_data_start g = 192 \<and> map g_file_off (gg_t g) = [192] \<and> length (gg_kv g) = 2"
proof -
  let ?es = "entries_of (h_kv demo_header) (concat (map enc_tensor (h_tensors demo_header)) @ [1, 2, 3])"
  have ok: "header_ok demo_header" by code_simp
  have al: "64 = alignment_of ?es" by code_simp
  have p2: "(64 :: int) AND (64 - 1) = 0" by code_simp
  have ds: "192 = i64 (int (length (enc_header demo_header)) + 64 - 1) AND NOT (64 - 1)" by code_simp
  have pl: "place 192 200 0 (h_tensors demo_header) = Some ([\<lparr>g_name = ascii ''w'', g_shape = [2], g_ggml_type = 0,
      g_dtype = 1, g_rel_off = 0, g_file_off = 192, g_nbytes = 8\<rparr>], 8)" by code_simp
  have "length ?es = 2" by code_simp
  with parse_header_reads_back [OF ok al p2 ds pl] show ?thesis by simp
qed

section \<open>Bounds\<close>

lemma and_minus_one_pow2:
  assumes "0 < al" "al AND (al - 1) = 0"
  shows "\<exists>k. (al :: int) = 2 ^ k"
  using assms
proof (induction "nat al" arbitrary: al rule: less_induct)
  case less
  have rec: "al AND (al - 1) = of_bool (odd al \<and> odd (al - 1)) + 2 * ((al div 2) AND ((al - 1) div 2))"
    by (rule and_int_rec)
  show ?case
  proof (cases "even al")
    case True
    then obtain b where b: "al = 2 * b" by (elim evenE)
    then have "(al - 1) div 2 = b - 1" by simp
    with rec less.prems b have "b AND (b - 1) = 0" "0 < b" by auto
    then obtain k where "b = 2 ^ k" using less.hyps [of b] b by auto
    then show ?thesis using b by (intro exI [of _ "Suc k"]) simp
  next
    case False
    then obtain b where b: "al = 2 * b + 1" by (elim oddE)
    then have "al div 2 = b" "(al - 1) div 2 = b" by simp_all
    with rec less.prems(2) have "b = 0" by simp
    then show ?thesis using b by (intro exI [of _ 0]) simp
  qed
qed

lemma place_bounds:
  assumes "place ds fs db ts = Some (ts', db')" "0 \<le> ds" "ds < 2 ^ 61"
    and "\<forall>t \<in> set ts. 0 \<le> g_rel_off t \<and> g_rel_off t < 2 ^ 61 \<and> 0 \<le> g_nbytes t \<and> g_nbytes t < 2 ^ 61"
  shows "list_all2 (\<lambda>t t'. t' = t\<lparr>g_file_off := ds + g_rel_off t\<rparr> \<and> ds + g_rel_off t + g_nbytes t \<le> fs) ts ts'"
  using assms
proof (induction ts arbitrary: db ts' db')
  case (Cons t ts)
  have i: "i64 (ds + g_rel_off t) = ds + g_rel_off t" "i64 (ds + g_rel_off t + g_nbytes t) = ds + g_rel_off t + g_nbytes t"
    using Cons.prems by (auto intro!: i64_id simp: in_i64_def)
  from Cons.prems(1) obtain us where "ts' = t\<lparr>g_file_off := ds + g_rel_off t\<rparr> # us"
    "place ds fs (if i64 (g_rel_off t + g_nbytes t) > db then i64 (g_rel_off t + g_nbytes t) else db) ts = Some (us, db')"
    "ds + g_rel_off t + g_nbytes t \<le> fs"
    by (auto simp: Let_def i split: if_splits)
  then show ?case using Cons.IH Cons.prems by auto
qed simp

lemma place_fields:
  "place ds fs db ts = Some (ts', db') \<Longrightarrow> map g_rel_off ts = map g_rel_off ts' \<and> map g_nbytes ts = map g_nbytes ts'"
proof (induction ts arbitrary: db ts' db')
  case (Cons t ts)
  from Cons.prems obtain u us db1 where "ts' = u # us" "place ds fs db1 ts = Some (us, db')"
    "g_rel_off u = g_rel_off t" "g_nbytes u = g_nbytes t"
    by (auto simp: Let_def split: if_splits)
  with Cons.IH show ?case by auto
qed simp

lemma pbind_POk:
  "pbind x f = POk y \<Longrightarrow> (\<And>z. x = POk z \<Longrightarrow> f z = POk y \<Longrightarrow> P) \<Longrightarrow> P"
  by (cases x) auto

lemma div_mult_le: "0 < k \<Longrightarrow> a div k * k \<le> (a :: int)"
  using div_mult_mod_eq [of a k] pos_mod_sign [of k a] by linarith

lemma parse_header_success:
  assumes "parse_header fs blob = POk g"
  obtains ts hdr_end where
    "0 \<le> hdr_end" "hdr_end \<le> int (length blob)" "0 < gg_alignment g"
    "gg_alignment g AND (gg_alignment g - 1) = 0"
    "gg_data_start g = i64 (hdr_end + gg_alignment g - 1) AND NOT (gg_alignment g - 1)"
    "place (gg_data_start g) fs 0 ts = Some (gg_t g, gg_data_bytes g)"
proof -
  obtain ver cap ks ts used c where p: "place_tensors fs blob ver cap ks ts used c = POk g"
    using assms unfolding parse_header_def Let_def
    by (auto split: if_splits prod.splits elim!: pbind_POk)
  show ?thesis
    using p that [of "int (length blob - length (c_p c))" ts]
    by (auto simp: place_tensors_def Let_def split: if_splits option.splits prod.splits)
qed

text \<open>
  C32: what acceptance guarantees.  When a header is accepted, the alignment is a power of two, the
  data section starts on a multiple of it at or after the end of the header, and every tensor whose
  stored offset is not negative lies between the start of the data section and the end of the file
  (for figures below \<open>2^61\<close>, so that no sum wraps).
\<close>

theorem accepted_tensors_inside_file:
  assumes "parse_header file_size blob = POk g" "int (length blob) < 2 ^ 60" "gg_alignment g \<le> 2 ^ 60"
    and "t \<in> set (gg_t g)"
    and "list_all (\<lambda>t. 0 \<le> g_rel_off t \<and> g_rel_off t < 2 ^ 61 \<and> 0 \<le> g_nbytes t \<and> g_nbytes t < 2 ^ 61) (gg_t g)"
  shows "gg_alignment g dvd gg_data_start g \<and> (\<exists>k. gg_alignment g = 2 ^ k) \<and>
    g_file_off t = gg_data_start g + g_rel_off t \<and> gg_data_start g \<le> g_file_off t \<and>
    g_file_off t + g_nbytes t \<le> file_size"
proof -
  obtain ts e where e: "0 \<le> e" "e \<le> int (length blob)" and al: "0 < gg_alignment g"
    "gg_alignment g AND (gg_alignment g - 1) = 0"
    and ds: "gg_data_start g = i64 (e + gg_alignment g - 1) AND NOT (gg_alignment g - 1)"
    and pl: "place (gg_data_start g) file_size 0 ts = Some (gg_t g, gg_data_bytes g)"
    by (rule parse_header_success [OF assms(1)])
  obtain k where k: "gg_alignment g = 2 ^ k" using and_minus_one_pow2 [OF al] by blast
  have "i64 (e + gg_alignment g - 1) = e + gg_alignment g - 1"
    using e al assms(2,3) by (intro i64_id) (simp add: in_i64_def)
  then have d: "gg_data_start g = (e + 2 ^ k - 1) div 2 ^ k * 2 ^ k"
    using ds align_up_pow2 [of e k] by (simp add: align_up_def k)
  have dv: "gg_alignment g dvd gg_data_start g" by (simp add: d k)
  have up: "gg_data_start g \<le> e + 2 ^ k - 1" unfolding d by (rule div_mult_le) simp
  have nn: "0 \<le> gg_data_start g" unfolding d using e(1) zero_less_power [of "2 :: int" k]
    by (intro mult_nonneg_nonneg) (auto simp: pos_imp_zdiv_nonneg_iff simp del: zero_less_power)
  have lt: "gg_data_start g < 2 ^ 61" using up e assms(2,3) k by simp
  have fields: "map g_rel_off ts = map g_rel_off (gg_t g)" "map g_nbytes ts = map g_nbytes (gg_t g)"
    using place_fields [OF pl] by auto
  have "\<forall>t \<in> set ts. 0 \<le> g_rel_off t \<and> g_rel_off t < 2 ^ 61 \<and> 0 \<le> g_nbytes t \<and> g_nbytes t < 2 ^ 61"
  proof
    fix u assume "u \<in> set ts"
    then obtain i where i: "i < length ts" "u = ts ! i" by (auto simp: in_set_conv_nth)
    have l: "length ts = length (gg_t g)" using fields(1) by (metis length_map)
    have "g_rel_off u = g_rel_off (gg_t g ! i)" "g_nbytes u = g_nbytes (gg_t g ! i)"
      using i l fields by (metis nth_map)+
    then show "0 \<le> g_rel_off u \<and> g_rel_off u < 2 ^ 61 \<and> 0 \<le> g_nbytes u \<and> g_nbytes u < 2 ^ 61"
      using assms(5) i l by (simp add: list_all_length)
  qed
  from place_bounds [OF pl nn lt this] assms(4)
  have "g_file_off t = gg_data_start g + g_rel_off t \<and> g_file_off t + g_nbytes t \<le> file_size"
    by (auto simp: list_all2_conv_all_nth in_set_conv_nth)
  moreover have "0 \<le> g_rel_off t" using assms(4,5) by (auto simp: list_all_iff)
  ultimately show ?thesis using dv k by auto
qed

definition demo_gguf :: gguf where
  "demo_gguf = \<lparr>gg_version = 3, gg_blob = enc_header demo_header @ [1, 2, 3],
     gg_strcap = int (length (enc_header demo_header @ [1, 2, 3])) + 2 + 1 + 2, gg_strused = names_size demo_header,
     gg_kv = entries_of (h_kv demo_header) (concat (map enc_tensor (h_tensors demo_header)) @ [1, 2, 3]),
     gg_t = [\<lparr>g_name = ascii ''w'', g_shape = [2], g_ggml_type = 0, g_dtype = 1, g_rel_off = 0, g_file_off = 192,
       g_nbytes = 8\<rparr>], gg_alignment = 64, gg_data_start = 192, gg_data_bytes = 8, gg_file_size = 200\<rparr>"

lemma demo_parse: "parse_header 200 (enc_header demo_header @ [1, 2, 3]) = POk demo_gguf"
proof -
  have ok: "header_ok demo_header" by code_simp
  have al: "64 = alignment_of (entries_of (h_kv demo_header) (concat (map enc_tensor (h_tensors demo_header)) @ [1, 2, 3]))"
    by code_simp
  have p2: "(64 :: int) AND (64 - 1) = 0" by code_simp
  have ds: "192 = i64 (int (length (enc_header demo_header)) + 64 - 1) AND NOT (64 - 1)" by code_simp
  have pl: "place 192 200 0 (h_tensors demo_header) = Some (gg_t demo_gguf, 8)" by code_simp
  have "h_version demo_header = 3" "length (h_kv demo_header) = 2" "length (h_tensors demo_header) = 1"
    by code_simp+
  with parse_header_enc [OF ok al p2 ds pl] show ?thesis by (simp add: demo_gguf_def)
qed

theorem accepted_tensors_inside_file_witness:
  "\<exists>g t. parse_header 200 (enc_header demo_header @ [1, 2, 3]) = POk g \<and> t \<in> set (gg_t g) \<and>
     gg_data_start g \<le> g_file_off t \<and> g_file_off t + g_nbytes t \<le> 200"
proof -
  have l: "int (length (enc_header demo_header @ [1, 2, 3])) < 2 ^ 60" by code_simp
  have a: "gg_alignment demo_gguf \<le> 2 ^ 60" "hd (gg_t demo_gguf) \<in> set (gg_t demo_gguf)"
    "list_all (\<lambda>t. 0 \<le> g_rel_off t \<and> g_rel_off t < 2 ^ 61 \<and> 0 \<le> g_nbytes t \<and> g_nbytes t < 2 ^ 61) (gg_t demo_gguf)"
    by (simp_all add: demo_gguf_def)
  from accepted_tensors_inside_file [OF demo_parse l a] demo_parse a(2) show ?thesis by blast
qed

section \<open>The string pool\<close>

lemma rd_shrinks: "rd n c = (v, c') \<Longrightarrow> \<not> c_bad c' \<Longrightarrow> length (c_p c) = length (c_p c') + n \<and> \<not> c_bad c"
  by (auto simp: rd_def split: if_splits)

lemma rd_str_shrinks:
  "rd_str c = (s, c') \<Longrightarrow> \<not> c_bad c' \<Longrightarrow> \<exists>x. s = Some x \<and> length (c_p c) = length (c_p c') + 8 + length x"
  by (auto simp: rd_str_def rd_u64_def Let_def split: if_splits prod.splits dest!: rd_shrinks)

lemma skip_strs_shrinks: "skip_strs n c = POk c' \<Longrightarrow> length (c_p c') \<le> length (c_p c)"
proof (induction n arbitrary: c)
  case (Suc n)
  obtain s d where rs: "rd_str c = (s, d)" by fastforce
  with Suc.prems have "\<not> c_bad d" "skip_strs n d = POk c'" by (auto split: if_splits)
  with rd_str_shrinks [OF rs] Suc.IH [of d] show ?case by auto
qed simp

lemma rd_le: "length (c_p (snd (rd n c))) \<le> length (c_p c)"
  by (simp add: rd_def)

lemmas rd_defs = rd_u8_def rd_u16_def rd_u32_def rd_u64_def

lemma rd_word_le:
  "length (c_p (snd (rd_u8 c))) \<le> length (c_p c)" "length (c_p (snd (rd_u16 c))) \<le> length (c_p c)"
  "length (c_p (snd (rd_u32 c))) \<le> length (c_p c)" "length (c_p (snd (rd_u64 c))) \<le> length (c_p c)"
  using rd_le by (auto simp: rd_defs split: prod.splits) (metis snd_conv)+

lemma rd_str_le: "length (c_p (snd (rd_str c))) \<le> length (c_p c)"
  using rd_word_le(4) [of c] by (auto simp: rd_str_def Let_def split: prod.splits)

lemma rd_dims_le: "length (c_p (snd (rd_dims n c))) \<le> length (c_p c)"
proof (induction n arbitrary: c)
  case (Suc n)
  show ?case using Suc [of "snd (rd_u64 c)"] rd_word_le(4) [of c] by (auto split: prod.splits)
qed simp

lemma rd_array_le: "rd_array k c = POk (k', c') \<Longrightarrow> length (c_p c') \<le> length (c_p c)"
proof -
  assume r: "rd_array k c = POk (k', c')"
  obtain ty d where d: "rd_u32 c = (ty, d)" by fastforce
  obtain al e where e: "rd_u64 d = (al, e)" by fastforce
  have "length (c_p c') \<le> length (c_p e)"
    using r d e by (auto simp: rd_array_def Let_def split: if_splits elim!: pbind_POk dest: skip_strs_shrinks)
  then show ?thesis using rd_word_le(3) [of c] rd_word_le(4) [of d] d e by simp
qed

lemma rd_value_le: "rd_value k c = POk (k', c') \<Longrightarrow> length (c_p c') \<le> length (c_p c)"
  using rd_word_le [of c] rd_str_le [of c]
  by (cases "k_type k") (auto simp: rd_value_def split: prod.splits dest: rd_array_le)

lemma rd_kv_pool:
  assumes "used + int (length (c_p c)) + 1 \<le> cap" "used + int (length (c_p c)) + 1 \<le> cap'"
  shows "rd_kv cap used c = rd_kv cap' used c"
    "rd_kv cap used c = POk (k, used', c') \<Longrightarrow> used' + int (length (c_p c')) \<le> used + int (length (c_p c)) + 1"
proof -
  obtain s d where s: "rd_str c = (s, d)" by fastforce
  have fit: "\<exists>x. s = Some x \<and> used + int (length x) + 1 \<le> cap \<and> used + int (length x) + 1 \<le> cap' \<and>
      int (length x) + int (length (c_p d)) \<le> int (length (c_p c))" if "\<not> c_bad d"
    using rd_str_shrinks [OF s that] assms by auto
  show "rd_kv cap used c = rd_kv cap' used c"
    using fit s by (cases "c_bad d") (auto simp: rd_kv_def pool_add_def)
  show "used' + int (length (c_p c')) \<le> used + int (length (c_p c)) + 1" if ok: "rd_kv cap used c = POk (k, used', c')"
  proof -
    have "\<not> c_bad d" using ok s by (auto simp: rd_kv_def)
    from fit [OF this] obtain x where x: "s = Some x" "used + int (length x) + 1 \<le> cap"
      "int (length x) + int (length (c_p d)) \<le> int (length (c_p c))" by blast
    obtain t e where e: "rd_u32 d = (t, e)" by fastforce
    from ok s x e \<open>\<not> c_bad d\<close> have "used' = used + int (length x) + 1"
      "rd_value (kv_zero\<lparr>k_key := x, k_type := gguf_type_of t\<rparr>) e = POk (k, c')"
      by (auto simp: rd_kv_def pool_add_def split: if_splits elim!: pbind_POk)
    moreover from this(2) have "length (c_p c') \<le> length (c_p e)" by (rule rd_value_le)
    ultimately show ?thesis using rd_word_le(3) [of d] e x by simp
  qed
qed

lemma rd_kvs_pool:
  assumes "used + int (length (c_p c)) + int n \<le> cap" "used + int (length (c_p c)) + int n \<le> cap'"
  shows "rd_kvs n cap used c = rd_kvs n cap' used c"
    "rd_kvs n cap used c = POk (ks, used', c') \<Longrightarrow> used' + int (length (c_p c')) \<le> used + int (length (c_p c)) + int n"
proof -
  have "rd_kvs n cap used c = rd_kvs n cap' used c \<and> (\<forall>ks used' c'. rd_kvs n cap used c = POk (ks, used', c') \<longrightarrow>
      used' + int (length (c_p c')) \<le> used + int (length (c_p c)) + int n)"
    using assms
  proof (induction n arbitrary: used c)
    case (Suc n)
    have l: "used + int (length (c_p c)) + 1 \<le> cap" "used + int (length (c_p c)) + 1 \<le> cap'"
      using Suc.prems by auto
    show ?case
    proof (cases "rd_kv cap used c")
      case (POk z)
      obtain k u d where z: "z = (k, u, d)" by (metis prod_cases3)
      have "u + int (length (c_p d)) \<le> used + int (length (c_p c)) + 1"
        using rd_kv_pool(2) [OF l, of k u d] POk z by simp
      then show ?thesis
        using Suc.IH [of u d] Suc.prems POk z rd_kv_pool(1) [OF l] by (auto elim!: pbind_POk)
    qed (use rd_kv_pool(1) [OF l] in auto)
  qed simp
  then show "rd_kvs n cap used c = rd_kvs n cap' used c"
    "rd_kvs n cap used c = POk (ks, used', c') \<Longrightarrow> used' + int (length (c_p c')) \<le> used + int (length (c_p c)) + int n"
    by auto
qed

lemma rd_tensor_pool:
  assumes "used + int (length (c_p c)) + 1 \<le> cap" "used + int (length (c_p c)) + 1 \<le> cap'"
  shows "rd_tensor cap used c = rd_tensor cap' used c"
    "rd_tensor cap used c = POk (t, used', c') \<Longrightarrow> used' + int (length (c_p c')) \<le> used + int (length (c_p c)) + 1"
proof -
  obtain s d where s: "rd_str c = (s, d)" by fastforce
  have fit: "\<exists>x. s = Some x \<and> used + int (length x) + 1 \<le> cap \<and> used + int (length x) + 1 \<le> cap' \<and>
      int (length x) + int (length (c_p d)) \<le> int (length (c_p c))" if "\<not> c_bad d"
    using rd_str_shrinks [OF s that] assms by auto
  show "rd_tensor cap used c = rd_tensor cap' used c"
    using fit s by (cases "c_bad d") (auto simp: rd_tensor_def pool_add_def)
  show "used' + int (length (c_p c')) \<le> used + int (length (c_p c)) + 1" if ok: "rd_tensor cap used c = POk (t, used', c')"
  proof -
    have "\<not> c_bad d" using ok s by (auto simp: rd_tensor_def)
    from fit [OF this] obtain x where x: "s = Some x" "used + int (length x) + 1 \<le> cap"
      "int (length x) + int (length (c_p d)) \<le> int (length (c_p c))" by blast
    obtain nd e where e: "rd_u32 d = (nd, e)" by fastforce
    obtain sh f where f: "rd_dims (unat nd) e = (sh, f)" by fastforce
    obtain ty g where g: "rd_u32 f = (ty, g)" by fastforce
    obtain ro h where h: "rd_u64 g = (ro, h)" by fastforce
    have "used' = used + int (length x) + 1" "c' = h"
      using ok s x e f g h \<open>\<not> c_bad d\<close> by (auto simp: rd_tensor_def pool_add_def Let_def split: if_splits)
    then show ?thesis
      using x rd_word_le(3) [of d] e rd_dims_le [of "unat nd" e] f rd_word_le(3) [of f] g rd_word_le(4) [of g] h by simp
  qed
qed

lemma rd_tensors_pool:
  assumes "used + int (length (c_p c)) + int n \<le> cap" "used + int (length (c_p c)) + int n \<le> cap'"
  shows "rd_tensors n cap used c = rd_tensors n cap' used c"
  using assms
proof (induction n arbitrary: used c)
  case (Suc n)
  have l: "used + int (length (c_p c)) + 1 \<le> cap" "used + int (length (c_p c)) + 1 \<le> cap'"
    using Suc.prems by auto
  show ?case
  proof (cases "rd_tensor cap used c")
    case (POk z)
    obtain t u d where z: "z = (t, u, d)" by (metis prod_cases3)
    have "u + int (length (c_p d)) \<le> used + int (length (c_p c)) + 1"
      using rd_tensor_pool(2) [OF l, of t u d] POk z by simp
    then show ?thesis
      using Suc.IH [of u d] Suc.prems POk z rd_tensor_pool(1) [OF l] by auto
  qed (use rd_tensor_pool(1) [OF l] in auto)
qed simp

text \<open>
  The string pool is never exhausted.  Its capacity, computed once before any name is copied
  and never grown, is enough for every header: with any larger pool the metadata pass and the tensor
  pass behave exactly the same, so a file is never refused for want of pool space and no pointer
  into the pool has to move.
\<close>

theorem string_pool_never_exhausted:
  assumes "length (c_p c) \<le> length blob" "int (length blob) + int nk + int nt + 2 \<le> cap"
  shows "rd_kvs nk cap 0 c = rd_kvs nk (int (length blob) + int nk + int nt + 2) 0 c \<and>
    (\<forall>ks used c'. rd_kvs nk cap 0 c = POk (ks, used, c') \<longrightarrow>
       rd_tensors nt cap used c' = rd_tensors nt (int (length blob) + int nk + int nt + 2) used c')"
proof (intro conjI allI impI)
  let ?cap = "int (length blob) + int nk + int nt + 2"
  have l: "0 + int (length (c_p c)) + int nk \<le> cap" "0 + int (length (c_p c)) + int nk \<le> ?cap"
    using assms by auto
  show "rd_kvs nk cap 0 c = rd_kvs nk ?cap 0 c" by (rule rd_kvs_pool(1) [OF l])
  fix ks used c' assume "rd_kvs nk cap 0 c = POk (ks, used, c')"
  then have "used + int (length (c_p c')) \<le> int (length (c_p c)) + int nk"
    using rd_kvs_pool(2) [OF l] by simp
  then show "rd_tensors nt cap used c' = rd_tensors nt ?cap used c'"
    using assms by (intro rd_tensors_pool) auto
qed

theorem string_pool_never_exhausted_witness:
  "rd_kvs 1 1000 0 \<lparr>c_p = enc_kv (ascii ''t'', HStr (ascii ''ab'')), c_bad = False\<rparr>
    = rd_kvs 1 (int (length (enc_kv (ascii ''t'', HStr (ascii ''ab'')))) + int 1 + int 0 + 2) 0
        \<lparr>c_p = enc_kv (ascii ''t'', HStr (ascii ''ab'')), c_bad = False\<rparr>"
proof -
  have "int (length (enc_kv (ascii ''t'', HStr (ascii ''ab'')))) + int 1 + int 0 + 2 \<le> 1000" by code_simp
  from string_pool_never_exhausted [OF _ this, of "\<lparr>c_p = enc_kv (ascii ''t'', HStr (ascii ''ab'')), c_bad = False\<rparr>"]
  show ?thesis by simp
qed

section \<open>Hostile headers\<close>

definition hostile_header :: header where
  "hostile_header = \<lparr>h_version = 3, h_kv = [],
     h_tensors = [\<lparr>g_name = ascii ''w'', g_shape = [4294967296, 4294967296], g_ggml_type = 0, g_dtype = 1,
       g_rel_off = -96, g_file_off = 0, g_nbytes = 0\<rparr>]\<rparr>"

text \<open>
  A header whose lengths are not checked.  A tensor of \<open>2^32\<close> times \<open>2^32\<close> floats with a negative
  offset passes every test: the element count wraps to zero, so its size is recorded as zero bytes
  and its position lies before the data section, inside the header.
\<close>

theorem hostile_tensor_accepted:
  "\<exists>g t. parse_header 65 (enc_header hostile_header) = POk g \<and> gg_t g = [t] \<and> g_nbytes t = 0 \<and>
     g_shape t = [4294967296, 4294967296] \<and> g_file_off t = 0 \<and> g_file_off t < gg_data_start g"
proof -
  have ok: "header_ok hostile_header" by code_simp
  have al: "32 = alignment_of (entries_of (h_kv hostile_header) (concat (map enc_tensor (h_tensors hostile_header)) @ []))"
    by code_simp
  have p2: "(32 :: int) AND (32 - 1) = 0" by code_simp
  have ds: "96 = i64 (int (length (enc_header hostile_header)) + 32 - 1) AND NOT (32 - 1)" by code_simp
  have pl: "place 96 65 0 (h_tensors hostile_header) = Some ([\<lparr>g_name = ascii ''w'', g_shape = [4294967296, 4294967296],
      g_ggml_type = 0, g_dtype = 1, g_rel_off = -96, g_file_off = 0, g_nbytes = 0\<rparr>], 0)" by code_simp
  from parse_header_enc [OF ok al p2 ds pl] show ?thesis by simp
qed

text \<open>
  An array longer than the file.  The byte count of an array of fixed-width elements is a
  64-bit product, and \<open>2^61\<close> eight-byte elements make it zero: the array is accepted at the very end
  of the header, with a length of \<open>2^61\<close> elements and no bytes behind it.
\<close>

theorem hostile_array_accepted:
  "\<exists>k. rd_array kv_zero \<lparr>c_p = enc_le 4 10 @ enc_le 8 (2 ^ 61), c_bad = False\<rparr> = POk (k, \<lparr>c_p = [], c_bad = False\<rparr>) \<and>
     k_arr_type k = GGUF_T_UINT64 \<and> k_arr_len k = 2 ^ 61 \<and> k_arr_data k = []"
proof -
  have u: "rd_u32 \<lparr>c_p = enc_le 4 10 @ enc_le 8 (2 ^ 61), c_bad = False\<rparr> = (10, \<lparr>c_p = enc_le 8 (2 ^ 61), c_bad = False\<rparr>)"
    using rd_u32_enc [of 10] by simp
  have v: "rd_u64 \<lparr>c_p = enc_le 8 (2 ^ 61), c_bad = False\<rparr> = (2 ^ 61, \<lparr>c_p = [], c_bad = False\<rparr>)"
    using rd_u64_enc [of "2 ^ 61" "[]"] by simp
  have t: "gguf_type_of 10 = GGUF_T_UINT64" by (simp add: gguf_type_of_def Let_def)
  have s: "sint (2 ^ 61 :: 64 word) = 2 ^ 61" using sint_word_of_int [of "2 ^ 61"] by (simp add: in_i64_def)
  show ?thesis unfolding rd_array_def u Let_def prod.case v by (simp add: t s [simplified])
qed

end
