(* ===== verification/Fpu.thy ===== *)
theory Fpu
  imports Eng_Prelude Complex_Main
begin

text \<open>
  Floating point as the kernels use it.  The operations of the floating-point unit and of libm
  are the fields of a record: \<open>'f\<close> are the values of \<open>float\<close>, \<open>'d\<close> those of \<open>double\<close>.  What is
  proved for every such record holds whatever the rounding is, so it is an equality of bits;
  \<open>exact_fpu\<close> is the record of real arithmetic, against which the formulas are checked.

  A loop is written over the index it runs on, with the array it updates as a list.  The AVX2
  intrinsics the sources use act on lists of lanes.
\<close>

record ('f, 'd) fpu =
  f_bits :: "32 word \<Rightarrow> 'f"
  f_of_int :: "int \<Rightarrow> 'f"
  f_half :: "int \<Rightarrow> 'f"
  f_add :: "'f \<Rightarrow> 'f \<Rightarrow> 'f"
  f_sub :: "'f \<Rightarrow> 'f \<Rightarrow> 'f"
  f_mul :: "'f \<Rightarrow> 'f \<Rightarrow> 'f"
  f_div :: "'f \<Rightarrow> 'f \<Rightarrow> 'f"
  f_fma :: "'f \<Rightarrow> 'f \<Rightarrow> 'f \<Rightarrow> 'f"
  f_neg :: "'f \<Rightarrow> 'f"
  f_gt :: "'f \<Rightarrow> 'f \<Rightarrow> bool"
  f_exp :: "'f \<Rightarrow> 'f"
  f_sqrt :: "'f \<Rightarrow> 'f"
  f_ldexp1 :: "int \<Rightarrow> 'f"
  f_of_d :: "'d \<Rightarrow> 'f"
  d_of_f :: "'f \<Rightarrow> 'd"
  d_of_int :: "int \<Rightarrow> 'd"
  d_add :: "'d \<Rightarrow> 'd \<Rightarrow> 'd"
  d_sub :: "'d \<Rightarrow> 'd \<Rightarrow> 'd"
  d_mul :: "'d \<Rightarrow> 'd \<Rightarrow> 'd"
  d_div :: "'d \<Rightarrow> 'd \<Rightarrow> 'd"
  d_fma :: "'d \<Rightarrow> 'd \<Rightarrow> 'd \<Rightarrow> 'd"
  d_gt :: "'d \<Rightarrow> 'd \<Rightarrow> bool"
  d_sqrt :: "'d \<Rightarrow> 'd"
  d_pow :: "'d \<Rightarrow> 'd \<Rightarrow> 'd"
  d_cos :: "'d \<Rightarrow> 'd"
  d_sin :: "'d \<Rightarrow> 'd"

text \<open>
  Real arithmetic, for any reading \<open>val\<close> of single-precision bit patterns.  \<open>f_half k\<close> is the
  literal \<open>k / 2\<close> and \<open>f_ldexp1 e\<close> is \<open>ldexpf(1.0f, e)\<close>.
\<close>

definition exact_fpu :: "(32 word \<Rightarrow> real) \<Rightarrow> (real, real) fpu" where
  "exact_fpu val = \<lparr>f_bits = val, f_of_int = real_of_int, f_half = (\<lambda>k. real_of_int k / 2),
     f_add = (+), f_sub = (-), f_mul = (*), f_div = (/), f_fma = (\<lambda>a b c. a * b + c), f_neg = uminus,
     f_gt = (\<lambda>a b. b < a), f_exp = exp, f_sqrt = sqrt, f_ldexp1 = (\<lambda>e. 2 powi e), f_of_d = (\<lambda>x. x), d_of_f = (\<lambda>x. x),
     d_of_int = real_of_int, d_add = (+), d_sub = (-), d_mul = (*), d_div = (/), d_fma = (\<lambda>a b c. a * b + c),
     d_gt = (\<lambda>a b. b < a), d_sqrt = sqrt, d_pow = (powr), d_cos = cos, d_sin = sin\<rparr>"

lemma exact_fpu_simps [simp]:
  "f_bits (exact_fpu val) = val" "f_of_int (exact_fpu val) = real_of_int" "f_half (exact_fpu val) k = real_of_int k / 2"
  "f_add (exact_fpu val) = (+)" "f_sub (exact_fpu val) = (-)" "f_mul (exact_fpu val) = (*)" "f_div (exact_fpu val) = (/)"
  "f_fma (exact_fpu val) = (\<lambda>a b c. a * b + c)" "f_neg (exact_fpu val) = uminus" "f_gt (exact_fpu val) a b = (b < a)"
  "f_exp (exact_fpu val) = exp" "f_sqrt (exact_fpu val) = sqrt" "f_ldexp1 (exact_fpu val) = (\<lambda>e. 2 powi e)" "f_of_d (exact_fpu val) = (\<lambda>x. x)"
  "d_of_f (exact_fpu val) = (\<lambda>x. x)" "d_of_int (exact_fpu val) = real_of_int" "d_add (exact_fpu val) = (+)"
  "d_sub (exact_fpu val) = (-)" "d_mul (exact_fpu val) = (*)" "d_div (exact_fpu val) = (/)"
  "d_fma (exact_fpu val) = (\<lambda>a b c. a * b + c)" "d_gt (exact_fpu val) a b = (b < a)" "d_sqrt (exact_fpu val) = sqrt"
  "d_pow (exact_fpu val) = (powr)" "d_cos (exact_fpu val) = cos" "d_sin (exact_fpu val) = sin"
  by (simp_all add: exact_fpu_def)

section \<open>Loops\<close>

text \<open>\<open>for (; i + (w - 1) < n; i += w) body\<close>, with the value of \<open>i\<close> it ends at.\<close>

function stride_loop :: "nat \<Rightarrow> nat \<Rightarrow> (nat \<Rightarrow> 's \<Rightarrow> 's) \<Rightarrow> nat \<Rightarrow> 's \<Rightarrow> 's \<times> nat" where
  "stride_loop w n f i s = (if 0 < w \<and> i + (w - 1) < n then stride_loop w n f (i + w) (f i s) else (s, i))"
  by pat_completeness auto
termination by (relation "measure (\<lambda>(w, n, f, i, s). n - i)") auto

declare stride_loop.simps [simp del]

text \<open>\<open>for (l = 0; l < k; l++) a[l] = f(l, a[l])\<close>.\<close>

definition lanes :: "nat \<Rightarrow> (nat \<Rightarrow> 'a \<Rightarrow> 'a) \<Rightarrow> 'a list \<Rightarrow> 'a list" where
  "lanes k f a = foldl (\<lambda>a l. a[l := f l (a ! l)]) a [0..<k]"

section \<open>Vector intrinsics\<close>

definition loadu :: "nat \<Rightarrow> 'a list \<Rightarrow> nat \<Rightarrow> 'a list" where
  "loadu k xs i = map (\<lambda>l. xs ! (i + l)) [0..<k]"

definition vec3 :: "('a \<Rightarrow> 'b \<Rightarrow> 'c \<Rightarrow> 'e) \<Rightarrow> 'a list \<Rightarrow> 'b list \<Rightarrow> 'c list \<Rightarrow> 'e list" where
  "vec3 f a b c = map (\<lambda>((x, y), z). f x y z) (zip (zip a b) c)"

definition mm256_setzero_pd :: "('f, 'd) fpu \<Rightarrow> 'd list" where
  "mm256_setzero_pd fp = replicate 4 (d_of_int fp 0)"

definition mm256_cvtps_pd :: "('f, 'd) fpu \<Rightarrow> 'f list \<Rightarrow> 'd list" where
  "mm256_cvtps_pd fp a = map (d_of_f fp) a"

definition mm256_fmadd_pd :: "('f, 'd) fpu \<Rightarrow> 'd list \<Rightarrow> 'd list \<Rightarrow> 'd list \<Rightarrow> 'd list" where
  "mm256_fmadd_pd fp a b c = vec3 (d_fma fp) a b c"

definition mm256_add_pd :: "('f, 'd) fpu \<Rightarrow> 'd list \<Rightarrow> 'd list \<Rightarrow> 'd list" where
  "mm256_add_pd fp a b = map2 (d_add fp) a b"

definition mm256_setzero_ps :: "('f, 'd) fpu \<Rightarrow> 'f list" where
  "mm256_setzero_ps fp = replicate 8 (f_of_int fp 0)"

definition mm256_fmadd_ps :: "('f, 'd) fpu \<Rightarrow> 'f list \<Rightarrow> 'f list \<Rightarrow> 'f list \<Rightarrow> 'f list" where
  "mm256_fmadd_ps fp a b c = vec3 (f_fma fp) a b c"

definition mm_add_ps :: "('f, 'd) fpu \<Rightarrow> 'f list \<Rightarrow> 'f list \<Rightarrow> 'f list" where
  "mm_add_ps fp a b = map2 (f_add fp) a b"

definition mm_movehl_ps :: "'f list \<Rightarrow> 'f list \<Rightarrow> 'f list" where
  "mm_movehl_ps a b = [b ! 2, b ! 3, a ! 2, a ! 3]"

definition mm_shuffle_ps :: "'f list \<Rightarrow> 'f list \<Rightarrow> nat \<Rightarrow> 'f list" where
  "mm_shuffle_ps a b imm = [a ! (imm mod 4), a ! (imm div 4 mod 4), b ! (imm div 16 mod 4), b ! (imm div 64 mod 4)]"

definition mm_add_ss :: "('f, 'd) fpu \<Rightarrow> 'f list \<Rightarrow> 'f list \<Rightarrow> 'f list" where
  "mm_add_ss fp a b = f_add fp (a ! 0) (b ! 0) # tl a"

definition mm_cvtepu8_epi32 :: "byte list \<Rightarrow> 32 word list" where
  "mm_cvtepu8_epi32 a = map ucast a"

definition mm_cvtepu16_epi32 :: "16 word list \<Rightarrow> 32 word list" where
  "mm_cvtepu16_epi32 a = map ucast a"

definition mm_set1_epi32 :: "32 word \<Rightarrow> 32 word list" where
  "mm_set1_epi32 c = replicate 4 c"

definition mm_and_si128 :: "32 word list \<Rightarrow> 32 word list \<Rightarrow> 32 word list" where
  "mm_and_si128 a b = map2 (AND) a b"

definition mm_or_si128 :: "32 word list \<Rightarrow> 32 word list \<Rightarrow> 32 word list" where
  "mm_or_si128 a b = map2 (OR) a b"

definition mm_sub_epi32 :: "32 word list \<Rightarrow> 32 word list \<Rightarrow> 32 word list" where
  "mm_sub_epi32 a b = map2 (-) a b"

definition mm_srli_epi32 :: "32 word list \<Rightarrow> nat \<Rightarrow> 32 word list" where
  "mm_srli_epi32 a k = map (drop_bit k) a"

definition mm_slli_epi32 :: "32 word list \<Rightarrow> nat \<Rightarrow> 32 word list" where
  "mm_slli_epi32 a k = map (push_bit k) a"

definition mm256_cvtepi32_pd :: "('f, 'd) fpu \<Rightarrow> 32 word list \<Rightarrow> 'd list" where
  "mm256_cvtepi32_pd fp a = map (\<lambda>w. d_of_int fp (sint w)) a"

lemmas mm_defs = mm256_setzero_pd_def mm256_cvtps_pd_def mm256_fmadd_pd_def mm256_add_pd_def
  mm256_setzero_ps_def mm256_fmadd_ps_def mm_add_ps_def mm_movehl_ps_def mm_shuffle_ps_def mm_add_ss_def
  mm_cvtepu8_epi32_def mm_cvtepu16_epi32_def mm_set1_epi32_def mm_and_si128_def mm_or_si128_def
  mm_sub_epi32_def mm_srli_epi32_def mm_slli_epi32_def mm256_cvtepi32_pd_def

section \<open>Facts about the loops\<close>

lemma lanes_prefix:
  "k \<le> length a \<Longrightarrow> lanes k f a = map (\<lambda>l. f l (a ! l)) [0..<k] @ drop k a"
proof (induction k)
  case (Suc k)
  have l: "lanes (Suc k) f a = (lanes k f a)[k := f k (lanes k f a ! k)]" by (simp add: lanes_def)
  from Suc have IH: "lanes k f a = map (\<lambda>l. f l (a ! l)) [0..<k] @ a ! k # drop (Suc k) a"
    by (simp add: Cons_nth_drop_Suc)
  show ?case unfolding l IH by (simp add: nth_append list_update_append)
qed (simp add: lanes_def)

lemma lanes_map: "length a = k \<Longrightarrow> lanes k f a = map (\<lambda>l. f l (a ! l)) [0..<k]"
  by (simp add: lanes_prefix)

lemma loadu_simps [simp]: "length (loadu k xs i) = k" "l < k \<Longrightarrow> loadu k xs i ! l = xs ! (i + l)"
  by (simp_all add: loadu_def)

lemma vec3_len [simp]: "length (vec3 f a b c) = min (min (length a) (length b)) (length c)"
  by (simp add: vec3_def)

lemma vec3_nth [simp]: "l < length a \<Longrightarrow> l < length b \<Longrightarrow> l < length c \<Longrightarrow> vec3 f a b c ! l = f (a ! l) (b ! l) (c ! l)"
  by (simp add: vec3_def)

lemma stride_loop_step:
  "0 < w \<and> i + (w - 1) < n \<Longrightarrow> stride_loop w n f i s = stride_loop w n f (i + w) (f i s)"
  by (subst stride_loop.simps) (rule if_P)

lemma stride_loop_stop:
  "\<not> (0 < w \<and> i + (w - 1) < n) \<Longrightarrow> stride_loop w n f i s = (s, i)"
  by (subst stride_loop.simps) (rule if_not_P)

text \<open>Two loops over the same indices whose bodies keep their states related end related.\<close>

lemma stride_loop_sim:
  assumes "R s t" "\<And>i s t. R s t \<Longrightarrow> R (f i s) (g i t)"
  shows "R (fst (stride_loop w n f i s)) (fst (stride_loop w n g i t)) \<and>
         snd (stride_loop w n f i s) = snd (stride_loop w n g i t)"
  using assms
proof (induction w n f i s arbitrary: t rule: stride_loop.induct)
  case (1 w n f i s)
  show ?case
  proof (cases "0 < w \<and> i + (w - 1) < n")
    case True
    from 1(1) [OF True 1(3) [OF 1(2)] 1(3)] show ?thesis by (simp only: stride_loop_step [OF True])
  next
    case False
    then show ?thesis using 1(2) by (simp only: stride_loop_stop [OF False]) simp
  qed
qed

text \<open>Integer arithmetic in place of floats: every operation computes.\<close>

definition int_fpu :: "(int, int) fpu" where
  "int_fpu = \<lparr>f_bits = uint, f_of_int = (\<lambda>x. x), f_half = (\<lambda>k. k div 2), f_add = (+), f_sub = (-), f_mul = (*), f_div = (div),
     f_fma = (\<lambda>a b c. a * b + c), f_neg = uminus, f_gt = (\<lambda>a b. b < a), f_exp = (\<lambda>x. max 1 (x + 1)), f_sqrt = (\<lambda>x. x),
     f_ldexp1 = (\<lambda>e. 2 ^ nat e), f_of_d = (\<lambda>x. x), d_of_f = (\<lambda>x. x), d_of_int = (\<lambda>x. x), d_add = (+), d_sub = (-),
     d_mul = (*), d_div = (div), d_fma = (\<lambda>a b c. a * b + c), d_gt = (\<lambda>a b. b < a), d_sqrt = (\<lambda>x. max 1 x), d_pow = (\<lambda>_ _. 1),
     d_cos = (\<lambda>_. 1), d_sin = (\<lambda>_. 0)\<rparr>"

end
