(* ===== verification/Kernel.thy ===== *)
theory Kernel
  imports Fpu
begin

text \<open>
  The shared numeric kernels, \<^verbatim>\<open>src/kernels/kernel.c\<close> and \<^verbatim>\<open>src/kernels/kernel_avx2.c\<close>:
  the choice of an implementation, the reference and the AVX2 dot products under both numeric
  policies, the matrix products, and the elementwise operations.

  A count \<open>n\<close> that is not positive runs no iteration in the source, as 0 does here.  The
  processor is two facts: whether AVX2 code was compiled in and whether the CPU has it.
\<close>

section \<open>Dispatch\<close>

datatype eng_impl = ENG_IMPL_AUTO | ENG_IMPL_REF | ENG_IMPL_AVX2

datatype eng_num_policy = ENG_NUM_EXACT | ENG_NUM_FAST

record cpu =
  eng_avx2_compiled :: bool
  eng_cpu_has_avx2 :: bool

record dispatch =
  g_impl :: eng_impl
  g_selected :: bool

definition dispatch_init :: dispatch where
  "dispatch_init = \<lparr>g_impl = ENG_IMPL_REF, g_selected = False\<rparr>"

fun eng_kernel_available :: "cpu \<Rightarrow> eng_impl \<Rightarrow> bool" where
  "eng_kernel_available cpu ENG_IMPL_REF = True"
| "eng_kernel_available cpu ENG_IMPL_AVX2 = (eng_avx2_compiled cpu \<and> eng_cpu_has_avx2 cpu)"
| "eng_kernel_available cpu ENG_IMPL_AUTO = False"

definition eng_kernel_select :: "cpu \<Rightarrow> eng_impl \<Rightarrow> dispatch \<Rightarrow> eng_impl \<times> dispatch" where
  "eng_kernel_select cpu want g =
     (let impl = (if want = ENG_IMPL_AUTO
                  then if eng_kernel_available cpu ENG_IMPL_AVX2 then ENG_IMPL_AVX2 else ENG_IMPL_REF
                  else if \<not> eng_kernel_available cpu want then ENG_IMPL_REF else want)
      in (impl, g\<lparr>g_impl := impl, g_selected := True\<rparr>))"

definition eng_kernel_active :: "cpu \<Rightarrow> dispatch \<Rightarrow> eng_impl \<times> dispatch" where
  "eng_kernel_active cpu g =
     (let g = (if \<not> g_selected g then snd (eng_kernel_select cpu ENG_IMPL_AUTO g) else g) in (g_impl g, g))"

section \<open>Reference dot products\<close>

definition eng_bf16f :: "('f, 'd) fpu \<Rightarrow> 16 word \<Rightarrow> 'f" where
  "eng_bf16f fp h = f_bits fp (push_bit 16 (ucast h))"

text \<open>
  The two reference loops, over the widened factors at each index: sixteen double accumulators
  with a fused multiply-add, or eight single ones with a rounded product.
\<close>

definition reduce16 :: "('f, 'd) fpu \<Rightarrow> 'd list \<Rightarrow> 'd" where
  "reduce16 fp acc =
     (let add = d_add fp;
          b = (\<lambda>j. add (add (acc ! j) (acc ! (j + 4))) (add (acc ! (j + 8)) (acc ! (j + 12))))
      in add (add (b 0) (b 1)) (add (b 2) (b 3)))"

definition dot_exact_loop :: "('f, 'd) fpu \<Rightarrow> (nat \<Rightarrow> 'd) \<Rightarrow> (nat \<Rightarrow> 'd) \<Rightarrow> nat \<Rightarrow> 'd" where
  "dot_exact_loop fp a b n =
     (let (acc, i) = stride_loop 16 n (\<lambda>i. lanes 16 (\<lambda>l. d_fma fp (a (i + l)) (b (i + l)))) 0 (replicate 16 (d_of_int fp 0))
      in foldl (\<lambda>s i. d_fma fp (a i) (b i) s) (reduce16 fp acc) [i..<n])"

definition reduce8 :: "('f, 'd) fpu \<Rightarrow> 'f list \<Rightarrow> 'f" where
  "reduce8 fp acc =
     (let add = f_add fp in
      add (add (add (acc ! 0) (acc ! 4)) (add (acc ! 1) (acc ! 5)))
          (add (add (acc ! 2) (acc ! 6)) (add (acc ! 3) (acc ! 7))))"

definition dot_fast_loop :: "('f, 'd) fpu \<Rightarrow> (nat \<Rightarrow> 'f) \<Rightarrow> (nat \<Rightarrow> 'f) \<Rightarrow> nat \<Rightarrow> 'f" where
  "dot_fast_loop fp a b n =
     (let (acc, i) = stride_loop 8 n (\<lambda>i. lanes 8 (\<lambda>l c. f_add fp c (f_mul fp (a (i + l)) (b (i + l))))) 0
                       (replicate 8 (f_of_int fp 0))
      in foldl (\<lambda>s i. f_add fp s (f_mul fp (a i) (b i))) (reduce8 fp acc) [i..<n])"

definition eng_ref_dot_f32_exact :: "('f, 'd) fpu \<Rightarrow> 'f list \<Rightarrow> 'f list \<Rightarrow> nat \<Rightarrow> 'd" where
  "eng_ref_dot_f32_exact fp a b n = dot_exact_loop fp (\<lambda>i. d_of_f fp (a ! i)) (\<lambda>i. d_of_f fp (b ! i)) n"

definition eng_ref_dot_f32_fast :: "('f, 'd) fpu \<Rightarrow> 'f list \<Rightarrow> 'f list \<Rightarrow> nat \<Rightarrow> 'f" where
  "eng_ref_dot_f32_fast fp a b n = dot_fast_loop fp (\<lambda>i. a ! i) (\<lambda>i. b ! i) n"

definition eng_ref_dot_bf16_exact :: "('f, 'd) fpu \<Rightarrow> 'f list \<Rightarrow> 16 word list \<Rightarrow> nat \<Rightarrow> 'd" where
  "eng_ref_dot_bf16_exact fp x w n =
     dot_exact_loop fp (\<lambda>i. d_of_f fp (eng_bf16f fp (w ! i))) (\<lambda>i. d_of_f fp (x ! i)) n"

definition eng_ref_dot_bf16_fast :: "('f, 'd) fpu \<Rightarrow> 'f list \<Rightarrow> 16 word list \<Rightarrow> nat \<Rightarrow> 'f" where
  "eng_ref_dot_bf16_fast fp x w n = dot_fast_loop fp (\<lambda>i. eng_bf16f fp (w ! i)) (\<lambda>i. x ! i) n"

section \<open>AVX2 dot products\<close>

type_synonym 'd quad = "'d list \<times> 'd list \<times> 'd list \<times> 'd list"

definition fold_quad :: "('f, 'd) fpu \<Rightarrow> 'd quad \<Rightarrow> 'd" where
  "fold_quad fp v =
     (let (v0, v1, v2, v3) = v;
          t = mm256_add_pd fp (mm256_add_pd fp v0 v1) (mm256_add_pd fp v2 v3)
      in d_add fp (d_add fp (t ! 0) (t ! 1)) (d_add fp (t ! 2) (t ! 3)))"

definition eng_avx2_dot_f32_exact :: "('f, 'd) fpu \<Rightarrow> 'f list \<Rightarrow> 'f list \<Rightarrow> nat \<Rightarrow> 'd" where
  "eng_avx2_dot_f32_exact fp a b n =
     (let z = mm256_setzero_pd fp;
          ld = (\<lambda>xs i. mm256_cvtps_pd fp (loadu 4 xs i));
          (v, i) = stride_loop 16 n (\<lambda>i (v0, v1, v2, v3).
             (mm256_fmadd_pd fp (ld a i) (ld b i) v0, mm256_fmadd_pd fp (ld a (i + 4)) (ld b (i + 4)) v1,
              mm256_fmadd_pd fp (ld a (i + 8)) (ld b (i + 8)) v2, mm256_fmadd_pd fp (ld a (i + 12)) (ld b (i + 12)) v3))
            0 (z, z, z, z)
      in foldl (\<lambda>s i. d_fma fp (d_of_f fp (a ! i)) (d_of_f fp (b ! i)) s) (fold_quad fp v) [i..<n])"

definition fold_ps :: "('f, 'd) fpu \<Rightarrow> 'f list \<Rightarrow> 'f list \<Rightarrow> 'f" where
  "fold_ps fp v0 v1 =
     (let vs = mm_add_ps fp v0 v1;
          lo = mm_add_ps fp (take 4 vs) (drop 4 vs);
          lo = mm_add_ps fp lo (mm_movehl_ps lo lo);
          lo = mm_add_ss fp lo (mm_shuffle_ps lo lo 1)
      in lo ! 0)"

definition eng_avx2_dot_f32_fast :: "('f, 'd) fpu \<Rightarrow> 'f list \<Rightarrow> 'f list \<Rightarrow> nat \<Rightarrow> 'f" where
  "eng_avx2_dot_f32_fast fp a b n =
     (let z = mm256_setzero_ps fp;
          ((v0, v1), i) = stride_loop 16 n (\<lambda>i (v0, v1).
             (mm256_fmadd_ps fp (loadu 8 a i) (loadu 8 b i) v0,
              mm256_fmadd_ps fp (loadu 8 a (i + 8)) (loadu 8 b (i + 8)) v1)) 0 (z, z)
      in foldl (\<lambda>s i. f_add fp s (f_mul fp (a ! i) (b ! i))) (fold_ps fp v0 v1) [i..<n])"

definition bf16_to_pd4 :: "('f, 'd) fpu \<Rightarrow> 16 word list \<Rightarrow> nat \<Rightarrow> 'd list" where
  "bf16_to_pd4 fp w i =
     (let h = loadu 4 w i; u = mm_slli_epi32 (mm_cvtepu16_epi32 h) 16
      in mm256_cvtps_pd fp (map (f_bits fp) u))"

definition eng_avx2_dot_bf16_exact :: "('f, 'd) fpu \<Rightarrow> 'f list \<Rightarrow> 16 word list \<Rightarrow> nat \<Rightarrow> 'd" where
  "eng_avx2_dot_bf16_exact fp x w n =
     (let z = mm256_setzero_pd fp;
          ld = (\<lambda>i. mm256_cvtps_pd fp (loadu 4 x i));
          (v, i) = stride_loop 16 n (\<lambda>i (v0, v1, v2, v3).
             (mm256_fmadd_pd fp (bf16_to_pd4 fp w i) (ld i) v0, mm256_fmadd_pd fp (bf16_to_pd4 fp w (i + 4)) (ld (i + 4)) v1,
              mm256_fmadd_pd fp (bf16_to_pd4 fp w (i + 8)) (ld (i + 8)) v2, mm256_fmadd_pd fp (bf16_to_pd4 fp w (i + 12)) (ld (i + 12)) v3))
            0 (z, z, z, z)
      in foldl (\<lambda>s i. d_fma fp (d_of_f fp (eng_bf16f fp (w ! i))) (d_of_f fp (x ! i)) s) (fold_quad fp v) [i..<n])"

definition bf16_to_ps8 :: "('f, 'd) fpu \<Rightarrow> 16 word list \<Rightarrow> nat \<Rightarrow> 'f list" where
  "bf16_to_ps8 fp w i = map (f_bits fp) (mm_slli_epi32 (mm_cvtepu16_epi32 (loadu 8 w i)) 16)"

definition eng_avx2_dot_bf16_fast :: "('f, 'd) fpu \<Rightarrow> 'f list \<Rightarrow> 16 word list \<Rightarrow> nat \<Rightarrow> 'f" where
  "eng_avx2_dot_bf16_fast fp x w n =
     (let z = mm256_setzero_ps fp;
          ((v0, v1), i) = stride_loop 16 n (\<lambda>i (v0, v1).
             (mm256_fmadd_ps fp (bf16_to_ps8 fp w i) (loadu 8 x i) v0,
              mm256_fmadd_ps fp (bf16_to_ps8 fp w (i + 8)) (loadu 8 x (i + 8)) v1)) 0 (z, z)
      in foldl (\<lambda>s i. f_add fp s (f_mul fp (eng_bf16f fp (w ! i)) (x ! i))) (fold_ps fp v0 v1) [i..<n])"

section \<open>Public entry points\<close>

text \<open>\<open>impl\<close> is what \<open>eng_kernel_active\<close> returned at the start of the call.\<close>

definition eng_dot_f32 :: "('f, 'd) fpu \<Rightarrow> eng_impl \<Rightarrow> 'f list \<Rightarrow> 'f list \<Rightarrow> nat \<Rightarrow> eng_num_policy \<Rightarrow> 'f" where
  "eng_dot_f32 fp impl a b n pol =
     (if impl = ENG_IMPL_AVX2
      then if pol = ENG_NUM_EXACT then f_of_d fp (eng_avx2_dot_f32_exact fp a b n) else eng_avx2_dot_f32_fast fp a b n
      else if pol = ENG_NUM_EXACT then f_of_d fp (eng_ref_dot_f32_exact fp a b n) else eng_ref_dot_f32_fast fp a b n)"

definition eng_matmul_f32 :: "('f, 'd) fpu \<Rightarrow> eng_impl \<Rightarrow> 'f list \<Rightarrow> 'f list \<Rightarrow> nat \<Rightarrow> nat \<Rightarrow> eng_num_policy \<Rightarrow> 'f list" where
  "eng_matmul_f32 fp impl x W nin nout pol =
     (let avx = (impl = ENG_IMPL_AVX2) in
      map (\<lambda>p. let row = drop (p * nin) W in
        if pol = ENG_NUM_EXACT
        then f_of_d fp (if avx then eng_avx2_dot_f32_exact fp row x nin else eng_ref_dot_f32_exact fp row x nin)
        else if avx then eng_avx2_dot_f32_fast fp row x nin else eng_ref_dot_f32_fast fp row x nin) [0..<nout])"

definition eng_matmul_bf16 :: "('f, 'd) fpu \<Rightarrow> eng_impl \<Rightarrow> 'f list \<Rightarrow> 16 word list \<Rightarrow> nat \<Rightarrow> nat \<Rightarrow> eng_num_policy \<Rightarrow> 'f list" where
  "eng_matmul_bf16 fp impl x W nin nout pol =
     (let avx = (impl = ENG_IMPL_AVX2) in
      map (\<lambda>p. let row = drop (p * nin) W in
        if pol = ENG_NUM_EXACT
        then f_of_d fp (if avx then eng_avx2_dot_bf16_exact fp x row nin else eng_ref_dot_bf16_exact fp x row nin)
        else if avx then eng_avx2_dot_bf16_fast fp x row nin else eng_ref_dot_bf16_fast fp x row nin) [0..<nout])"

section \<open>Elementwise operations\<close>

definition eng_rmsnorm :: "('f, 'd) fpu \<Rightarrow> 'f list \<Rightarrow> 'f list \<Rightarrow> nat \<Rightarrow> 'f \<Rightarrow> 'f list" where
  "eng_rmsnorm fp x w n eps =
     (let ss = foldl (\<lambda>ss i. d_add fp ss (d_mul fp (d_of_f fp (x ! i)) (d_of_f fp (x ! i)))) (d_of_int fp 0) [0..<n];
          scale = f_of_d fp (d_div fp (d_of_int fp 1)
                    (d_sqrt fp (d_add fp (d_div fp ss (d_of_int fp (int n))) (d_of_f fp eps))))
      in map (\<lambda>i. f_mul fp (w ! i) (f_mul fp (x ! i) scale)) [0..<n])"

definition softmax_max :: "('f, 'd) fpu \<Rightarrow> 'f list \<Rightarrow> nat \<Rightarrow> 'f" where
  "softmax_max fp x n = foldl (\<lambda>m i. if f_gt fp (x ! i) m then x ! i else m) (x ! 0) [1..<n]"

definition eng_softmax :: "('f, 'd) fpu \<Rightarrow> 'f list \<Rightarrow> nat \<Rightarrow> 'f list" where
  "eng_softmax fp x n =
     (if n = 0 then x
      else
        let m = softmax_max fp x n;
            (x, sum) = foldl (\<lambda>(x, sum) i. let e = f_exp fp (f_sub fp (x ! i) m) in (x[i := e], d_add fp sum (d_of_f fp e)))
                         (x, d_of_int fp 0) [0..<n];
            inv = f_of_d fp (d_div fp (d_of_int fp 1) (if d_gt fp sum (d_of_int fp 0) then sum else d_of_int fp 1))
        in lanes n (\<lambda>i v. f_mul fp v inv) x)"

definition silu1 :: "('f, 'd) fpu \<Rightarrow> 'f \<Rightarrow> 'f" where
  "silu1 fp v = f_div fp v (f_add fp (f_of_int fp 1) (f_exp fp (f_neg fp v)))"

definition eng_silu :: "('f, 'd) fpu \<Rightarrow> 'f list \<Rightarrow> nat \<Rightarrow> 'f list" where
  "eng_silu fp x n = map (\<lambda>i. silu1 fp (x ! i)) [0..<n]"

definition eng_swiglu :: "('f, 'd) fpu \<Rightarrow> 'f list \<Rightarrow> nat \<Rightarrow> 'f list" where
  "eng_swiglu fp x n = map (\<lambda>i. f_mul fp (silu1 fp (x ! i)) (x ! (n + i))) [0..<n]"

datatype eng_rope_style = ENG_ROPE_HALVED | ENG_ROPE_ADJACENT

definition rope_angle :: "('f, 'd) fpu \<Rightarrow> nat \<Rightarrow> int \<Rightarrow> 'f \<Rightarrow> nat \<Rightarrow> 'd" where
  "rope_angle fp width pos theta_base i =
     (let freq = d_div fp (d_of_int fp 1) (d_pow fp (d_of_f fp theta_base)
                   (d_div fp (d_mul fp (d_of_int fp 2) (d_of_int fp (int i))) (d_of_int fp (int width))))
      in d_mul fp (d_of_int fp pos) freq)"

definition rope_pair :: "nat \<Rightarrow> eng_rope_style \<Rightarrow> nat \<Rightarrow> nat \<times> nat" where
  "rope_pair half style i = (if style = ENG_ROPE_HALVED then (i, i + half) else (2 * i, 2 * i + 1))"

definition rope_step :: "('f, 'd) fpu \<Rightarrow> nat \<Rightarrow> int \<Rightarrow> 'f \<Rightarrow> eng_rope_style \<Rightarrow> 'f list \<Rightarrow> nat \<Rightarrow> 'f list" where
  "rope_step fp width pos theta_base style v i =
     (let ang = rope_angle fp width pos theta_base i;
          c = f_of_d fp (d_cos fp ang); s = f_of_d fp (d_sin fp ang);
          (ia, ib) = rope_pair (width div 2) style i;
          a = v ! ia; b = v ! ib
      in v[ia := f_sub fp (f_mul fp a c) (f_mul fp b s), ib := f_add fp (f_mul fp a s) (f_mul fp b c)])"

definition eng_rope :: "('f, 'd) fpu \<Rightarrow> 'f list \<Rightarrow> nat \<Rightarrow> int \<Rightarrow> 'f \<Rightarrow> eng_rope_style \<Rightarrow> 'f list" where
  "eng_rope fp v width pos theta_base style = foldl (rope_step fp width pos theta_base style) v [0..<width div 2]"

end
