(* ===== verification/Quant.thy ===== *)
theory Quant
  imports Kernel Tensor
begin

text \<open>
  Quantized formats: \<^verbatim>\<open>src/quant/q4_k.c\<close>, \<^verbatim>\<open>q6_k.c\<close>, \<^verbatim>\<open>q8_0.c\<close>, \<^verbatim>\<open>mxfp4.c\<close>,
  the AVX2 dot products of \<^verbatim>\<open>kquant_avx2.c\<close>, and the registry and matrix product of
  \<^verbatim>\<open>quant.c\<close>.

  A row is the list of its bytes and a pointer into it a dropped prefix.  A row that is
  materialised is the list of the values written, in address order.  The half-precision scale
  is read through \<open>eng_f16_to_f32\<close>, which always returns.
\<close>

section \<open>Reading a block\<close>

definition u16_at :: "byte list \<Rightarrow> nat \<Rightarrow> 16 word" where
  "u16_at p i = ucast (p ! i) OR push_bit 8 (ucast (p ! (i + 1)))"

definition f16f :: "('f, 'd) fpu \<Rightarrow> 16 word \<Rightarrow> 'f" where
  "f16f fp h = f_bits fp (case eng_f16_to_f32 h of Some u \<Rightarrow> u | None \<Rightarrow> 0)"

definition QK_K :: nat where "QK_K = 256"

section \<open>Q4_K\<close>

definition Q4_K_BYTES :: nat where "Q4_K_BYTES = 144"

definition get_scale_min :: "nat \<Rightarrow> byte list \<Rightarrow> byte \<times> byte" where
  "get_scale_min j q =
     (if j < 4 then (q ! j AND 63, q ! (j + 4) AND 63)
      else ((q ! (j + 4) AND 0x0F) OR push_bit 4 (drop_bit 6 (q ! (j - 4))),
            drop_bit 4 (q ! (j + 4)) OR push_bit 4 (drop_bit 6 (q ! j))))"

text \<open>One stretch of 64 elements: the low nibbles of 32 bytes, then their high nibbles.\<close>

definition q4_dequant_stretch :: "('f, 'd) fpu \<Rightarrow> byte list \<Rightarrow> nat \<Rightarrow> 'f list" where
  "q4_dequant_stretch fp p c =
     (let d = f16f fp (u16_at p 0); dmin = f16f fp (u16_at p 2); sc12 = drop 4 p; q = drop (16 + c * 32) p;
          (sc, m) = get_scale_min (2 * c) sc12;
          d1 = f_mul fp d (f_of_int fp (uint sc)); m1 = f_mul fp dmin (f_of_int fp (uint m));
          (sc, m) = get_scale_min (2 * c + 1) sc12;
          d2 = f_mul fp d (f_of_int fp (uint sc)); m2 = f_mul fp dmin (f_of_int fp (uint m))
      in map (\<lambda>l. f_sub fp (f_mul fp d1 (f_of_int fp (uint (q ! l AND 0x0F)))) m1) [0..<32] @
         map (\<lambda>l. f_sub fp (f_mul fp d2 (f_of_int fp (uint (drop_bit 4 (q ! l))))) m2) [0..<32])"

definition q4_k_dequant_row :: "('f, 'd) fpu \<Rightarrow> byte list \<Rightarrow> nat \<Rightarrow> 'f list" where
  "q4_k_dequant_row fp w n =
     concat (map (\<lambda>b. concat (map (q4_dequant_stretch fp (drop (b * Q4_K_BYTES) w)) [0..<4])) [0..<n div QK_K])"

text \<open>The four accumulators of a stretch, each of four lanes: \<open>s1\<close>, \<open>t1\<close>, \<open>s2\<close>, \<open>t2\<close>.\<close>

type_synonym 'd acc4 = "'d list \<times> 'd list \<times> 'd list \<times> 'd list"

definition q4_lane :: "('f, 'd) fpu \<Rightarrow> byte list \<Rightarrow> 'f list \<Rightarrow> nat \<Rightarrow> nat \<Rightarrow> 'd acc4 \<Rightarrow> nat \<Rightarrow> 'd acc4" where
  "q4_lane fp q xb j l = (\<lambda>(s1, t1, s2, t2) k.
     let xa = d_of_f fp (xb ! (j + l + k)); xc = d_of_f fp (xb ! (j + 32 + l + k)) in
     (s1[k := d_fma fp (d_of_int fp (uint (q ! (l + k) AND 0x0F))) xa (s1 ! k)], t1[k := d_add fp (t1 ! k) xa],
      s2[k := d_fma fp (d_of_int fp (uint (drop_bit 4 (q ! (l + k))))) xc (s2 ! k)], t2[k := d_add fp (t2 ! k) xc]))"

definition q4_step :: "('f, 'd) fpu \<Rightarrow> byte list \<Rightarrow> 'f list \<Rightarrow> nat \<Rightarrow> 'd acc4 \<Rightarrow> nat \<Rightarrow> 'd acc4" where
  "q4_step fp q xb j a l = foldl (q4_lane fp q xb j l) a [0..<4]"

definition RED4 :: "('f, 'd) fpu \<Rightarrow> 'd list \<Rightarrow> 'd" where
  "RED4 fp a = d_add fp (d_add fp (a ! 0) (a ! 1)) (d_add fp (a ! 2) (a ! 3))"

definition zero4 :: "('f, 'd) fpu \<Rightarrow> 'd acc4" where
  "zero4 fp = (let z = replicate 4 (d_of_int fp 0) in (z, z, z, z))"

text \<open>The body of the loop over stretches, given the loop that fills the accumulators.\<close>

definition q4_stretch :: "('f, 'd) fpu \<Rightarrow> (byte list \<Rightarrow> 'f list \<Rightarrow> nat \<Rightarrow> 'd acc4) \<Rightarrow> byte list \<Rightarrow> 'f list \<Rightarrow> 'd \<Rightarrow> nat \<Rightarrow> 'd" where
  "q4_stretch fp fill p xb acc c =
     (let d = d_of_f fp (f16f fp (u16_at p 0)); dmin = d_of_f fp (f16f fp (u16_at p 2)); sc12 = drop 4 p;
          (sc, m) = get_scale_min (2 * c) sc12;
          d1 = d_mul fp d (d_of_int fp (uint sc)); m1 = d_mul fp dmin (d_of_int fp (uint m));
          (sc, m) = get_scale_min (2 * c + 1) sc12;
          d2 = d_mul fp d (d_of_int fp (uint sc)); m2 = d_mul fp dmin (d_of_int fp (uint m));
          (s1, t1, s2, t2) = fill (drop (16 + c * 32) p) xb (64 * c);
          acc = d_add fp acc (d_sub fp (d_mul fp d1 (RED4 fp s1)) (d_mul fp m1 (RED4 fp t1)))
      in d_add fp acc (d_sub fp (d_mul fp d2 (RED4 fp s2)) (d_mul fp m2 (RED4 fp t2))))"

definition q4_k_dot :: "('f, 'd) fpu \<Rightarrow> (byte list \<Rightarrow> 'f list \<Rightarrow> nat \<Rightarrow> 'd acc4) \<Rightarrow> byte list \<Rightarrow> 'f list \<Rightarrow> nat \<Rightarrow> 'd" where
  "q4_k_dot fp fill w x n =
     foldl (\<lambda>acc b. foldl (q4_stretch fp fill (drop (b * Q4_K_BYTES) w) (drop (b * QK_K) x)) acc [0..<4])
       (d_of_int fp 0) [0..<n div QK_K]"

definition q4_fill_ref :: "('f, 'd) fpu \<Rightarrow> byte list \<Rightarrow> 'f list \<Rightarrow> nat \<Rightarrow> 'd acc4" where
  "q4_fill_ref fp q xb j = foldl (q4_step fp q xb j) (zero4 fp) (map (\<lambda>i. 4 * i) [0..<8])"

definition eng_q4_k_dot_row_ref :: "('f, 'd) fpu \<Rightarrow> byte list \<Rightarrow> 'f list \<Rightarrow> nat \<Rightarrow> 'd" where
  "eng_q4_k_dot_row_ref fp w x n = q4_k_dot fp (q4_fill_ref fp) w x n"

definition load4_u8 :: "byte list \<Rightarrow> nat \<Rightarrow> 32 word list" where
  "load4_u8 p i = mm_cvtepu8_epi32 (loadu 4 p i)"

definition q4_step_avx2 :: "('f, 'd) fpu \<Rightarrow> byte list \<Rightarrow> 'f list \<Rightarrow> nat \<Rightarrow> 'd acc4 \<Rightarrow> nat \<Rightarrow> 'd acc4" where
  "q4_step_avx2 fp q xb j = (\<lambda>(s1, t1, s2, t2) l.
     let mask_lo = mm_set1_epi32 0x0F;
         q32 = load4_u8 q l;
         qlo = mm256_cvtepi32_pd fp (mm_and_si128 q32 mask_lo);
         qhi = mm256_cvtepi32_pd fp (mm_srli_epi32 q32 4);
         xa = mm256_cvtps_pd fp (loadu 4 xb (j + l));
         xc = mm256_cvtps_pd fp (loadu 4 xb (j + 32 + l))
     in (mm256_fmadd_pd fp qlo xa s1, mm256_add_pd fp t1 xa, mm256_fmadd_pd fp qhi xc s2, mm256_add_pd fp t2 xc))"

definition q4_fill_avx2 :: "('f, 'd) fpu \<Rightarrow> byte list \<Rightarrow> 'f list \<Rightarrow> nat \<Rightarrow> 'd acc4" where
  "q4_fill_avx2 fp q xb j =
     (let z = mm256_setzero_pd fp in foldl (q4_step_avx2 fp q xb j) (z, z, z, z) (map (\<lambda>i. 4 * i) [0..<8]))"

definition eng_q4_k_dot_row_avx2 :: "('f, 'd) fpu \<Rightarrow> byte list \<Rightarrow> 'f list \<Rightarrow> nat \<Rightarrow> 'd" where
  "eng_q4_k_dot_row_avx2 fp w x n = q4_k_dot fp (q4_fill_avx2 fp) w x n"

text \<open>\<open>scalar_only\<close> is the environment variable \<open>ENG_KQ_SCALAR\<close>.\<close>

definition q4_k_dot_row :: "('f, 'd) fpu \<Rightarrow> cpu \<Rightarrow> bool \<Rightarrow> byte list \<Rightarrow> 'f list \<Rightarrow> nat \<Rightarrow> 'd" where
  "q4_k_dot_row fp cpu scalar_only w x n =
     (if \<not> scalar_only \<and> eng_avx2_compiled cpu \<and> eng_cpu_has_avx2 cpu
      then eng_q4_k_dot_row_avx2 fp w x n else eng_q4_k_dot_row_ref fp w x n)"

definition q4_k_row_bytes :: "int \<Rightarrow> int" where
  "q4_k_row_bytes n = (if n < 0 \<or> c_mod n 256 \<noteq> 0 then -1 else c_div n 256 * 144)"

section \<open>Q6_K\<close>

definition Q6_K_BYTES :: nat where "Q6_K_BYTES = 210"

text \<open>
  The code of element \<open>l\<close> in quarter \<open>part\<close> of a half, less the bias, from the low nibbles \<open>ql\<close>
  and the packed high bits \<open>qh\<close>; the four parts are the source's \<open>q1\<close> to \<open>q4\<close>.
\<close>

definition q6_code :: "byte list \<Rightarrow> byte list \<Rightarrow> nat \<Rightarrow> nat \<Rightarrow> int" where
  "q6_code ql qh l part =
     (let lo = (if part = 0 then ql ! l AND 0x0F else if part = 1 then ql ! (l + 32) AND 0x0F
                else if part = 2 then drop_bit 4 (ql ! l) else drop_bit 4 (ql ! (l + 32)));
          hi = push_bit 4 (drop_bit (2 * part) (qh ! l) AND 3)
      in uint (lo OR hi) - 32)"

definition q6_dequant_half :: "('f, 'd) fpu \<Rightarrow> byte list \<Rightarrow> nat \<Rightarrow> 'f list" where
  "q6_dequant_half fp p half =
     (let d = f16f fp (u16_at p 208); ql = drop (64 * half) p; qh = drop (128 + 32 * half) p; sc = drop (192 + 8 * half) p
      in concat (map (\<lambda>part. map (\<lambda>l. f_mul fp (f_mul fp d (f_of_int fp (sint (sc ! (l div 16 + 2 * part)))))
                               (f_of_int fp (q6_code ql qh l part))) [0..<32]) [0..<4]))"

definition q6_k_dequant_row :: "('f, 'd) fpu \<Rightarrow> byte list \<Rightarrow> nat \<Rightarrow> 'f list" where
  "q6_k_dequant_row fp w n =
     concat (map (\<lambda>b. concat (map (q6_dequant_half fp (drop (b * Q6_K_BYTES) w)) [0..<2])) [0..<n div QK_K])"

text \<open>The eight partial sums of a half, each of four lanes.\<close>

definition q6_lane :: "('f, 'd) fpu \<Rightarrow> byte list \<Rightarrow> byte list \<Rightarrow> 'f list \<Rightarrow> nat \<Rightarrow> 'd list list \<Rightarrow> nat \<Rightarrow> 'd list list" where
  "q6_lane fp ql qh xb l parts k =
     foldl (\<lambda>parts part. parts[l div 16 + 2 * part :=
              (parts ! (l div 16 + 2 * part))[k := d_fma fp (d_of_int fp (q6_code ql qh (l + k) part))
                 (d_of_f fp (xb ! (l + k + 32 * part))) (parts ! (l div 16 + 2 * part) ! k)]])
       parts [0..<4]"

definition q6_step :: "('f, 'd) fpu \<Rightarrow> byte list \<Rightarrow> byte list \<Rightarrow> 'f list \<Rightarrow> 'd list list \<Rightarrow> nat \<Rightarrow> 'd list list" where
  "q6_step fp ql qh xb parts l = foldl (q6_lane fp ql qh xb l) parts [0..<4]"

definition q6_half :: "('f, 'd) fpu \<Rightarrow> (byte list \<Rightarrow> byte list \<Rightarrow> 'f list \<Rightarrow> 'd list list) \<Rightarrow> byte list \<Rightarrow> 'f list \<Rightarrow> 'd \<Rightarrow> nat \<Rightarrow> 'd" where
  "q6_half fp fill p xb acc half =
     (let d = d_of_f fp (f16f fp (u16_at p 208)); sc = drop (192 + 8 * half) p;
          parts = fill (drop (64 * half) p) (drop (128 + 32 * half) p) (drop (128 * half) xb)
      in foldl (\<lambda>acc k. d_add fp acc (d_mul fp (d_mul fp d (d_of_int fp (sint (sc ! k)))) (RED4 fp (parts ! k)))) acc [0..<8])"

definition q6_k_dot :: "('f, 'd) fpu \<Rightarrow> (byte list \<Rightarrow> byte list \<Rightarrow> 'f list \<Rightarrow> 'd list list) \<Rightarrow> byte list \<Rightarrow> 'f list \<Rightarrow> nat \<Rightarrow> 'd" where
  "q6_k_dot fp fill w x n =
     foldl (\<lambda>acc b. foldl (q6_half fp fill (drop (b * Q6_K_BYTES) w) (drop (b * QK_K) x)) acc [0..<2])
       (d_of_int fp 0) [0..<n div QK_K]"

definition q6_fill_ref :: "('f, 'd) fpu \<Rightarrow> byte list \<Rightarrow> byte list \<Rightarrow> 'f list \<Rightarrow> 'd list list" where
  "q6_fill_ref fp ql qh xb =
     foldl (q6_step fp ql qh xb) (replicate 8 (replicate 4 (d_of_int fp 0))) (map (\<lambda>i. 4 * i) [0..<8])"

definition eng_q6_k_dot_row_ref :: "('f, 'd) fpu \<Rightarrow> byte list \<Rightarrow> 'f list \<Rightarrow> nat \<Rightarrow> 'd" where
  "eng_q6_k_dot_row_ref fp w x n = q6_k_dot fp (q6_fill_ref fp) w x n"

definition q6_codes_avx2 :: "byte list \<Rightarrow> byte list \<Rightarrow> nat \<Rightarrow> nat \<Rightarrow> 32 word list" where
  "q6_codes_avx2 ql qh l part =
     (let mask_lo = mm_set1_epi32 0x0F; mask_2 = mm_set1_epi32 3; bias = mm_set1_epi32 32;
          lo0 = load4_u8 ql l; lo1 = load4_u8 ql (l + 32); hi = load4_u8 qh l
      in mm_sub_epi32
           (mm_or_si128
             (if part = 0 then mm_and_si128 lo0 mask_lo else if part = 1 then mm_and_si128 lo1 mask_lo
              else if part = 2 then mm_srli_epi32 lo0 4 else mm_srli_epi32 lo1 4)
             (mm_slli_epi32 (mm_and_si128 (if part = 0 then hi else mm_srli_epi32 hi (2 * part)) mask_2) 4)) bias)"

definition q6_step_avx2 :: "('f, 'd) fpu \<Rightarrow> byte list \<Rightarrow> byte list \<Rightarrow> 'f list \<Rightarrow> 'd list list \<Rightarrow> nat \<Rightarrow> 'd list list" where
  "q6_step_avx2 fp ql qh xb parts l =
     foldl (\<lambda>parts part. parts[l div 16 + 2 * part :=
              mm256_fmadd_pd fp (mm256_cvtepi32_pd fp (q6_codes_avx2 ql qh l part))
                (mm256_cvtps_pd fp (loadu 4 xb (l + 32 * part))) (parts ! (l div 16 + 2 * part))])
       parts [0..<4]"

definition q6_fill_avx2 :: "('f, 'd) fpu \<Rightarrow> byte list \<Rightarrow> byte list \<Rightarrow> 'f list \<Rightarrow> 'd list list" where
  "q6_fill_avx2 fp ql qh xb =
     foldl (q6_step_avx2 fp ql qh xb) (replicate 8 (mm256_setzero_pd fp)) (map (\<lambda>i. 4 * i) [0..<8])"

definition eng_q6_k_dot_row_avx2 :: "('f, 'd) fpu \<Rightarrow> byte list \<Rightarrow> 'f list \<Rightarrow> nat \<Rightarrow> 'd" where
  "eng_q6_k_dot_row_avx2 fp w x n = q6_k_dot fp (q6_fill_avx2 fp) w x n"

definition q6_k_dot_row :: "('f, 'd) fpu \<Rightarrow> cpu \<Rightarrow> bool \<Rightarrow> byte list \<Rightarrow> 'f list \<Rightarrow> nat \<Rightarrow> 'd" where
  "q6_k_dot_row fp cpu scalar_only w x n =
     (if \<not> scalar_only \<and> eng_avx2_compiled cpu \<and> eng_cpu_has_avx2 cpu
      then eng_q6_k_dot_row_avx2 fp w x n else eng_q6_k_dot_row_ref fp w x n)"

definition q6_k_row_bytes :: "int \<Rightarrow> int" where
  "q6_k_row_bytes n = (if n < 0 \<or> c_mod n 256 \<noteq> 0 then -1 else c_div n 256 * 210)"

end
