(* ===== verification/Quant_Mx.thy ===== *)
theory Quant_Mx
  imports Quant
begin

text \<open>
  The formats of \<^verbatim>\<open>src/quant/q8_0.c\<close> and \<^verbatim>\<open>src/quant/mxfp4.c\<close>, and
  \<^verbatim>\<open>src/quant/quant.c\<close>: the registry of formats and the matrix product over packed rows.
  The declared tolerance of a format is read only by tests and is left out.
\<close>

section \<open>Q8_0\<close>

text \<open>The file's own copy of the half-to-single conversion.\<close>

definition f16_to_f32 :: "16 word \<Rightarrow> 32 word option" where
  "f16_to_f32 h =
     (let sign = push_bit 16 (ucast (h AND 0x8000));
          exp = ucast (drop_bit 10 h) AND 0x1F;
          man = ucast h AND 0x3FF
      in if exp = 0
         then if man = 0 then Some sign
              else map_option (\<lambda>(m, e). sign OR push_bit 23 (127 - 15 - e + 1) OR push_bit 13 (m AND 0x3FF))
                     (renorm man 0)
         else if exp = 0x1F then Some (sign OR 0x7F800000 OR push_bit 13 man)
         else Some (sign OR push_bit 23 (exp - 15 + 127) OR push_bit 13 man))"

definition blk_scale :: "('f, 'd) fpu \<Rightarrow> byte list \<Rightarrow> 'f" where
  "blk_scale fp b = f_bits fp (case f16_to_f32 (u16_at b 0) of Some u \<Rightarrow> u | None \<Rightarrow> 0)"

definition q8_0_group :: "('f, 'd) fpu \<Rightarrow> byte list \<Rightarrow> 'f list \<Rightarrow> nat \<Rightarrow> nat \<Rightarrow> 'd" where
  "q8_0_group fp blk x off m =
     (let q = (\<lambda>i. d_of_int fp (sint (blk ! (2 + i)))); xv = (\<lambda>i. d_of_f fp (x ! (off + i)));
          (s, i) = stride_loop 4 m (\<lambda>i. lanes 4 (\<lambda>l. d_fma fp (q (i + l)) (xv (i + l)))) 0 (replicate 4 (d_of_int fp 0))
      in foldl (\<lambda>sub i. d_fma fp (q i) (xv i) sub) (RED4 fp s) [i..<m])"

definition q8_0_dot_row :: "('f, 'd) fpu \<Rightarrow> byte list \<Rightarrow> 'f list \<Rightarrow> nat \<Rightarrow> 'd" where
  "q8_0_dot_row fp w x n =
     foldl (\<lambda>acc g. let off = 32 * g; blk = drop (g * 34) w; d = d_of_f fp (blk_scale fp blk); m = min (n - off) 32
              in d_add fp acc (d_mul fp (q8_0_group fp blk x off m) d))
       (d_of_int fp 0) [0..<(n + 31) div 32]"

definition q8_0_dequant_group :: "('f, 'd) fpu \<Rightarrow> byte list \<Rightarrow> nat \<Rightarrow> nat \<Rightarrow> 'f list" where
  "q8_0_dequant_group fp w n g =
     (let off = 32 * g; blk = drop (g * 34) w; d = blk_scale fp blk; m = min (n - off) 32
      in map (\<lambda>i. f_mul fp d (f_of_int fp (sint (blk ! (2 + i))))) [0..<m])"

definition q8_0_dequant_row :: "('f, 'd) fpu \<Rightarrow> byte list \<Rightarrow> nat \<Rightarrow> 'f list" where
  "q8_0_dequant_row fp w n = concat (map (q8_0_dequant_group fp w n) [0..<(n + 31) div 32])"

definition q8_0_row_bytes :: "int \<Rightarrow> int" where
  "q8_0_row_bytes n = (if n < 0 \<or> c_mod n 32 \<noteq> 0 then -1 else c_div n 32 * 34)"

section \<open>MXFP4\<close>

definition MXFP4_GROUP :: nat where "MXFP4_GROUP = 32"

definition E2M1 :: "('f, 'd) fpu \<Rightarrow> 'f list" where
  "E2M1 fp = (let pos = map (f_half fp) [0, 1, 2, 3, 4, 6, 8, 12] in pos @ map (f_neg fp) pos)"

definition E2M1_PAIR :: "('f, 'd) fpu \<Rightarrow> byte \<Rightarrow> 'f list" where
  "E2M1_PAIR fp b = [E2M1 fp ! unat (b AND 0x0F), E2M1 fp ! unat (drop_bit 4 b)]"

definition E8M0 :: "('f, 'd) fpu \<Rightarrow> byte \<Rightarrow> 'f" where
  "E8M0 fp b = (if b = 255 then f_of_int fp 0 else f_ldexp1 fp (uint b - 127))"

definition reduce_mx :: "('f, 'd) fpu \<Rightarrow> 'd list \<Rightarrow> 'd" where
  "reduce_mx fp s =
     (let add = d_add fp;
          b0 = add (s ! 0) (s ! 4); b1 = add (s ! 1) (s ! 5); b2 = add (s ! 2) (s ! 6); b3 = add (s ! 3) (s ! 7)
      in add (add b0 b1) (add b2 b3))"

definition group_dot_ref :: "('f, 'd) fpu \<Rightarrow> 'f list \<Rightarrow> 'f list \<Rightarrow> nat \<Rightarrow> 'd" where
  "group_dot_ref fp wv xg n =
     (let w = (\<lambda>i. d_of_f fp (wv ! i)); x = (\<lambda>i. d_of_f fp (xg ! i));
          (s, i) = stride_loop 8 n (\<lambda>i. lanes 8 (\<lambda>l. d_fma fp (w (i + l)) (x (i + l)))) 0 (replicate 8 (d_of_int fp 0))
      in foldl (\<lambda>sub i. d_fma fp (w i) (x i) sub) (reduce_mx fp s) [i..<n])"

definition group_dot_avx2 :: "('f, 'd) fpu \<Rightarrow> 'f list \<Rightarrow> 'f list \<Rightarrow> nat \<Rightarrow> 'd" where
  "group_dot_avx2 fp wv xg n =
     (let z = mm256_setzero_pd fp;
          ld = (\<lambda>xs i. mm256_cvtps_pd fp (loadu 4 xs i));
          ((v0, v1), i) = stride_loop 8 n (\<lambda>i (v0, v1).
             (mm256_fmadd_pd fp (ld wv i) (ld xg i) v0, mm256_fmadd_pd fp (ld wv (i + 4)) (ld xg (i + 4)) v1)) 0 (z, z);
          a = mm256_add_pd fp v0 v1
      in foldl (\<lambda>sub i. d_fma fp (d_of_f fp (wv ! i)) (d_of_f fp (xg ! i)) sub)
           (d_add fp (d_add fp (a ! 0) (a ! 1)) (d_add fp (a ! 2) (a ! 3))) [i..<n])"

definition group_dot :: "('f, 'd) fpu \<Rightarrow> cpu \<Rightarrow> 'f list \<Rightarrow> 'f list \<Rightarrow> nat \<Rightarrow> 'd" where
  "group_dot fp cpu wv xg n =
     (if eng_avx2_compiled cpu \<and> eng_cpu_has_avx2 cpu then group_dot_avx2 fp wv xg n else group_dot_ref fp wv xg n)"

definition expand_group :: "('f, 'd) fpu \<Rightarrow> byte list \<Rightarrow> nat \<Rightarrow> 'f list" where
  "expand_group fp pb m =
     concat (map (\<lambda>j. E2M1_PAIR fp (pb ! j)) [0..<m div 2]) @
     (if odd m then [E2M1_PAIR fp (pb ! (m div 2)) ! 0] else [])"

definition eng_mxfp4_dot_row_g :: "('f, 'd) fpu \<Rightarrow> cpu \<Rightarrow> byte list \<Rightarrow> byte list \<Rightarrow> 'f list \<Rightarrow> nat \<Rightarrow> nat \<Rightarrow> 'd" where
  "eng_mxfp4_dot_row_g fp cpu w scales x n grp =
     foldl (\<lambda>acc g.
         let sb = scales ! g in
         if sb = 255 then acc
         else
           let pb = drop (g * (grp div 2)) w; xg = drop (g * grp) x; m = min (n - g * grp) grp
           in d_add fp acc (d_mul fp (group_dot fp cpu (expand_group fp pb m) xg m) (d_of_f fp (E8M0 fp sb))))
       (d_of_int fp 0) [0..<(n + grp - 1) div grp]"

definition mxfp4_dot_row :: "('f, 'd) fpu \<Rightarrow> cpu \<Rightarrow> byte list \<Rightarrow> byte list \<Rightarrow> 'f list \<Rightarrow> nat \<Rightarrow> 'd" where
  "mxfp4_dot_row fp cpu w scales x n = eng_mxfp4_dot_row_g fp cpu w scales x n MXFP4_GROUP"

definition mx_dequant_group :: "('f, 'd) fpu \<Rightarrow> byte list \<Rightarrow> byte list \<Rightarrow> nat \<Rightarrow> nat \<Rightarrow> nat \<Rightarrow> 'f list" where
  "mx_dequant_group fp w scales n grp g =
     (let sb = scales ! g;
          mult = (if sb = 255 then f_of_int fp 0 else f_ldexp1 fp (uint sb - 127));
          lo = g * grp; hi = min (lo + grp) n
      in map (\<lambda>i. let b = w ! (i div 2); nib = (if odd i then drop_bit 4 b else b AND 0x0F)
                  in f_mul fp (E2M1 fp ! unat nib) mult) [lo..<hi])"

definition eng_mxfp4_dequant_row_g :: "('f, 'd) fpu \<Rightarrow> byte list \<Rightarrow> byte list \<Rightarrow> nat \<Rightarrow> nat \<Rightarrow> 'f list" where
  "eng_mxfp4_dequant_row_g fp w scales n grp =
     concat (map (mx_dequant_group fp w scales n grp) [0..<(n + grp - 1) div grp])"

definition mxfp4_dequant_row :: "('f, 'd) fpu \<Rightarrow> byte list \<Rightarrow> byte list \<Rightarrow> nat \<Rightarrow> 'f list" where
  "mxfp4_dequant_row fp w scales n = eng_mxfp4_dequant_row_g fp w scales n MXFP4_GROUP"

definition mxfp4_row_bytes :: "int \<Rightarrow> int" where
  "mxfp4_row_bytes n = (if n < 0 \<or> n AND 1 \<noteq> 0 then -1 else c_div n 2)"

definition mxfp4_scale_bytes :: "int \<Rightarrow> int" where
  "mxfp4_scale_bytes n = (if n < 0 then -1 else c_div (n + int MXFP4_GROUP - 1) (int MXFP4_GROUP))"

section \<open>The registry\<close>

text \<open>A function pointer is an option; the rows are given by their bytes.\<close>

record ('f, 'd) eng_quant_ops =
  qo_dtype :: int
  qo_name :: string
  qo_group :: nat
  qo_dot_row :: "(byte list \<Rightarrow> byte list \<Rightarrow> 'f list \<Rightarrow> nat \<Rightarrow> 'd) option"
  qo_dequant_row :: "(byte list \<Rightarrow> byte list \<Rightarrow> nat \<Rightarrow> 'f list) option"
  qo_row_bytes :: "(int \<Rightarrow> int) option"
  qo_scale_bytes :: "(int \<Rightarrow> int) option"

definition eng_quant_mxfp4 :: "('f, 'd) fpu \<Rightarrow> cpu \<Rightarrow> ('f, 'd) eng_quant_ops" where
  "eng_quant_mxfp4 fp cpu = \<lparr>qo_dtype = 48, qo_name = ''mxfp4'', qo_group = MXFP4_GROUP,
     qo_dot_row = Some (mxfp4_dot_row fp cpu), qo_dequant_row = Some (mxfp4_dequant_row fp),
     qo_row_bytes = Some mxfp4_row_bytes, qo_scale_bytes = Some mxfp4_scale_bytes\<rparr>"

definition eng_quant_q8_0 :: "('f, 'd) fpu \<Rightarrow> ('f, 'd) eng_quant_ops" where
  "eng_quant_q8_0 fp = \<lparr>qo_dtype = 20, qo_name = ''q8_0'', qo_group = 32,
     qo_dot_row = Some (\<lambda>w scales. q8_0_dot_row fp w), qo_dequant_row = Some (\<lambda>w scales. q8_0_dequant_row fp w),
     qo_row_bytes = Some q8_0_row_bytes, qo_scale_bytes = Some (\<lambda>n. 0)\<rparr>"

definition eng_quant_q4_k :: "('f, 'd) fpu \<Rightarrow> cpu \<Rightarrow> bool \<Rightarrow> ('f, 'd) eng_quant_ops" where
  "eng_quant_q4_k fp cpu scalar = \<lparr>qo_dtype = 34, qo_name = ''q4_k'', qo_group = QK_K,
     qo_dot_row = Some (\<lambda>w scales. q4_k_dot_row fp cpu scalar w), qo_dequant_row = Some (\<lambda>w scales. q4_k_dequant_row fp w),
     qo_row_bytes = Some q4_k_row_bytes, qo_scale_bytes = Some (\<lambda>n. 0)\<rparr>"

definition eng_quant_q6_k :: "('f, 'd) fpu \<Rightarrow> cpu \<Rightarrow> bool \<Rightarrow> ('f, 'd) eng_quant_ops" where
  "eng_quant_q6_k fp cpu scalar = \<lparr>qo_dtype = 36, qo_name = ''q6_k'', qo_group = QK_K,
     qo_dot_row = Some (\<lambda>w scales. q6_k_dot_row fp cpu scalar w), qo_dequant_row = Some (\<lambda>w scales. q6_k_dequant_row fp w),
     qo_row_bytes = Some q6_k_row_bytes, qo_scale_bytes = Some (\<lambda>n. 0)\<rparr>"

record ('f, 'd) quant_reg =
  REG :: "int \<Rightarrow> ('f, 'd) eng_quant_ops option"
  reg_ready :: bool
  reg_count :: nat

definition reg_fresh :: "('f, 'd) quant_reg" where
  "reg_fresh = \<lparr>REG = (\<lambda>_. None), reg_ready = False, reg_count = 0\<rparr>"

definition ops_complete :: "('f, 'd) eng_quant_ops \<Rightarrow> bool" where
  "ops_complete q \<longleftrightarrow> qo_dot_row q \<noteq> None \<and> qo_dequant_row q \<noteq> None \<and> qo_row_bytes q \<noteq> None \<and> qo_scale_bytes q \<noteq> None"

text \<open>The part of \<open>eng_quant_register\<close> that follows its call of \<open>reg_init\<close>.\<close>

definition reg_put :: "('f, 'd) eng_quant_ops \<Rightarrow> ('f, 'd) quant_reg \<Rightarrow> bool \<times> ('f, 'd) quant_reg" where
  "reg_put q r =
     (if REG r (qo_dtype q) \<noteq> None then (False, r)
      else (True, r\<lparr>REG := (REG r)(qo_dtype q := Some q), reg_count := reg_count r + 1\<rparr>))"

text \<open>
  \<open>reg_init\<close> sets \<open>reg_ready\<close> before it registers the built-in formats, so the calls it makes
  find it set and do not recurse.
\<close>

definition reg_init :: "('f, 'd) eng_quant_ops list \<Rightarrow> ('f, 'd) quant_reg \<Rightarrow> ('f, 'd) quant_reg" where
  "reg_init builtin r =
     (if reg_ready r then r
      else foldl (\<lambda>r q. if \<not> ops_complete q \<or> qo_dtype q \<le> 0 \<or> qo_dtype q \<ge> ENG_DT_MAX then r else snd (reg_put q r))
             (r\<lparr>reg_ready := True\<rparr>) builtin)"

definition builtin_ops :: "('f, 'd) fpu \<Rightarrow> cpu \<Rightarrow> bool \<Rightarrow> ('f, 'd) eng_quant_ops list" where
  "builtin_ops fp cpu scalar =
     [eng_quant_mxfp4 fp cpu, eng_quant_q8_0 fp, eng_quant_q4_k fp cpu scalar, eng_quant_q6_k fp cpu scalar]"

definition eng_quant_register ::
  "('f, 'd) eng_quant_ops list \<Rightarrow> ('f, 'd) eng_quant_ops \<Rightarrow> ('f, 'd) quant_reg \<Rightarrow> bool \<times> ('f, 'd) quant_reg" where
  "eng_quant_register builtin q r =
     (if \<not> ops_complete q then (False, r)
      else if qo_dtype q \<le> 0 \<or> qo_dtype q \<ge> ENG_DT_MAX then (False, r)
      else reg_put q (reg_init builtin r))"

definition eng_quant_ops_of ::
  "('f, 'd) eng_quant_ops list \<Rightarrow> int \<Rightarrow> ('f, 'd) quant_reg \<Rightarrow> ('f, 'd) eng_quant_ops option \<times> ('f, 'd) quant_reg" where
  "eng_quant_ops_of builtin dt r =
     (if dt \<le> 0 \<or> dt \<ge> ENG_DT_MAX then (None, r) else let r = reg_init builtin r in (REG r dt, r))"

definition eng_quant_count :: "('f, 'd) eng_quant_ops list \<Rightarrow> ('f, 'd) quant_reg \<Rightarrow> nat \<times> ('f, 'd) quant_reg" where
  "eng_quant_count builtin r = (let r = reg_init builtin r in (reg_count r, r))"

definition eng_quant_at :: "('f, 'd) eng_quant_ops list \<Rightarrow> int \<Rightarrow> ('f, 'd) quant_reg \<Rightarrow> ('f, 'd) eng_quant_ops option" where
  "eng_quant_at builtin i r =
     (let present = List.map_filter (REG (reg_init builtin r)) [1..ENG_DT_MAX - 1]
      in if 0 \<le> i \<and> i < int (length present) then Some (present ! nat i) else None)"

definition eng_matmul_quant ::
  "('f, 'd) fpu \<Rightarrow> ('f, 'd) eng_quant_ops option \<Rightarrow> 'f list \<Rightarrow> byte list \<Rightarrow> byte list option \<Rightarrow> nat \<Rightarrow> nat \<Rightarrow> 'f list option" where
  "eng_matmul_quant fp ops x W scales nin rows =
     (case ops of
        None \<Rightarrow> None
      | Some q \<Rightarrow>
          let rb = the (qo_row_bytes q) (int nin); sb = the (qo_scale_bytes q) (int nin) in
          if rb < 0 \<or> sb < 0 then None
          else if sb > 0 \<and> scales = None then None
          else Some (map (\<lambda>r. f_of_d fp (the (qo_dot_row q) (drop (r * nat rb) W)
                             (case scales of None \<Rightarrow> [] | Some s \<Rightarrow> drop (r * nat sb) s) x nin)) [0..<rows]))"

end
