(* ===== verification/Kernel_Props.thy ===== *)
theory Kernel_Props
  imports Kernel
begin

text \<open>
  Correctness of the shared kernels: the exact policy gives the same bits on every
  implementation, every dot product computes the sum of products in real arithmetic, and the
  formulas of softmax, normalisation and rotary embedding.
\<close>

section \<open>Bit identity of the exact policy\<close>

text \<open>The sixteen accumulators of the reference are the lanes of four vectors.\<close>

abbreviation span4 :: "(nat \<Rightarrow> 'a) \<Rightarrow> nat \<Rightarrow> 'a list" where
  "span4 a i \<equiv> map (\<lambda>l. a (i + l)) [0..<4]"

definition quad_step :: "('f, 'd) fpu \<Rightarrow> (nat \<Rightarrow> 'd) \<Rightarrow> (nat \<Rightarrow> 'd) \<Rightarrow> nat \<Rightarrow> 'd quad \<Rightarrow> 'd quad" where
  "quad_step fp a b i = (\<lambda>(v0, v1, v2, v3).
     (mm256_fmadd_pd fp (span4 a i) (span4 b i) v0, mm256_fmadd_pd fp (span4 a (i + 4)) (span4 b (i + 4)) v1,
      mm256_fmadd_pd fp (span4 a (i + 8)) (span4 b (i + 8)) v2, mm256_fmadd_pd fp (span4 a (i + 12)) (span4 b (i + 12)) v3))"

definition same_lanes :: "'d list \<Rightarrow> 'd quad \<Rightarrow> bool" where
  "same_lanes acc v \<longleftrightarrow> (case v of (v0, v1, v2, v3) \<Rightarrow>
     length v0 = 4 \<and> length v1 = 4 \<and> length v2 = 4 \<and> length v3 = 4 \<and> acc = v0 @ v1 @ v2 @ v3)"

lemma list4: "length v = 4 \<Longrightarrow> \<exists>a b c d. v = [a, b, c, d]"
  by (cases v; cases "tl v"; cases "tl (tl v)"; cases "tl (tl (tl v))") auto

lemma upt_4: "[0..<4] = [0, 1, 2, 3]" and upt_16: "[0..<16] = [0, 1, 2, 3, 4, 5, 6, 7, 8, 9, 10, 11, 12, 13, 14, 15]"
  by (simp_all add: upt_conv_Cons)

lemma same_lanes_step:
  assumes "same_lanes acc v"
  shows "same_lanes (lanes 16 (\<lambda>l. d_fma fp (a (i + l)) (b (i + l))) acc) (quad_step fp a b i v)"
proof -
  obtain v0 v1 v2 v3 where v: "v = (v0, v1, v2, v3)" by (cases v)
  with assms have len: "length v0 = 4" "length v1 = 4" "length v2 = 4" "length v3 = 4" "acc = v0 @ v1 @ v2 @ v3"
    by (auto simp: same_lanes_def)
  then show ?thesis using v list4 [OF len(1)] list4 [OF len(2)] list4 [OF len(3)] list4 [OF len(4)]
    by (auto simp: same_lanes_def quad_step_def lanes_map mm_defs vec3_def upt_4 upt_16 add.assoc)
qed

lemma same_lanes_fold: "same_lanes acc v \<Longrightarrow> reduce16 fp acc = fold_quad fp v"
  by (cases v) (auto simp: same_lanes_def reduce16_def fold_quad_def mm_defs Let_def dest!: list4)

definition quad_dot :: "('f, 'd) fpu \<Rightarrow> (nat \<Rightarrow> 'd) \<Rightarrow> (nat \<Rightarrow> 'd) \<Rightarrow> nat \<Rightarrow> 'd" where
  "quad_dot fp a b n =
     (let z = mm256_setzero_pd fp; (v, i) = stride_loop 16 n (quad_step fp a b) 0 (z, z, z, z)
      in foldl (\<lambda>s i. d_fma fp (a i) (b i) s) (fold_quad fp v) [i..<n])"

lemma dot_exact_is_quad: "dot_exact_loop fp a b n = quad_dot fp a b n"
proof -
  let ?z = "mm256_setzero_pd fp"
  have z: "same_lanes (replicate 16 (d_of_int fp 0)) (?z, ?z, ?z, ?z)"
    by (simp add: same_lanes_def mm256_setzero_pd_def flip: replicate_add)
  let ?f = "\<lambda>i. lanes 16 (\<lambda>l. d_fma fp (a (i + l)) (b (i + l)))"
  have "same_lanes (fst (stride_loop 16 n ?f 0 (replicate 16 (d_of_int fp 0))))
          (fst (stride_loop 16 n (quad_step fp a b) 0 (?z, ?z, ?z, ?z))) \<and>
        snd (stride_loop 16 n ?f 0 (replicate 16 (d_of_int fp 0))) = snd (stride_loop 16 n (quad_step fp a b) 0 (?z, ?z, ?z, ?z))"
    by (rule stride_loop_sim [where R = same_lanes, OF z]) (rule same_lanes_step)
  then show ?thesis
    unfolding dot_exact_loop_def quad_dot_def Let_def by (auto simp: case_prod_beta dest: same_lanes_fold [of _ _ fp])
qed

lemma avx2_f32_is_quad:
  "eng_avx2_dot_f32_exact fp a b n = quad_dot fp (\<lambda>i. d_of_f fp (a ! i)) (\<lambda>i. d_of_f fp (b ! i)) n"
proof -
  have "mm256_cvtps_pd fp (loadu 4 xs i) = span4 (\<lambda>i. d_of_f fp (xs ! i)) i" for xs i
    by (simp add: mm256_cvtps_pd_def loadu_def)
  then show ?thesis by (simp add: eng_avx2_dot_f32_exact_def quad_dot_def quad_step_def [abs_def] Let_def)
qed

lemma avx2_bf16_is_quad:
  "eng_avx2_dot_bf16_exact fp x w n = quad_dot fp (\<lambda>i. d_of_f fp (eng_bf16f fp (w ! i))) (\<lambda>i. d_of_f fp (x ! i)) n"
proof -
  have "mm256_cvtps_pd fp (loadu 4 x i) = span4 (\<lambda>i. d_of_f fp (x ! i)) i"
    "bf16_to_pd4 fp w i = span4 (\<lambda>i. d_of_f fp (eng_bf16f fp (w ! i))) i" for i
    by (simp_all add: bf16_to_pd4_def mm_defs loadu_def eng_bf16f_def)
  then show ?thesis by (simp add: eng_avx2_dot_bf16_exact_def quad_dot_def quad_step_def [abs_def] Let_def)
qed

lemma avx2_f32_exact_same: "eng_avx2_dot_f32_exact fp a b n = eng_ref_dot_f32_exact fp a b n"
  by (simp add: avx2_f32_is_quad eng_ref_dot_f32_exact_def dot_exact_is_quad)

lemma avx2_bf16_exact_same: "eng_avx2_dot_bf16_exact fp x w n = eng_ref_dot_bf16_exact fp x w n"
  by (simp add: avx2_bf16_is_quad eng_ref_dot_bf16_exact_def dot_exact_is_quad)

text \<open>
  C11: under \<open>ENG_NUM_EXACT\<close> the result does not depend on the implementation.  For every
  floating-point unit, whatever its rounding, the AVX2 and the reference paths of the dot product
  and of both matrix products give the same values.
\<close>

theorem exact_policy_bit_identical:
  "eng_dot_f32 fp impl a b n ENG_NUM_EXACT = eng_dot_f32 fp impl' a b n ENG_NUM_EXACT \<and>
   eng_matmul_f32 fp impl x W nin nout ENG_NUM_EXACT = eng_matmul_f32 fp impl' x W nin nout ENG_NUM_EXACT \<and>
   eng_matmul_bf16 fp impl x V nin nout ENG_NUM_EXACT = eng_matmul_bf16 fp impl' x V nin nout ENG_NUM_EXACT"
  by (simp add: eng_dot_f32_def eng_matmul_f32_def eng_matmul_bf16_def avx2_f32_exact_same avx2_bf16_exact_same)

section \<open>Every dot product computes the sum of products\<close>

text \<open>A strided loop visits each index below the point where it stops once.\<close>

lemma stride_loop_sum:
  fixes meas :: "'s \<Rightarrow> real"
  assumes "0 < w" "good s" "\<And>i s. good s \<Longrightarrow> good (f i s) \<and> meas (f i s) = meas s + (\<Sum>l<w. g (i + l))"
  shows "good (fst (stride_loop w n f i s)) \<and>
         (i \<le> n \<longrightarrow> i \<le> snd (stride_loop w n f i s) \<and> snd (stride_loop w n f i s) \<le> n \<and>
          meas (fst (stride_loop w n f i s)) = meas s + (\<Sum>j\<in>{i..<snd (stride_loop w n f i s)}. g j))"
  using assms
proof (induction w n f i s rule: stride_loop.induct)
  case (1 w n f i s)
  note good = 1(4) [OF 1(3), of i]
  show ?case
  proof (cases "0 < w \<and> i + (w - 1) < n")
    case True
    let ?r = "stride_loop w n f (i + w) (f i s)"
    have iw: "i + w \<le> n" using True by linarith
    from 1(1) [OF True 1(2) conjunct1 [OF good] 1(4)] iw good
    have IH: "good (fst ?r)" "i + w \<le> snd ?r" "snd ?r \<le> n"
      "meas (fst ?r) = meas s + (\<Sum>l<w. g (i + l)) + (\<Sum>j\<in>{i + w..<snd ?r}. g j)" by simp_all
    have "(\<Sum>l<w. g (i + l)) = (\<Sum>j\<in>{i..<i + w}. g j)"
      using sum.shift_bounds_nat_ivl [of g 0 i w] by (simp add: atLeast0LessThan add.commute)
    with IH sum.atLeastLessThan_concat [of i "i + w" "snd ?r" g] show ?thesis
      by (simp only: stride_loop_step [OF True]) simp
  next
    case False
    then show ?thesis using 1(3) by (simp only: stride_loop_stop [OF False]) simp
  qed
qed

lemma foldl_sum: "foldl (\<lambda>s i. s + g i) s xs = s + (\<Sum>i\<leftarrow>xs. g i :: real)"
  by (induction xs arbitrary: s) simp_all

lemma foldl_sum_upt: "foldl (\<lambda>s i. s + g i) s [i..<n] = s + (\<Sum>j\<in>{i..<n}. g j :: real)"
  by (simp add: foldl_sum interv_sum_list_conv_sum_set_nat)

lemma reduce16_exact: "length acc = 16 \<Longrightarrow> reduce16 (exact_fpu val) acc = sum_list acc"
proof -
  assume "length acc = 16"
  then have "sum_list acc = (\<Sum>l\<leftarrow>[0..<16]. acc ! l)" using map_nth [of acc] by simp
  then show ?thesis by (simp add: reduce16_def upt_16 Let_def)
qed

lemma upt_8: "[0..<8] = [0, 1, 2, 3, 4, 5, 6, 7]"
  by (simp add: upt_conv_Cons)

lemma reduce8_exact: "length acc = 8 \<Longrightarrow> reduce8 (exact_fpu val) acc = sum_list acc"
proof -
  assume "length acc = 8"
  then have "sum_list acc = (\<Sum>l\<leftarrow>[0..<8]. acc ! l)" using map_nth [of acc] by simp
  then show ?thesis by (simp add: reduce8_def upt_8 Let_def)
qed

lemma lanes_sum:
  "length acc = k \<Longrightarrow> sum_list (lanes k (\<lambda>l c. c + g l) acc) = sum_list acc + (\<Sum>l<k. g l :: real)"
proof -
  assume k: "length acc = k"
  then have "sum_list acc = (\<Sum>l\<leftarrow>[0..<k]. acc ! l)" using map_nth [of acc] by simp
  with k show ?thesis by (simp add: lanes_map sum_list_addf interv_sum_list_conv_sum_set_nat atLeast0LessThan)
qed

lemma lane_loop_sum:
  fixes g :: "nat \<Rightarrow> real"
  assumes "0 < w"
  obtains acc i where "stride_loop w n (\<lambda>i. lanes w (\<lambda>l c. c + g (i + l))) 0 (replicate w 0) = (acc, i)"
    "length acc = w" "i \<le> n" "sum_list acc = (\<Sum>j<i. g j)"
proof -
  let ?r = "stride_loop w n (\<lambda>i. lanes w (\<lambda>l c. c + g (i + l))) 0 (replicate w (0 :: real))"
  have "length (fst ?r) = w \<and> (0 \<le> n \<longrightarrow> 0 \<le> snd ?r \<and> snd ?r \<le> n \<and>
     sum_list (fst ?r) = sum_list (replicate w 0) + (\<Sum>j\<in>{0..<snd ?r}. g j))"
    by (rule stride_loop_sum [where good = "\<lambda>s. length s = w" and meas = sum_list])
       (use assms lanes_sum [where k = w] in \<open>simp_all add: lanes_map\<close>)
  then show ?thesis using that [of "fst ?r" "snd ?r"] by (simp add: sum_list_replicate atLeast0LessThan)
qed

lemma sum_split_upt: "i \<le> (n :: nat) \<Longrightarrow> (\<Sum>j<i. g j) + (\<Sum>j\<in>{i..<n}. g j) = (\<Sum>j<n. g j :: real)"
  using sum.atLeastLessThan_concat [of 0 i n g] by (simp add: atLeast0LessThan)

lemma exact_loop_sum: "dot_exact_loop (exact_fpu val) a b n = (\<Sum>i<n. a i * b i)"
proof -
  obtain acc i where "stride_loop 16 n (\<lambda>i. lanes 16 (\<lambda>l c. c + a (i + l) * b (i + l))) 0 (replicate 16 0) = (acc, i)"
    "length acc = 16" "i \<le> n" "sum_list acc = (\<Sum>j<i. a j * b j)"
    using lane_loop_sum [where w = 16 and n = n and g = "\<lambda>i. a i * b i"] by auto
  then show ?thesis
    by (simp add: dot_exact_loop_def add.commute [of "_ * _"] reduce16_exact foldl_sum_upt sum_split_upt)
qed

lemma fast_loop_sum: "dot_fast_loop (exact_fpu val) a b n = (\<Sum>i<n. a i * b i)"
proof -
  obtain acc i where "stride_loop 8 n (\<lambda>i. lanes 8 (\<lambda>l c. c + a (i + l) * b (i + l))) 0 (replicate 8 0) = (acc, i)"
    "length acc = 8" "i \<le> n" "sum_list acc = (\<Sum>j<i. a j * b j)"
    using lane_loop_sum [where w = 8 and n = n and g = "\<lambda>i. a i * b i"] by auto
  then show ?thesis by (simp add: dot_fast_loop_def reduce8_exact foldl_sum_upt sum_split_upt)
qed

text \<open>The eight-lane AVX2 loop of the fast policy: two vectors over steps of sixteen.\<close>

lemma list8: "length v = 8 \<Longrightarrow> \<exists>a b c d e f g h. v = [a, b, c, d, e, f, g, h]"
proof -
  assume "length v = 8"
  then have "length (take 4 v) = 4" "length (drop 4 v) = 4" by simp_all
  then obtain a b c d e f g h where "take 4 v = [a, b, c, d]" "drop 4 v = [e, f, g, h]" by (metis list4)
  then show ?thesis using append_take_drop_id [of 4 v] by auto
qed

lemma fold_ps_exact:
  "length v0 = 8 \<Longrightarrow> length v1 = 8 \<Longrightarrow> fold_ps (exact_fpu val) v0 v1 = sum_list v0 + sum_list v1"
  by (auto dest!: list8 simp: fold_ps_def mm_defs Let_def)

lemma vec3_fma_sum:
  assumes "length v = k"
  shows "sum_list (vec3 (\<lambda>a b c. a * b + c) (map f [0..<k]) (map g [0..<k]) v) = sum_list v + (\<Sum>l<k. f l * g l :: real)"
proof -
  have "vec3 (\<lambda>a b c. a * b + c) (map f [0..<k]) (map g [0..<k]) v = map (\<lambda>l. v ! l + f l * g l) [0..<k]"
    using assms by (intro nth_equalityI) simp_all
  moreover have "sum_list v = (\<Sum>l\<leftarrow>[0..<k]. v ! l)" using map_nth [of v] assms by simp
  ultimately show ?thesis by (simp add: sum_list_addf interv_sum_list_conv_sum_set_nat atLeast0LessThan)
qed

lemma fast_avx_sum:
  "(let z = mm256_setzero_ps (exact_fpu val);
        ((v0, v1), i) = stride_loop 16 n (\<lambda>i (v0, v1).
           (mm256_fmadd_ps (exact_fpu val) (map (\<lambda>l. a (i + l)) [0..<8]) (map (\<lambda>l. b (i + l)) [0..<8]) v0,
            mm256_fmadd_ps (exact_fpu val) (map (\<lambda>l. a (i + 8 + l)) [0..<8]) (map (\<lambda>l. b (i + 8 + l)) [0..<8]) v1)) 0 (z, z)
      in foldl (\<lambda>s i. s + a i * b i) (fold_ps (exact_fpu val) v0 v1) [i..<n]) = (\<Sum>i<n. a i * b i)"
proof -
  let ?f = "\<lambda>i (v0, v1).
     (mm256_fmadd_ps (exact_fpu val) (map (\<lambda>l. a (i + l)) [0..<8]) (map (\<lambda>l. b (i + l)) [0..<8]) v0,
      mm256_fmadd_ps (exact_fpu val) (map (\<lambda>l. a (i + 8 + l)) [0..<8]) (map (\<lambda>l. b (i + 8 + l)) [0..<8]) v1)"
  let ?z = "mm256_setzero_ps (exact_fpu val)"
  let ?r = "stride_loop 16 n ?f 0 (?z, ?z)"
  let ?good = "\<lambda>(v0, v1). length v0 = 8 \<and> length v1 = 8" and ?meas = "\<lambda>(v0, v1). sum_list v0 + sum_list v1"
  have step: "?good (?f i s) \<and> ?meas (?f i s) = ?meas s + (\<Sum>l<16. a (i + l) * b (i + l))" if "?good s" for i s
  proof -
    have "(\<Sum>l<16. a (i + l) * b (i + l)) = (\<Sum>l<8. a (i + l) * b (i + l)) + (\<Sum>l<8. a (i + 8 + l) * b (i + 8 + l))"
      by (simp add: eval_nat_numeral lessThan_Suc)
    then show ?thesis using that by (auto simp: mm256_fmadd_ps_def vec3_fma_sum)
  qed
  have z: "?good (?z, ?z)" "?meas (?z, ?z) = 0" by (simp_all add: mm256_setzero_ps_def sum_list_replicate)
  have "?good (fst ?r) \<and> (0 \<le> n \<longrightarrow> 0 \<le> snd ?r \<and> snd ?r \<le> n \<and>
     ?meas (fst ?r) = ?meas (?z, ?z) + (\<Sum>j\<in>{0..<snd ?r}. a j * b j))"
    by (rule stride_loop_sum [where good = ?good and meas = ?meas]) (use z step in simp_all)
  then show ?thesis using z
    by (auto simp: Let_def case_prod_beta fold_ps_exact foldl_sum_upt sum_split_upt atLeast0LessThan)
qed

text \<open>
  C34: in real arithmetic all eight dot products, reference and AVX2, single and bf16 weights,
  exact and fast, are the sum of the products of their elements.
\<close>

theorem dot_products_sum:
  "let fp = exact_fpu val; dot = (\<Sum>i<n. a ! i * b ! i); bdot = (\<Sum>i<n. eng_bf16f fp (w ! i) * a ! i) in
   eng_ref_dot_f32_exact fp a b n = dot \<and> eng_avx2_dot_f32_exact fp a b n = dot \<and>
   eng_ref_dot_f32_fast fp a b n = dot \<and> eng_avx2_dot_f32_fast fp a b n = dot \<and>
   eng_ref_dot_bf16_exact fp a w n = bdot \<and> eng_avx2_dot_bf16_exact fp a w n = bdot \<and>
   eng_ref_dot_bf16_fast fp a w n = bdot \<and> eng_avx2_dot_bf16_fast fp a w n = bdot"
proof -
  define fp where "fp = exact_fpu val"
  have "eng_avx2_dot_f32_fast fp a b n = (\<Sum>i<n. a ! i * b ! i)"
    using fast_avx_sum [of val n "\<lambda>i. a ! i" "\<lambda>i. b ! i"]
    by (simp add: eng_avx2_dot_f32_fast_def fp_def loadu_def)
  moreover have "eng_avx2_dot_bf16_fast fp a w n = (\<Sum>i<n. eng_bf16f fp (w ! i) * a ! i)"
    using fast_avx_sum [of val n "\<lambda>i. eng_bf16f fp (w ! i)" "\<lambda>i. a ! i"]
    by (simp add: eng_avx2_dot_bf16_fast_def bf16_to_ps8_def mm_cvtepu16_epi32_def mm_slli_epi32_def eng_bf16f_def
        fp_def loadu_def comp_def)
  ultimately show ?thesis
    by (simp add: avx2_f32_exact_same avx2_bf16_exact_same eng_ref_dot_f32_exact_def eng_ref_dot_f32_fast_def
        eng_ref_dot_bf16_exact_def eng_ref_dot_bf16_fast_def fp_def [symmetric] exact_loop_sum [of val, folded fp_def]
        fast_loop_sum [of val, folded fp_def] Let_def) (simp add: fp_def)
qed

section \<open>Softmax\<close>

lemma softmax_pass:
  assumes "k \<le> length x"
  shows "foldl (\<lambda>(x, sum) i. let e = f (x ! i) in (x[i := e], sum + e)) (x, s) [0..<k] =
     (map (\<lambda>i. f (x ! i)) [0..<k] @ drop k x, s + (\<Sum>i<k. f (x ! i) :: real))"
  using assms
proof (induction k)
  case (Suc k)
  then have d: "drop k x = x ! k # drop (Suc k) x" by (simp add: Cons_nth_drop_Suc)
  show ?case using Suc by (simp add: Let_def d nth_append list_update_append)
qed simp

lemma softmax_max_ge:
  assumes "i < n"
  shows "x ! i \<le> softmax_max (exact_fpu val) x n"
proof -
  have mono: "m \<le> foldl (\<lambda>m i. if m < x ! i then x ! i else m) m js" for m js
    by (induction js arbitrary: m) (auto intro: order.trans less_imp_le)
  have "\<forall>j\<in>set js. x ! j \<le> foldl (\<lambda>m i. if m < x ! i then x ! i else m) m js" for m js
  proof (induction js arbitrary: m)
    case (Cons j js)
    then show ?case using mono [of "if m < x ! j then x ! j else m" js] by (auto intro: order.trans)
  qed simp
  from this [of "[1..<n]" "x ! 0"] mono [of "x ! 0" "[1..<n]"] assms show ?thesis
    by (cases "i = 0") (auto simp: softmax_max_def)
qed

text \<open>
  In real arithmetic \<open>eng_softmax\<close> replaces the first \<open>n\<close> entries by exp(x_i) / sum of
  exp(x_j), which sum to one, and leaves the rest; the arguments it passes to \<open>expf\<close> are never
  positive.
\<close>

theorem softmax_normalises:
  assumes "0 < n" "n \<le> length x"
  shows "eng_softmax (exact_fpu val) x n = map (\<lambda>i. exp (x ! i) / (\<Sum>j<n. exp (x ! j))) [0..<n] @ drop n x \<and>
    (\<Sum>i<n. eng_softmax (exact_fpu val) x n ! i) = 1 \<and>
    (\<forall>i. i < n \<longrightarrow> x ! i - softmax_max (exact_fpu val) x n \<le> 0)"
proof -
  define m where "m = softmax_max (exact_fpu val) x n"
  define S where "S = (\<Sum>j<n. exp (x ! j))"
  have S: "0 < S" unfolding S_def using assms(1) by (intro sum_pos) auto
  have "(\<Sum>i<n. exp (x ! i - m)) = S / exp m" by (simp add: S_def exp_diff sum_divide_distrib)
  moreover have "0 < S / exp m" using S by simp
  ultimately have e: "eng_softmax (exact_fpu val) x n = map (\<lambda>i. exp (x ! i) / S) [0..<n] @ drop n x"
    using assms softmax_pass [OF assms(2), of "\<lambda>v. exp (v - m)" 0]
    by (simp add: eng_softmax_def m_def [symmetric] lanes_prefix exp_diff nth_append)
  moreover have "(\<Sum>i<n. (map (\<lambda>i. exp (x ! i) / S) [0..<n] @ drop n x) ! i) = 1"
    using S by (simp add: nth_append S_def [symmetric] flip: sum_divide_distrib)
  ultimately show ?thesis using softmax_max_ge by (simp add: S_def m_def)
qed

theorem softmax_normalises_witness:
  "eng_softmax (exact_fpu (\<lambda>_. 0)) [0, 0, 7] 2 = [1 / 2, 1 / 2, 7]"
  using softmax_normalises [of 2 "[0, 0, 7]" "\<lambda>_. 0"] by (simp add: numeral_2_eq_2)

section \<open>Rotary embedding\<close>

lemma rope_pair_facts:
  assumes "i < half" "j < half" "i \<noteq> j"
  shows "{fst (rope_pair half st i), snd (rope_pair half st i)} \<inter> {fst (rope_pair half st j), snd (rope_pair half st j)} = {}"
  using assms by (cases st) (auto simp: rope_pair_def)

lemma rope_pair_range:
  "i < half \<Longrightarrow> fst (rope_pair half st i) \<noteq> snd (rope_pair half st i) \<and> fst (rope_pair half st i) < 2 * half \<and> snd (rope_pair half st i) < 2 * half"
  by (auto simp: rope_pair_def)

lemma sum_over_pairs:
  "(\<Sum>j<2 * half. g j) = (\<Sum>i<half. g (fst (rope_pair half st i)) + g (snd (rope_pair half st i)) :: real)"
proof (cases st)
  case ENG_ROPE_HALVED
  have "(\<Sum>j<half + half. g j) = (\<Sum>j<half. g j) + (\<Sum>j<half. g (j + half))"
    using sum.atLeastLessThan_concat [of 0 half "half + half" g] sum.shift_bounds_nat_ivl [of g 0 half half]
    by (simp add: atLeast0LessThan)
  then show ?thesis using ENG_ROPE_HALVED by (simp add: rope_pair_def sum.distrib mult_2)
next
  case ENG_ROPE_ADJACENT
  have "(\<Sum>j<2 * k. g j) = (\<Sum>i<k. g (2 * i) + g (2 * i + 1))" for k by (induction k) simp_all
  then show ?thesis using ENG_ROPE_ADJACENT by (simp add: rope_pair_def)
qed

text \<open>Each pair is rotated by its angle, once.\<close>

lemma rope_closed:
  fixes width :: nat
  defines "half \<equiv> width div 2"
  assumes "2 * half \<le> length v" "i < half"
  shows "eng_rope (exact_fpu val) v width pos base st ! fst (rope_pair half st i) =
      v ! fst (rope_pair half st i) * cos (rope_angle (exact_fpu val) width pos base i)
    - v ! snd (rope_pair half st i) * sin (rope_angle (exact_fpu val) width pos base i) \<and>
    eng_rope (exact_fpu val) v width pos base st ! snd (rope_pair half st i) =
      v ! fst (rope_pair half st i) * sin (rope_angle (exact_fpu val) width pos base i)
    + v ! snd (rope_pair half st i) * cos (rope_angle (exact_fpu val) width pos base i)"
proof -
  let ?A = "\<lambda>i. fst (rope_pair half st i)" and ?B = "\<lambda>i. snd (rope_pair half st i)"
  let ?ang = "rope_angle (exact_fpu val) width pos base"
  let ?R = "\<lambda>k. foldl (rope_step (exact_fpu val) width pos base st) v [0..<k]"
  have "length (?R k) = length v \<and> (\<forall>i<half.
      ?R k ! ?A i = (if i < k then v ! ?A i * cos (?ang i) - v ! ?B i * sin (?ang i) else v ! ?A i) \<and>
      ?R k ! ?B i = (if i < k then v ! ?A i * sin (?ang i) + v ! ?B i * cos (?ang i) else v ! ?B i))" if "k \<le> half" for k
    using that
  proof (induction k)
    case (Suc k)
    then have IH: "length (?R k) = length v" "\<And>i. i < half \<Longrightarrow>
      ?R k ! ?A i = (if i < k then v ! ?A i * cos (?ang i) - v ! ?B i * sin (?ang i) else v ! ?A i) \<and>
      ?R k ! ?B i = (if i < k then v ! ?A i * sin (?ang i) + v ! ?B i * cos (?ang i) else v ! ?B i)" by auto
    have step: "?R (Suc k) = (?R k)[?A k := v ! ?A k * cos (?ang k) - v ! ?B k * sin (?ang k),
        ?B k := v ! ?A k * sin (?ang k) + v ! ?B k * cos (?ang k)]"
      using IH(2) [of k] Suc.prems by (simp add: rope_step_def Let_def case_prod_beta half_def [symmetric])
    have k: "?A k < length v" "?B k < length v" "?A k \<noteq> ?B k"
      using rope_pair_range [of k half st] Suc.prems assms(2) by auto
    have "?R (Suc k) ! ?A i = (if i < Suc k then v ! ?A i * cos (?ang i) - v ! ?B i * sin (?ang i) else v ! ?A i) \<and>
      ?R (Suc k) ! ?B i = (if i < Suc k then v ! ?A i * sin (?ang i) + v ! ?B i * cos (?ang i) else v ! ?B i)"
      if i: "i < half" for i
    proof (cases "i = k")
      case True
      then show ?thesis unfolding step using k IH(1) by simp
    next
      case False
      then have ne: "?A i \<noteq> ?A k" "?A i \<noteq> ?B k" "?B i \<noteq> ?A k" "?B i \<noteq> ?B k"
        using rope_pair_facts [OF i, of k st] Suc.prems by auto
      show ?thesis unfolding step using ne IH(2) [OF i] False by simp
    qed
    moreover have "length (?R (Suc k)) = length v" unfolding step using IH(1) by simp
    ultimately show ?case by blast
  qed simp
  from this [of half] assms(3) show ?thesis by (simp add: eng_rope_def half_def [symmetric])
qed

text \<open>
  C15: the score of a rotated query and a rotated key depends only on the distance of their
  positions: in real arithmetic, moving both by \<open>t\<close> positions leaves their inner product as it
  is, under either pairing convention.
\<close>

theorem rope_scores_are_relative:
  assumes "2 * (width div 2) \<le> length q" "2 * (width div 2) \<le> length k"
  shows "(\<Sum>j<2 * (width div 2). eng_rope (exact_fpu val) q width (p + t) base st ! j * eng_rope (exact_fpu val) k width (r + t) base st ! j)
       = (\<Sum>j<2 * (width div 2). eng_rope (exact_fpu val) q width p base st ! j * eng_rope (exact_fpu val) k width r base st ! j)"
proof -
  have rot: "(a * cos x - b * sin x) * (c * cos y - d * sin y) + (a * sin x + b * cos x) * (c * sin y + d * cos y)
      = (a * c + b * d) * cos (x - y) + (a * d - b * c) * sin (x - y)" for a b c d x y :: real
    by (simp add: cos_diff sin_diff algebra_simps)
  have ang: "rope_angle (exact_fpu val) width (p + t) base i - rope_angle (exact_fpu val) width (r + t) base i =
      rope_angle (exact_fpu val) width p base i - rope_angle (exact_fpu val) width r base i" for i
    by (simp add: rope_angle_def Let_def algebra_simps)
  show ?thesis
    by (subst (1 2) sum_over_pairs [where st = st]) (simp add: rope_closed [OF assms(1)] rope_closed [OF assms(2)] rot ang)
qed

theorem rope_scores_are_relative_witness:
  "(\<Sum>j<2 * (4 div 2). eng_rope (exact_fpu (\<lambda>_. 0)) [1, 2, 3, 4] 4 (5 + 10) 10000 ENG_ROPE_HALVED ! j
       * eng_rope (exact_fpu (\<lambda>_. 0)) [1, 0, 1, 1] 4 (2 + 10) 10000 ENG_ROPE_HALVED ! j)
   = (\<Sum>j<2 * (4 div 2). eng_rope (exact_fpu (\<lambda>_. 0)) [1, 2, 3, 4] 4 5 10000 ENG_ROPE_HALVED ! j
       * eng_rope (exact_fpu (\<lambda>_. 0)) [1, 0, 1, 1] 4 2 10000 ENG_ROPE_HALVED ! j)"
  by (rule rope_scores_are_relative) simp_all

end
