(* ===== verification/Quant_Props.thy ===== *)
theory Quant_Props
  imports Quant Kernel_Props
begin

text \<open>
  Correctness of the quantized formats: the vector dot products give the bits of the scalar
  ones, a fused dot product is the dot product of the materialised row in real arithmetic, the
  scale packing of Q4_K loses nothing, and the registry.
\<close>

section \<open>Widening bytes to lanes\<close>

lemma ucast_and: "ucast (a AND b :: byte) = (ucast a AND ucast b :: 32 word)"
  and ucast_or: "ucast (a OR b :: byte) = (ucast a OR ucast b :: 32 word)"
  and ucast_drop_bit: "ucast (drop_bit k a :: byte) = (drop_bit k (ucast a) :: 32 word)"
  by (rule bit_word_eqI, auto simp: bit_simps dest: bit_imp_le_length)+

lemma all_bytes:
  assumes "list_all P (map word_of_int [0..255])"
  shows "P (a :: byte)"
proof -
  have "a = word_of_int (uint a)" "uint a \<in> set [0..255]" using uint_bounded [of a] by simp_all
  then show ?thesis using assms unfolding list_all_iff by (metis image_eqI list.set_map)
qed

lemma byte_lane_facts:
  "push_bit 4 (ucast a AND 3) = (ucast (push_bit 4 (a AND 3 :: byte)) :: 32 word) \<and>
   sint (ucast a :: 32 word) = uint a \<and> sint (ucast a - 32 :: 32 word) = uint a - 32"
  by (rule all_bytes) code_simp

lemmas ucast_push4 = conjunct1 [OF byte_lane_facts]
lemmas sint_ucast = conjunct1 [OF conjunct2 [OF byte_lane_facts]]
lemmas sint_bias = conjunct2 [OF conjunct2 [OF byte_lane_facts]]

section \<open>Bit identity of the k-quant dot products\<close>

text \<open>Each vector step does to the lanes what the scalar step does one lane at a time.\<close>

lemma q4_low: "sint (ucast (a :: byte) AND 0x0F :: 32 word) = uint (a AND 0x0F)"
  using ucast_and [of a "0x0F"] sint_ucast [of "a AND 0x0F"] by simp

lemma q4_high: "sint (drop_bit 4 (ucast (a :: byte)) :: 32 word) = uint (drop_bit 4 a)"
  using ucast_drop_bit [of 4 a] sint_ucast [of "drop_bit 4 a"] by simp

lemma replicate_4: "replicate 4 c = [c, c, c, c]"
  by (simp add: eval_nat_numeral)

definition lanes4 :: "'d acc4 \<Rightarrow> bool" where
  "lanes4 a \<longleftrightarrow> (case a of (s1, t1, s2, t2) \<Rightarrow> length s1 = 4 \<and> length t1 = 4 \<and> length s2 = 4 \<and> length t2 = 4)"

lemma q4_step_same:
  assumes "lanes4 a"
  shows "q4_step_avx2 fp q xb j a l = q4_step fp q xb j a l \<and> lanes4 (q4_step fp q xb j a l)"
proof -
  obtain s1 t1 s2 t2 where a: "a = (s1, t1, s2, t2)" by (cases a)
  then have len: "length s1 = 4" "length t1 = 4" "length s2 = 4" "length t2 = 4" using assms by (auto simp: lanes4_def)
  from list4 [OF len(1)] list4 [OF len(2)] list4 [OF len(3)] list4 [OF len(4)] show ?thesis
    by (auto simp: a lanes4_def q4_step_def q4_lane_def q4_step_avx2_def load4_u8_def mm_defs vec3_def loadu_def upt_4
        replicate_4 Let_def q4_low q4_high add.assoc)
qed

lemma q4_fold_same:
  "lanes4 a \<Longrightarrow> foldl (q4_step_avx2 fp q xb j) a ls = foldl (q4_step fp q xb j) a ls"
  by (induction ls arbitrary: a) (simp_all add: q4_step_same)

lemma q4_fill_same: "q4_fill_avx2 fp q xb j = q4_fill_ref fp q xb j"
  by (simp add: q4_fill_avx2_def q4_fill_ref_def zero4_def mm256_setzero_pd_def Let_def q4_fold_same lanes4_def
      del: foldl_map)

lemma q6_lane_code:
  "sint ((ucast a OR push_bit 4 (ucast b AND 3)) - 32 :: 32 word) = uint (a OR push_bit 4 (b AND 3 :: byte)) - 32"
  unfolding ucast_push4 ucast_or [symmetric] by (rule sint_bias)

lemma q6_code_lanes:
  assumes "part < 4"
  shows "mm256_cvtepi32_pd fp (q6_codes_avx2 ql qh l part) = map (\<lambda>k. d_of_int fp (q6_code ql qh (l + k) part)) [0..<4]"
proof -
  have "part = 0 \<or> part = 1 \<or> part = 2 \<or> part = 3" using assms by auto
  then show ?thesis
    by (elim disjE) (simp_all add: q6_codes_avx2_def q6_code_def load4_u8_def mm_defs loadu_def upt_4 replicate_4 Let_def
        q6_lane_code [simplified] flip: ucast_and [where b = "0x0F", simplified] ucast_drop_bit ucast_or)
qed

definition parts8 :: "'d list list \<Rightarrow> bool" where
  "parts8 ps \<longleftrightarrow> length ps = 8 \<and> list_all (\<lambda>p. length p = 4) ps"

lemma q6_step_same:
  assumes "parts8 ps" "l < 32"
  shows "q6_step_avx2 fp ql qh xb ps l = q6_step fp ql qh xb ps l \<and> parts8 (q6_step fp ql qh xb ps l)"
proof -
  have is_cases: "l div 16 = 0 \<or> l div 16 = 1" using assms(2) by auto
  obtain p0 p1 p2 p3 p4 p5 p6 p7 where ps: "ps = [p0, p1, p2, p3, p4, p5, p6, p7]"
    using assms(1) list8 [of ps] by (auto simp: parts8_def)
  then have "length p0 = 4" "length p1 = 4" "length p2 = 4" "length p3 = 4" "length p4 = 4" "length p5 = 4"
    "length p6 = 4" "length p7 = 4" using assms(1) by (auto simp: parts8_def)
  note len = this
  have ld: "mm256_cvtps_pd fp (loadu 4 xb i) = map (\<lambda>k. d_of_f fp (xb ! (i + k))) [0..<4]" for i
    by (simp add: mm256_cvtps_pd_def loadu_def)
  show ?thesis
    using is_cases list4 [OF len(1)] list4 [OF len(2)] list4 [OF len(3)] list4 [OF len(4)] list4 [OF len(5)]
      list4 [OF len(6)] list4 [OF len(7)] list4 [OF len(8)]
    by (elim disjE exE) (simp_all add: ps parts8_def q6_step_def q6_lane_def q6_step_avx2_def q6_code_lanes ld
        mm256_fmadd_pd_def vec3_def upt_4 add.assoc add.commute [of 3] add.left_commute)
qed

lemma q6_fold_same:
  "parts8 ps \<Longrightarrow> list_all (\<lambda>l. l < 32) ls \<Longrightarrow>
   foldl (q6_step_avx2 fp ql qh xb) ps ls = foldl (q6_step fp ql qh xb) ps ls"
  by (induction ls arbitrary: ps) (simp_all add: q6_step_same)

lemma q6_fill_same: "q6_fill_avx2 fp ql qh xb = q6_fill_ref fp ql qh xb"
  unfolding q6_fill_avx2_def q6_fill_ref_def mm256_setzero_pd_def
  by (rule q6_fold_same) (auto simp: parts8_def list_all_iff)

lemma kquant_dispatch_same:
  "q4_k_dot_row fp cpu scalar w x n = eng_q4_k_dot_row_ref fp w x n"
  "q6_k_dot_row fp cpu scalar w x n = eng_q6_k_dot_row_ref fp w x n"
  by (simp_all add: q4_k_dot_row_def q6_k_dot_row_def eng_q4_k_dot_row_avx2_def eng_q4_k_dot_row_ref_def
      eng_q6_k_dot_row_avx2_def eng_q6_k_dot_row_ref_def q4_fill_same [abs_def] q6_fill_same [abs_def])

section \<open>A fused dot product is the dot product of the materialised row\<close>

definition rowdot :: "real list \<Rightarrow> real list \<Rightarrow> real" where
  "rowdot ys x = (\<Sum>i<length ys. ys ! i * x ! i)"

lemma sum_lessThan_add: "(\<Sum>i<m + k. g i) = (\<Sum>i<m. g i) + (\<Sum>i<k. g (m + i) :: real)" for m k :: nat
  by (induction k) (simp_all add: add.assoc)

lemma rowdot_append: "length a \<le> length x \<Longrightarrow> rowdot (a @ b) x = rowdot a x + rowdot b (drop (length a) x)"
  by (simp add: rowdot_def sum_lessThan_add nth_append)

lemma rowdot_map: "rowdot (map f [0..<k]) x = (\<Sum>l<k. f l * x ! l)"
  by (simp add: rowdot_def)

lemma rowdot_concat:
  assumes "\<And>c. length (F c) = L" "k * L \<le> length x"
  shows "rowdot (concat (map F [0..<k])) x = (\<Sum>c<k. rowdot (F c) (drop (c * L) x))"
  using assms(2)
proof (induction k)
  case (Suc k)
  have "length (concat (map F [0..<k])) = k * L" using assms(1) by (induction k) simp_all
  then show ?case using Suc by (simp add: rowdot_append)
qed (simp add: rowdot_def)

lemma sum_groups: "(\<Sum>i\<leftarrow>[0..<m]. \<Sum>k<w. g (w * i + k)) = (\<Sum>l<m * w. g l :: real)"
proof (induction m)
  case (Suc m)
  then show ?case using sum_lessThan_add [where m = "m * w" and k = w and g = g] by (simp add: mult.commute add.commute)
qed simp

lemma foldl_acc_sum:
  "(\<And>acc c. c \<in> set cs \<Longrightarrow> f acc c = acc + g c) \<Longrightarrow> foldl f a cs = a + (\<Sum>c\<leftarrow>cs. g c :: real)"
  by (induction cs arbitrary: a) simp_all

text \<open>A fold over chunks of a row, each adding its own dot product, is the dot product of the row.\<close>

lemma chunks_rowdot:
  assumes "\<And>c. length (F c) = L" "k * L \<le> length x"
    and "\<And>acc c. c < k \<Longrightarrow> L \<le> length (drop (c * L) x) \<Longrightarrow> f acc c = acc + rowdot (F c) (drop (c * L) x)"
  shows "foldl f a [0..<k] = a + rowdot (concat (map F [0..<k])) x"
proof -
  have "foldl f a [0..<k] = a + (\<Sum>c\<leftarrow>[0..<k]. rowdot (F c) (drop (c * L) x))"
  proof (rule foldl_acc_sum)
    fix acc c assume "c \<in> set [0..<k]"
    then have c: "c < k" by simp
    then have "(c + 1) * L \<le> k * L" by (intro mult_le_mono1) simp
    then have "L \<le> length (drop (c * L) x)" using assms(2) by simp
    with c show "f acc c = acc + rowdot (F c) (drop (c * L) x)" by (rule assms(3))
  qed
  then show ?thesis using rowdot_concat [OF assms(1,2)]
    by (simp add: interv_sum_list_conv_sum_set_nat atLeast0LessThan)
qed

lemma sum4: "(\<Sum>k<(4::nat). g k) = g 0 + g 1 + g 2 + (g 3 :: real)"
  by (simp add: eval_nat_numeral)

subsection \<open>Q4_K\<close>

definition acc4_sums :: "real acc4 \<Rightarrow> real \<times> real \<times> real \<times> real" where
  "acc4_sums a = (case a of (s1, t1, s2, t2) \<Rightarrow> (sum_list s1, sum_list t1, sum_list s2, sum_list t2))"

abbreviation lo4 :: "byte list \<Rightarrow> nat \<Rightarrow> real" where "lo4 q l \<equiv> real_of_int (uint (q ! l AND 0x0F))"
abbreviation hi4 :: "byte list \<Rightarrow> nat \<Rightarrow> real" where "hi4 q l \<equiv> real_of_int (uint (drop_bit 4 (q ! l)))"

lemma q4_step_sums:
  assumes "lanes4 a" "acc4_sums a = (A, B, C, D)"
  shows "acc4_sums (q4_step (exact_fpu val) q xb j a l) =
    (A + (\<Sum>k<4. lo4 q (l + k) * xb ! (j + (l + k))), B + (\<Sum>k<4. xb ! (j + (l + k))),
     C + (\<Sum>k<4. hi4 q (l + k) * xb ! (j + 32 + (l + k))), D + (\<Sum>k<4. xb ! (j + 32 + (l + k))))"
proof -
  obtain s1 t1 s2 t2 where a: "a = (s1, t1, s2, t2)" by (cases a)
  then have len: "length s1 = 4" "length t1 = 4" "length s2 = 4" "length t2 = 4" using assms by (auto simp: lanes4_def)
  from list4 [OF len(1)] list4 [OF len(2)] list4 [OF len(3)] list4 [OF len(4)] assms(2) show ?thesis
    by (elim exE) (simp add: a acc4_sums_def q4_step_def q4_lane_def upt_4 Let_def sum4 add_ac)
qed

lemma q4_fold_sums:
  "lanes4 a \<Longrightarrow> acc4_sums a = (A, B, C, D) \<Longrightarrow>
   lanes4 (foldl (q4_step (exact_fpu val) q xb j) a ls) \<and>
   acc4_sums (foldl (q4_step (exact_fpu val) q xb j) a ls) =
    (A + (\<Sum>l\<leftarrow>ls. \<Sum>k<4. lo4 q (l + k) * xb ! (j + (l + k))), B + (\<Sum>l\<leftarrow>ls. \<Sum>k<4. xb ! (j + (l + k))),
     C + (\<Sum>l\<leftarrow>ls. \<Sum>k<4. hi4 q (l + k) * xb ! (j + 32 + (l + k))), D + (\<Sum>l\<leftarrow>ls. \<Sum>k<4. xb ! (j + 32 + (l + k))))"
proof (induction ls arbitrary: a A B C D)
  case (Cons l ls)
  from Cons.IH [OF conjunct2 [OF q4_step_same [OF Cons.prems(1)]] q4_step_sums [OF Cons.prems]] show ?case
    by (simp add: add.assoc)
qed simp

lemma RED4_exact: "length v = 4 \<Longrightarrow> RED4 (exact_fpu val) v = sum_list v"
  by (auto dest!: list4 simp: RED4_def)

lemma q4_fill_sums:
  obtains s1 t1 s2 t2 where "q4_fill_ref (exact_fpu val) q xb j = (s1, t1, s2, t2)"
    "RED4 (exact_fpu val) s1 = (\<Sum>l<32. lo4 q l * xb ! (j + l))" "RED4 (exact_fpu val) t1 = (\<Sum>l<32. xb ! (j + l))"
    "RED4 (exact_fpu val) s2 = (\<Sum>l<32. hi4 q l * xb ! (j + 32 + l))" "RED4 (exact_fpu val) t2 = (\<Sum>l<32. xb ! (j + 32 + l))"
proof -
  obtain s1 t1 s2 t2 where f: "q4_fill_ref (exact_fpu val) q xb j = (s1, t1, s2, t2)" by (metis prod.exhaust)
  have z: "lanes4 (zero4 (exact_fpu val))" "acc4_sums (zero4 (exact_fpu val)) = (0, 0, 0, 0)"
    by (simp_all add: lanes4_def zero4_def acc4_sums_def sum_list_replicate Let_def)
  note * = q4_fold_sums [OF z, of val q xb j "map (\<lambda>i. 4 * i) [0..<8]", folded q4_fill_ref_def, unfolded f]
  have "lanes4 (s1, t1, s2, t2)" using * by simp
  then show ?thesis
    using that [OF f] * sum_groups [where w = 4 and m = 8 and g = "\<lambda>l. lo4 q l * xb ! (j + l)"]
      sum_groups [where w = 4 and m = 8 and g = "\<lambda>l. xb ! (j + l)"]
      sum_groups [where w = 4 and m = 8 and g = "\<lambda>l. hi4 q l * xb ! (j + 32 + l)"]
      sum_groups [where w = 4 and m = 8 and g = "\<lambda>l. xb ! (j + 32 + l)"]
    by (simp add: lanes4_def acc4_sums_def RED4_exact comp_def)
qed

lemma q4_stretch_exact:
  assumes "64 * c + 64 \<le> length xb"
  shows "q4_stretch (exact_fpu val) (q4_fill_ref (exact_fpu val)) p xb acc c =
    acc + rowdot (q4_dequant_stretch (exact_fpu val) p c) (drop (64 * c) xb)"
proof -
  let ?q = "drop (16 + c * 32) p"
  obtain s1 t1 s2 t2 where f: "q4_fill_ref (exact_fpu val) ?q xb (64 * c) = (s1, t1, s2, t2)"
    "RED4 (exact_fpu val) s1 = (\<Sum>l<32. lo4 ?q l * xb ! (64 * c + l))" "RED4 (exact_fpu val) t1 = (\<Sum>l<32. xb ! (64 * c + l))"
    "RED4 (exact_fpu val) s2 = (\<Sum>l<32. hi4 ?q l * xb ! (64 * c + 32 + l))" "RED4 (exact_fpu val) t2 = (\<Sum>l<32. xb ! (64 * c + 32 + l))"
    by (rule q4_fill_sums)
  have split: "(\<Sum>l<32. (d * g l - m) * h l) = d * (\<Sum>l<32. g l * h l) - m * (\<Sum>l<32. h l)" for d m :: real and g h :: "nat \<Rightarrow> real"
    by (simp add: sum_distrib_left left_diff_distrib mult.assoc flip: sum_subtractf)
  show ?thesis using assms
    by (simp add: q4_stretch_def q4_dequant_stretch_def Let_def case_prod_beta f rowdot_append rowdot_map split add_ac)
qed

lemma q4_stretch_len: "length (q4_dequant_stretch fp p c) = 64"
  by (simp add: q4_dequant_stretch_def Let_def case_prod_beta)

lemma q4_block_len: "length (concat (map (q4_dequant_stretch fp p) [0..<4])) = 256"
  by (simp add: upt_4 q4_stretch_len)

lemma q4_k_fused_exact:
  assumes "n \<le> length x"
  shows "eng_q4_k_dot_row_ref (exact_fpu val) w x n = rowdot (q4_k_dequant_row (exact_fpu val) w n) x"
proof -
  let ?fp = "exact_fpu val"
  have len: "n div 256 * 256 \<le> length x" using assms by (simp add: le_trans)
  have block: "foldl (q4_stretch ?fp (q4_fill_ref ?fp) p xb) acc [0..<4] =
      acc + rowdot (concat (map (q4_dequant_stretch ?fp p) [0..<4])) xb" if "256 \<le> length xb" for p xb acc
    by (rule chunks_rowdot [OF q4_stretch_len])
       (use that in \<open>simp, subst q4_stretch_exact, simp, simp add: mult.commute\<close>)
  have "eng_q4_k_dot_row_ref ?fp w x n = d_of_int ?fp 0 + rowdot (q4_k_dequant_row ?fp w n) x"
    unfolding eng_q4_k_dot_row_ref_def q4_k_dot_def q4_k_dequant_row_def QK_K_def
    by (rule chunks_rowdot [OF q4_block_len len block])
  then show ?thesis by simp
qed

subsection \<open>Q6_K\<close>

text \<open>What four elements from \<open>l\<close> on add to the partial sum of quarter \<open>part\<close>.\<close>

definition q6_term :: "byte list \<Rightarrow> byte list \<Rightarrow> real list \<Rightarrow> nat \<Rightarrow> nat \<Rightarrow> real" where
  "q6_term ql qh xb part l = (\<Sum>k<4. real_of_int (q6_code ql qh (l + k) part) * xb ! (l + k + 32 * part))"

lemma q6_step_sums:
  assumes "parts8 ps" "l < 32"
  shows "map sum_list (q6_step (exact_fpu val) ql qh xb ps l) =
    map (\<lambda>p. sum_list (ps ! p) + (if p mod 2 = l div 16 then q6_term ql qh xb (p div 2) l else 0)) [0..<8]"
proof -
  have is_cases: "l div 16 = 0 \<or> l div 16 = 1" using assms(2) by auto
  obtain p0 p1 p2 p3 p4 p5 p6 p7 where ps: "ps = [p0, p1, p2, p3, p4, p5, p6, p7]"
    using assms(1) list8 [of ps] by (auto simp: parts8_def)
  then have "length p0 = 4" "length p1 = 4" "length p2 = 4" "length p3 = 4" "length p4 = 4" "length p5 = 4"
    "length p6 = 4" "length p7 = 4" using assms(1) by (auto simp: parts8_def)
  note len = this
  show ?thesis
    using is_cases list4 [OF len(1)] list4 [OF len(2)] list4 [OF len(3)] list4 [OF len(4)] list4 [OF len(5)]
      list4 [OF len(6)] list4 [OF len(7)] list4 [OF len(8)]
    by (elim disjE exE) (simp_all add: ps q6_step_def q6_lane_def q6_term_def upt_4 upt_8 sum4 add_ac)
qed

lemma q6_fold_sums:
  "parts8 ps \<Longrightarrow> list_all (\<lambda>l. l < 32) ls \<Longrightarrow>
   parts8 (foldl (q6_step (exact_fpu val) ql qh xb) ps ls) \<and>
   map sum_list (foldl (q6_step (exact_fpu val) ql qh xb) ps ls) =
     map (\<lambda>p. sum_list (ps ! p) + (\<Sum>l\<leftarrow>ls. if p mod 2 = l div 16 then q6_term ql qh xb (p div 2) l else 0)) [0..<8]"
proof (induction ls arbitrary: ps)
  case Nil
  then show ?case by (auto simp: parts8_def intro!: nth_equalityI)
next
  case (Cons l ls)
  let ?ps = "q6_step (exact_fpu val) ql qh xb ps l"
  have s: "sum_list (?ps ! p) = sum_list (ps ! p) + (if p mod 2 = l div 16 then q6_term ql qh xb (p div 2) l else 0)" if "p < 8" for p
  proof -
    have "length ?ps = 8" using q6_step_same [of ps l "exact_fpu val" ql qh xb] Cons.prems by (simp add: parts8_def)
    then have "sum_list (?ps ! p) = map sum_list ?ps ! p" using that by simp
    also have "\<dots> = sum_list (ps ! p) + (if p mod 2 = l div 16 then q6_term ql qh xb (p div 2) l else 0)"
      using that Cons.prems by (subst q6_step_sums) simp_all
    finally show ?thesis .
  qed
  have p8: "parts8 ?ps" using q6_step_same [of ps l "exact_fpu val" ql qh xb] Cons.prems by simp
  have "map (\<lambda>p. sum_list (?ps ! p) + (\<Sum>l\<leftarrow>ls. if p mod 2 = l div 16 then q6_term ql qh xb (p div 2) l else 0)) [0..<8] =
     map (\<lambda>p. sum_list (ps ! p) + (\<Sum>l\<leftarrow>l # ls. if p mod 2 = l div 16 then q6_term ql qh xb (p div 2) l else 0)) [0..<8]"
    using s by simp
  with Cons.IH [OF p8] Cons.prems show ?case by simp
qed

lemma q6_regroup:
  fixes D :: real and T :: "nat \<Rightarrow> nat \<Rightarrow> real"
  shows "(\<Sum>p<8. D * c p * (\<Sum>i\<leftarrow>[0..<8]. if p mod 2 = i div 4 then T (p div 2) i else 0)) =
    (\<Sum>part<4. \<Sum>i\<leftarrow>[0..<8]. D * c (i div 4 + 2 * part) * T part i)"
proof -
  have sum8: "(\<Sum>p<8. g p) = g 0 + g 1 + g 2 + g 3 + g 4 + g 5 + g 6 + g 7" for g :: "nat \<Rightarrow> real"
    by (simp add: eval_nat_numeral)
  show ?thesis by (simp add: sum8 sum4 upt_8 algebra_simps flip: numeral_2_eq_2 numeral_3_eq_3)
qed

lemma q6_dequant_half_rowdot:
  assumes "128 \<le> length xb"
  shows "rowdot (q6_dequant_half (exact_fpu val) p half) xb =
    (let D = f16f (exact_fpu val) (u16_at p 208); sc = drop (192 + 8 * half) p in
     \<Sum>part<4. \<Sum>i\<leftarrow>[0..<8]. D * real_of_int (sint (sc ! (i div 4 + 2 * part))) *
        q6_term (drop (64 * half) p) (drop (128 + 32 * half) p) xb part (4 * i))"
proof -
  let ?D = "f16f (exact_fpu val) (u16_at p 208)" and ?sc = "drop (192 + 8 * half) p"
  let ?code = "q6_code (drop (64 * half) p) (drop (128 + 32 * half) p)"
  let ?F = "\<lambda>part. map (\<lambda>l. ?D * real_of_int (sint (?sc ! (l div 16 + 2 * part))) * real_of_int (?code l part)) [0..<32]"
  have "rowdot (?F part) (drop (part * 32) xb) = (\<Sum>i\<leftarrow>[0..<8]. ?D * real_of_int (sint (?sc ! (i div 4 + 2 * part))) *
        q6_term (drop (64 * half) p) (drop (128 + 32 * half) p) xb part (4 * i))" if "part < 4" for part
  proof -
    let ?g = "\<lambda>l. ?D * real_of_int (sint (?sc ! (l div 16 + 2 * part))) * real_of_int (?code l part) * xb ! (l + 32 * part)"
    have "rowdot (?F part) (drop (part * 32) xb) = (\<Sum>l<32. ?g l)"
      using assms that by (simp add: rowdot_map add_ac mult.commute)
    also have "\<dots> = (\<Sum>i\<leftarrow>[0..<8]. \<Sum>k<4. ?g (4 * i + k))" using sum_groups [where m = 8 and w = 4 and g = ?g] by simp
    also have "\<dots> = (\<Sum>i\<leftarrow>[0..<8]. \<Sum>k<4. ?D * real_of_int (sint (?sc ! (i div 4 + 2 * part))) *
        (real_of_int (?code (4 * i + k) part) * xb ! (4 * i + k + 32 * part)))"
    proof (intro arg_cong [where f = sum_list] map_cong refl sum.cong)
      fix i k :: nat assume "k \<in> {..<4}"
      then have "(4 * i + k) div 16 = i div 4" by auto
      then show "?g (4 * i + k) = ?D * real_of_int (sint (?sc ! (i div 4 + 2 * part))) *
        (real_of_int (?code (4 * i + k) part) * xb ! (4 * i + k + 32 * part))" by simp
    qed
    finally show ?thesis by (simp add: q6_term_def sum_distrib_left)
  qed
  then show ?thesis
    using rowdot_concat [where F = ?F and k = 4 and L = 32 and x = xb] assms
    by (simp add: q6_dequant_half_def Let_def)
qed

lemma q6_half_exact:
  assumes "128 * half + 128 \<le> length xb"
  shows "q6_half (exact_fpu val) (q6_fill_ref (exact_fpu val)) p xb acc half =
    acc + rowdot (q6_dequant_half (exact_fpu val) p half) (drop (128 * half) xb)"
proof -
  let ?fp = "exact_fpu val" and ?ql = "drop (64 * half) p" and ?qh = "drop (128 + 32 * half) p"
  let ?xb = "drop (128 * half) xb"
  let ?parts = "q6_fill_ref ?fp ?ql ?qh ?xb"
  have z: "parts8 (replicate 8 (replicate 4 (d_of_int ?fp 0)))" by (auto simp: parts8_def list_all_iff)
  have ls: "list_all (\<lambda>l. l < 32) (map (\<lambda>i. 4 * i) [0..<8])" by (auto simp: list_all_iff)
  note fold = q6_fold_sums [OF z ls, of val ?ql ?qh ?xb, folded q6_fill_ref_def]
  then have len: "length ?parts = 8" "\<And>k. k < 8 \<Longrightarrow> length (?parts ! k) = 4" by (auto simp: parts8_def list_all_length)
  have "RED4 ?fp (?parts ! k) = (\<Sum>i\<leftarrow>[0..<8]. if k mod 2 = i div 4 then q6_term ?ql ?qh ?xb (k div 2) (4 * i) else 0)" if "k < 8" for k
    using arg_cong [OF conjunct2 [OF fold], of "\<lambda>xs. xs ! k"] that len
    by (simp add: RED4_exact comp_def sum_list_replicate cong: if_cong)
  then have "q6_half ?fp (q6_fill_ref ?fp) p xb acc half = acc + (\<Sum>k<8. f16f ?fp (u16_at p 208) *
      real_of_int (sint (drop (192 + 8 * half) p ! k)) * (\<Sum>i\<leftarrow>[0..<8]. if k mod 2 = i div 4 then q6_term ?ql ?qh ?xb (k div 2) (4 * i) else 0))"
    by (simp add: q6_half_def Let_def foldl_sum interv_sum_list_conv_sum_set_nat atLeast0LessThan)
  then show ?thesis
    using q6_dequant_half_rowdot [of ?xb val p half] assms
      q6_regroup [where D = "f16f ?fp (u16_at p 208)" and c = "\<lambda>k. real_of_int (sint (drop (192 + 8 * half) p ! k))"
        and T = "\<lambda>part i. q6_term ?ql ?qh ?xb part (4 * i)"]
    by (simp only: Let_def) simp
qed

lemma q6_half_len: "length (q6_dequant_half fp p half) = 128"
  by (simp add: q6_dequant_half_def Let_def upt_4)

lemma q6_block_len: "length (concat (map (q6_dequant_half fp p) [0..<2])) = 256"
  by (simp add: upt_conv_Cons q6_half_len numeral_2_eq_2)

lemma q6_k_fused_exact:
  assumes "n \<le> length x"
  shows "eng_q6_k_dot_row_ref (exact_fpu val) w x n = rowdot (q6_k_dequant_row (exact_fpu val) w n) x"
proof -
  let ?fp = "exact_fpu val"
  have len: "n div 256 * 256 \<le> length x" using assms by (simp add: le_trans)
  have block: "foldl (q6_half ?fp (q6_fill_ref ?fp) p xb) acc [0..<2] =
      acc + rowdot (concat (map (q6_dequant_half ?fp p) [0..<2])) xb" if "256 \<le> length xb" for p xb acc
    by (rule chunks_rowdot [OF q6_half_len])
       (use that in \<open>simp, subst q6_half_exact, simp, simp add: mult.commute\<close>)
  have "eng_q6_k_dot_row_ref ?fp w x n = d_of_int ?fp 0 + rowdot (q6_k_dequant_row ?fp w n) x"
    unfolding eng_q6_k_dot_row_ref_def q6_k_dot_def q6_k_dequant_row_def QK_K_def
    by (rule chunks_rowdot [OF q6_block_len len block])
  then show ?thesis by simp
qed

end
