(* ===== verification/Quant_Mx_Props.thy ===== *)
theory Quant_Mx_Props
  imports Quant_Mx Quant_Props
begin

text \<open>
  Correctness of Q8_0, MXFP4, the format registry and the packed matrix product, with the
  statements that cover all four formats.
\<close>

section \<open>Rows cut into groups, the last one possibly short\<close>

lemma groups_len:
  assumes "\<And>g. length (F g) = min (n - g * L) L"
  shows "length (concat (map F [0..<k])) = min n (k * L)"
  using assms by (induction k) (auto simp: min_def)

lemma groups_rowdot:
  assumes len: "\<And>g. length (F g) = min (n - g * L) L" and n: "n \<le> length x"
    and step: "\<And>acc g. g < k \<Longrightarrow> f acc g = acc + rowdot (F g) (drop (g * L) x)"
  shows "foldl f a [0..<k] = a + rowdot (concat (map F [0..<k])) x"
proof -
  have cat: "rowdot (concat (map F [0..<k])) x = (\<Sum>g<k. rowdot (F g) (drop (g * L) x))" for k
  proof (induction k)
    case (Suc k)
    show ?case
    proof (cases "k * L < n")
      case True
      then show ?thesis using Suc groups_len [OF len, of k] n by (simp add: rowdot_append del: length_concat)
    next
      case False
      then have "F k = []" using len [of k] by simp
      then show ?thesis using Suc by (simp add: rowdot_def)
    qed
  qed (simp add: rowdot_def)
  have "foldl f a [0..<k] = a + (\<Sum>g\<leftarrow>[0..<k]. rowdot (F g) (drop (g * L) x))"
    by (rule foldl_acc_sum) (simp add: step)
  then show ?thesis by (simp add: cat interv_sum_list_conv_sum_set_nat atLeast0LessThan)
qed

lemma lanes_dot:
  fixes a b :: "nat \<Rightarrow> real"
  assumes "0 < w"
  obtains s i where "stride_loop w m (\<lambda>i. lanes w (\<lambda>l c. a (i + l) * b (i + l) + c)) 0 (replicate w 0) = (s, i)"
    "length s = w" "\<And>z. foldl (\<lambda>sub i. a i * b i + sub) z [i..<m] = z - sum_list s + (\<Sum>j<m. a j * b j)"
proof -
  obtain s i where "stride_loop w m (\<lambda>i. lanes w (\<lambda>l c. c + a (i + l) * b (i + l))) 0 (replicate w 0) = (s, i)"
    "length s = w" "i \<le> m" "sum_list s = (\<Sum>j<i. a j * b j)"
    using lane_loop_sum [where w = w and n = m and g = "\<lambda>i. a i * b i"] assms by auto
  with that [of s i] show ?thesis
    using foldl_sum_upt [of "\<lambda>i. a i * b i" _ i m] sum_split_upt [of i m "\<lambda>j. a j * b j"]
    by (simp add: add.commute [of "_ * _"])
qed

section \<open>Q8_0\<close>

lemma q8_f16_same: "f16_to_f32 h = eng_f16_to_f32 h"
  by (simp add: f16_to_f32_def eng_f16_to_f32_def Let_def algebra_simps)

lemma q8_0_group_exact:
  "q8_0_group (exact_fpu val) blk x off m = (\<Sum>i<m. real_of_int (sint (blk ! (2 + i))) * x ! (off + i))"
proof -
  obtain s i where "stride_loop 4 m (\<lambda>i. lanes 4 (\<lambda>l c. real_of_int (sint (blk ! (2 + (i + l)))) * x ! (off + (i + l)) + c)) 0 (replicate 4 0) = (s, i)"
    "length s = 4" "\<And>z. foldl (\<lambda>sub i. real_of_int (sint (blk ! (2 + i))) * x ! (off + i) + sub) z [i..<m]
      = z - sum_list s + (\<Sum>j<m. real_of_int (sint (blk ! (2 + j))) * x ! (off + j))"
    using lanes_dot [of 4 m "\<lambda>i. real_of_int (sint (blk ! (2 + i)))" "\<lambda>i. x ! (off + i)"] by auto
  then show ?thesis by (simp add: q8_0_group_def RED4_exact)
qed

lemma q8_0_fused_exact:
  assumes "n \<le> length x"
  shows "q8_0_dot_row (exact_fpu val) w x n = rowdot (q8_0_dequant_row (exact_fpu val) w n) x"
proof -
  let ?fp = "exact_fpu val"
  have len: "length (q8_0_dequant_group ?fp w n g) = min (n - g * 32) 32" for g
    by (simp add: q8_0_dequant_group_def Let_def mult.commute)
  have "q8_0_dot_row ?fp w x n = d_of_int ?fp 0 + rowdot (q8_0_dequant_row ?fp w n) x"
    unfolding q8_0_dot_row_def q8_0_dequant_row_def
  proof (rule groups_rowdot [OF len assms])
    fix acc :: real and g assume "g < (n + 31) div 32"
    then have g: "32 * g \<le> length x" using assms by linarith
    let ?d = "blk_scale ?fp (drop (g * 34) w)" and ?m = "min (n - 32 * g) 32"
    let ?q = "\<lambda>i. real_of_int (sint (drop (g * 34) w ! (2 + i)))"
    have "rowdot (q8_0_dequant_group ?fp w n g) (drop (g * 32) x) = (\<Sum>i<?m. ?d * ?q i * x ! (32 * g + i))"
      using g by (simp add: q8_0_dequant_group_def Let_def rowdot_map mult.commute [of g 32])
    also have "\<dots> = q8_0_group ?fp (drop (g * 34) w) x (32 * g) ?m * ?d"
      unfolding q8_0_group_exact by (simp add: sum_distrib_left mult_ac)
    finally show "(let off = 32 * g; blk = drop (g * 34) w; d = d_of_f ?fp (blk_scale ?fp blk); m = min (n - off) 32
        in d_add ?fp acc (d_mul ?fp (q8_0_group ?fp blk x off m) d)) = acc + rowdot (q8_0_dequant_group ?fp w n g) (drop (g * 32) x)"
      by (simp add: Let_def)
  qed
  then show ?thesis by simp
qed

section \<open>MXFP4\<close>

text \<open>The eight accumulators of the reference are the lanes of two vectors.\<close>

definition same_pair :: "'d list \<Rightarrow> 'd list \<times> 'd list \<Rightarrow> bool" where
  "same_pair s v \<longleftrightarrow> length (fst v) = 4 \<and> length (snd v) = 4 \<and> s = fst v @ snd v"

lemma group_dot_avx2_same: "group_dot_avx2 fp wv xg n = group_dot_ref fp wv xg n"
proof -
  let ?z = "mm256_setzero_pd fp"
  let ?ld = "\<lambda>xs i. mm256_cvtps_pd fp (loadu 4 xs i)"
  let ?f = "\<lambda>i. lanes 8 (\<lambda>l. d_fma fp (d_of_f fp (wv ! (i + l))) (d_of_f fp (xg ! (i + l))))"
  let ?g = "\<lambda>i (v0, v1). (mm256_fmadd_pd fp (?ld wv i) (?ld xg i) v0, mm256_fmadd_pd fp (?ld wv (i + 4)) (?ld xg (i + 4)) v1)"
  have z: "same_pair (replicate 8 (d_of_int fp 0)) (?z, ?z)"
    by (simp add: same_pair_def mm256_setzero_pd_def flip: replicate_add)
  have step: "same_pair (?f i s) (?g i v)" if "same_pair s v" for i s v
  proof -
    obtain v0 v1 where v: "v = (v0, v1)" by (cases v)
    with that have len: "length v0 = 4" "length v1 = 4" "s = v0 @ v1" by (auto simp: same_pair_def)
    from list4 [OF len(1)] list4 [OF len(2)] show ?thesis
      by (auto simp: v len(3) same_pair_def lanes_map mm_defs vec3_def loadu_def upt_4 upt_8 add.assoc)
  qed
  have sim: "same_pair (fst (stride_loop 8 n ?f 0 (replicate 8 (d_of_int fp 0)))) (fst (stride_loop 8 n ?g 0 (?z, ?z))) \<and>
      snd (stride_loop 8 n ?f 0 (replicate 8 (d_of_int fp 0))) = snd (stride_loop 8 n ?g 0 (?z, ?z))"
    by (rule stride_loop_sim [where R = same_pair, OF z]) (rule step)
  have red: "reduce_mx fp s = (let a = mm256_add_pd fp (fst v) (snd v) in d_add fp (d_add fp (a ! 0) (a ! 1)) (d_add fp (a ! 2) (a ! 3)))"
    if "same_pair s v" for s v
    using that by (auto simp: same_pair_def reduce_mx_def mm_defs Let_def dest!: list4)
  show ?thesis
    unfolding group_dot_avx2_def group_dot_ref_def Let_def
    using red [OF conjunct1 [OF sim]] conjunct2 [OF sim] by (simp add: case_prod_beta Let_def)
qed

lemma reduce_mx_exact: "length s = 8 \<Longrightarrow> reduce_mx (exact_fpu val) s = sum_list s"
  by (auto dest!: list8 simp: reduce_mx_def Let_def)

lemma group_dot_exact: "group_dot (exact_fpu val) cpu wv xg m = (\<Sum>i<m. wv ! i * xg ! i)"
proof -
  obtain s i where "stride_loop 8 m (\<lambda>i. lanes 8 (\<lambda>l c. wv ! (i + l) * xg ! (i + l) + c)) 0 (replicate 8 0) = (s, i)"
    "length s = 8" "\<And>z. foldl (\<lambda>sub i. wv ! i * xg ! i + sub) z [i..<m] = z - sum_list s + (\<Sum>j<m. wv ! j * xg ! j)"
    using lanes_dot [of 8 m "\<lambda>i. wv ! i" "\<lambda>i. xg ! i"] by auto
  then show ?thesis by (simp add: group_dot_def group_dot_avx2_same group_dot_ref_def reduce_mx_exact)
qed

text \<open>Element \<open>i\<close> of a packed group: the low nibble of a byte is the even element.\<close>

definition nibble :: "byte list \<Rightarrow> nat \<Rightarrow> nat" where
  "nibble pb i = unat (if odd i then drop_bit 4 (pb ! (i div 2)) else pb ! (i div 2) AND 0x0F)"

lemma expand_pairs:
  "concat (map (\<lambda>j. E2M1_PAIR fp (pb ! j)) [0..<k]) = map (\<lambda>i. E2M1 fp ! nibble pb i) [0..<2 * k]"
  by (induction k) (simp_all add: E2M1_PAIR_def nibble_def)

lemma expand_group_nibbles: "expand_group fp pb m = map (\<lambda>i. E2M1 fp ! nibble pb i) [0..<m]"
proof (cases "odd m")
  case True
  then obtain k where m: "m = 2 * k + 1" by (auto elim: oddE)
  then show ?thesis unfolding expand_group_def expand_pairs by (simp add: E2M1_PAIR_def nibble_def)
next
  case False
  then obtain k where m: "m = 2 * k" by (auto elim: evenE)
  then show ?thesis by (simp add: expand_group_def expand_pairs)
qed

lemma mx_dequant_nibbles:
  "mx_dequant_group fp w scales n grp g =
     map (\<lambda>i. f_mul fp (E2M1 fp ! nibble w i) (if scales ! g = 255 then f_of_int fp 0 else f_ldexp1 fp (uint (scales ! g) - 127)))
       [g * grp..<min (g * grp + grp) n]"
  by (simp add: mx_dequant_group_def nibble_def Let_def)

lemma mxfp4_fused_exact:
  assumes "n \<le> length x" "n \<le> 2 * length w" "even grp" "0 < grp"
  shows "eng_mxfp4_dot_row_g (exact_fpu val) cpu w scales x n grp = rowdot (eng_mxfp4_dequant_row_g (exact_fpu val) w scales n grp) x"
proof -
  let ?fp = "exact_fpu val"
  have len: "length (mx_dequant_group ?fp w scales n grp g) = min (n - g * grp) grp" for g
    by (simp add: mx_dequant_group_def Let_def)
  have "eng_mxfp4_dot_row_g ?fp cpu w scales x n grp = d_of_int ?fp 0 + rowdot (eng_mxfp4_dequant_row_g ?fp w scales n grp) x"
    unfolding eng_mxfp4_dot_row_g_def eng_mxfp4_dequant_row_g_def
  proof (rule groups_rowdot [OF len assms(1)])
    fix acc :: real and g assume "g < (n + grp - 1) div grp"
    then have "(g + 1) * grp \<le> n + grp - 1" using assms(4) by (metis Suc_eq_plus1 Suc_leI less_eq_div_iff_mult_less_eq)
    then have g: "g * grp < n" using assms(4) by simp
    define m where "m = min (n - g * grp) grp"
    obtain h where h: "grp = 2 * h" using assms(3) by (auto elim: evenE)
    let ?pb = "drop (g * (grp div 2)) w" and ?xg = "drop (g * grp) x"
    let ?mult = "if scales ! g = 255 then 0 else 2 powi (uint (scales ! g) - 127) :: real"
    have nib: "nibble w (g * grp + k) = nibble ?pb k" for k
    proof -
      have "(g * grp + k) div 2 = g * h + k div 2" "odd (g * grp + k) = odd k" by (simp_all add: h)
      moreover have "g * h \<le> length w" using g assms(2) h by simp
      moreover have "grp div 2 = h" by (simp add: h)
      ultimately show ?thesis by (simp add: nibble_def del: even_add odd_add)
    qed
    have hi: "min (g * grp + grp) n = g * grp + m" using g by (auto simp: m_def)
    have "mx_dequant_group ?fp w scales n grp g = map (\<lambda>i. E2M1 ?fp ! nibble ?pb i * ?mult) [0..<m]"
      unfolding mx_dequant_nibbles hi by (intro nth_equalityI) (simp_all add: nib)
    then have "rowdot (mx_dequant_group ?fp w scales n grp g) ?xg = (\<Sum>i<m. E2M1 ?fp ! nibble ?pb i * ?xg ! i) * ?mult"
      by (simp add: rowdot_map sum_distrib_left mult_ac sum_distrib_right)
    moreover have "group_dot ?fp cpu (expand_group ?fp ?pb m) ?xg m = (\<Sum>i<m. E2M1 ?fp ! nibble ?pb i * ?xg ! i)"
      by (simp add: group_dot_exact expand_group_nibbles)
    ultimately show "(let sb = scales ! g in if sb = 255 then acc
         else let pb = drop (g * (grp div 2)) w; xg = drop (g * grp) x; m = min (n - g * grp) grp
           in d_add ?fp acc (d_mul ?fp (group_dot ?fp cpu (expand_group ?fp pb m) xg m) (d_of_f ?fp (E8M0 ?fp sb)))) =
      acc + rowdot (mx_dequant_group ?fp w scales n grp g) (drop (g * grp) x)"
      by (simp add: Let_def m_def [symmetric] E8M0_def)
  qed
  then show ?thesis by simp
qed

text \<open>
  C10: a fused dot product is the dot product of the row it would materialise.  In real arithmetic
  the four formats' \<open>dot_row\<close> equals the sum over their \<open>dequant_row\<close>, the affine minimum of
  Q4_K and the NaN scale of MXFP4 included, so only rounding separates the two paths.
\<close>

theorem fused_dot_is_dequantised_dot:
  assumes "n \<le> length x" "n \<le> 2 * length mw"
  shows "q4_k_dot_row (exact_fpu val) cpu scalar w x n = rowdot (q4_k_dequant_row (exact_fpu val) w n) x \<and>
    q6_k_dot_row (exact_fpu val) cpu scalar w x n = rowdot (q6_k_dequant_row (exact_fpu val) w n) x \<and>
    q8_0_dot_row (exact_fpu val) w x n = rowdot (q8_0_dequant_row (exact_fpu val) w n) x \<and>
    mxfp4_dot_row (exact_fpu val) cpu mw scales x n = rowdot (mxfp4_dequant_row (exact_fpu val) mw scales n) x"
  using q4_k_fused_exact [OF assms(1)] q6_k_fused_exact [OF assms(1)] q8_0_fused_exact [OF assms(1)]
    mxfp4_fused_exact [OF assms, of 32]
  by (simp add: kquant_dispatch_same mxfp4_dot_row_def mxfp4_dequant_row_def MXFP4_GROUP_def)

theorem fused_dot_is_dequantised_dot_witness:
  "mxfp4_dot_row (exact_fpu (\<lambda>_. 0)) \<lparr>eng_avx2_compiled = True, eng_cpu_has_avx2 = True\<rparr> [0x21] [127] [1, 2] 2 =
   rowdot (mxfp4_dequant_row (exact_fpu (\<lambda>_. 0)) [0x21] [127] 2) [1, 2]"
  using fused_dot_is_dequantised_dot [of 2 "[1, 2]" "[0x21]" "\<lambda>_. 0" _ True "[]" "[127]"] by simp

section \<open>The scale packing of Q4_K\<close>

text \<open>The layout of the twelve bytes as the format describes it: eight scales and eight minima of six bits.\<close>

definition pack_scales :: "byte list \<Rightarrow> byte list \<Rightarrow> byte list" where
  "pack_scales sc m =
     map (\<lambda>j. sc ! j OR push_bit 6 (drop_bit 4 (sc ! (j + 4)))) [0..<4] @
     map (\<lambda>j. m ! j OR push_bit 6 (drop_bit 4 (m ! (j + 4)))) [0..<4] @
     map (\<lambda>j. take_bit 4 (sc ! (j + 4)) OR push_bit 4 (take_bit 4 (m ! (j + 4)))) [0..<4]"

definition six_ok :: "byte \<Rightarrow> bool" where
  "six_ok a \<longleftrightarrow> (take_bit 6 a = a \<longrightarrow>
     a AND 63 = a \<and> drop_bit 6 a = 0 \<and> push_bit 6 (drop_bit 4 a) AND 63 = 0 \<and>
     take_bit 4 a OR push_bit 4 (drop_bit 6 (push_bit 6 (drop_bit 4 a))) = a) \<and>
   take_bit 4 a AND 0x0F = take_bit 4 a \<and> drop_bit 4 (take_bit 4 a) = 0 \<and>
   push_bit 4 (take_bit 4 a) AND 0x0F = 0 \<and> drop_bit 4 (push_bit 4 (take_bit 4 a)) = take_bit 4 a"

lemma six_ok_all: "six_ok a"
  by (rule all_bytes) code_simp

lemma byte_or_distribs:
  "(a OR b) AND c = (a AND c) OR (b AND c :: byte)" "drop_bit n (a OR b) = drop_bit n a OR (drop_bit n b :: byte)"
  by (rule bit_word_eqI, auto simp: bit_simps)+

text \<open>
  The bit-packed scales of Q4_K lose nothing: \<open>get_scale_min\<close> reads each of the eight
  six-bit scales and minima back from the twelve bytes they are packed into.
\<close>

theorem scale_min_roundtrip:
  assumes "length sc = 8" "length mn = 8" "\<forall>j<8. take_bit 6 (sc ! j) = sc ! j \<and> take_bit 6 (mn ! j) = mn ! j" "j < 8"
  shows "get_scale_min j (pack_scales sc mn) = (sc ! j, mn ! j)"
proof (cases "j < 4")
  case True
  then have "j + 4 < 8" by simp
  with assms(3) True have "take_bit 6 (sc ! j) = sc ! j" "take_bit 6 (mn ! j) = mn ! j"
    "take_bit 6 (sc ! (j + 4)) = sc ! (j + 4)" "take_bit 6 (mn ! (j + 4)) = mn ! (j + 4)" by auto
  then show ?thesis using True six_ok_all [of "sc ! j"] six_ok_all [of "mn ! j"] six_ok_all [of "sc ! (j + 4)"] six_ok_all [of "mn ! (j + 4)"]
    by (simp add: get_scale_min_def pack_scales_def nth_append byte_or_distribs six_ok_def)
next
  case False
  define k where "k = j - 4"
  then have k: "j = k + 4" "k < 4" using False assms(4) by auto
  with assms(3,4) have "take_bit 6 (sc ! k) = sc ! k" "take_bit 6 (mn ! k) = mn ! k"
    "take_bit 6 (sc ! (k + 4)) = sc ! (k + 4)" "take_bit 6 (mn ! (k + 4)) = mn ! (k + 4)" by auto
  then show ?thesis using k six_ok_all [of "sc ! k"] six_ok_all [of "mn ! k"] six_ok_all [of "sc ! (k + 4)"] six_ok_all [of "mn ! (k + 4)"]
    by (simp add: get_scale_min_def pack_scales_def nth_append byte_or_distribs six_ok_def)
qed

theorem scale_min_roundtrip_witness:
  "get_scale_min 5 (pack_scales [1, 2, 3, 4, 5, 63, 7, 8] [9, 10, 11, 12, 13, 42, 15, 16]) = (63, 42)"
proof -
  have "\<forall>j<8. take_bit 6 ([1, 2, 3, 4, 5, 63, 7, 8 :: byte] ! j) = [1, 2, 3, 4, 5, 63, 7, 8] ! j \<and>
      take_bit 6 ([9, 10, 11, 12, 13, 42, 15, 16 :: byte] ! j) = [9, 10, 11, 12, 13, 42, 15, 16] ! j"
    by code_simp
  from scale_min_roundtrip [OF _ _ this, of 5] show ?thesis by simp
qed

section \<open>The registry and the matrix product\<close>

lemma builtin_registry:
  "REG (reg_init (builtin_ops fp cpu scalar) reg_fresh) dt =
     (if dt = 48 then Some (eng_quant_mxfp4 fp cpu) else if dt = 20 then Some (eng_quant_q8_0 fp)
      else if dt = 34 then Some (eng_quant_q4_k fp cpu scalar) else if dt = 36 then Some (eng_quant_q6_k fp cpu scalar) else None)"
  by (simp add: reg_init_def builtin_ops_def reg_fresh_def reg_put_def ops_complete_def ENG_DT_MAX_def eng_quant_mxfp4_def
      eng_quant_q8_0_def eng_quant_q4_k_def eng_quant_q6_k_def)

lemma mxfp4_dispatch_same: "mxfp4_dot_row fp cpu w scales x n = mxfp4_dot_row fp cpu' w scales x n"
proof -
  have gd: "group_dot fp cpu = group_dot fp cpu'" by (intro ext) (simp add: group_dot_def group_dot_avx2_same)
  show ?thesis unfolding mxfp4_dot_row_def eng_mxfp4_dot_row_g_def gd by (rule refl)
qed

text \<open>
  C7: the packed matrix product gives the same bits on every machine.  For every data type and
  every floating-point unit, whatever its rounding, neither the CPU's features nor
  \<open>ENG_KQ_SCALAR\<close> changes a result or a refusal: the AVX2 dot products of Q4_K, Q6_K and MXFP4
  equal the scalar ones.
\<close>

theorem quant_matmul_bit_identical:
  "eng_matmul_quant fp (fst (eng_quant_ops_of (builtin_ops fp cpu scalar) dt reg_fresh)) x W scales nin rows =
   eng_matmul_quant fp (fst (eng_quant_ops_of (builtin_ops fp cpu' scalar') dt reg_fresh)) x W scales nin rows"
proof -
  have "mxfp4_dot_row fp cpu = mxfp4_dot_row fp cpu'" by (intro ext mxfp4_dispatch_same)
  then show ?thesis
    by (simp add: eng_quant_ops_of_def Let_def builtin_registry eng_quant_mxfp4_def eng_quant_q8_0_def eng_quant_q4_k_def
        eng_quant_q6_k_def kquant_dispatch_same [abs_def])
qed

lemma matmul_refused:
  "eng_matmul_quant fp (Some q) x W scales nin rows = None \<longleftrightarrow>
     the (qo_row_bytes q) (int nin) < 0 \<or> the (qo_scale_bytes q) (int nin) < 0 \<or>
     (0 < the (qo_scale_bytes q) (int nin) \<and> scales = None)"
  by (simp add: eng_matmul_quant_def Let_def)

text \<open>
  Every built-in format's row size is the one of the data-type table, and the packed product
  is refused exactly for a data type without an implementation, a row the format cannot express,
  or external scales that are missing.
\<close>

theorem quant_formats_match_dtype_table:
  assumes "0 \<le> n" "n < 2 ^ 31"
  shows "q4_k_row_bytes n = eng_dtype_row_bytes 34 n \<and> q6_k_row_bytes n = eng_dtype_row_bytes 36 n \<and>
    q8_0_row_bytes n = eng_dtype_row_bytes 20 n \<and> mxfp4_row_bytes n = eng_dtype_row_bytes 48 n \<and>
    (eng_matmul_quant fp (fst (eng_quant_ops_of (builtin_ops fp cpu scalar) dt reg_fresh)) x W scales (nat n) rows = None \<longleftrightarrow>
      dt \<notin> {20, 34, 36, 48} \<or> eng_dtype_row_bytes dt n < 0 \<or> (dt = 48 \<and> 0 < n \<and> scales = None))"
proof -
  have small: "in_i64 (n div 256 * 144)" "in_i64 (n div 256 * 210)" "in_i64 (n div 32 * 34)" "in_i64 (n div 2)"
    using assms by (auto intro!: in_i64_nonneg)
  have info: "eng_dtype_info 34 = Some (row ''q4_k'' (ENG_DTF_FLOAT OR ENG_DTF_QUANTIZED OR ENG_DTF_BLOCKED) 256 144 0)"
    "eng_dtype_info 36 = Some (row ''q6_k'' (ENG_DTF_FLOAT OR ENG_DTF_QUANTIZED OR ENG_DTF_BLOCKED) 256 210 0)"
    "eng_dtype_info 20 = Some (row ''q8_0'' (ENG_DTF_FLOAT OR ENG_DTF_QUANTIZED OR ENG_DTF_BLOCKED) 32 34 0)"
    "eng_dtype_info 48 = Some (row ''mxfp4'' (ENG_DTF_FLOAT OR ENG_DTF_QUANTIZED OR ENG_DTF_BLOCKED OR ENG_DTF_EXT_SCALES) 2 1 0)"
    by (simp_all add: eng_dtype_info_def TBL_def Let_def ENG_DT_MAX_def)
  have rows: "q4_k_row_bytes n = eng_dtype_row_bytes 34 n" "q6_k_row_bytes n = eng_dtype_row_bytes 36 n"
    "q8_0_row_bytes n = eng_dtype_row_bytes 20 n" "mxfp4_row_bytes n = eng_dtype_row_bytes 48 n"
    using assms small
    by (simp_all add: q4_k_row_bytes_def q6_k_row_bytes_def q8_0_row_bytes_def mxfp4_row_bytes_def eng_dtype_row_bytes_def
        info row_def and_one_eq mod2_eq_if)
  have "mxfp4_scale_bytes n = (n + 31) div 32" using assms by (simp add: mxfp4_scale_bytes_def MXFP4_GROUP_def)
  then have scale: "\<not> mxfp4_scale_bytes n < 0" "0 < mxfp4_scale_bytes n \<longleftrightarrow> 0 < n" using assms(1) by auto
  have ops: "fst (eng_quant_ops_of (builtin_ops fp cpu scalar) dt reg_fresh) =
     (if dt = 48 then Some (eng_quant_mxfp4 fp cpu) else if dt = 20 then Some (eng_quant_q8_0 fp)
      else if dt = 34 then Some (eng_quant_q4_k fp cpu scalar) else if dt = 36 then Some (eng_quant_q6_k fp cpu scalar) else None)"
    by (auto simp: eng_quant_ops_of_def Let_def builtin_registry ENG_DT_MAX_def)
  have "eng_matmul_quant fp (fst (eng_quant_ops_of (builtin_ops fp cpu scalar) dt reg_fresh)) x W scales (nat n) rows = None \<longleftrightarrow>
      dt \<notin> {20, 34, 36, 48} \<or> eng_dtype_row_bytes dt n < 0 \<or> (dt = 48 \<and> 0 < n \<and> scales = None)"
  proof (cases "dt \<in> {20, 34, 36, 48}")
    case False
    then show ?thesis unfolding ops by (simp add: eng_matmul_quant_def)
  next
    case True
    then consider "dt = 20" | "dt = 34" | "dt = 36" | "dt = 48" by blast
    then show ?thesis
      unfolding ops using assms(1) scale
      by cases (simp_all add: matmul_refused eng_quant_mxfp4_def eng_quant_q8_0_def eng_quant_q4_k_def eng_quant_q6_k_def rows)
  qed
  with rows show ?thesis by simp
qed

theorem quant_formats_match_dtype_table_witness:
  "q4_k_row_bytes 512 = eng_dtype_row_bytes 34 512 \<and>
   eng_matmul_quant (exact_fpu (\<lambda>_. 0)) (fst (eng_quant_ops_of (builtin_ops (exact_fpu (\<lambda>_. 0)) \<lparr>eng_avx2_compiled = True,
     eng_cpu_has_avx2 = True\<rparr> False) 48 reg_fresh)) [] [] None 512 1 = None"
  using quant_formats_match_dtype_table [of 512 "exact_fpu (\<lambda>_. 0)" "\<lparr>eng_avx2_compiled = True, eng_cpu_has_avx2 = True\<rparr>" False 48
      "[]" "[]" None 1] by simp

end
