(* ===== verification/Qwen3.thy ===== *)
theory Qwen3
  imports Gguf Quant_Mx Streamer_Props Planner
begin

text \<open>
  The Qwen3 backend, \<^verbatim>\<open>src/models/qwen3/qwen3.c\<close>: what it reports to the planner, how it
  binds a container, and one decode step over the streamed layers.

  The floating-point unit, the processor and the file's descriptors are the record \<open>qenv\<close>.  The
  mutable buffers of \<open>struct EngModel\<close> are its field \<open>md_work\<close>, so that what a decode step cannot
  change is apart from what it can.  \<open>Ok\<close> is a return of 0, \<open>Err\<close> a return of -1 with the state it
  leaves behind, and \<open>Fault\<close> an access outside an array (or a division by zero), which the source
  does not check for.  The layer's bytes are those the streamer's pointer addresses \<^emph>\<open>after\<close>
  the next prefetch was issued and, when \<open>rdr\<close> says so, served by the reader thread.  The debug
  capture and the clocks are left out; an allocation succeeds unless it asks for \<open>2^63\<close> bytes or more,
  which is what a negative size is once it is cast to \<open>size_t\<close>.
\<close>

section \<open>Environment and outcomes\<close>

record ('f, 'd) qenv =
  q_fp :: "('f, 'd) fpu"
  q_cpu :: cpu
  q_scalar :: bool
  q_impl :: eng_impl
  q_f64 :: "64 word \<Rightarrow> 'f"
  q_fd :: pread_fn
  q_dfd :: pread_fn
  q_st :: eng_storage

datatype ('a, 'e) outcome = Ok 'a | Err 'e | Fault

primrec obind :: "('a, 'e) outcome \<Rightarrow> ('a \<Rightarrow> ('b, 'e) outcome) \<Rightarrow> ('b, 'e) outcome" where
  "obind (Ok x) f = f x"
| "obind (Err e) f = Err e"
| "obind Fault f = Fault"

definition quant_ops :: "('f, 'd) qenv \<Rightarrow> int \<Rightarrow> ('f, 'd) eng_quant_ops option" where
  "quant_ops env dt = fst (eng_quant_ops_of (builtin_ops (q_fp env) (q_cpu env) (q_scalar env)) dt reg_fresh)"

definition store_read :: "('f, 'd) qenv \<Rightarrow> int \<Rightarrow> int \<Rightarrow> rd_result" where
  "store_read env off n = fst (file_read (q_fd env) (q_st env) off n)"

definition stream_rd :: "('f, 'd) qenv \<Rightarrow> read_fn" where
  "stream_rd env = file_rd (q_fd env) (q_dfd env) (q_st env)"

definition ENG_DT_F32 :: int where "ENG_DT_F32 = 1"

text \<open>An array of single floats in memory, and a store at an index.\<close>

definition u32_at :: "byte list \<Rightarrow> nat \<Rightarrow> 32 word" where
  "u32_at b i = ucast (b ! i) OR push_bit 8 (ucast (b ! (i + 1))) OR push_bit 16 (ucast (b ! (i + 2)))
     OR push_bit 24 (ucast (b ! (i + 3)))"

definition floats :: "('f, 'd) fpu \<Rightarrow> byte list \<Rightarrow> nat \<Rightarrow> 'f list" where
  "floats fp b n = map (\<lambda>i. f_bits fp (u32_at b (4 * i))) [0..<n]"

definition f32_at :: "('f, 'd) fpu \<Rightarrow> byte list \<Rightarrow> int \<Rightarrow> nat \<Rightarrow> 'f list option" where
  "f32_at fp b off n =
     (if 0 \<le> off \<and> nat off + 4 * n \<le> length b then Some (floats fp (drop (nat off) b) n) else None)"

definition store_at :: "nat \<Rightarrow> 'a list \<Rightarrow> 'a list \<Rightarrow> 'a list" where
  "store_at i ys xs = take i xs @ ys @ drop (i + length ys) xs"

section \<open>State\<close>

record slot =
  sl_rel :: int
  sl_nbytes :: int
  sl_dtype :: int
  sl_in :: int
  sl_out :: int

record layer_slots =
  ls_attn_norm :: slot
  ls_attn_q :: slot
  ls_attn_k :: slot
  ls_attn_v :: slot
  ls_attn_q_norm :: slot
  ls_attn_k_norm :: slot
  ls_attn_out :: slot
  ls_ffn_norm :: slot
  ls_ffn_gate :: slot
  ls_ffn_up :: slot
  ls_ffn_down :: slot

record 'f workset =
  w_stream :: eng_streamer
  w_rowbuf :: "byte list"
  w_headbuf :: "byte list"
  w_x :: "'f list"
  w_xn :: "'f list"
  w_q :: "'f list"
  w_k :: "'f list"
  w_v :: "'f list"
  w_att :: "'f list"
  w_gate :: "'f list"
  w_up :: "'f list"
  w_ffn :: "'f list"
  w_scores :: "'f list"
  w_logits :: "'f list"
  w_lmhead_bytes :: int
  w_steps :: nat
  w_logit_steps :: nat

record 'f eng_model =
  md_n_layers :: int
  md_d_model :: int
  md_n_heads :: int
  md_n_kv :: int
  md_head_dim :: int
  md_d_ff :: int
  md_vocab :: int
  md_ctx_max :: int
  md_eps :: 'f
  md_rope_theta :: 'f
  md_slot :: "layer_slots list"
  md_out_norm :: "byte list"
  md_embd :: gguf_tensor
  md_lm_head :: gguf_tensor
  md_head_chunk :: int
  md_lm_resident :: "byte list option"
  md_lm_bytes :: int
  md_work :: "'f workset"

record 'f eng_seq_state =
  sq_context :: int
  sq_n_seen :: int
  sq_kc :: "'f list"
  sq_vc :: "'f list"

section \<open>Probe and inspect\<close>

definition qwen3_probe :: "gguf option \<Rightarrow> int" where
  "qwen3_probe og =
     (case og of None \<Rightarrow> 0
      | Some g \<Rightarrow> if gguf_str g (ascii ''general.architecture'') = Some (ascii ''qwen3'') then 100 else 0)"

definition layer_prefix :: "nat \<Rightarrow> byte list" where
  "layer_prefix L = ascii (''blk.'' @ dec_nat L @ ''.'')"

definition span_step :: "byte list \<Rightarrow> int \<times> int \<Rightarrow> gguf_tensor \<Rightarrow> int \<times> int" where
  "span_step pre = (\<lambda>(lo, hi) t.
     if take (length pre) (cstr (g_name t)) \<noteq> pre then (lo, hi)
     else let a = g_file_off t; b = i64 (a + g_nbytes t)
          in (if lo < 0 \<or> a < lo then a else lo, if hi < 0 \<or> b > hi then b else hi))"

definition layer_span :: "gguf \<Rightarrow> nat \<Rightarrow> (int \<times> int) option" where
  "layer_span g L =
     (let (lo, hi) = foldl (span_step (layer_prefix L)) (-1, -1) (gg_t g)
      in if lo < 0 then None else Some (lo, i64 (hi - lo)))"

definition shape_at :: "gguf_tensor \<Rightarrow> nat \<Rightarrow> int" where
  "shape_at t d = (if d < length (g_shape t) then g_shape t ! d else 0)"

definition qwen3_inspect :: "gguf \<Rightarrow> eng_model_facts option" where
  "qwen3_inspect g =
     (let key = (\<lambda>k. gguf_i64 g (ascii (''qwen3.'' @ k))) in
      case (key ''block_count'', key ''embedding_length'', key ''attention.head_count'',
            key ''attention.head_count_kv'', key ''attention.key_length'', key ''feed_forward_length'',
            key ''context_length'') of
        (Some nl, Some dm, Some nh, Some nkv, Some hw, Some ff, Some cl) \<Rightarrow>
          let nl = i32 nl; dm = i32 dm; nh = i32 nh; nkv = i32 nkv; hw = i32 hw; ff = i32 ff; cl = i32 cl in
          (case (gguf_tensor_find g (ascii ''token_embd.weight''), gguf_tensor_find g (ascii ''output.weight''),
                 gguf_tensor_find g (ascii ''output_norm.weight'')) of
             (Some emb, Some lmh, Some onm) \<Rightarrow>
               let (big, sum) = foldl (\<lambda>(big, sum) L. case layer_span g L of None \<Rightarrow> (big, sum)
                       | Some (off, len) \<Rightarrow> (if len > big then len else big, i64 (sum + len))) (0, 0) [0..<nat nl];
                   elems = foldl (\<lambda>e t. i64 (e + prod64 (g_shape t))) 0 (gg_t g)
               in Some \<lparr>mf_n_layers = nl, mf_total_weight_bytes = gg_data_bytes g, mf_resident_bytes = g_nbytes onm,
                    mf_max_layer_bytes = big, mf_avg_layer_bytes = (if nl \<noteq> 0 then c_div sum nl else 0),
                    mf_activation_bytes = i64 (i64 (i32 (dm * 6 + nh * hw + 2 * nkv * hw + 2 * ff) * 4)
                                             + i64 (shape_at emb 1 * 4)),
                    mf_scratch_bytes = cl * 4 + 16 * 1024 * 1024,
                    mf_kv_bytes_per_pos = i64 (i64 (i64 (i64 (2 * nl) * nkv) * hw) * 4),
                    mf_context_max = cl, mf_n_experts = 0, mf_topk = 0, mf_expert_bytes = 0,
                    mf_bytes_per_weight = (if elems \<noteq> 0 then of_int (gg_data_bytes g) / of_int elems else 0)\<rparr>
           | _ \<Rightarrow> None)
      | _ \<Rightarrow> None)"

section \<open>Load\<close>

definition gguf_f32 :: "('f, 'd) qenv \<Rightarrow> gguf \<Rightarrow> byte list \<Rightarrow> 'f option" where
  "gguf_f32 env g key =
     (case gguf_find g key of None \<Rightarrow> None
      | Some k \<Rightarrow>
          if k_type k = GGUF_T_FLOAT32 \<or> k_type k = GGUF_T_FLOAT64
          then Some (case k_f k of FSingle u \<Rightarrow> f_bits (q_fp env) u | FDouble u \<Rightarrow> q_f64 env u
                     | FNone \<Rightarrow> f_of_int (q_fp env) 0)
          else if kv_is_int k then Some (f_of_int (q_fp env) (k_i k)) else None)"

definition bind_slot :: "gguf \<Rightarrow> string \<Rightarrow> nat \<Rightarrow> int \<Rightarrow> slot option" where
  "bind_slot g suffix L base =
     map_option (\<lambda>t. \<lparr>sl_rel = i64 (g_file_off t - base), sl_nbytes = g_nbytes t, sl_dtype = g_dtype t,
                      sl_in = shape_at t 0, sl_out = (if length (g_shape t) > 1 then shape_at t 1 else 1)\<rparr>)
       (gguf_tensor_find g (ascii (''blk.'' @ dec_nat L @ ''.'' @ suffix @ ''.weight'')))"

definition bind_layer :: "gguf \<Rightarrow> nat \<Rightarrow> (eng_block \<times> layer_slots) option" where
  "bind_layer g L =
     (case layer_span g L of None \<Rightarrow> None
      | Some (off, len) \<Rightarrow>
          (case map (\<lambda>nm. bind_slot g nm L off)
             [''attn_norm'', ''attn_q'', ''attn_k'', ''attn_v'', ''attn_q_norm'', ''attn_k_norm'', ''attn_output'',
              ''ffn_norm'', ''ffn_gate'', ''ffn_up'', ''ffn_down''] of
             [Some an, Some q, Some k, Some v, Some qn, Some kn, Some ao, Some fn, Some fg, Some fu, Some fd] \<Rightarrow>
               Some (\<lparr>b_off = off, b_nbytes = len\<rparr>,
                 \<lparr>ls_attn_norm = an, ls_attn_q = q, ls_attn_k = k, ls_attn_v = v, ls_attn_q_norm = qn,
                  ls_attn_k_norm = kn, ls_attn_out = ao, ls_ffn_norm = fn, ls_ffn_gate = fg, ls_ffn_up = fu,
                  ls_ffn_down = fd\<rparr>)
           | _ \<Rightarrow> None))"

fun bind_layers :: "gguf \<Rightarrow> nat list \<Rightarrow> (eng_block \<times> layer_slots) list option" where
  "bind_layers g [] = Some []"
| "bind_layers g (L # Ls) =
     (case bind_layer g L of None \<Rightarrow> None
      | Some b \<Rightarrow> map_option (\<lambda>bs. b # bs) (bind_layers g Ls))"

text \<open>Bytes of a row, as the residency decision and the decode step compute them.\<close>

definition head_row :: "('f, 'd) qenv \<Rightarrow> int \<Rightarrow> int \<Rightarrow> int" where
  "head_row env dt d = (case quant_ops env dt of Some q \<Rightarrow> the (qo_row_bytes q) d | None \<Rightarrow> d * 4)"

text \<open>Bytes of a row, as the buffers are sized.\<close>

definition buf_row :: "('f, 'd) qenv \<Rightarrow> int \<Rightarrow> int \<Rightarrow> int" where
  "buf_row env dt d = (case quant_ops env dt of Some q \<Rightarrow> the (qo_row_bytes q) d | None \<Rightarrow> eng_dtype_row_bytes dt d)"

definition want_lm :: "string option \<Rightarrow> int \<Rightarrow> int \<Rightarrow> int \<Rightarrow> int \<Rightarrow> bool" where
  "want_lm force have' lm_need n_layers big_layer =
     (case force of
        Some (c # cs) \<Rightarrow>
          if c = CHR ''0'' \<or> c = CHR ''1''
          then c = CHR ''1'' \<and> \<not> have' < i64 (lm_need + big_layer)
          else have' \<ge> i64 (lm_need + i64 (c_div n_layers 2 * big_layer))
      | _ \<Rightarrow> have' \<ge> i64 (lm_need + i64 (c_div n_layers 2 * big_layer)))"

definition head_chunk_of :: "int \<Rightarrow> int \<Rightarrow> int" where
  "head_chunk_of hrow vocab =
     (let c = i32 (c_div (16 * 2 ^ 20) (if hrow > 0 then hrow else 1));
          c = (if c < 1 then 1 else c)
      in if c > vocab then vocab else c)"

text \<open>The scratch arrays, all zeroed.\<close>

definition fresh_work :: "('f, 'd) qenv \<Rightarrow> eng_streamer \<Rightarrow> int \<Rightarrow> int \<Rightarrow> int \<Rightarrow> int \<Rightarrow> int \<Rightarrow> int \<Rightarrow> int \<Rightarrow> int \<Rightarrow> int \<Rightarrow> 'f workset" where
  "fresh_work env st dm nh nkv hw ff vocab cl rowb headb =
     (let z = (\<lambda>n. replicate (nat n) (f_of_int (q_fp env) 0)) in
      \<lparr>w_stream = st, w_rowbuf = replicate (nat rowb) 0, w_headbuf = replicate (nat headb) 0, w_x = z dm, w_xn = z dm,
       w_q = z (nh * hw), w_k = z (nkv * hw), w_v = z (nkv * hw), w_att = z (nh * hw), w_gate = z ff, w_up = z ff,
       w_ffn = z dm, w_scores = z (cl + 1), w_logits = z vocab, w_lmhead_bytes = 0, w_steps = 0, w_logit_steps = 0\<rparr>)"

text \<open>
  The dimensions and the two scalars.  A key that is missing leaves the value of the key before it
  in \<open>v\<close>, and a scalar 0.
\<close>

definition load_dims :: "gguf \<Rightarrow> int \<times> int \<times> int \<times> int \<times> int \<times> int \<times> int" where
  "load_dims g =
     (let key = (\<lambda>v k. case gguf_i64 g (ascii (''qwen3.'' @ k)) of None \<Rightarrow> v | Some x \<Rightarrow> x);
          v = key 0 ''block_count''; nl = i32 v; v = key v ''embedding_length''; dm = i32 v;
          v = key v ''attention.head_count''; nh = i32 v; v = key v ''attention.head_count_kv''; nkv = i32 v;
          v = key v ''attention.key_length''; hw = i32 v; v = key v ''feed_forward_length''; ff = i32 v;
          v = key v ''context_length''; cl = i32 v
      in (nl, dm, nh, nkv, hw, ff, cl))"

definition load_f32 :: "('f, 'd) qenv \<Rightarrow> gguf \<Rightarrow> string \<Rightarrow> 'f" where
  "load_f32 env g k = (case gguf_f32 env g (ascii (''qwen3.'' @ k)) of None \<Rightarrow> f_of_int (q_fp env) 0 | Some x \<Rightarrow> x)"

text \<open>
  \<open>alloc_ok n\<close>: an array of \<open>n\<close> floats.  \<open>budget\<close> is the plan's stream budget when there is a plan,
  \<open>force\<close> the value of \<open>ENG_LM_RESIDENT\<close>, \<open>sys\<close> what the system answers to the streamer's construction.
\<close>

definition alloc_ok :: "int \<Rightarrow> bool" where
  "alloc_ok n \<longleftrightarrow> 0 \<le> n \<and> n < 2 ^ 61"

definition qwen3_load ::
  "('f, 'd) qenv \<Rightarrow> gguf \<Rightarrow> int option \<Rightarrow> string option \<Rightarrow> stream_env \<Rightarrow> ('f eng_model, unit) outcome" where
  "qwen3_load env g budget force sys =
     (let (nl, dm, nh, nkv, hw, ff, cl) = load_dims g
      in case (gguf_tensor_find g (ascii ''token_embd.weight''), gguf_tensor_find g (ascii ''output.weight''),
               gguf_tensor_find g (ascii ''output_norm.weight'')) of
           (Some emb, Some lmh, Some onm) \<Rightarrow>
             let vocab = i32 (shape_at emb 1) in
             if nkv = 0 then Fault
             else if c_mod nh nkv \<noteq> 0 then Err ()
             else if i32 (nh * hw) \<noteq> dm then Err ()
             else (case bind_layers g [0..<nat nl] of None \<Rightarrow> Err ()
               | Some bs \<Rightarrow>
                   let blocks = map fst bs;
                       lm_need = i64 (vocab * head_row env (g_dtype lmh) dm);
                       big_layer = foldl (\<lambda>big b. if b_nbytes b > big then b_nbytes b else big) 0 blocks;
                       have' = (case budget of Some b \<Rightarrow> b | None \<Rightarrow> 512 * 2 ^ 20);
                       lm = want_lm force have' lm_need nl big_layer
                   in case eng_streamer_create blocks (i64 (have' - (if lm then lm_need else 0))) 0 2 True (- 1) sys of
                        None \<Rightarrow> Err ()
                      | Some st \<Rightarrow>
                          let r = store_read env (g_file_off onm) (g_nbytes onm);
                              erow = buf_row env (g_dtype emb) dm; hrow = buf_row env (g_dtype lmh) dm;
                              chunk = head_chunk_of hrow vocab;
                              rl = store_read env (g_file_off lmh) lm_need;
                              res = (if lm \<and> \<not> lm_need < 0 \<and> rr_ret rl = lm_need then Some (rr_buf rl) else None)
                          in if g_nbytes onm < 0 \<or> rr_ret r \<noteq> g_nbytes onm \<or> erow < 0 \<or> chunk * hrow < 0 then Err ()
                             else if \<not> list_all alloc_ok [dm, nh * hw, nkv * hw, ff, cl + 1, vocab] then Err ()
                             else Ok \<lparr>md_n_layers = nl, md_d_model = dm, md_n_heads = nh, md_n_kv = nkv,
                                    md_head_dim = hw, md_d_ff = ff, md_vocab = vocab, md_ctx_max = cl,
                                    md_eps = load_f32 env g ''attention.layer_norm_rms_epsilon'',
                                    md_rope_theta = load_f32 env g ''rope.freq_base'', md_slot = map snd bs,
                                    md_out_norm = rr_buf r, md_embd = emb, md_lm_head = lmh, md_head_chunk = chunk,
                                    md_lm_resident = res, md_lm_bytes = (if res = None then 0 else lm_need),
                                    md_work = fresh_work env st dm nh nkv hw ff vocab cl erow (chunk * hrow)\<rparr>)
         | _ \<Rightarrow> Err ())"

section \<open>Sequence state\<close>

definition qwen3_state_create :: "('f, 'd) qenv \<Rightarrow> 'f eng_model \<Rightarrow> int \<Rightarrow> 'f eng_seq_state option" where
  "qwen3_state_create env m context =
     (if context \<le> 0 then None
      else let n = (md_n_layers m * context * i32 (md_n_kv m * md_head_dim m)) mod 2 ^ 64;
               z = replicate (nat n) (f_of_int (q_fp env) 0)
           in if \<not> alloc_ok n then None else Some \<lparr>sq_context = context, sq_n_seen = 0, sq_kc = z, sq_vc = z\<rparr>)"

definition qwen3_state_bytes :: "'f eng_model \<Rightarrow> int \<Rightarrow> int" where
  "qwen3_state_bytes m context =
     i64 (i64 (i64 (i64 (i64 (2 * md_n_layers m) * context) * md_n_kv m) * md_head_dim m) * 4)"

section \<open>Forward\<close>

abbreviation "nlay m \<equiv> nat (md_n_layers m)"
abbreviation "dm m \<equiv> nat (md_d_model m)"
abbreviation "nhd m \<equiv> nat (md_n_heads m)"
abbreviation "nkv m \<equiv> nat (md_n_kv m)"
abbreviation "hdim m \<equiv> nat (md_head_dim m)"
abbreviation "dff m \<equiv> nat (md_d_ff m)"
abbreviation "kvw m \<equiv> nkv m * hdim m"

text \<open>\<open>ys\<close> written to the front of \<open>y\<close> by a product that reads \<open>nin\<close> entries of \<open>x\<close>.\<close>

definition put_rows :: "'f list \<Rightarrow> nat \<Rightarrow> 'f list \<Rightarrow> 'f list \<Rightarrow> ('f list, unit) outcome" where
  "put_rows x nin y ys = (if length x < nin \<or> length y < length ys then Fault else Ok (store_at 0 ys y))"

definition project :: "('f, 'd) qenv \<Rightarrow> 'f list \<Rightarrow> 'f list \<Rightarrow> byte list \<Rightarrow> slot \<Rightarrow> ('f list, unit) outcome" where
  "project env y x base s =
     (let nin = nat (i32 (sl_in s)); nout = nat (i32 (sl_out s)) in
      if sl_dtype s = ENG_DT_F32
      then case f32_at (q_fp env) base (sl_rel s) (nin * nout) of
             None \<Rightarrow> Fault
           | Some W \<Rightarrow> put_rows x nin y (eng_matmul_f32 (q_fp env) (q_impl env) x W nin nout ENG_NUM_FAST)
      else case eng_matmul_quant (q_fp env) (quant_ops env (sl_dtype s)) x (drop (nat (sl_rel s)) base) None nin nout of
             None \<Rightarrow> Err ()
           | Some ys \<Rightarrow>
               if sl_rel s < 0 \<or> nat (sl_rel s) + nout * nat (head_row env (sl_dtype s) (int nin)) > length base then Fault
               else put_rows x nin y ys)"

text \<open>Store the result of a projection in a scratch array, or stop with the state as it is.\<close>

fun set_buf :: "('a, unit) outcome \<Rightarrow> ('a \<Rightarrow> 'w \<Rightarrow> 'w) \<Rightarrow> 'w \<Rightarrow> ('w, 'w) outcome" where
  "set_buf (Ok v) upd w = Ok (upd v w)"
| "set_buf (Err _) upd w = Err w"
| "set_buf Fault upd w = Fault"

definition each_head :: "nat \<Rightarrow> nat \<Rightarrow> ('f list \<Rightarrow> 'f list) \<Rightarrow> 'f list \<Rightarrow> 'f list" where
  "each_head nheads hw f v = foldl (\<lambda>v h. store_at (h * hw) (f (take hw (drop (h * hw) v))) v) v [0..<nheads]"

definition head_norm :: "('f, 'd) fpu \<Rightarrow> nat \<Rightarrow> nat \<Rightarrow> 'f list \<Rightarrow> 'f \<Rightarrow> 'f list \<Rightarrow> 'f list" where
  "head_norm fp nheads hw w eps v = each_head nheads hw (\<lambda>x. eng_rmsnorm fp x w hw eps) v"

definition rope_heads :: "('f, 'd) fpu \<Rightarrow> nat \<Rightarrow> nat \<Rightarrow> int \<Rightarrow> 'f \<Rightarrow> 'f list \<Rightarrow> 'f list" where
  "rope_heads fp nheads hw pos theta v = each_head nheads hw (\<lambda>x. eng_rope fp x hw pos theta ENG_ROPE_HALVED) v"

definition embed_token :: "('f, 'd) qenv \<Rightarrow> 'f eng_model \<Rightarrow> nat \<Rightarrow> 'f workset \<Rightarrow> ('f workset, 'f workset) outcome" where
  "embed_token env m token w =
     (let emb = md_embd m; rb = head_row env (g_dtype emb) (md_d_model m);
          r = store_read env (g_file_off emb + int token * rb) rb
      in case quant_ops env (g_dtype emb) of
           Some q \<Rightarrow>
             if length (w_rowbuf w) < length (rr_buf r) then Fault
             else let w = w\<lparr>w_rowbuf := store_at 0 (rr_buf r) (w_rowbuf w)\<rparr>
                  in if rr_ret r \<noteq> rb then Err w
                     else set_buf (put_rows [] 0 (w_x w) (the (qo_dequant_row q) (w_rowbuf w) [] (dm m)))
                            (\<lambda>v w. w\<lparr>w_x := v\<rparr>) w
         | None \<Rightarrow>
             (case set_buf (put_rows [] 0 (w_x w) (floats (q_fp env) (rr_buf r) (length (rr_buf r) div 4)))
                     (\<lambda>v w. w\<lparr>w_x := v\<rparr>) w of
                Ok w \<Rightarrow> if rr_ret r \<noteq> rb then Err w else Ok w
              | r' \<Rightarrow> r'))"

definition attn_qkv :: "('f, 'd) qenv \<Rightarrow> 'f eng_model \<Rightarrow> layer_slots \<Rightarrow> byte list \<Rightarrow> nat \<Rightarrow> 'f workset \<Rightarrow> ('f workset, 'f workset) outcome" where
  "attn_qkv env m sl base pos w =
     (let fp = q_fp env; hw = hdim m in
      case f32_at fp base (sl_rel (ls_attn_norm sl)) (dm m) of
        None \<Rightarrow> Fault
      | Some wn \<Rightarrow>
          let w = w\<lparr>w_xn := eng_rmsnorm fp (w_x w) wn (dm m) (md_eps m)\<rparr> in
          obind (set_buf (project env (w_q w) (w_xn w) base (ls_attn_q sl)) (\<lambda>v w. w\<lparr>w_q := v\<rparr>) w) (\<lambda>w.
          obind (set_buf (project env (w_k w) (w_xn w) base (ls_attn_k sl)) (\<lambda>v w. w\<lparr>w_k := v\<rparr>) w) (\<lambda>w.
          obind (set_buf (project env (w_v w) (w_xn w) base (ls_attn_v sl)) (\<lambda>v w. w\<lparr>w_v := v\<rparr>) w) (\<lambda>w.
          case (f32_at fp base (sl_rel (ls_attn_q_norm sl)) hw, f32_at fp base (sl_rel (ls_attn_k_norm sl)) hw) of
            (Some wq, Some wk) \<Rightarrow>
              let w = w\<lparr>w_q := head_norm fp (nhd m) hw wq (md_eps m) (w_q w)\<rparr>;
                  w = w\<lparr>w_k := head_norm fp (nkv m) hw wk (md_eps m) (w_k w)\<rparr>;
                  w = w\<lparr>w_q := rope_heads fp (nhd m) hw (int pos) (md_rope_theta m) (w_q w)\<rparr>;
                  w = w\<lparr>w_k := rope_heads fp (nkv m) hw (int pos) (md_rope_theta m) (w_k w)\<rparr>
              in Ok w
          | _ \<Rightarrow> Fault))))"

definition kv_append :: "'f eng_model \<Rightarrow> nat \<Rightarrow> nat \<Rightarrow> 'f workset \<Rightarrow> 'f eng_seq_state \<Rightarrow> 'f eng_seq_state option" where
  "kv_append m L pos w s =
     (let off = (L * nat (sq_context s) + pos) * kvw m in
      if off + kvw m > length (sq_kc s) \<or> off + kvw m > length (sq_vc s) then None
      else Some (s\<lparr>sq_kc := store_at off (take (kvw m) (w_k w)) (sq_kc s),
                   sq_vc := store_at off (take (kvw m) (w_v w)) (sq_vc s)\<rparr>))"

definition attend_head :: "('f, 'd) qenv \<Rightarrow> 'f eng_model \<Rightarrow> 'f eng_seq_state \<Rightarrow> nat \<Rightarrow> nat \<Rightarrow> 'f workset \<Rightarrow> nat \<Rightarrow> 'f workset" where
  "attend_head env m s L pos w h =
     (let fp = q_fp env; hw = hdim m;
          scale = f_div fp (f_of_int fp 1) (f_sqrt fp (f_of_int fp (int hw)));
          kvh = h div (nhd m div nkv m);
          cell = (\<lambda>c t. drop ((L * nat (sq_context s) + t) * kvw m + kvh * hw) c);
          qh = drop (h * hw) (w_q w);
          sc = lanes (pos + 1) (\<lambda>t _. f_mul fp (eng_dot_f32 fp (q_impl env) qh (cell (sq_kc s) t) hw ENG_NUM_FAST) scale)
                 (w_scores w);
          sc = eng_softmax fp sc (pos + 1);
          oh = foldl (\<lambda>oh t. lanes hw (\<lambda>d v. f_add fp v (f_mul fp (sc ! t) (cell (sq_vc s) t ! d))) oh)
                 (replicate hw (f_of_int fp 0)) [0..<pos + 1]
      in w\<lparr>w_scores := sc, w_att := store_at (h * hw) oh (w_att w)\<rparr>)"

definition attend :: "('f, 'd) qenv \<Rightarrow> 'f eng_model \<Rightarrow> 'f eng_seq_state \<Rightarrow> nat \<Rightarrow> nat \<Rightarrow> 'f workset \<Rightarrow> 'f workset option" where
  "attend env m s L pos w =
     (if nhd m > 0 \<and> length (w_scores w) < pos + 1 then None
      else Some (foldl (attend_head env m s L pos) w [0..<nhd m]))"

definition add_residual :: "('f, 'd) qenv \<Rightarrow> 'f eng_model \<Rightarrow> 'f workset \<Rightarrow> 'f workset" where
  "add_residual env m w = w\<lparr>w_x := lanes (dm m) (\<lambda>i v. f_add (q_fp env) v (w_ffn w ! i)) (w_x w)\<rparr>"

definition out_mlp :: "('f, 'd) qenv \<Rightarrow> 'f eng_model \<Rightarrow> layer_slots \<Rightarrow> byte list \<Rightarrow> 'f workset \<Rightarrow> ('f workset, 'f workset) outcome" where
  "out_mlp env m sl base w =
     (let fp = q_fp env; ffn = (\<lambda>v w. w\<lparr>w_ffn := v\<rparr>) in
      obind (set_buf (project env (w_ffn w) (w_att w) base (ls_attn_out sl)) ffn w) (\<lambda>w.
      let w = add_residual env m w in
      case f32_at fp base (sl_rel (ls_ffn_norm sl)) (dm m) of
        None \<Rightarrow> Fault
      | Some wn \<Rightarrow>
          let w = w\<lparr>w_xn := eng_rmsnorm fp (w_x w) wn (dm m) (md_eps m)\<rparr> in
          obind (set_buf (project env (w_gate w) (w_xn w) base (ls_ffn_gate sl)) (\<lambda>v w. w\<lparr>w_gate := v\<rparr>) w) (\<lambda>w.
          obind (set_buf (project env (w_up w) (w_xn w) base (ls_ffn_up sl)) (\<lambda>v w. w\<lparr>w_up := v\<rparr>) w) (\<lambda>w.
          let w = w\<lparr>w_gate := lanes (dff m) (\<lambda>i v. f_mul fp (silu1 fp v) (w_up w ! i)) (w_gate w)\<rparr> in
          obind (set_buf (project env (w_ffn w) (w_gate w) base (ls_ffn_down sl)) ffn w) (\<lambda>w.
          Ok (add_residual env m w))))))"

fun with_seq :: "('w, 'w) outcome \<Rightarrow> 's \<Rightarrow> ('w \<times> 's, 'w \<times> 's) outcome" where
  "with_seq (Ok w) s = Ok (w, s)"
| "with_seq (Err w) s = Err (w, s)"
| "with_seq Fault s = Fault"

definition layer_compute :: "('f, 'd) qenv \<Rightarrow> 'f eng_model \<Rightarrow> nat \<Rightarrow> nat \<Rightarrow> byte list \<Rightarrow> 'f workset \<times> 'f eng_seq_state \<Rightarrow>
    ('f workset \<times> 'f eng_seq_state, 'f workset \<times> 'f eng_seq_state) outcome" where
  "layer_compute env m L pos base = (\<lambda>(w, s).
     let sl = md_slot m ! L in
     obind (with_seq (attn_qkv env m sl base pos w) s) (\<lambda>(w, s).
     case kv_append m L pos w s of
       None \<Rightarrow> Fault
     | Some s \<Rightarrow>
         (case attend env m s L pos w of
            None \<Rightarrow> Fault
          | Some w \<Rightarrow> with_seq (out_mlp env m sl base w) s)))"

definition layer_step :: "('f, 'd) qenv \<Rightarrow> 'f eng_model \<Rightarrow> nat \<Rightarrow> (nat \<Rightarrow> bool) \<Rightarrow> 'f workset \<times> 'f eng_seq_state \<Rightarrow> nat \<Rightarrow>
    ('f workset \<times> 'f eng_seq_state, 'f workset \<times> 'f eng_seq_state) outcome" where
  "layer_step env m pos rdr = (\<lambda>(w, s) L.
     (case eng_streamer_get (stream_rd env) (w_stream w) L of
        (None, st) \<Rightarrow> Err (w\<lparr>w_stream := st\<rparr>, s)
      | (Some p, st) \<Rightarrow>
          let st = eng_streamer_prefetch st (if L + 1 < nlay m then L + 1 else 0);
              st = (if rdr L then io_main (stream_rd env) st else st)
          in layer_compute env m L pos (block_at st p L) (w\<lparr>w_stream := st\<rparr>, s)))"

fun run_layers :: "('f, 'd) qenv \<Rightarrow> 'f eng_model \<Rightarrow> nat \<Rightarrow> (nat \<Rightarrow> bool) \<Rightarrow> nat list \<Rightarrow> 'f workset \<times> 'f eng_seq_state \<Rightarrow>
    ('f workset \<times> 'f eng_seq_state, 'f workset \<times> 'f eng_seq_state) outcome" where
  "run_layers env m pos rdr [] ws = Ok ws"
| "run_layers env m pos rdr (L # Ls) ws = obind (layer_step env m pos rdr ws L) (run_layers env m pos rdr Ls)"

text \<open>The product of \<open>n\<close> rows of the LM head at \<open>bytes\<close>, stored from \<open>logits + r0\<close>.\<close>

definition head_rows :: "('f, 'd) qenv \<Rightarrow> 'f eng_model \<Rightarrow> nat \<Rightarrow> nat \<Rightarrow> byte list \<Rightarrow> 'f workset \<Rightarrow> ('f workset, 'f workset) outcome" where
  "head_rows env m r0 n bytes w =
     (let fp = q_fp env; dt = g_dtype (md_lm_head m);
          put = (\<lambda>ys. if r0 + n > length (w_logits w) then Fault else Ok (w\<lparr>w_logits := store_at r0 ys (w_logits w)\<rparr>))
      in case quant_ops env dt of
           Some q \<Rightarrow>
             (case eng_matmul_quant fp (Some q) (w_xn w) bytes None (dm m) n of
                None \<Rightarrow> Err w
              | Some ys \<Rightarrow> if length bytes < n * nat (head_row env dt (md_d_model m)) then Fault else put ys)
         | None \<Rightarrow>
             (case f32_at fp bytes 0 (dm m * n) of
                None \<Rightarrow> Fault
              | Some W \<Rightarrow> put (eng_matmul_f32 fp (q_impl env) (w_xn w) W (dm m) n ENG_NUM_FAST)))"

text \<open>
  The chunked product.  \<open>head_chunk\<close> is at least 1 whenever the vocabulary is not empty, so the test
  on \<open>chunk\<close> only makes the recursion total.
\<close>

function lm_chunks :: "('f, 'd) qenv \<Rightarrow> 'f eng_model \<Rightarrow> nat \<Rightarrow> nat \<Rightarrow> nat \<Rightarrow> 'f workset \<Rightarrow> ('f workset, 'f workset) outcome" where
  "lm_chunks env m chunk vocab r0 w =
     (if 0 < chunk \<and> r0 < vocab
      then let n = (if r0 + chunk > vocab then vocab - r0 else chunk);
               hrow = head_row env (g_dtype (md_lm_head m)) (md_d_model m);
               want = int n * hrow;
               r = store_read env (g_file_off (md_lm_head m) + int r0 * hrow) want
           in if length (w_headbuf w) < length (rr_buf r) then Fault
              else let w = w\<lparr>w_headbuf := store_at 0 (rr_buf r) (w_headbuf w)\<rparr>
                   in if rr_ret r \<noteq> want then Err w
                      else obind (head_rows env m r0 n (w_headbuf w) (w\<lparr>w_lmhead_bytes := i64 (w_lmhead_bytes w + want)\<rparr>))
                             (lm_chunks env m chunk vocab (r0 + chunk))
      else Ok w)"
  by pat_completeness auto
termination by (relation "measure (\<lambda>(env, m, chunk, vocab, r0, w). vocab - r0)") auto

declare lm_chunks.simps [simp del]

definition lm_head :: "('f, 'd) qenv \<Rightarrow> 'f eng_model \<Rightarrow> 'f workset \<Rightarrow> ('f workset, 'f workset) outcome" where
  "lm_head env m w =
     (case f32_at (q_fp env) (md_out_norm m) 0 (dm m) of
        None \<Rightarrow> Fault
      | Some wn \<Rightarrow>
          let w = w\<lparr>w_xn := eng_rmsnorm (q_fp env) (w_x w) wn (dm m) (md_eps m)\<rparr> in
          obind (case md_lm_resident m of
                   Some bytes \<Rightarrow> head_rows env m 0 (nat (md_vocab m)) bytes w
                 | None \<Rightarrow> lm_chunks env m (nat (md_head_chunk m)) (nat (md_vocab m)) 0 w)
            (\<lambda>w. Ok (w\<lparr>w_logit_steps := w_logit_steps w + 1\<rparr>)))"

definition ENG_DEC_LOGITS :: "32 word" where "ENG_DEC_LOGITS = push_bit 0 1"

text \<open>Put the buffers back into the model.\<close>

fun store_work :: "'f eng_model \<Rightarrow> ('f workset \<times> 's, 'f workset \<times> 's) outcome \<Rightarrow> ('f eng_model \<times> 's, 'f eng_model \<times> 's) outcome" where
  "store_work m (Ok (w, s)) = Ok (m\<lparr>md_work := w\<rparr>, s)"
| "store_work m (Err (w, s)) = Err (m\<lparr>md_work := w\<rparr>, s)"
| "store_work m Fault = Fault"

definition qwen3_decode :: "('f, 'd) qenv \<Rightarrow> (nat \<Rightarrow> bool) \<Rightarrow> 'f eng_model \<Rightarrow> 'f eng_seq_state \<Rightarrow> int \<Rightarrow> int \<Rightarrow> 32 word \<Rightarrow>
    ('f eng_model \<times> 'f eng_seq_state, 'f eng_model \<times> 'f eng_seq_state) outcome" where
  "qwen3_decode env rdr m s token pos flags =
     (if token < 0 \<or> token \<ge> md_vocab m then Err (m, s)
      else if pos < 0 \<or> pos \<ge> sq_context s then Err (m, s)
      else store_work m
        (obind (with_seq (embed_token env m (nat token) (md_work m)) s) (\<lambda>ws.
         obind (run_layers env m (nat pos) rdr [0..<nlay m] ws) (\<lambda>(w, s).
         obind (if flags AND ENG_DEC_LOGITS \<noteq> 0 then with_seq (lm_head env m w) s else Ok (w, s)) (\<lambda>(w, s).
         Ok (w\<lparr>w_steps := w_steps w + 1\<rparr>,
             s\<lparr>sq_n_seen := (if pos + 1 > sq_n_seen s then pos + 1 else sq_n_seen s)\<rparr>))))))"

section \<open>Reports\<close>

definition qwen3_logits :: "'f eng_model \<Rightarrow> 'f list \<times> int" where
  "qwen3_logits m = (w_logits (md_work m), md_vocab m)"

definition qwen3_lmhead_resident :: "'f eng_model \<Rightarrow> bool" where
  "qwen3_lmhead_resident m \<longleftrightarrow> md_lm_resident m \<noteq> None"

definition qwen3_profile_reset :: "'f eng_model \<Rightarrow> 'f eng_model" where
  "qwen3_profile_reset m = m\<lparr>md_work := (md_work m)\<lparr>w_lmhead_bytes := 0, w_steps := 0, w_logit_steps := 0\<rparr>\<rparr>"

record eng_run_stats =
  rs_bytes_read :: int
  rs_steps :: nat
  rs_logit_steps :: nat
  rs_pinned_blocks :: nat
  rs_ring_slots :: nat
  rs_async_reader :: bool

definition qwen3_stats :: "'f eng_model \<Rightarrow> eng_run_stats" where
  "qwen3_stats m =
     (let w = md_work m; st = w_stream w in
      \<lparr>rs_bytes_read = i64 (int (s_bytes_read st) + w_lmhead_bytes w), rs_steps = w_steps w,
       rs_logit_steps = w_logit_steps w, rs_pinned_blocks = s_npin st, rs_ring_slots = s_nslot st,
       rs_async_reader = (s_io st \<noteq> None)\<rparr>)"

end
