(* ===== verification/Streamer_Walk.thy ===== *)
theory Streamer_Walk
  imports Streamer_Props
begin

text \<open>
  The streamer under the access pattern it is built for: blocks requested in cyclic order, the next
  one hinted in advance, with the reader thread running at any moment.  Both clients use it so
  (\<^verbatim>\<open>src/models/qwen3/qwen3.c\<close>, \<^verbatim>\<open>src/io/k3_trunk.c\<close>), over a ring of two slots.  \<open>walk_ok\<close> is what this
  order maintains: either every streamed block has found a slot, or the slots hold the blocks just
  walked over in the order of the ring, so that the slot a prefetch claims is never the one in use.
\<close>

section \<open>The walk\<close>

definition wnext :: "nat \<Rightarrow> nat \<Rightarrow> nat" where
  "wnext n b = (if b + 1 < n then b + 1 else 0)"

definition wpred :: "nat \<Rightarrow> nat \<Rightarrow> nat \<Rightarrow> nat" where
  "wpred np n b = (if b = np then n - 1 else b - 1)"

abbreviation blkof :: "eng_streamer \<Rightarrow> nat \<Rightarrow> nat option" where
  "blkof s i \<equiv> s_block_of s ! i"

abbreviation spred :: "eng_streamer \<Rightarrow> nat \<Rightarrow> nat" where
  "spred s b \<equiv> wpred (s_npin s) (length (s_blk s)) b"

definition all_in :: "eng_streamer \<Rightarrow> bool" where
  "all_in s \<longleftrightarrow> (\<forall>c. s_npin s \<le> c \<and> c < length (s_blk s) \<longrightarrow> Some c \<in> set (s_block_of s))"

definition walk_shape :: "eng_streamer \<Rightarrow> nat \<Rightarrow> bool" where
  "walk_shape s b \<longleftrightarrow> s_npin s \<le> b \<and> b < length (s_blk s) \<and> Some b \<notin> set (s_block_of s) \<and>
     (case outstanding s of
        None \<Rightarrow> blkof s (1 - s_ring s) \<in> {None, Some (spred s b)} \<and> blkof s (s_ring s) \<in> {None, Some (spred s (spred s b))}
      | Some (b', i) \<Rightarrow> b' = b \<and> i = 1 - s_ring s \<and> blkof s (s_ring s) \<in> {None, Some (spred s b)})"

definition walk_ok :: "eng_streamer \<Rightarrow> nat \<Rightarrow> bool" where
  "walk_ok s b \<longleftrightarrow> s_io s = None \<or> s_nslot s = 2 \<and>
     (outstanding s = None \<and> all_in s \<or>
      (if b < s_npin s then outstanding s = None \<and> walk_shape s (s_npin s) else walk_shape s b))"

text \<open>After the block is obtained and before the next prefetch.\<close>

definition walk_got :: "eng_streamer \<Rightarrow> stream_ptr \<Rightarrow> nat \<Rightarrow> bool" where
  "walk_got s q b \<longleftrightarrow> outstanding s = None \<and>
     (all_in s \<or> b < s_npin s \<and> (\<exists>pad. q = InPin b pad) \<and> walk_shape s (s_npin s) \<or>
      s_npin s \<le> b \<and> b < length (s_blk s) \<and> (\<exists>pad. q = InRing (1 - s_ring s) pad) \<and> blkof s (1 - s_ring s) = Some b \<and>
      blkof s (s_ring s) \<in> {None, Some (spred s b)})"

section \<open>Obtaining a block\<close>

lemma get_pinned_maps:
  assumes "get_pinned rd s b = (Some q, s')"
  shows "(\<exists>pad. q = InPin b pad) \<and> s_block_of s' = s_block_of s \<and> s_ring s' = s_ring s \<and> s_io s' = s_io s"
  using assms by (auto simp: get_pinned_def load_block_def Let_def split: if_splits option.splits)

lemma walk_shape_cong:
  assumes "s_block_of t = s_block_of s" "s_ring t = s_ring s" "s_io t = s_io s" "geometry t = geometry s"
  shows "walk_shape t b = walk_shape s b \<and> all_in t = all_in s \<and> outstanding t = outstanding s"
proof -
  have o: "outstanding t = outstanding s" using assms(3) by (simp add: outstanding_def)
  have g: "s_npin t = s_npin s" "s_blk t = s_blk s" using assms(4) by (simp_all add: geometry_def)
  show ?thesis unfolding walk_shape_def all_in_def assms(1,2) o g by simp
qed

lemma ready_get_maps:
  assumes inv: "stream_inv img s" and rdy: "walk_ready s b" and b: "b < length (s_blk s)"
    and g: "eng_streamer_get rd s b = (Some q, s')"
  shows "s_block_of s' = (s_block_of s)[case outstanding s of None \<Rightarrow> s_ring s | Some (_, j) \<Rightarrow> j := Some b] \<and>
    (\<exists>pad. q = InRing (case outstanding s of None \<Rightarrow> s_ring s | Some (_, j) \<Rightarrow> j) pad) \<and>
    s_ring s' = (case outstanding s of None \<Rightarrow> (s_ring s + 1) mod s_nslot s | Some _ \<Rightarrow> s_ring s)"
proof -
  have np: "\<not> b < s_npin s" using rdy by (simp add: walk_ready_def)
  note i = invD [OF inv]
  note sh = shapeD [OF i(1)]
  show ?thesis
  proof (cases "outstanding s")
    case None
    then have "io_collect rd s b = (Nothing, s)"
      by (auto simp: io_collect_def outstanding_def split: option.splits if_splits)
    then have gr: "get_ring rd s b = (Some q, s')" using g np b by (simp add: eng_streamer_get_def)
    have nf: "find_slot (s_block_of s) b = None" using rdy by (simp add: find_slot_None walk_ready_def)
    obtain t where cl: "claim_slot s = (s_ring s, t)" by (simp add: claim_slot_eq)
    obtain ok u where ld: "load_ring rd t b (s_ring s) = (ok, u)" by fastforce
    have t: "s_block_of t = (s_block_of s)[s_ring s := None]" "s_nslot t = s_nslot s" "s_ring t = (s_ring s + 1) mod s_nslot s"
      using cl by (auto simp: claim_slot_eq)
    have u: "s_block_of u = s_block_of t" "s_ring u = s_ring t"
      using load_ring_frame(1) [OF ld] sh t by (auto simp: same_map_def)
    have "q = InRing (s_ring s) (s_slot_pad u ! s_ring s)" "s_ring s' = s_ring u"
      "s_block_of s' = (s_block_of u)[s_ring s := Some b]"
      using gr nf cl ld by (auto simp: get_ring_def split: if_splits)
    then show ?thesis using None t u by simp
  next
    case (Some bi)
    then obtain j where out: "outstanding s = Some (b, j)"
      using rdy by (auto simp: walk_ready_def split: prod.splits)
    obtain c t where c: "io_collect rd s b = (c, t)" by fastforce
    have "c \<noteq> Nothing"
      using c out by (auto simp: io_collect_def outstanding_def Let_def split: option.splits if_splits)
    then have landed: "c = Landed" using g np b c by (cases c) (auto simp: eng_streamer_get_def)
    from collect_slot [OF c [unfolded landed] out _ i(3)] b sh
    have "s_slot_of t ! b = Some j" "s_ring t = s_ring s" by auto
    moreover have "s_block_of t = (s_block_of s)[j := Some b]"
    proof -
      obtain io where io: "s_io s = Some io" "io_busy io \<or> io_done io" "io_block io = b" "io_slot io = j"
        using out by (auto simp: outstanding_def split: option.splits if_splits)
      define v where "v = (if io_done io then s else io_main rd s)"
      have v: "s_block_of v = s_block_of s"
        using io by (auto simp: v_def io_main_def load_ring_def load_block_def Let_def split: option.splits prod.splits)
      obtain io1 where io1: "s_io v = Some io1" "io_slot io1 = j"
        using io io_main_io_fields [OF io(1), of rd] by (cases "io_done io") (auto simp: v_def)
      show ?thesis using c landed io io1 v
        by (auto simp: io_collect_def Let_def v_def [symmetric] split: if_splits)
    qed
    ultimately show ?thesis using g np b c landed out by (auto simp: eng_streamer_get_def)
  qed
qed

lemma one_minus_ring: "i < (2::nat) \<Longrightarrow> (i + 1) mod 2 = 1 - i" "i < (2::nat) \<Longrightarrow> Suc i mod 2 = Suc 0 - i"
  by (cases i; auto)+

lemma ring_flip: "1 - i \<noteq> (i::nat)" "i \<noteq> 1 - (i::nat)" "i < (2::nat) \<Longrightarrow> 1 - (1 - i) = i" "1 - i < (2::nat)"
  by arith+

lemma shape_ready:
  assumes "walk_shape s b" "s_nslot s = 2" "stream_inv img s"
  shows "walk_ready s b"
proof -
  have "s_ring s < 2" using shapeD [OF invD(1) [OF assms(3)]] assms(2) by simp
  then have r: "s_ring s = (1 - s_ring s + 1) mod 2" by (cases "s_ring s") auto
  show ?thesis
  proof (cases "outstanding s")
    case None
    with assms(1) show ?thesis by (simp add: walk_shape_def walk_ready_def)
  next
    case (Some bi)
    obtain b' i where bi: "bi = (b', i)" by fastforce
    show ?thesis using assms(1) Some r unfolding walk_shape_def walk_ready_def assms(2) bi by simp
  qed
qed

lemma get_ring_got:
  assumes inv: "stream_inv img s" and w: "walk_shape s b" "s_nslot s = 2"
    and g: "eng_streamer_get rd s b = (Some q, s')"
  shows "walk_got s' q b"
proof -
  have rdy: "walk_ready s b" by (rule shape_ready [OF w inv])
  have b: "s_npin s \<le> b" "b < length (s_blk s)" using w by (auto simp: walk_shape_def)
  note sh = shapeD [OF invD(1) [OF inv]]
  have r: "s_ring s < 2" "length (s_block_of s) = 2" using sh w(2) by auto
  have geo: "s_blk s' = s_blk s" "s_npin s' = s_npin s"
    using get_geometry [of rd s b] g by (simp_all add: geometry_def)
  have out: "outstanding s' = None" using ready_get [OF inv rdy b(2) g] by blast
  note mp = ready_get_maps [OF inv rdy b(2) g]
  have "(\<exists>pad. q = InRing (1 - s_ring s') pad) \<and> blkof s' (1 - s_ring s') = Some b \<and>
      blkof s' (s_ring s') \<in> {None, Some (spred s b)}"
  proof (cases "outstanding s")
    case None
    with mp w(2) r have e: "s_block_of s' = (s_block_of s)[s_ring s := Some b]" "\<exists>pad. q = InRing (s_ring s) pad"
      "s_ring s' = 1 - s_ring s" by (simp_all add: one_minus_ring)
    have n: "1 - (1 - s_ring s) = s_ring s" "s_ring s \<noteq> 1 - s_ring s"
      using ring_flip(3) [OF r(1)] ring_flip(2) by blast+
    have "blkof s (1 - s_ring s) \<in> {None, Some (spred s b)}" using w(1) None by (simp add: walk_shape_def)
    then show ?thesis using e(2) r n unfolding e(1,3) n(1) by (simp del: One_nat_def)
  next
    case (Some bi)
    obtain b' i where bi: "bi = (b', i)" by fastforce
    with w(1) Some have i: "i = 1 - s_ring s" "blkof s (s_ring s) \<in> {None, Some (spred s b)}" by (auto simp: walk_shape_def)
    with mp Some bi have e: "s_block_of s' = (s_block_of s)[1 - s_ring s := Some b]" "\<exists>pad. q = InRing (1 - s_ring s) pad"
      "s_ring s' = s_ring s" by simp_all
    have n: "1 - s_ring s \<noteq> s_ring s" "1 - s_ring s < 2" by (rule ring_flip)+
    then show ?thesis using e(2) i(2) r unfolding e(1,3) by (simp del: One_nat_def)
  qed
  then show ?thesis using out b geo by (simp add: walk_got_def)
qed

lemma walk_get:
  assumes inv: "stream_inv img s" and w: "walk_ok s b" "s_io s \<noteq> None" and b: "b < length (s_blk s)"
    and g: "eng_streamer_get rd s b = (Some q, s')"
  shows "walk_got s' q b"
proof -
  have geo: "geometry s' = geometry s" using get_geometry [of rd s b] g by simp
  show ?thesis
  proof (cases "b < s_npin s")
    case True
    with g b have "get_pinned rd s b = (Some q, s')" by (simp add: eng_streamer_get_def)
    from get_pinned_maps [OF this] have e: "\<exists>pad. q = InPin b pad" "s_block_of s' = s_block_of s"
      "s_ring s' = s_ring s" "s_io s' = s_io s" by auto
    from w True have "outstanding s = None \<and> (all_in s \<or> walk_shape s (s_npin s))" by (auto simp: walk_ok_def)
    with walk_shape_cong [OF e(2-4) geo, of "s_npin s"] True geo e(1) show ?thesis
      by (auto simp: walk_got_def geometry_def)
  next
    case False
    with w consider "outstanding s = None" "all_in s" | "walk_shape s b" "s_nslot s = 2" by (auto simp: walk_ok_def)
    then show ?thesis
    proof cases
      case 1
      have "io_collect rd s b = (Nothing, s)"
        using 1(1) by (auto simp: io_collect_def outstanding_def split: option.splits if_splits)
      then have gr: "get_ring rd s b = (Some q, s')" using g False b by (simp add: eng_streamer_get_def)
      have "Some b \<in> set (s_block_of s)" using 1(2) False b by (simp add: all_in_def)
      then obtain i where "find_slot (s_block_of s) b = Some i" using find_slot_None by (metis option.exhaust)
      with gr have "s' = s\<lparr>s_hits := s_hits s + 1\<rparr>" by (auto simp: get_ring_def)
      with 1 show ?thesis by (simp add: walk_got_def all_in_def outstanding_def)
    next
      case 2
      show ?thesis by (rule get_ring_got [OF inv 2 g])
    qed
  qed
qed

section \<open>Issuing the next prefetch\<close>

lemma io_main_idle: "outstanding s = None \<Longrightarrow> io_main rd s = s"
  by (auto simp: io_main_def outstanding_def split: option.splits if_splits)

lemma io_main_maps:
  "s_block_of (io_main rd s) = s_block_of s \<and> s_ring (io_main rd s) = s_ring s \<and> outstanding (io_main rd s) = outstanding s
   \<and> (s_io (io_main rd s) = None \<longleftrightarrow> s_io s = None)"
  by (auto simp: io_main_def load_ring_def load_block_def outstanding_def Let_def split: option.splits prod.splits)

lemma walk_ok_io_main: "walk_ok s b \<Longrightarrow> walk_ok (io_main rd s) b"
proof -
  have e: "s_block_of (io_main rd s) = s_block_of s" "s_ring (io_main rd s) = s_ring s"
    "outstanding (io_main rd s) = outstanding s" "s_io (io_main rd s) = None \<longleftrightarrow> s_io s = None"
    using io_main_maps [of rd s] by auto
  have g: "s_npin (io_main rd s) = s_npin s" "s_blk (io_main rd s) = s_blk s" "s_nslot (io_main rd s) = s_nslot s"
    using io_main_geometry [of rd s] by (simp_all add: geometry_def)
  show "walk_ok s b \<Longrightarrow> walk_ok (io_main rd s) b"
    unfolding walk_ok_def walk_shape_def all_in_def e g .
qed

lemma prefetch_skip:
  assumes "c \<ge> length (s_blk s) \<or> c < s_npin s \<or> s_io s = None \<or> Some c \<in> set (s_block_of s)"
  shows "eng_streamer_prefetch s c = s"
  using assms by (auto simp: eng_streamer_prefetch_def split: option.splits)

lemma prefetch_claims:
  assumes "c < length (s_blk s)" "s_npin s \<le> c" "s_io s = Some io" "Some c \<notin> set (s_block_of s)" "outstanding s = None"
    "stream_inv img s"
  shows "outstanding (eng_streamer_prefetch s c) = Some (c, s_ring s)" "s_ring (eng_streamer_prefetch s c) = (s_ring s + 1) mod s_nslot s"
    "s_block_of (eng_streamer_prefetch s c) = (s_block_of s)[s_ring s := None]" "s_io (eng_streamer_prefetch s c) \<noteq> None"
proof -
  have so: "s_slot_of s ! c = None"
  proof (cases "s_slot_of s ! c")
    case (Some i)
    from stream_mapsD2 [OF invD(2) [OF assms(6)] assms(1,2) Some] shapeD [OF invD(1) [OF assms(6)]]
    have "Some c \<in> set (s_block_of s)" by (metis nth_mem)
    with assms(4) show ?thesis by simp
  qed
  have "\<not> io_busy io" "\<not> io_done io" using assms(3,5) by (auto simp: outstanding_def split: if_splits)
  then show "outstanding (eng_streamer_prefetch s c) = Some (c, s_ring s)" "s_ring (eng_streamer_prefetch s c) = (s_ring s + 1) mod s_nslot s"
    "s_block_of (eng_streamer_prefetch s c) = (s_block_of s)[s_ring s := None]" "s_io (eng_streamer_prefetch s c) \<noteq> None"
    using assms so by (simp_all add: eng_streamer_prefetch_def claim_slot_eq outstanding_def)
qed

lemma wpred_wnext:
  assumes "np \<le> b" "b < n" "np \<le> wnext n b"
  shows "wpred np n (wnext n b) = b"
  using assms by (auto simp: wpred_def wnext_def split: if_splits)

lemma wpred_bounds: "np \<le> b \<Longrightarrow> b < n \<Longrightarrow> np \<le> wpred np n b \<and> wpred np n b < n"
  by (auto simp: wpred_def)

text \<open>A block that is its own predecessor, or its predecessor's, is on a cycle of one or two.\<close>

lemma cycle_one:
  assumes "np \<le> b" "b < n" "wpred np n b = b" "np \<le> c" "c < n"
  shows "c = b"
  using assms by (auto simp: wpred_def split: if_splits)

lemma cycle_two:
  assumes "np \<le> b" "b < n" "wpred np n (wpred np n b) = b" "np \<le> c" "c < n"
  shows "c = b \<or> c = wpred np n b"
proof (cases "b = np")
  case True
  then have "n - 1 = np \<or> n - 1 = np + 1" using assms(2,3) by (auto simp: wpred_def split: if_splits)
  with True assms(4,5) show ?thesis by (auto simp: wpred_def)
next
  case False
  then have "b = np + 1 \<and> n = b + 1" using assms(1-3) by (auto simp: wpred_def split: if_splits)
  with assms(4,5) show ?thesis by (auto simp: wpred_def)
qed

lemma set_two:
  assumes "length xs = 2" "r < 2"
  shows "set xs = {xs ! (1 - r), xs ! r}"
proof -
  obtain x y where "xs = [x, y]" using assms(1) by (auto simp: numeral_2_eq_2 length_Suc_conv)
  then show ?thesis using assms(2) by (auto simp: less_2_cases_iff)
qed

text \<open>A claim from a state whose newest slot holds the predecessor keeps the shape.\<close>

lemma claim_shape:
  assumes inv: "stream_inv img s" and two: "s_nslot s = 2" and io: "s_io s = Some io" and out: "outstanding s = None"
    and c: "c < length (s_blk s)" "s_npin s \<le> c" "Some c \<notin> set (s_block_of s)"
    and o: "blkof s (1 - s_ring s) \<in> {None, Some (spred s c)}"
  shows "walk_shape (eng_streamer_prefetch s c) c"
proof -
  note cl = prefetch_claims [OF c(1,2) io c(3) out inv]
  have r: "s_ring s < 2" "length (s_block_of s) = 2" using shapeD [OF invD(1) [OF inv]] two by auto
  have geo: "s_blk (eng_streamer_prefetch s c) = s_blk s" "s_npin (eng_streamer_prefetch s c) = s_npin s"
    using prefetch_geometry [of s c] by (simp_all add: geometry_def)
  have ring: "s_ring (eng_streamer_prefetch s c) = 1 - s_ring s" using cl(2) one_minus_ring(1) [OF r(1)] by (simp only: two)
  have nin: "Some c \<notin> set (s_block_of (eng_streamer_prefetch s c))"
    using c(3) set_update_subset_insert [of "s_block_of s" "s_ring s" None] by (auto simp: cl(3))
  have bo: "blkof (eng_streamer_prefetch s c) (1 - s_ring s) = blkof s (1 - s_ring s)"
  proof -
    have "s_ring s \<noteq> 1 - s_ring s" by (rule ring_flip)
    then show ?thesis unfolding cl(3) by (rule nth_list_update_neq)
  qed
  have "s_ring s = 1 - (1 - s_ring s)" using ring_flip(3) [OF r(1)] by simp
  then show ?thesis using c nin o bo unfolding walk_shape_def cl(1) geo ring by auto
qed

text \<open>Without a hint the next request finds the ring in shape.\<close>

lemma walk_idle:
  assumes inv: "stream_inv img s" and two: "s_nslot s = 2" and got: "walk_got s q b" and b: "b < length (s_blk s)"
  shows "walk_ok s (wnext (length (s_blk s)) b)"
proof -
  let ?n = "length (s_blk s)" and ?c = "wnext (length (s_blk s)) b"
  have cn: "?c < ?n" using b by (auto simp: wnext_def)
  have out: "outstanding s = None" using got by (simp add: walk_got_def)
  have r: "s_ring s < 2" "length (s_block_of s) = 2" using shapeD [OF invD(1) [OF inv]] two by auto
  consider (all) "all_in s" | (pin) "b < s_npin s" "walk_shape s (s_npin s)"
    | (ring) "s_npin s \<le> b" "blkof s (1 - s_ring s) = Some b" "blkof s (s_ring s) \<in> {None, Some (spred s b)}"
    using got by (auto simp: walk_got_def)
  then show ?thesis
  proof cases
    case all
    then show ?thesis using out two by (simp add: walk_ok_def)
  next
    case pin
    then have "?c < s_npin s \<or> ?c = s_npin s" by (auto simp: wnext_def split: if_splits)
    then show ?thesis using pin out two by (auto simp: walk_ok_def)
  next
    case ring
    define d where "d = (if s_npin s \<le> ?c then ?c else s_npin s)"
    have d: "s_npin s \<le> d" "d < ?n" "spred s d = b"
      using ring(1) b cn wpred_wnext [OF ring(1) b] by (auto simp: d_def wpred_def wnext_def split: if_splits)
    show ?thesis
    proof (cases "Some d \<in> set (s_block_of s)")
      case True
      then consider "d = b" | "d = spred s b" "blkof s (s_ring s) = Some d"
        using set_two [OF r(2) r(1)] ring by auto
      then have "all_in s"
      proof cases
        case 1
        then have "c = b" if "s_npin s \<le> c" "c < ?n" for c using cycle_one [OF ring(1) b] d(3) that by blast
        then show ?thesis using True 1 by (auto simp: all_in_def)
      next
        case 2
        have "c = b \<or> c = d" if "s_npin s \<le> c" "c < ?n" for c
          using cycle_two [OF ring(1) b _ that] d(3) 2(1) by simp
        then show ?thesis using 2(2) ring(2) set_two [OF r(2) r(1)] by (auto simp: all_in_def)
      qed
      then show ?thesis using out two by (simp add: walk_ok_def)
    next
      case False
      then have "walk_shape s d" using d ring out by (auto simp: walk_shape_def)
      then show ?thesis using out two by (auto simp: walk_ok_def d_def split: if_splits)
    qed
  qed
qed

text \<open>A hint for the next block, at any time before it is requested.\<close>

lemma walk_prefetch:
  assumes inv: "stream_inv img s" and ok: "walk_ok s c" and c: "c < length (s_blk s)"
  shows "walk_ok (eng_streamer_prefetch s c) c"
proof (cases "c < s_npin s \<or> s_io s = None \<or> Some c \<in> set (s_block_of s) \<or> outstanding s \<noteq> None")
  case True
  then have "eng_streamer_prefetch s c = s"
    using c by (auto simp: eng_streamer_prefetch_def outstanding_def split: option.splits if_splits)
  then show ?thesis using ok by simp
next
  case False
  then obtain io where io: "s_io s = Some io" by auto
  have out: "outstanding s = None" using False by blast
  have sh: "walk_shape s c" "s_nslot s = 2" using ok False c by (auto simp: walk_ok_def all_in_def)
  have "walk_shape (eng_streamer_prefetch s c) c"
    using False sh(1) c out by (intro claim_shape [OF inv sh(2) io out]) (simp_all add: walk_shape_def)
  then show ?thesis using sh(2) False prefetch_geometry [of s c] by (simp add: walk_ok_def geometry_def)
qed

section \<open>One step of the walk\<close>

lemma prefetch_buffers: "s_pin (eng_streamer_prefetch s c) = s_pin s" "s_arena (eng_streamer_prefetch s c) = s_arena s"
  by (auto simp: eng_streamer_prefetch_def claim_slot_eq split: option.splits)

lemma io_main_pin: "s_pin (io_main rd s) = s_pin s"
  by (auto simp: io_main_def load_ring_def load_block_def Let_def split: option.splits prod.splits)

text \<open>
  A pointer nothing writes behind: it is pinned, or there is nothing left to read, or its slot is
  neither reserved nor the next to be claimed.
\<close>

definition held_safe :: "eng_streamer \<Rightarrow> stream_ptr \<Rightarrow> bool" where
  "held_safe s q \<longleftrightarrow> s_io s = None \<or> outstanding s = None \<and> all_in s \<or>
     (case q of InPin _ _ \<Rightarrow> True
      | InRing i _ \<Rightarrow> s_nslot s = 2 \<and> i = (case outstanding s of None \<Rightarrow> 1 - s_ring s | Some (_, j) \<Rightarrow> 1 - j))"

lemma got_held_safe: "walk_got s q b \<Longrightarrow> s_nslot s = 2 \<Longrightarrow> held_safe s q"
  by (auto simp: walk_got_def held_safe_def)

lemma prefetch_same_bytes: "block_at (eng_streamer_prefetch s c) q b = block_at s q b"
proof -
  have "s_blk (eng_streamer_prefetch s c) = s_blk s" using prefetch_geometry [of s c] by (simp add: geometry_def)
  then show ?thesis by (simp add: block_at_def ptr_buffer_def prefetch_buffers split: stream_ptr.splits)
qed

lemma prefetch_held_safe:
  assumes inv: "stream_inv img s" and q: "held_safe s q" and c: "c < length (s_blk s)"
  shows "held_safe (eng_streamer_prefetch s c) q"
proof (cases "c < s_npin s \<or> s_io s = None \<or> Some c \<in> set (s_block_of s) \<or> outstanding s \<noteq> None")
  case True
  then have "eng_streamer_prefetch s c = s"
    using c by (auto simp: eng_streamer_prefetch_def outstanding_def split: option.splits if_splits)
  then show ?thesis using q by simp
next
  case False
  then obtain io where io: "s_io s = Some io" by auto
  have out: "outstanding s = None" using False by blast
  have cl: "outstanding (eng_streamer_prefetch s c) = Some (c, s_ring s)"
    using False by (intro prefetch_claims(1) [OF c _ io _ out inv]) auto
  have na: "\<not> all_in s" using False c by (auto simp: all_in_def not_less intro!: exI [of _ c])
  have "s_nslot (eng_streamer_prefetch s c) = s_nslot s" using prefetch_geometry [of s c] by (simp add: geometry_def)
  then show ?thesis using q na by (cases q) (simp_all add: held_safe_def out cl io)
qed

lemma reader_held_safe: "held_safe s q \<Longrightarrow> held_safe (io_main rd s) q"
proof -
  have e: "s_block_of (io_main rd s) = s_block_of s" "s_ring (io_main rd s) = s_ring s"
    "outstanding (io_main rd s) = outstanding s" "s_io (io_main rd s) = None \<longleftrightarrow> s_io s = None"
    using io_main_maps [of rd s] by auto
  have g: "s_npin (io_main rd s) = s_npin s" "s_blk (io_main rd s) = s_blk s" "s_nslot (io_main rd s) = s_nslot s"
    using io_main_geometry [of rd s] by (simp_all add: geometry_def)
  show "held_safe s q \<Longrightarrow> held_safe (io_main rd s) q" unfolding held_safe_def all_in_def e g .
qed

lemma reader_same_bytes:
  assumes "stream_inv img s" "held_safe s q"
  shows "block_at (io_main rd s) q b = block_at s q b"
proof (cases "outstanding s")
  case None
  then show ?thesis by (simp add: io_main_idle)
next
  case (Some bj)
  then obtain c j where out: "outstanding s = Some (c, j)" by (cases bj) auto
  have j: "j < s_nslot s" using reservedD [OF invD(3) [OF assms(1)] out] by simp
  have blk: "s_blk (io_main rd s) = s_blk s" using io_main_geometry [of rd s] by (simp add: geometry_def)
  show ?thesis
  proof (cases q)
    case (InPin i pad)
    then show ?thesis by (simp add: block_at_def ptr_buffer_def blk io_main_pin)
  next
    case (InRing i pad)
    then have "i = 1 - j" using assms(2) out by (auto simp: held_safe_def outstanding_def)
    then have "i \<noteq> j" by arith
    then show ?thesis using io_main_other_slot [OF out j, of i rd] InRing
      by (simp add: block_at_def ptr_buffer_def ptr_off_def blk)
  qed
qed

definition walking :: "byte list \<Rightarrow> read_fn \<Rightarrow> eng_streamer \<Rightarrow> nat \<Rightarrow> bool" where
  "walking img rd s b \<longleftrightarrow> stream_inv img s \<and> io_fine s \<and> serves rd s \<and> fits s \<and> walk_ok s b"

lemma walk_not_steals: "walk_ok s b \<Longrightarrow> \<not> steals s b"
  by (auto simp: walk_ok_def walk_shape_def steals_def outstanding_def split: option.splits if_splits)

definition walk_turn :: "read_fn \<Rightarrow> bool \<Rightarrow> eng_streamer \<Rightarrow> nat \<Rightarrow> eng_streamer" where
  "walk_turn rd ran' s b =
     (let t = eng_streamer_prefetch s (wnext (length (s_blk s)) b) in if ran' then io_main rd t else t)"

context aligned_store
begin

lemma walk_get_step:
  assumes inv: "stream_inv data s" and ok: "walk_ok s b" and b: "b < length (s_blk s)"
    and g: "eng_streamer_get rdal s b = (Some q, s1)"
  shows "stream_inv data s1" "block_at s1 q b = slice (b_off (s_blk s ! b)) (b_nbytes (s_blk s ! b)) data"
    "walk_ok s1 (wnext (length (s_blk s)) b)" "held_safe s1 q" "geometry s1 = geometry s"
proof -
  show inv1: "stream_inv data s1" and "block_at s1 q b = slice (b_off (s_blk s ! b)) (b_nbytes (s_blk s ! b)) data"
    using stream_get_inv [OF inv walk_not_steals [OF ok] g] by auto
  show g1: "geometry s1 = geometry s" using get_geometry [of rdal s b] g by simp
  then have blk: "s_blk s1 = s_blk s" "s_nslot s1 = s_nslot s" by (simp_all add: geometry_def)
  have "walk_ok s1 (wnext (length (s_blk s)) b) \<and> held_safe s1 q"
  proof (cases "s_io s")
    case None
    then have "s_io s1 = None" using get_sync [of s rdal b] g by simp
    then show ?thesis by (simp add: walk_ok_def held_safe_def)
  next
    case (Some io)
    then have got: "walk_got s1 q b" and two: "s_nslot s1 = 2"
      using walk_get [OF inv ok _ b g] ok blk by (simp_all add: walk_ok_def)
    show ?thesis using walk_idle [OF inv1 two got] got_held_safe [OF got two] b blk by simp
  qed
  then show "walk_ok s1 (wnext (length (s_blk s)) b)" "held_safe s1 q" by auto
qed

lemma walk_step:
  assumes w: "walking data rdal s b" and b: "b < length (s_blk s)"
  obtains q s1 where "eng_streamer_get rdal s b = (Some q, s1)" "geometry s1 = geometry s"
    "block_at (walk_turn rdal ran' s1 b) q b = slice (b_off (s_blk s ! b)) (b_nbytes (s_blk s ! b)) data"
    "walking data rdal (walk_turn rdal ran' s1 b) (wnext (length (s_blk s)) b)"
    "geometry (walk_turn rdal ran' s1 b) = geometry s"
proof -
  have inv: "stream_inv data s" and fine: "io_fine s" and sv: "serves rdal s" and ft: "fits s" and ok: "walk_ok s b"
    using w by (auto simp: walking_def)
  obtain q s1 where g: "eng_streamer_get rdal s b = (Some q, s1)"
    using get_served [OF fine inv sv ft b] by (metis option.exhaust prod.collapse)
  have f1: "io_fine s1" using get_served [OF fine inv sv ft b] g by simp
  note st = walk_get_step [OF inv ok b g]
  let ?c = "wnext (length (s_blk s)) b"
  let ?t = "eng_streamer_prefetch s1 ?c" and ?u = "walk_turn rdal ran' s1 b"
  have blk: "s_blk s1 = s_blk s" using st(5) by (simp add: geometry_def)
  have u: "?u = (if ran' then io_main rdal ?t else ?t)" by (simp add: walk_turn_def blk)
  have cn: "?c < length (s_blk s1)" using b by (auto simp: wnext_def blk)
  have gt: "geometry ?t = geometry s" using prefetch_geometry [of s1 ?c] st(5) by simp
  then have gu: "geometry ?u = geometry s" using io_main_geometry [of rdal ?t] by (simp add: u)
  have t: "stream_inv data ?t" "io_fine ?t" "walk_ok ?t ?c" "held_safe ?t q"
    by (rule prefetch_inv [OF st(1)], rule prefetch_fine [OF f1], rule walk_prefetch [OF st(1,3) cn],
        rule prefetch_held_safe [OF st(1,4) cn])
  have "stream_inv data ?u" "io_fine ?u" "walk_ok ?u ?c" "block_at ?u q b = block_at s1 q b"
    using t io_main_inv [OF t(1)] io_main_fine [OF t(2,1)] serves_geometry [OF gt] sv ft walk_ok_io_main [OF t(3)]
      reader_same_bytes [OF t(1,4)] by (auto simp: u prefetch_same_bytes)
  then have "walking data rdal ?u ?c" "block_at ?u q b = slice (b_off (s_blk s ! b)) (b_nbytes (s_blk s ! b)) data"
    using serves_geometry [OF gu] sv ft st(2) by (auto simp: walking_def)
  with that [OF g st(5)] gu show ?thesis by blast
qed

end

section \<open>Walks of any length\<close>

text \<open>
  \<open>stream_walk rd s0 s c h\<close>: from \<open>s0\<close> the streamer got to state \<open>s\<close> with block \<open>c\<close> next in order, by
  successful requests in cyclic order, hints for the next block and turns of the reader; \<open>h\<close> is the
  pointer of the last request and its block.
\<close>

inductive stream_walk :: "read_fn \<Rightarrow> eng_streamer \<Rightarrow> eng_streamer \<Rightarrow> nat \<Rightarrow> (stream_ptr \<times> nat) option \<Rightarrow> bool" for rd s0 where
  start: "stream_walk rd s0 s0 0 None"
| request: "stream_walk rd s0 s c h \<Longrightarrow> eng_streamer_get rd s c = (Some q, s') \<Longrightarrow>
    stream_walk rd s0 s' (wnext (length (s_blk s)) c) (Some (q, c))"
| hint: "stream_walk rd s0 s c h \<Longrightarrow> stream_walk rd s0 (eng_streamer_prefetch s c) c h"
| reader: "stream_walk rd s0 s c h \<Longrightarrow> stream_walk rd s0 (io_main rd s) c h"

lemma walk_geometry: "stream_walk rd s0 s c h \<Longrightarrow> geometry s = geometry s0"
proof (induction rule: stream_walk.induct)
  case (request s c h q s')
  then show ?case using get_geometry [of rd s c] by simp
qed (simp_all add: prefetch_geometry io_main_geometry)

context aligned_store
begin

lemma walk_keeps:
  assumes "stream_walk rdal s0 s c h" "stream_inv data s0" "walk_ok s0 0" "s_blk s0 \<noteq> []"
  shows "stream_inv data s \<and> walk_ok s c \<and> c < length (s_blk s) \<and>
    (\<forall>q b. h = Some (q, b) \<longrightarrow> held_safe s q \<and> block_at s q b = slice (b_off (s_blk s ! b)) (b_nbytes (s_blk s ! b)) data)"
  using assms(1)
proof (induction rule: stream_walk.induct)
  case start
  show ?case using assms by simp
next
  case (request s c h q s')
  then have i: "stream_inv data s" "walk_ok s c" "c < length (s_blk s)" by auto
  note st = walk_get_step [OF i request(2)]
  have "s_blk s' = s_blk s" using st(5) by (simp add: geometry_def)
  then show ?case using st i(3) by (auto simp: wnext_def)
next
  case (hint s c h)
  then have i: "stream_inv data s" "walk_ok s c" "c < length (s_blk s)" by auto
  have blk: "s_blk (eng_streamer_prefetch s c) = s_blk s" using prefetch_geometry [of s c] by (simp add: geometry_def)
  show ?case using hint.IH prefetch_inv [OF i(1)] walk_prefetch [OF i] prefetch_held_safe [OF i(1) _ i(3)]
    by (auto simp: blk prefetch_same_bytes)
next
  case (reader s c h)
  then have i: "stream_inv data s" "walk_ok s c" "c < length (s_blk s)" by auto
  have blk: "s_blk (io_main rdal s) = s_blk s" using io_main_geometry [of rdal s] by (simp add: geometry_def)
  show ?case using reader.IH io_main_inv [OF i(1)] walk_ok_io_main [OF i(2)] reader_held_safe reader_same_bytes [OF i(1)]
    by (auto simp: blk)
qed

lemma walk_fine:
  assumes "stream_walk rdal s0 s c h" "stream_inv data s0" "walk_ok s0 0" "s_blk s0 \<noteq> []" "io_fine s0" "serves rdal s0" "fits s0"
  shows "io_fine s"
  using assms(1)
proof (induction rule: stream_walk.induct)
  case start
  show ?case by (rule assms(5))
next
  case (request s c h q s')
  have k: "stream_inv data s" "c < length (s_blk s)" using walk_keeps [OF request(1) assms(2-4)] by auto
  have sf: "serves rdal s" "fits s" using serves_geometry [OF walk_geometry [OF request(1)]] assms by auto
  show ?case using get_served [OF request.IH k(1) sf k(2)] request(2) by simp
next
  case (hint s c h)
  then show ?case by (simp add: prefetch_fine)
next
  case (reader s c h)
  have k: "stream_inv data s" using walk_keeps [OF reader(1) assms(2-4)] by auto
  show ?case using io_main_fine [OF reader.IH k] serves_geometry [OF walk_geometry [OF reader(1)]] assms by auto
qed

end

text \<open>The ring is never longer than asked for.\<close>

lemma sizing_ring:
  assumes "sizing (Suc n) ex budget want nbs (r0, g0, p0, s0) = (rs, ring, np, sp)"
  shows "ring \<le> want"
  using assms
proof (induction n arbitrary: r0 g0 p0 s0)
  case (Suc n)
  obtain a b c d where p: "size_pass ex budget want nbs p0 = (a, b, c, d)" using prod_cases4 by blast
  then have "b \<le> want" using ring_fit_bounds(1) by (auto simp: size_pass_def Let_def split: prod.splits)
  with Suc p show ?case by (subst (asm) sizing.simps(2)) (auto simp del: sizing.simps split: if_splits)
next
  case 0
  obtain a b c d where p: "size_pass ex budget want nbs p0 = (a, b, c, d)" using prod_cases4 by blast
  then have "b \<le> want" using ring_fit_bounds(1) by (auto simp: size_pass_def Let_def split: prod.splits)
  with 0 p show ?case by (auto split: if_splits)
qed

lemma created_walk_ok:
  assumes "eng_streamer_create bs budget ec rc async hp env = Some s" "rc \<le> 2"
  shows "walk_ok s 0"
  using assms(1)
proof (rule create_fields)
  fix rs ring np sp want ls
  assume want: "want = (if rc > 0 then nat rc else 2)"
    and sz: "sizing 4 (s_extra_bytes s) budget want (map b_nbytes bs) (0, want, 0, 0) = (rs, ring, np, sp)"
    and s: "s = \<lparr>s_blk = bs, s_npin = np, s_nslot = ring, s_slot_bytes = rs,
          s_extra_bytes = max 0 ec, s_pin = replicate np [], s_pin_pad = replicate np 0,
          s_arena = replicate ring [], s_slot_pad = replicate ring 0,
          s_block_of = replicate ring None, s_slot_of = replicate (length bs) None,
          s_ring = 0,
          s_io = (if async \<and> ring \<ge> 2 \<and> se_thread_ok env
                  then Some \<lparr>io_busy = False, io_done = False, io_block = 0, io_slot = 0,
                             io_result = True\<rparr> else None),
          s_hits = 0, s_misses = 0, s_bytes_read = 0,
          s_pinned_bytes = sum_list (map (block_need (max 0 ec)) (take np (map b_nbytes bs))), s_mem = ls\<rparr>"
  show ?thesis
  proof (cases "s_io s")
    case (Some io)
    have w: "1 \<le> want" "want \<le> 2" "4 = Suc 3" using want assms(2) by auto
    have np: "np \<le> length bs" using sizing_facts [OF sz [unfolded w(3)] w(1)] by simp
    have "ring = 2" using Some sizing_ring [OF sz [unfolded w(3)]] w(2) by (auto simp: s split: if_splits)
    moreover have "outstanding s = None" by (simp add: s outstanding_def)
    moreover have "walk_shape s np \<or> all_in s"
      using np \<open>ring = 2\<close> by (cases "np < length bs") (auto simp: walk_shape_def all_in_def s outstanding_def)
    ultimately show ?thesis by (auto simp: walk_ok_def s)
  qed (simp add: walk_ok_def)
qed

lemma created_walking:
  assumes "eng_streamer_create bs budget 0 2 async hp env = Some s" "blocks_ok bs" "serves rd s"
  shows "walking img rd s 0"
  using created_inv [OF assms(1,2)] created_fits [OF assms(1,2)] created_fine [OF assms(1)] created_walk_ok [OF assms(1)] assms(3)
  by (simp add: walking_def)

section \<open>Properties\<close>

text \<open>
  C9: at any moment of a cyclic walk over a streamer with a ring of two slots (or one), the pointer
  returned by the last request addresses exactly the bytes the container stores for that block: pinned or
  not, missed, hit or prefetched, while the next block is hinted and read by the reader thread, and
  however many times earlier reads were split.
\<close>

theorem stream_walk_exact:
  assumes "pread_sound img fd" "pread_sound img dfd" "blocks_ok bs"
    and "eng_streamer_create bs budget ec rc async hp env = Some s0" "rc \<le> 2"
    and "stream_walk (file_rd fd dfd st) s0 s c (Some (q, b))"
  shows "block_at s q b = slice (b_off (bs ! b)) (b_nbytes (bs ! b)) img"
proof -
  note fs = file_store [OF assms(1,2), of st]
  have blk: "s_blk s = bs" using walk_geometry [OF assms(6)] created_blk [OF assms(4)] by (simp add: geometry_def)
  have "s_blk s0 \<noteq> []" by (rule create_fields [OF assms(4)]) simp
  from aligned_store.walk_keeps [OF fs assms(6) created_inv [OF assms(4,3)] created_walk_ok [OF assms(4,5)] this]
  show ?thesis by (simp add: blk)
qed

lemma demo_walk:
  "stream_walk demo_rd demo_start
     (io_main demo_rd (eng_streamer_prefetch (snd (eng_streamer_get demo_rd demo_start 0)) 1)) 1 (Some (InRing 0 0, 0))"
proof -
  have "fst (eng_streamer_get demo_rd demo_start 0) = Some (InRing 0 0)" "wnext (length (s_blk demo_start)) 0 = 1" by code_simp+
  then have g: "eng_streamer_get demo_rd demo_start 0 = (Some (InRing 0 0), snd (eng_streamer_get demo_rd demo_start 0))"
    "wnext (length (s_blk demo_start)) 0 = 1" by (metis prod.collapse)+
  from stream_walk.request [OF stream_walk.start g(1)] show ?thesis
    unfolding g(2) by (intro stream_walk.reader stream_walk.hint)
qed

theorem stream_walk_exact_witness:
  "block_at (io_main demo_rd (eng_streamer_prefetch (snd (eng_streamer_get demo_rd demo_start 0)) 1)) (InRing 0 0) 0 = [11, 12]"
  using stream_walk_exact [OF short_pread_sound short_pread_sound demo_facts(1,3) _ demo_walk [unfolded demo_rd_def]]
  by (simp add: demo_rd_def slice_def demo_blocks_def demo_img_def)



end
