(* ===== verification/Row_Local.thy ===== *)
theory Row_Local
  imports Quant_Mx_Props
begin

text \<open>
  What the row kernels read.  A pointer to a row is the list from the row's first element to the
  end of the array that holds it; these lemmas show that every product reads the row alone, so
  that it can be computed from a copy of the row in another buffer, whatever follows it there.
\<close>

section \<open>Loops read what their indices say\<close>

lemma stride_loop_cong:
  assumes "\<And>i s. i + (w - 1) < n \<Longrightarrow> f i s = g i s"
  shows "stride_loop w n f i s = stride_loop w n g i s"
  using assms
proof (induction w n f i s rule: stride_loop.induct)
  case (1 w n f i s)
  show ?case
  proof (cases "0 < w \<and> i + (w - 1) < n")
    case True
    then have "i + (w - 1) < n" ..
    then have "f i s = g i s" by (rule 1(2))
    with 1(1) [OF True 1(2)] show ?thesis by (simp only: stride_loop_step [OF True])
  next
    case False
    show ?thesis by (simp only: stride_loop_stop [OF False])
  qed
qed

lemma lanes_cong: "(\<And>l. l < k \<Longrightarrow> f l = g l) \<Longrightarrow> lanes k f a = lanes k g a"
  unfolding lanes_def by - (rule foldl_cong, auto)

lemma loadu_append: "i + k \<le> length a \<Longrightarrow> loadu k (a @ r) i = loadu k a i"
  by (simp add: loadu_def nth_append)

section \<open>Single-precision products\<close>

lemma dot_exact_loop_cong:
  assumes "\<And>i. i < n \<Longrightarrow> a i = a' i \<and> b i = b' i"
  shows "dot_exact_loop fp a b n = dot_exact_loop fp a' b' n"
proof -
  have s: "stride_loop 16 n (\<lambda>i. lanes 16 (\<lambda>l. d_fma fp (a (i + l)) (b (i + l)))) i0 s0 =
      stride_loop 16 n (\<lambda>i. lanes 16 (\<lambda>l. d_fma fp (a' (i + l)) (b' (i + l)))) i0 s0" for i0 s0
    using assms by (intro stride_loop_cong lanes_cong) simp
  have f: "foldl (\<lambda>s i. d_fma fp (a i) (b i) s) z [j..<n] = foldl (\<lambda>s i. d_fma fp (a' i) (b' i) s) z [j..<n]" for z j
    using assms by (intro foldl_cong) auto
  show ?thesis unfolding dot_exact_loop_def s f ..
qed

lemma dot_fast_loop_cong:
  assumes "\<And>i. i < n \<Longrightarrow> a i = a' i \<and> b i = b' i"
  shows "dot_fast_loop fp a b n = dot_fast_loop fp a' b' n"
proof -
  have s: "stride_loop 8 n (\<lambda>i. lanes 8 (\<lambda>l c. f_add fp c (f_mul fp (a (i + l)) (b (i + l))))) i0 s0 =
      stride_loop 8 n (\<lambda>i. lanes 8 (\<lambda>l c. f_add fp c (f_mul fp (a' (i + l)) (b' (i + l))))) i0 s0" for i0 s0
    using assms by (intro stride_loop_cong lanes_cong) simp
  have f: "foldl (\<lambda>s i. f_add fp s (f_mul fp (a i) (b i))) z [j..<n] = foldl (\<lambda>s i. f_add fp s (f_mul fp (a' i) (b' i))) z [j..<n]" for z j
    using assms by (intro foldl_cong) auto
  show ?thesis unfolding dot_fast_loop_def s f ..
qed

lemma avx2_fast_append:
  assumes "n \<le> length a" "n \<le> length b"
  shows "eng_avx2_dot_f32_fast fp (a @ r) (b @ r') n = eng_avx2_dot_f32_fast fp a b n"
proof -
  let ?body = "\<lambda>a b i (v0, v1). (mm256_fmadd_ps fp (loadu 8 a i) (loadu 8 b i) v0,
    mm256_fmadd_ps fp (loadu 8 a (i + 8)) (loadu 8 b (i + 8)) v1)"
  have s: "stride_loop 16 n (?body (a @ r) (b @ r')) i0 s0 = stride_loop 16 n (?body a b) i0 s0" for i0 s0
    using assms by (intro stride_loop_cong) (simp add: loadu_append split: prod.split)
  have f: "foldl (\<lambda>s i. f_add fp s (f_mul fp ((a @ r) ! i) ((b @ r') ! i))) z [j..<n] =
      foldl (\<lambda>s i. f_add fp s (f_mul fp (a ! i) (b ! i))) z [j..<n]" for z j
    using assms by (intro foldl_cong) (auto simp: nth_append)
  show ?thesis unfolding eng_avx2_dot_f32_fast_def s f ..
qed

lemma dot_f32_append:
  assumes "n \<le> length a" "n \<le> length b"
  shows "eng_dot_f32 fp impl (a @ r) (b @ r') n pol = eng_dot_f32 fp impl a b n pol"
proof -
  have "eng_ref_dot_f32_exact fp (a @ r) (b @ r') n = eng_ref_dot_f32_exact fp a b n"
    unfolding eng_ref_dot_f32_exact_def using assms by (intro dot_exact_loop_cong) (simp add: nth_append)
  moreover have "eng_ref_dot_f32_fast fp (a @ r) (b @ r') n = eng_ref_dot_f32_fast fp a b n"
    unfolding eng_ref_dot_f32_fast_def using assms by (intro dot_fast_loop_cong) (simp add: nth_append)
  ultimately show ?thesis
    using avx2_fast_append [OF assms, of fp r r'] by (simp add: eng_dot_f32_def avx2_f32_exact_same)
qed

lemma dot_f32_take:
  assumes "n \<le> length a" "n \<le> length b"
  shows "eng_dot_f32 fp impl a b n pol = eng_dot_f32 fp impl (take n a) (take n b) n pol"
  using dot_f32_append [of n "take n a" "take n b" fp impl "drop n a" "drop n b" pol] assms by simp

text \<open>The rows of a matrix, each exactly.\<close>

definition row_of :: "nat \<Rightarrow> nat \<Rightarrow> 'a list \<Rightarrow> 'a list" where
  "row_of k p W = take k (drop (p * k) W)"

lemma length_row_of: "p < n \<Longrightarrow> n * k \<le> length W \<Longrightarrow> length (row_of k p W) = k"
proof -
  assume "p < n" "n * k \<le> length W"
  then have "(p + 1) * k \<le> length W" using mult_le_mono1 [of "p + 1" n k] by linarith
  then show ?thesis by (simp add: row_of_def)
qed

lemma row_of_split: "drop (p * k) W = row_of k p W @ drop (k + p * k) W"
  by (simp add: row_of_def) (metis append_take_drop_id drop_drop)

lemma matmul_f32_rows:
  assumes "nout * nin \<le> length W" "nin \<le> length x"
  shows "eng_matmul_f32 fp impl x W nin nout pol = map (\<lambda>p. eng_dot_f32 fp impl (row_of nin p W) x nin pol) [0..<nout]"
proof -
  have "eng_dot_f32 fp impl (drop (p * nin) W) x nin pol = eng_dot_f32 fp impl (row_of nin p W) x nin pol" if "p < nout" for p
    using dot_f32_append [of nin "row_of nin p W" x fp impl "drop (nin + p * nin) W" "[]" pol] assms(2)
      length_row_of [OF that assms(1)] by (simp add: row_of_split)
  moreover have "eng_matmul_f32 fp impl x W nin nout pol = map (\<lambda>p. eng_dot_f32 fp impl (drop (p * nin) W) x nin pol) [0..<nout]"
    by (auto simp: eng_matmul_f32_def eng_dot_f32_def Let_def)
  ultimately show ?thesis by simp
qed

section \<open>Packed rows\<close>

lemma u16_at_append: "i + 1 < length p \<Longrightarrow> u16_at (p @ r) i = u16_at p i"
  by (simp add: u16_at_def nth_append)

lemma q4_fill_append: "32 \<le> length q \<Longrightarrow> q4_fill_ref fp (q @ r) xb j = q4_fill_ref fp q xb j"
  unfolding q4_fill_ref_def
  by (intro foldl_cong) (auto simp: q4_step_def q4_lane_def nth_append intro!: foldl_cong)

lemma get_scale_min_append: "j < 8 \<Longrightarrow> 12 \<le> length q \<Longrightarrow> get_scale_min j (q @ r) = get_scale_min j q"
  by (simp add: get_scale_min_def nth_append)

lemma q4_stretch_append:
  assumes "144 \<le> length p" "c < 4"
  shows "q4_stretch fp (q4_fill_ref fp) (p @ r) xb acc c = q4_stretch fp (q4_fill_ref fp) p xb acc c"
proof -
  have d: "drop (16 + c * 32) (p @ r) = drop (16 + c * 32) p @ r" "drop 4 (p @ r) = drop 4 p @ r" using assms by auto
  have e: "u16_at (p @ r) 0 = u16_at p 0" "u16_at (p @ r) 2 = u16_at p 2"
    "get_scale_min (2 * c) (drop 4 p @ r) = get_scale_min (2 * c) (drop 4 p)"
    "get_scale_min (2 * c + 1) (drop 4 p @ r) = get_scale_min (2 * c + 1) (drop 4 p)"
    "q4_fill_ref fp (drop (16 + c * 32) p @ r) xb (64 * c) = q4_fill_ref fp (drop (16 + c * 32) p) xb (64 * c)"
    using assms by (intro u16_at_append get_scale_min_append q4_fill_append; simp)+
  show ?thesis unfolding q4_stretch_def Let_def d e ..
qed

lemma block_drop: "b < k \<Longrightarrow> k * m \<le> length w \<Longrightarrow> b * m \<le> length w \<and> m \<le> length (drop (b * m) w)"
proof -
  assume "b < k" "k * m \<le> length w"
  then have "(b + 1) * m \<le> length w" using mult_le_mono1 [of "b + 1" k m] by linarith
  then show ?thesis by simp
qed

lemma q4_row_append:
  assumes "n div QK_K * Q4_K_BYTES \<le> length w"
  shows "q4_k_dot_row fp cpu scalar (w @ r) x n = q4_k_dot_row fp cpu scalar w x n"
proof -
  have "foldl (q4_stretch fp (q4_fill_ref fp) (drop (b * Q4_K_BYTES) (w @ r)) xb) acc [0..<4] =
      foldl (q4_stretch fp (q4_fill_ref fp) (drop (b * Q4_K_BYTES) w) xb) acc [0..<4]" if "b < n div QK_K" for b xb acc
    using block_drop [OF that assms] by (intro foldl_cong refl) (simp add: q4_stretch_append Q4_K_BYTES_def)
  then show ?thesis
    unfolding kquant_dispatch_same eng_q4_k_dot_row_ref_def q4_k_dot_def by - (rule foldl_cong, auto)
qed

lemma q6_code_append: "64 \<le> length ql \<Longrightarrow> 32 \<le> length qh \<Longrightarrow> l < 32 \<Longrightarrow> q6_code (ql @ r) (qh @ r) l part = q6_code ql qh l part"
  by (simp add: q6_code_def nth_append)

lemma q6_fill_append:
  assumes "64 \<le> length ql" "32 \<le> length qh"
  shows "q6_fill_ref fp (ql @ r) (qh @ r) xb = q6_fill_ref fp ql qh xb"
proof -
  have "q6_step fp (ql @ r) (qh @ r) xb parts l = q6_step fp ql qh xb parts l" if "l + 4 \<le> 32" for parts l
    unfolding q6_step_def using assms that
    by (intro foldl_cong) (auto simp: q6_lane_def q6_code_append intro!: foldl_cong)
  then show ?thesis unfolding q6_fill_ref_def by - (rule foldl_cong, auto)
qed

lemma q6_half_append:
  assumes "210 \<le> length p" "half < 2"
  shows "q6_half fp (q6_fill_ref fp) (p @ r) xb acc half = q6_half fp (q6_fill_ref fp) p xb acc half"
proof -
  have f: "q6_fill_ref fp (drop (64 * half) (p @ r)) (drop (128 + 32 * half) (p @ r)) xc =
      q6_fill_ref fp (drop (64 * half) p) (drop (128 + 32 * half) p) xc" for xc
    using q6_fill_append [of "drop (64 * half) p" "drop (128 + 32 * half) p" fp r xc] assms by simp
  have "drop (192 + 8 * half) (p @ r) ! k = drop (192 + 8 * half) p ! k" if "k < 8" for k
  proof -
    have "192 + 8 * half + k < length p" using assms that by linarith
    then have "k < length (drop (192 + 8 * half) p)" by simp
    then show ?thesis by (simp add: nth_append)
  qed
  moreover have "u16_at (p @ r) 208 = u16_at p 208" using assms by (simp add: u16_at_append)
  ultimately show ?thesis unfolding q6_half_def Let_def f by (intro foldl_cong) auto
qed

lemma q6_row_append:
  assumes "n div QK_K * Q6_K_BYTES \<le> length w"
  shows "q6_k_dot_row fp cpu scalar (w @ r) x n = q6_k_dot_row fp cpu scalar w x n"
proof -
  have "foldl (q6_half fp (q6_fill_ref fp) (drop (b * Q6_K_BYTES) (w @ r)) xb) acc [0..<2] =
      foldl (q6_half fp (q6_fill_ref fp) (drop (b * Q6_K_BYTES) w) xb) acc [0..<2]" if "b < n div QK_K" for b xb acc
    using block_drop [OF that assms] by (intro foldl_cong refl) (simp add: q6_half_append Q6_K_BYTES_def)
  then show ?thesis
    unfolding kquant_dispatch_same eng_q6_k_dot_row_ref_def q6_k_dot_def by - (rule foldl_cong, auto)
qed

lemma q8_group_append:
  assumes "34 \<le> length blk" "m \<le> 32"
  shows "q8_0_group fp (blk @ r) x off m = q8_0_group fp blk x off m"
proof -
  have q: "d_of_int fp (sint ((blk @ r) ! (2 + i))) = d_of_int fp (sint (blk ! (2 + i)))" if "i < m" for i
    using assms that by (simp add: nth_append)
  have s: "stride_loop 4 m (\<lambda>i. lanes 4 (\<lambda>l. d_fma fp (d_of_int fp (sint ((blk @ r) ! (2 + (i + l))))) (d_of_f fp (x ! (off + (i + l)))))) i0 s0 =
      stride_loop 4 m (\<lambda>i. lanes 4 (\<lambda>l. d_fma fp (d_of_int fp (sint (blk ! (2 + (i + l))))) (d_of_f fp (x ! (off + (i + l)))))) i0 s0" for i0 s0
    using q by (intro stride_loop_cong lanes_cong) simp
  have f: "foldl (\<lambda>sub i. d_fma fp (d_of_int fp (sint ((blk @ r) ! (2 + i)))) (d_of_f fp (x ! (off + i))) sub) z [j..<m] =
      foldl (\<lambda>sub i. d_fma fp (d_of_int fp (sint (blk ! (2 + i)))) (d_of_f fp (x ! (off + i))) sub) z [j..<m]" for z j
    using q by (intro foldl_cong) auto
  show ?thesis unfolding q8_0_group_def Let_def s f ..
qed

lemma q8_row_append:
  assumes "(n + 31) div 32 * 34 \<le> length w"
  shows "q8_0_dot_row fp (w @ r) x n = q8_0_dot_row fp w x n"
proof -
  have "q8_0_group fp (drop (g * 34) (w @ r)) x (32 * g) (min (n - 32 * g) 32) = q8_0_group fp (drop (g * 34) w) x (32 * g) (min (n - 32 * g) 32) \<and>
      blk_scale fp (drop (g * 34) (w @ r)) = blk_scale fp (drop (g * 34) w)" if "g < (n + 31) div 32" for g
    using block_drop [OF that assms] by (simp add: q8_group_append blk_scale_def u16_at_append)
  then show ?thesis unfolding q8_0_dot_row_def Let_def by - (rule foldl_cong, auto)
qed

section \<open>The registered formats\<close>

text \<open>A format that is usable without a scale array, and whose row product reads the row alone.\<close>

definition packed_ok :: "('f, 'd) eng_quant_ops \<Rightarrow> nat \<Rightarrow> bool" where
  "packed_ok q n \<longleftrightarrow> 0 \<le> the (qo_row_bytes q) (int n) \<and> the (qo_scale_bytes q) (int n) = 0"

definition row_local :: "('f, 'd) eng_quant_ops \<Rightarrow> bool" where
  "row_local q \<longleftrightarrow> (\<forall>n w r x. 0 < n \<longrightarrow> packed_ok q n \<longrightarrow> nat (the (qo_row_bytes q) (int n)) \<le> length w \<longrightarrow>
     the (qo_dot_row q) (w @ r) [] x n = the (qo_dot_row q) w [] x n)"

lemma ops_cases:
  assumes "fst (eng_quant_ops_of (builtin_ops fp cpu scalar) dt reg_fresh) = Some q"
  shows "q \<in> set (builtin_ops fp cpu scalar)"
proof -
  have "REG (reg_init (builtin_ops fp cpu scalar) reg_fresh) dt = Some q"
    using assms by (auto simp: eng_quant_ops_of_def Let_def split: if_splits)
  then show ?thesis unfolding builtin_registry by (auto simp: builtin_ops_def split: if_splits)
qed

lemma int_block_facts: "c_mod (int n) (int k) = int (n mod k)" "c_div (int n) (int k) = int (n div k)" if "0 < k"
  using that by (simp_all add: zmod_int zdiv_int)

lemma block_bytes:
  assumes "0 \<le> (if int n < 0 \<or> c_mod (int n) (int k) \<noteq> 0 then -1 else c_div (int n) (int k) * int m)" "0 < k"
  shows "nat (if int n < 0 \<or> c_mod (int n) (int k) \<noteq> 0 then -1 else c_div (int n) (int k) * int m) = n div k * m \<and> n mod k = 0"
proof -
  have "n mod k = 0"
  proof (rule ccontr)
    assume "n mod k \<noteq> 0"
    then have "c_mod (int n) (int k) \<noteq> 0" by (simp only: int_block_facts [OF assms(2)])
    with assms(1) show False by simp
  qed
  then show ?thesis by (simp add: int_block_facts [OF assms(2)] flip: of_nat_mult)
qed

lemma row_bytes_blocks:
  "0 \<le> q4_k_row_bytes (int n) \<Longrightarrow> nat (q4_k_row_bytes (int n)) = n div QK_K * Q4_K_BYTES \<and> n mod QK_K = 0"
  "0 \<le> q6_k_row_bytes (int n) \<Longrightarrow> nat (q6_k_row_bytes (int n)) = n div QK_K * Q6_K_BYTES \<and> n mod QK_K = 0"
  "0 \<le> q8_0_row_bytes (int n) \<Longrightarrow> nat (q8_0_row_bytes (int n)) = (n + 31) div 32 * 34 \<and> n mod 32 = 0"
proof -
  have r: "(n + 31) div 32 = n div 32" if z: "n mod 32 = 0"
  proof -
    from z obtain k where "n = 32 * k" by (auto simp: mod_eq_0_iff_dvd)
    then show ?thesis by simp
  qed
  show "0 \<le> q4_k_row_bytes (int n) \<Longrightarrow> nat (q4_k_row_bytes (int n)) = n div QK_K * Q4_K_BYTES \<and> n mod QK_K = 0"
    using block_bytes [of n 256 144] by (simp only: q4_k_row_bytes_def QK_K_def Q4_K_BYTES_def of_nat_numeral)
  show "0 \<le> q6_k_row_bytes (int n) \<Longrightarrow> nat (q6_k_row_bytes (int n)) = n div QK_K * Q6_K_BYTES \<and> n mod QK_K = 0"
    using block_bytes [of n 256 210] by (simp only: q6_k_row_bytes_def QK_K_def Q6_K_BYTES_def of_nat_numeral)
  show "0 \<le> q8_0_row_bytes (int n) \<Longrightarrow> nat (q8_0_row_bytes (int n)) = (n + 31) div 32 * 34 \<and> n mod 32 = 0"
    using block_bytes [of n 32 34] r by (simp only: q8_0_row_bytes_def of_nat_numeral)
qed

lemma builtin_row_local:
  assumes "q \<in> set (builtin_ops fp cpu scalar)"
  shows "row_local q"
proof -
  have "\<not> packed_ok (eng_quant_mxfp4 fp cpu) n" if "0 < n" for n
  proof -
    have "0 < (int n + 31) div 32" using that by (subst pos_imp_zdiv_pos_iff) auto
    then show ?thesis by (simp add: packed_ok_def eng_quant_mxfp4_def mxfp4_scale_bytes_def MXFP4_GROUP_def add.commute)
  qed
  then have "row_local (eng_quant_mxfp4 fp cpu)" by (simp add: row_local_def)
  moreover have "row_local (eng_quant_q8_0 fp)"
    unfolding row_local_def packed_ok_def eng_quant_q8_0_def
    by (auto dest!: row_bytes_blocks(3) intro!: q8_row_append)
  moreover have "row_local (eng_quant_q4_k fp cpu scalar)"
    unfolding row_local_def packed_ok_def eng_quant_q4_k_def
    by (auto dest!: row_bytes_blocks(1) intro!: q4_row_append)
  moreover have "row_local (eng_quant_q6_k fp cpu scalar)"
    unfolding row_local_def packed_ok_def eng_quant_q6_k_def
    by (auto dest!: row_bytes_blocks(2) intro!: q6_row_append)
  ultimately show ?thesis using assms by (auto simp: builtin_ops_def)
qed

lemma matmul_quant_rows:
  assumes "packed_ok q nin" "row_local q" "0 < nin" "rows * nat (the (qo_row_bytes q) (int nin)) \<le> length W"
  shows "eng_matmul_quant fp (Some q) x W None nin rows =
    Some (map (\<lambda>p. f_of_d fp (the (qo_dot_row q) (row_of (nat (the (qo_row_bytes q) (int nin))) p W) [] x nin)) [0..<rows])"
proof -
  let ?rb = "nat (the (qo_row_bytes q) (int nin))"
  have "the (qo_dot_row q) (drop (p * ?rb) W) [] x nin = the (qo_dot_row q) (row_of ?rb p W) [] x nin" if "p < rows" for p
  proof -
    have "?rb \<le> length (row_of ?rb p W)" using length_row_of [OF that assms(4)] by simp
    then show ?thesis using assms(1-3) unfolding row_local_def row_of_split [of p ?rb W] by blast
  qed
  then show ?thesis using assms(1) by (simp add: eng_matmul_quant_def packed_ok_def)
qed

section \<open>Softmax and materialised rows\<close>

lemma lanes_append: "n \<le> length a \<Longrightarrow> lanes n f (a @ r) = lanes n f a @ r"
  by (simp add: lanes_prefix nth_append)

lemma length_lanes [simp]: "length (lanes n f a) = length a"
proof -
  have "length (foldl (\<lambda>a l. a[l := f l (a ! l)]) a xs) = length a" for xs by (induction xs arbitrary: a) auto
  then show ?thesis by (simp add: lanes_def)
qed

definition softmax_step :: "('f, 'd) fpu \<Rightarrow> 'f \<Rightarrow> 'f list \<times> 'd \<Rightarrow> nat \<Rightarrow> 'f list \<times> 'd" where
  "softmax_step fp m = (\<lambda>(x, sum) i. let e = f_exp fp (f_sub fp (x ! i) m) in (x[i := e], d_add fp sum (d_of_f fp e)))"

lemma softmax_fold_append:
  "k \<le> length a \<Longrightarrow> foldl (softmax_step fp m) (a @ r, s) [0..<k] =
     (fst (foldl (softmax_step fp m) (a, s) [0..<k]) @ r, snd (foldl (softmax_step fp m) (a, s) [0..<k])) \<and>
   length (fst (foldl (softmax_step fp m) (a, s) [0..<k])) = length a"
proof (induction k)
  case (Suc k)
  then show ?case by (auto simp: softmax_step_def Let_def nth_append list_update_append split: prod.splits)
qed simp

lemma softmax_append:
  assumes "n \<le> length a"
  shows "eng_softmax fp (a @ r) n = eng_softmax fp a n @ r \<and> length (eng_softmax fp a n) = length a"
proof (cases "n = 0")
  case False
  have m: "softmax_max fp (a @ r) n = softmax_max fp a n"
    unfolding softmax_max_def using assms False by (intro foldl_cong) (auto simp: nth_append)
  obtain y s where y: "foldl (softmax_step fp (softmax_max fp a n)) (a, d_of_int fp 0) [0..<n] = (y, s)" by fastforce
  with softmax_fold_append [OF assms, of fp "softmax_max fp a n" r "d_of_int fp 0"]
  have yr: "foldl (softmax_step fp (softmax_max fp a n)) (a @ r, d_of_int fp 0) [0..<n] = (y @ r, s)" "length y = length a"
    by auto
  show ?thesis
    using False yr(2) assms
    by (simp add: eng_softmax_def m y [unfolded softmax_step_def] yr(1) [unfolded softmax_step_def] lanes_append)
qed (simp add: eng_softmax_def)

lemma dequant_length:
  assumes "q \<in> set (builtin_ops fp cpu scalar)" "packed_ok q n"
  shows "length (the (qo_dequant_row q) w sc n) = n"
proof -
  have rb: "0 \<le> the (qo_row_bytes q) (int n)" using assms(2) by (simp add: packed_ok_def)
  have blocks: "length (concat (map F [0..<n div 256])) = n" if "\<And>b. length (F b) = 256" "n mod 256 = 0" for F :: "nat \<Rightarrow> 'a list"
  proof -
    have "n div 256 * 256 = n" using that(2) by (metis add.right_neutral div_mult_mod_eq)
    then show ?thesis using that(1) by (simp add: length_concat comp_def sum_list_triv)
  qed
  have grp: "length (concat (map F [0..<(n + 31) div 32])) = n" if "\<And>g. length (F g) = min (n - g * 32) 32" for F :: "nat \<Rightarrow> 'a list"
  proof -
    have "n \<le> (n + 31) div 32 * 32" using div_mult_mod_eq [of "n + 31" 32] mod_less_divisor [of 32 "n + 31"] by linarith
    then show ?thesis using groups_len [OF that, of "(n + 31) div 32"] by simp
  qed
  consider "q = eng_quant_mxfp4 fp cpu" | "q = eng_quant_q8_0 fp" | "q = eng_quant_q4_k fp cpu scalar" | "q = eng_quant_q6_k fp cpu scalar"
    using assms(1) by (auto simp: builtin_ops_def)
  then show ?thesis
  proof cases
    case 1
    have "min (g * 32 + 32) n - g * 32 = min (n - g * 32) 32" for g by arith
    then have "length (mx_dequant_group fp w sc n 32 g) = min (n - g * 32) 32" for g
      by (simp add: mx_dequant_group_def Let_def)
    from grp [OF this] 1 show ?thesis
      by (simp add: eng_quant_mxfp4_def mxfp4_dequant_row_def eng_mxfp4_dequant_row_g_def MXFP4_GROUP_def add.commute)
  next
    case 2
    then show ?thesis
      using grp [of "q8_0_dequant_group fp w n"] by (simp add: eng_quant_q8_0_def q8_0_dequant_row_def q8_0_dequant_group_def Let_def mult.commute)
  next
    case 3
    then have "n mod 256 = 0" using rb row_bytes_blocks(1) [of n] by (simp add: eng_quant_q4_k_def QK_K_def)
    then show ?thesis using 3 blocks [OF q4_block_len] by (simp add: eng_quant_q4_k_def q4_k_dequant_row_def QK_K_def)
  next
    case 4
    then have "n mod 256 = 0" using rb row_bytes_blocks(2) [of n] by (simp add: eng_quant_q6_k_def QK_K_def)
    then show ?thesis using 4 blocks [OF q6_block_len] by (simp add: eng_quant_q6_k_def q6_k_dequant_row_def QK_K_def)
  qed
qed

end
