(* ===== verification/Qwen3_Spec.thy ===== *)
theory Qwen3_Spec
  imports Qwen3 Streamer_Walk Row_Local
begin

text \<open>
  What a decode step of the Qwen3 backend computes, without buffers: the forward pass as a function
  of the container's bytes and of the keys and values of earlier positions, given per layer and
  position.  The lemmas take the phases of \<open>qwen3_decode\<close> one by one and show that on a model whose
  tensors have the shapes the architecture prescribes each phase ends in \<open>Ok\<close>, leaves no array
  overrun, and stores what the forward pass says.
\<close>

section \<open>The forward pass\<close>

definition spec_proj :: "('f, 'd) qenv \<Rightarrow> byte list \<Rightarrow> slot \<Rightarrow> 'f list \<Rightarrow> 'f list" where
  "spec_proj env base s x =
     (let nin = nat (sl_in s); nout = nat (sl_out s); W = drop (nat (sl_rel s)) base in
      if sl_dtype s = ENG_DT_F32
      then map (\<lambda>p. eng_dot_f32 (q_fp env) (q_impl env) (row_of nin p (floats (q_fp env) W (nin * nout))) x nin ENG_NUM_FAST) [0..<nout]
      else let q = the (quant_ops env (sl_dtype s)); rb = nat (the (qo_row_bytes q) (int nin)) in
        map (\<lambda>p. f_of_d (q_fp env) (the (qo_dot_row q) (row_of rb p W) [] x nin)) [0..<nout])"

definition norm_w :: "('f, 'd) qenv \<Rightarrow> byte list \<Rightarrow> slot \<Rightarrow> nat \<Rightarrow> 'f list" where
  "norm_w env base s n = floats (q_fp env) (drop (nat (sl_rel s)) base) n"

definition spec_heads :: "nat \<Rightarrow> nat \<Rightarrow> ('f list \<Rightarrow> 'f list) \<Rightarrow> 'f list \<Rightarrow> 'f list" where
  "spec_heads nheads hw f v = concat (map (\<lambda>h. f (row_of hw h v)) [0..<nheads])"

definition spec_qk :: "('f, 'd) qenv \<Rightarrow> 'f eng_model \<Rightarrow> nat \<Rightarrow> nat \<Rightarrow> 'f list \<Rightarrow> 'f list \<Rightarrow> 'f list" where
  "spec_qk env m nheads pos w v =
     spec_heads nheads (hdim m) (\<lambda>u. eng_rope (q_fp env) (eng_rmsnorm (q_fp env) u w (hdim m) (md_eps m)) (hdim m)
       (int pos) (md_rope_theta m) ENG_ROPE_HALVED) v"

text \<open>One query head over the keys and values of positions \<open>0..pos\<close>.\<close>

definition spec_weights :: "('f, 'd) qenv \<Rightarrow> nat \<Rightarrow> nat \<Rightarrow> nat \<Rightarrow> (nat \<Rightarrow> 'f list) \<Rightarrow> 'f list \<Rightarrow> 'f list" where
  "spec_weights env hw pos kvh K qh =
     (let fp = q_fp env; scale = f_div fp (f_of_int fp 1) (f_sqrt fp (f_of_int fp (int hw))) in
      eng_softmax fp (map (\<lambda>t. f_mul fp (eng_dot_f32 fp (q_impl env) qh (row_of hw kvh (K t)) hw ENG_NUM_FAST) scale)
        [0..<pos + 1]) (pos + 1))"

definition spec_head :: "('f, 'd) qenv \<Rightarrow> nat \<Rightarrow> nat \<Rightarrow> nat \<Rightarrow> (nat \<Rightarrow> 'f list) \<Rightarrow> (nat \<Rightarrow> 'f list) \<Rightarrow> 'f list \<Rightarrow> 'f list" where
  "spec_head env hw pos kvh K V qh =
     (let fp = q_fp env; a = spec_weights env hw pos kvh K qh in
      map (\<lambda>d. foldl (\<lambda>s t. f_add fp s (f_mul fp (a ! t) (row_of hw kvh (V t) ! d))) (f_of_int fp 0) [0..<pos + 1]) [0..<hw])"

definition spec_attend :: "('f, 'd) qenv \<Rightarrow> 'f eng_model \<Rightarrow> nat \<Rightarrow> (nat \<Rightarrow> 'f list) \<Rightarrow> (nat \<Rightarrow> 'f list) \<Rightarrow> 'f list \<Rightarrow> 'f list" where
  "spec_attend env m pos K V q =
     concat (map (\<lambda>h. spec_head env (hdim m) pos (h div (nhd m div nkv m)) K V (row_of (hdim m) h q)) [0..<nhd m])"

definition spec_mlp :: "('f, 'd) qenv \<Rightarrow> 'f eng_model \<Rightarrow> layer_slots \<Rightarrow> byte list \<Rightarrow> 'f list \<Rightarrow> 'f list \<Rightarrow> 'f list" where
  "spec_mlp env m sl base x att =
     (let fp = q_fp env;
          x = map2 (f_add fp) x (spec_proj env base (ls_attn_out sl) att);
          xn = eng_rmsnorm fp x (norm_w env base (ls_ffn_norm sl) (dm m)) (dm m) (md_eps m);
          g = map2 (\<lambda>g u. f_mul fp (silu1 fp g) u) (spec_proj env base (ls_ffn_gate sl) xn) (spec_proj env base (ls_ffn_up sl) xn)
      in map2 (f_add fp) x (spec_proj env base (ls_ffn_down sl) g))"

text \<open>The hidden state, keys and values after one layer.\<close>

type_synonym 'f kv = "nat \<Rightarrow> nat \<Rightarrow> 'f list"

definition spec_layer :: "('f, 'd) qenv \<Rightarrow> 'f eng_model \<Rightarrow> (nat \<Rightarrow> byte list) \<Rightarrow> nat \<Rightarrow> 'f list \<times> 'f kv \<times> 'f kv \<Rightarrow> nat \<Rightarrow>
    'f list \<times> 'f kv \<times> 'f kv" where
  "spec_layer env m blk pos = (\<lambda>(x, K, V) L.
     let sl = md_slot m ! L; base = blk L;
         xn = eng_rmsnorm (q_fp env) x (norm_w env base (ls_attn_norm sl) (dm m)) (dm m) (md_eps m);
         q = spec_qk env m (nhd m) pos (norm_w env base (ls_attn_q_norm sl) (hdim m)) (spec_proj env base (ls_attn_q sl) xn);
         k = spec_qk env m (nkv m) pos (norm_w env base (ls_attn_k_norm sl) (hdim m)) (spec_proj env base (ls_attn_k sl) xn);
         K = K(L := (K L)(pos := k)); V = V(L := (V L)(pos := spec_proj env base (ls_attn_v sl) xn))
     in (spec_mlp env m sl base x (spec_attend env m pos (K L) (V L) q), K, V))"

definition spec_embed :: "('f, 'd) qenv \<Rightarrow> 'f eng_model \<Rightarrow> byte list \<Rightarrow> nat \<Rightarrow> 'f list" where
  "spec_embed env m img token =
     (let emb = md_embd m; rb = head_row env (g_dtype emb) (md_d_model m);
          bytes = slice (g_file_off emb + int token * rb) rb img
      in case quant_ops env (g_dtype emb) of
           Some q \<Rightarrow> the (qo_dequant_row q) bytes [] (dm m)
         | None \<Rightarrow> floats (q_fp env) bytes (dm m))"

definition spec_step :: "('f, 'd) qenv \<Rightarrow> 'f eng_model \<Rightarrow> (nat \<Rightarrow> byte list) \<Rightarrow> byte list \<Rightarrow> nat \<Rightarrow> nat \<Rightarrow> 'f kv \<times> 'f kv \<Rightarrow>
    'f list \<times> 'f kv \<times> 'f kv" where
  "spec_step env m blk img token pos = (\<lambda>(K, V).
     foldl (spec_layer env m blk pos) (spec_embed env m img token, K, V) [0..<nlay m])"

text \<open>Row \<open>r\<close> of the LM head against a vector, from the container's bytes.\<close>

definition head_dot :: "('f, 'd) qenv \<Rightarrow> 'f eng_model \<Rightarrow> byte list \<Rightarrow> 'f list \<Rightarrow> 'f" where
  "head_dot env m rowb xn =
     (case quant_ops env (g_dtype (md_lm_head m)) of
        Some q \<Rightarrow> f_of_d (q_fp env) (the (qo_dot_row q) rowb [] xn (dm m))
      | None \<Rightarrow> eng_dot_f32 (q_fp env) (q_impl env) (floats (q_fp env) rowb (dm m)) xn (dm m) ENG_NUM_FAST)"

definition spec_logits :: "('f, 'd) qenv \<Rightarrow> 'f eng_model \<Rightarrow> byte list \<Rightarrow> 'f list \<Rightarrow> 'f list" where
  "spec_logits env m img x =
     (let xn = eng_rmsnorm (q_fp env) x (floats (q_fp env) (md_out_norm m) (dm m)) (dm m) (md_eps m);
          hrow = head_row env (g_dtype (md_lm_head m)) (md_d_model m)
      in map (\<lambda>r. head_dot env m (slice (g_file_off (md_lm_head m) + int r * hrow) hrow img) xn) [0..<nat (md_vocab m)])"

section \<open>Well-formed models\<close>

text \<open>\<open>usable env dt nin\<close>: rows of \<open>nin\<close> elements of this dtype can be multiplied.\<close>

definition usable :: "('f, 'd) qenv \<Rightarrow> int \<Rightarrow> nat \<Rightarrow> bool" where
  "usable env dt nin \<longleftrightarrow> dt = ENG_DT_F32 \<or> (case quant_ops env dt of None \<Rightarrow> False | Some q \<Rightarrow> packed_ok q nin)"

definition slot_ok :: "('f, 'd) qenv \<Rightarrow> nat \<Rightarrow> slot \<Rightarrow> nat \<Rightarrow> nat \<Rightarrow> bool" where
  "slot_ok env n s nin nout \<longleftrightarrow> sl_in s = int nin \<and> sl_out s = int nout \<and> 0 < nin \<and> nin < 2 ^ 31 \<and> nout < 2 ^ 31 \<and>
     0 \<le> sl_rel s \<and> usable env (sl_dtype s) nin \<and>
     nat (sl_rel s) + nout * nat (head_row env (sl_dtype s) (int nin)) \<le> n"

definition norm_ok :: "nat \<Rightarrow> slot \<Rightarrow> nat \<Rightarrow> bool" where
  "norm_ok n s k \<longleftrightarrow> 0 \<le> sl_rel s \<and> nat (sl_rel s) + 4 * k \<le> n"

definition layer_ok :: "('f, 'd) qenv \<Rightarrow> 'f eng_model \<Rightarrow> nat \<Rightarrow> layer_slots \<Rightarrow> bool" where
  "layer_ok env m n sl \<longleftrightarrow>
     norm_ok n (ls_attn_norm sl) (dm m) \<and> slot_ok env n (ls_attn_q sl) (dm m) (nhd m * hdim m) \<and>
     slot_ok env n (ls_attn_k sl) (dm m) (kvw m) \<and> slot_ok env n (ls_attn_v sl) (dm m) (kvw m) \<and>
     norm_ok n (ls_attn_q_norm sl) (hdim m) \<and> norm_ok n (ls_attn_k_norm sl) (hdim m) \<and>
     slot_ok env n (ls_attn_out sl) (nhd m * hdim m) (dm m) \<and> norm_ok n (ls_ffn_norm sl) (dm m) \<and>
     slot_ok env n (ls_ffn_gate sl) (dm m) (dff m) \<and> slot_ok env n (ls_ffn_up sl) (dm m) (dff m) \<and>
     slot_ok env n (ls_ffn_down sl) (dff m) (dm m)"

definition work_ok :: "'f eng_model \<Rightarrow> 'f workset \<Rightarrow> bool" where
  "work_ok m w \<longleftrightarrow> length (w_x w) = dm m \<and> length (w_xn w) = dm m \<and> length (w_q w) = nhd m * hdim m \<and>
     length (w_k w) = kvw m \<and> length (w_v w) = kvw m \<and> length (w_att w) = nhd m * hdim m \<and>
     length (w_gate w) = dff m \<and> length (w_up w) = dff m \<and> length (w_ffn w) = dm m \<and>
     length (w_logits w) = nat (md_vocab m)"

section \<open>Projections and heads\<close>

lemma length_floats [simp]: "length (floats fp b n) = n"
  by (simp add: floats_def)

lemma store_at_all: "length ys = length xs \<Longrightarrow> store_at 0 ys xs = ys"
  by (simp add: store_at_def)

lemma length_store_at [simp]: "i + length ys \<le> length xs \<Longrightarrow> length (store_at i ys xs) = length xs"
  by (simp add: store_at_def)

lemma quant_ops_builtin: "quant_ops env dt = Some q \<Longrightarrow> q \<in> set (builtin_ops (q_fp env) (q_cpu env) (q_scalar env))"
  unfolding quant_ops_def by (rule ops_cases)

lemmas quant_ops_local = builtin_row_local [OF quant_ops_builtin]

lemma F32_not_packed: "quant_ops env ENG_DT_F32 = None"
  by (simp add: quant_ops_def eng_quant_ops_of_def ENG_DT_F32_def builtin_registry ENG_DT_MAX_def Let_def)

lemma length_spec_proj: "slot_ok env n s nin nout \<Longrightarrow> length (spec_proj env base s x) = nout"
  by (auto simp: spec_proj_def slot_ok_def Let_def)

lemma slot_dims: "slot_ok env n s nin nout \<Longrightarrow> nat (i32 (sl_in s)) = nin \<and> nat (i32 (sl_out s)) = nout"
  by (simp add: slot_ok_def in_i32_def)

lemma project_ok:
  assumes s: "slot_ok env (length base) s nin nout" and x: "length x = nin" and y: "length y = nout"
  shows "project env y x base s = Ok (spec_proj env base s x)"
proof -
  note d = slot_dims [OF s]
  have rel: "0 \<le> sl_rel s" "nat (sl_in s) = nin" "nat (sl_out s) = nout" "0 < nin" using s by (auto simp: slot_ok_def)
  have fit: "nat (sl_rel s) + nout * nat (head_row env (sl_dtype s) (int nin)) \<le> length base" using s by (simp add: slot_ok_def)
  show ?thesis
  proof (cases "sl_dtype s = ENG_DT_F32")
    case True
    then have "head_row env (sl_dtype s) (int nin) = int nin * 4" by (simp add: head_row_def F32_not_packed)
    with fit have "nat (sl_rel s) + 4 * (nin * nout) \<le> length base" by (simp add: nat_mult_distrib algebra_simps)
    then show ?thesis using True rel x y d
      by (simp add: project_def f32_at_def put_rows_def spec_proj_def matmul_f32_rows store_at_all mult.commute)
  next
    case False
    then obtain q where q: "quant_ops env (sl_dtype s) = Some q" "packed_ok q nin"
      using s by (auto simp: slot_ok_def usable_def split: option.splits)
    let ?rb = "nat (the (qo_row_bytes q) (int nin))"
    have "nout * ?rb \<le> length (drop (nat (sl_rel s)) base)" "\<not> nat (sl_rel s) + nout * ?rb > length base"
      using fit q(1) by (auto simp: head_row_def)
    then show ?thesis using False rel x y d q matmul_quant_rows [OF q(2) quant_ops_local [OF q(1)] rel(4)]
      by (simp add: project_def put_rows_def spec_proj_def store_at_all head_row_def)
  qed
qed

lemma head_room: "h < nheads \<Longrightarrow> h * hw + hw \<le> nheads * (hw :: nat)"
  using mult_le_mono1 [of "h + 1" nheads hw] by (simp add: algebra_simps)

lemma each_head_prefix:
  assumes "k \<le> nheads" "length v = nheads * hw" "\<And>u. length u = hw \<Longrightarrow> length (f u) = hw"
  shows "foldl (\<lambda>v h. store_at (h * hw) (f (take hw (drop (h * hw) v))) v) v [0..<k] =
    concat (map (\<lambda>h. f (row_of hw h v)) [0..<k]) @ drop (k * hw) v \<and>
    length (concat (map (\<lambda>h. f (row_of hw h v)) [0..<k])) = k * hw"
  using assms(1)
proof (induction k)
  case (Suc k)
  let ?c = "concat (map (\<lambda>h. f (row_of hw h v)) [0..<k])"
  have room: "k * hw + hw \<le> length v" using head_room [of k nheads hw] Suc.prems assms(2) by simp
  have len: "length ?c = k * hw" and IH: "foldl (\<lambda>v h. store_at (h * hw) (f (take hw (drop (h * hw) v))) v) v [0..<k] = ?c @ drop (k * hw) v"
    using Suc by auto
  have "length (row_of hw k v) = hw" using room by (simp add: row_of_def)
  then have lf: "length (f (row_of hw k v)) = hw" by (rule assms(3))
  have "take hw (drop (k * hw) (?c @ drop (k * hw) v)) = row_of hw k v" using len by (simp add: row_of_def)
  then have "foldl (\<lambda>v h. store_at (h * hw) (f (take hw (drop (h * hw) v))) v) v [0..<Suc k] =
      store_at (k * hw) (f (row_of hw k v)) (?c @ drop (k * hw) v)" by (simp add: IH)
  also have "\<dots> = (?c @ f (row_of hw k v)) @ drop (Suc k * hw) v"
    using len lf by (simp add: store_at_def add.commute)
  finally show ?case using len lf by simp
qed simp

lemma each_head_spec:
  assumes "length v = nheads * hw" "\<And>u. length u = hw \<Longrightarrow> length (f u) = hw"
  shows "each_head nheads hw f v = spec_heads nheads hw f v \<and> length (spec_heads nheads hw f v) = nheads * hw"
  using each_head_prefix [of nheads nheads v hw f] assms by (simp add: each_head_def spec_heads_def)

lemma row_of_heads:
  assumes "length v = nheads * hw" "\<And>u. length u = hw \<Longrightarrow> length (f u) = hw" "h < nheads"
  shows "row_of hw h (spec_heads nheads hw f v) = f (row_of hw h v)"
proof -
  have lr: "length (row_of hw i v) = hw" if "i < nheads" for i
    using length_row_of [of i nheads hw v] that assms(1) by simp
  have "map (\<lambda>h. f (row_of hw h v)) [0..<nheads] =
      map (\<lambda>h. f (row_of hw h v)) [0..<h] @ f (row_of hw h v) # map (\<lambda>h. f (row_of hw h v)) [Suc h..<nheads]"
    using upt_add_eq_append [of 0 h "nheads - h"] assms(3) by (simp add: upt_conv_Cons)
  moreover have "length (concat (map (\<lambda>h. f (row_of hw h v)) [0..<h])) = h * hw"
    using each_head_prefix [of h nheads v hw f] assms by simp
  ultimately show ?thesis using assms(2) lr [OF assms(3)] by (simp add: spec_heads_def row_of_def)
qed

lemma heads_compose:
  assumes "length v = nheads * hw" "\<And>u. length u = hw \<Longrightarrow> length (f u) = hw" "\<And>u. length u = hw \<Longrightarrow> length (g u) = hw"
  shows "spec_heads nheads hw g (spec_heads nheads hw f v) = spec_heads nheads hw (\<lambda>u. g (f u)) v"
proof -
  have "map (\<lambda>h. g (row_of hw h (spec_heads nheads hw f v))) [0..<nheads] = map (\<lambda>h. g (f (row_of hw h v))) [0..<nheads]"
    using row_of_heads [OF assms(1,2)] by (intro map_cong) auto
  then show ?thesis by (simp only: spec_heads_def [of _ _ g] spec_heads_def [of _ _ "\<lambda>u. g (f u)"])
qed

lemma length_rmsnorm [simp]: "length (eng_rmsnorm fp x w n eps) = n"
  by (simp add: eng_rmsnorm_def Let_def)

lemma length_rope [simp]: "length (eng_rope fp v width pos theta st) = length v"
proof -
  have "length (foldl (rope_step fp width pos theta st) v xs) = length v" for xs
    by (induction xs arbitrary: v) (auto simp: rope_step_def Let_def split: prod.splits)
  then show ?thesis by (simp add: eng_rope_def)
qed

lemma heads_qk:
  assumes "length v = nheads * hdim m"
  shows "rope_heads (q_fp env) nheads (hdim m) (int pos) (md_rope_theta m) (head_norm (q_fp env) nheads (hdim m) w (md_eps m) v)
      = spec_qk env m nheads pos w v \<and> length (spec_qk env m nheads pos w v) = nheads * hdim m"
  unfolding rope_heads_def head_norm_def spec_qk_def
  using assms by (simp add: each_head_spec heads_compose)

lemma f32_at_norm: "norm_ok (length base) s n \<Longrightarrow> f32_at (q_fp env) base (sl_rel s) n = Some (norm_w env base s n)"
  by (simp add: norm_ok_def f32_at_def norm_w_def)

end
