(* ===== verification/Qwen3_Phase.thy ===== *)
theory Qwen3_Phase
  imports Qwen3_Spec
begin

text \<open>
  The phases of one layer: the projections with QK-norm and RoPE, the append to the key and value
  caches, grouped-query attention over them, and the feed-forward block.  Each is shown to end in
  \<open>Ok\<close> on well-formed models and to store what \<open>spec_layer\<close> computes.
\<close>

section \<open>Projections\<close>

lemma layer_okD:
  assumes "layer_ok env m n sl"
  shows "norm_ok n (ls_attn_norm sl) (dm m)" "slot_ok env n (ls_attn_q sl) (dm m) (nhd m * hdim m)"
    "slot_ok env n (ls_attn_k sl) (dm m) (kvw m)" "slot_ok env n (ls_attn_v sl) (dm m) (kvw m)"
    "norm_ok n (ls_attn_q_norm sl) (hdim m)" "norm_ok n (ls_attn_k_norm sl) (hdim m)"
    "slot_ok env n (ls_attn_out sl) (nhd m * hdim m) (dm m)" "norm_ok n (ls_ffn_norm sl) (dm m)"
    "slot_ok env n (ls_ffn_gate sl) (dm m) (dff m)" "slot_ok env n (ls_ffn_up sl) (dm m) (dff m)"
    "slot_ok env n (ls_ffn_down sl) (dff m) (dm m)"
  using assms by (auto simp: layer_ok_def)

lemma work_okD:
  assumes "work_ok m w"
  shows "length (w_x w) = dm m" "length (w_xn w) = dm m" "length (w_q w) = nhd m * hdim m" "length (w_k w) = kvw m"
    "length (w_v w) = kvw m" "length (w_att w) = nhd m * hdim m" "length (w_gate w) = dff m" "length (w_up w) = dff m"
    "length (w_ffn w) = dm m" "length (w_logits w) = nat (md_vocab m)"
  using assms by (auto simp: work_ok_def)

definition spec_xn :: "('f, 'd) qenv \<Rightarrow> 'f eng_model \<Rightarrow> byte list \<Rightarrow> slot \<Rightarrow> 'f list \<Rightarrow> 'f list" where
  "spec_xn env m base s x = eng_rmsnorm (q_fp env) x (norm_w env base s (dm m)) (dm m) (md_eps m)"

lemma length_spec_xn [simp]: "length (spec_xn env m base s x) = dm m"
  by (simp add: spec_xn_def)

definition spec_q :: "('f, 'd) qenv \<Rightarrow> 'f eng_model \<Rightarrow> layer_slots \<Rightarrow> byte list \<Rightarrow> nat \<Rightarrow> 'f list \<Rightarrow> 'f list" where
  "spec_q env m sl base pos xn = spec_qk env m (nhd m) pos (norm_w env base (ls_attn_q_norm sl) (hdim m)) (spec_proj env base (ls_attn_q sl) xn)"

definition spec_k :: "('f, 'd) qenv \<Rightarrow> 'f eng_model \<Rightarrow> layer_slots \<Rightarrow> byte list \<Rightarrow> nat \<Rightarrow> 'f list \<Rightarrow> 'f list" where
  "spec_k env m sl base pos xn = spec_qk env m (nkv m) pos (norm_w env base (ls_attn_k_norm sl) (hdim m)) (spec_proj env base (ls_attn_k sl) xn)"

lemma qkv_lengths:
  assumes "layer_ok env m n sl"
  shows "length (spec_q env m sl base pos xn) = nhd m * hdim m" "length (spec_k env m sl base pos xn) = kvw m"
    "length (spec_proj env base (ls_attn_v sl) xn) = kvw m"
proof -
  note l = layer_okD [OF assms]
  show "length (spec_q env m sl base pos xn) = nhd m * hdim m"
    unfolding spec_q_def using heads_qk [OF length_spec_proj [OF l(2)]] by blast
  show "length (spec_k env m sl base pos xn) = kvw m"
    unfolding spec_k_def using heads_qk [OF length_spec_proj [OF l(3)]] by blast
  show "length (spec_proj env base (ls_attn_v sl) xn) = kvw m" by (rule length_spec_proj [OF l(4)])
qed

lemma attn_qkv_ok:
  assumes l: "layer_ok env m (length base) sl" and w: "work_ok m w"
  shows "attn_qkv env m sl base pos w = Ok
    (w\<lparr>w_xn := spec_xn env m base (ls_attn_norm sl) (w_x w),
       w_q := spec_q env m sl base pos (spec_xn env m base (ls_attn_norm sl) (w_x w)),
       w_k := spec_k env m sl base pos (spec_xn env m base (ls_attn_norm sl) (w_x w)),
       w_v := spec_proj env base (ls_attn_v sl) (spec_xn env m base (ls_attn_norm sl) (w_x w))\<rparr>)"
proof -
  let ?xn = "spec_xn env m base (ls_attn_norm sl) (w_x w)"
  note l' = layer_okD [OF l] and w' = work_okD [OF w]
  have p: "project env y ?xn base (ls_attn_q sl) = Ok (spec_proj env base (ls_attn_q sl) ?xn)" if "length y = nhd m * hdim m" for y
    by (rule project_ok [OF l'(2) _ that]) simp
  have pk: "project env y ?xn base (ls_attn_k sl) = Ok (spec_proj env base (ls_attn_k sl) ?xn)"
    and pv: "project env y ?xn base (ls_attn_v sl) = Ok (spec_proj env base (ls_attn_v sl) ?xn)" if "length y = kvw m" for y
    by (rule project_ok [OF l'(3) _ that], simp, rule project_ok [OF l'(4) _ that], simp)
  have lq: "length (spec_proj env base (ls_attn_q sl) ?xn) = nhd m * hdim m"
    and lk: "length (spec_proj env base (ls_attn_k sl) ?xn) = nkv m * hdim m"
    by (rule length_spec_proj [OF l'(2)], rule length_spec_proj [OF l'(3)])
  show ?thesis
    using w' p pk pv heads_qk [OF lq, of env] heads_qk [OF lk, of env]
    by (simp add: attn_qkv_def f32_at_norm [OF l'(1)] f32_at_norm [OF l'(5)] f32_at_norm [OF l'(6)]
        spec_xn_def [symmetric] spec_q_def spec_k_def Let_def)
qed

section \<open>The caches\<close>

definition seq_ok :: "'f eng_model \<Rightarrow> 'f eng_seq_state \<Rightarrow> bool" where
  "seq_ok m s \<longleftrightarrow> 0 < sq_context s \<and> length (sq_kc s) = nlay m * nat (sq_context s) * kvw m \<and>
     length (sq_vc s) = nlay m * nat (sq_context s) * kvw m"

abbreviation kv_row :: "'f eng_model \<Rightarrow> 'f eng_seq_state \<Rightarrow> 'f list \<Rightarrow> nat \<Rightarrow> nat \<Rightarrow> 'f list" where
  "kv_row m s c L t \<equiv> row_of (kvw m) (L * nat (sq_context s) + t) c"

lemma row_of_store:
  assumes "length ys = k" "p < n" "p' < n" "n * k \<le> length xs"
  shows "row_of k p' (store_at (p * k) ys xs) = (if p' = p then ys else row_of k p' xs)"
proof -
  have room: "p * k + k \<le> length xs" "p' * k + k \<le> length xs" using head_room [of _ n k] assms(2-4) by (meson le_trans)+
  consider "p' = p" | "p' < p" | "p < p'" by linarith
  then show ?thesis
  proof cases
    case 1
    then show ?thesis using assms(1) room by (simp add: row_of_def store_at_def)
  next
    case 2
    then have "p' * k + k \<le> p * k" by (rule head_room)
    then have "take (k + p' * k) (store_at (p * k) ys xs) = take (k + p' * k) xs"
      using room by (simp add: store_at_def min_def)
    then show ?thesis using 2 by (simp add: row_of_def take_drop)
  next
    case 3
    then have "p * k + k \<le> p' * k" by (rule head_room)
    then have "drop (p' * k) (store_at (p * k) ys xs) = drop (p' * k) xs"
      using assms(1) room 3 by (simp add: store_at_def add.commute)
    then show ?thesis using 3 by (simp add: row_of_def)
  qed
qed

lemma cell_index:
  assumes "L < nl" "t < ctx"
  shows "L * ctx + t < nl * (ctx :: nat)"
  using head_room [OF assms(1), of ctx] assms(2) by linarith

lemma cell_inj:
  assumes "t < ctx" "t' < (ctx :: nat)" "L * ctx + t = L' * ctx + t'"
  shows "L = L' \<and> t = t'"
proof -
  have "(L * ctx + t) div ctx = L" "(L' * ctx + t') div ctx = L'" using assms(1,2) by auto
  with assms(3) show ?thesis by auto
qed

lemma kv_append_ok:
  assumes s: "seq_ok m s" and L: "L < nlay m" and pos: "pos < nat (sq_context s)"
    and k: "length (w_k w) = kvw m" and v: "length (w_v w) = kvw m"
  obtains s' where "kv_append m L pos w s = Some s'" "seq_ok m s'" "sq_context s' = sq_context s" "sq_n_seen s' = sq_n_seen s"
    "\<And>L' t. L' < nlay m \<Longrightarrow> t < nat (sq_context s) \<Longrightarrow>
       kv_row m s (sq_kc s') L' t = (if L' = L \<and> t = pos then w_k w else kv_row m s (sq_kc s) L' t) \<and>
       kv_row m s (sq_vc s') L' t = (if L' = L \<and> t = pos then w_v w else kv_row m s (sq_vc s) L' t)"
proof -
  let ?c = "nat (sq_context s)" and ?p = "L * nat (sq_context s) + pos"
  have p: "?p < nlay m * ?c" by (rule cell_index [OF L pos])
  have room: "?p * kvw m + kvw m \<le> nlay m * ?c * kvw m" by (rule head_room [OF p])
  define s' where "s' = s\<lparr>sq_kc := store_at (?p * kvw m) (w_k w) (sq_kc s), sq_vc := store_at (?p * kvw m) (w_v w) (sq_vc s)\<rparr>"
  have "kv_append m L pos w s = Some s'" using s room k v by (simp add: kv_append_def seq_ok_def s'_def Let_def)
  moreover have "seq_ok m s'" using s room k v by (simp add: seq_ok_def s'_def)
  moreover have "kv_row m s (sq_kc s') L' t = (if L' = L \<and> t = pos then w_k w else kv_row m s (sq_kc s) L' t) \<and>
       kv_row m s (sq_vc s') L' t = (if L' = L \<and> t = pos then w_v w else kv_row m s (sq_vc s) L' t)"
    if "L' < nlay m" "t < ?c" for L' t
  proof -
    have q: "L' * ?c + t < nlay m * ?c" by (rule cell_index [OF that])
    have "(L' * ?c + t = ?p) = (L' = L \<and> t = pos)" using cell_inj [OF that(2) pos, of L' L] by auto
    then show ?thesis
      using row_of_store [OF k p q, of "sq_kc s"] row_of_store [OF v p q, of "sq_vc s"] s by (simp add: s'_def seq_ok_def)
  qed
  ultimately show ?thesis using that [of s'] by (simp add: s'_def)
qed

section \<open>Attention\<close>

lemma row_of_row:
  assumes "h < nh"
  shows "row_of k h (row_of (nh * k) p c) = take k (drop (p * (nh * k) + h * k) c)"
  using head_room [OF assms, of k] by (simp add: row_of_def drop_take add.commute)

lemma weighted_sum:
  "foldl (\<lambda>oh t. lanes hw (\<lambda>d v. g t d v) oh) (replicate hw z) ts = map (\<lambda>d. foldl (\<lambda>s t. g t d s) z ts) [0..<hw]"
proof (induction ts rule: rev_induct)
  case Nil
  then show ?case by (simp add: map_replicate_const)
next
  case (snoc t ts)
  then show ?case by (simp add: lanes_map)
qed

lemma kv_head_bound:
  assumes "h < nh" "0 < nk" "nh mod nk = (0::nat)"
  shows "h div (nh div nk) < nk"
proof -
  have "nh = nk * (nh div nk)" using assms(3) by (metis add.right_neutral div_mult_mod_eq mult.commute)
  then show ?thesis using assms(1) by (metis less_mult_imp_div_less)
qed

lemma le_diffI: "a + b \<le> (n::nat) \<Longrightarrow> b \<le> n - a"
  by arith

lemma attend_head_ok:
  assumes s: "seq_ok m s" and L: "L < nlay m" and pos: "pos < nat (sq_context s)" "pos < length (w_scores w)"
    and q: "length (w_q w) = nhd m * hdim m" and h: "h < nhd m" and kv: "0 < nkv m" "nhd m mod nkv m = 0"
  shows "\<exists>sc. length sc = length (w_scores w) \<and> attend_head env m s L pos w h = w\<lparr>w_scores := sc,
    w_att := store_at (h * hdim m) (spec_head env (hdim m) pos (h div (nhd m div nkv m)) (kv_row m s (sq_kc s) L)
      (kv_row m s (sq_vc s) L) (row_of (hdim m) h (w_q w))) (w_att w)\<rparr>"
proof -
  let ?fp = "q_fp env" and ?hw = "hdim m" and ?kvh = "h div (nhd m div nkv m)" and ?c = "nat (sq_context s)"
  let ?scale = "f_div ?fp (f_of_int ?fp 1) (f_sqrt ?fp (f_of_int ?fp (int ?hw)))"
  let ?off = "\<lambda>t. (L * ?c + t) * kvw m + ?kvh * ?hw"
  have kvh: "?kvh < nkv m" by (rule kv_head_bound [OF h kv])
  have lens: "length (sq_kc s) = nlay m * ?c * kvw m" "length (sq_vc s) = nlay m * ?c * kvw m" using s by (auto simp: seq_ok_def)
  have room: "?off t + ?hw \<le> nlay m * ?c * kvw m" if "t < pos + 1" for t
    using head_room [OF cell_index [OF L, of t ?c], of "kvw m"] head_room [OF kvh, of ?hw] that pos(1) by simp
  have dot: "eng_dot_f32 ?fp (q_impl env) (drop (h * ?hw) (w_q w)) (drop (?off t) (sq_kc s)) ?hw ENG_NUM_FAST =
      eng_dot_f32 ?fp (q_impl env) (row_of ?hw h (w_q w)) (row_of ?hw ?kvh (kv_row m s (sq_kc s) L t)) ?hw ENG_NUM_FAST"
    if "t < pos + 1" for t
  proof -
    have e: "row_of ?hw h (w_q w) = take ?hw (drop (h * ?hw) (w_q w))"
      "row_of ?hw ?kvh (kv_row m s (sq_kc s) L t) = take ?hw (drop (?off t) (sq_kc s))"
      by (simp_all only: row_of_def [of _ h] row_of_row [OF kvh])
    have "?hw \<le> length (drop (h * ?hw) (w_q w))" "?hw \<le> length (drop (?off t) (sq_kc s))"
      using le_diffI [OF head_room [OF h, of ?hw]] le_diffI [OF room [OF that]] unfolding length_drop lens q .
    then show ?thesis unfolding e by (rule dot_f32_take)
  qed
  define f where "f = (\<lambda>t. f_mul ?fp (eng_dot_f32 ?fp (q_impl env) (row_of ?hw h (w_q w)) (row_of ?hw ?kvh (kv_row m s (sq_kc s) L t)) ?hw ENG_NUM_FAST) ?scale)"
  define sc where "sc = spec_weights env ?hw pos ?kvh (kv_row m s (sq_kc s) L) (row_of ?hw h (w_q w))"
  define sc' where "sc' = sc @ drop (pos + 1) (w_scores w)"
  have ln: "lanes (pos + 1) (\<lambda>t _. f_mul ?fp (eng_dot_f32 ?fp (q_impl env) (drop (h * ?hw) (w_q w)) (drop (?off t) (sq_kc s)) ?hw ENG_NUM_FAST) ?scale) (w_scores w)
      = map f [0..<pos + 1] @ drop (pos + 1) (w_scores w)"
    unfolding f_def using pos(2) dot by (subst lanes_prefix) auto
  have sm: "eng_softmax ?fp (map f [0..<pos + 1]) (pos + 1) = sc"
    unfolding sc_def spec_weights_def Let_def f_def ..
  have sc: "eng_softmax ?fp (map f [0..<pos + 1] @ drop (pos + 1) (w_scores w)) (pos + 1) = sc'" "length sc = pos + 1"
    using softmax_append [of "pos + 1" "map f [0..<pos + 1]" ?fp] sm unfolding sc'_def by (simp_all del: upt_Suc)
  have vt: "sc' ! t = sc ! t \<and> drop (?off t) (sq_vc s) ! d = row_of ?hw ?kvh (kv_row m s (sq_vc s) L t) ! d"
    if "t < pos + 1" "d < ?hw" for t d
  proof
    show "sc' ! t = sc ! t" using sc(2) that(1) by (simp add: sc'_def nth_append)
    show "drop (?off t) (sq_vc s) ! d = row_of ?hw ?kvh (kv_row m s (sq_vc s) L t) ! d"
      unfolding row_of_row [OF kvh] by (rule nth_take [OF that(2), symmetric])
  qed
  have "map (\<lambda>d. foldl (\<lambda>v t. f_add ?fp v (f_mul ?fp (sc' ! t) (drop (?off t) (sq_vc s) ! d))) (f_of_int ?fp 0) [0..<pos + 1]) [0..<?hw] =
      map (\<lambda>d. foldl (\<lambda>v t. f_add ?fp v (f_mul ?fp (sc ! t) (row_of ?hw ?kvh (kv_row m s (sq_vc s) L t) ! d))) (f_of_int ?fp 0) [0..<pos + 1]) [0..<?hw]"
    using vt by (intro map_cong foldl_cong refl) (simp del: upt_Suc)
  then have oh: "foldl (\<lambda>oh t. lanes ?hw (\<lambda>d v. f_add ?fp v (f_mul ?fp (sc' ! t) (drop (?off t) (sq_vc s) ! d))) oh)
      (replicate ?hw (f_of_int ?fp 0)) [0..<pos + 1]
    = spec_head env ?hw pos ?kvh (kv_row m s (sq_kc s) L) (kv_row m s (sq_vc s) L) (row_of ?hw h (w_q w))"
    unfolding weighted_sum by (simp add: spec_head_def Let_def sc_def)
  have "attend_head env m s L pos w h = w\<lparr>w_scores := sc',
    w_att := store_at (h * ?hw) (spec_head env ?hw pos ?kvh (kv_row m s (sq_kc s) L) (kv_row m s (sq_vc s) L)
      (row_of ?hw h (w_q w))) (w_att w)\<rparr>"
    unfolding attend_head_def Let_def ln sc(1) oh ..
  moreover have "length sc' = length (w_scores w)" using sc(2) pos(2) by (simp add: sc'_def)
  ultimately show ?thesis by blast
qed

lemma length_spec_head [simp]: "length (spec_head env hw pos kvh K V qh) = hw"
  by (simp add: spec_head_def Let_def)

lemma store_at_grow:
  "length c = k * hw \<Longrightarrow> length u = hw \<Longrightarrow> store_at (k * hw) u (c @ drop (k * hw) a) = (c @ u) @ drop (Suc k * hw) a"
  by (simp add: store_at_def add.commute)

lemma attend_ok:
  assumes s: "seq_ok m s" and L: "L < nlay m" and pos: "pos < nat (sq_context s)" "pos < length (w_scores w)"
    and w: "work_ok m w" and kv: "0 < nkv m" "nhd m mod nkv m = 0"
  shows "\<exists>sc. length sc = length (w_scores w) \<and> attend env m s L pos w = Some (w\<lparr>w_scores := sc,
    w_att := spec_attend env m pos (kv_row m s (sq_kc s) L) (kv_row m s (sq_vc s) L) (w_q w)\<rparr>)"
proof -
  let ?hw = "hdim m"
  let ?f = "\<lambda>h. spec_head env ?hw pos (h div (nhd m div nkv m)) (kv_row m s (sq_kc s) L) (kv_row m s (sq_vc s) L) (row_of ?hw h (w_q w))"
  have "\<exists>sc. length sc = length (w_scores w) \<and> foldl (attend_head env m s L pos) w [0..<k] =
      w\<lparr>w_scores := sc, w_att := concat (map ?f [0..<k]) @ drop (k * ?hw) (w_att w)\<rparr>" if "k \<le> nhd m" for k
    using that
  proof (induction k)
    case 0
    show ?case by (intro exI [of _ "w_scores w"]) simp
  next
    case (Suc k)
    then obtain sc where sc: "length sc = length (w_scores w)"
      "foldl (attend_head env m s L pos) w [0..<k] = w\<lparr>w_scores := sc, w_att := concat (map ?f [0..<k]) @ drop (k * ?hw) (w_att w)\<rparr>"
      by auto
    let ?w = "w\<lparr>w_scores := sc, w_att := concat (map ?f [0..<k]) @ drop (k * ?hw) (w_att w)\<rparr>"
    have "length (w_q ?w) = nhd m * ?hw" using work_okD [OF w] by simp
    from attend_head_ok [OF s L pos(1) _ this _ kv, of k env] Suc.prems sc(1) pos(2)
    obtain sc' where sc': "length sc' = length sc" "attend_head env m s L pos ?w k =
        ?w\<lparr>w_scores := sc', w_att := store_at (k * ?hw) (?f k) (w_att ?w)\<rparr>" by auto
    have c: "length (concat (map ?f [0..<k])) = k * ?hw" by (simp add: length_concat comp_def sum_list_triv)
    have "w_att ?w = concat (map ?f [0..<k]) @ drop (k * ?hw) (w_att w)" by simp
    then have "store_at (k * ?hw) (?f k) (w_att ?w) = (concat (map ?f [0..<k]) @ ?f k) @ drop (Suc k * ?hw) (w_att w)"
      using store_at_grow [OF c length_spec_head] by (simp only:)
    also have "concat (map ?f [0..<k]) @ ?f k = concat (map ?f [0..<Suc k])" by simp
    finally have "attend_head env m s L pos ?w k = w\<lparr>w_scores := sc', w_att := concat (map ?f [0..<Suc k]) @ drop (Suc k * ?hw) (w_att w)\<rparr>"
      using sc'(2) by simp
    with sc(2) have "foldl (attend_head env m s L pos) w [0..<Suc k] =
        w\<lparr>w_scores := sc', w_att := concat (map ?f [0..<Suc k]) @ drop (Suc k * ?hw) (w_att w)\<rparr>"
      unfolding upt_Suc_append [OF le0] foldl_append foldl.simps by (simp only:)
    then show ?case using trans [OF sc'(1) sc(1)] by blast
  qed
  from this [of "nhd m"] obtain sc where sc: "length sc = length (w_scores w)"
    "foldl (attend_head env m s L pos) w [0..<nhd m] = w\<lparr>w_scores := sc, w_att := concat (map ?f [0..<nhd m]) @ drop (nhd m * ?hw) (w_att w)\<rparr>"
    by blast
  have "drop (nhd m * ?hw) (w_att w) = []" using work_okD(6) [OF w] by simp
  with sc(2) have "foldl (attend_head env m s L pos) w [0..<nhd m] =
      w\<lparr>w_scores := sc, w_att := spec_attend env m pos (kv_row m s (sq_kc s) L) (kv_row m s (sq_vc s) L) (w_q w)\<rparr>"
    unfolding spec_attend_def by (simp only: append_Nil2)
  moreover have "\<not> (nhd m > 0 \<and> length (w_scores w) < pos + 1)" using pos(2) by simp
  ultimately show ?thesis using sc(1) unfolding attend_def by (intro exI [of _ sc] conjI) (simp_all only: if_False)
qed

lemma length_spec_attend: "length (spec_attend env m pos K V q) = nhd m * hdim m"
  by (simp add: spec_attend_def length_concat comp_def sum_list_triv)

section \<open>The feed-forward block\<close>

lemma map2_lanes: "length a = n \<Longrightarrow> length b = n \<Longrightarrow> lanes n (\<lambda>i v. g v (b ! i)) a = map2 g a b"
  by (rule nth_equalityI) (simp_all add: lanes_map)

lemma residual_ok:
  "length (w_x w) = dm m \<Longrightarrow> length (w_ffn w) = dm m \<Longrightarrow>
    add_residual env m w = w\<lparr>w_x := map2 (f_add (q_fp env)) (w_x w) (w_ffn w)\<rparr>"
  by (simp add: add_residual_def map2_lanes)

lemma out_mlp_ok:
  assumes l: "layer_ok env m (length base) sl" and w: "work_ok m w"
  shows "\<exists>xn g u f. out_mlp env m sl base w = Ok (w\<lparr>w_x := spec_mlp env m sl base (w_x w) (w_att w), w_xn := xn,
      w_gate := g, w_up := u, w_ffn := f\<rparr>) \<and> length xn = dm m \<and> length g = dff m \<and> length u = dff m \<and> length f = dm m
    \<and> length (spec_mlp env m sl base (w_x w) (w_att w)) = dm m"
proof -
  note l' = layer_okD [OF l] and w' = work_okD [OF w]
  define f1 where "f1 = spec_proj env base (ls_attn_out sl) (w_att w)"
  define x1 where "x1 = map2 (f_add (q_fp env)) (w_x w) f1"
  define xn where "xn = spec_xn env m base (ls_ffn_norm sl) x1"
  define g where "g = spec_proj env base (ls_ffn_gate sl) xn"
  define u where "u = spec_proj env base (ls_ffn_up sl) xn"
  define a where "a = map2 (\<lambda>g u. f_mul (q_fp env) (silu1 (q_fp env) g) u) g u"
  define f2 where "f2 = spec_proj env base (ls_ffn_down sl) a"
  have len: "length f1 = dm m" "length x1 = dm m" "length xn = dm m" "length g = dff m" "length u = dff m" "length a = dff m"
    "length f2 = dm m"
  proof -
    show f1: "length f1 = dm m" unfolding f1_def by (rule length_spec_proj [OF l'(7)])
    show "length x1 = dm m" using w'(1) f1 by (simp add: x1_def)
    show "length xn = dm m" by (simp add: xn_def)
    show gu: "length g = dff m" "length u = dff m"
      unfolding g_def u_def by (rule length_spec_proj [OF l'(9)], rule length_spec_proj [OF l'(10)])
    show "length a = dff m" using gu by (simp add: a_def)
    show "length f2 = dm m" unfolding f2_def by (rule length_spec_proj [OF l'(11)])
  qed
  have p1: "project env (w_ffn w) (w_att w) base (ls_attn_out sl) = Ok f1"
    unfolding f1_def by (rule project_ok [OF l'(7) w'(6,9)])
  have p2: "project env (w_gate w) xn base (ls_ffn_gate sl) = Ok g" "project env (w_up w) xn base (ls_ffn_up sl) = Ok u"
    unfolding g_def u_def by (rule project_ok [OF l'(9) len(3) w'(7)], rule project_ok [OF l'(10) len(3) w'(8)])
  have p3: "project env f1 a base (ls_ffn_down sl) = Ok f2"
    unfolding f2_def by (rule project_ok [OF l'(11) len(6,1)])
  have ga: "lanes (dff m) (\<lambda>i v. f_mul (q_fp env) (silu1 (q_fp env) v) (u ! i)) g = a"
    unfolding a_def by (rule map2_lanes [OF len(4,5)])
  have sm: "spec_mlp env m sl base (w_x w) (w_att w) = map2 (f_add (q_fp env)) x1 f2"
    unfolding spec_mlp_def Let_def f2_def a_def g_def u_def xn_def x1_def f1_def spec_xn_def ..
  define wa where "wa = w\<lparr>w_ffn := f1, w_x := x1\<rparr>"
  have r1: "add_residual env m (w\<lparr>w_ffn := f1\<rparr>) = wa"
    using w'(1) len(1) by (simp add: residual_ok x1_def wa_def)
  have r2: "add_residual env m (wa\<lparr>w_xn := xn, w_up := u, w_gate := a, w_ffn := f2\<rparr>) =
      w\<lparr>w_x := map2 (f_add (q_fp env)) x1 f2, w_xn := xn, w_gate := a, w_up := u, w_ffn := f2\<rparr>"
    using len(2,7) by (simp add: residual_ok wa_def)
  have nx: "eng_rmsnorm (q_fp env) (w_x wa) (norm_w env base (ls_ffn_norm sl) (dm m)) (dm m) (md_eps m) = xn"
    by (simp add: wa_def xn_def spec_xn_def)
  have wa: "w_gate wa = w_gate w" "w_up wa = w_up w" "w_ffn wa = f1" by (simp_all add: wa_def)
  have "out_mlp env m sl base w = Ok (w\<lparr>w_x := map2 (f_add (q_fp env)) x1 f2, w_xn := xn,
      w_gate := a, w_up := u, w_ffn := f2\<rparr>)"
    unfolding out_mlp_def Let_def p1 set_buf.simps obind.simps r1 f32_at_norm [OF l'(8)] option.case nx
    by (simp add: wa p2 ga p3 r2)
  then have "out_mlp env m sl base w = Ok (w\<lparr>w_x := spec_mlp env m sl base (w_x w) (w_att w), w_xn := xn,
      w_gate := a, w_up := u, w_ffn := f2\<rparr>)" by (simp only: sm)
  moreover have "length (spec_mlp env m sl base (w_x w) (w_att w)) = dm m" using len by (simp add: sm)
  ultimately show ?thesis using len by blast
qed

section \<open>A whole layer\<close>

text \<open>The caches hold \<open>K\<close> and \<open>V\<close>: up to and including \<open>pos\<close> in layers below \<open>L0\<close>, before \<open>pos\<close> in the others.\<close>

definition kv_agrees :: "'f eng_model \<Rightarrow> 'f eng_seq_state \<Rightarrow> 'f kv \<Rightarrow> 'f kv \<Rightarrow> nat \<Rightarrow> nat \<Rightarrow> bool" where
  "kv_agrees m s K V L0 pos \<longleftrightarrow> (\<forall>L < nlay m. \<forall>t. t < pos \<or> t = pos \<and> L < L0 \<longrightarrow>
     kv_row m s (sq_kc s) L t = K L t \<and> kv_row m s (sq_vc s) L t = V L t)"

lemma spec_weights_cong:
  "(\<And>t. t \<le> pos \<Longrightarrow> K t = K' t) \<Longrightarrow> spec_weights env hw pos kvh K qh = spec_weights env hw pos kvh K' qh"
  unfolding spec_weights_def Let_def by (intro arg_cong2 [where f = "eng_softmax (q_fp env)"] map_cong refl) auto

lemma spec_attend_cong:
  assumes "\<And>t. t \<le> pos \<Longrightarrow> K t = K' t \<and> V t = V' t"
  shows "spec_attend env m pos K V q = spec_attend env m pos K' V' q"
proof -
  have "spec_head env hw pos kvh K V qh = spec_head env hw pos kvh K' V' qh" for hw kvh qh
  proof -
    have "spec_weights env hw pos kvh K qh = spec_weights env hw pos kvh K' qh" using assms by (intro spec_weights_cong) blast
    then show ?thesis unfolding spec_head_def Let_def using assms by (intro map_cong foldl_cong refl) auto
  qed
  then show ?thesis by (simp add: spec_attend_def)
qed

lemma layer_compute_ok:
  assumes l: "layer_ok env m (length base) (md_slot m ! L)" and w: "work_ok m w" and s: "seq_ok m s" and L: "L < nlay m"
    and pos: "pos < nat (sq_context s)" "pos < length (w_scores w)" and kv: "0 < nkv m" "nhd m mod nkv m = 0"
    and ag: "kv_agrees m s K V L pos" and blk: "base = blk L"
  obtains w' s' K' V' where "layer_compute env m L pos base (w, s) = Ok (w', s')"
    "spec_layer env m blk pos (w_x w, K, V) L = (w_x w', K', V')" "work_ok m w'" "seq_ok m s'"
    "kv_agrees m s' K' V' (Suc L) pos" "length (w_scores w') = length (w_scores w)" "w_stream w' = w_stream w"
    "sq_context s' = sq_context s" "sq_n_seen s' = sq_n_seen s" "w_logits w' = w_logits w" "w_rowbuf w' = w_rowbuf w"
    "w_headbuf w' = w_headbuf w"
proof -
  let ?sl = "md_slot m ! L"
  define xn where "xn = spec_xn env m base (ls_attn_norm ?sl) (w_x w)"
  define q where "q = spec_q env m ?sl base pos xn"
  define k where "k = spec_k env m ?sl base pos xn"
  define v where "v = spec_proj env base (ls_attn_v ?sl) xn"
  define w1 where "w1 = w\<lparr>w_xn := xn, w_q := q, w_k := k, w_v := v\<rparr>"
  have a: "attn_qkv env m ?sl base pos w = Ok w1"
    unfolding w1_def q_def k_def v_def xn_def by (rule attn_qkv_ok [OF l w])
  have lq: "length q = nhd m * hdim m" "length k = kvw m" "length v = kvw m"
    unfolding q_def k_def v_def by (rule qkv_lengths [OF l])+
  have w1: "work_ok m w1" using w lq by (simp add: work_ok_def w1_def xn_def)
  have kl: "length (w_k w1) = kvw m" "length (w_v w1) = kvw m" using lq by (simp_all add: w1_def)
  obtain s' where s': "kv_append m L pos w1 s = Some s'" "seq_ok m s'" "sq_context s' = sq_context s" "sq_n_seen s' = sq_n_seen s"
    and rows: "\<And>L' t. L' < nlay m \<Longrightarrow> t < nat (sq_context s) \<Longrightarrow>
       kv_row m s (sq_kc s') L' t = (if L' = L \<and> t = pos then w_k w1 else kv_row m s (sq_kc s) L' t) \<and>
       kv_row m s (sq_vc s') L' t = (if L' = L \<and> t = pos then w_v w1 else kv_row m s (sq_vc s) L' t)"
    by (rule kv_append_ok [OF s L pos(1) kl]) (rule that)
  define K' where "K' = K(L := (K L)(pos := k))"
  define V' where "V' = V(L := (V L)(pos := v))"
  have cells: "kv_row m s' (sq_kc s') L' t = K' L' t \<and> kv_row m s' (sq_vc s') L' t = V' L' t"
    if "L' < nlay m" "t < pos \<or> t = pos \<and> L' < Suc L" for L' t
  proof -
    have t: "t < nat (sq_context s)" using that pos(1) by auto
    have "kv_row m s (sq_kc s) L' t = K L' t \<and> kv_row m s (sq_vc s) L' t = V L' t" if "\<not> (L' = L \<and> t = pos)"
      using ag \<open>L' < nlay m\<close> \<open>t < pos \<or> _\<close> that unfolding kv_agrees_def by auto
    then show ?thesis using rows [OF that(1) t] unfolding s'(3) K'_def V'_def by (auto simp: w1_def)
  qed
  have ag': "kv_agrees m s' K' V' (Suc L) pos" unfolding kv_agrees_def using cells by blast
  have "pos < nat (sq_context s')" "pos < length (w_scores w1)" using pos s'(3) by (simp_all add: w1_def)
  from attend_ok [OF s'(2) L this w1 kv, of env] obtain sc where sc: "length sc = length (w_scores w1)"
    "attend env m s' L pos w1 = Some (w1\<lparr>w_scores := sc,
       w_att := spec_attend env m pos (kv_row m s' (sq_kc s') L) (kv_row m s' (sq_vc s') L) (w_q w1)\<rparr>)" by blast
  define att where "att = spec_attend env m pos (K' L) (V' L) q"
  have "spec_attend env m pos (kv_row m s' (sq_kc s') L) (kv_row m s' (sq_vc s') L) (w_q w1) = att"
  proof -
    have "w_q w1 = q" by (simp add: w1_def)
    then show ?thesis unfolding att_def using cells [OF L]
      by (simp only:) (rule spec_attend_cong, simp add: order_le_less)
  qed
  with sc have at: "attend env m s' L pos w1 = Some (w1\<lparr>w_scores := sc, w_att := att\<rparr>)" by simp
  define w2 where "w2 = w1\<lparr>w_scores := sc, w_att := att\<rparr>"
  have w2: "work_ok m w2" using w1 length_spec_attend [of env m] by (simp add: work_ok_def w2_def att_def)
  from out_mlp_ok [OF l w2] obtain xn2 g u f where o: "out_mlp env m ?sl base w2 =
      Ok (w2\<lparr>w_x := spec_mlp env m ?sl base (w_x w2) (w_att w2), w_xn := xn2, w_gate := g, w_up := u, w_ffn := f\<rparr>)"
    and ln: "length xn2 = dm m" "length g = dff m" "length u = dff m" "length f = dm m"
      "length (spec_mlp env m ?sl base (w_x w2) (w_att w2)) = dm m" by blast
  define w3 where "w3 = w2\<lparr>w_x := spec_mlp env m ?sl base (w_x w2) (w_att w2), w_xn := xn2, w_gate := g, w_up := u, w_ffn := f\<rparr>"
  have "layer_compute env m L pos base (w, s) = Ok (w3, s')"
    by (simp add: layer_compute_def a s'(1) at o w2_def [symmetric] w3_def)
  moreover have "spec_layer env m blk pos (w_x w, K, V) L = (w_x w3, K', V')"
    unfolding spec_layer_def Let_def
    by (simp add: blk [symmetric] w3_def w2_def w1_def K'_def V'_def att_def q_def k_def v_def xn_def spec_q_def spec_k_def spec_xn_def)
  moreover have "work_ok m w3" using w2 ln by (simp add: work_ok_def w3_def)
  ultimately show ?thesis using that [of w3 s' K' V'] s' ag' sc(1) by (simp add: w3_def w2_def w1_def)
qed

end
