(* ===== verification/Qwen3_Decode.thy ===== *)
theory Qwen3_Decode
  imports Qwen3_Phase
begin

text \<open>
  A whole decode step: the embedding row, the walk over the streamed layers, and the LM head, held
  in memory or read in chunks.  \<open>qwen3_decode\<close> is shown to compute \<open>spec_step\<close> and \<open>spec_logits\<close> on
  every model that is \<open>ready\<close>, and to leave it ready for the next step.
\<close>

section \<open>Reading the container\<close>

definition file_ok :: "('f, 'd) qenv \<Rightarrow> byte list \<Rightarrow> bool" where
  "file_ok env img \<longleftrightarrow> pread_sound img (q_fd env) \<and> pread_live img (q_fd env) \<and>
     pread_sound img (q_dfd env) \<and> pread_live img (q_dfd env)"

lemma length_slice: "0 \<le> off \<Longrightarrow> 0 \<le> n \<Longrightarrow> off + n \<le> int (length img) \<Longrightarrow> length (slice off n img) = nat n"
  by (simp add: slice_def)

lemma store_read_ok:
  assumes "file_ok env img" "0 \<le> off" "0 \<le> n" "off + n \<le> int (length img)"
  shows "rr_ret (store_read env off n) = n \<and> rr_buf (store_read env off n) = slice off n img"
proof -
  have f: "pread_sound img (q_fd env)" "pread_live img (q_fd env)" using assms(1) by (auto simp: file_ok_def)
  obtain k where k: "k \<le> nat n" "pread_loop (q_fd env) n off [] = take k (drop (nat off) img)"
    using pread_loop_slice [OF f(1) assms(2,3)] by blast
  then have len: "length (pread_loop (q_fd env) n off []) = k" using assms(2-4) by simp
  with pread_loop_complete [OF f(2) assms(2), of n "[]"] assms(3,4) k(1) have "k = nat n" by linarith
  then show ?thesis using assms(2,3) k(2) len
    by (simp add: store_read_def file_read_def pread_all_def slice_def Let_def)
qed

section \<open>Ready models\<close>

definition block_bytes :: "byte list \<Rightarrow> eng_block list \<Rightarrow> nat \<Rightarrow> byte list" where
  "block_bytes img bs L = slice (b_off (bs ! L)) (b_nbytes (bs ! L)) img"

text \<open>A table of \<open>md_vocab\<close> rows, read from the file row by row.\<close>

definition table_ok :: "('f, 'd) qenv \<Rightarrow> byte list \<Rightarrow> 'f eng_model \<Rightarrow> gguf_tensor \<Rightarrow> bool" where
  "table_ok env img m t \<longleftrightarrow> usable env (g_dtype t) (dm m) \<and> 0 \<le> g_file_off t \<and>
     g_file_off t + md_vocab m * head_row env (g_dtype t) (md_d_model m) \<le> int (length img)"

definition model_ok :: "('f, 'd) qenv \<Rightarrow> byte list \<Rightarrow> eng_block list \<Rightarrow> 'f eng_model \<Rightarrow> bool" where
  "model_ok env img bs m \<longleftrightarrow> 0 < md_n_layers m \<and> 0 < md_d_model m \<and> 0 < nkv m \<and> nhd m mod nkv m = 0 \<and>
     length bs = nlay m \<and> blocks_ok bs \<and> blocks_within bs img \<and>
     (\<forall>L < nlay m. layer_ok env m (nat (b_nbytes (bs ! L))) (md_slot m ! L)) \<and>
     table_ok env img m (md_embd m) \<and> table_ok env img m (md_lm_head m) \<and>
     4 * dm m \<le> length (md_out_norm m) \<and> 0 < md_head_chunk m \<and>
     (\<forall>b. md_lm_resident m = Some b \<longrightarrow>
        b = slice (g_file_off (md_lm_head m)) (md_vocab m * head_row env (g_dtype (md_lm_head m)) (md_d_model m)) img)"

text \<open>The read buffers are as long as the rows they are read for.\<close>

definition bufs_ok :: "('f, 'd) qenv \<Rightarrow> 'f eng_model \<Rightarrow> 'f workset \<Rightarrow> bool" where
  "bufs_ok env m w \<longleftrightarrow> length (w_scores w) = nat (md_ctx_max m + 1) \<and>
     (quant_ops env (g_dtype (md_embd m)) \<noteq> None \<longrightarrow>
        length (w_rowbuf w) = nat (head_row env (g_dtype (md_embd m)) (md_d_model m))) \<and>
     md_head_chunk m * head_row env (g_dtype (md_lm_head m)) (md_d_model m) \<le> int (length (w_headbuf w))"

definition ready :: "('f, 'd) qenv \<Rightarrow> byte list \<Rightarrow> eng_block list \<Rightarrow> 'f eng_model \<Rightarrow> bool" where
  "ready env img bs m \<longleftrightarrow> model_ok env img bs m \<and> work_ok m (md_work m) \<and> bufs_ok env m (md_work m) \<and>
     s_blk (w_stream (md_work m)) = bs \<and> walking img (stream_rd env) (w_stream (md_work m)) 0"

lemma usable_row:
  assumes "usable env dt (dm m)" "0 < md_d_model m"
  shows "0 \<le> head_row env dt (md_d_model m)"
  using assms by (auto simp: usable_def head_row_def F32_not_packed packed_ok_def split: option.splits)

lemma length_block_bytes:
  assumes "blocks_ok bs" "blocks_within bs img" "L < length bs"
  shows "length (block_bytes img bs L) = nat (b_nbytes (bs ! L))"
proof -
  have "0 \<le> b_off (bs ! L)" "0 < b_nbytes (bs ! L)" "b_off (bs ! L) + b_nbytes (bs ! L) \<le> int (length img)"
    using assms by (auto simp: blocks_ok_def blocks_within_def list_all_length)
  then show ?thesis by (simp add: block_bytes_def length_slice)
qed

section \<open>The embedding row\<close>

lemma row_inside:
  assumes "table_ok env img m t" "0 < md_d_model m" "int r < md_vocab m"
  shows "0 \<le> g_file_off t + int r * head_row env (g_dtype t) (md_d_model m)"
    "0 \<le> head_row env (g_dtype t) (md_d_model m)"
    "g_file_off t + int r * head_row env (g_dtype t) (md_d_model m) + head_row env (g_dtype t) (md_d_model m) \<le> int (length img)"
proof -
  let ?rb = "head_row env (g_dtype t) (md_d_model m)"
  have t: "usable env (g_dtype t) (dm m)" "0 \<le> g_file_off t" "g_file_off t + md_vocab m * ?rb \<le> int (length img)"
    using assms(1) by (auto simp: table_ok_def)
  show rb: "0 \<le> ?rb" by (rule usable_row [OF t(1) assms(2)])
  show "0 \<le> g_file_off t + int r * ?rb" using rb t(2) by simp
  have "(int r + 1) * ?rb \<le> md_vocab m * ?rb" using rb assms(3) by (intro mult_right_mono) auto
  then show "g_file_off t + int r * ?rb + ?rb \<le> int (length img)" using t(3) by (simp add: algebra_simps)
qed

lemma embed_ok:
  assumes fo: "file_ok env img" and d: "0 < md_d_model m" and t: "table_ok env img m (md_embd m)" and tok: "int token < md_vocab m"
    and w: "work_ok m w" and b: "bufs_ok env m w"
  shows "\<exists>rb. embed_token env m token w = Ok (w\<lparr>w_rowbuf := rb, w_x := spec_embed env m img token\<rparr>) \<and>
    length rb = length (w_rowbuf w) \<and> length (spec_embed env m img token) = dm m"
proof -
  let ?dt = "g_dtype (md_embd m)" and ?rb = "head_row env (g_dtype (md_embd m)) (md_d_model m)"
  let ?off = "g_file_off (md_embd m) + int token * ?rb"
  note ri = row_inside [OF t d tok]
  have rd: "rr_ret (store_read env ?off ?rb) = ?rb" "rr_buf (store_read env ?off ?rb) = slice ?off ?rb img"
    using store_read_ok [OF fo ri] by auto
  have ls: "length (slice ?off ?rb img) = nat ?rb" by (rule length_slice [OF ri])
  have lx: "length (w_x w) = dm m" using work_okD [OF w] by simp
  show ?thesis
  proof (cases "quant_ops env ?dt")
    case (Some q)
    have pk: "packed_ok q (dm m)"
      using t Some by (auto simp: table_ok_def usable_def F32_not_packed)
    have len: "length (w_rowbuf w) = nat ?rb" using b Some by (simp add: bufs_ok_def)
    have dq: "length (the (qo_dequant_row q) (slice ?off ?rb img) [] (dm m)) = dm m"
      by (rule dequant_length [OF quant_ops_builtin [OF Some] pk])
    have "embed_token env m token w =
        Ok (w\<lparr>w_rowbuf := slice ?off ?rb img, w_x := the (qo_dequant_row q) (slice ?off ?rb img) [] (dm m)\<rparr>)"
      unfolding embed_token_def Let_def rd ls Some option.case len using dq lx ls len by (simp add: put_rows_def store_at_all)
    then show ?thesis using Some ls len dq by (auto simp: spec_embed_def Let_def)
  next
    case None
    then have rb: "?rb = md_d_model m * 4" by (simp add: head_row_def)
    have "nat (md_d_model m * 4) div 4 = dm m" using d by (simp add: nat_mult_distrib)
    then have dv: "nat ?rb div 4 = dm m" by (simp only: rb)
    have e: "embed_token env m token w = Ok (w\<lparr>w_rowbuf := w_rowbuf w, w_x := floats (q_fp env) (slice ?off ?rb img) (dm m)\<rparr>)"
      unfolding embed_token_def Let_def rd ls None option.case dv using lx by (simp add: put_rows_def store_at_all)
    have "spec_embed env m img token = floats (q_fp env) (slice ?off ?rb img) (dm m)"
      unfolding spec_embed_def Let_def None option.case ..
    then show ?thesis using e by (intro exI [of _ "w_rowbuf w"]) (simp only: length_floats)
  qed
qed

section \<open>The layers\<close>

text \<open>What no phase of the layer loop changes.\<close>

definition kept :: "'f workset \<times> 'f eng_seq_state \<Rightarrow> 'f workset \<times> 'f eng_seq_state \<Rightarrow> bool" where
  "kept a b \<longleftrightarrow> length (w_scores (fst b)) = length (w_scores (fst a)) \<and> w_logits (fst b) = w_logits (fst a) \<and>
     w_rowbuf (fst b) = w_rowbuf (fst a) \<and> w_headbuf (fst b) = w_headbuf (fst a) \<and>
     sq_context (snd b) = sq_context (snd a) \<and> sq_n_seen (snd b) = sq_n_seen (snd a)"

lemma kept_trans: "kept a b \<Longrightarrow> kept b c \<Longrightarrow> kept a c"
  by (simp add: kept_def)

text \<open>The block a layer computes on is the file's, whatever the reader thread does meanwhile.\<close>

lemma layer_step_block:
  assumes fo: "file_ok env img" and mo: "model_ok env img bs m" and L: "L < nlay m"
    and blk: "s_blk (w_stream w) = bs" and wk: "walking img (stream_rd env) (w_stream w) L"
  obtains st' where "layer_step env m pos rdr (w, s) L = layer_compute env m L pos (block_bytes img bs L) (w\<lparr>w_stream := st'\<rparr>, s)"
    "s_blk st' = bs" "walking img (stream_rd env) st' (wnext (nlay m) L)"
proof -
  let ?rd = "stream_rd env"
  have n: "length bs = nlay m" using mo by (simp add: model_ok_def)
  have store: "aligned_store ?rd img"
    using fo file_store [of img "q_fd env" "q_dfd env" "q_st env"] by (simp add: file_ok_def stream_rd_def)
  have bn: "L < length (s_blk (w_stream w))" using L blk n by simp
  obtain p st where g: "eng_streamer_get ?rd (w_stream w) L = (Some p, st)" "geometry st = geometry (w_stream w)"
    and bytes: "block_at (walk_turn ?rd (rdr L) st L) p L = slice (b_off (s_blk (w_stream w) ! L)) (b_nbytes (s_blk (w_stream w) ! L)) img"
    and wk': "walking img ?rd (walk_turn ?rd (rdr L) st L) (wnext (length (s_blk (w_stream w))) L)"
    and geo: "geometry (walk_turn ?rd (rdr L) st L) = geometry (w_stream w)"
    by (rule aligned_store.walk_step [OF store wk bn]) (rule that)
  define st' where "st' = walk_turn ?rd (rdr L) st L"
  have sb: "s_blk st = bs" "s_blk st' = bs" using g(2) geo blk by (simp_all add: geometry_def st'_def)
  have st': "st' = (let t = eng_streamer_prefetch st (if L + 1 < nlay m then L + 1 else 0) in if rdr L then io_main ?rd t else t)"
    unfolding st'_def walk_turn_def wnext_def sb(1) n ..
  have base: "block_at st' p L = block_bytes img bs L" using bytes blk by (simp add: st'_def block_bytes_def)
  have "layer_step env m pos rdr (w, s) L = layer_compute env m L pos (block_at st' p L) (w\<lparr>w_stream := st'\<rparr>, s)"
    unfolding layer_step_def prod.case g(1) option.case st' Let_def ..
  then have "layer_step env m pos rdr (w, s) L = layer_compute env m L pos (block_bytes img bs L) (w\<lparr>w_stream := st'\<rparr>, s)"
    by (simp only: base)
  moreover have "walking img ?rd st' (wnext (nlay m) L)" using wk' blk n by (simp add: st'_def)
  ultimately show ?thesis using sb(2) by (intro that)
qed

lemma run_layers_ok:
  assumes fo: "file_ok env img" and mo: "model_ok env img bs m" and L0: "L0 \<le> nlay m"
    and w: "work_ok m w" and s: "seq_ok m s" and blk: "s_blk (w_stream w) = bs"
    and wk: "walking img (stream_rd env) (w_stream w) (if L0 < nlay m then L0 else 0)"
    and pos: "pos < nat (sq_context s)" "pos < length (w_scores w)" and ag: "kv_agrees m s K V L0 pos"
  shows "\<exists>w' s' K' V'. run_layers env m pos rdr [L0..<nlay m] (w, s) = Ok (w', s') \<and>
    foldl (spec_layer env m (block_bytes img bs) pos) (w_x w, K, V) [L0..<nlay m] = (w_x w', K', V') \<and>
    work_ok m w' \<and> seq_ok m s' \<and> kv_agrees m s' K' V' (nlay m) pos \<and> s_blk (w_stream w') = bs \<and>
    walking img (stream_rd env) (w_stream w') 0 \<and> kept (w, s) (w', s')"
  using L0 w s blk wk pos ag
proof (induction "nlay m - L0" arbitrary: L0 w s K V)
  case 0
  then have "L0 = nlay m" by simp
  with 0 show ?case by (intro exI [of _ w] exI [of _ s] exI [of _ K] exI [of _ V]) (simp add: kept_def)
next
  case (Suc d)
  then have L: "L0 < nlay m" by simp
  have mo': "blocks_ok bs" "blocks_within bs img" "length bs = nlay m" "0 < nkv m" "nhd m mod nkv m = 0"
    "layer_ok env m (nat (b_nbytes (bs ! L0))) (md_slot m ! L0)"
    using mo L by (auto simp: model_ok_def)
  have "walking img (stream_rd env) (w_stream w) L0" using Suc.prems(5) L by simp
  from layer_step_block [OF fo mo L Suc.prems(4) this, of pos rdr s]
  obtain st' where ls: "layer_step env m pos rdr (w, s) L0 = layer_compute env m L0 pos (block_bytes img bs L0) (w\<lparr>w_stream := st'\<rparr>, s)"
    "s_blk st' = bs" "walking img (stream_rd env) st' (wnext (nlay m) L0)" by blast
  have lok: "layer_ok env m (length (block_bytes img bs L0)) (md_slot m ! L0)"
    using mo' L by (simp add: length_block_bytes)
  let ?w = "w\<lparr>w_stream := st'\<rparr>"
  have wo: "work_ok m ?w" using Suc.prems(2) by (simp add: work_ok_def)
  have sc: "pos < length (w_scores ?w)" using Suc.prems(7) by simp
  obtain w1 s1 K1 V1 where c: "layer_compute env m L0 pos (block_bytes img bs L0) (?w, s) = Ok (w1, s1)"
    "spec_layer env m (block_bytes img bs) pos (w_x ?w, K, V) L0 = (w_x w1, K1, V1)" "work_ok m w1" "seq_ok m s1"
    "kv_agrees m s1 K1 V1 (Suc L0) pos" "length (w_scores w1) = length (w_scores ?w)" "w_stream w1 = w_stream ?w"
    "sq_context s1 = sq_context s" "sq_n_seen s1 = sq_n_seen s" "w_logits w1 = w_logits ?w" "w_rowbuf w1 = w_rowbuf ?w"
    "w_headbuf w1 = w_headbuf ?w"
    by (rule layer_compute_ok [where blk = "block_bytes img bs", OF lok wo Suc.prems(3) L Suc.prems(6) sc mo'(4,5) Suc.prems(8) refl]) (rule that)
  have step: "layer_step env m pos rdr (w, s) L0 = Ok (w1, s1)" using ls(1) c(1) by simp
  have "\<exists>w' s' K' V'. run_layers env m pos rdr [Suc L0..<nlay m] (w1, s1) = Ok (w', s') \<and>
    foldl (spec_layer env m (block_bytes img bs) pos) (w_x w1, K1, V1) [Suc L0..<nlay m] = (w_x w', K', V') \<and>
    work_ok m w' \<and> seq_ok m s' \<and> kv_agrees m s' K' V' (nlay m) pos \<and> s_blk (w_stream w') = bs \<and>
    walking img (stream_rd env) (w_stream w') 0 \<and> kept (w1, s1) (w', s')"
  proof (rule Suc.hyps(1))
    show "walking img (stream_rd env) (w_stream w1) (if Suc L0 < nlay m then Suc L0 else 0)"
      using ls(3) c(7) by (simp add: wnext_def split: if_splits)
  qed (use Suc.hyps(2) L c ls(2) Suc.prems(6,7) in simp_all)
  then obtain w' s' K' V' where r: "run_layers env m pos rdr [Suc L0..<nlay m] (w1, s1) = Ok (w', s')"
    "foldl (spec_layer env m (block_bytes img bs) pos) (w_x w1, K1, V1) [Suc L0..<nlay m] = (w_x w', K', V')"
    "work_ok m w'" "seq_ok m s'" "kv_agrees m s' K' V' (nlay m) pos" "s_blk (w_stream w') = bs"
    "walking img (stream_rd env) (w_stream w') 0" "kept (w1, s1) (w', s')" by blast
  have "kept (w, s) (w1, s1)" using c by (simp add: kept_def)
  from kept_trans [OF this r(8)] r c(2) step show ?case
    by (intro exI [of _ w'] exI [of _ s'] exI [of _ K'] exI [of _ V']) (simp add: upt_conv_Cons [OF L])
qed

section \<open>The LM head\<close>

lemma u32_at_drop: "k + i + 4 \<le> length b \<Longrightarrow> u32_at (drop k b) i = u32_at b (k + i)"
  by (simp add: u32_at_def add.assoc)

lemma u32_at_take: "i + 4 \<le> k \<Longrightarrow> u32_at (take k b) i = u32_at b i"
  by (simp add: u32_at_def)

lemma floats_row:
  assumes "p < n" "4 * (d * n) \<le> length b"
  shows "row_of d p (floats fp b (d * n)) = floats fp (row_of (4 * d) p b) d"
proof (rule nth_equalityI)
  have room: "p * d + d \<le> n * d" by (rule head_room [OF assms(1)])
  then have len: "length (row_of d p (floats fp b (d * n))) = d" by (simp add: row_of_def mult.commute)
  then show "length (row_of d p (floats fp b (d * n))) = length (floats fp (row_of (4 * d) p b) d)" by simp
  fix i assume "i < length (row_of d p (floats fp b (d * n)))"
  then have i: "i < d" using len by simp
  have e: "p * d + i < d * n" "p * d \<le> d * n" using room i assms(1) by (simp_all add: mult.commute)
  have "p * (4 * d) + 4 * i + 4 \<le> length b" using room i assms(2) by (simp add: algebra_simps)
  then have "u32_at (drop (p * (4 * d)) b) (4 * i) = u32_at b (p * (4 * d) + 4 * i)" by (rule u32_at_drop)
  moreover have "u32_at (row_of (4 * d) p b) (4 * i) = u32_at (drop (p * (4 * d)) b) (4 * i)"
    unfolding row_of_def using i by (intro u32_at_take) simp
  moreover have "4 * (p * d) = p * (4 * d)" by simp
  ultimately show "row_of d p (floats fp b (d * n)) ! i = floats fp (row_of (4 * d) p b) d ! i"
    using i e by (simp add: floats_def row_of_def mult.left_commute [of 4 p])
qed

lemma head_rows_ok:
  assumes u: "usable env (g_dtype (md_lm_head m)) (dm m)" and d: "0 < md_d_model m"
    and b: "n * nat (head_row env (g_dtype (md_lm_head m)) (md_d_model m)) \<le> length bytes"
    and r: "r0 + n \<le> length (w_logits w)" and x: "length (w_xn w) = dm m"
  shows "head_rows env m r0 n bytes w = Ok (w\<lparr>w_logits := store_at r0
    (map (\<lambda>p. head_dot env m (row_of (nat (head_row env (g_dtype (md_lm_head m)) (md_d_model m))) p bytes) (w_xn w)) [0..<n])
    (w_logits w)\<rparr>)"
proof (cases "quant_ops env (g_dtype (md_lm_head m))")
  case (Some q)
  have pk: "packed_ok q (dm m)" using u Some by (auto simp: usable_def F32_not_packed)
  have hr: "head_row env (g_dtype (md_lm_head m)) (md_d_model m) = the (qo_row_bytes q) (int (dm m))"
    using Some d by (simp add: head_row_def)
  have "0 < dm m" using d by simp
  note mm = matmul_quant_rows [OF pk quant_ops_local [OF Some] this b [unfolded hr], of "q_fp env" "w_xn w"]
  have "\<not> length bytes < n * nat (the (qo_row_bytes q) (int (dm m)))" "\<not> r0 + n > length (w_logits w)" using b r hr by simp_all
  then show ?thesis unfolding head_rows_def Let_def Some option.case mm hr head_dot_def by (simp only: if_False)
next
  case None
  have hr: "nat (head_row env (g_dtype (md_lm_head m)) (md_d_model m)) = 4 * dm m"
    using None d by (simp add: head_row_def nat_mult_distrib)
  have b4: "4 * (dm m * n) \<le> length bytes" using b unfolding hr by (simp add: algebra_simps)
  then have fa: "f32_at (q_fp env) bytes 0 (dm m * n) = Some (floats (q_fp env) bytes (dm m * n))" by (simp add: f32_at_def)
  have rows: "eng_matmul_f32 (q_fp env) (q_impl env) (w_xn w) (floats (q_fp env) bytes (dm m * n)) (dm m) n ENG_NUM_FAST =
      map (\<lambda>p. eng_dot_f32 (q_fp env) (q_impl env) (floats (q_fp env) (row_of (4 * dm m) p bytes) (dm m)) (w_xn w) (dm m) ENG_NUM_FAST) [0..<n]"
  proof -
    have "n * dm m \<le> length (floats (q_fp env) bytes (dm m * n))" "dm m \<le> length (w_xn w)" using x by (simp_all add: mult.commute)
    note mm = matmul_f32_rows [OF this, of "q_fp env" "q_impl env" ENG_NUM_FAST]
    show ?thesis unfolding mm using b4 by (intro map_cong refl) (simp add: floats_row)
  qed
  have "\<not> r0 + n > length (w_logits w)" using r by simp
  then show ?thesis unfolding head_rows_def Let_def None option.case fa rows hr head_dot_def by (simp only: if_False)
qed

lemma take_drop_take: "p + k \<le> n \<Longrightarrow> take k (drop p (take n ys)) = take k (drop p ys)"
  by (simp add: drop_take min_def)

lemma take_drop_append: "p + k \<le> length xs \<Longrightarrow> take k (drop p (xs @ ys)) = take k (drop p xs)"
  by simp

lemma row_of_slice:
  assumes "p < n" "0 \<le> off" "0 \<le> k" "off + int n * k \<le> int (length img)" "bytes = slice off (int n * k) img @ rest"
  shows "row_of (nat k) p bytes = slice (off + int p * k) k img"
proof -
  have room: "p * nat k + nat k \<le> n * nat k" by (rule head_room [OF assms(1)])
  have e: "nat (int n * k) = n * nat k" "nat (off + int p * k) = nat off + p * nat k"
    using assms(2,3) by (simp_all add: nat_mult_distrib nat_add_distrib)
  have "length (slice off (int n * k) img) = n * nat k" using length_slice [of off "int n * k" img] assms(2-4) e(1) by simp
  then have "row_of (nat k) p bytes = take (nat k) (drop (p * nat k) (slice off (int n * k) img))"
    unfolding row_of_def assms(5) using room by (intro take_drop_append) simp
  also have "\<dots> = take (nat k) (drop (p * nat k) (drop (nat off) img))"
    unfolding slice_def e(1) by (rule take_drop_take [OF room])
  finally show ?thesis unfolding slice_def e(2) by (simp add: add.commute)
qed

text \<open>Everything but the logits, the chunk buffer and the byte count.\<close>

definition head_frame :: "'f workset \<Rightarrow> 'f workset \<Rightarrow> bool" where
  "head_frame w w' \<longleftrightarrow> (\<exists>hb lb lg. w' = w\<lparr>w_headbuf := hb, w_lmhead_bytes := lb, w_logits := lg\<rparr> \<and>
     length hb = length (w_headbuf w) \<and> length lg = length (w_logits w))"

lemma head_frame_trans: "head_frame a b \<Longrightarrow> head_frame b c \<Longrightarrow> head_frame a c"
  unfolding head_frame_def by fastforce

definition head_all :: "('f, 'd) qenv \<Rightarrow> 'f eng_model \<Rightarrow> byte list \<Rightarrow> 'f list \<Rightarrow> 'f list" where
  "head_all env m img xn = map (\<lambda>r. head_dot env m (slice (g_file_off (md_lm_head m) +
     int r * head_row env (g_dtype (md_lm_head m)) (md_d_model m)) (head_row env (g_dtype (md_lm_head m)) (md_d_model m)) img) xn)
     [0..<nat (md_vocab m)]"

lemma store_rows:
  assumes "length lg = n" "r0 + k \<le> n" "ys = map f [r0..<r0 + k]" "take r0 lg = map f [0..<r0]"
  shows "take (r0 + k) (store_at r0 ys lg) = map f [0..<r0 + k]" "length (store_at r0 ys lg) = n"
proof -
  have "length ys = k" using assms(3) by simp
  then show "length (store_at r0 ys lg) = n" using assms(1,2) by simp
  have "take (r0 + k) (store_at r0 ys lg) = take r0 lg @ ys" using assms(1,2) \<open>length ys = k\<close> by (simp add: store_at_def)
  then show "take (r0 + k) (store_at r0 ys lg) = map f [0..<r0 + k]"
    using assms(3,4) by (simp add: upt_add_eq_append [of 0 r0 k] flip: map_append)
qed

lemma chunk_read:
  assumes fo: "file_ok env img" and t: "table_ok env img m (md_lm_head m)" and d: "0 < md_d_model m" and n: "int (r0 + n) \<le> md_vocab m"
  defines "k \<equiv> head_row env (g_dtype (md_lm_head m)) (md_d_model m)" and "off \<equiv> g_file_off (md_lm_head m)"
  shows "rr_ret (store_read env (off + int r0 * k) (int n * k)) = int n * k"
    "rr_buf (store_read env (off + int r0 * k) (int n * k)) = slice (off + int r0 * k) (int n * k) img"
    "length (slice (off + int r0 * k) (int n * k) img) = n * nat k"
    "off + int r0 * k + int n * k \<le> int (length img)" "0 \<le> k" "0 \<le> off + int r0 * k"
proof -
  have t': "usable env (g_dtype (md_lm_head m)) (dm m)" "0 \<le> off" "off + md_vocab m * k \<le> int (length img)"
    using t by (auto simp: table_ok_def k_def off_def)
  show k: "0 \<le> k" unfolding k_def by (rule usable_row [OF t'(1) d])
  show o: "0 \<le> off + int r0 * k" using k t'(2) by simp
  have "int (r0 + n) * k \<le> md_vocab m * k" using n k by (intro mult_right_mono)
  then show b: "off + int r0 * k + int n * k \<le> int (length img)" using t'(3) by (simp add: algebra_simps)
  have nk: "0 \<le> int n * k" using k by simp
  show "rr_ret (store_read env (off + int r0 * k) (int n * k)) = int n * k"
    "rr_buf (store_read env (off + int r0 * k) (int n * k)) = slice (off + int r0 * k) (int n * k) img"
    using store_read_ok [OF fo o nk b] by auto
  show "length (slice (off + int r0 * k) (int n * k) img) = n * nat k"
    using length_slice [OF o nk b] k by (simp add: nat_mult_distrib)
qed

lemma chunk_ok:
  assumes fo: "file_ok env img" and t: "table_ok env img m (md_lm_head m)" and d: "0 < md_d_model m"
    and n: "int (r0 + n) \<le> md_vocab m" and x: "length (w_xn w) = dm m" and lg: "length (w_logits w) = nat (md_vocab m)"
    and pre: "take r0 (w_logits w) = take r0 (head_all env m img (w_xn w))"
    and hb: "bytes = slice (g_file_off (md_lm_head m) + int r0 * head_row env (g_dtype (md_lm_head m)) (md_d_model m))
      (int n * head_row env (g_dtype (md_lm_head m)) (md_d_model m)) img @ rest"
  shows "\<exists>lg. head_rows env m r0 n bytes w = Ok (w\<lparr>w_logits := lg\<rparr>) \<and> length lg = length (w_logits w) \<and>
    take (r0 + n) lg = take (r0 + n) (head_all env m img (w_xn w))"
proof -
  let ?k = "head_row env (g_dtype (md_lm_head m)) (md_d_model m)" and ?off = "g_file_off (md_lm_head m)"
  note c = chunk_read [OF fo t d n]
  let ?f = "\<lambda>r. head_dot env m (slice (?off + int r * ?k) ?k img) (w_xn w)"
  have u: "usable env (g_dtype (md_lm_head m)) (dm m)" using t by (simp add: table_ok_def)
  have rn: "r0 + n \<le> nat (md_vocab m)" using n by linarith
  have rows: "map (\<lambda>p. head_dot env m (row_of (nat ?k) p bytes) (w_xn w)) [0..<n] = map ?f [r0..<r0 + n]"
  proof (rule nth_equalityI)
    fix i assume "i < length (map (\<lambda>p. head_dot env m (row_of (nat ?k) p bytes) (w_xn w)) [0..<n])"
    then have "i < n" by simp
    from row_of_slice [OF this c(6) c(5) _ hb] c(4) this
    show "map (\<lambda>p. head_dot env m (row_of (nat ?k) p bytes) (w_xn w)) [0..<n] ! i = map ?f [r0..<r0 + n] ! i"
      by (simp add: algebra_simps)
  qed simp
  have hl: "n * nat ?k \<le> length bytes" using c(3) hb by simp
  note h = head_rows_ok [OF u d hl _ x, of r0, unfolded rows lg, OF rn]
  have ha: "head_all env m img (w_xn w) = map ?f [0..<nat (md_vocab m)]" by (simp add: head_all_def)
  have p0: "take r0 (w_logits w) = map ?f [0..<r0]" using pre rn by (simp add: ha take_map)
  note s = store_rows [OF lg rn refl p0]
  have "take (r0 + n) (head_all env m img (w_xn w)) = map ?f [0..<r0 + n]" using rn by (simp add: ha take_map)
  with h s lg show ?thesis by (intro exI [of _ "store_at r0 (map ?f [r0..<r0 + n]) (w_logits w)"] conjI) simp_all
qed

lemma lm_chunks_ok:
  assumes "file_ok env img" "table_ok env img m (md_lm_head m)" "0 < md_d_model m" "0 < chunk"
    and "chunk * nat (head_row env (g_dtype (md_lm_head m)) (md_d_model m)) \<le> length (w_headbuf w)"
    and "length (w_xn w) = dm m" "length (w_logits w) = nat (md_vocab m)" "vocab = nat (md_vocab m)"
    and "take r0 (w_logits w) = take r0 (head_all env m img (w_xn w))"
  shows "\<exists>w'. lm_chunks env m chunk vocab r0 w = Ok w' \<and> head_frame w w' \<and> w_logits w' = head_all env m img (w_xn w)"
  using assms(5-)
proof (induction "vocab - r0" arbitrary: r0 w rule: less_induct)
  case less
  let ?k = "head_row env (g_dtype (md_lm_head m)) (md_d_model m)" and ?off = "g_file_off (md_lm_head m)"
  note fo = assms(1) and t = assms(2) and d = assms(3) and ch = assms(4)
    and hb = less.prems(1) and x = less.prems(2) and lg = less.prems(3) and v = less.prems(4) and pre = less.prems(5)
  show ?case
  proof (cases "r0 < vocab")
    case False
    then have "w_logits w = head_all env m img (w_xn w)" using pre lg v by (simp add: head_all_def)
    moreover have "head_frame w w" unfolding head_frame_def
      by (rule exI [of _ "w_headbuf w"], rule exI [of _ "w_lmhead_bytes w"], rule exI [of _ "w_logits w"]) simp
    ultimately show ?thesis using False by (subst lm_chunks.simps) auto
  next
    case True
    define n where "n = (if r0 + chunk > vocab then vocab - r0 else chunk)"
    have n: "int (r0 + n) \<le> md_vocab m" "n \<le> chunk" using True v by (auto simp: n_def)
    note c = chunk_read [OF fo t d n(1)]
    define w1 where "w1 = w\<lparr>w_headbuf := store_at 0 (slice (?off + int r0 * ?k) (int n * ?k) img) (w_headbuf w)\<rparr>"
    define w2 where "w2 = w1\<lparr>w_lmhead_bytes := i64 (w_lmhead_bytes w1 + int n * ?k)\<rparr>"
    have fit: "length (slice (?off + int r0 * ?k) (int n * ?k) img) \<le> length (w_headbuf w)"
      using c(3) hb mult_le_mono1 [OF n(2), of "nat ?k"] by linarith
    have w2: "w_xn w2 = w_xn w" "w_logits w2 = w_logits w" "length (w_headbuf w2) = length (w_headbuf w)"
      "w_headbuf w2 = slice (?off + int r0 * ?k) (int n * ?k) img @ drop (n * nat ?k) (w_headbuf w)"
      using fit c(3) by (simp_all add: w2_def w1_def store_at_def)
    obtain lg' where l: "head_rows env m r0 n (w_headbuf w2) w2 = Ok (w2\<lparr>w_logits := lg'\<rparr>)" "length lg' = length (w_logits w)"
      "take (r0 + n) lg' = take (r0 + n) (head_all env m img (w_xn w))"
      using chunk_ok [OF fo t d n(1), of w2 "w_headbuf w2"] x lg pre w2 by auto
    let ?w3 = "w2\<lparr>w_logits := lg'\<rparr>"
    have h12: "w_headbuf w1 = w_headbuf w2" by (simp add: w2_def)
    have step: "lm_chunks env m chunk vocab r0 w = lm_chunks env m chunk vocab (r0 + chunk) ?w3"
      using True ch fit l(1) by (subst lm_chunks.simps) (simp add: Let_def c(1,2) n_def [symmetric] w1_def [symmetric] w2_def [symmetric] h12)
    have pre3: "take (r0 + chunk) (w_logits ?w3) = take (r0 + chunk) (head_all env m img (w_xn ?w3))"
    proof (cases "r0 + chunk > vocab")
      case True
      then have "r0 + n = vocab" using \<open>r0 < vocab\<close> by (simp add: n_def)
      then show ?thesis using l(2,3) lg v w2(1) True by (simp add: head_all_def)
    next
      case False
      then show ?thesis using l(3) w2(1) by (simp add: n_def)
    qed
    have fr: "head_frame w ?w3"
      unfolding head_frame_def
      by (rule exI [of _ "w_headbuf w2"], rule exI [of _ "w_lmhead_bytes w2"], rule exI [of _ lg']) (use w2(3) l(2) in \<open>simp add: w2_def w1_def\<close>)
    have x3: "w_xn ?w3 = w_xn w" using w2(1) by simp
    have "\<exists>w'. lm_chunks env m chunk vocab (r0 + chunk) ?w3 = Ok w' \<and> head_frame ?w3 w' \<and> w_logits w' = head_all env m img (w_xn ?w3)"
    proof (rule less.hyps)
      show "vocab - (r0 + chunk) < vocab - r0" using True ch by arith
    qed (use hb x lg v pre3 w2 l(2) in simp_all)
    then obtain w' where "lm_chunks env m chunk vocab (r0 + chunk) ?w3 = Ok w'" "head_frame ?w3 w'"
      "w_logits w' = head_all env m img (w_xn w)" unfolding x3 by blast
    then show ?thesis using step head_frame_trans [OF fr] by auto
  qed
qed

lemma lm_head_ok:
  assumes fo: "file_ok env img" and mo: "model_ok env img bs m" and w: "work_ok m w" and b: "bufs_ok env m w"
  shows "\<exists>w'. lm_head env m w = Ok w' \<and> w_logits w' = spec_logits env m img (w_x w) \<and> work_ok m w' \<and> bufs_ok env m w' \<and>
    w_stream w' = w_stream w \<and> w_x w' = w_x w"
proof -
  have t: "table_ok env img m (md_lm_head m)" and d: "0 < md_d_model m" and on: "4 * dm m \<le> length (md_out_norm m)"
    and ch: "0 < md_head_chunk m" using mo by (auto simp: model_ok_def)
  let ?k = "head_row env (g_dtype (md_lm_head m)) (md_d_model m)" and ?V = "nat (md_vocab m)"
  define xn where "xn = eng_rmsnorm (q_fp env) (w_x w) (floats (q_fp env) (md_out_norm m) (dm m)) (dm m) (md_eps m)"
  let ?w = "w\<lparr>w_xn := xn\<rparr>"
  have x: "length (w_xn ?w) = dm m" "length (w_logits ?w) = ?V" using work_okD [OF w] by (simp_all add: xn_def)
  have fa: "f32_at (q_fp env) (md_out_norm m) 0 (dm m) = Some (floats (q_fp env) (md_out_norm m) (dm m))"
    using on by (simp add: f32_at_def)
  have "\<exists>w1. (case md_lm_resident m of Some bytes \<Rightarrow> head_rows env m 0 ?V bytes ?w
      | None \<Rightarrow> lm_chunks env m (nat (md_head_chunk m)) ?V 0 ?w) = Ok w1 \<and> head_frame ?w w1 \<and> w_logits w1 = head_all env m img xn"
  proof (cases "md_lm_resident m")
    case None
    have "md_head_chunk m * ?k \<le> int (length (w_headbuf ?w))" "0 \<le> ?k"
      using b usable_row [OF _ d] t by (auto simp: bufs_ok_def table_ok_def)
    then have "nat (md_head_chunk m) * nat ?k \<le> length (w_headbuf ?w)" using ch by (simp flip: nat_mult_distrib)
    from lm_chunks_ok [OF fo t d _ this x refl, of 0] ch None show ?thesis by auto
  next
    case (Some bytes)
    show ?thesis
    proof (cases "0 \<le> md_vocab m")
      case True
      then have v: "int (0 + ?V) \<le> md_vocab m" "int ?V = md_vocab m" by simp_all
      have "bytes = slice (g_file_off (md_lm_head m) + int 0 * ?k) (int ?V * ?k) img @ []"
        using mo Some v(2) by (simp add: model_ok_def)
      from chunk_ok [OF fo t d v(1) x _ this] obtain lg where lg: "head_rows env m 0 ?V bytes ?w = Ok (?w\<lparr>w_logits := lg\<rparr>)"
        "length lg = length (w_logits ?w)" "take (0 + ?V) lg = take (0 + ?V) (head_all env m img xn)" by auto
      have "lg = head_all env m img xn" using lg(2,3) x(2) by (simp add: head_all_def)
      moreover have "head_frame ?w (?w\<lparr>w_logits := lg\<rparr>)" unfolding head_frame_def
        by (rule exI [of _ "w_headbuf w"], rule exI [of _ "w_lmhead_bytes w"], rule exI [of _ lg]) (simp add: lg(2))
      ultimately show ?thesis using Some lg(1) by simp
    next
      case False
      have u: "usable env (g_dtype (md_lm_head m)) (dm m)" using t by (simp add: table_ok_def)
      have "head_rows env m 0 ?V bytes ?w = Ok (?w\<lparr>w_logits := w_logits w\<rparr>)"
        using head_rows_ok [OF u d _ _ x(1), of ?V bytes 0] False x(2) by (simp add: store_at_def)
      moreover have "head_frame ?w (?w\<lparr>w_logits := w_logits w\<rparr>)" unfolding head_frame_def
        by (rule exI [of _ "w_headbuf w"], rule exI [of _ "w_lmhead_bytes w"], rule exI [of _ "w_logits w"]) simp
      ultimately show ?thesis using Some False x(2) by (simp add: head_all_def)
    qed
  qed
  then obtain w1 where w1: "(case md_lm_resident m of Some bytes \<Rightarrow> head_rows env m 0 ?V bytes ?w
      | None \<Rightarrow> lm_chunks env m (nat (md_head_chunk m)) ?V 0 ?w) = Ok w1" "head_frame ?w w1" "w_logits w1 = head_all env m img xn" by blast
  have "lm_head env m w = Ok (w1\<lparr>w_logit_steps := w_logit_steps w1 + 1\<rparr>)"
    unfolding lm_head_def fa option.case Let_def xn_def [symmetric] w1(1) obind.simps ..
  moreover have "head_all env m img xn = spec_logits env m img (w_x w)" by (simp add: head_all_def spec_logits_def xn_def Let_def)
  moreover have "work_ok m w1 \<and> bufs_ok env m w1 \<and> w_stream w1 = w_stream w \<and> w_x w1 = w_x w"
  proof -
    obtain hb lb lg where e: "w1 = ?w\<lparr>w_headbuf := hb, w_lmhead_bytes := lb, w_logits := lg\<rparr>"
      "length hb = length (w_headbuf ?w)" "length lg = length (w_logits ?w)" using w1(2) by (auto simp: head_frame_def)
    show ?thesis using w b x(1) e(2,3) unfolding e(1) by (simp add: work_ok_def bufs_ok_def)
  qed
  ultimately show ?thesis using w1(3) work_okD(1) [OF w]
    by (intro exI [of _ "w1\<lparr>w_logit_steps := w_logit_steps w1 + 1\<rparr>"]) (simp add: work_ok_def bufs_ok_def)
qed

section \<open>The decode step\<close>

lemma kv_agrees_all: "kv_agrees m s K V (nlay m) pos \<Longrightarrow> kv_agrees m s K V 0 (Suc pos)"
  by (auto simp: kv_agrees_def less_Suc_eq)

lemma work_ok_model [simp]: "work_ok (m\<lparr>md_work := w'\<rparr>) w = work_ok m w"
  by (simp add: work_ok_def)

lemma ready_with:
  assumes "model_ok env img bs m" "work_ok m w" "bufs_ok env m w" "s_blk (w_stream w) = bs" "walking img (stream_rd env) (w_stream w) 0"
  shows "ready env img bs (m\<lparr>md_work := w\<rparr>)"
proof -
  have "layer_ok env (m\<lparr>md_work := w\<rparr>) n sl = layer_ok env m n sl" for n sl by (simp add: layer_ok_def)
  then have "model_ok env img bs (m\<lparr>md_work := w\<rparr>)" using assms(1) by (simp add: model_ok_def table_ok_def)
  then show ?thesis using assms(2-) by (simp add: ready_def bufs_ok_def)
qed

lemma decode_ok:
  assumes fo: "file_ok env img" and rd: "ready env img bs m" and s: "seq_ok m s"
    and tok: "0 \<le> token" "token < md_vocab m" and pos: "0 \<le> pos" "pos < sq_context s" "pos \<le> md_ctx_max m"
    and ag: "kv_agrees m s K V 0 (nat pos)"
    and sp: "spec_step env m (block_bytes img bs) img (nat token) (nat pos) (K, V) = (x, K', V')"
  shows "\<exists>w s'. qwen3_decode env rdr m s token pos flags = Ok (m\<lparr>md_work := w\<rparr>, s') \<and>
    ready env img bs (m\<lparr>md_work := w\<rparr>) \<and> seq_ok m s' \<and> sq_context s' = sq_context s \<and>
    sq_n_seen s' = max (sq_n_seen s) (pos + 1) \<and> kv_agrees m s' K' V' 0 (Suc (nat pos)) \<and>
    w_logits w = (if flags AND ENG_DEC_LOGITS \<noteq> 0 then spec_logits env m img x else w_logits (md_work m))"
proof -
  let ?w = "md_work m"
  have mo: "model_ok env img bs m" and w: "work_ok m ?w" and b: "bufs_ok env m ?w" and blk: "s_blk (w_stream ?w) = bs"
    and wk: "walking img (stream_rd env) (w_stream ?w) 0" using rd by (auto simp: ready_def)
  have d: "0 < md_d_model m" and t: "table_ok env img m (md_embd m)" and nl: "0 < md_n_layers m"
    using mo by (auto simp: model_ok_def)
  have "int (nat token) < md_vocab m" using tok by simp
  from embed_ok [OF fo d t this w b] obtain rb where e: "embed_token env m (nat token) ?w =
      Ok (?w\<lparr>w_rowbuf := rb, w_x := spec_embed env m img (nat token)\<rparr>)" "length rb = length (w_rowbuf ?w)"
    "length (spec_embed env m img (nat token)) = dm m" by blast
  define w0 where "w0 = ?w\<lparr>w_rowbuf := rb, w_x := spec_embed env m img (nat token)\<rparr>"
  have w0: "work_ok m w0" "bufs_ok env m w0" "s_blk (w_stream w0) = bs" "walking img (stream_rd env) (w_stream w0) 0"
    using w b blk wk e(2,3) by (simp_all add: w0_def work_ok_def bufs_ok_def)
  have ps: "nat pos < nat (sq_context s)" "nat pos < length (w_scores w0)" using pos w0(2) by (auto simp: bufs_ok_def)
  have wk0: "walking img (stream_rd env) (w_stream w0) (if 0 < nlay m then 0 else 0)" using w0(4) by simp
  obtain w1 s1 K1 V1 where r: "run_layers env m (nat pos) rdr [0..<nlay m] (w0, s) = Ok (w1, s1)"
    "foldl (spec_layer env m (block_bytes img bs) (nat pos)) (w_x w0, K, V) [0..<nlay m] = (w_x w1, K1, V1)"
    "work_ok m w1" "seq_ok m s1" "kv_agrees m s1 K1 V1 (nlay m) (nat pos)" "s_blk (w_stream w1) = bs"
    "walking img (stream_rd env) (w_stream w1) 0" "kept (w0, s) (w1, s1)"
    using run_layers_ok [OF fo mo _ w0(1) s w0(3) wk0 ps ag, of rdr] by auto
  have sx: "w_x w1 = x" "K1 = K'" "V1 = V'" using sp r(2) by (simp_all add: spec_step_def w0_def)
  have b1: "bufs_ok env m w1" using w0(2) r(8) by (simp add: bufs_ok_def kept_def)
  have lg1: "w_logits w1 = w_logits ?w" using r(8) by (simp add: kept_def w0_def)
  have "\<exists>w2. (if flags AND ENG_DEC_LOGITS \<noteq> 0 then with_seq (lm_head env m w1) s1 else Ok (w1, s1)) = Ok (w2, s1) \<and>
      work_ok m w2 \<and> bufs_ok env m w2 \<and> w_stream w2 = w_stream w1 \<and>
      w_logits w2 = (if flags AND ENG_DEC_LOGITS \<noteq> 0 then spec_logits env m img x else w_logits ?w)"
  proof (cases "flags AND ENG_DEC_LOGITS \<noteq> 0")
    case True
    from lm_head_ok [OF fo mo r(3) b1] obtain w2 where "lm_head env m w1 = Ok w2" "w_logits w2 = spec_logits env m img (w_x w1)"
      "work_ok m w2" "bufs_ok env m w2" "w_stream w2 = w_stream w1" by blast
    then show ?thesis using True sx by simp
  next
    case False
    then show ?thesis using r(3) b1 lg1 by simp
  qed
  then obtain w2 where l: "(if flags AND ENG_DEC_LOGITS \<noteq> 0 then with_seq (lm_head env m w1) s1 else Ok (w1, s1)) = Ok (w2, s1)"
    "work_ok m w2" "bufs_ok env m w2" "w_stream w2 = w_stream w1"
    "w_logits w2 = (if flags AND ENG_DEC_LOGITS \<noteq> 0 then spec_logits env m img x else w_logits ?w)" by blast
  define w3 where "w3 = w2\<lparr>w_steps := w_steps w2 + 1\<rparr>"
  define s3 where "s3 = s1\<lparr>sq_n_seen := (if pos + 1 > sq_n_seen s1 then pos + 1 else sq_n_seen s1)\<rparr>"
  have g: "\<not> (token < 0 \<or> token \<ge> md_vocab m)" "\<not> (pos < 0 \<or> pos \<ge> sq_context s)" using tok pos by auto
  have "qwen3_decode env rdr m s token pos flags = Ok (m\<lparr>md_work := w3\<rparr>, s3)"
    unfolding qwen3_decode_def if_not_P [OF g(1)] if_not_P [OF g(2)] e(1) with_seq.simps obind.simps w0_def [symmetric] r(1)
      prod.case l(1) store_work.simps w3_def s3_def ..
  moreover have "ready env img bs (m\<lparr>md_work := w3\<rparr>)"
    using l r(6,7) by (intro ready_with [OF mo]) (simp_all add: w3_def work_ok_def bufs_ok_def)
  moreover have "seq_ok m s3" "sq_context s3 = sq_context s" "sq_n_seen s3 = max (sq_n_seen s) (pos + 1)"
    using r(4,8) by (simp_all add: s3_def seq_ok_def kept_def max_def)
  moreover have "kv_agrees m s3 K' V' 0 (Suc (nat pos))"
    using kv_agrees_all [OF r(5)] unfolding sx by (simp add: s3_def kv_agrees_def)
  moreover have "w_logits w3 = w_logits w2" by (simp add: w3_def)
  ultimately show ?thesis using l(5) by (intro exI [of _ w3] exI [of _ s3]) simp
qed

end
