(* ===== verification/Qwen3_Gen.thy ===== *)
theory Qwen3_Gen
  imports Qwen3_Decode
begin

text \<open>
  The generation loop of \<^verbatim>\<open>src/app/cli.c\<close> over the Qwen3 backend: the prompt is consumed without
  logits, then each step's most likely token is fed back.  \<open>ids\<close> are the prompt's tokens, \<open>eos\<close> the
  tokenizer's end-of-sequence id, \<open>rdr\<close> the moments at which the reader thread runs.  The result is
  the list of generated tokens, \<open>Err\<close> when a decode step failed after them.  The text printed for
  each token and the timing are left out.

  \<open>spec_gen\<close> is the same loop over the forward pass; it mentions no buffer, no budget and no thread.
\<close>

definition argmax :: "('f, 'd) fpu \<Rightarrow> 'f list \<Rightarrow> nat \<Rightarrow> nat" where
  "argmax fp lg nv = foldl (\<lambda>best i. if f_gt fp (lg ! i) (lg ! best) then i else best) 0 [1..<nv]"

fun emit_tok :: "int \<Rightarrow> (int list, int list) outcome \<Rightarrow> (int list, int list) outcome" where
  "emit_tok t (Ok out) = Ok (t # out)"
| "emit_tok t (Err out) = Err (t # out)"
| "emit_tok t Fault = Fault"

function gen_loop :: "('f, 'd) qenv \<Rightarrow> (nat \<Rightarrow> nat \<Rightarrow> bool) \<Rightarrow> int list \<Rightarrow> int \<Rightarrow> int \<Rightarrow> nat \<Rightarrow> nat \<Rightarrow> int \<Rightarrow> int \<Rightarrow>
    'f eng_model \<Rightarrow> 'f eng_seq_state \<Rightarrow> (int list, int list) outcome" where
  "gen_loop env rdr ids eos ntok lmt pos produced tok_id m s =
     (if pos < lmt
      then let last_prompt = (pos + 1 \<ge> length ids) in
        (case qwen3_decode env (rdr pos) m s tok_id (int pos) (if last_prompt then ENG_DEC_LOGITS else 0) of
           Fault \<Rightarrow> Fault
         | Err _ \<Rightarrow> Err []
         | Ok (m, s) \<Rightarrow>
             if \<not> last_prompt then gen_loop env rdr ids eos ntok lmt (pos + 1) produced (ids ! (pos + 1)) m s
             else let (lg, nv) = qwen3_logits m; best = int (argmax (q_fp env) lg (nat nv)) in
               if best = eos then Ok []
               else emit_tok best (if produced + 1 \<ge> ntok then Ok []
                      else gen_loop env rdr ids eos ntok lmt (pos + 1) (produced + 1) best m s))
      else Ok [])"
  by pat_completeness auto
termination by (relation "measure (\<lambda>(env, rdr, ids, eos, ntok, lmt, pos, produced, tok_id, m, s). lmt - pos)") auto

declare gen_loop.simps [simp del]

definition cmd_run_gen :: "('f, 'd) qenv \<Rightarrow> (nat \<Rightarrow> nat \<Rightarrow> bool) \<Rightarrow> int list \<Rightarrow> int \<Rightarrow> int \<Rightarrow> int \<Rightarrow> 'f eng_model \<Rightarrow>
    (int list, int list) outcome" where
  "cmd_run_gen env rdr ids eos ntok plan_context m =
     (let n = int (length ids);
          ctx = (if plan_context > n + ntok then n + ntok else plan_context)
      in if ctx < n + 1 then Err []
         else case qwen3_state_create env m ctx of
                None \<Rightarrow> Err []
              | Some st \<Rightarrow> gen_loop env rdr ids eos ntok (nat (ctx - 1)) 0 0 (ids ! 0) m st)"

section \<open>The loop over the forward pass\<close>

function spec_gen :: "('f, 'd) qenv \<Rightarrow> 'f eng_model \<Rightarrow> (nat \<Rightarrow> byte list) \<Rightarrow> byte list \<Rightarrow> int list \<Rightarrow> int \<Rightarrow> int \<Rightarrow> nat \<Rightarrow> nat \<Rightarrow>
    int \<Rightarrow> int \<Rightarrow> 'f kv \<times> 'f kv \<Rightarrow> int list" where
  "spec_gen env m blk img ids eos ntok lmt pos produced tok_id KV =
     (if pos < lmt
      then let (x, KV) = spec_step env m blk img (nat tok_id) pos KV in
        if pos + 1 < length ids then spec_gen env m blk img ids eos ntok lmt (pos + 1) produced (ids ! (pos + 1)) KV
        else let best = int (argmax (q_fp env) (spec_logits env m img x) (nat (md_vocab m))) in
          if best = eos then []
          else best # (if produced + 1 \<ge> ntok then []
                 else spec_gen env m blk img ids eos ntok lmt (pos + 1) (produced + 1) best KV)
      else [])"
  by pat_completeness auto
termination by (relation "measure (\<lambda>(env, m, blk, img, ids, eos, ntok, lmt, pos, produced, tok_id, KV). lmt - pos)") auto

declare spec_gen.simps [simp del]

lemma argmax_less: "0 < nv \<Longrightarrow> argmax fp lg nv < nv"
proof -
  assume "0 < nv"
  then have "\<forall>i \<in> set is. i < nv \<Longrightarrow> b < nv \<Longrightarrow> foldl (\<lambda>best i. if f_gt fp (lg ! i) (lg ! best) then i else best) b is < nv" for "is" b
    by (induction "is" arbitrary: b) auto
  then show ?thesis using \<open>0 < nv\<close> by (simp add: argmax_def)
qed

section \<open>Models that differ in memory configuration only\<close>

text \<open>
  The same weights and dimensions: the chunk length, the residency of the LM head and every buffer,
  the streamer among them, may differ.
\<close>

definition same_weights :: "'f eng_model \<Rightarrow> 'f eng_model \<Rightarrow> bool" where
  "same_weights m m' \<longleftrightarrow> (\<exists>c r lb w. m' = m\<lparr>md_head_chunk := c, md_lm_resident := r, md_lm_bytes := lb, md_work := w\<rparr>)"

text \<open>The same processor over another pair of descriptors.\<close>

definition same_cpu :: "('f, 'd) qenv \<Rightarrow> ('f, 'd) qenv \<Rightarrow> bool" where
  "same_cpu env env' \<longleftrightarrow> (\<exists>fd dfd st. env' = env\<lparr>q_fd := fd, q_dfd := dfd, q_st := st\<rparr>)"

lemma quant_ops_same: "quant_ops (env\<lparr>q_fd := fd, q_dfd := dfd, q_st := st\<rparr>) = quant_ops env"
  by (simp add: quant_ops_def fun_eq_iff)

lemma spec_step_same:
  assumes "same_weights m m'" "same_cpu env env'"
  shows "spec_step env' m' = spec_step env m"
proof -
  obtain c r lb w where m': "m' = m\<lparr>md_head_chunk := c, md_lm_resident := r, md_lm_bytes := lb, md_work := w\<rparr>"
    using assms(1) by (auto simp: same_weights_def)
  obtain fd dfd st where e': "env' = env\<lparr>q_fd := fd, q_dfd := dfd, q_st := st\<rparr>" using assms(2) by (auto simp: same_cpu_def)
  have p: "spec_proj env' = spec_proj env" by (simp add: fun_eq_iff spec_proj_def e' quant_ops_same Let_def cong: if_cong option.case_cong)
  have n: "norm_w env' = norm_w env" by (simp add: fun_eq_iff norm_w_def e')
  have qk: "spec_qk env' m' = spec_qk env m" by (simp add: fun_eq_iff spec_qk_def e' m')
  have wt: "spec_weights env' = spec_weights env" by (simp add: fun_eq_iff spec_weights_def e')
  have "spec_head env' = spec_head env" by (simp add: fun_eq_iff spec_head_def wt) (simp add: e')
  then have at: "spec_attend env' m' = spec_attend env m" by (simp add: fun_eq_iff spec_attend_def m')
  have ml: "spec_mlp env' m' = spec_mlp env m" by (simp add: fun_eq_iff spec_mlp_def p n) (simp add: e' m')
  have ly: "spec_layer env' m' = spec_layer env m"
    by (simp add: fun_eq_iff spec_layer_def p n qk at ml) (simp add: e' m')
  have hr: "head_row env' = head_row env" by (simp add: fun_eq_iff head_row_def e' quant_ops_same)
  have "spec_embed env' m' = spec_embed env m" by (simp add: fun_eq_iff spec_embed_def hr) (simp add: e' m' quant_ops_same Let_def cong: option.case_cong)
  then show ?thesis by (simp add: fun_eq_iff spec_step_def ly) (simp add: m')
qed

lemma spec_logits_same:
  assumes "same_weights m m'" "same_cpu env env'"
  shows "spec_logits env' m' = spec_logits env m"
proof -
  obtain c r lb w where m': "m' = m\<lparr>md_head_chunk := c, md_lm_resident := r, md_lm_bytes := lb, md_work := w\<rparr>"
    using assms(1) by (auto simp: same_weights_def)
  obtain fd dfd st where e': "env' = env\<lparr>q_fd := fd, q_dfd := dfd, q_st := st\<rparr>" using assms(2) by (auto simp: same_cpu_def)
  have hr: "head_row env' = head_row env" by (simp add: fun_eq_iff head_row_def e' quant_ops_same)
  have "head_dot env' m' = head_dot env m" by (simp add: fun_eq_iff head_dot_def e' m' quant_ops_same cong: option.case_cong)
  then show ?thesis by (simp add: fun_eq_iff spec_logits_def hr) (simp add: e' m')
qed

lemma spec_gen_same:
  assumes "same_weights m m'" "same_cpu env env'"
  shows "spec_gen env' m' blk img ids eos ntok lmt pos produced tok_id KV = spec_gen env m blk img ids eos ntok lmt pos produced tok_id KV"
proof (induction "lmt - pos" arbitrary: pos produced tok_id KV rule: less_induct)
  case less
  have e: "q_fp env' = q_fp env" "md_vocab m' = md_vocab m" using assms by (auto simp: same_weights_def same_cpu_def)
  show ?case
  proof (cases "pos < lmt")
    case True
    then have "spec_gen env' m' blk img ids eos ntok lmt (pos + 1) pr t KV' = spec_gen env m blk img ids eos ntok lmt (pos + 1) pr t KV'" for pr t KV'
      by (intro less) simp
    then show ?thesis
      by (subst (1 2) spec_gen.simps) (simp add: spec_step_same [OF assms] spec_logits_same [OF assms] e Let_def split: prod.splits)
  qed (simp add: spec_gen.simps)
qed

section \<open>The loop computes its specification\<close>

lemma ready_cong_work:
  "ready env img bs m \<Longrightarrow> m' = m\<lparr>md_work := w\<rparr> \<Longrightarrow> same_weights m m'"
  unfolding same_weights_def
  by (rule exI [of _ "md_head_chunk m"], rule exI [of _ "md_lm_resident m"], rule exI [of _ "md_lm_bytes m"], rule exI [of _ w]) simp

lemma gen_loop_ok:
  assumes "file_ok env img" "ready env img bs m" "seq_ok m s" "kv_agrees m s (fst KV) (snd KV) 0 pos"
    and "0 \<le> tok_id" "tok_id < md_vocab m" "\<forall>i \<in> set ids. 0 \<le> i \<and> i < md_vocab m"
    and "int lmt \<le> sq_context s" "int lmt \<le> md_ctx_max m + 1"
  shows "gen_loop env rdr ids eos ntok lmt pos produced tok_id m s =
    Ok (spec_gen env m (block_bytes img bs) img ids eos ntok lmt pos produced tok_id KV)"
  using assms(2-6,8,9) assms(7)
proof (induction "lmt - pos" arbitrary: pos produced tok_id m s KV rule: less_induct)
  case less
  note rd = less.prems(1) and sq = less.prems(2) and ag = less.prems(3) and tk = less.prems(4,5) and lmt = less.prems(6,7) and ids = less.prems(8)
  show ?case
  proof (cases "pos < lmt")
    case False
    then show ?thesis by (simp add: gen_loop.simps spec_gen.simps)
  next
    case True
    obtain x K V where sp: "spec_step env m (block_bytes img bs) img (nat tok_id) pos KV = (x, K, V)" by (metis prod_cases3)
    let ?fl = "if length ids \<le> pos + 1 then ENG_DEC_LOGITS else 0"
    have sp': "spec_step env m (block_bytes img bs) img (nat tok_id) (nat (int pos)) (fst KV, snd KV) = (x, K, V)" using sp by simp
    have ps: "0 \<le> int pos" "int pos < sq_context s" "int pos \<le> md_ctx_max m" using True lmt by auto
    obtain w s' where d: "qwen3_decode env (rdr pos) m s tok_id (int pos) ?fl = Ok (m\<lparr>md_work := w\<rparr>, s')"
      "ready env img bs (m\<lparr>md_work := w\<rparr>)" "seq_ok m s'" "sq_context s' = sq_context s" "kv_agrees m s' K V 0 (Suc pos)"
      "w_logits w = (if ?fl AND ENG_DEC_LOGITS \<noteq> 0 then spec_logits env m img x else w_logits (md_work m))"
      using decode_ok [OF assms(1) rd sq tk ps _ sp', of "rdr pos" ?fl] ag by auto
    let ?m = "m\<lparr>md_work := w\<rparr>"
    have cfg: "md_vocab ?m = md_vocab m" "seq_ok ?m s'" "kv_agrees ?m s' K V 0 (pos + 1)"
      using d(3,5) by (simp_all add: seq_ok_def kv_agrees_def)
    have same: "spec_gen env ?m = spec_gen env m"
    proof (intro ext)
      fix a b c e f g h i j k
      have "same_cpu env env" unfolding same_cpu_def by (rule exI [of _ "q_fd env"], rule exI [of _ "q_dfd env"], rule exI [of _ "q_st env"]) simp
      from spec_gen_same [OF ready_cong_work [OF rd refl] this]
      show "spec_gen env ?m a b c e f g h i j k = spec_gen env m a b c e f g h i j k" .
    qed
    have IH: "gen_loop env rdr ids eos ntok lmt (pos + 1) pr t ?m s' =
        Ok (spec_gen env m (block_bytes img bs) img ids eos ntok lmt (pos + 1) pr t (K, V))"
      if "0 \<le> t" "t < md_vocab m" for pr t
    proof -
      have "gen_loop env rdr ids eos ntok lmt (pos + 1) pr t ?m s' =
          Ok (spec_gen env ?m (block_bytes img bs) img ids eos ntok lmt (pos + 1) pr t (K, V))"
        by (rule less.hyps) (use True that d cfg lmt ids in simp_all)
      then show ?thesis by (simp only: same)
    qed
    show ?thesis
    proof (cases "length ids \<le> pos + 1")
      case False
      then have "ids ! (pos + 1) \<in> set ids" by simp
      then have "0 \<le> ids ! (pos + 1)" "ids ! (pos + 1) < md_vocab m" using ids by auto
      then show ?thesis using True False d(1) IH sp by (subst gen_loop.simps, subst spec_gen.simps) simp
    next
      case lp: True
      have fl: "ENG_DEC_LOGITS AND ENG_DEC_LOGITS \<noteq> 0" by (simp add: ENG_DEC_LOGITS_def)
      have lg: "w_logits w = spec_logits env m img x" using d(6) lp fl by simp
      define best where "best = int (argmax (q_fp env) (spec_logits env m img x) (nat (md_vocab m)))"
      have "best < md_vocab m" using tk argmax_less [of "nat (md_vocab m)" "q_fp env" "spec_logits env m img x"] by (simp add: best_def)
      moreover have "0 \<le> best" by (simp add: best_def)
      ultimately have nx: "gen_loop env rdr ids eos ntok lmt (pos + 1) pr best ?m s' =
          Ok (spec_gen env m (block_bytes img bs) img ids eos ntok lmt (pos + 1) pr best (K, V))" for pr by (rule IH [rotated])
      have ql: "qwen3_logits ?m = (spec_logits env m img x, md_vocab m)" by (simp add: qwen3_logits_def lg)
      show ?thesis using True lp d(1) nx sp
        by (subst gen_loop.simps, subst spec_gen.simps) (simp add: ql best_def [symmetric])
    qed
  qed
qed

lemma state_create_ok:
  assumes "model_ok env img bs m" "0 < c" "md_n_layers m * c * (md_n_kv m * md_head_dim m) < 2 ^ 61"
  shows "\<exists>s. qwen3_state_create env m c = Some s \<and> sq_context s = c \<and> sq_n_seen s = 0 \<and> seq_ok m s"
proof -
  let ?w = "md_n_kv m * md_head_dim m" and ?z = "f_of_int (q_fp env) 0"
  have m: "0 < md_n_layers m" "0 < nkv m" "layer_ok env m (nat (b_nbytes (bs ! 0))) (md_slot m ! 0)" using assms(1) by (auto simp: model_ok_def)
  have k: "kvw m < 2 ^ 31" using m(3) by (auto simp: layer_ok_def slot_ok_def)
  have w: "nat ?w = kvw m" using m(2) by (intro nat_mult_distrib) simp
  show ?thesis
  proof (cases "0 \<le> md_head_dim m")
    case True
    have n: "0 \<le> ?w" using m(2) True by simp
    then have i: "i32 ?w = ?w" using k w by (intro i32_id) (simp add: in_i32_def)
    let ?n = "md_n_layers m * c * ?w"
    have "0 \<le> ?n" using m(1) assms(2) n by simp
    then have md: "?n mod 2 ^ 64 = ?n" using assms(3) by (intro mod_pos_pos_trivial) simp_all
    then have c: "qwen3_state_create env m c = Some \<lparr>sq_context = c, sq_n_seen = 0, sq_kc = replicate (nat ?n) ?z, sq_vc = replicate (nat ?n) ?z\<rparr>"
      using assms(2,3) \<open>0 \<le> ?n\<close> by (simp add: qwen3_state_create_def i alloc_ok_def Let_def)
    have "nat ?n = nlay m * nat c * kvw m" using m(1) assms(2) w by (simp add: nat_mult_distrib)
    then show ?thesis unfolding c using assms(2) by (simp add: seq_ok_def)
  next
    case False
    then have "hdim m = 0" by simp
    moreover have "0 < nhd m * hdim m" using m(3) by (auto simp: layer_ok_def slot_ok_def)
    ultimately show ?thesis by simp
  qed
qed

lemma cmd_run_ok:
  assumes fo: "file_ok env img" and rd: "ready env img bs m" and ids: "ids \<noteq> []" "\<forall>i \<in> set ids. 0 \<le> i \<and> i < md_vocab m"
    and ctx: "ctx = min c (int (length ids) + ntok)" "int (length ids) < ctx" "ctx \<le> md_ctx_max m + 2"
    and sz: "md_n_layers m * ctx * (md_n_kv m * md_head_dim m) < 2 ^ 61"
  shows "cmd_run_gen env rdr ids eos ntok c m = Ok (spec_gen env m (block_bytes img bs) img ids eos ntok (nat (ctx - 1)) 0 0 (ids ! 0)
    (\<lambda>_ _. [], \<lambda>_ _. []))"
proof -
  have mo: "model_ok env img bs m" using rd by (simp add: ready_def)
  obtain s where s: "qwen3_state_create env m ctx = Some s" "sq_context s = ctx" "seq_ok m s"
    using state_create_ok [OF mo _ sz] ctx(2) by fastforce
  have i0: "0 \<le> ids ! 0" "ids ! 0 < md_vocab m" using ids by (auto simp: neq_Nil_conv)
  have e: "(if int (length ids) + ntok < c then int (length ids) + ntok else c) = ctx" using ctx(1) by simp
  have "gen_loop env rdr ids eos ntok (nat (ctx - 1)) 0 0 (ids ! 0) m s =
      Ok (spec_gen env m (block_bytes img bs) img ids eos ntok (nat (ctx - 1)) 0 0 (ids ! 0) (\<lambda>_ _. [], \<lambda>_ _. []))"
    by (rule gen_loop_ok [OF fo rd s(3) _ i0 ids(2)]) (use ctx s(2) in \<open>auto simp: kv_agrees_def\<close>)
  then show ?thesis using ctx(2) s(1) by (simp add: cmd_run_gen_def e)
qed

end
