(* ===== verification/Qwen3_Load.thy ===== *)
theory Qwen3_Load
  imports Qwen3_Gen Tensor_Props
begin

text \<open>
  What \<open>qwen3_load\<close> builds.  A container whose tensors lie inside the file and have the shapes of the
  architecture is bound to a model that is \<open>ready\<close>: every slot lies inside its layer's block, every
  block inside the file, every buffer has the length the decode step relies on, and the streamer
  starts its walk at layer 0.  The memory budget, the forced residency and the reader thread select
  among models with the same weights.
\<close>

section \<open>Containers with the shapes of the architecture\<close>

definition tensors_inside :: "byte list \<Rightarrow> gguf \<Rightarrow> bool" where
  "tensors_inside img g \<longleftrightarrow> int (length img) < 2 ^ 63 \<and>
     list_all (\<lambda>t. 0 \<le> g_file_off t \<and> 0 \<le> g_nbytes t \<and> g_file_off t + g_nbytes t \<le> int (length img)) (gg_t g)"

definition blk_tensor :: "gguf \<Rightarrow> nat \<Rightarrow> string \<Rightarrow> gguf_tensor option" where
  "blk_tensor g L suffix = gguf_tensor_find g (ascii (''blk.'' @ dec_nat L @ ''.'' @ suffix @ ''.weight''))"

text \<open>A matrix of \<open>nout\<close> rows of \<open>nin\<close> elements, and a vector of at least \<open>n\<close> floats.\<close>

definition is_matrix :: "('f, 'd) qenv \<Rightarrow> gguf_tensor option \<Rightarrow> nat \<Rightarrow> nat \<Rightarrow> bool" where
  "is_matrix env ot nin nout \<longleftrightarrow> (case ot of None \<Rightarrow> False | Some t \<Rightarrow>
     shape_at t 0 = int nin \<and> (if length (g_shape t) > 1 then shape_at t 1 else 1) = int nout \<and>
     0 < nin \<and> nin < 2 ^ 31 \<and> nout < 2 ^ 31 \<and> usable env (g_dtype t) nin \<and>
     int nout * head_row env (g_dtype t) (int nin) \<le> g_nbytes t)"

definition is_vector :: "gguf_tensor option \<Rightarrow> nat \<Rightarrow> bool" where
  "is_vector ot n \<longleftrightarrow> (case ot of None \<Rightarrow> False | Some t \<Rightarrow> 4 * int n \<le> g_nbytes t)"

definition layer_fits :: "('f, 'd) qenv \<Rightarrow> gguf \<Rightarrow> 'f eng_model \<Rightarrow> nat \<Rightarrow> bool" where
  "layer_fits env g m L \<longleftrightarrow>
     is_vector (blk_tensor g L ''attn_norm'') (dm m) \<and> is_matrix env (blk_tensor g L ''attn_q'') (dm m) (nhd m * hdim m) \<and>
     is_matrix env (blk_tensor g L ''attn_k'') (dm m) (kvw m) \<and> is_matrix env (blk_tensor g L ''attn_v'') (dm m) (kvw m) \<and>
     is_vector (blk_tensor g L ''attn_q_norm'') (hdim m) \<and> is_vector (blk_tensor g L ''attn_k_norm'') (hdim m) \<and>
     is_matrix env (blk_tensor g L ''attn_output'') (nhd m * hdim m) (dm m) \<and> is_vector (blk_tensor g L ''ffn_norm'') (dm m) \<and>
     is_matrix env (blk_tensor g L ''ffn_gate'') (dm m) (dff m) \<and> is_matrix env (blk_tensor g L ''ffn_up'') (dm m) (dff m) \<and>
     is_matrix env (blk_tensor g L ''ffn_down'') (dff m) (dm m)"

definition shapes_fit :: "('f, 'd) qenv \<Rightarrow> gguf \<Rightarrow> 'f eng_model \<Rightarrow> bool" where
  "shapes_fit env g m \<longleftrightarrow> 0 < md_n_layers m \<and> 0 < md_d_model m \<and> 0 < md_n_heads m \<and> 0 < md_n_kv m \<and> 0 < md_head_dim m \<and>
     0 < md_d_ff m \<and> 0 < md_vocab m \<and> list_all (layer_fits env g m) [0..<nlay m] \<and>
     is_matrix env (Some (md_embd m)) (dm m) (nat (md_vocab m)) \<and> is_matrix env (Some (md_lm_head m)) (dm m) (nat (md_vocab m)) \<and>
     is_vector (gguf_tensor_find g (ascii ''output_norm.weight'')) (dm m)"

section \<open>The span of a layer\<close>

abbreviation of_layer :: "byte list \<Rightarrow> gguf_tensor \<Rightarrow> bool" where
  "of_layer pre t \<equiv> take (length pre) (cstr (g_name t)) = pre"

lemma span_fold:
  assumes "\<forall>t \<in> set ts. 0 \<le> g_file_off t \<and> 0 \<le> g_nbytes t \<and> g_file_off t + g_nbytes t \<le> N" "N < 2 ^ 63" "hi \<le> N"
    and "foldl (span_step pre) (lo, hi) ts = (lo', hi')"
  shows "hi' \<le> N \<and> (0 \<le> lo \<and> 0 \<le> hi \<longrightarrow> 0 \<le> lo' \<and> lo' \<le> lo \<and> hi \<le> hi') \<and>
    (\<forall>t \<in> set ts. of_layer pre t \<longrightarrow> 0 \<le> lo' \<and> lo' \<le> g_file_off t \<and> g_file_off t + g_nbytes t \<le> hi')"
  using assms
proof (induction ts arbitrary: lo hi)
  case (Cons t ts)
  obtain lo1 hi1 where st: "span_step pre (lo, hi) t = (lo1, hi1)" by fastforce
  have t: "0 \<le> g_file_off t" "0 \<le> g_nbytes t" "g_file_off t + g_nbytes t \<le> N" using Cons.prems(1) by auto
  then have w: "i64 (g_file_off t + g_nbytes t) = g_file_off t + g_nbytes t"
    using Cons.prems(2) by (intro i64_id) (simp add: in_i64_def)
  have h1: "hi1 \<le> N" "0 \<le> lo \<and> 0 \<le> hi \<longrightarrow> 0 \<le> lo1 \<and> lo1 \<le> lo \<and> 0 \<le> hi1 \<and> hi \<le> hi1"
    "of_layer pre t \<longrightarrow> 0 \<le> lo1 \<and> 0 \<le> hi1 \<and> lo1 \<le> g_file_off t \<and> g_file_off t + g_nbytes t \<le> hi1"
    using st t Cons.prems(3) by (auto simp: span_step_def w Let_def split: if_splits)
  have f: "foldl (span_step pre) (lo1, hi1) ts = (lo', hi')" using Cons.prems(4) st by simp
  have "\<forall>t \<in> set ts. 0 \<le> g_file_off t \<and> 0 \<le> g_nbytes t \<and> g_file_off t + g_nbytes t \<le> N" using Cons.prems(1) by simp
  from Cons.IH [OF this Cons.prems(2) h1(1) f] h1 show ?case by fastforce
qed auto

lemma layer_span_covers:
  assumes "tensors_inside img g" "layer_span g L = Some (off, len)" "t \<in> set (gg_t g)" "of_layer (layer_prefix L) t"
  shows "0 \<le> off \<and> off \<le> g_file_off t \<and> g_file_off t + g_nbytes t \<le> off + len \<and> off + len \<le> int (length img)"
proof -
  obtain lo hi where f: "foldl (span_step (layer_prefix L)) (-1, -1) (gg_t g) = (lo, hi)" by fastforce
  have N: "\<forall>t \<in> set (gg_t g). 0 \<le> g_file_off t \<and> 0 \<le> g_nbytes t \<and> g_file_off t + g_nbytes t \<le> int (length img)"
    "int (length img) < 2 ^ 63" using assms(1) by (auto simp: tensors_inside_def list_all_iff)
  from span_fold [OF N _ f] assms(3,4)
  have b: "hi \<le> int (length img)" "0 \<le> lo" "lo \<le> g_file_off t" "g_file_off t + g_nbytes t \<le> hi" by auto
  have "0 \<le> g_nbytes t" using N(1) assms(3) by simp
  then have "i64 (hi - lo) = hi - lo" using b N(2) by (intro i64_id) (simp add: in_i64_def)
  then show ?thesis using assms(2) f b by (auto simp: layer_span_def split: if_splits)
qed

section \<open>Slots\<close>

lemma digit_nonzero: "(n :: nat) < 10 \<Longrightarrow> (of_nat (of_char (char_of (48 + n) :: char)) :: byte) \<noteq> 0"
proof -
  assume "n < 10"
  then have "48 + n < 256" "(48 + n) mod 256 = 48 + n" by auto
  then have "unat (of_nat (of_char (char_of (48 + n) :: char)) :: byte) = 48 + n"
    by (simp add: unat_of_nat del: of_nat_add)
  then show ?thesis by (metis add_is_0 unat_0 zero_neq_numeral)
qed

lemma dec_nat_nonzero: "\<forall>b \<in> set (ascii (dec_nat n)). b \<noteq> 0"
proof (induction n rule: dec_nat.induct)
  case (1 n)
  show ?case
  proof (cases "n < 10")
    case True
    then show ?thesis using digit_nonzero [OF True] by (subst dec_nat.simps) (simp add: ascii_def)
  next
    case False
    have "n mod 10 < 10" by simp
    from digit_nonzero [OF this] 1 [OF False] False show ?thesis by (subst dec_nat.simps) (simp add: ascii_def)
  qed
qed

lemma prefix_nonzero: "\<forall>b \<in> set (layer_prefix L). b \<noteq> 0"
  using dec_nat_nonzero [of L] by (auto simp: layer_prefix_def ascii_def)

lemma blk_tensor_of_layer:
  assumes "blk_tensor g L sfx = Some t"
  shows "t \<in> set (gg_t g) \<and> of_layer (layer_prefix L) t"
proof -
  have f: "List.find (\<lambda>t. cstr (g_name t) = cstr (layer_prefix L @ ascii (sfx @ ''.weight''))) (gg_t g) = Some t"
    using assms by (simp add: blk_tensor_def gguf_tensor_find_def layer_prefix_def ascii_def)
  have "cstr (layer_prefix L @ ys) = layer_prefix L @ cstr ys" for ys
    using prefix_nonzero [of L] by (simp add: cstr_def takeWhile_append2)
  with f show ?thesis by (auto simp: find_Some_iff)
qed

lemma bind_slot_Some:
  assumes "bind_slot g sfx L off = Some s" "layer_span g L = Some (off, len)" "tensors_inside img g"
  obtains t where "blk_tensor g L sfx = Some t" "0 \<le> off" "sl_rel s = g_file_off t - off" "0 \<le> sl_rel s" "0 \<le> g_nbytes t"
    "sl_rel s + g_nbytes t \<le> len" "off + len \<le> int (length img)" "sl_dtype s = g_dtype t" "sl_in s = shape_at t 0"
    "sl_out s = (if length (g_shape t) > 1 then shape_at t 1 else 1)"
proof -
  obtain t where t: "blk_tensor g L sfx = Some t" and s: "s = \<lparr>sl_rel = i64 (g_file_off t - off), sl_nbytes = g_nbytes t,
      sl_dtype = g_dtype t, sl_in = shape_at t 0, sl_out = (if length (g_shape t) > 1 then shape_at t 1 else 1)\<rparr>"
    using assms(1) by (auto simp: bind_slot_def blk_tensor_def)
  have in_g: "t \<in> set (gg_t g)" "of_layer (layer_prefix L) t" using blk_tensor_of_layer [OF t] by auto
  note c = layer_span_covers [OF assms(3,2) in_g]
  have nb: "0 \<le> g_nbytes t" "int (length img) < 2 ^ 63" using assms(3) in_g(1) by (auto simp: tensors_inside_def list_all_iff)
  have "i64 (g_file_off t - off) = g_file_off t - off" using c nb by (intro i64_id) (simp add: in_i64_def)
  then show ?thesis using c nb by (intro that [OF t]) (auto simp: s)
qed

lemma bound_matrix:
  assumes "bind_slot g sfx L off = Some s" "layer_span g L = Some (off, len)" "tensors_inside img g"
    and "is_matrix env (blk_tensor g L sfx) nin nout"
  shows "slot_ok env (nat len) s nin nout"
  using assms(1-3)
proof (rule bind_slot_Some)
  fix t assume t: "blk_tensor g L sfx = Some t" "0 \<le> off" "0 \<le> sl_rel s" "sl_rel s + g_nbytes t \<le> len" "sl_dtype s = g_dtype t"
    "sl_in s = shape_at t 0" "sl_out s = (if length (g_shape t) > 1 then shape_at t 1 else 1)"
  let ?rb = "head_row env (g_dtype t) (int nin)"
  have m: "shape_at t 0 = int nin" "(if length (g_shape t) > 1 then shape_at t 1 else 1) = int nout" "0 < nin" "nin < 2 ^ 31"
    "nout < 2 ^ 31" "usable env (g_dtype t) nin" "int nout * ?rb \<le> g_nbytes t"
    using assms(4) by (simp_all add: is_matrix_def t(1))
  have "0 \<le> ?rb" using m(3,6) by (auto simp: usable_def head_row_def F32_not_packed packed_ok_def split: option.splits)
  then have "int (nout * nat ?rb) = int nout * ?rb" by simp
  then have "int (nat (sl_rel s) + nout * nat ?rb) \<le> len" using m(7) t(3,4) by linarith
  then have "nat (sl_rel s) + nout * nat ?rb \<le> nat len" by linarith
  then show ?thesis unfolding slot_ok_def t(5-7) using m t(3) by simp
qed

lemma bound_vector:
  assumes "bind_slot g sfx L off = Some s" "layer_span g L = Some (off, len)" "tensors_inside img g"
    and "is_vector (blk_tensor g L sfx) n"
  shows "norm_ok (nat len) s n"
  using assms(1-3)
proof (rule bind_slot_Some)
  fix t assume t: "blk_tensor g L sfx = Some t" "0 \<le> sl_rel s" "sl_rel s + g_nbytes t \<le> len"
  then have "4 * int n \<le> g_nbytes t" using assms(4) by (simp add: is_vector_def)
  then show ?thesis using t(2,3) by (simp add: norm_ok_def)
qed

lemma bind_layer_ok:
  assumes "bind_layer g L = Some (b, sl)" "tensors_inside img g" "layer_fits env g m L" "0 < md_d_model m"
  shows "layer_ok env m (nat (b_nbytes b)) sl \<and> 0 \<le> b_off b \<and> 0 < b_nbytes b \<and> b_off b + b_nbytes b \<le> int (length img)"
proof -
  obtain off len where sp: "layer_span g L = Some (off, len)" and b: "b = \<lparr>b_off = off, b_nbytes = len\<rparr>"
    and sl: "bind_slot g ''attn_norm'' L off = Some (ls_attn_norm sl)" "bind_slot g ''attn_q'' L off = Some (ls_attn_q sl)"
      "bind_slot g ''attn_k'' L off = Some (ls_attn_k sl)" "bind_slot g ''attn_v'' L off = Some (ls_attn_v sl)"
      "bind_slot g ''attn_q_norm'' L off = Some (ls_attn_q_norm sl)" "bind_slot g ''attn_k_norm'' L off = Some (ls_attn_k_norm sl)"
      "bind_slot g ''attn_output'' L off = Some (ls_attn_out sl)" "bind_slot g ''ffn_norm'' L off = Some (ls_ffn_norm sl)"
      "bind_slot g ''ffn_gate'' L off = Some (ls_ffn_gate sl)" "bind_slot g ''ffn_up'' L off = Some (ls_ffn_up sl)"
      "bind_slot g ''ffn_down'' L off = Some (ls_ffn_down sl)"
    using assms(1) by (auto simp: bind_layer_def split: option.splits prod.splits)
  note mat = bound_matrix [OF _ sp assms(2)] and vec = bound_vector [OF _ sp assms(2)]
  note f = assms(3) [unfolded layer_fits_def]
  have "layer_ok env m (nat len) sl"
    unfolding layer_ok_def using f by (simp add: mat [OF sl(2)] mat [OF sl(3)] mat [OF sl(4)] mat [OF sl(7)] mat [OF sl(9)]
        mat [OF sl(10)] mat [OF sl(11)] vec [OF sl(1)] vec [OF sl(5)] vec [OF sl(6)] vec [OF sl(8)])
  moreover have "0 \<le> off \<and> 0 < len \<and> off + len \<le> int (length img)"
    using sl(1) sp assms(2)
  proof (rule bind_slot_Some)
    fix t assume t: "blk_tensor g L ''attn_norm'' = Some t" "0 \<le> off" "0 \<le> sl_rel (ls_attn_norm sl)"
      "sl_rel (ls_attn_norm sl) + g_nbytes t \<le> len" "off + len \<le> int (length img)"
    have "4 * int (dm m) \<le> g_nbytes t" using f t(1) by (simp add: is_vector_def)
    then show ?thesis using t assms(4) by linarith
  qed
  ultimately show ?thesis by (simp add: b)
qed

lemma bind_layers_nth:
  assumes "bind_layers g Ls = Some bs"
  shows "length bs = length Ls \<and> (\<forall>i < length Ls. bind_layer g (Ls ! i) = Some (bs ! i))"
  using assms
proof (induction Ls arbitrary: bs)
  case (Cons L Ls)
  then show ?case by (auto split: option.splits simp: nth_Cons split: nat.splits)
qed simp

section \<open>The loaded model\<close>

lemma load_Ok:
  assumes "qwen3_load env g budget force sys = Ok m"
  obtains bs st onm bud where "gguf_tensor_find g (ascii ''output_norm.weight'') = Some onm"
    "c_mod (md_n_heads m) (md_n_kv m) = 0" "bind_layers g [0..<nlay m] = Some bs" "md_slot m = map snd bs"
    "eng_streamer_create (map fst bs) bud 0 2 True (- 1) sys = Some st" "0 \<le> g_nbytes onm"
    "rr_ret (store_read env (g_file_off onm) (g_nbytes onm)) = g_nbytes onm"
    "md_out_norm m = rr_buf (store_read env (g_file_off onm) (g_nbytes onm))"
    "md_head_chunk m = head_chunk_of (buf_row env (g_dtype (md_lm_head m)) (md_d_model m)) (md_vocab m)"
    "\<And>b. md_lm_resident m = Some b \<Longrightarrow>
       b = rr_buf (store_read env (g_file_off (md_lm_head m)) (i64 (md_vocab m * head_row env (g_dtype (md_lm_head m)) (md_d_model m))))"
    "md_work m = fresh_work env st (md_d_model m) (md_n_heads m) (md_n_kv m) (md_head_dim m) (md_d_ff m) (md_vocab m) (md_ctx_max m)
       (buf_row env (g_dtype (md_embd m)) (md_d_model m))
       (md_head_chunk m * buf_row env (g_dtype (md_lm_head m)) (md_d_model m))"
    "load_dims g = (md_n_layers m, md_d_model m, md_n_heads m, md_n_kv m, md_head_dim m, md_d_ff m, md_ctx_max m)"
    "md_vocab m = i32 (shape_at (md_embd m) 1)" "gguf_tensor_find g (ascii ''token_embd.weight'') = Some (md_embd m)"
    "gguf_tensor_find g (ascii ''output.weight'') = Some (md_lm_head m)"
    "md_eps m = load_f32 env g ''attention.layer_norm_rms_epsilon''" "md_rope_theta m = load_f32 env g ''rope.freq_base''"
proof -
  obtain nl d nh nkv hw ff cl where dims: "load_dims g = (nl, d, nh, nkv, hw, ff, cl)" using prod_cases7 by blast
  note L = assms [unfolded qwen3_load_def dims Let_def prod.case]
  obtain emb where e: "gguf_tensor_find g (ascii ''token_embd.weight'') = Some emb"
    using L by (cases "gguf_tensor_find g (ascii ''token_embd.weight'')") simp_all
  obtain lmh where l: "gguf_tensor_find g (ascii ''output.weight'') = Some lmh"
    using L unfolding e by (cases "gguf_tensor_find g (ascii ''output.weight'')") simp_all
  obtain onm where o: "gguf_tensor_find g (ascii ''output_norm.weight'') = Some onm"
    using L unfolding e l by (cases "gguf_tensor_find g (ascii ''output_norm.weight'')") simp_all
  note L = L [unfolded e l o option.case prod.case]
  have g1: "nkv \<noteq> 0" "c_mod nh nkv = 0" "i32 (nh * hw) = d"
    using L by (auto split: if_splits)
  obtain bs where b: "bind_layers g [0..<nat nl] = Some bs" using L g1 by (cases "bind_layers g [0..<nat nl]") simp_all
  let ?vocab = "i32 (shape_at emb 1)"
  define need where "need = i64 (?vocab * head_row env (g_dtype lmh) d)"
  define have' where "have' = (case budget of None \<Rightarrow> 512 * 2 ^ 20 | Some b \<Rightarrow> b)"
  define lm where "lm = want_lm force have' need nl (foldl (\<lambda>big b. if b_nbytes b > big then b_nbytes b else big) 0 (map fst bs))"
  note L = L [unfolded b option.case, folded need_def have'_def, folded lm_def]
  obtain st where st: "eng_streamer_create (map fst bs) (i64 (have' - (if lm then need else 0))) 0 2 True (- 1) sys = Some st"
    using L g1 by (cases "eng_streamer_create (map fst bs) (i64 (have' - (if lm then need else 0))) 0 2 True (- 1) sys") simp_all
  note L = L [unfolded st option.case]
  let ?r = "store_read env (g_file_off onm) (g_nbytes onm)" and ?rl = "store_read env (g_file_off lmh) need"
  let ?ch = "head_chunk_of (buf_row env (g_dtype lmh) d) ?vocab"
  define res where "res = (if lm \<and> \<not> need < 0 \<and> rr_ret ?rl = need then Some (rr_buf ?rl) else None)"
  note L = L [folded res_def]
  have m: "m = \<lparr>md_n_layers = nl, md_d_model = d, md_n_heads = nh, md_n_kv = nkv, md_head_dim = hw, md_d_ff = ff,
      md_vocab = ?vocab, md_ctx_max = cl, md_eps = load_f32 env g ''attention.layer_norm_rms_epsilon'',
      md_rope_theta = load_f32 env g ''rope.freq_base'', md_slot = map snd bs, md_out_norm = rr_buf ?r, md_embd = emb,
      md_lm_head = lmh, md_head_chunk = ?ch, md_lm_resident = res, md_lm_bytes = (if res = None then 0 else need),
      md_work = fresh_work env st d nh nkv hw ff ?vocab cl (buf_row env (g_dtype emb) d) (?ch * buf_row env (g_dtype lmh) d)\<rparr>"
    using L g1 by (auto split: if_splits)
  have r: "0 \<le> g_nbytes onm" "rr_ret ?r = g_nbytes onm" using L g1 by (simp_all split: if_splits)
  have rs: "res = None \<or> res = Some (rr_buf ?rl)" by (simp add: res_def)
  show ?thesis
    by (rule that [OF o _ _ _ st]) (insert g1 b r rs, simp_all add: m dims e l o need_def)
qed

lemma buf_row_usable:
  assumes "usable env dt n" "0 < n" "n < 2 ^ 31"
  shows "buf_row env dt (int n) = head_row env dt (int n)"
proof -
  have "eng_dtype_row_bytes ENG_DT_F32 (int n) = int n * 4"
  proof -
    obtain i where i: "eng_dtype_info ENG_DT_F32 = Some i" "di_block_elems i = 1" "di_block_bytes i = 4" "di_row_extra i = 0"
    proof (rule that)
      show "eng_dtype_info ENG_DT_F32 = Some (the (eng_dtype_info ENG_DT_F32))" "di_block_elems (the (eng_dtype_info ENG_DT_F32)) = 1"
        "di_block_bytes (the (eng_dtype_info ENG_DT_F32)) = 4" "di_row_extra (the (eng_dtype_info ENG_DT_F32)) = 0" by code_simp+
    qed
    show ?thesis using row_bytes_eq [OF i(1), of "int n"] i assms(3) by simp
  qed
  then show ?thesis using assms(1) by (auto simp: usable_def buf_row_def head_row_def F32_not_packed split: option.splits)
qed

lemma head_chunk_pos: "0 < vocab \<Longrightarrow> 0 < head_chunk_of hrow vocab"
  by (simp add: head_chunk_of_def Let_def)

lemma c_mod_nat: "0 < a \<Longrightarrow> 0 < b \<Longrightarrow> c_mod a b = 0 \<Longrightarrow> nat a mod nat b = 0"
proof -
  assume "0 < a" "0 < b" "c_mod a b = 0"
  then have "a mod b = 0" by (simp add: c_mod_def c_div_def minus_div_mult_eq_mod)
  then show ?thesis using \<open>0 < a\<close> \<open>0 < b\<close> by (simp flip: nat_mod_distrib)
qed

lemma table_fits:
  assumes "is_matrix env (Some t) (dm m) (nat (md_vocab m))" "tensors_inside img g" "t \<in> set (gg_t g)" "0 < md_d_model m" "0 < md_vocab m"
  shows "table_ok env img m t" "buf_row env (g_dtype t) (md_d_model m) = head_row env (g_dtype t) (md_d_model m)"
    "i64 (md_vocab m * head_row env (g_dtype t) (md_d_model m)) = md_vocab m * head_row env (g_dtype t) (md_d_model m)"
proof -
  let ?rb = "head_row env (g_dtype t) (md_d_model m)"
  have e: "int (dm m) = md_d_model m" "int (nat (md_vocab m)) = md_vocab m" using assms(4,5) by simp_all
  have u: "usable env (g_dtype t) (dm m)" "dm m < 2 ^ 31" "md_vocab m * ?rb \<le> g_nbytes t"
    using assms(1) e unfolding is_matrix_def by simp_all
  have t: "0 \<le> g_file_off t" "g_file_off t + g_nbytes t \<le> int (length img)" "int (length img) < 2 ^ 63"
    using assms(2,3) by (auto simp: tensors_inside_def list_all_iff)
  show "table_ok env img m t" using u t by (simp add: table_ok_def)
  show "buf_row env (g_dtype t) (md_d_model m) = ?rb"
    using buf_row_usable [OF u(1) _ u(2)] assms(4) by (simp add: e)
  have "0 \<le> ?rb" by (rule usable_row [OF u(1) assms(4)])
  then have "0 \<le> md_vocab m * ?rb" using assms(5) by simp
  then show "i64 (md_vocab m * ?rb) = md_vocab m * ?rb" using u(3) t by (intro i64_id) (simp add: in_i64_def)
qed

lemma found_in_list: "gguf_tensor_find g nm = Some t \<Longrightarrow> t \<in> set (gg_t g)"
  by (auto simp: gguf_tensor_find_def find_Some_iff)

lemma loaded_ready:
  assumes ld: "qwen3_load env g budget force sys = Ok m" and fo: "file_ok env img"
    and ti: "tensors_inside img g" and sf: "shapes_fit env g m"
  shows "\<exists>bs. bind_layers g [0..<nlay m] = Some bs \<and> ready env img (map fst bs) m"
  using ld
proof (rule load_Ok)
  fix bs st onm bud
  assume L: "gguf_tensor_find g (ascii ''output_norm.weight'') = Some onm" "c_mod (md_n_heads m) (md_n_kv m) = 0"
    "bind_layers g [0..<nlay m] = Some bs" "md_slot m = map snd bs"
    "eng_streamer_create (map fst bs) bud 0 2 True (- 1) sys = Some st" "0 \<le> g_nbytes onm"
    "rr_ret (store_read env (g_file_off onm) (g_nbytes onm)) = g_nbytes onm"
    "md_out_norm m = rr_buf (store_read env (g_file_off onm) (g_nbytes onm))"
    "md_head_chunk m = head_chunk_of (buf_row env (g_dtype (md_lm_head m)) (md_d_model m)) (md_vocab m)"
    and res: "\<And>b. md_lm_resident m = Some b \<Longrightarrow>
       b = rr_buf (store_read env (g_file_off (md_lm_head m)) (i64 (md_vocab m * head_row env (g_dtype (md_lm_head m)) (md_d_model m))))"
    and w: "md_work m = fresh_work env st (md_d_model m) (md_n_heads m) (md_n_kv m) (md_head_dim m) (md_d_ff m) (md_vocab m) (md_ctx_max m)
       (buf_row env (g_dtype (md_embd m)) (md_d_model m)) (md_head_chunk m * buf_row env (g_dtype (md_lm_head m)) (md_d_model m))"
    and emb: "gguf_tensor_find g (ascii ''token_embd.weight'') = Some (md_embd m)"
    and lmh: "gguf_tensor_find g (ascii ''output.weight'') = Some (md_lm_head m)"
  have p: "0 < md_n_layers m" "0 < md_d_model m" "0 < md_n_heads m" "0 < md_n_kv m" "0 < md_head_dim m" "0 < md_d_ff m" "0 < md_vocab m"
    and mx: "is_matrix env (Some (md_embd m)) (dm m) (nat (md_vocab m))" "is_matrix env (Some (md_lm_head m)) (dm m) (nat (md_vocab m))"
    and lf: "L < nlay m \<Longrightarrow> layer_fits env g m L" and vn: "4 * int (dm m) \<le> g_nbytes onm" for L
    using sf L(1) by (auto simp: shapes_fit_def list_all_iff is_vector_def)
  note te = table_fits [OF mx(1) ti found_in_list [OF emb] p(2,7)] and tl = table_fits [OF mx(2) ti found_in_list [OF lmh] p(2,7)]
  note n = bind_layers_nth [OF L(3)]
  have lay: "layer_ok env m (nat (b_nbytes (map fst bs ! L))) (md_slot m ! L) \<and> 0 \<le> b_off (map fst bs ! L) \<and>
      0 < b_nbytes (map fst bs ! L) \<and> b_off (map fst bs ! L) + b_nbytes (map fst bs ! L) \<le> int (length img)" if "L < nlay m" for L
    using bind_layer_ok [OF _ ti lf [OF that] p(2), of "fst (bs ! L)" "snd (bs ! L)"] n that by (simp add: L(4))
  have len: "length (map fst bs) = nlay m" using n by simp
  have bo: "blocks_ok (map fst bs)" "blocks_within (map fst bs) img"
    using lay len by (auto simp: blocks_ok_def blocks_within_def list_all_length)
  have on: "md_out_norm m = slice (g_file_off onm) (g_nbytes onm) img" "length (md_out_norm m) = nat (g_nbytes onm)"
  proof -
    have "0 \<le> g_file_off onm" "g_file_off onm + g_nbytes onm \<le> int (length img)"
      using ti found_in_list [OF L(1)] by (auto simp: tensors_inside_def list_all_iff)
    with store_read_ok [OF fo, of "g_file_off onm" "g_nbytes onm"] length_slice [of "g_file_off onm" "g_nbytes onm" img] L(6,8)
    show "md_out_norm m = slice (g_file_off onm) (g_nbytes onm) img" "length (md_out_norm m) = nat (g_nbytes onm)" by simp_all
  qed
  have rs: "b = slice (g_file_off (md_lm_head m)) (md_vocab m * head_row env (g_dtype (md_lm_head m)) (md_d_model m)) img"
    if "md_lm_resident m = Some b" for b
  proof -
    have "0 \<le> md_vocab m * head_row env (g_dtype (md_lm_head m)) (md_d_model m)"
      using tl(1) p(2,7) usable_row [of env "g_dtype (md_lm_head m)" m] by (simp add: table_ok_def)
    then show ?thesis using res [OF that] tl store_read_ok [OF fo] by (simp add: table_ok_def)
  qed
  have mo: "model_ok env img (map fst bs) m"
    unfolding model_ok_def
  proof (intro conjI allI impI)
    show "nhd m mod nkv m = 0" by (rule c_mod_nat [OF p(3,4) L(2)])
    show "4 * dm m \<le> length (md_out_norm m)" using on(2) vn by linarith
    show "0 < md_head_chunk m" unfolding L(9) by (rule head_chunk_pos [OF p(7)])
    show "layer_ok env m (nat (b_nbytes (map fst bs ! L))) (md_slot m ! L)" if "L < nlay m" for L using lay [OF that] by blast
  qed (use p len bo te(1) tl(1) rs in auto)
  have sb: "s_blk st = map fst bs" "0 \<le> s_extra_bytes st"
    using L(5) by (rule create_fields, simp)+
  have "serves (stream_rd env) st"
    unfolding stream_rd_def by (rule file_serves [of img]) (use fo bo sb in \<open>auto simp: file_ok_def\<close>)
  from created_walking [OF L(5) bo(1) this] have wk: "walking img (stream_rd env) st 0" .
  have "work_ok m (md_work m)" using p unfolding w by (simp add: work_ok_def fresh_work_def nat_mult_distrib)
  moreover have "bufs_ok env m (md_work m)" unfolding w bufs_ok_def te(2) tl(2) by (simp add: fresh_work_def)
  ultimately show ?thesis using L(3) mo sb wk by (auto simp: ready_def w fresh_work_def)
qed

section \<open>The same weights under every memory configuration\<close>

lemma load_f32_same:
  assumes "same_cpu env env'"
  shows "load_f32 env' = load_f32 env"
proof -
  have e: "q_fp env' = q_fp env" "q_f64 env' = q_f64 env" using assms by (auto simp: same_cpu_def)
  then have "gguf_f32 env' = gguf_f32 env" by (intro ext) (simp only: gguf_f32_def)
  with e show ?thesis by (intro ext) (simp only: load_f32_def)
qed

lemma out_norm_read:
  assumes ld: "qwen3_load env g budget force sys = Ok m" and fo: "file_ok env img" and ti: "tensors_inside img g"
    and onm: "gguf_tensor_find g (ascii ''output_norm.weight'') = Some onm"
  shows "md_out_norm m = slice (g_file_off onm) (g_nbytes onm) img"
proof -
  have "0 \<le> g_file_off onm" "0 \<le> g_nbytes onm" "g_file_off onm + g_nbytes onm \<le> int (length img)"
    using ti found_in_list [OF onm] by (auto simp: tensors_inside_def list_all_iff)
  moreover have "md_out_norm m = rr_buf (store_read env (g_file_off onm) (g_nbytes onm))"
    using ld by (rule load_Ok) (simp add: onm)
  ultimately show ?thesis using store_read_ok [OF fo] by simp
qed

lemma loaded_same:
  assumes ld: "qwen3_load env g budget force sys = Ok m" "qwen3_load env' g budget' force' sys' = Ok m'"
    and fo: "file_ok env img" "file_ok env' img" and ti: "tensors_inside img g" and cpu: "same_cpu env env'"
  shows "same_weights m m'"
proof -
  obtain bs onm where l: "bind_layers g [0..<nlay m] = Some bs" "md_slot m = map snd bs"
      "gguf_tensor_find g (ascii ''output_norm.weight'') = Some onm"
      "load_dims g = (md_n_layers m, md_d_model m, md_n_heads m, md_n_kv m, md_head_dim m, md_d_ff m, md_ctx_max m)"
      "md_vocab m = i32 (shape_at (md_embd m) 1)" "gguf_tensor_find g (ascii ''token_embd.weight'') = Some (md_embd m)"
      "gguf_tensor_find g (ascii ''output.weight'') = Some (md_lm_head m)"
      "md_eps m = load_f32 env g ''attention.layer_norm_rms_epsilon''" "md_rope_theta m = load_f32 env g ''rope.freq_base''"
    using ld(1) by (rule load_Ok) (rule that)
  have l': "bind_layers g [0..<nlay m'] = Some bs' \<Longrightarrow> md_slot m' = map snd bs'"
      "load_dims g = (md_n_layers m', md_d_model m', md_n_heads m', md_n_kv m', md_head_dim m', md_d_ff m', md_ctx_max m')"
      "md_vocab m' = i32 (shape_at (md_embd m') 1)" "gguf_tensor_find g (ascii ''token_embd.weight'') = Some (md_embd m')"
      "gguf_tensor_find g (ascii ''output.weight'') = Some (md_lm_head m')"
      "md_eps m' = load_f32 env' g ''attention.layer_norm_rms_epsilon''" "md_rope_theta m' = load_f32 env' g ''rope.freq_base''" for bs'
    using ld(2) by (rule load_Ok, simp)+
  have d: "md_n_layers m' = md_n_layers m" "md_d_model m' = md_d_model m" "md_n_heads m' = md_n_heads m" "md_n_kv m' = md_n_kv m"
    "md_head_dim m' = md_head_dim m" "md_d_ff m' = md_d_ff m" "md_ctx_max m' = md_ctx_max m" using l(4) l'(2) by simp_all
  have t: "md_embd m' = md_embd m" "md_lm_head m' = md_lm_head m" using l l' by simp_all
  have "md_slot m' = md_slot m" using l'(1) [of bs] l d by simp
  moreover have "md_out_norm m' = md_out_norm m"
    using out_norm_read [OF ld(1) fo(1) ti l(3)] out_norm_read [OF ld(2) fo(2) ti l(3)] by simp
  moreover have "md_vocab m' = md_vocab m" "md_eps m' = md_eps m" "md_rope_theta m' = md_rope_theta m"
    using l l' t load_f32_same [OF cpu] by simp_all
  ultimately show ?thesis unfolding same_weights_def using d t
    by (intro exI [of _ "md_head_chunk m'"] exI [of _ "md_lm_resident m'"] exI [of _ "md_lm_bytes m'"] exI [of _ "md_work m'"]) simp
qed

end
