(* ===== verification/Qwen3_Props.thy ===== *)
theory Qwen3_Props
  imports Qwen3_Load
begin

text \<open>
  The properties of the Qwen3 backend and of the generation loop over it, with a one-layer container
  on which they are evaluated.
\<close>

section \<open>A small container\<close>

definition tiny_img :: "byte list" where
  "tiny_img = concat (map (\<lambda>v. [v, 0, 0, 0]) [1, 2, 1, 1, 1, 2, 1, 1, 1, 1, 1, 1, 1, 1, 3, 1])"

definition tiny_key :: "string \<Rightarrow> int \<Rightarrow> gguf_kv" where
  "tiny_key k v = \<lparr>k_key = ascii (''qwen3.'' @ k), k_type = GGUF_T_UINT32, k_i = v, k_f = FNone, k_str = None,
     k_arr_type = GGUF_T_UINT8, k_arr_len = 0, k_arr_data = []\<rparr>"

definition tiny_tensor :: "string \<times> int \<times> int list \<Rightarrow> gguf_tensor" where
  "tiny_tensor = (\<lambda>(nm, off, sh). \<lparr>g_name = ascii (nm @ ''.weight''), g_shape = sh, g_ggml_type = 0, g_dtype = 1,
     g_rel_off = off, g_file_off = off, g_nbytes = 4 * prod_list sh\<rparr>)"

definition tiny_gguf :: gguf where
  "tiny_gguf = \<lparr>gg_version = 3, gg_blob = [], gg_strcap = 0, gg_strused = 0,
     gg_kv = [tiny_key ''block_count'' 1, tiny_key ''embedding_length'' 1, tiny_key ''attention.head_count'' 1,
       tiny_key ''attention.head_count_kv'' 1, tiny_key ''attention.key_length'' 1, tiny_key ''feed_forward_length'' 1,
       tiny_key ''context_length'' 8],
     gg_t = map tiny_tensor [(''token_embd'', 0, [1, 2]), (''blk.0.attn_norm'', 8, [1]), (''blk.0.attn_q'', 12, [1, 1]),
       (''blk.0.attn_k'', 16, [1, 1]), (''blk.0.attn_v'', 20, [1, 1]), (''blk.0.attn_q_norm'', 24, [1]),
       (''blk.0.attn_k_norm'', 28, [1]), (''blk.0.attn_output'', 32, [1, 1]), (''blk.0.ffn_norm'', 36, [1]),
       (''blk.0.ffn_gate'', 40, [1, 1]), (''blk.0.ffn_up'', 44, [1, 1]), (''blk.0.ffn_down'', 48, [1, 1]),
       (''output_norm'', 52, [1]), (''output'', 56, [1, 2])],
     gg_alignment = 4, gg_data_start = 0, gg_data_bytes = 64, gg_file_size = 64\<rparr>"

definition tiny_env :: "bool \<Rightarrow> (int, int) qenv" where
  "tiny_env direct = \<lparr>q_fp = int_fpu, q_cpu = \<lparr>eng_avx2_compiled = False, eng_cpu_has_avx2 = False\<rparr>, q_scalar = True,
     q_impl = ENG_IMPL_REF, q_f64 = (\<lambda>_. 0), q_fd = short_pread tiny_img 5, q_dfd = short_pread tiny_img 7,
     q_st = \<lparr>fc_dfd = direct, fc_size = 64, st_reads = 0, st_bytes_read = 0, st_direct_reads = 0\<rparr>\<rparr>"

definition tiny_slot :: "int \<Rightarrow> slot" where
  "tiny_slot r = \<lparr>sl_rel = r, sl_nbytes = 4, sl_dtype = 1, sl_in = 1, sl_out = 1\<rparr>"

subsection \<open>Its evaluation\<close>

lemma ascii_inject: "ascii a = ascii b \<longleftrightarrow> a = b"
proof -
  have "inj (\<lambda>c. of_nat (of_char c) :: byte)"
  proof (rule injI)
    fix c d :: char assume "(of_nat (of_char c) :: byte) = of_nat (of_char d)"
    then have "of_char c mod (256 :: nat) = of_char d mod 256" by (simp flip: unat_of_nat [where 'a = 8, simplified])
    then show "c = d" by simp
  qed
  then show ?thesis by (auto simp: ascii_def inj_map_eq_map)
qed

lemma cstr_ascii: "CHR 0x00 \<notin> set s \<Longrightarrow> cstr (ascii s) = ascii s"
proof -
  assume "CHR 0x00 \<notin> set s"
  then have "\<forall>b \<in> set (ascii s). b \<noteq> 0"
    using ascii_inject [of "[_]" "[CHR 0x00]"] by (auto simp: ascii_def)
  then show ?thesis by (simp add: cstr_def)
qed

lemma cstr_ascii_eq: "CHR 0x00 \<notin> set a \<Longrightarrow> CHR 0x00 \<notin> set b \<Longrightarrow> cstr (ascii a) = cstr (ascii b) \<longleftrightarrow> a = b"
  by (simp add: cstr_ascii ascii_inject)

lemma prefix_ascii_eq: "CHR 0x00 \<notin> set a \<Longrightarrow> take (length (ascii p)) (cstr (ascii a)) = ascii p \<longleftrightarrow> take (length p) a = p"
  by (simp add: cstr_ascii) (simp add: ascii_def take_map ascii_inject [unfolded ascii_def])

lemma tiny_dims: "load_dims tiny_gguf = (1, 1, 1, 1, 1, 1, 8)"
  by (simp add: load_dims_def gguf_i64_def gguf_find_def kv_find_def tiny_gguf_def tiny_key_def cstr_ascii_eq kv_is_int_def Let_def i32_def)
lemma dec_nat_0: "dec_nat 0 = ''0''"
  by code_simp

lemmas tiny_names = cstr_ascii_eq prefix_ascii_eq dec_nat_0 gguf_tensor_find_def tiny_tensor_def tiny_gguf_def

lemma tiny_tables:
  "gguf_tensor_find tiny_gguf (ascii ''token_embd.weight'') = Some (tiny_tensor (''token_embd'', 0, [1, 2]))"
  "gguf_tensor_find tiny_gguf (ascii ''output.weight'') = Some (tiny_tensor (''output'', 56, [1, 2]))"
  "gguf_tensor_find tiny_gguf (ascii ''output_norm.weight'') = Some (tiny_tensor (''output_norm'', 52, [1]))"
  by (simp_all add: tiny_names)

lemma tiny_bind:
  "bind_layers tiny_gguf [0..<nat 1] = Some [(\<lparr>b_off = 8, b_nbytes = 44\<rparr>,
     \<lparr>ls_attn_norm = tiny_slot 0, ls_attn_q = tiny_slot 4, ls_attn_k = tiny_slot 8, ls_attn_v = tiny_slot 12,
      ls_attn_q_norm = tiny_slot 16, ls_attn_k_norm = tiny_slot 20, ls_attn_out = tiny_slot 24, ls_ffn_norm = tiny_slot 28,
      ls_ffn_gate = tiny_slot 32, ls_ffn_up = tiny_slot 36, ls_ffn_down = tiny_slot 40\<rparr>)]"
proof -
  have sp: "layer_span tiny_gguf 0 = Some (8, 44)"
    by (simp add: layer_span_def layer_prefix_def span_step_def tiny_names i64_def)
  show ?thesis by (simp add: bind_layer_def sp) (simp add: bind_slot_def tiny_names shape_at_def tiny_slot_def i64_def)
qed

lemma tiny_file: "file_ok (tiny_env d) tiny_img"
  by (simp add: file_ok_def tiny_env_def short_pread_sound short_pread_live)

lemma tiny_inside: "tensors_inside tiny_img tiny_gguf"
  by (simp add: tensors_inside_def tiny_img_def tiny_gguf_def tiny_tensor_def)

lemma tiny_reads:
  "rr_ret (store_read (tiny_env d) 52 4) = 4" "rr_buf (store_read (tiny_env d) 52 4) = slice 52 4 tiny_img"
  "rr_ret (store_read (tiny_env d) 56 8) = 8"
  using store_read_ok [OF tiny_file, of 52 4 d] store_read_ok [OF tiny_file, of 56 8 d] by (simp_all add: tiny_img_def)

lemma tiny_create: "\<exists>st. eng_streamer_create [\<lparr>b_off = 8, b_nbytes = 44\<rparr>] 99992 0 2 True (- 1) (good_env True) = Some st"
  "\<exists>st. eng_streamer_create [\<lparr>b_off = 8, b_nbytes = 44\<rparr>] 16384 0 2 True (- 1) (good_env False) = Some st"
proof -
  have "eng_streamer_create [\<lparr>b_off = 8, b_nbytes = 44\<rparr>] 99992 0 2 True (- 1) (good_env True) \<noteq> None" by code_simp
  then show "\<exists>st. eng_streamer_create [\<lparr>b_off = 8, b_nbytes = 44\<rparr>] 99992 0 2 True (- 1) (good_env True) = Some st" by blast
  have "eng_streamer_create [\<lparr>b_off = 8, b_nbytes = 44\<rparr>] 16384 0 2 True (- 1) (good_env False) \<noteq> None" by code_simp
  then show "\<exists>st. eng_streamer_create [\<lparr>b_off = 8, b_nbytes = 44\<rparr>] 16384 0 2 True (- 1) (good_env False) = Some st" by blast
qed

lemma tiny_quant: "quant_ops (tiny_env d) 1 = None"
  using F32_not_packed [of "tiny_env d"] by (simp add: ENG_DT_F32_def)

lemma tiny_rows: "eng_dtype_row_bytes 1 1 = 4" "head_chunk_of 4 2 = 2" "c_mod 1 1 = 0" "i32 1 = 1" "c_div 1 2 = 0" "i32 2 = 2"
    "i64 8 = 8" "i64 99992 = 99992" "i64 16384 = 16384" "i64 0 = 0"
  by code_simp+

lemma tiny_load:
  "\<exists>m. qwen3_load (tiny_env True) tiny_gguf (Some 100000) None (good_env True) = Ok m \<and> md_lm_resident m \<noteq> None"
  "\<exists>m. qwen3_load (tiny_env False) tiny_gguf (Some 16384) (Some ''0'') (good_env False) = Ok m \<and> md_lm_resident m = None"
  using tiny_create
  by (auto simp: qwen3_load_def tiny_dims tiny_tables tiny_bind [simplified] tiny_reads tiny_rows tiny_quant head_row_def buf_row_def
     tiny_tensor_def shape_at_def want_lm_def alloc_ok_def)

lemma tiny_shapes:
  assumes "qwen3_load (tiny_env d) tiny_gguf b f sys = Ok m"
  shows "shapes_fit (tiny_env d) tiny_gguf m \<and> md_vocab m = 2 \<and> md_ctx_max m = 8 \<and> md_n_layers m = 1 \<and> md_n_kv m = 1 \<and> md_head_dim m = 1"
  using assms
proof (rule load_Ok)
  assume "load_dims tiny_gguf = (md_n_layers m, md_d_model m, md_n_heads m, md_n_kv m, md_head_dim m, md_d_ff m, md_ctx_max m)"
    and v: "md_vocab m = i32 (shape_at (md_embd m) 1)" and t: "gguf_tensor_find tiny_gguf (ascii ''token_embd.weight'') = Some (md_embd m)"
    "gguf_tensor_find tiny_gguf (ascii ''output.weight'') = Some (md_lm_head m)"
  then have d: "md_n_layers m = 1" "md_d_model m = 1" "md_n_heads m = 1" "md_n_kv m = 1" "md_head_dim m = 1" "md_d_ff m = 1" "md_ctx_max m = 8"
    by (simp_all add: tiny_dims)
  have t: "md_embd m = tiny_tensor (''token_embd'', 0, [1, 2])" "md_lm_head m = tiny_tensor (''output'', 56, [1, 2])"
    using t by (simp_all add: tiny_tables)
  have vc: "md_vocab m = 2" by (simp add: v t tiny_tensor_def shape_at_def tiny_rows)
  have u: "usable (tiny_env d) 1 (Suc 0)" "head_row (tiny_env d) 1 1 = 4" by (simp_all add: usable_def ENG_DT_F32_def head_row_def tiny_quant)
  have "layer_fits (tiny_env d) tiny_gguf m 0"
    by (simp add: layer_fits_def is_vector_def is_matrix_def blk_tensor_def tiny_names d u shape_at_def)
  then show ?thesis using d vc by (simp add: shapes_fit_def tiny_tables is_vector_def is_matrix_def t tiny_tensor_def u shape_at_def)
qed

section \<open>A decode step computes the forward pass\<close>

text \<open>
  C1: on a model that is ready, for a token of the vocabulary and a position inside the sequence and
  the model's context, \<open>qwen3_decode\<close> returns 0 whatever the reader thread does: no array is overrun
  and no read fails.  It leaves the model ready for the next step, the caches extended by exactly the
  keys and values of this position in every layer, the count of positions seen, and, when they were
  asked for, the logits of the forward pass over the container's bytes.
\<close>

theorem qwen3_decode_refines_forward:
  assumes "file_ok env img" "ready env img bs m" "seq_ok m s"
    and "0 \<le> token" "token < md_vocab m" "0 \<le> pos" "pos < sq_context s" "pos \<le> md_ctx_max m"
    and "kv_agrees m s K V 0 (nat pos)"
    and "spec_step env m (block_bytes img bs) img (nat token) (nat pos) (K, V) = (x, K', V')"
  shows "\<exists>w s'. qwen3_decode env rdr m s token pos flags = Ok (m\<lparr>md_work := w\<rparr>, s') \<and>
    ready env img bs (m\<lparr>md_work := w\<rparr>) \<and> seq_ok m s' \<and> sq_context s' = sq_context s \<and>
    sq_n_seen s' = max (sq_n_seen s) (pos + 1) \<and> kv_agrees m s' K' V' 0 (Suc (nat pos)) \<and>
    w_logits w = (if flags AND ENG_DEC_LOGITS \<noteq> 0 then spec_logits env m img x else w_logits (md_work m))"
  by (rule decode_ok [OF assms])

theorem qwen3_decode_refines_forward_witness:
  "\<exists>m s w s'. qwen3_load (tiny_env True) tiny_gguf (Some 100000) None (good_env True) = Ok m \<and> qwen3_state_create (tiny_env True) m 5 = Some s \<and>
     qwen3_decode (tiny_env True) (\<lambda>_. True) m s 1 0 ENG_DEC_LOGITS = Ok (m\<lparr>md_work := w\<rparr>, s') \<and> sq_n_seen s' = 1"
proof -
  obtain m where m: "qwen3_load (tiny_env True) tiny_gguf (Some 100000) None (good_env True) = Ok m" using tiny_load(1) by blast
  note t = tiny_shapes [OF m]
  obtain bs :: "(eng_block \<times> layer_slots) list" where r: "ready (tiny_env True) tiny_img (map fst bs) m" using loaded_ready [OF m tiny_file tiny_inside conjunct1 [OF t]] by blast
  obtain s where s: "qwen3_state_create (tiny_env True) m 5 = Some s" "sq_context s = 5" "sq_n_seen s = 0" "seq_ok m s"
    using state_create_ok [of "tiny_env True" tiny_img "map fst bs" m 5] r t by (auto simp: ready_def)
  obtain x K V where sp: "spec_step (tiny_env True) m (block_bytes tiny_img (map fst bs)) tiny_img (nat 1) (nat 0) (\<lambda>_ _. [], \<lambda>_ _. []) = (x, K, V)"
    by (metis prod_cases3)
  have "kv_agrees m s (\<lambda>_ _. []) (\<lambda>_ _. []) 0 (nat 0)" by (simp add: kv_agrees_def)
  from qwen3_decode_refines_forward [OF tiny_file r s(4) _ _ _ _ _ this sp, of "\<lambda>_. True" ENG_DEC_LOGITS] t s m
  show ?thesis by auto
qed

section \<open>A loaded model is ready\<close>

text \<open>
  C3: when \<open>qwen3_load\<close> accepts a container whose tensors lie inside the file and have the shapes of
  the architecture, the model is ready under every budget, every setting of \<open>ENG_LM_RESIDENT\<close> and
  with or without a reader thread: each slot lies inside its layer's span, each span inside the file,
  the scratch arrays and read buffers have the lengths the decode step relies on, a resident LM head
  holds the bytes of the file, and the streamer stands before layer 0.
\<close>

theorem loaded_model_is_ready:
  assumes "qwen3_load env g budget force sys = Ok m" "file_ok env img" "tensors_inside img g" "shapes_fit env g m"
  shows "\<exists>bs. bind_layers g [0..<nat (md_n_layers m)] = Some bs \<and> ready env img (map fst bs) m"
  by (rule loaded_ready [OF assms])

theorem loaded_model_is_ready_witness:
  "\<exists>m bs. qwen3_load (tiny_env False) tiny_gguf (Some 16384) (Some ''0'') (good_env False) = Ok m \<and> ready (tiny_env False) tiny_img bs m"
proof -
  obtain m where m: "qwen3_load (tiny_env False) tiny_gguf (Some 16384) (Some ''0'') (good_env False) = Ok m" using tiny_load(2) by blast
  from loaded_model_is_ready [OF m tiny_file tiny_inside conjunct1 [OF tiny_shapes [OF m]]] m show ?thesis by blast
qed

section \<open>Positions past the model's context\<close>

lemma layer_compute_overrun:
  assumes l: "layer_ok env m (length base) (md_slot m ! L)" and w: "work_ok m w" and s: "seq_ok m s" and L: "L < nlay m"
    and pos: "pos < nat (sq_context s)" "length (w_scores w) \<le> pos" and h: "0 < nhd m"
  shows "layer_compute env m L pos base (w, s) = Fault"
proof -
  let ?sl = "md_slot m ! L"
  define xn where "xn = spec_xn env m base (ls_attn_norm ?sl) (w_x w)"
  define w1 where "w1 = w\<lparr>w_xn := xn, w_q := spec_q env m ?sl base pos xn, w_k := spec_k env m ?sl base pos xn,
    w_v := spec_proj env base (ls_attn_v ?sl) xn\<rparr>"
  have a: "attn_qkv env m ?sl base pos w = Ok w1" unfolding w1_def xn_def by (rule attn_qkv_ok [OF l w])
  have k: "length (w_k w1) = kvw m" "length (w_v w1) = kvw m" using qkv_lengths [OF l] by (simp_all add: w1_def)
  obtain s' where "kv_append m L pos w1 s = Some s'" by (rule kv_append_ok [OF s L pos(1) k])
  moreover have "attend env m s' L pos w1 = None" for s' using h pos(2) by (simp add: attend_def w1_def)
  ultimately show ?thesis by (simp add: layer_compute_def a)
qed

text \<open>
  C36: a position past the model's context overruns the score buffer.  \<open>qwen3_state_create\<close> accepts
  any positive context and \<open>qwen3_decode\<close> checks the position against that context only, while the
  scores were allocated for \<open>ctx_max + 1\<close> positions at load: at a position above \<open>ctx_max\<close> the first
  layer writes outside them.
\<close>

theorem position_past_context_overruns_scores:
  assumes "file_ok env img" "ready env img bs m" "seq_ok m s" "0 < md_n_heads m"
    and "0 \<le> token" "token < md_vocab m" "0 \<le> pos" "pos < sq_context s" "md_ctx_max m < pos"
  shows "qwen3_decode env rdr m s token pos flags = Fault"
proof -
  let ?w = "md_work m"
  have mo: "model_ok env img bs m" and w: "work_ok m ?w" and b: "bufs_ok env m ?w" and blk: "s_blk (w_stream ?w) = bs"
    and wk: "walking img (stream_rd env) (w_stream ?w) 0" using assms(2) by (auto simp: ready_def)
  have m: "0 < md_d_model m" "table_ok env img m (md_embd m)" "0 < nlay m" "blocks_ok bs" "blocks_within bs img" "length bs = nlay m"
    "layer_ok env m (nat (b_nbytes (bs ! 0))) (md_slot m ! 0)" using mo by (auto simp: model_ok_def)
  have "int (nat token) < md_vocab m" using assms(5,6) by simp
  from embed_ok [OF assms(1) m(1,2) this w b] obtain rb where e: "embed_token env m (nat token) ?w =
      Ok (?w\<lparr>w_rowbuf := rb, w_x := spec_embed env m img (nat token)\<rparr>)" "length (spec_embed env m img (nat token)) = dm m" by blast
  define w0 where "w0 = ?w\<lparr>w_rowbuf := rb, w_x := spec_embed env m img (nat token)\<rparr>"
  have w0: "s_blk (w_stream w0) = bs" "walking img (stream_rd env) (w_stream w0) 0" using blk wk by (simp_all add: w0_def)
  from layer_step_block [OF assms(1) mo m(3) w0, of "nat pos" rdr s]
  obtain st where st: "layer_step env m (nat pos) rdr (w0, s) 0 = layer_compute env m 0 (nat pos) (block_bytes img bs 0) (w0\<lparr>w_stream := st\<rparr>, s)" by blast
  have "layer_compute env m 0 (nat pos) (block_bytes img bs 0) (w0\<lparr>w_stream := st\<rparr>, s) = Fault"
  proof (rule layer_compute_overrun)
    show "layer_ok env m (length (block_bytes img bs 0)) (md_slot m ! 0)" using m by (simp add: length_block_bytes)
  qed (use assms(3,4,7-9) m(3) w b e(2) in \<open>auto simp: w0_def work_ok_def bufs_ok_def\<close>)
  moreover have "[0..<nlay m] = 0 # [1..<nlay m]" using m(3) by (simp add: upt_conv_Cons)
  ultimately have "run_layers env m (nat pos) rdr [0..<nlay m] (w0, s) = Fault" using st by simp
  then show ?thesis using assms(5-8) by (simp add: qwen3_decode_def e(1) w0_def [symmetric])
qed

theorem position_past_context_overruns_scores_witness:
  "\<exists>m s. qwen3_load (tiny_env True) tiny_gguf (Some 100000) None (good_env True) = Ok m \<and> md_ctx_max m = 8 \<and>
     qwen3_state_create (tiny_env True) m 20 = Some s \<and> qwen3_decode (tiny_env True) (\<lambda>_. True) m s 0 9 0 = Fault"
proof -
  obtain m where m: "qwen3_load (tiny_env True) tiny_gguf (Some 100000) None (good_env True) = Ok m" using tiny_load(1) by blast
  note t = tiny_shapes [OF m]
  obtain bs :: "(eng_block \<times> layer_slots) list" where r: "ready (tiny_env True) tiny_img (map fst bs) m"
    using loaded_ready [OF m tiny_file tiny_inside conjunct1 [OF t]] by blast
  obtain s where s: "qwen3_state_create (tiny_env True) m 20 = Some s" "sq_context s = 20" "seq_ok m s"
    using state_create_ok [of "tiny_env True" tiny_img "map fst bs" m 20] r t by (auto simp: ready_def)
  have "0 < md_n_heads m" using t by (simp add: shapes_fit_def)
  from position_past_context_overruns_scores [OF tiny_file r s(3) this, of 0 9 "\<lambda>_. True" 0] t s m show ?thesis by auto
qed

section \<open>An LM head without a packed kernel\<close>

text \<open>
  C37: a streamed LM head of a type with no packed kernel and fewer than four bytes per element, F16
  or BF16 for example, overruns its read buffer.  The buffer is sized with the type's row length at
  load; the decode step takes every such head for single floats and reads four bytes per element.
\<close>

theorem half_precision_head_overruns_buffer:
  assumes "file_ok env img" "quant_ops env (g_dtype (md_lm_head m)) = None" "md_lm_resident m = None" "0 < md_d_model m"
    and "int (length (w_headbuf w)) = md_head_chunk m * buf_row env (g_dtype (md_lm_head m)) (md_d_model m)"
    and "buf_row env (g_dtype (md_lm_head m)) (md_d_model m) < 4 * md_d_model m" "0 < md_head_chunk m" "md_head_chunk m \<le> md_vocab m"
    and "0 \<le> g_file_off (md_lm_head m)" "g_file_off (md_lm_head m) + md_head_chunk m * (md_d_model m * 4) \<le> int (length img)"
  shows "lm_head env m w = Fault"
proof -
  let ?c = "md_head_chunk m" and ?d = "md_d_model m * 4" and ?off = "g_file_off (md_lm_head m)"
  have hr: "head_row env (g_dtype (md_lm_head m)) (md_d_model m) = ?d" by (simp add: head_row_def assms(2))
  have p: "0 \<le> ?c * ?d" using assms(4,7) by simp
  have "rr_buf (store_read env ?off (?c * ?d)) = slice ?off (?c * ?d) img" using store_read_ok [OF assms(1,9) p assms(10)] by simp
  then have "int (length (rr_buf (store_read env ?off (?c * ?d)))) = ?c * ?d" using length_slice [OF assms(9) p assms(10)] p by simp
  moreover have "int (length (w_headbuf w)) < ?c * ?d" using assms(5-7) mult_strict_left_mono [OF assms(6,7)] by simp
  ultimately have "length (w_headbuf w) < length (rr_buf (store_read env ?off (?c * ?d)))" by linarith
  moreover have "0 < nat ?c" "0 < nat (md_vocab m)" "int (nat ?c) = ?c" using assms(7,8) by simp_all
  ultimately have "lm_chunks env m (nat ?c) (nat (md_vocab m)) 0 (w\<lparr>w_xn := xn\<rparr>) = Fault" for xn
    by (subst lm_chunks.simps) (use assms(8) in \<open>simp add: hr Let_def\<close>)
  then show ?thesis by (simp add: lm_head_def assms(3) split: option.splits)
qed

theorem half_precision_head_overruns_buffer_witness:
  "\<exists>m. lm_head (tiny_env True) (m\<lparr>md_lm_head := (tiny_tensor (''output'', 56, [1, 2]))\<lparr>g_dtype := 2\<rparr>, md_lm_resident := None, md_head_chunk := 2\<rparr>)
     (md_work m\<lparr>w_headbuf := [0, 0, 0, 0]\<rparr>) = Fault"
proof -
  obtain m where m: "qwen3_load (tiny_env True) tiny_gguf (Some 100000) None (good_env True) = Ok m" using tiny_load(1) by blast
  note t = tiny_shapes [OF m]
  have q: "quant_ops (tiny_env True) 2 = None" "eng_dtype_row_bytes 2 1 = 2" by code_simp+
  have d: "md_d_model m = 1" using m by (rule load_Ok) (simp add: tiny_dims)
  have "lm_head (tiny_env True) (m\<lparr>md_lm_head := (tiny_tensor (''output'', 56, [1, 2]))\<lparr>g_dtype := 2\<rparr>, md_lm_resident := None, md_head_chunk := 2\<rparr>)
     (md_work m\<lparr>w_headbuf := [0, 0, 0, 0]\<rparr>) = Fault"
    by (rule half_precision_head_overruns_buffer [OF tiny_file]) (use t d q in \<open>simp_all add: buf_row_def tiny_tensor_def tiny_img_def\<close>)
  then show ?thesis by blast
qed

section \<open>Generation\<close>

lemma shapes_fit_same:
  assumes "same_weights m m'" "same_cpu env env'" "shapes_fit env g m"
  shows "shapes_fit env' g m'"
proof -
  obtain c r lb w where m': "m' = m\<lparr>md_head_chunk := c, md_lm_resident := r, md_lm_bytes := lb, md_work := w\<rparr>"
    using assms(1) by (auto simp: same_weights_def)
  have q: "quant_ops env' = quant_ops env"
  proof -
    obtain fd dfd st where e': "env' = env\<lparr>q_fd := fd, q_dfd := dfd, q_st := st\<rparr>" using assms(2) by (auto simp: same_cpu_def)
    show ?thesis by (simp add: fun_eq_iff e' quant_ops_same)
  qed
  have "usable env' = usable env" "head_row env' = head_row env" by (simp_all add: fun_eq_iff usable_def head_row_def q)
  then have x: "is_matrix env' = is_matrix env" by (intro ext) (simp only: is_matrix_def)
  then have "layer_fits env' g m' = layer_fits env g m" by (simp add: fun_eq_iff layer_fits_def m')
  then show ?thesis using assms(3) by (simp add: shapes_fit_def x) (simp add: m')
qed

text \<open>
  C2: what is generated does not depend on how memory is spent.  Two loads of one container, under
  any two budgets, any two settings of \<open>ENG_LM_RESIDENT\<close>, with or without a reader thread and
  whatever its timing, over any two sound descriptors, both run to the end and produce the same
  tokens, those of the loop over the forward pass, whenever the planned contexts hold the prompt and
  the requested tokens and the model's context does too.
\<close>

theorem generation_ignores_memory_configuration:
  assumes "qwen3_load env g budget force sys = Ok m" "qwen3_load env' g budget' force' sys' = Ok m'"
    and "same_cpu env env'" "file_ok env img" "file_ok env' img" "tensors_inside img g" "shapes_fit env g m"
    and "ids \<noteq> []" "\<forall>i \<in> set ids. 0 \<le> i \<and> i < md_vocab m" "1 \<le> ntok"
    and "int (length ids) + ntok \<le> c" "int (length ids) + ntok \<le> c'" "int (length ids) + ntok \<le> md_ctx_max m + 2"
    and "md_n_layers m * (int (length ids) + ntok) * (md_n_kv m * md_head_dim m) < 2 ^ 61"
  shows "\<exists>bs out. bind_layers g [0..<nat (md_n_layers m)] = Some bs \<and>
    out = spec_gen env m (block_bytes img (map fst bs)) img ids eos ntok (nat (int (length ids) + ntok - 1)) 0 0 (ids ! 0) (\<lambda>_ _. [], \<lambda>_ _. []) \<and>
    cmd_run_gen env rdr ids eos ntok c m = Ok out \<and> cmd_run_gen env' rdr' ids eos ntok c' m' = Ok out"
proof -
  have sw: "same_weights m m'" by (rule loaded_same [OF assms(1,2,4,5,6,3)])
  have e: "md_vocab m' = md_vocab m" "md_n_layers m' = md_n_layers m" "md_n_kv m' = md_n_kv m" "md_head_dim m' = md_head_dim m"
    "md_ctx_max m' = md_ctx_max m" using sw by (auto simp: same_weights_def)
  obtain bs where bs: "bind_layers g [0..<nlay m] = Some bs" and r: "ready env img (map fst bs) m"
    using loaded_ready [OF assms(1,4,6,7)] by blast
  have r': "ready env' img (map fst bs) m'"
    using loaded_ready [OF assms(2,5,6) shapes_fit_same [OF sw assms(3,7)]] bs by (simp add: e)
  have n: "int (length ids) + ntok = min c (int (length ids) + ntok)" "int (length ids) + ntok = min c' (int (length ids) + ntok)"
    "int (length ids) < int (length ids) + ntok" using assms(10-12) by auto
  note a = cmd_run_ok [OF assms(4) r assms(8,9) n(1,3) assms(13,14), of rdr eos]
  have b: "cmd_run_gen env' rdr' ids eos ntok c' m' = Ok (spec_gen env' m' (block_bytes img (map fst bs)) img ids eos ntok
      (nat (int (length ids) + ntok - 1)) 0 0 (ids ! 0) (\<lambda>_ _. [], \<lambda>_ _. []))"
    by (rule cmd_run_ok [OF assms(5) r' assms(8) _ n(2,3)]) (use assms(9,13,14) e in simp_all)
  show ?thesis using bs a b by (simp add: spec_gen_same [OF sw assms(3)])
qed

theorem generation_ignores_memory_configuration_witness:
  "\<exists>m m' out. qwen3_load (tiny_env True) tiny_gguf (Some 100000) None (good_env True) = Ok m \<and> md_lm_resident m \<noteq> None \<and>
     qwen3_load (tiny_env False) tiny_gguf (Some 16384) (Some ''0'') (good_env False) = Ok m' \<and> md_lm_resident m' = None \<and>
     cmd_run_gen (tiny_env True) (\<lambda>_ _. True) [0, 1] 7 3 5 m = Ok out \<and> cmd_run_gen (tiny_env False) (\<lambda>_ _. False) [0, 1] 7 3 8 m' = Ok out"
proof -
  obtain m m' where m: "qwen3_load (tiny_env True) tiny_gguf (Some 100000) None (good_env True) = Ok m" "md_lm_resident m \<noteq> None"
    and m': "qwen3_load (tiny_env False) tiny_gguf (Some 16384) (Some ''0'') (good_env False) = Ok m'" "md_lm_resident m' = None"
    using tiny_load by blast
  have c: "same_cpu (tiny_env True) (tiny_env False)"
    unfolding same_cpu_def
    by (rule exI [of _ "q_fd (tiny_env False)"], rule exI [of _ "q_dfd (tiny_env False)"], rule exI [of _ "q_st (tiny_env False)"])
      (simp add: tiny_env_def)
  note t = tiny_shapes [OF m(1)]
  have "\<exists>bs out. bind_layers tiny_gguf [0..<nat (md_n_layers m)] = Some bs \<and>
      out = spec_gen (tiny_env True) m (block_bytes tiny_img (map fst bs)) tiny_img [0, 1] 7 3 (nat (int (length [0 :: int, 1]) + 3 - 1)) 0 0 ([0, 1] ! 0)
        (\<lambda>_ _. [], \<lambda>_ _. []) \<and>
      cmd_run_gen (tiny_env True) (\<lambda>_ _. True) [0, 1] 7 3 5 m = Ok out \<and> cmd_run_gen (tiny_env False) (\<lambda>_ _. False) [0, 1] 7 3 8 m' = Ok out"
    by (rule generation_ignores_memory_configuration [OF m(1) m'(1) c tiny_file tiny_file tiny_inside conjunct1 [OF t]]) (use t in auto)
  with m m' show ?thesis by blast
qed

lemma store_work_Ok: "store_work m r = Ok (m', s') \<Longrightarrow> \<exists>w. m' = m\<lparr>md_work := w\<rparr>"
  by (cases r) auto

lemma decode_vocab:
  assumes "qwen3_decode env rdr m s token pos flags = Ok (m', s')"
  shows "md_vocab m' = md_vocab m"
proof -
  have "\<exists>w. m' = m\<lparr>md_work := w\<rparr>"
    using assms unfolding qwen3_decode_def by (auto split: if_splits dest: store_work_Ok)
  then show ?thesis by auto
qed

definition valid_out :: "int \<Rightarrow> int \<Rightarrow> nat \<Rightarrow> (int list, int list) outcome \<Rightarrow> bool" where
  "valid_out eos nv k r \<longleftrightarrow> (\<forall>out. r = Ok out \<or> r = Err out \<longrightarrow> length out \<le> k \<and> (\<forall>t \<in> set out. 0 \<le> t \<and> t < nv \<and> t \<noteq> eos))"

lemma valid_emit: "valid_out eos nv k r \<Longrightarrow> 0 \<le> t \<Longrightarrow> t < nv \<Longrightarrow> t \<noteq> eos \<Longrightarrow> valid_out eos nv (Suc k) (emit_tok t r)"
  by (cases r) (auto simp: valid_out_def)

lemma valid_mono: "valid_out eos nv k r \<Longrightarrow> k \<le> k' \<Longrightarrow> valid_out eos nv k' r"
  by (fastforce simp: valid_out_def)

lemma gen_loop_valid:
  assumes "0 < md_vocab m"
  shows "valid_out eos (md_vocab m) (lmt - max pos (length ids - 1)) (gen_loop env rdr ids eos ntok lmt pos produced tok_id m s)"
  using assms
proof (induction "lmt - pos" arbitrary: pos produced tok_id m s rule: less_induct)
  case less
  have nil: "valid_out eos (md_vocab m) k (Ok [])" "valid_out eos (md_vocab m) k (Err [])" "valid_out eos (md_vocab m) k Fault" for k
    by (auto simp: valid_out_def)
  let ?r = "qwen3_decode env (rdr pos) m s tok_id (int pos) (if length ids \<le> pos + 1 then ENG_DEC_LOGITS else 0)"
  show ?case
  proof (cases "pos < lmt")
    case False
    then show ?thesis by (subst gen_loop.simps) (simp add: nil)
  next
    case True
    show ?thesis
    proof (cases ?r)
      case (Ok ms)
      obtain m' s' where ms: "ms = (m', s')" by fastforce
      have v: "md_vocab m' = md_vocab m" using Ok ms decode_vocab by blast
      have IH: "valid_out eos (md_vocab m) (lmt - max (pos + 1) (length ids - 1)) (gen_loop env rdr ids eos ntok lmt (pos + 1) pr t m' s')" for pr t
        using less.hyps [of "pos + 1" m' pr t s'] True less.prems v by simp
      show ?thesis
      proof (cases "length ids \<le> pos + 1")
        case False
        have "lmt - max (pos + 1) (length ids - 1) = lmt - max pos (length ids - 1)" using False by simp
        with IH False True Ok ms show ?thesis by (subst gen_loop.simps) simp
      next
        case lp: True
        define best where "best = int (argmax (q_fp env) (w_logits (md_work m')) (nat (md_vocab m)))"
        have b: "0 \<le> best" "best < md_vocab m"
          using argmax_less [of "nat (md_vocab m)" "q_fp env" "w_logits (md_work m')"] less.prems by (simp_all add: best_def)
        have k: "lmt - max pos (length ids - 1) = Suc (lmt - max (pos + 1) (length ids - 1))" using lp True by simp
        let ?rest = "if produced + 1 \<ge> ntok then Ok [] else gen_loop env rdr ids eos ntok lmt (pos + 1) (produced + 1) best m' s'"
        have "valid_out eos (md_vocab m) (lmt - max (pos + 1) (length ids - 1)) ?rest" using IH nil by simp
        from valid_emit [OF this b] nil
        have "valid_out eos (md_vocab m) (lmt - max pos (length ids - 1)) (if best = eos then Ok [] else emit_tok best ?rest)"
          unfolding k by simp
        moreover have "gen_loop env rdr ids eos ntok lmt pos produced tok_id m s = (if best = eos then Ok [] else emit_tok best ?rest)"
          using True lp Ok ms by (subst gen_loop.simps) (simp add: qwen3_logits_def v best_def Let_def)
        ultimately show ?thesis by simp
      qed
    next
      case (Err e)
      with True show ?thesis by (subst gen_loop.simps) (simp add: nil)
    next
      case Fault
      with True show ?thesis by (subst gen_loop.simps) (simp add: nil)
    qed
  qed
qed

text \<open>
  C35: what a run may produce, on every model and under every outcome of its decode steps.  The
  output, complete or cut short by a failed step, holds only ids of the vocabulary, never the end of
  sequence, at most as many as were asked for, and the prompt and the output together fit the
  planned context.
\<close>

theorem generated_tokens_bounded:
  assumes "cmd_run_gen env rdr ids eos ntok c m \<in> {Ok out, Err out}" "0 < md_vocab m" "ids \<noteq> []" "1 \<le> ntok"
  shows "(\<forall>t \<in> set out. 0 \<le> t \<and> t < md_vocab m \<and> t \<noteq> eos) \<and> int (length out) \<le> ntok \<and>
    (out \<noteq> [] \<longrightarrow> int (length ids) + int (length out) \<le> c)"
proof -
  define ctx where "ctx = (if c > int (length ids) + ntok then int (length ids) + ntok else c)"
  have run: "cmd_run_gen env rdr ids eos ntok c m = (if ctx < int (length ids) + 1 then Err []
      else case qwen3_state_create env m ctx of None \<Rightarrow> Err []
        | Some st \<Rightarrow> gen_loop env rdr ids eos ntok (nat (ctx - 1)) 0 0 (ids ! 0) m st)"
    by (simp only: cmd_run_gen_def ctx_def Let_def)
  consider "out = []" | s where "int (length ids) < ctx" "gen_loop env rdr ids eos ntok (nat (ctx - 1)) 0 0 (ids ! 0) m s \<in> {Ok out, Err out}"
  proof (cases "ctx < int (length ids) + 1 \<or> qwen3_state_create env m ctx = None")
    case True
    then show ?thesis using assms(1) that(1) unfolding run by (auto split: if_splits)
  next
    case False
    then obtain st where st: "qwen3_state_create env m ctx = Some st" "int (length ids) < ctx" by auto
    then show ?thesis using assms(1) by (intro that(2) [of st]) (simp_all add: run)
  qed
  then show ?thesis
  proof cases
    case 2
    have "length out \<le> nat (ctx - 1) - (length ids - 1) \<and> (\<forall>t \<in> set out. 0 \<le> t \<and> t < md_vocab m \<and> t \<noteq> eos)"
      using gen_loop_valid [OF assms(2), of eos "nat (ctx - 1)" 0 ids env rdr ntok 0 "ids ! 0" s] 2(2) by (auto simp: valid_out_def)
    moreover have "0 < length ids" using assms(3) by simp
    moreover have "ctx \<le> int (length ids) + ntok" "ctx \<le> c" by (auto simp: ctx_def)
    ultimately show ?thesis using 2(1) by auto
  qed (use assms(4) in simp)
qed

theorem generated_tokens_bounded_witness:
  "\<exists>m out. qwen3_load (tiny_env True) tiny_gguf (Some 100000) None (good_env True) = Ok m \<and>
     cmd_run_gen (tiny_env True) (\<lambda>_ _. True) [0, 1] 7 3 5 m = Ok out \<and> length out \<le> 3"
proof -
  obtain m where m: "qwen3_load (tiny_env True) tiny_gguf (Some 100000) None (good_env True) = Ok m" using tiny_load(1) by blast
  note t = tiny_shapes [OF m]
  obtain bs :: "(eng_block \<times> layer_slots) list" where r: "ready (tiny_env True) tiny_img (map fst bs) m"
    using loaded_ready [OF m tiny_file tiny_inside conjunct1 [OF t]] by blast
  obtain out where o: "cmd_run_gen (tiny_env True) (\<lambda>_ _. True) [0, 1] 7 3 5 m = Ok out"
    using cmd_run_ok [OF tiny_file r, of "[0, 1]" 5 5 3 "\<lambda>_ _. True" 7] t by auto
  from generated_tokens_bounded [of "tiny_env True" "\<lambda>_ _. True" "[0, 1]" 7 3 5 m out] o t m show ?thesis by auto
qed

section \<open>The memory of the caches\<close>

lemma inspect_dims:
  assumes "qwen3_inspect g = Some f" "load_dims g = (nl, d, nh, nk, hw, ff, cl)"
  shows "mf_kv_bytes_per_pos f = i64 (i64 (i64 (i64 (2 * nl) * nk) * hw) * 4) \<and> mf_n_layers f = nl \<and> mf_context_max f = cl"
proof -
  let ?k = "\<lambda>k. gguf_i64 g (ascii (''qwen3.'' @ k))"
  obtain a1 a2 a3 a4 a5 a6 a7 where k: "?k ''block_count'' = Some a1" "?k ''embedding_length'' = Some a2"
    "?k ''attention.head_count'' = Some a3" "?k ''attention.head_count_kv'' = Some a4" "?k ''attention.key_length'' = Some a5"
    "?k ''feed_forward_length'' = Some a6" "?k ''context_length'' = Some a7"
    using assms(1) unfolding qwen3_inspect_def Let_def by (auto split: option.splits)
  then have d: "nl = i32 a1" "nk = i32 a4" "hw = i32 a5" "cl = i32 a7" using assms(2) by (auto simp: load_dims_def Let_def)
  note k' = k [unfolded append.simps]
  show ?thesis using assms(1) d by (auto simp: qwen3_inspect_def k' Let_def split: option.splits prod.splits)
qed

lemma le_times: "0 < x \<Longrightarrow> 0 < y \<Longrightarrow> x \<le> x * (y :: int)"
  using mult_left_mono [of 1 y x] by simp

lemma i64_prod:
  assumes "0 < a" "0 < b" "0 < d" "8 * (a * b * d) < 2 ^ 63"
  shows "i64 (i64 (i64 (i64 (2 * a) * b) * d) * 4) = 8 * (a * b * d)"
proof -
  have p: "0 < a * b" "0 < a * b * d" using assms(1-3) by simp_all
  have l: "a \<le> a * b" "a * b \<le> a * b * d" using le_times assms(1-3) p by blast+
  have "2 * a < 2 ^ 63" "2 * (a * b) < 2 ^ 63" "2 * (a * b * d) < 2 ^ 63" using assms(1,4) l p by linarith+
  then have u: "in_i64 (2 * a)" "in_i64 (2 * (a * b))" "in_i64 (2 * (a * b * d))" "in_i64 (8 * (a * b * d))"
    using assms(1,4) p by (auto intro!: in_i64_nonneg)
  have "i64 (2 * a) * b = 2 * (a * b)" using i64_id [OF u(1)] by simp
  moreover have "i64 (2 * (a * b)) * d = 2 * (a * b * d)" using i64_id [OF u(2)] by simp
  moreover have "i64 (2 * (a * b * d)) * 4 = 8 * (a * b * d)" using i64_id [OF u(3)] by simp
  moreover note i64_id [OF u(4)]
  ultimately show ?thesis by (simp only:)
qed

text \<open>
  C4: the planner's figure for the sequence state is exact.  What \<open>qwen3_inspect\<close> reports per
  position, times the context, is what \<open>qwen3_state_bytes\<close> answers, and is the size of the two
  arrays \<open>qwen3_state_create\<close> allocates; both read the layer count and the context limit alike.
\<close>

theorem kv_estimate_is_exact:
  assumes "qwen3_inspect g = Some f" "qwen3_load env g budget force sys = Ok m" "qwen3_state_create env m c = Some s"
    and "0 < md_n_layers m" "0 < md_n_kv m" "0 < md_head_dim m" "md_n_kv m * md_head_dim m < 2 ^ 31"
    and "8 * (md_n_layers m * (md_n_kv m * md_head_dim m) * c) < 2 ^ 63"
  shows "qwen3_state_bytes m c = 4 * int (length (sq_kc s) + length (sq_vc s)) \<and> qwen3_state_bytes m c = c * mf_kv_bytes_per_pos f \<and>
    mf_n_layers f = md_n_layers m \<and> mf_context_max f = md_ctx_max m"
proof -
  let ?nl = "md_n_layers m" and ?nk = "md_n_kv m" and ?hw = "md_head_dim m"
  have c: "0 < c" using assms(3) by (auto simp: qwen3_state_create_def split: if_splits)
  have t: "8 * (?nl * ?nk * ?hw * c) < 2 ^ 63" "8 * (?nl * c * ?nk * ?hw) < 2 ^ 63" using assms(8) by (simp_all add: algebra_simps)
  have p: "0 < ?nl * c" "0 < ?nl * ?nk * ?hw" using assms(4-6) c by simp_all
  have "8 * (?nl * ?nk * ?hw) < 2 ^ 63" using t(1) le_times [OF p(2) c] by linarith
  then have kv: "i64 (i64 (i64 (i64 (2 * ?nl) * ?nk) * ?hw) * 4) = 8 * (?nl * ?nk * ?hw)" by (rule i64_prod [OF assms(4-6)])
  have "2 * ?nl * c < 2 ^ 63" "2 * ?nl < 2 ^ 63"
    using t(2) le_times [OF assms(4) c] le_times [OF p(1) assms(5)] le_times [OF mult_pos_pos [OF p(1) assms(5)] assms(6)] assms(4) p by linarith+
  then have "in_i64 (2 * ?nl)" "in_i64 (2 * (?nl * c))" using assms(4) p(1) by (auto intro!: in_i64_nonneg simp: mult.assoc)
  then have e: "i64 (2 * ?nl) * c = 2 * (?nl * c)" "i64 (2 * (?nl * c)) = 2 * (?nl * c)" by simp_all
  have sb: "qwen3_state_bytes m c = 8 * (?nl * c * ?nk * ?hw)"
    using i64_prod [OF p(1) assms(5,6) t(2)] unfolding qwen3_state_bytes_def e .
  have i: "i32 (?nk * ?hw) = ?nk * ?hw" using mult_pos_pos [OF assms(5,6)] assms(7) by (intro i32_id) (simp add: in_i32_def)
  have nn: "0 \<le> ?nl * c * (?nk * ?hw)" using p(1) assms(5,6) by simp
  then have "(?nl * c * (?nk * ?hw)) mod 2 ^ 64 = ?nl * c * (?nk * ?hw)"
    using t(2) by (intro mod_pos_pos_trivial) (simp_all add: algebra_simps)
  then have "length (sq_kc s) = nat (?nl * c * (?nk * ?hw))" "length (sq_vc s) = nat (?nl * c * (?nk * ?hw))"
    using assms(3) i by (auto simp: qwen3_state_create_def Let_def split: if_splits)
  then have ln: "4 * int (length (sq_kc s) + length (sq_vc s)) = 8 * (?nl * c * ?nk * ?hw)" using nn by (simp add: algebra_simps)
  have "load_dims g = (md_n_layers m, md_d_model m, md_n_heads m, md_n_kv m, md_head_dim m, md_d_ff m, md_ctx_max m)"
    using assms(2) by (rule load_Ok)
  from inspect_dims [OF assms(1) this] kv sb ln show ?thesis by (simp add: algebra_simps)
qed

lemma tiny_keys:
  "gguf_i64 tiny_gguf (ascii (''qwen3.'' @ ''block_count'')) = Some 1"
  "gguf_i64 tiny_gguf (ascii (''qwen3.'' @ ''embedding_length'')) = Some 1"
  "gguf_i64 tiny_gguf (ascii (''qwen3.'' @ ''attention.head_count'')) = Some 1"
  "gguf_i64 tiny_gguf (ascii (''qwen3.'' @ ''attention.head_count_kv'')) = Some 1"
  "gguf_i64 tiny_gguf (ascii (''qwen3.'' @ ''attention.key_length'')) = Some 1"
  "gguf_i64 tiny_gguf (ascii (''qwen3.'' @ ''feed_forward_length'')) = Some 1"
  "gguf_i64 tiny_gguf (ascii (''qwen3.'' @ ''context_length'')) = Some 8"
  by (simp_all add: gguf_i64_def gguf_find_def kv_find_def tiny_gguf_def tiny_key_def cstr_ascii_eq kv_is_int_def)

lemma tiny_inspect: "\<exists>f. qwen3_inspect tiny_gguf = Some f"
  unfolding qwen3_inspect_def Let_def tiny_keys tiny_tables by (simp split: prod.splits)

theorem kv_estimate_is_exact_witness:
  "\<exists>f m s. qwen3_inspect tiny_gguf = Some f \<and> qwen3_load (tiny_env True) tiny_gguf (Some 100000) None (good_env True) = Ok m \<and>
     qwen3_state_create (tiny_env True) m 5 = Some s \<and> qwen3_state_bytes m 5 = 5 * mf_kv_bytes_per_pos f"
proof -
  obtain m where m: "qwen3_load (tiny_env True) tiny_gguf (Some 100000) None (good_env True) = Ok m" using tiny_load(1) by blast
  obtain f where f: "qwen3_inspect tiny_gguf = Some f" using tiny_inspect by blast
  note t = tiny_shapes [OF m]
  have "i32 1 = 1" by (simp add: i32_def)
  then obtain s where s: "qwen3_state_create (tiny_env True) m 5 = Some s" using t by (auto simp: qwen3_state_create_def alloc_ok_def Let_def)
  from kv_estimate_is_exact [OF f m s] t f m s show ?thesis by auto
qed

end
