(* ===== verification/Chat.thy ===== *)
theory Chat
  imports Bpe_Props
begin

text \<open>
  The chat template of \<^verbatim>\<open>src/tokenizer/chat.c\<close> and the choice between it and a plain continuation in
  \<^verbatim>\<open>src/app/cli.c\<close>.  A prompt is built as ids: the turn markers are put by their ids, the contents
  are encoded with the special tokens off.  \<open>None\<close> is a return of -1; the messages printed on the way
  are left out.

  The lemmas show that the pre-tokenizer never lets a fragment run from two punctuation bytes into a
  letter, so that no text can be encoded to a token that reads like a marker, whatever the merges.
\<close>

section \<open>Templates\<close>

datatype eng_chat_family = ENG_CHAT_NONE | ENG_CHAT_CHATML

record eng_chat =
  c_family :: eng_chat_family
  c_im_start :: int
  c_im_end :: int
  c_eos :: int
  c_supports_think :: bool

definition contains :: "byte list \<Rightarrow> byte list \<Rightarrow> bool" where
  "contains hay needle \<longleftrightarrow>
     (let nn = length needle; hn = length hay in
      if nn = 0 \<or> hn < nn then False else list_ex (\<lambda>i. take nn (drop i hay) = needle) [0..<hn - nn + 1])"

fun eng_chat_family_name :: "eng_chat_family \<Rightarrow> string" where
  "eng_chat_family_name ENG_CHAT_CHATML = ''chatml''"
| "eng_chat_family_name ENG_CHAT_NONE = ''none''"

definition IM_START :: "byte list" where "IM_START = ascii ''<|im_start|>''"

definition IM_END :: "byte list" where "IM_END = ascii ''<|im_end|>''"

definition eng_chat_detect :: "gguf \<Rightarrow> eng_bpe \<Rightarrow> eng_chat" where
  "eng_chat_detect g b =
     (let c = \<lparr>c_family = ENG_CHAT_NONE, c_im_start = -1, c_im_end = -1, c_eos = b_eos b, c_supports_think = False\<rparr> in
      case gguf_str g (ascii ''tokenizer.chat_template'') of
        None \<Rightarrow> c
      | Some tpl \<Rightarrow>
          if tpl = [] then c
          else if contains tpl IM_START
          then let s = eng_bpe_find b IM_START; e = eng_bpe_find b IM_END in
            if s \<ge> 0 \<and> e \<ge> 0
            then c\<lparr>c_family := ENG_CHAT_CHATML, c_im_start := s, c_im_end := e,
                   c_supports_think := contains tpl (ascii ''enable_thinking'')\<rparr>
            else c
          else c)"

section \<open>Building a prompt\<close>

text \<open>\<open>out\<close> are the ids written so far.\<close>

definition put_id :: "int \<Rightarrow> int \<Rightarrow> int list \<Rightarrow> int list option" where
  "put_id cap tid out = (if int (length out) \<ge> cap then None else Some (out @ [tid]))"

definition put_text :: "eng_bpe \<Rightarrow> byte list option \<Rightarrow> int \<Rightarrow> int list \<Rightarrow> int list option" where
  "put_text b s cap out =
     (case s of None \<Rightarrow> Some out
      | Some s \<Rightarrow> if cstr s = [] then Some out
                  else map_option (\<lambda>ids. out @ ids) (eng_bpe_encode b (cstr s) (cap - int (length out)) False))"

text \<open>The five calls that put a closed turn.\<close>

definition put_turn :: "eng_chat \<Rightarrow> eng_bpe \<Rightarrow> int \<Rightarrow> byte list \<Rightarrow> byte list option \<Rightarrow> int list \<Rightarrow> int list option" where
  "put_turn c b cap role content out =
     Option.bind (put_id cap (c_im_start c) out) (\<lambda>out.
     Option.bind (put_text b (Some role) cap out) (\<lambda>out.
     Option.bind (put_text b content cap out) (\<lambda>out.
     Option.bind (put_id cap (c_im_end c) out) (\<lambda>out.
     put_text b (Some [10]) cap out))))"

definition no_think :: "byte list" where
  "no_think = ascii ''<think>'' @ [10, 10] @ ascii ''</think>'' @ [10, 10]"

definition eng_chat_build :: "eng_chat \<Rightarrow> eng_bpe \<Rightarrow> byte list option \<Rightarrow> byte list option \<Rightarrow> bool \<Rightarrow> int \<Rightarrow> int list option" where
  "eng_chat_build c b system user think cap =
     (if cap \<le> 0 \<or> c_family c \<noteq> ENG_CHAT_CHATML then None
      else Option.bind (if system \<noteq> None \<and> cstr (the system) \<noteq> [] then put_turn c b cap (ascii ''system'' @ [10]) system [] else Some []) (\<lambda>out.
           Option.bind (put_turn c b cap (ascii ''user'' @ [10]) user out) (\<lambda>out.
           Option.bind (put_id cap (c_im_start c) out) (\<lambda>out.
           Option.bind (put_text b (Some (ascii ''assistant'' @ [10])) cap out) (\<lambda>out.
           if \<not> think \<and> c_supports_think c then put_text b (Some no_think) cap out else Some out)))))"

text \<open>
  The prompt of \<open>cmd_run\<close>: \<open>chat_opt\<close> is -1 unless \<open>--chat\<close> or \<open>--raw\<close> was given.  A template that
  does not apply or does not fit gives a plain continuation, encoded with the special tokens on.
\<close>

definition prompt_ids :: "int \<Rightarrow> byte list option \<Rightarrow> byte list \<Rightarrow> bool \<Rightarrow> eng_chat \<Rightarrow> eng_bpe \<Rightarrow> int list option" where
  "prompt_ids chat_opt system prompt think c b =
     (let want_chat = (if chat_opt \<ge> 0 then chat_opt \<noteq> 0 else if system \<noteq> None then True else c_family c \<noteq> ENG_CHAT_NONE);
          built = (if want_chat \<and> c_family c \<noteq> ENG_CHAT_NONE then eng_chat_build c b system (Some prompt) think 4096 else None);
          r = (case built of None \<Rightarrow> eng_bpe_encode b (cstr prompt) 4096 True | Some ids \<Rightarrow> Some ids)
      in case r of None \<Rightarrow> None | Some ids \<Rightarrow> if ids = [] then None else Some ids)"

section \<open>Fragments\<close>

lemma run_all: "j \<le> p \<Longrightarrow> p < run P s n j \<Longrightarrow> P (s ! p)"
proof (induction P s n j rule: run.induct)
  case (1 P s n j)
  show ?case
  proof (cases "j < n \<and> P (s ! j)")
    case True
    then have "run P s n j = run P s n (j + 1)" by (subst run.simps) simp
    with 1 True show ?thesis by (cases "p = j") auto
  next
    case False
    then have "run P s n j = j" by (subst run.simps) auto
    with 1 show ?thesis by simp
  qed
qed

lemma contraction_bytes: "concat contractions = [115, 116, 109, 100, 114, 101, 118, 101, 108, 108]"
  by (simp add: contractions_def ascii_def)

lemma folded_letters_checked:
  "list_all (\<lambda>n :: int. n OR 32 \<in> {115, 116, 109, 100, 114, 101, 118, 108} \<longrightarrow> (97 \<le> n \<and> n \<le> 122) \<or> (65 \<le> n \<and> n \<le> 90)) [0..255]"
  by code_simp

lemma contraction_letter:
  assumes "c \<in> set (concat contractions)" "(a :: byte) OR 0x20 = c"
  shows "is_letter a"
proof -
  have "uint a \<in> set [0..255]" using unsigned_less [where ?'a = int, of a] by simp
  moreover have "uint a OR 32 = uint c" unfolding assms(2) [symmetric] uint_or by simp
  then have "uint a OR 32 \<in> {115, 116, 109, 100, 114, 101, 118, 108}" using assms(1) by (auto simp: contraction_bytes)
  ultimately have "(97 \<le> uint a \<and> uint a \<le> 122) \<or> (65 \<le> uint a \<and> uint a \<le> 90)"
    using folded_letters_checked unfolding list_all_iff by blast
  then show ?thesis by (auto simp: is_letter_def word_le_def)
qed

lemma contraction_letters:
  assumes "contraction s n i = Some e" "i < p" "p < e" "n \<le> length s"
  shows "is_letter (s ! p)"
proof -
  obtain c where c: "c \<in> set contractions" "e = i + 1 + length c" "e \<le> n" "map (\<lambda>a. a OR 0x20) (take (length c) (drop (i + 1) s)) = c"
    using assms(1) unfolding contraction_def map_option_eq_Some find_Some_iff by (metis nth_mem)
  let ?k = "p - (i + 1)"
  have k: "?k < length c" "i + 1 + ?k = p" using assms(2,3) c(2) by auto
  have "c ! ?k = map (\<lambda>a. a OR 0x20) (take (length c) (drop (i + 1) s)) ! ?k" using c(4) by simp
  also have "\<dots> = (s ! p) OR 0x20" using k c(2,3) assms(4) by (simp add: nth_append)
  finally have "(s ! p) OR 0x20 = c ! ?k" by simp
  moreover have "c ! ?k \<in> set (concat contractions)" using c(1) k(1) by (auto intro!: bexI [of _ c])
  ultimately show ?thesis using contraction_letter by blast
qed

lemma letter_not_punct: "is_letter c \<Longrightarrow> \<not> is_punct c" "is_punct c \<Longrightarrow> \<not> is_letter c"
  by (simp_all add: is_punct_def)

lemma newline_not_letter: "is_newline c \<Longrightarrow> \<not> is_letter c" "is_space c \<Longrightarrow> \<not> is_letter c"
  by (auto simp: is_newline_def is_space_def is_letter_def)

lemma next_space_letters:
  assumes "i < p" "p < next_space s n i"
  shows "\<not> is_letter (s ! p)"
proof -
  let ?P = "\<lambda>c. is_space c \<and> \<not> is_newline c"
  define j where "j = run ?P s n i"
  show ?thesis
  proof (cases "p < j")
    case True
    then show ?thesis using run_all [of i p ?P s n] assms(1) newline_not_letter(2) by (auto simp: j_def)
  next
    case False
    then have "p < run is_newline s n j" using assms by (auto simp: next_space_def j_def [symmetric] Let_def split: if_splits)
    then show ?thesis using run_all [of j p is_newline s n] False newline_not_letter(1) by auto
  qed
qed

text \<open>After its first byte a fragment is all letters or has none.\<close>

lemma fragment_uniform:
  assumes "i < n" "n \<le> length s"
  shows "(\<forall>p. i < p \<and> p < next_fragment s n i \<longrightarrow> is_letter (s ! p)) \<or> (\<forall>p. i < p \<and> p < next_fragment s n i \<longrightarrow> \<not> is_letter (s ! p))"
proof -
  define ok where "ok e \<longleftrightarrow> (\<forall>p. i < p \<and> p < e \<longrightarrow> is_letter (s ! p)) \<or> (\<forall>p. i < p \<and> p < e \<longrightarrow> \<not> is_letter (s ! p))" for e
  define j1 where "j1 = (if \<not> is_letter (s ! i) \<and> \<not> is_digit (s ! i) \<and> \<not> is_newline (s ! i) then i + 1 else i)"
  define j2 where "j2 = (if s ! i = 32 then i + 1 else i)"
  have j: "j1 \<le> i + 1" "j2 \<le> i + 1" by (simp_all add: j1_def j2_def)
  have letters: "ok (run is_letter s n j1)" using run_all [of j1 _ is_letter s n] j(1) by (auto simp: ok_def)
  have punct: "ok (run is_newline s n (run is_punct s n j2))"
  proof -
    have "\<not> is_letter (s ! p)" if "i < p" "p < run is_newline s n (run is_punct s n j2)" for p
    proof (cases "p < run is_punct s n j2")
      case True
      then show ?thesis using run_all [of j2 p is_punct s n] j(2) that(1) letter_not_punct by auto
    next
      case False
      then show ?thesis using run_all [of "run is_punct s n j2" p is_newline s n] that(2) newline_not_letter by auto
    qed
    then show ?thesis by (auto simp: ok_def)
  qed
  have contr: "ok e" if "(if c then contraction s n i else None) = Some e" for c e
    using contraction_letters [of s n i e] that assms(2) by (auto simp: ok_def split: if_splits)
  have rest: "ok (next_space s n i)" "ok (i + 1)" using next_space_letters [of i _ s n] by (auto simp: ok_def)
  have "ok (next_fragment s n i)"
    unfolding next_fragment_def Let_def j1_def [symmetric] j2_def [symmetric]
    using letters punct rest by (simp add: contr split: option.split)
  then show ?thesis by (simp add: ok_def)
qed

section \<open>Markers\<close>

text \<open>A marker: printable, with two punctuation bytes and a letter at its front.\<close>

definition is_marker :: "byte list \<Rightarrow> bool" where
  "is_marker t \<longleftrightarrow> 3 \<le> length t \<and> is_punct (t ! 0) \<and> is_punct (t ! 1) \<and> is_letter (t ! 2) \<and> list_all (\<lambda>c. 33 \<le> c \<and> c \<le> 126) t"

lemma marker_bytes: "IM_START = [60, 124, 105, 109, 95, 115, 116, 97, 114, 116, 124, 62]"
    "IM_END = [60, 124, 105, 109, 95, 101, 110, 100, 124, 62]"
  by (simp_all add: IM_START_def IM_END_def ascii_def)

lemma printable_markers: "list_all (\<lambda>c :: byte. 33 \<le> c \<and> c \<le> 126) [60, 124, 105, 109, 95, 115, 116, 97, 114, 116, 124, 62]"
    "list_all (\<lambda>c :: byte. 33 \<le> c \<and> c \<le> 126) [60, 124, 105, 109, 95, 101, 110, 100, 124, 62]"
  by (simp_all add: word_le_def)

lemma marker_front: "is_punct 60" "is_punct 124" "is_letter 105"
  by (simp_all add: is_punct_def is_letter_def is_digit_def is_space_def word_le_def)

lemma markers: "is_marker IM_START" "is_marker IM_END"
  unfolding is_marker_def marker_bytes by (intro conjI printable_markers; simp add: marker_front)+

lemma enc_inject:
  assumes "enc p = enc q"
  shows "p = q"
proof -
  define cap where "cap = int (length p) + int (length q)"
  have "Some p = decode_text (enc p) cap" by (rule decode_text_enc [symmetric]) (simp add: cap_def)
  also have "\<dots> = decode_text (enc q) cap" by (simp only: assms)
  also have "\<dots> = Some q" by (rule decode_text_enc) (simp add: cap_def)
  finally show ?thesis by (simp only: option.inject)
qed

lemma marker_not_in_fragment:
  assumes "i < n" "n \<le> length s" "is_marker t" "take (next_fragment s n i - i) (drop i s) = xs @ t @ ys"
  shows False
proof -
  let ?e = "next_fragment s n i" and ?k = "length xs"
  have e: "?e \<le> length s" using next_fragment_bounds [OF assms(1), of s] assms(2) by simp
  have len: "?e - i = ?k + length t + length ys" using arg_cong [OF assms(4), of length] e by simp
  have at: "s ! (i + (?k + m)) = t ! m" if "m < length t" for m
  proof -
    have "s ! (i + (?k + m)) = take (?e - i) (drop i s) ! (?k + m)" using that len e by simp
    also have "\<dots> = t ! m" unfolding assms(4) using that by (simp add: nth_append)
    finally show ?thesis .
  qed
  have m: "is_punct (s ! (i + (?k + 1)))" "is_letter (s ! (i + (?k + 2)))" "i + (?k + 2) < ?e"
    using assms(3) at [of 1] at [of 2] len by (auto simp: is_marker_def)
  then show False using fragment_uniform [OF assms(1,2)] letter_not_punct(1) by fastforce
qed

lemma names_not_marker:
  assumes "list_all2 (names b) ts qs" "concat qs = take (next_fragment s n i - i) (drop i s)" "i < n" "n \<le> length s" "is_marker t"
  shows "\<forall>x \<in> set ts. b_tok b ! nat x \<noteq> t"
proof (intro ballI notI)
  fix x assume x: "x \<in> set ts" "b_tok b ! nat x = t"
  then obtain q where q: "q \<in> set qs" "names b x q" using assms(1) by (metis list_all2_conv_all_nth in_set_conv_nth)
  have "enc q = enc t" using q(2) x(2) assms(5) by (simp add: names_def is_marker_def enc_printable)
  then have "q = t" by (rule enc_inject)
  with q(1) obtain us vs where "qs = us @ t # vs" by (metis in_set_conv_decomp)
  then have "take (next_fragment s n i - i) (drop i s) = concat us @ t @ concat vs" using assms(2) by simp
  then show False by (rule marker_not_in_fragment [OF assms(3,4,5)])
qed

lemma encode_from_no_marker:
  assumes "\<And>t. map_get (b_vocab b) t = first_id (b_tok b) t" "is_marker t" "encode_from b s cap False i outp = Some ids"
  shows "\<exists>ts. ids = outp @ ts \<and> (\<forall>x \<in> set ts. b_tok b ! nat x \<noteq> t)"
  using assms(3)
proof (induction "length s - i" arbitrary: i outp rule: less_induct)
  case less
  show ?case
  proof (cases "i < length s")
    case False
    then have "ids = outp" using less.prems by (simp add: encode_from.simps [of b s cap False i outp])
    then show ?thesis by simp
  next
    case True
    have sp: "next_special b s False i = None" by (simp add: next_special_def)
    define fend where "fend = next_fragment s (length s) i"
    have fe: "i < fend" using next_fragment_bounds [OF True, of s] by (simp add: fend_def)
    obtain out1 where r: "encode_fragment b (take (fend - i) (drop i s)) cap outp = Some out1" "encode_from b s cap False fend out1 = Some ids"
      using less.prems True by (auto simp: encode_from.simps [of b s cap False i outp] sp chunk_end_def fend_def [symmetric] Let_def
          split: option.splits)
    from encode_fragment_names [OF assms(1) r(1)] obtain t1 qs
      where t1: "out1 = outp @ t1" "list_all2 (names b) t1 qs" "concat qs = take (fend - i) (drop i s)" by auto
    have "\<forall>x \<in> set t1. b_tok b ! nat x \<noteq> t" by (rule names_not_marker [OF t1(2) t1(3) [unfolded fend_def] True order_refl assms(2)])
    moreover obtain ts where "ids = out1 @ ts" "\<forall>x \<in> set ts. b_tok b ! nat x \<noteq> t" using less.hyps [OF _ r(2)] fe True by (metis diff_less_mono2)
    ultimately show ?thesis using t1(1) by auto
  qed
qed

section \<open>Contents\<close>

lemma emit_cap: "emit m buf sy cap outp = Some ids \<Longrightarrow> int (length outp) \<le> cap \<Longrightarrow> int (length ids) \<le> cap"
  by (induction m buf sy cap outp rule: emit.induct) (auto simp: Let_def split: if_splits)

lemma fragment_cap: "encode_fragment b frag cap outp = Some ids \<Longrightarrow> int (length outp) \<le> cap \<Longrightarrow> int (length ids) \<le> cap"
  by (auto simp: encode_fragment_def merge_fragment_def split: if_splits option.splits dest: emit_cap)

lemma encode_cap: "encode_from b s cap False i outp = Some ids \<Longrightarrow> int (length outp) \<le> cap \<Longrightarrow> int (length ids) \<le> cap"
proof (induction "length s - i" arbitrary: i outp rule: less_induct)
  case less
  show ?case
  proof (cases "i < length s")
    case True
    have sp: "next_special b s False i = None" by (simp add: next_special_def)
    obtain out1 where r: "encode_fragment b (take (next_fragment s (length s) i - i) (drop i s)) cap outp = Some out1"
      "encode_from b s cap False (next_fragment s (length s) i) out1 = Some ids"
      using less.prems True by (auto simp: encode_from.simps [of b s cap False i outp] sp chunk_end_def Let_def split: option.splits)
    have "length s - next_fragment s (length s) i < length s - i" using next_fragment_bounds [OF True, of s] True by arith
    from less.hyps [OF this r(2)] fragment_cap [OF r(1) less.prems(2)] show ?thesis by blast
  qed (use less.prems in \<open>simp add: encode_from.simps [of b s cap False i outp]\<close>)
qed

lemma decode_append:
  "eng_bpe_decode b (xs @ ys) cap =
     (case eng_bpe_decode b xs cap of None \<Rightarrow> None | Some r \<Rightarrow> map_option (\<lambda>r'. r @ r') (eng_bpe_decode b ys (cap - int (length r))))"
proof (induction b xs cap rule: eng_bpe_decode.induct)
  case (1 b cap)
  show ?case by (cases "eng_bpe_decode b ys cap") simp_all
next
  case (2 b tid ids cap)
  show ?case
  proof (cases "eng_bpe_decode_one b tid cap")
    case (Some k)
    have e: "cap - int (length k) - int (length r) = cap - int (length (k @ r))" "(@) (k @ r) = (\<lambda>x. k @ r @ x)" for r
      by (simp_all add: fun_eq_iff)
    show ?thesis using 2 [OF Some] Some
      by (cases "eng_bpe_decode b ids (cap - int (length k))") (simp_all add: option.map_comp comp_def e del: length_append)
  qed simp
qed

lemma spells_append: "spells b xs p \<Longrightarrow> spells b ys q \<Longrightarrow> spells b (xs @ ys) (p @ q)"
  by (auto simp: spells_def decode_append)

text \<open>Ids that read as \<open>str\<close> and none of which is a marker.\<close>

definition content :: "eng_bpe \<Rightarrow> int list \<Rightarrow> byte list \<Rightarrow> bool" where
  "content b ids str \<longleftrightarrow> spells b ids str \<and> (\<forall>x \<in> set ids. b_tok b ! nat x \<noteq> IM_START \<and> b_tok b ! nat x \<noteq> IM_END)"

lemma content_append: "content b xs p \<Longrightarrow> content b ys q \<Longrightarrow> content b (xs @ ys) (p @ q)"
  by (auto simp: content_def spells_append)

abbreviation str_of :: "byte list option \<Rightarrow> byte list" where
  "str_of s \<equiv> (case s of None \<Rightarrow> [] | Some s \<Rightarrow> cstr s)"

lemma put_text_content:
  assumes "\<And>t. map_get (b_vocab b) t = first_id (b_tok b) t" "put_text b s cap out = Some out'" "int (length out) \<le> cap"
  shows "\<exists>ts. out' = out @ ts \<and> content b ts (str_of s) \<and> int (length out') \<le> cap"
proof (cases "s = None \<or> cstr (the s) = []")
  case True
  then have "out' = out" "str_of s = []" using assms(2) by (auto simp: put_text_def split: option.splits if_splits)
  then show ?thesis using assms(3) by (simp add: content_def spells_Nil)
next
  case False
  then obtain u where u: "s = Some u" "cstr u \<noteq> []" by auto
  then obtain ids where ids: "encode_from b (cstr u) (cap - int (length out)) False 0 [] = Some ids" "out' = out @ ids"
    using assms(2) by (auto simp: put_text_def eng_bpe_encode_def)
  have "spells b ids (cstr u)" using encode_from_spells [OF assms(1) _ ids(1)] by auto
  moreover have "\<forall>x \<in> set ids. b_tok b ! nat x \<noteq> IM_START" "\<forall>x \<in> set ids. b_tok b ! nat x \<noteq> IM_END"
    using encode_from_no_marker [OF assms(1) _ ids(1)] markers by auto
  moreover have "int (length out') \<le> cap" using encode_cap [OF ids(1)] assms(3) ids(2) by simp
  ultimately show ?thesis using u ids(2) by (auto simp: content_def)
qed

lemma put_id_Some: "put_id cap tid out = Some out' \<Longrightarrow> out' = out @ [tid] \<and> int (length out') \<le> cap"
  by (auto simp: put_id_def split: if_splits)

lemma put_turn_content:
  assumes "\<And>t. map_get (b_vocab b) t = first_id (b_tok b) t" "put_turn c b cap role s out = Some out'"
  shows "\<exists>T N. out' = out @ c_im_start c # T @ c_im_end c # N \<and> content b T (cstr role @ str_of s) \<and> content b N (cstr [10]) \<and>
    int (length out') \<le> cap"
proof -
  obtain o1 o2 o3 o4 where p: "put_id cap (c_im_start c) out = Some o1" "put_text b (Some role) cap o1 = Some o2"
    "put_text b s cap o2 = Some o3" "put_id cap (c_im_end c) o3 = Some o4" "put_text b (Some [10]) cap o4 = Some out'"
    using assms(2) by (auto simp: put_turn_def bind_eq_Some_conv)
  note i1 = put_id_Some [OF p(1)] and i4 = put_id_Some [OF p(4)]
  obtain A where A: "o2 = o1 @ A" "content b A (cstr role)" "int (length o2) \<le> cap" using put_text_content [OF assms(1) p(2)] i1 by auto
  obtain B where B: "o3 = o2 @ B" "content b B (str_of s)" using put_text_content [OF assms(1) p(3) A(3)] by auto
  obtain N where N: "out' = o4 @ N" "content b N (cstr [10])" "int (length out') \<le> cap" using put_text_content [OF assms(1) p(5)] i4 by auto
  show ?thesis using i1 i4 A B N content_append [OF A(2) B(2)] by (intro exI [of _ "A @ B"] exI [of _ N]) simp
qed

lemma emit_mono: "emit m buf sy cap outp = Some ids \<Longrightarrow> cap \<le> cap' \<Longrightarrow> emit m buf sy cap' outp = Some ids"
  by (induction m buf sy cap outp rule: emit.induct) (auto simp: Let_def split: if_splits)

lemma fragment_mono: "encode_fragment b frag cap outp = Some ids \<Longrightarrow> cap \<le> cap' \<Longrightarrow> encode_fragment b frag cap' outp = Some ids"
  by (auto simp: encode_fragment_def merge_fragment_def split: if_splits option.splits dest: emit_mono)

lemma encode_mono:
  assumes "encode_from b s cap False i outp = Some ids" "cap \<le> cap'"
  shows "encode_from b s cap' False i outp = Some ids"
  using assms(1)
proof (induction "length s - i" arbitrary: i outp rule: less_induct)
  case less
  show ?case
  proof (cases "i < length s")
    case True
    have sp: "next_special b s False i = None" by (simp add: next_special_def)
    define fend where "fend = next_fragment s (length s) i"
    obtain out1 where r: "encode_fragment b (take (fend - i) (drop i s)) cap outp = Some out1" "encode_from b s cap False fend out1 = Some ids"
      using less.prems True by (auto simp: encode_from.simps [of b s cap False i outp] sp chunk_end_def fend_def [symmetric] Let_def
          split: option.splits)
    have "i < fend" using next_fragment_bounds [OF True, of s] by (simp add: fend_def)
    then have "length s - fend < length s - i" using True by arith
    from less.hyps [OF this r(2)] fragment_mono [OF r(1) assms(2)] True show ?thesis
      by (subst encode_from.simps) (simp add: sp chunk_end_def fend_def [symmetric] Let_def)
  qed (use less.prems in \<open>simp add: encode_from.simps [of b s cap False i outp] encode_from.simps [of b s cap' False i ids]\<close>)
qed

lemma put_text_total:
  assumes "complete_vocab b" "length (str_of s) \<le> 1024" "int (length out) + int (length (str_of s)) \<le> cap"
  shows "\<exists>ts. put_text b s cap out = Some (out @ ts) \<and> length ts \<le> length (str_of s)"
proof (cases "s = None \<or> cstr (the s) = []")
  case True
  then show ?thesis by (auto simp: put_text_def split: option.splits)
next
  case False
  then obtain u where u: "s = Some u" "cstr u \<noteq> []" by auto
  obtain ids where i: "encode_from b (cstr u) (int (length (cstr u))) False 0 [] = Some ids"
    using encode_from_total [OF assms(1), of "cstr u" "int (length (cstr u))" "[]" 0 False] assms(2) u by auto
  have "encode_from b (cstr u) (cap - int (length out)) False 0 [] = Some ids" by (rule encode_mono [OF i]) (use assms(3) u in simp)
  then show ?thesis using encode_cap [OF i] u by (simp add: put_text_def eng_bpe_encode_def)
qed

lemma put_turn_total:
  assumes "complete_vocab b" "length (cstr role) \<le> 1024" "length (str_of s) \<le> 1024"
    and "int (length out) + int (length (cstr role)) + int (length (str_of s)) + 3 \<le> cap"
  shows "\<exists>ts. put_turn c b cap role s out = Some (out @ ts) \<and> length ts \<le> length (cstr role) + length (str_of s) + 3"
proof -
  let ?o1 = "out @ [c_im_start c]"
  obtain A where A: "put_text b (Some role) cap ?o1 = Some (?o1 @ A)" "length A \<le> length (cstr role)"
    using put_text_total [OF assms(1), of "Some role" ?o1 cap] assms(2,4) by auto
  obtain B where B: "put_text b s cap (?o1 @ A) = Some (?o1 @ A @ B)" "length B \<le> length (str_of s)"
    using put_text_total [OF assms(1,3), of "?o1 @ A" cap] A(2) assms(4) by auto
  let ?o4 = "?o1 @ A @ B @ [c_im_end c]"
  have "cstr [10] = [10]" by (simp add: cstr_def)
  then obtain N where N: "put_text b (Some [10]) cap ?o4 = Some (?o4 @ N)" "length N \<le> 1"
    using put_text_total [OF assms(1), of "Some [10]" ?o4 cap] A(2) B(2) assms(4) by auto
  have "put_id cap (c_im_start c) out = Some ?o1" "put_id cap (c_im_end c) (?o1 @ A @ B) = Some ?o4"
    using A(2) B(2) assms(4) by (simp_all add: put_id_def)
  then have "put_turn c b cap role s out = Some (?o4 @ N)" using A(1) B(1) N(1) by (simp add: put_turn_def)
  then show ?thesis using A(2) B(2) N(2) by (intro exI [of _ "c_im_start c # A @ B @ c_im_end c # N"]) simp
qed

text \<open>The vocabulary maps a text to the first token that has it.\<close>

definition indexed :: "eng_bpe \<Rightarrow> bool" where
  "indexed b \<longleftrightarrow> (\<forall>t. map_get (b_vocab b) t = first_id (b_tok b) t)"

lemma loaded_indexed: "eng_bpe_from_gguf g = Some b \<Longrightarrow> int (length (b_tok b)) \<le> 2 ^ 29 \<Longrightarrow> indexed b"
  by (simp add: indexed_def loaded_vocab)

section \<open>Turns\<close>

lemma role_texts: "cstr (ascii ''system'' @ [10]) = ascii ''system'' @ [10]" "cstr (ascii ''user'' @ [10]) = ascii ''user'' @ [10]"
  "cstr [10] = [10]" "cstr (ascii ''assistant'' @ [10]) = ascii ''assistant'' @ [10]" "cstr no_think = no_think"
  by (simp_all add: cstr_def ascii_def no_think_def)

text \<open>
  C16: no text can forge a turn.  For every tokenizer that looks its tokens up by their text, as every
  loaded one does, whatever its merges, and every system and user text, the ids of a built chat prompt are the opening marker, contents and closing marker of
  each turn and the opening marker of the answer; the markers occur nowhere else, the ids between
  them decode to the role and the text as given, and the ids fit the buffer.
\<close>

theorem chat_turns_cannot_be_forged:
  assumes "indexed b" "c = eng_chat_detect g b"
    and "eng_chat_build c b system user think cap = Some ids"
  shows "\<exists>T0 N0 T1 N1 T2. ids = (if str_of system = [] then [] else c_im_start c # T0 @ c_im_end c # N0) @
      c_im_start c # T1 @ c_im_end c # N1 @ c_im_start c # T2 \<and>
    {c_im_start c, c_im_end c} \<inter> set (T0 @ N0 @ T1 @ N1 @ T2) = {} \<and> int (length ids) \<le> cap \<and>
    (str_of system \<noteq> [] \<longrightarrow> spells b T0 (ascii ''system'' @ 10 # str_of system) \<and> spells b N0 [10]) \<and>
    spells b T1 (ascii ''user'' @ 10 # str_of user) \<and> spells b N1 [10] \<and>
    spells b T2 (ascii ''assistant'' @ 10 # (if \<not> think \<and> c_supports_think c then no_think else []))"
proof -
  have voc: "map_get (b_vocab b) t = first_id (b_tok b) t" for t using assms(1) by (simp add: indexed_def)
  note bld = assms(3) [unfolded eng_chat_build_def]
  have fam: "c_family c = ENG_CHAT_CHATML" using bld by (auto split: if_splits)
  then have mk: "c_im_start c = eng_bpe_find b IM_START" "c_im_end c = eng_bpe_find b IM_END" "0 \<le> c_im_start c" "0 \<le> c_im_end c"
    unfolding assms(2) eng_chat_detect_def by (auto simp: Let_def split: option.splits if_splits)
  then have tx: "b_tok b ! nat (c_im_start c) = IM_START" "b_tok b ! nat (c_im_end c) = IM_END"
    using first_id_nth voc unfolding eng_bpe_find_def by auto
  have cl: "c_im_start c \<notin> set T \<and> c_im_end c \<notin> set T \<and> spells b T str" if "content b T str" for T str
    using that tx by (auto simp: content_def)
  obtain o1 o2 o3 o4 where p: "(if system \<noteq> None \<and> cstr (the system) \<noteq> [] then put_turn c b cap (ascii ''system'' @ [10]) system [] else Some []) = Some o1"
    "put_turn c b cap (ascii ''user'' @ [10]) user o1 = Some o2" "put_id cap (c_im_start c) o2 = Some o3"
    "put_text b (Some (ascii ''assistant'' @ [10])) cap o3 = Some o4"
    "(if \<not> think \<and> c_supports_think c then put_text b (Some no_think) cap o4 else Some o4) = Some ids"
    using bld by (auto simp: bind_eq_Some_conv split: if_splits)
  obtain T0 N0 where a: "o1 = (if str_of system = [] then [] else c_im_start c # T0 @ c_im_end c # N0)"
    "set (T0 @ N0) \<inter> {c_im_start c, c_im_end c} = {}"
    "str_of system \<noteq> [] \<longrightarrow> spells b T0 (ascii ''system'' @ 10 # str_of system) \<and> spells b N0 [10]"
  proof (cases "str_of system = []")
    case True
    then show ?thesis using p(1) that [of "[]" "[]"] by (auto split: option.splits if_splits)
  next
    case False
    then have "put_turn c b cap (ascii ''system'' @ [10]) system [] = Some o1" using p(1) by (auto split: option.splits if_splits)
    from put_turn_content [OF voc this] cl False that show ?thesis unfolding role_texts by fastforce
  qed
  obtain T1 N1 where u: "o2 = o1 @ c_im_start c # T1 @ c_im_end c # N1" "content b T1 (ascii ''user'' @ 10 # str_of user)" "content b N1 [10]"
    using put_turn_content [OF voc p(2)] unfolding role_texts by auto
  note i3 = put_id_Some [OF p(3)]
  obtain A where A: "o4 = o3 @ A" "content b A (ascii ''assistant'' @ [10])" "int (length o4) \<le> cap"
    using put_text_content [OF voc p(4)] i3 unfolding option.case role_texts by auto
  obtain B where B: "ids = o4 @ B" "content b B (if \<not> think \<and> c_supports_think c then no_think else [])" "int (length ids) \<le> cap"
  proof (cases "\<not> think \<and> c_supports_think c")
    case True
    then show ?thesis using put_text_content [OF voc, of "Some no_think" cap o4 ids] p(5) A(3) that by (auto simp: role_texts)
  next
    case False
    then show ?thesis using p(5) A(3) that [of "[]"] by (auto simp: content_def spells_Nil)
  qed
  have "content b (A @ B) (ascii ''assistant'' @ 10 # (if \<not> think \<and> c_supports_think c then no_think else []))"
    using content_append [OF A(2) B(2)] by simp
  note c2 = cl [OF this] and c1 = cl [OF u(2)] and cn = cl [OF u(3)]
  show ?thesis
  proof (intro exI conjI)
    show "ids = (if str_of system = [] then [] else c_im_start c # T0 @ c_im_end c # N0) @
        c_im_start c # T1 @ c_im_end c # N1 @ c_im_start c # A @ B"
      unfolding B(1) A(1) conjunct1 [OF i3] u(1) a(1) by (simp only: append.simps append_assoc)
    show "{c_im_start c, c_im_end c} \<inter> set (T0 @ N0 @ T1 @ N1 @ (A @ B)) = {}"
      using a(2) c1 cn c2 by (auto simp only: set_append Un_iff)
  qed (use a(3) c1 cn c2 B(3) in blast)+
qed

lemma build_total:
  assumes "complete_vocab b" "c_family c = ENG_CHAT_CHATML" "length (str_of system) \<le> 1024" "length (str_of user) \<le> 1024"
    and "int (length (str_of system)) + int (length (str_of user)) + 48 \<le> cap"
  shows "\<exists>ids. eng_chat_build c b system user think cap = Some ids"
proof -
  have ln: "length (cstr (ascii ''system'' @ [10])) = 7" "length (cstr (ascii ''user'' @ [10])) = 5"
    "length (cstr (ascii ''assistant'' @ [10])) = 10" "length (cstr no_think) = 19"
    unfolding role_texts by (simp_all add: ascii_def no_think_def)
  have "\<exists>ts. put_turn c b cap (ascii ''system'' @ [10]) system [] = Some ([] @ ts) \<and> length ts \<le> 7 + length (str_of system) + 3"
    using put_turn_total [OF assms(1) _ assms(3), of "ascii ''system'' @ [10]" "[]" cap c, unfolded ln] assms(5) by simp
  then obtain o1 where o1: "(if system \<noteq> None \<and> cstr (the system) \<noteq> [] then put_turn c b cap (ascii ''system'' @ [10]) system [] else Some []) = Some o1"
    "length o1 \<le> 10 + length (str_of system)" by (cases "system \<noteq> None \<and> cstr (the system) \<noteq> []") auto
  obtain t2 where o2: "put_turn c b cap (ascii ''user'' @ [10]) user o1 = Some (o1 @ t2)" "length t2 \<le> 5 + length (str_of user) + 3"
    using put_turn_total [OF assms(1) _ assms(4), of "ascii ''user'' @ [10]" o1 cap c, unfolded ln] o1(2) assms(5) by auto
  let ?o3 = "(o1 @ t2) @ [c_im_start c]"
  have o3: "put_id cap (c_im_start c) (o1 @ t2) = Some ?o3" using o1(2) o2(2) assms(5) by (simp add: put_id_def)
  obtain t4 where o4: "put_text b (Some (ascii ''assistant'' @ [10])) cap ?o3 = Some (?o3 @ t4)" "length t4 \<le> 10"
    using put_text_total [OF assms(1), of "Some (ascii ''assistant'' @ [10])" ?o3 cap, unfolded option.case ln] o1(2) o2(2) assms(5) by auto
  have "\<exists>ts. put_text b (Some no_think) cap (?o3 @ t4) = Some ((?o3 @ t4) @ ts)"
    using put_text_total [OF assms(1), of "Some no_think" "?o3 @ t4" cap, unfolded option.case ln] o1(2) o2(2) o4(2) assms(5) by auto
  then obtain ids where "(if \<not> think \<and> c_supports_think c then put_text b (Some no_think) cap (?o3 @ t4) else Some (?o3 @ t4)) = Some ids"
    by (cases "\<not> think \<and> c_supports_think c") auto
  moreover have "\<not> (cap \<le> 0 \<or> c_family c \<noteq> ENG_CHAT_CHATML)" using assms(2,5) by simp
  ultimately show ?thesis unfolding eng_chat_build_def by (simp only: o1(1) o2(1) o3 o4(1) bind.simps if_False) blast
qed

text \<open>
  A chat prompt always gets built.  With a vocabulary that holds every mapped byte and every merge
  result, texts of at most 1024 bytes and room for them and the template's own 48 ids, no call of the
  builder fails; in particular the 4096 ids of \<open>cmd_run\<close> are enough and it does not fall back.
\<close>

theorem chat_build_succeeds:
  assumes "complete_vocab b" "c_family c = ENG_CHAT_CHATML" "length (str_of system) \<le> 1024" "length (str_of user) \<le> 1024"
    and "int (length (str_of system)) + int (length (str_of user)) + 48 \<le> cap"
  shows "\<exists>ids. eng_chat_build c b system user think cap = Some ids"
  by (rule build_total [OF assms])

section \<open>Concrete tokenizers\<close>

definition chat_gguf :: gguf where
  "chat_gguf = \<lparr>gg_version = 3, gg_blob = [], gg_strcap = 0, gg_strused = 0,
     gg_kv = [\<lparr>k_key = ascii ''tokenizer.chat_template'', k_type = GGUF_T_STRING, k_i = 0, k_f = FNone, k_str = Some IM_START,
               k_arr_type = GGUF_T_UINT8, k_arr_len = 0, k_arr_data = []\<rparr>],
     gg_t = [], gg_alignment = 32, gg_data_start = 0, gg_data_bytes = 0, gg_file_size = 0\<rparr>"

definition chat_bpe :: eng_bpe where
  "chat_bpe = (let ts = IM_START # IM_END # map b2u (map word_of_int [0..255]) in
     demo_bpe\<lparr>b_tok := ts, b_type := replicate 258 0, b_vocab := demo_table ts, b_spec := [], b_spec_first := []\<rparr>)"

text \<open>A vocabulary of the markers and the letter a.\<close>

definition poor_bpe :: eng_bpe where
  "poor_bpe = demo_bpe\<lparr>b_tok := [IM_START, IM_END, [97]], b_type := [3, 3, 1], b_vocab := demo_table [IM_START, IM_END, [97]],
     b_spec := [0, 1], b_spec_first := [60, 60]\<rparr>"

lemma chat_bpe_indexed: "indexed chat_bpe"
  by (simp add: indexed_def chat_bpe_def Let_def demo_table_get)

lemma chat_bpe_complete: "complete_vocab chat_bpe"
proof -
  have "b2u c \<in> set (map b2u (map word_of_int [0..255]))" for c :: byte
  proof -
    have "c = word_of_int (uint c)" "uint c \<in> set [0..255]" using uint_bounded [of c] by simp_all
    then show ?thesis by (metis image_eqI list.set_map)
  qed
  then have "b2u c \<in> set (b_tok chat_bpe)" for c by (simp add: chat_bpe_def Let_def del: map_map set_map)
  then show ?thesis using chat_bpe_indexed
    by (simp add: complete_vocab_def indexed_def first_id_def) (simp add: chat_bpe_def demo_bpe_def Let_def map_get_def [of "[]"])
qed

lemma chat_detects: "eng_chat_detect chat_gguf chat_bpe = \<lparr>c_family = ENG_CHAT_CHATML, c_im_start = 0, c_im_end = 1, c_eos = -1, c_supports_think = False\<rparr>"
proof -
  have t: "gguf_str chat_gguf (ascii ''tokenizer.chat_template'') = Some IM_START"
    by (simp add: gguf_str_def gguf_find_def kv_find_def chat_gguf_def)
  have n: "IM_START \<noteq> []" "IM_START \<noteq> IM_END" "contains IM_START IM_START" "\<not> contains IM_START (ascii ''enable_thinking'')"
    by (simp_all add: marker_bytes contains_def ascii_def)
  have f: "eng_bpe_find chat_bpe IM_START = 0" "eng_bpe_find chat_bpe IM_END = 1"
    using chat_bpe_indexed n(2) by (simp_all add: indexed_def eng_bpe_find_def first_id_def) (simp_all add: chat_bpe_def Let_def)
  have "b_eos chat_bpe = -1" by (simp add: chat_bpe_def demo_bpe_def Let_def)
  then show ?thesis by (simp add: eng_chat_detect_def t n f Let_def)
qed

theorem chat_build_succeeds_witness:
  "\<exists>ids. eng_chat_build (eng_chat_detect chat_gguf chat_bpe) chat_bpe (Some [104, 105]) (Some IM_END) False 4096 = Some ids"
  by (rule chat_build_succeeds [OF chat_bpe_complete]) (simp_all add: chat_detects marker_bytes cstr_def)

theorem chat_turns_cannot_be_forged_witness:
  "\<exists>ids T1 N1 T2. eng_chat_build (eng_chat_detect chat_gguf chat_bpe) chat_bpe None (Some IM_END) False 4096 = Some ids \<and>
     ids = 0 # T1 @ 1 # N1 @ 0 # T2 \<and> 1 \<notin> set T1 \<and> spells chat_bpe T1 (ascii ''user'' @ 10 # IM_END)"
proof -
  obtain ids where i: "eng_chat_build (eng_chat_detect chat_gguf chat_bpe) chat_bpe None (Some IM_END) False 4096 = Some ids"
    using build_total [OF chat_bpe_complete, of "eng_chat_detect chat_gguf chat_bpe" None "Some IM_END" 4096 False]
    by (auto simp: chat_detects marker_bytes cstr_def)
  have e: "cstr IM_END = IM_END" by (simp add: marker_bytes cstr_def)
  from chat_turns_cannot_be_forged [OF chat_bpe_indexed refl i] i show ?thesis by (auto simp: chat_detects e)
qed

section \<open>The fallback\<close>

text \<open>A tokenizer whose special tokens are indexed, as those of every loaded one are.\<close>

definition specials_indexed :: "eng_bpe \<Rightarrow> bool" where
  "specials_indexed b \<longleftrightarrow> index_specials b = b"

lemma loaded_specials_indexed: "eng_bpe_from_gguf g = Some b \<Longrightarrow> specials_indexed b"
  unfolding eng_bpe_from_gguf_def load_bpe_def specials_indexed_def
  by (auto simp: index_specials_def eng_bpe_is_special_def Let_def split: option.splits if_splits)

lemma indexed_specials:
  assumes "specials_indexed b"
  shows "b_spec b = filter (\<lambda>i. eng_bpe_is_special b (int i) \<and> b_tok b ! i \<noteq> []) [0..<length (b_tok b)]"
    "b_spec_first b = map (\<lambda>i. hd (b_tok b ! i)) (b_spec b)"
proof -
  let ?sp = "filter (\<lambda>i. eng_bpe_is_special b (int i) \<and> b_tok b ! i \<noteq> []) [0..<length (b_tok b)]"
  have "b = b\<lparr>b_spec := ?sp, b_spec_first := map (\<lambda>i. hd (b_tok b ! i)) ?sp\<rparr>"
    using assms by (simp add: specials_indexed_def index_specials_def Let_def)
  from arg_cong [OF this, of b_spec] arg_cong [OF this, of b_spec_first]
  show "b_spec b = ?sp" "b_spec_first b = map (\<lambda>i. hd (b_tok b ! i)) (b_spec b)" by simp_all
qed

text \<open>The scan settles on the first of the longest special tokens at its position.\<close>

lemma special_at_longest:
  assumes "b_spec b = ys @ t # zs" "take (length (b_tok b ! t)) (drop j s) = b_tok b ! t" "b_tok b ! t \<noteq> []"
    and "j + length (b_tok b ! t) \<le> length s"
    and "\<And>u. u \<in> set ys \<Longrightarrow> take (length (b_tok b ! u)) (drop j s) = b_tok b ! u \<Longrightarrow> length (b_tok b ! u) < length (b_tok b ! t)"
    and "\<And>u. u \<in> set zs \<Longrightarrow> take (length (b_tok b ! u)) (drop j s) = b_tok b ! u \<Longrightarrow> length (b_tok b ! u) \<le> length (b_tok b ! t)"
  shows "special_at b s j = Some (t, length (b_tok b ! t))"
proof -
  let ?n = "length (b_tok b ! t)"
  define best where "best = foldl (special_step b s j) None ys"
  have "special_ok b s j (set ys) best"
    unfolding best_def by (rule special_fold_ok) (simp_all add: special_ok_def)
  then have "(case best of None \<Rightarrow> 0 | Some (_, l) \<Rightarrow> l) < ?n"
    using assms(3,5) by (auto simp: special_ok_def split: option.splits)
  then have st: "special_step b s j best t = Some (t, ?n)"
    using assms(2,4) by (auto simp: special_step_def Let_def)
  have keep: "special_step b s j (Some (t, ?n)) u = Some (t, ?n)" if "u \<in> set zs" for u
    using assms(6) [OF that] by (auto simp: special_step_def Let_def)
  have "foldl (special_step b s j) (Some (t, ?n)) us = Some (t, ?n)" if "set us \<subseteq> set zs" for us
    using that by (induction us) (simp_all add: keep)
  then show ?thesis using st by (simp add: special_at_def assms(1) best_def [symmetric])
qed

lemma find_special_skip:
  "(\<And>j. j \<in> set js \<Longrightarrow> s ! j \<notin> set (b_spec_first b)) \<Longrightarrow> find_special b s (js @ ks) = find_special b s ks"
  by (induction js) simp_all

lemma encode_extends:
  assumes "\<And>t. map_get (b_vocab b) t = first_id (b_tok b) t" "encode_from b s cap sp i outp = Some ids"
  shows "\<exists>ts. ids = outp @ ts"
  using assms(2)
proof (induction "length s - i" arbitrary: i outp rule: less_induct)
  case less
  define spc where "spc = next_special b s sp i"
  consider "\<not> i < length s" | "i < length s" "chunk_end s spc \<le> i" | "i < length s" "i < chunk_end s spc" by linarith
  then show ?case
  proof cases
    case 1
    then show ?thesis using less.prems by (simp add: encode_from.simps [of b s cap sp i outp])
  next
    case 2
    then obtain j t l where spc: "spc = Some (j, t, l)" by (cases spc) (auto simp: chunk_end_def)
    note pos = next_special_pos [OF spc [unfolded spc_def]]
    have "encode_from b s cap sp (j + l) (outp @ [int t]) = Some ids"
      using less.prems 2 spc by (simp add: encode_from.simps [of b s cap sp i outp] spc_def split: if_splits)
    moreover have "length s - (j + l) < length s - i" using pos 2(1) by linarith
    ultimately obtain ts where "ids = (outp @ [int t]) @ ts" using less.hyps by blast
    then show ?thesis by auto
  next
    case 3
    define fend where "fend = next_fragment s (chunk_end s spc) i"
    have fe: "i < fend" "fend \<le> chunk_end s spc" using next_fragment_bounds [OF 3(2), of s] by (simp_all add: fend_def)
    obtain out1 where r: "encode_fragment b (take (fend - i) (drop i s)) cap outp = Some out1" "encode_from b s cap sp fend out1 = Some ids"
      using less.prems 3 by (auto simp: encode_from.simps [of b s cap sp i outp] spc_def [symmetric] fend_def [symmetric] Let_def
          split: option.splits if_splits)
    obtain t1 where t1: "out1 = outp @ t1" using encode_fragment_names [OF assms(1) r(1)] by auto
    have "length s - fend < length s - i" using fe 3(1) by linarith
    then obtain ts where "ids = out1 @ ts" using less.hyps r(2) by blast
    then show ?thesis by (simp add: t1)
  qed
qed

text \<open>Fragments end where the next special token begins, so the scan arrives there.\<close>

lemma encode_reaches_special:
  assumes voc: "\<And>t. map_get (b_vocab b) t = first_id (b_tok b) t" and p: "p < length s"
    and sp: "\<And>i. i \<le> p \<Longrightarrow> next_special b s True i = Some (p, t, l)"
    and "encode_from b s cap True i outp = Some ids" "i \<le> p"
  shows "int t \<in> set ids"
  using assms(4,5)
proof (induction "p - i" arbitrary: i outp rule: less_induct)
  case less
  have i: "i < length s" using p less.prems(2) by simp
  note nx = sp [OF less.prems(2)]
  show ?case
  proof (cases "i = p")
    case True
    then have "encode_from b s cap True (p + l) (outp @ [int t]) = Some ids"
      using less.prems(1) p nx unfolding True by (subst (asm) encode_from.simps) (simp add: chunk_end_def split: if_splits)
    from encode_extends [OF voc this] show ?thesis by auto
  next
    case False
    then have ip: "i < p" using less.prems(2) by simp
    define fend where "fend = next_fragment s p i"
    have fe: "i < fend" "fend \<le> p" using next_fragment_bounds [OF ip, of s] by (simp_all add: fend_def)
    obtain out1 where "encode_from b s cap True fend out1 = Some ids"
      using less.prems(1) i ip nx by (auto simp: encode_from.simps [of b s cap True i outp] chunk_end_def fend_def [symmetric] Let_def
          split: option.splits)
    then show ?thesis using less.hyps [of fend out1] fe ip by simp
  qed
qed

lemma marker_found:
  assumes ld: "specials_indexed b" and voc: "indexed b" and m: "m \<noteq> []" "eng_bpe_is_special b (eng_bpe_find b m)"
    and pre: "set pre \<inter> set (b_spec_first b) = {}"
    and long: "\<forall>u \<in> set (b_spec b). take (length (b_tok b ! u)) (m @ post) = b_tok b ! u \<longrightarrow> length (b_tok b ! u) \<le> length m"
    and i: "i \<le> length pre"
  shows "next_special b (pre @ m @ post) True i = Some (length pre, nat (eng_bpe_find b m), length m)"
proof -
  let ?s = "pre @ m @ post" and ?t = "nat (eng_bpe_find b m)" and ?p = "length pre"
  have f: "eng_bpe_find b m = first_id (b_tok b) m" using voc by (simp add: indexed_def eng_bpe_find_def)
  have t: "?t < length (b_tok b)" "b_tok b ! ?t = m" "eng_bpe_is_special b (int ?t)"
    using first_id_nth [of "b_tok b" m] m(2) by (auto simp: f eng_bpe_is_special_def)
  have first: "b_tok b ! u \<noteq> m" if "u < ?t" for u
  proof -
    have "m \<in> set (b_tok b)" using nth_mem [OF t(1)] t(2) by simp
    then have "?t = length (takeWhile (\<lambda>s. s \<noteq> m) (b_tok b))" by (simp add: f first_id_def)
    with that show ?thesis by (metis (mono_tags, lifting) nth_mem set_takeWhileD takeWhile_nth)
  qed
  define P where "P i \<longleftrightarrow> eng_bpe_is_special b (int i) \<and> b_tok b ! i \<noteq> []" for i
  have up: "[0..<length (b_tok b)] = [0..<?t] @ ?t # [Suc ?t..<length (b_tok b)]"
    using t(1) by (metis le_add1 less_imp_le_nat upt_add_eq_append upt_conv_Cons add_0 le_add_diff_inverse)
  have spec: "b_spec b = filter P [0..<?t] @ ?t # filter P [Suc ?t..<length (b_tok b)]"
  proof -
    have "P ?t" unfolding P_def using t(2,3) m(1) by metis
    moreover have "b_spec b = filter P [0..<length (b_tok b)]" using indexed_specials(1) [OF ld] by (simp add: P_def [abs_def])
    ultimately show ?thesis unfolding up by (simp only: filter_append filter.simps if_True)
  qed
  have in': "?t \<in> set (b_spec b)" by (simp add: spec)
  have short: "length (b_tok b ! u) \<le> length m" if "u \<in> set (b_spec b)" "take (length (b_tok b ! u)) (drop ?p ?s) = b_tok b ! u" for u
  proof -
    have e: "drop ?p ?s = m @ post" by simp
    show ?thesis using bspec [OF long that(1)] that(2) unfolding e by (rule mp)
  qed
  have at: "special_at b ?s ?p = Some (?t, length (b_tok b ! ?t))"
  proof (rule special_at_longest [OF spec])
    show "take (length (b_tok b ! ?t)) (drop ?p ?s) = b_tok b ! ?t" "b_tok b ! ?t \<noteq> []" "?p + length (b_tok b ! ?t) \<le> length ?s"
      using t(2) m(1) by simp_all
  next
    fix u assume u: "u \<in> set (filter P [0..<?t])" "take (length (b_tok b ! u)) (drop ?p ?s) = b_tok b ! u"
    have "u \<in> set (b_spec b)" "u < ?t" using u(1) by (simp_all add: spec)
    then have "length (b_tok b ! u) \<le> length m" "b_tok b ! u \<noteq> m" using short u(2) first by blast+
    moreover have "length (b_tok b ! u) \<noteq> length m"
    proof
      assume "length (b_tok b ! u) = length m"
      then have "b_tok b ! u = m" using u(2) by simp
      with \<open>b_tok b ! u \<noteq> m\<close> show False ..
    qed
    ultimately show "length (b_tok b ! u) < length (b_tok b ! ?t)" using t(2) by simp
  next
    fix u assume u: "u \<in> set (filter P [Suc ?t..<length (b_tok b)])" "take (length (b_tok b ! u)) (drop ?p ?s) = b_tok b ! u"
    have "u \<in> set (b_spec b)" using u(1) by (simp add: spec)
    from short [OF this u(2)] show "length (b_tok b ! u) \<le> length (b_tok b ! ?t)" by (simp only: t(2))
  qed
  have hd: "?s ! ?p \<in> set (b_spec_first b)"
  proof -
    have "?s ! ?p = hd (b_tok b ! ?t)" using t(2) m(1) by (simp add: nth_append hd_conv_nth)
    then show ?thesis using in' by (simp add: indexed_specials(2) [OF ld])
  qed
  have "[i..<length ?s] = [i..<?p] @ ?p # [Suc ?p..<length ?s]"
    using i m(1) by (metis (no_types, lifting) length_append length_greater_0_conv less_add_same_cancel1 upt_add_eq_append upt_conv_Cons le_add_diff_inverse trans_le_add1 add_gr_0)
  moreover have "?s ! j \<notin> set (b_spec_first b)" if "j \<in> set [i..<?p]" for j
  proof -
    have j: "j < ?p" using that by simp
    then have "?s ! j \<in> set pre" by (simp add: nth_append)
    then show ?thesis using pre by blast
  qed
  ultimately have "find_special b ?s [i..<length ?s] = Some (?p, ?t, length m)"
    using find_special_skip [of "[i..<?p]" ?s b "?p # [Suc ?p..<length ?s]"] hd at t(2) by simp
  then show ?thesis using in' by (auto simp: next_special_def)
qed

text \<open>
  C39: the fallback of \<open>cmd_run\<close> lets a text forge a turn.  For every tokenizer that looks up its tokens and
  its special tokens as every loaded one does, when the formatted prompt cannot be built, the user's text is
  encoded as a plain continuation with the special tokens on.  If a turn marker of the template is a control
  token of the vocabulary, then typed by the user, with no byte before it with which a special token
  begins and no longer special token that begins with it, it becomes the control token.
\<close>

theorem chat_fallback_admits_markers:
  assumes "indexed b" "specials_indexed b"
    and "c = eng_chat_detect g b" "c_family c = ENG_CHAT_CHATML" "eng_chat_build c b system (Some prompt) think 4096 = None"
    and "(mk, m) \<in> {(c_im_start c, IM_START), (c_im_end c, IM_END)}" "eng_bpe_is_special b mk"
    and "cstr prompt = pre @ m @ post" "set pre \<inter> set (b_spec_first b) = {}"
    and "\<forall>u \<in> set (b_spec b). take (length (b_tok b ! u)) (m @ post) = b_tok b ! u \<longrightarrow> length (b_tok b ! u) \<le> length m"
    and "prompt_ids chat_opt system prompt think c b = Some ids"
  shows "mk \<in> set ids"
proof -
  have m: "m \<noteq> []" using assms(6) by (auto simp: marker_bytes)
  have mk: "mk = eng_bpe_find b m"
    using assms(4,6) unfolding assms(3) eng_chat_detect_def by (auto simp: Let_def split: option.splits if_splits)
  have "encode_from b (pre @ m @ post) 4096 True 0 [] = Some ids"
    using assms(5,8,11) by (auto simp: prompt_ids_def eng_bpe_encode_def Let_def split: option.splits if_splits)
  then have "int (nat (eng_bpe_find b m)) \<in> set ids"
    using marker_found [OF assms(2,1) m assms(7) [unfolded mk] assms(9,10)] assms(1) m
    by (intro encode_reaches_special [where p = "length pre" and s = "pre @ m @ post"]) (auto simp: indexed_def)
  then show ?thesis using assms(7) by (simp add: mk eng_bpe_is_special_def)
qed

lemma poor_build: "eng_chat_build \<lparr>c_family = ENG_CHAT_CHATML, c_im_start = 0, c_im_end = 1, c_eos = -1, c_supports_think = False\<rparr> poor_bpe None (Some (97 # IM_END)) False 4096 = None"
  by code_simp

lemma poor_encode: "eng_bpe_encode poor_bpe (97 # IM_END) 4096 True = Some [2, 1]"
  by code_simp

lemma poor_indexed: "indexed poor_bpe" "specials_indexed poor_bpe"
proof -
  show "indexed poor_bpe" by (simp add: indexed_def poor_bpe_def demo_table_get)
  show "specials_indexed poor_bpe"
    by (simp add: specials_indexed_def index_specials_def poor_bpe_def demo_bpe_def eng_bpe_is_special_def marker_bytes upt_rec)
qed

lemma poor_detects: "eng_chat_detect chat_gguf poor_bpe = \<lparr>c_family = ENG_CHAT_CHATML, c_im_start = 0, c_im_end = 1, c_eos = -1, c_supports_think = False\<rparr>"
proof -
  have t: "gguf_str chat_gguf (ascii ''tokenizer.chat_template'') = Some IM_START"
    by (simp add: gguf_str_def gguf_find_def kv_find_def chat_gguf_def)
  have n: "IM_START \<noteq> []" "IM_START \<noteq> IM_END" "contains IM_START IM_START" "\<not> contains IM_START (ascii ''enable_thinking'')"
    by (simp_all add: marker_bytes contains_def ascii_def)
  have f: "eng_bpe_find poor_bpe IM_START = 0" "eng_bpe_find poor_bpe IM_END = 1" "b_eos poor_bpe = -1"
    using n(2) by (simp_all add: eng_bpe_find_def poor_bpe_def demo_bpe_def demo_table_get first_id_def)
  show ?thesis by (simp add: eng_chat_detect_def t n f Let_def)
qed

theorem chat_fallback_admits_markers_witness:
  "prompt_ids 1 None (97 # IM_END) False (eng_chat_detect chat_gguf poor_bpe) poor_bpe = Some [2, 1] \<and> (1 :: int) \<in> set [2, 1]"
proof -
  have e: "cstr (97 # IM_END) = [97] @ IM_END @ []" by (simp add: marker_bytes cstr_def)
  have r: "prompt_ids 1 None (97 # IM_END) False (eng_chat_detect chat_gguf poor_bpe) poor_bpe = Some [2, 1]"
    by (simp add: poor_detects prompt_ids_def poor_build poor_encode e)
  have "eng_chat_build (eng_chat_detect chat_gguf poor_bpe) poor_bpe None (Some (97 # IM_END)) False 4096 = None"
    "c_family (eng_chat_detect chat_gguf poor_bpe) = ENG_CHAT_CHATML"
    "(1, IM_END) \<in> {(c_im_start (eng_chat_detect chat_gguf poor_bpe), IM_START), (c_im_end (eng_chat_detect chat_gguf poor_bpe), IM_END)}"
    by (simp_all add: poor_detects poor_build)
  moreover have "eng_bpe_is_special poor_bpe 1" "set [97] \<inter> set (b_spec_first poor_bpe) = {}"
    "\<forall>u \<in> set (b_spec poor_bpe). take (length (b_tok poor_bpe ! u)) (IM_END @ []) = b_tok poor_bpe ! u \<longrightarrow> length (b_tok poor_bpe ! u) \<le> length IM_END"
    by (simp_all add: poor_bpe_def eng_bpe_is_special_def marker_bytes)
  ultimately show ?thesis using chat_fallback_admits_markers [OF poor_indexed refl _ _ _ _ e _ _ r] r by blast
qed

end
