(* ===== verification/Registry.thy ===== *)
theory Registry
  imports Qwen3
begin

text \<open>
  The model registry, \<^verbatim>\<open>src/models/registry.c\<close>, with the two backends it registers on first use.  A
  backend is its vtable: the entry points the registry calls are functions, the others are only
  known to be there or not.  \<open>'p\<close> is what a path leads to.  Messages are left out.

  \<open>kimi_probe\<close> is that of \<^verbatim>\<open>src/models/kimi/kimi.c\<close>; the parser of the vendored JSON reader is a
  parameter.
\<close>

section \<open>Backends\<close>

definition ENG_MCAP_EXECUTE :: "32 word" where "ENG_MCAP_EXECUTE = push_bit 0 1"
definition ENG_MCAP_MOE :: "32 word" where "ENG_MCAP_MOE = push_bit 1 1"
definition ENG_MCAP_POSITIONAL :: "32 word" where "ENG_MCAP_POSITIONAL = push_bit 2 1"
definition ENG_MCAP_RECURRENT :: "32 word" where "ENG_MCAP_RECURRENT = push_bit 3 1"
definition ENG_MCAP_STREAMABLE :: "32 word" where "ENG_MCAP_STREAMABLE = push_bit 4 1"
definition ENG_MCAP_INCREMENTAL :: "32 word" where "ENG_MCAP_INCREMENTAL = push_bit 5 1"

record eng_model_caps =
  mc_flags :: "32 word"
  mc_num_policy :: eng_num_policy

record 'p eng_model_backend =
  be_name :: "string option"
  be_probe :: "('p \<Rightarrow> int) option"
  be_inspect :: bool
  be_caps :: "eng_model_caps option"
  be_load :: bool
  be_destroy :: bool
  be_state_create :: bool
  be_state_destroy :: bool
  be_state_bytes :: bool
  be_decode :: bool
  be_logits :: bool

record 'p registry =
  reg_list :: "'p eng_model_backend list"
  reg_ready :: bool

definition ENG_MAX_BACKENDS :: nat where "ENG_MAX_BACKENDS = 16"

section \<open>Registration\<close>

text \<open>The checks made before the registry is looked at.\<close>

definition usable_backend :: "'p eng_model_backend \<Rightarrow> bool" where
  "usable_backend b \<longleftrightarrow> be_name b \<noteq> None \<and> be_probe b \<noteq> None \<and> be_inspect b \<and>
     (case be_caps b of
        None \<Rightarrow> False
      | Some c \<Rightarrow> \<not> (mc_flags c AND ENG_MCAP_EXECUTE \<noteq> 0 \<and>
          (\<not> be_load b \<or> \<not> be_destroy b \<or> \<not> be_decode b \<or> \<not> be_logits b \<or> \<not> be_state_create b \<or>
           \<not> be_state_destroy b \<or> \<not> be_state_bytes b)))"

definition reg_add :: "'p eng_model_backend \<Rightarrow> 'p registry \<Rightarrow> int \<times> 'p registry" where
  "reg_add b r =
     (if length (reg_list r) \<ge> ENG_MAX_BACKENDS then (-1, r)
      else if list_ex (\<lambda>e. be_name e = be_name b) (reg_list r) then (-1, r)
      else (0, r\<lparr>reg_list := reg_list r @ [b]\<rparr>))"

text \<open>
  The built-ins are registered with \<open>reg_ready\<close> set already, so the nested call of
  \<open>eng_model_register_builtins\<close> returns at once.
\<close>

definition eng_model_register_builtins :: "'p eng_model_backend list \<Rightarrow> 'p registry \<Rightarrow> 'p registry" where
  "eng_model_register_builtins builtins r =
     (if reg_ready r then r
      else foldl (\<lambda>r b. if usable_backend b then snd (reg_add b r) else r) (r\<lparr>reg_ready := True\<rparr>) builtins)"

definition eng_model_register :: "'p eng_model_backend list \<Rightarrow> 'p eng_model_backend \<Rightarrow> 'p registry \<Rightarrow> int \<times> 'p registry" where
  "eng_model_register builtins b r =
     (if \<not> usable_backend b then (-1, r) else reg_add b (eng_model_register_builtins builtins r))"

section \<open>Lookup\<close>

definition eng_model_find :: "'p eng_model_backend list \<Rightarrow> string \<Rightarrow> 'p registry \<Rightarrow> 'p eng_model_backend option \<times> 'p registry" where
  "eng_model_find builtins name r =
     (let r = eng_model_register_builtins builtins r in (List.find (\<lambda>b. be_name b = Some name) (reg_list r), r))"

definition probe_step :: "'p \<Rightarrow> 'p eng_model_backend option \<times> int \<times> nat \<Rightarrow> 'p eng_model_backend \<Rightarrow> 'p eng_model_backend option \<times> int \<times> nat" where
  "probe_step path = (\<lambda>(best, best_score, ties) b.
     let s = the (be_probe b) path in
     if s \<le> 0 then (best, best_score, ties)
     else if s > best_score then (Some b, s, 0)
     else if s = best_score then (best, best_score, ties + 1)
     else (best, best_score, ties))"

definition eng_model_probe :: "'p eng_model_backend list \<Rightarrow> 'p \<Rightarrow> 'p registry \<Rightarrow> ('p eng_model_backend option \<times> int) \<times> 'p registry" where
  "eng_model_probe builtins path r =
     (let r = eng_model_register_builtins builtins r;
          (best, best_score, ties) = foldl (probe_step path) (None, 0, 0) (reg_list r)
      in ((best, best_score), r))"

definition eng_model_count :: "'p eng_model_backend list \<Rightarrow> 'p registry \<Rightarrow> int \<times> 'p registry" where
  "eng_model_count builtins r = (let r = eng_model_register_builtins builtins r in (int (length (reg_list r)), r))"

definition eng_model_at :: "'p eng_model_backend list \<Rightarrow> int \<Rightarrow> 'p registry \<Rightarrow> 'p eng_model_backend option \<times> 'p registry" where
  "eng_model_at builtins i r =
     (let r = eng_model_register_builtins builtins r
      in (if 0 \<le> i \<and> i < int (length (reg_list r)) then Some (reg_list r ! nat i) else None, r))"

section \<open>The capabilities as text\<close>

definition cap_names :: "(32 word \<times> string) list" where
  "cap_names = [(ENG_MCAP_EXECUTE, ''execute''), (ENG_MCAP_MOE, ''moe''), (ENG_MCAP_POSITIONAL, ''positional''),
     (ENG_MCAP_RECURRENT, ''recurrent''), (ENG_MCAP_STREAMABLE, ''streamable''), (ENG_MCAP_INCREMENTAL, ''incremental'')]"

text \<open>\<open>snprintf(buf + n, cap - n, "%s%s", n ? " " : "", name)\<close>, with the length it would have written.\<close>

definition put_word :: "nat \<Rightarrow> string \<Rightarrow> string \<times> nat \<Rightarrow> string \<times> nat" where
  "put_word cap name = (\<lambda>(buf, n).
     let w = (if n \<noteq> 0 then '' '' else '''') @ name in (buf @ take (cap - n - 1) w, n + length w))"

definition eng_model_caps_string :: "eng_model_caps option \<Rightarrow> nat \<Rightarrow> string" where
  "eng_model_caps_string oc cap =
     (case oc of None \<Rightarrow> ''''
      | Some c \<Rightarrow>
          let (buf, n) = foldl (\<lambda>(buf, n) (bt, name). if n + 1 < cap \<and> mc_flags c AND bt \<noteq> 0 then put_word cap name (buf, n) else (buf, n))
                ('''', 0) cap_names;
              (buf, n) = (if n + 1 < cap then put_word cap (if mc_num_policy c = ENG_NUM_EXACT then ''exact'' else ''fast'') (buf, n) else (buf, n))
          in if n = 0 then take (cap - 1) ''(none)'' else buf)"

section \<open>The built-in backends\<close>

text \<open>
  What a path leads to: the container \<open>gguf_open\<close> finds there, and the bytes of the configuration file
  (the path itself, or \<open>config.json\<close> in the directory).
\<close>

record host_path =
  hp_gguf :: "gguf option"
  hp_config :: "byte list option"

text \<open>A JSON value as far as the probe looks at it.\<close>

datatype jval = J_STR "byte list" | J_OBJ "(string \<times> jval) list" | J_OTHER

fun json_get :: "jval \<Rightarrow> string \<Rightarrow> jval option" where
  "json_get (J_OBJ kvs) k = map_of kvs k"
| "json_get _ k = None"

definition K3_MAX_CONFIG_BYTES :: int where "K3_MAX_CONFIG_BYTES = 16 * 2 ^ 20"

definition kimi_probe :: "(byte list \<Rightarrow> jval option) \<Rightarrow> byte list option \<Rightarrow> int" where
  "kimi_probe json_parse config =
     (case config of None \<Rightarrow> 0
      | Some bs \<Rightarrow>
          (case dropWhile (\<lambda>c. c = 32 \<or> c = 9 \<or> c = 10 \<or> c = 13) bs of
             [] \<Rightarrow> 0
           | c # _ \<Rightarrow>
               if c \<noteq> 123 then 0
               else if int (length bs) > K3_MAX_CONFIG_BYTES then 0
               else (case json_parse (cstr bs) of None \<Rightarrow> 0
                     | Some rt \<Rightarrow>
                         let r = (case json_get rt ''config'' of None \<Rightarrow> rt | Some n \<Rightarrow> n);
                             has_kda = json_get r ''kda_num_heads'' \<noteq> None \<or> json_get r ''linear_num_heads'' \<noteq> None;
                             has_mla = json_get r ''kv_lora_rank'' \<noteq> None;
                             has_moe = json_get r ''num_experts'' \<noteq> None;
                             score = (if has_kda \<and> has_mla then if has_moe then 95 else 85 else 0)
                         in case json_get r ''model_type'' of
                              Some (J_STR s) \<Rightarrow>
                                if list_ex (\<lambda>i. take 4 (drop i s) = ascii ''kimi'') [0..<length s] then 100 else score
                            | _ \<Rightarrow> score)))"

definition kimi_caps :: eng_model_caps where
  "kimi_caps = \<lparr>mc_flags = ENG_MCAP_MOE OR ENG_MCAP_RECURRENT OR ENG_MCAP_STREAMABLE OR ENG_MCAP_INCREMENTAL,
     mc_num_policy = ENG_NUM_EXACT\<rparr>"

definition qwen3_caps :: eng_model_caps where
  "qwen3_caps = \<lparr>mc_flags = ENG_MCAP_EXECUTE OR ENG_MCAP_POSITIONAL OR ENG_MCAP_STREAMABLE OR ENG_MCAP_INCREMENTAL,
     mc_num_policy = ENG_NUM_FAST\<rparr>"

definition eng_backend_kimi_k3 :: "(byte list \<Rightarrow> jval option) \<Rightarrow> host_path eng_model_backend" where
  "eng_backend_kimi_k3 json_parse = \<lparr>be_name = Some ''kimi-k3'', be_probe = Some (\<lambda>p. kimi_probe json_parse (hp_config p)), be_inspect = True,
     be_caps = Some kimi_caps, be_load = False, be_destroy = False, be_state_create = False, be_state_destroy = False,
     be_state_bytes = False, be_decode = False, be_logits = False\<rparr>"

definition eng_backend_qwen3 :: "host_path eng_model_backend" where
  "eng_backend_qwen3 = \<lparr>be_name = Some ''qwen3'', be_probe = Some (\<lambda>p. qwen3_probe (hp_gguf p)), be_inspect = True,
     be_caps = Some qwen3_caps, be_load = True, be_destroy = True, be_state_create = True, be_state_destroy = True,
     be_state_bytes = True, be_decode = True, be_logits = True\<rparr>"

end
