(* ===== verification/Registry_Props.thy ===== *)
theory Registry_Props
  imports Registry
begin

text \<open>
  Properties of the model registry: an invariant of every state its operations reach, the choice a
  probe makes, and the route of a Qwen3 container to its backend.
\<close>

section \<open>Reachable registries\<close>

inductive reg_step :: "'p eng_model_backend list \<Rightarrow> 'p registry \<Rightarrow> 'p registry \<Rightarrow> bool" for builtins where
  register: "reg_step builtins r (snd (eng_model_register builtins b r))"
| found: "reg_step builtins r (snd (eng_model_find builtins name r))"
| probed: "reg_step builtins r (snd (eng_model_probe builtins path r))"
| counted: "reg_step builtins r (snd (eng_model_count builtins r))"
| indexed: "reg_step builtins r (snd (eng_model_at builtins i r))"

inductive_cases reg_stepE: "reg_step builtins r r'"

definition reg_fresh_state :: "'p registry" where
  "reg_fresh_state = \<lparr>reg_list = [], reg_ready = False\<rparr>"

definition reg_reach :: "'p eng_model_backend list \<Rightarrow> 'p registry \<Rightarrow> bool" where
  "reg_reach builtins r \<longleftrightarrow> (reg_step builtins)\<^sup>*\<^sup>* reg_fresh_state r"

definition reg_ok :: "'p registry \<Rightarrow> bool" where
  "reg_ok r \<longleftrightarrow> distinct (map be_name (reg_list r)) \<and> length (reg_list r) \<le> ENG_MAX_BACKENDS \<and> list_all usable_backend (reg_list r)"

text \<open>Once the built-ins are in, they stay in front in their order.\<close>

definition built :: "'p eng_model_backend list \<Rightarrow> 'p eng_model_backend list" where
  "built builtins = reg_list (eng_model_register_builtins builtins reg_fresh_state)"

definition reg_inv :: "'p eng_model_backend list \<Rightarrow> 'p registry \<Rightarrow> bool" where
  "reg_inv builtins r \<longleftrightarrow> reg_ok r \<and> (if reg_ready r then \<exists>rest. reg_list r = built builtins @ rest else reg_list r = [])"

lemma reg_add_ok: "reg_ok r \<Longrightarrow> usable_backend b \<Longrightarrow> reg_ok (snd (reg_add b r))"
  by (auto simp: reg_ok_def reg_add_def ENG_MAX_BACKENDS_def list_ex_iff image_iff)

lemma reg_add_grows: "reg_ready (snd (reg_add b r)) = reg_ready r \<and> (\<exists>rest. reg_list (snd (reg_add b r)) = reg_list r @ rest)"
  by (auto simp: reg_add_def)

lemma builtins_fold:
  assumes "reg_ok r"
  shows "reg_ok (foldl (\<lambda>r b. if usable_backend b then snd (reg_add b r) else r) r bs) \<and>
    reg_ready (foldl (\<lambda>r b. if usable_backend b then snd (reg_add b r) else r) r bs) = reg_ready r"
  using assms
proof (induction bs arbitrary: r)
  case (Cons b bs)
  then show ?case using reg_add_ok [of r b] reg_add_grows [of b r] by (cases "usable_backend b") auto
qed simp

lemma builtins_inv:
  assumes "reg_inv builtins r"
  shows "reg_inv builtins (eng_model_register_builtins builtins r) \<and> reg_ready (eng_model_register_builtins builtins r)"
proof (cases "reg_ready r")
  case True
  then show ?thesis using assms by (simp add: eng_model_register_builtins_def)
next
  case False
  then have r: "r = reg_fresh_state" using assms by (simp add: reg_inv_def reg_fresh_state_def)
  have "reg_ok (reg_fresh_state\<lparr>reg_ready := True\<rparr> :: 'a registry)" by (simp add: reg_ok_def reg_fresh_state_def)
  from builtins_fold [OF this, of builtins] show ?thesis
    by (simp add: r reg_inv_def built_def eng_model_register_builtins_def reg_fresh_state_def)
qed

lemma register_inv:
  assumes "reg_inv builtins r"
  shows "reg_inv builtins (snd (eng_model_register builtins b r))"
proof (cases "usable_backend b")
  case True
  let ?r = "eng_model_register_builtins builtins r"
  have i: "reg_ok ?r" "reg_ready ?r" "\<exists>rest. reg_list ?r = built builtins @ rest" using builtins_inv [OF assms] by (auto simp: reg_inv_def)
  obtain rest rest' where "reg_list ?r = built builtins @ rest" "reg_list (snd (reg_add b ?r)) = reg_list ?r @ rest'"
    using i(3) reg_add_grows [of b ?r] by blast
  then show ?thesis using True reg_add_ok [OF i(1) True] reg_add_grows [of b ?r] i(2) by (simp add: eng_model_register_def reg_inv_def)
qed (use assms in \<open>simp add: eng_model_register_def\<close>)

lemma registry_inv: "reg_reach builtins r \<Longrightarrow> reg_inv builtins r"
  unfolding reg_reach_def
proof (induction rule: rtranclp_induct)
  case base
  show ?case by (simp add: reg_inv_def reg_ok_def reg_fresh_state_def)
next
  case (step r r')
  show ?case using step(2)
  proof (rule reg_stepE)
    fix b assume "r' = snd (eng_model_register builtins b r)"
    then show ?thesis using register_inv [OF step(3)] by simp
  qed (use builtins_inv [OF step(3)] in
      \<open>simp_all add: eng_model_find_def eng_model_probe_def eng_model_count_def eng_model_at_def Let_def split: prod.splits\<close>)
qed

text \<open>
  C38: in every state the registry reaches, by any sequence of registrations and lookups, the names are
  distinct, there are at most sixteen backends, each has the entry points it needs (all seven of the
  run path when it claims to execute), and once anything was looked up the built-in backends stand
  first, in their order: nothing registered later can shadow them.
\<close>

theorem registry_reachable_wellformed:
  assumes "reg_reach builtins r"
  shows "distinct (map be_name (reg_list r)) \<and> length (reg_list r) \<le> ENG_MAX_BACKENDS \<and> list_all usable_backend (reg_list r) \<and>
    (reg_list r \<noteq> [] \<longrightarrow> (\<exists>rest. reg_list r = reg_list (eng_model_register_builtins builtins reg_fresh_state) @ rest))"
  using registry_inv [OF assms] by (auto simp: reg_inv_def reg_ok_def built_def split: if_splits)

lemma builtin_pair:
  "eng_model_register_builtins [eng_backend_kimi_k3 jp, eng_backend_qwen3] reg_fresh_state =
     \<lparr>reg_list = [eng_backend_kimi_k3 jp, eng_backend_qwen3], reg_ready = True\<rparr>"
proof -
  have k: "usable_backend (eng_backend_kimi_k3 jp)"
    by (simp add: usable_backend_def eng_backend_kimi_k3_def kimi_caps_def ENG_MCAP_EXECUTE_def ENG_MCAP_MOE_def ENG_MCAP_RECURRENT_def
        ENG_MCAP_STREAMABLE_def ENG_MCAP_INCREMENTAL_def push_bit_eq_mult)
  have q: "usable_backend eng_backend_qwen3" by (simp add: usable_backend_def eng_backend_qwen3_def)
  show ?thesis
    by (simp add: eng_model_register_builtins_def reg_fresh_state_def k q reg_add_def ENG_MAX_BACKENDS_def)
      (simp add: eng_backend_kimi_k3_def eng_backend_qwen3_def)
qed

theorem registry_reachable_wellformed_witness:
  "let bs = [eng_backend_kimi_k3 (\<lambda>_. None), eng_backend_qwen3] in
   reg_reach bs (snd (eng_model_count bs reg_fresh_state)) \<and> length (reg_list (snd (eng_model_count bs reg_fresh_state))) \<le> ENG_MAX_BACKENDS"
proof -
  let ?bs = "[eng_backend_kimi_k3 (\<lambda>_. None), eng_backend_qwen3]"
  have "reg_step ?bs reg_fresh_state (snd (eng_model_count ?bs reg_fresh_state))" by (rule counted)
  then have r: "reg_reach ?bs (snd (eng_model_count ?bs reg_fresh_state))" by (simp add: reg_reach_def)
  from registry_reachable_wellformed [OF r] r show ?thesis by (simp add: Let_def)
qed

section \<open>Probing\<close>

definition best_of :: "'p \<Rightarrow> 'p eng_model_backend list \<Rightarrow> 'p eng_model_backend option \<Rightarrow> int \<Rightarrow> bool" where
  "best_of path L best sc \<longleftrightarrow>
     (case best of
        None \<Rightarrow> sc = 0 \<and> (\<forall>b \<in> set L. the (be_probe b) path \<le> 0)
      | Some b \<Rightarrow> (\<exists>i < length L. L ! i = b \<and> sc = the (be_probe b) path \<and> 0 < sc \<and>
          (\<forall>j < length L. the (be_probe (L ! j)) path \<le> sc) \<and> (\<forall>j < i. the (be_probe (L ! j)) path < sc)))"

lemma best_step:
  assumes "best_of path L best sc" "probe_step path (best, sc, ties) b = (best', sc', ties')"
  shows "best_of path (L @ [b]) best' sc'"
proof -
  let ?s = "the (be_probe b) path"
  have nth: "(L @ [b]) ! j = (if j = length L then b else L ! j)" if "j < Suc (length L)" for j using that by (simp add: nth_append)
  have sc: "0 \<le> sc" using assms(1) by (auto simp: best_of_def split: option.splits)
  consider "?s \<le> 0 \<or> ?s \<le> sc" "best' = best" "sc' = sc" | "0 < ?s" "sc < ?s" "best' = Some b" "sc' = ?s"
    using assms(2) sc by (auto simp: probe_step_def Let_def split: if_splits)
  then show ?thesis
  proof cases
    case 1
    show ?thesis
    proof (cases best)
      case None
      then show ?thesis using 1 assms(1) by (auto simp: best_of_def)
    next
      case (Some a)
      then obtain i where i: "i < length L" "L ! i = a" "sc = the (be_probe a) path" "0 < sc"
        "\<forall>j < length L. the (be_probe (L ! j)) path \<le> sc" "\<forall>j < i. the (be_probe (L ! j)) path < sc"
        using assms(1) by (auto simp: best_of_def)
      have "\<forall>j < length (L @ [b]). the (be_probe ((L @ [b]) ! j)) path \<le> sc" using i(4,5) 1(1) nth by (auto simp: less_Suc_eq)
      moreover have "(L @ [b]) ! i = a" "\<forall>j < i. the (be_probe ((L @ [b]) ! j)) path < sc" using i by (auto simp: nth_append)
      ultimately show ?thesis using i(1,3,4) 1 Some by (auto simp: best_of_def intro!: exI [of _ i])
    qed
  next
    case 2
    have lt: "the (be_probe (L ! j)) path < ?s" if "j < length L" for j
    proof -
      have "the (be_probe (L ! j)) path \<le> sc" using assms(1) that nth_mem [OF that] by (cases best) (auto simp: best_of_def)
      then show ?thesis using 2(2) by simp
    qed
    then have "\<forall>j < length (L @ [b]). the (be_probe ((L @ [b]) ! j)) path \<le> ?s" using nth by (auto simp: less_Suc_eq intro: order.strict_implies_order)
    moreover have "\<forall>j < length L. the (be_probe ((L @ [b]) ! j)) path < ?s" using lt by (simp add: nth_append)
    ultimately show ?thesis using 2 by (auto simp: best_of_def intro!: exI [of _ "length L"])
  qed
qed

lemma probe_fold:
  assumes "best_of path L best sc" "foldl (probe_step path) (best, sc, ties) bs = (best', sc', ties')"
  shows "best_of path (L @ bs) best' sc'"
  using assms
proof (induction bs arbitrary: L best sc ties)
  case (Cons b bs)
  obtain b1 s1 t1 where st: "probe_step path (best, sc, ties) b = (b1, s1, t1)" using prod_cases3 by blast
  from Cons.IH [OF best_step [OF Cons.prems(1) st]] Cons.prems(2) st show ?case by simp
qed simp

text \<open>
  C17: probing picks the best claim.  The backend returned has the highest score, which is positive, and
  of several with that score it is the one registered first; nothing is returned exactly when no
  registered backend claims the container, and then the score is 0.
\<close>

theorem probe_picks_first_best:
  assumes "eng_model_probe builtins path r = ((best, sc), r')"
  shows "best_of path (reg_list r') best sc \<and> r' = eng_model_register_builtins builtins r"
proof -
  obtain t where t: "foldl (probe_step path) (None, 0, 0) (reg_list (eng_model_register_builtins builtins r)) = (best, sc, t)"
    and r': "r' = eng_model_register_builtins builtins r"
    using assms by (auto simp: eng_model_probe_def Let_def split: prod.splits)
  have "best_of path [] None 0" by (simp add: best_of_def)
  from probe_fold [OF this t] r' show ?thesis by simp
qed

theorem probe_picks_first_best_witness:
  "let bs = [eng_backend_kimi_k3 (\<lambda>_. None), eng_backend_qwen3]; p = \<lparr>hp_gguf = None, hp_config = None\<rparr> in
   eng_model_probe bs p reg_fresh_state = ((None, 0), eng_model_register_builtins bs reg_fresh_state) \<and> best_of p bs None 0"
proof -
  let ?bs = "[eng_backend_kimi_k3 (\<lambda>_. None), eng_backend_qwen3]" and ?p = "\<lparr>hp_gguf = None, hp_config = None\<rparr>"
  have "eng_model_probe ?bs ?p reg_fresh_state = ((None, 0), eng_model_register_builtins ?bs reg_fresh_state)"
    by (simp add: eng_model_probe_def builtin_pair probe_step_def)
      (simp add: eng_backend_kimi_k3_def eng_backend_qwen3_def kimi_probe_def qwen3_probe_def)
  from probe_picks_first_best [OF this] this show ?thesis by (simp add: builtin_pair)
qed

text \<open>
  A GGUF file of the Qwen3 architecture is run by the Qwen3 backend.  Whatever the JSON parser
  makes of its bytes, the Kimi backend does not claim a file that begins with the magic of the format,
  so a probe of the built-in registry answers with the Qwen3 backend at score 100, and that backend
  can execute.
\<close>

theorem qwen3_container_reaches_its_backend:
  assumes "hp_gguf p = Some g" "gguf_str g (ascii ''general.architecture'') = Some (ascii ''qwen3'')"
    and "hp_config p = Some (71 # cs)"
  shows "fst (eng_model_probe [eng_backend_kimi_k3 jp, eng_backend_qwen3] p reg_fresh_state) = (Some eng_backend_qwen3, 100) \<and>
    mc_flags (the (be_caps eng_backend_qwen3)) AND ENG_MCAP_EXECUTE \<noteq> 0"
proof -
  have k: "the (be_probe (eng_backend_kimi_k3 jp)) p = 0" using assms(3) by (simp add: eng_backend_kimi_k3_def kimi_probe_def)
  have q: "the (be_probe eng_backend_qwen3) p = 100" using assms(1,2) by (simp add: eng_backend_qwen3_def qwen3_probe_def)
  have "mc_flags (the (be_caps eng_backend_qwen3)) AND ENG_MCAP_EXECUTE \<noteq> 0"
    by (simp add: eng_backend_qwen3_def qwen3_caps_def ENG_MCAP_EXECUTE_def ENG_MCAP_POSITIONAL_def ENG_MCAP_STREAMABLE_def
        ENG_MCAP_INCREMENTAL_def push_bit_eq_mult)
  then show ?thesis by (simp add: eng_model_probe_def builtin_pair probe_step_def k q)
qed

theorem qwen3_container_reaches_its_backend_witness:
  "let g = \<lparr>gg_version = 3, gg_blob = [], gg_strcap = 0, gg_strused = 0,
       gg_kv = [\<lparr>k_key = ascii ''general.architecture'', k_type = GGUF_T_STRING, k_i = 0, k_f = FNone, k_str = Some (ascii ''qwen3''),
         k_arr_type = GGUF_T_UINT8, k_arr_len = 0, k_arr_data = []\<rparr>],
       gg_t = [], gg_alignment = 32, gg_data_start = 0, gg_data_bytes = 0, gg_file_size = 0\<rparr> in
   fst (eng_model_probe [eng_backend_kimi_k3 (\<lambda>_. None), eng_backend_qwen3] \<lparr>hp_gguf = Some g, hp_config = Some [71, 71, 85, 70]\<rparr> reg_fresh_state)
     = (Some eng_backend_qwen3, 100)"
proof -
  define g where "g = \<lparr>gg_version = 3, gg_blob = [], gg_strcap = 0, gg_strused = 0,
       gg_kv = [\<lparr>k_key = ascii ''general.architecture'', k_type = GGUF_T_STRING, k_i = 0, k_f = FNone, k_str = Some (ascii ''qwen3''),
         k_arr_type = GGUF_T_UINT8, k_arr_len = 0, k_arr_data = []\<rparr>],
       gg_t = [], gg_alignment = 32, gg_data_start = 0, gg_data_bytes = 0, gg_file_size = 0\<rparr>"
  have "gguf_str g (ascii ''general.architecture'') = Some (ascii ''qwen3'')"
    by (simp add: gguf_str_def gguf_find_def kv_find_def g_def)
  from qwen3_container_reaches_its_backend [of "\<lparr>hp_gguf = Some g, hp_config = Some [71, 71, 85, 70]\<rparr>", OF _ this]
  show ?thesis by (simp add: g_def)
qed

end
