(* ===== verification/K3_Ops.thy ===== *)
theory K3_Ops
  imports Quant_Mx
begin

text \<open>
  The numeric core of the K3 engine, \<^verbatim>\<open>src/core/k3_ops.c\<close> with the types of \<^verbatim>\<open>include/k3/k3.h\<close>.

  A vector is a list, a sequence of \<open>T\<close> vectors is a list of lists, and the regions of a scratch buffer,
  which the source keeps disjoint, are local values.  A weight matrix carries the tag that the source
  keeps beside the pointer (\<open>wdt\<close>).  Loops over output rows, heads, channels and experts that OpenMP may
  split are maps.  \<open>'f libm\<close> adds to the floating-point unit what only this file uses.  A call that aborts
  the process is \<open>None\<close>; allocation succeeds.
\<close>

section \<open>Configuration and weights\<close>

record 'f libm =
  lm_tanh :: "'f \<Rightarrow> 'f"
  lm_ninf :: 'f
  lm_is_zero :: "'f \<Rightarrow> bool"
  lm_tiny :: 'f                    \<comment> \<open>\<open>1e-6f\<close>\<close>

record 'f k3_cfg =
  kc_hidden :: nat
  kc_n_layers :: nat
  kc_vocab :: nat
  kc_rms_eps :: 'f
  kc_kda_heads :: nat
  kc_kda_head_dim :: nat
  kc_conv_k :: nat
  kc_gate_lb :: 'f
  kc_n_heads :: nat
  kc_q_lora :: nat
  kc_kv_lora :: nat
  kc_qk_nope :: nat
  kc_qk_rope :: nat
  kc_v_head :: nat
  kc_mla_out_gate :: bool
  kc_n_experts :: nat
  kc_topk :: nat
  kc_n_shared :: nat
  kc_latent :: nat
  kc_moe_inter :: nat
  kc_routed_scale :: 'f
  kc_moe_renorm :: bool
  kc_latent_norm :: bool
  kc_first_dense :: nat
  kc_dense_inter :: nat
  kc_attn_res_block :: nat
  kc_situ_b1 :: 'f
  kc_situ_b2 :: 'f
  kc_full_attn :: "nat list"

datatype 'f k3_mat = K3_WF32 "'f list" | K3_WBF16 "16 word list" | K3_WI8 "byte list"

record 'f k3_mla_w =
  mw_q_a :: "'f k3_mat"
  mw_q_b :: "'f k3_mat"
  mw_kv_a :: "'f k3_mat"
  mw_kv_b :: "'f k3_mat"
  mw_o :: "'f k3_mat"
  mw_g :: "'f k3_mat option"
  mw_q_a_norm :: "'f list"
  mw_kv_a_norm :: "'f list"

record 'f k3_kda_w =
  kw_q :: "'f k3_mat"
  kw_k :: "'f k3_mat"
  kw_v :: "'f k3_mat"
  kw_q_conv :: "'f list"
  kw_k_conv :: "'f list"
  kw_v_conv :: "'f list"
  kw_f_a :: "'f k3_mat"
  kw_f_b :: "'f k3_mat"
  kw_A_log :: "'f list"
  kw_dt_bias :: "'f list"
  kw_b :: "'f k3_mat"
  kw_g :: "'f k3_mat"
  kw_o_norm :: "'f list"
  kw_o :: "'f k3_mat"

definition k3_is_mla :: "'f k3_cfg \<Rightarrow> nat \<Rightarrow> bool" where
  "k3_is_mla c layer \<longleftrightarrow> list_ex (\<lambda>l. l = layer + 1) (kc_full_attn c)"

definition k3_is_kda :: "'f k3_cfg \<Rightarrow> nat \<Rightarrow> bool" where
  "k3_is_kda c layer \<longleftrightarrow> \<not> k3_is_mla c layer"

definition k3_is_dense :: "'f k3_cfg \<Rightarrow> nat \<Rightarrow> bool" where
  "k3_is_dense c layer \<longleftrightarrow> layer < kc_first_dense c"

section \<open>Elementwise operations\<close>

definition sum_sq :: "('f, 'd) fpu \<Rightarrow> 'f list \<Rightarrow> nat \<Rightarrow> 'd" where
  "sum_sq fp x n = foldl (\<lambda>ss i. d_add fp ss (d_mul fp (d_of_f fp (x ! i)) (d_of_f fp (x ! i)))) (d_of_int fp 0) [0..<n]"

definition rms_inv :: "('f, 'd) fpu \<Rightarrow> 'f list \<Rightarrow> nat \<Rightarrow> 'f \<Rightarrow> 'f" where
  "rms_inv fp x n eps = f_of_d fp (d_div fp (d_of_int fp 1)
     (d_sqrt fp (d_add fp (d_div fp (sum_sq fp x n) (d_of_int fp (int n))) (d_of_f fp eps))))"

definition k3_rmsnorm :: "('f, 'd) fpu \<Rightarrow> 'f list \<Rightarrow> 'f list \<Rightarrow> nat \<Rightarrow> 'f \<Rightarrow> 'f list" where
  "k3_rmsnorm fp x w n eps = (let inv = rms_inv fp x n eps in map (\<lambda>i. f_mul fp (f_mul fp (w ! i) (x ! i)) inv) [0..<n])"

definition sigmoidf :: "('f, 'd) fpu \<Rightarrow> 'f \<Rightarrow> 'f" where
  "sigmoidf fp x = f_div fp (f_of_int fp 1) (f_add fp (f_of_int fp 1) (f_exp fp (f_neg fp x)))"

text \<open>The input is \<open>n\<close> gate values followed by \<open>n\<close> up values.\<close>

definition k3_situ_glu :: "('f, 'd) fpu \<Rightarrow> 'f libm \<Rightarrow> 'f list \<Rightarrow> nat \<Rightarrow> 'f \<Rightarrow> 'f \<Rightarrow> 'f list" where
  "k3_situ_glu fp lm x n b1 b2 =
     map (\<lambda>i. let g = x ! i;
                  a = f_mul fp (f_mul fp b1 (lm_tanh lm (f_div fp g b1))) (sigmoidf fp g);
                  u = f_mul fp b2 (lm_tanh lm (f_div fp (x ! (n + i)) b2))
              in f_mul fp a u) [0..<n]"

text \<open>\<open>for (i = 0; i < n; i++) acc[i] += a * v[i]\<close>\<close>

definition axpy :: "('f, 'd) fpu \<Rightarrow> nat \<Rightarrow> 'f \<Rightarrow> 'f list \<Rightarrow> 'f list \<Rightarrow> 'f list" where
  "axpy fp n a v acc = map (\<lambda>i. f_add fp (acc ! i) (f_mul fp a (v ! i))) [0..<n]"

section \<open>Short convolution\<close>

text \<open>One input of one channel: \<open>buf\<close> holds the previous inputs, oldest first; \<open>w\<close> are the \<open>k\<close> taps.\<close>

definition conv_step :: "('f, 'd) fpu \<Rightarrow> 'f list \<Rightarrow> nat \<Rightarrow> 'f list \<Rightarrow> 'f \<Rightarrow> 'f \<times> 'f list" where
  "conv_step fp w hist buf cur =
     (let acc = foldl (\<lambda>acc j. f_add fp acc (f_mul fp (w ! j) (buf ! j))) (f_mul fp (w ! hist) cur) [0..<hist];
          buf = (if hist > 0 then tl buf @ [cur] else buf)
      in (f_mul fp acc (sigmoidf fp acc), buf))"

fun conv_chan :: "('f, 'd) fpu \<Rightarrow> 'f list \<Rightarrow> nat \<Rightarrow> 'f list \<Rightarrow> 'f list \<Rightarrow> 'f list \<times> 'f list" where
  "conv_chan fp w hist buf [] = ([], buf)"
| "conv_chan fp w hist buf (x # xs) =
     (let (y, buf) = conv_step fp w hist buf x; (ys, buf) = conv_chan fp w hist buf xs in (y # ys, buf))"

text \<open>The state has one history per channel.\<close>

definition k3_shortconv :: "('f, 'd) fpu \<Rightarrow> 'f list list \<Rightarrow> 'f list \<Rightarrow> 'f list list option \<Rightarrow> nat \<Rightarrow> nat \<Rightarrow> 'f list list \<times> 'f list list option" where
  "k3_shortconv fp x w state channels k =
     (let hist = k - 1;
          run = (\<lambda>ch. conv_chan fp (drop (ch * k) w) hist
                   (case state of Some st \<Rightarrow> st ! ch | None \<Rightarrow> replicate hist (f_of_int fp 0)) (map (\<lambda>xt. xt ! ch) x))
      in (map (\<lambda>t. map (\<lambda>ch. fst (run ch) ! t) [0..<channels]) [0..<length x],
          map_option (\<lambda>st. map (\<lambda>ch. snd (run ch)) [0..<channels]) state))"

section \<open>Delta attention\<close>

definition k3_kda_decay :: "('f, 'd) fpu \<Rightarrow> 'f list \<Rightarrow> 'f list \<Rightarrow> 'f list \<Rightarrow> nat \<Rightarrow> nat \<Rightarrow> 'f \<Rightarrow> 'f list" where
  "k3_kda_decay fp z A_log dt_bias H D lb =
     map (\<lambda>i. let a = f_exp fp (A_log ! (i div D));
                  u = f_mul fp a (f_add fp (z ! i) (dt_bias ! i))
              in f_exp fp (f_mul fp lb (sigmoidf fp u))) [0..<H * D]"

text \<open>The state of a head is a list of \<open>dk\<close> rows; a channel whose key or query is zero is skipped.\<close>

definition k3_kda_step ::
  "('f, 'd) fpu \<Rightarrow> 'f libm \<Rightarrow> 'f list list \<Rightarrow> 'f list \<Rightarrow> 'f list \<Rightarrow> 'f list \<Rightarrow> 'f list \<Rightarrow> 'f \<Rightarrow> nat \<Rightarrow> nat \<Rightarrow> 'f list \<times> 'f list list" where
  "k3_kda_step fp lm S q k v alpha beta dk dv =
     (let zero = replicate dv (f_of_int fp 0);
          S = map (\<lambda>i. map (\<lambda>j. f_mul fp (S ! i ! j) (alpha ! i)) [0..<dv]) [0..<dk];
          u = foldl (\<lambda>u i. if lm_is_zero lm (k ! i) then u else axpy fp dv (k ! i) (S ! i) u) zero [0..<dk];
          S = map (\<lambda>i. if lm_is_zero lm (k ! i) then S ! i
                       else map (\<lambda>j. f_add fp (S ! i ! j) (f_mul fp (f_mul fp (k ! i) beta) (f_sub fp (v ! j) (u ! j)))) [0..<dv]) [0..<dk];
          o' = foldl (\<lambda>o' i. if lm_is_zero lm (q ! i) then o' else axpy fp dv (q ! i) (S ! i) o') zero [0..<dk]
      in (o', S))"

section \<open>Matrix products\<close>

definition k3_matmul :: "('f, 'd) fpu \<Rightarrow> 'f list \<Rightarrow> 'f list \<Rightarrow> nat \<Rightarrow> nat \<Rightarrow> 'f list" where
  "k3_matmul fp x W nin nout =
     map (\<lambda>p. let row = drop (p * nin) W in f_of_d fp (dot_exact_loop fp (\<lambda>i. d_of_f fp (row ! i)) (\<lambda>i. d_of_f fp (x ! i)) nin)) [0..<nout]"

definition k3_bf16f :: "('f, 'd) fpu \<Rightarrow> 16 word \<Rightarrow> 'f" where
  "k3_bf16f fp h = f_bits fp (push_bit 16 (ucast h))"

text \<open>\<open>avx2\<close>: the translation unit was compiled with AVX2.\<close>

definition k3_matmul_bf16 :: "('f, 'd) fpu \<Rightarrow> bool \<Rightarrow> 'f list \<Rightarrow> 16 word list \<Rightarrow> nat \<Rightarrow> nat \<Rightarrow> 'f list" where
  "k3_matmul_bf16 fp avx2 x W nin nout =
     map (\<lambda>p. let row = drop (p * nin) W in
       if avx2
       then let z = mm256_setzero_pd fp;
                ld = (\<lambda>i. mm256_cvtps_pd fp (loadu 4 x i));
                wd = (\<lambda>i. mm256_cvtps_pd fp (map (f_bits fp) (mm_slli_epi32 (mm_cvtepu16_epi32 (loadu 4 row i)) 16)));
                (v, i) = stride_loop 16 nin (\<lambda>i (v0, v1, v2, v3).
                   (mm256_fmadd_pd fp (wd i) (ld i) v0, mm256_fmadd_pd fp (wd (i + 4)) (ld (i + 4)) v1,
                    mm256_fmadd_pd fp (wd (i + 8)) (ld (i + 8)) v2, mm256_fmadd_pd fp (wd (i + 12)) (ld (i + 12)) v3)) 0 (z, z, z, z)
            in f_of_d fp (foldl (\<lambda>s i. d_fma fp (d_of_f fp (k3_bf16f fp (row ! i))) (d_of_f fp (x ! i)) s) (fold_quad fp v) [i..<nin])
       else f_of_d fp (dot_exact_loop fp (\<lambda>i. d_of_f fp (k3_bf16f fp (row ! i))) (\<lambda>i. d_of_f fp (x ! i)) nin)) [0..<nout]"

text \<open>A row of the draft format: a float scale and \<open>nin\<close> signed bytes.\<close>

definition q8_row_dot :: "('f, 'd) fpu \<Rightarrow> bool \<Rightarrow> 'f list \<Rightarrow> byte list \<Rightarrow> nat \<Rightarrow> 'f" where
  "q8_row_dot fp avx2 x w nin =
     (let wf = (\<lambda>i. f_of_int fp (sint (w ! i)));
          (acc, i) =
            (if avx2
             then let z = mm256_setzero_ps fp; ld = (\<lambda>i. map (\<lambda>b. f_of_int fp (sint b)) (loadu 8 w i));
                      ((v0, v1), i) = stride_loop 16 nin (\<lambda>i (v0, v1).
                         (mm256_fmadd_ps fp (ld i) (loadu 8 x i) v0, mm256_fmadd_ps fp (ld (i + 8)) (loadu 8 x (i + 8)) v1)) 0 (z, z)
                  in (fold_ps fp v0 v1, i)
             else let (a, i) = stride_loop 4 nin (\<lambda>i. lanes 4 (\<lambda>l s. f_add fp s (f_mul fp (wf (i + l)) (x ! (i + l))))) 0 (replicate 4 (f_of_int fp 0))
                  in (f_add fp (f_add fp (a ! 0) (a ! 1)) (f_add fp (a ! 2) (a ! 3)), i))
      in foldl (\<lambda>acc i. f_add fp acc (f_mul fp (wf i) (x ! i))) acc [i..<nin])"

definition f32_le :: "('f, 'd) fpu \<Rightarrow> byte list \<Rightarrow> 'f" where
  "f32_le fp b = f_bits fp (ucast (b ! 0) OR push_bit 8 (ucast (b ! 1)) OR push_bit 16 (ucast (b ! 2)) OR push_bit 24 (ucast (b ! 3)))"

definition k3_matmul_q8 :: "('f, 'd) fpu \<Rightarrow> bool \<Rightarrow> 'f list \<Rightarrow> byte list \<Rightarrow> nat \<Rightarrow> nat \<Rightarrow> 'f list" where
  "k3_matmul_q8 fp avx2 x W nin nout =
     map (\<lambda>p. let row = drop (p * (4 + nin)) W in f_mul fp (q8_row_dot fp avx2 x (drop 4 row) nin) (f32_le fp row)) [0..<nout]"

fun k3_mmw :: "('f, 'd) fpu \<Rightarrow> bool \<Rightarrow> 'f list \<Rightarrow> 'f k3_mat \<Rightarrow> nat \<Rightarrow> nat \<Rightarrow> 'f list" where
  "k3_mmw fp avx2 x (K3_WBF16 W) nin nout = k3_matmul_bf16 fp avx2 x W nin nout"
| "k3_mmw fp avx2 x (K3_WI8 W) nin nout = k3_matmul_q8 fp avx2 x W nin nout"
| "k3_mmw fp avx2 x (K3_WF32 W) nin nout = k3_matmul fp x W nin nout"

definition K3_MXFP4_GROUP :: nat where
  "K3_MXFP4_GROUP = 32"

definition k3_matmul_mxfp4 :: "('f, 'd) fpu \<Rightarrow> cpu \<Rightarrow> 'f list \<Rightarrow> byte list \<Rightarrow> byte list \<Rightarrow> nat \<Rightarrow> nat \<Rightarrow> nat \<Rightarrow> 'f list" where
  "k3_matmul_mxfp4 fp cpu x packed scales nin rows grp =
     (let pcols = nin div 2; ngrp = (nin + grp - 1) div grp in
      map (\<lambda>r. f_of_d fp (eng_mxfp4_dot_row_g fp cpu (drop (r * pcols) packed) (drop (r * ngrp) scales) x nin grp)) [0..<rows])"

definition k3_mxfp4_dequant :: "('f, 'd) fpu \<Rightarrow> byte list \<Rightarrow> byte list \<Rightarrow> nat \<Rightarrow> nat \<Rightarrow> nat \<Rightarrow> 'f list" where
  "k3_mxfp4_dequant fp packed scales rows pcols grp =
     (let width = pcols * 2; ngrp = (width + grp - 1) div grp in
      concat (map (\<lambda>r. eng_mxfp4_dequant_row_g fp (drop (r * pcols) packed) (drop (r * ngrp) scales) width grp) [0..<rows]))"

section \<open>Gated MLA\<close>

text \<open>The projections of one token: queries, expanded keys and values, shared rope slot.\<close>

definition mla_project :: "('f, 'd) fpu \<Rightarrow> bool \<Rightarrow> 'f k3_cfg \<Rightarrow> 'f k3_mla_w \<Rightarrow> 'f list \<Rightarrow> 'f list \<times> 'f list \<times> 'f list" where
  "mla_project fp avx2 c w xt =
     (let E = kc_hidden c; H = kc_n_heads c; qn = kc_qk_nope c; qr = kc_qk_rope c; vh = kc_v_head c;
          qh = qn + qr; kvw = kc_kv_lora c + qr; kvd = qn + vh;
          ql = k3_mmw fp avx2 xt (mw_q_a w) E (kc_q_lora c);
          ql = k3_rmsnorm fp ql (mw_q_a_norm w) (kc_q_lora c) (kc_rms_eps c);
          q = k3_mmw fp avx2 ql (mw_q_b w) (kc_q_lora c) (H * qh);
          ct = k3_mmw fp avx2 xt (mw_kv_a w) E kvw;
          ct = k3_rmsnorm fp ct (mw_kv_a_norm w) (kc_kv_lora c) (kc_rms_eps c) @ drop (kc_kv_lora c) ct;
          kv = k3_mmw fp avx2 ct (mw_kv_b w) (kc_kv_lora c) (H * kvd)
      in (q, kv, take qr (drop (kc_kv_lora c) ct)))"

definition mla_score :: "('f, 'd) fpu \<Rightarrow> 'f k3_cfg \<Rightarrow> 'f list \<Rightarrow> nat \<Rightarrow> 'f list \<Rightarrow> 'f list \<Rightarrow> 'f" where
  "mla_score fp c q h kv rope =
     (let qn = kc_qk_nope c; qr = kc_qk_rope c; qh = qn + qr; kvd = qn + kc_v_head c;
          qt = drop (h * qh) q; ks = drop (h * kvd) kv;
          scale = f_div fp (f_of_int fp 1) (f_sqrt fp (f_of_int fp (int qh)));
          d = foldl (\<lambda>d i. d_add fp d (d_mul fp (d_of_f fp (qt ! i)) (d_of_f fp (ks ! i)))) (d_of_int fp 0) [0..<qn];
          d = foldl (\<lambda>d i. d_add fp d (d_mul fp (d_of_f fp (qt ! (qn + i))) (d_of_f fp (rope ! i)))) d [0..<qr]
      in f_mul fp (f_of_d fp d) scale)"

definition mla_head :: "('f, 'd) fpu \<Rightarrow> 'f libm \<Rightarrow> 'f k3_cfg \<Rightarrow> 'f list \<Rightarrow> 'f list list \<Rightarrow> 'f list list \<Rightarrow> nat \<Rightarrow> nat \<Rightarrow> 'f list" where
  "mla_head fp lm c q kv rope p h =
     (let vh = kc_v_head c; kvd = kc_qk_nope c + vh;
          sc = map (\<lambda>s. mla_score fp c q h (kv ! s) (rope ! s)) [0..<p + 1];
          m = foldl (\<lambda>m s. if f_gt fp (sc ! s) m then sc ! s else m) (lm_ninf lm) [0..<p + 1];
          ex = map (\<lambda>s. f_exp fp (f_sub fp (sc ! s) m)) [0..<p + 1];
          z = foldl (\<lambda>z s. d_add fp z (d_of_f fp (ex ! s))) (d_of_int fp 0) [0..<p + 1]
      in foldl (\<lambda>o' s. axpy fp vh (f_of_d fp (d_div fp (d_of_f fp (ex ! s)) z)) (drop (h * kvd + kc_qk_nope c) (kv ! s)) o')
           (replicate vh (f_of_int fp 0)) [0..<p + 1])"

definition mla_attend ::
  "('f, 'd) fpu \<Rightarrow> 'f libm \<Rightarrow> bool \<Rightarrow> 'f k3_cfg \<Rightarrow> 'f k3_mla_w \<Rightarrow> 'f list \<Rightarrow> 'f list \<Rightarrow> 'f list list \<Rightarrow> 'f list list \<Rightarrow> nat \<Rightarrow> 'f list" where
  "mla_attend fp lm avx2 c w xt q kv rope p =
     (let E = kc_hidden c; H = kc_n_heads c; vh = kc_v_head c;
          acc = concat (map (mla_head fp lm c q kv rope p) [0..<H]);
          acc = (case mw_g w of None \<Rightarrow> acc
                 | Some g \<Rightarrow> let gb = k3_mmw fp avx2 xt g E (H * vh) in map (\<lambda>i. f_mul fp (acc ! i) (sigmoidf fp (gb ! i))) [0..<H * vh])
      in k3_mmw fp avx2 acc (mw_o w) (H * vh) E)"

text \<open>
  The cache is the pair of arrays \<open>kvc\<close> and \<open>ropec\<close>, one entry per position; without one the keys and
  values of the call live in scratch.  The result is the output and the arrays afterwards.
\<close>

definition k3_mla_cached ::
  "('f, 'd) fpu \<Rightarrow> 'f libm \<Rightarrow> bool \<Rightarrow> 'f k3_cfg \<Rightarrow> 'f k3_mla_w \<Rightarrow> 'f list list \<Rightarrow> ('f list list \<times> 'f list list) option \<Rightarrow> nat \<Rightarrow> nat \<Rightarrow>
   ('f list list \<times> 'f list list \<times> 'f list list) option" where
  "k3_mla_cached fp lm avx2 c w x kvc cached cap =
     (let T = length x;
          cached = (if kvc = None then 0 else cached)
      in if kvc \<noteq> None \<and> cached + T > cap then None
         else let (kv, rope) = (case kvc of None \<Rightarrow> (replicate T [], replicate T []) | Some a \<Rightarrow> a);
                  pr = map (mla_project fp avx2 c w) x;
                  kv = foldl (\<lambda>kv t. kv[cached + t := fst (snd (pr ! t))]) kv [0..<T];
                  rope = foldl (\<lambda>rope t. rope[cached + t := snd (snd (pr ! t))]) rope [0..<T]
              in Some (map (\<lambda>t. mla_attend fp lm avx2 c w (x ! t) (fst (pr ! t)) kv rope (cached + t)) [0..<T], kv, rope))"

definition k3_mla :: "('f, 'd) fpu \<Rightarrow> 'f libm \<Rightarrow> bool \<Rightarrow> 'f k3_cfg \<Rightarrow> 'f k3_mla_w \<Rightarrow> 'f list list \<Rightarrow> 'f list list option" where
  "k3_mla fp lm avx2 c w x = map_option fst (k3_mla_cached fp lm avx2 c w x None 0 0)"

section \<open>The KDA layer\<close>

definition l2norm :: "('f, 'd) fpu \<Rightarrow> 'f list \<Rightarrow> nat \<Rightarrow> 'f \<Rightarrow> 'f list" where
  "l2norm fp v n eps =
     (let inv = f_of_d fp (d_div fp (d_of_int fp 1) (d_sqrt fp (d_add fp (sum_sq fp v n) (d_of_f fp eps))))
      in map (\<lambda>i. f_mul fp (v ! i) inv) [0..<n])"

text \<open>The \<open>H\<close> slices of \<open>D\<close> entries of a row, each through \<open>g\<close>.\<close>

definition each_slice :: "nat \<Rightarrow> nat \<Rightarrow> ('f list \<Rightarrow> 'f list) \<Rightarrow> 'f list \<Rightarrow> 'f list" where
  "each_slice H D g v = concat (map (\<lambda>h. g (take D (drop (h * D) v))) [0..<H])"

record 'f kda_state =
  ks_S :: "'f list list list"          \<comment> \<open>per head\<close>
  ks_q :: "'f list list"
  ks_k :: "'f list list"
  ks_v :: "'f list list"

text \<open>What one token gives to the recurrence: scaled queries, keys, values, decays and betas.\<close>

type_synonym 'f kda_in = "'f list \<times> 'f list \<times> 'f list \<times> 'f list \<times> 'f list"

definition kda_head_step :: "('f, 'd) fpu \<Rightarrow> 'f libm \<Rightarrow> nat \<Rightarrow> nat \<Rightarrow> 'f kda_in \<Rightarrow> 'f list list \<Rightarrow> 'f list \<times> 'f list list" where
  "kda_head_step fp lm D h xin S =
     (let (q, k, v, al, bt) = xin;
          qscale = f_div fp (f_of_int fp 1) (f_sqrt fp (f_of_int fp (int D)));
          wh = map (\<lambda>i. f_mul fp (q ! (h * D + i)) qscale) [0..<D]
      in k3_kda_step fp lm S wh (drop (h * D) k) (drop (h * D) v) (drop (h * D) al) (bt ! h) D D)"

fun kda_head :: "('f, 'd) fpu \<Rightarrow> 'f libm \<Rightarrow> nat \<Rightarrow> nat \<Rightarrow> 'f list list \<Rightarrow> 'f kda_in list \<Rightarrow> 'f list list \<times> 'f list list" where
  "kda_head fp lm D h S [] = ([], S)"
| "kda_head fp lm D h S (x # xs) =
     (let (y, S) = kda_head_step fp lm D h x S; (ys, S) = kda_head fp lm D h S xs in (y # ys, S))"

definition kda_out :: "('f, 'd) fpu \<Rightarrow> bool \<Rightarrow> 'f k3_cfg \<Rightarrow> 'f k3_kda_w \<Rightarrow> 'f list \<Rightarrow> 'f list \<Rightarrow> 'f list" where
  "kda_out fp avx2 c w xt ot =
     (let E = kc_hidden c; H = kc_kda_heads c; D = kc_kda_head_dim c; P = H * D;
          ot = each_slice H D (\<lambda>s. k3_rmsnorm fp s (kw_o_norm w) D (kc_rms_eps c)) ot;
          gb = k3_mmw fp avx2 xt (kw_g w) E P;
          ot = map (\<lambda>i. f_mul fp (ot ! i) (sigmoidf fp (gb ! i))) [0..<P]
      in k3_mmw fp avx2 ot (kw_o w) P E)"

definition k3_kda_layer ::
  "('f, 'd) fpu \<Rightarrow> 'f libm \<Rightarrow> bool \<Rightarrow> 'f k3_cfg \<Rightarrow> 'f k3_kda_w \<Rightarrow> 'f list list \<Rightarrow> 'f kda_state option \<Rightarrow> 'f list list \<times> 'f kda_state option" where
  "k3_kda_layer fp lm avx2 c w x state =
     (let E = kc_hidden c; H = kc_kda_heads c; D = kc_kda_head_dim c; P = H * D; K = kc_conv_k c;
          (q, cq) = k3_shortconv fp (map (\<lambda>xt. k3_mmw fp avx2 xt (kw_q w) E P) x) (kw_q_conv w) (map_option ks_q state) P K;
          (k, ck) = k3_shortconv fp (map (\<lambda>xt. k3_mmw fp avx2 xt (kw_k w) E P) x) (kw_k_conv w) (map_option ks_k state) P K;
          (v, cv) = k3_shortconv fp (map (\<lambda>xt. k3_mmw fp avx2 xt (kw_v w) E P) x) (kw_v_conv w) (map_option ks_v state) P K;
          nrm = each_slice H D (\<lambda>s. l2norm fp s D (lm_tiny lm));
          bt = map (\<lambda>xt. map (\<lambda>b. sigmoidf fp b) (k3_mmw fp avx2 xt (kw_b w) E H)) x;
          z = map (\<lambda>xt. k3_mmw fp avx2 (k3_mmw fp avx2 xt (kw_f_a w) E D) (kw_f_b w) D P) x;
          al = map (\<lambda>zt. k3_kda_decay fp zt (kw_A_log w) (kw_dt_bias w) H D (kc_gate_lb c)) z;
          ins = map (\<lambda>t. (nrm (q ! t), nrm (k ! t), v ! t, al ! t, bt ! t)) [0..<length x];
          S = (case state of Some st \<Rightarrow> ks_S st | None \<Rightarrow> replicate H (replicate D (replicate D (f_of_int fp 0))));
          run = map (\<lambda>h. kda_head fp lm D h (S ! h) ins) [0..<H];
          outs = map (\<lambda>t. concat (map (\<lambda>r. fst r ! t) run)) [0..<length x]
      in (map (\<lambda>t. kda_out fp avx2 c w (x ! t) (outs ! t)) [0..<length x],
          map_option (\<lambda>st. \<lparr>ks_S = map snd run, ks_q = the cq, ks_k = the ck, ks_v = the cv\<rparr>) state))"

text \<open>Integer stand-ins, over which the operations compute.\<close>

definition int_libm :: "int libm" where
  "int_libm = \<lparr>lm_tanh = (\<lambda>x. x), lm_ninf = - 1, lm_is_zero = (\<lambda>x. x = 0), lm_tiny = 0\<rparr>"

definition scalar_cpu :: cpu where
  "scalar_cpu = \<lparr>eng_avx2_compiled = False, eng_cpu_has_avx2 = False\<rparr>"

definition one_kc :: "int k3_cfg" where
  "one_kc = \<lparr>kc_hidden = 1, kc_n_layers = 1, kc_vocab = 2, kc_rms_eps = 0, kc_kda_heads = 1, kc_kda_head_dim = 1, kc_conv_k = 2, kc_gate_lb = -1,
     kc_n_heads = 1, kc_q_lora = 1, kc_kv_lora = 1, kc_qk_nope = 1, kc_qk_rope = 1, kc_v_head = 1, kc_mla_out_gate = True, kc_n_experts = 1, kc_topk = 1,
     kc_n_shared = 1, kc_latent = 1, kc_moe_inter = 1, kc_routed_scale = 1, kc_moe_renorm = False, kc_latent_norm = False, kc_first_dense = 0,
     kc_dense_inter = 1, kc_attn_res_block = 1, kc_situ_b1 = 1, kc_situ_b2 = 1, kc_full_attn = []\<rparr>"

end
