(* ===== verification/K3_Moe.thy ===== *)
theory K3_Moe
  imports K3_Ops
begin

text \<open>
  Routing, the latent mixture of experts and the decoder layer of \<^verbatim>\<open>src/core/k3_ops.c\<close>.

  The experts come from a source with state \<open>'s\<close>, the table of functions of \<^verbatim>\<open>K3ExpertSrc\<close>; the counter
  \<open>k3_expert_drops\<close> is the number threaded beside that state.  \<open>None\<close> as the result of an operation means
  that the process stops (an MLA call beyond its cache, a call through a null function pointer).  Fresh
  \<open>malloc\<close> memory that is read before it is written has the contents \<open>junk\<close>.
\<close>

section \<open>The router\<close>

definition router_score :: "('f, 'd) fpu \<Rightarrow> 'f list \<Rightarrow> 'f list \<Rightarrow> nat \<Rightarrow> nat \<Rightarrow> 'f" where
  "router_score fp x W hidden e =
     (let row = drop (e * hidden) W;
          acc = foldl (\<lambda>acc i. d_add fp acc (d_mul fp (d_of_f fp (row ! i)) (d_of_f fp (x ! i)))) (d_of_int fp 0) [0..<hidden]
      in f_div fp (f_of_int fp 1) (f_add fp (f_of_int fp 1) (f_exp fp (f_neg fp (f_of_d fp acc)))))"

text \<open>What the selection compares; the bias takes part in the selection only.\<close>

definition router_choice :: "('f, 'd) fpu \<Rightarrow> 'f list \<Rightarrow> 'f list \<Rightarrow> 'f list option \<Rightarrow> nat \<Rightarrow> nat \<Rightarrow> 'f" where
  "router_choice fp x W bias hidden e = f_add fp (router_score fp x W hidden e) (case bias of Some b \<Rightarrow> b ! e | None \<Rightarrow> f_of_int fp 0)"

definition router_best :: "('f, 'd) fpu \<Rightarrow> 'f libm \<Rightarrow> 'f list \<Rightarrow> nat option" where
  "router_best fp lm choice =
     fst (foldl (\<lambda>(best, bv) e. if f_gt fp (choice ! e) bv then (Some e, choice ! e) else (best, bv)) (None, lm_ninf lm) [0..<length choice])"

fun router_pick :: "('f, 'd) fpu \<Rightarrow> 'f libm \<Rightarrow> 'f list \<Rightarrow> 'f list \<Rightarrow> nat \<Rightarrow> (nat \<times> 'f) list" where
  "router_pick fp lm score choice 0 = []"
| "router_pick fp lm score choice (Suc k) =
     (case router_best fp lm choice of
        None \<Rightarrow> (0, f_of_int fp 0) # router_pick fp lm score choice k
      | Some best \<Rightarrow> (best, score ! best) # router_pick fp lm score (choice[best := lm_ninf lm]) k)"

text \<open>The constant \<open>1e-20\<close> is the correctly rounded quotient of two exact doubles.\<close>

definition router_weights :: "('f, 'd) fpu \<Rightarrow> bool \<Rightarrow> 'f \<Rightarrow> 'f list \<Rightarrow> 'f list" where
  "router_weights fp moe_renorm routed_scale w =
     (let w = (if moe_renorm \<and> length w > 1
               then let s = foldl (\<lambda>s wj. d_add fp s (d_of_f fp wj)) (d_of_int fp 0) w;
                        inv = f_of_d fp (d_div fp (d_of_int fp 1) (d_add fp s (d_div fp (d_of_int fp 1) (d_of_int fp (10 ^ 20)))))
                    in map (\<lambda>wj. f_mul fp wj inv) w
               else w)
      in map (\<lambda>wj. f_mul fp wj routed_scale) w)"

definition k3_router ::
  "('f, 'd) fpu \<Rightarrow> 'f libm \<Rightarrow> 'f list \<Rightarrow> 'f list \<Rightarrow> 'f list option \<Rightarrow> nat \<Rightarrow> nat \<Rightarrow> nat \<Rightarrow> bool \<Rightarrow> 'f \<Rightarrow> (nat \<times> 'f) list" where
  "k3_router fp lm x W bias hidden n_experts topk moe_renorm routed_scale =
     (let score = map (router_score fp x W hidden) [0..<n_experts];
          choice = map (router_choice fp x W bias hidden) [0..<n_experts];
          picked = router_pick fp lm score choice topk
      in zip (map fst picked) (router_weights fp moe_renorm routed_scale (map snd picked)))"

section \<open>Attention residuals\<close>

definition k3_attn_res :: "('f, 'd) fpu \<Rightarrow> 'f list list \<Rightarrow> 'f list \<Rightarrow> nat \<Rightarrow> 'f \<Rightarrow> 'f list" where
  "k3_attn_res fp src fold' n eps =
     (let nsrc = length src;
          score = map (\<lambda>v. let inv = rms_inv fp v n eps in
            f_of_d fp (foldl (\<lambda>acc i. d_add fp acc (d_mul fp (d_of_f fp (f_mul fp (v ! i) inv)) (d_of_f fp (fold' ! i)))) (d_of_int fp 0) [0..<n])) src;
          m = foldl (\<lambda>m s. if f_gt fp (score ! s) m then score ! s else m) (score ! 0) [1..<nsrc];
          ex = map (\<lambda>s. f_exp fp (f_sub fp s m)) score;
          z = foldl (\<lambda>z e. d_add fp z (d_of_f fp e)) (d_of_int fp 0) ex
      in foldl (\<lambda>out s. axpy fp n (f_of_d fp (d_div fp (d_of_f fp (ex ! s)) z)) (src ! s) out) (replicate n (f_of_int fp 0)) [0..<nsrc])"

section \<open>The mixture of experts\<close>

record k3_expertq =
  xq_p1 :: "byte list"
  xq_s1 :: "byte list"
  xq_p3 :: "byte list"
  xq_s3 :: "byte list"
  xq_p2 :: "byte list"
  xq_s2 :: "byte list"

record 's expert_src =
  es_get :: "nat \<Rightarrow> nat \<Rightarrow> 's \<Rightarrow> k3_expertq option \<times> 's"
  es_getmany :: "(nat \<Rightarrow> nat list \<Rightarrow> 's \<Rightarrow> 's) option"
  es_resident :: "(nat \<Rightarrow> nat \<Rightarrow> 's \<Rightarrow> k3_expertq option) option"

record 'f k3_moe_w =
  ow_gate :: "'f list"
  ow_bias :: "'f list option"
  ow_w1 :: "'f list"
  ow_w3 :: "'f list"
  ow_w2 :: "'f list"
  ow_latent_norm :: "'f list"
  ow_down :: "'f k3_mat"
  ow_up :: "'f k3_mat"
  ow_sh1 :: "'f k3_mat"
  ow_sh3 :: "'f k3_mat"
  ow_sh2 :: "'f k3_mat"
  ow_layer :: nat
  ow_cache_only :: bool

definition moe_route :: "('f, 'd) fpu \<Rightarrow> 'f libm \<Rightarrow> 'f k3_cfg \<Rightarrow> 'f k3_moe_w \<Rightarrow> 'f list \<Rightarrow> (nat \<times> 'f) list" where
  "moe_route fp lm c w xt =
     k3_router fp lm xt (ow_gate w) (ow_bias w) (kc_hidden c) (kc_n_experts c) (kc_topk c) (kc_moe_renorm c) (kc_routed_scale c)"

definition expert_q :: "('f, 'd) fpu \<Rightarrow> 'f libm \<Rightarrow> cpu \<Rightarrow> 'f k3_cfg \<Rightarrow> 'f list \<Rightarrow> k3_expertq \<Rightarrow> 'f list" where
  "expert_q fp lm cpu c z q =
     (let L = kc_latent c; I = kc_moe_inter c;
          gu = k3_matmul_mxfp4 fp cpu z (xq_p1 q) (xq_s1 q) L I K3_MXFP4_GROUP @ k3_matmul_mxfp4 fp cpu z (xq_p3 q) (xq_s3 q) L I K3_MXFP4_GROUP;
          act = k3_situ_glu fp lm gu I (kc_situ_b1 c) (kc_situ_b2 c)
      in k3_matmul_mxfp4 fp cpu act (xq_p2 q) (xq_s2 q) I L K3_MXFP4_GROUP)"

definition expert_bank :: "('f, 'd) fpu \<Rightarrow> 'f libm \<Rightarrow> 'f k3_cfg \<Rightarrow> 'f k3_moe_w \<Rightarrow> 'f list \<Rightarrow> nat \<Rightarrow> 'f list" where
  "expert_bank fp lm c w z e =
     (let L = kc_latent c; I = kc_moe_inter c;
          gu = k3_matmul fp z (drop (e * I * L) (ow_w1 w)) L I @ k3_matmul fp z (drop (e * I * L) (ow_w3 w)) L I;
          act = k3_situ_glu fp lm gu I (kc_situ_b1 c) (kc_situ_b2 c)
      in k3_matmul fp act (drop (e * L * I) (ow_w2 w)) I L)"

text \<open>The loop over the selected experts of one token.\<close>

fun moe_experts ::
  "('f, 'd) fpu \<Rightarrow> 'f libm \<Rightarrow> cpu \<Rightarrow> 'f k3_cfg \<Rightarrow> 'f k3_moe_w \<Rightarrow> 's expert_src option \<Rightarrow> 'f list \<Rightarrow> (nat \<times> 'f) list \<Rightarrow> 'f list \<Rightarrow> nat \<times> 's \<Rightarrow>
   ('f list \<times> nat \<times> 's) option" where
  "moe_experts fp lm cpu c w src z [] acc (d, s) = Some (acc, d, s)"
| "moe_experts fp lm cpu c w src z ((e, wj) # js) acc (d, s) =
     (case src of
        None \<Rightarrow> moe_experts fp lm cpu c w src z js (axpy fp (kc_latent c) wj (expert_bank fp lm c w z e) acc) (d, s)
      | Some es \<Rightarrow>
          if ow_cache_only w
          then (case es_resident es of None \<Rightarrow> None
                | Some resident \<Rightarrow> (case resident (ow_layer w) e s of
                    None \<Rightarrow> moe_experts fp lm cpu c w src z js acc (d, s)
                  | Some q \<Rightarrow> moe_experts fp lm cpu c w src z js (axpy fp (kc_latent c) wj (expert_q fp lm cpu c z q) acc) (d, s)))
          else (case es_get es (ow_layer w) e s of
                  (None, s) \<Rightarrow> moe_experts fp lm cpu c w src z js acc (d + 1, s)
                | (Some q, s) \<Rightarrow> moe_experts fp lm cpu c w src z js (axpy fp (kc_latent c) wj (expert_q fp lm cpu c z q) acc) (d, s)))"

text \<open>Only the experts already in memory, their weights scaled to sum to one.\<close>

definition keep_resident :: "('f, 'd) fpu \<Rightarrow> (nat \<Rightarrow> k3_expertq option) \<Rightarrow> (nat \<times> 'f) list \<Rightarrow> (nat \<times> 'f) list" where
  "keep_resident fp resident js =
     (let kept = filter (\<lambda>(e, wj). resident e \<noteq> None) js;
          wsum = foldl (\<lambda>s (e, wj). f_add fp s wj) (f_of_int fp 0) kept
      in if f_gt fp wsum (f_of_int fp 0) then map (\<lambda>(e, wj). (e, f_div fp wj wsum)) kept else kept)"

definition moe_tail :: "('f, 'd) fpu \<Rightarrow> 'f libm \<Rightarrow> bool \<Rightarrow> 'f k3_cfg \<Rightarrow> 'f k3_moe_w \<Rightarrow> 'f list \<Rightarrow> 'f list \<Rightarrow> 'f list" where
  "moe_tail fp lm avx2 c w xt acc =
     (let E = kc_hidden c; L = kc_latent c; SI = kc_moe_inter c * kc_n_shared c;
          acc = (if kc_latent_norm c then k3_rmsnorm fp acc (ow_latent_norm w) L (kc_rms_eps c) else acc);
          ot = k3_mmw fp avx2 acc (ow_up w) L E;
          sgu = k3_mmw fp avx2 xt (ow_sh1 w) E SI @ k3_mmw fp avx2 xt (ow_sh3 w) E SI;
          sact = k3_situ_glu fp lm sgu SI (kc_situ_b1 c) (kc_situ_b2 c);
          sdn = k3_mmw fp avx2 sact (ow_sh2 w) SI E
      in map (\<lambda>i. f_add fp (ot ! i) (sdn ! i)) [0..<E])"

definition moe_token ::
  "('f, 'd) fpu \<Rightarrow> 'f libm \<Rightarrow> bool \<Rightarrow> cpu \<Rightarrow> 'f k3_cfg \<Rightarrow> 'f k3_moe_w \<Rightarrow> 's expert_src option \<Rightarrow> 'f list \<Rightarrow> nat \<times> 's \<Rightarrow>
   ('f list \<times> nat \<times> 's) option" where
  "moe_token fp lm avx2 cpu c w src xt st =
     (let L = kc_latent c; (d, s) = st;
          js = moe_route fp lm c w xt;
          js = (case src of Some es \<Rightarrow> (case es_resident es of
                   Some resident \<Rightarrow> if ow_cache_only w then keep_resident fp (\<lambda>e. resident (ow_layer w) e s) js else js
                 | None \<Rightarrow> js) | None \<Rightarrow> js);
          z = k3_mmw fp avx2 xt (ow_down w) (kc_hidden c) L;
          s = (case src of Some es \<Rightarrow> (case es_getmany es of
                   Some getmany \<Rightarrow> if ow_cache_only w then s else getmany (ow_layer w) (map fst js) s
                 | None \<Rightarrow> s) | None \<Rightarrow> s)
      in map_option (\<lambda>(acc, st). (moe_tail fp lm avx2 c w xt acc, st))
           (moe_experts fp lm cpu c w src z js (replicate L (f_of_int fp 0)) (d, s)))"

fun k3_moe ::
  "('f, 'd) fpu \<Rightarrow> 'f libm \<Rightarrow> bool \<Rightarrow> cpu \<Rightarrow> 'f k3_cfg \<Rightarrow> 'f k3_moe_w \<Rightarrow> 's expert_src option \<Rightarrow> 'f list list \<Rightarrow> nat \<times> 's \<Rightarrow>
   ('f list list \<times> nat \<times> 's) option" where
  "k3_moe fp lm avx2 cpu c w src [] st = Some ([], st)"
| "k3_moe fp lm avx2 cpu c w src (xt # x) st =
     (case moe_token fp lm avx2 cpu c w src xt st of None \<Rightarrow> None
      | Some (ot, st) \<Rightarrow> map_option (\<lambda>(out, st). (ot # out, st)) (k3_moe fp lm avx2 cpu c w src x st))"

section \<open>Batched prefill\<close>

text \<open>The experts of a chunk, each once, in the order of first use.\<close>

definition chunk_uniq :: "nat \<Rightarrow> nat list \<Rightarrow> nat list" where
  "chunk_uniq n es = foldl (\<lambda>uniq e. if e < n \<and> e \<notin> set uniq then uniq @ [e] else uniq) [] es"

text \<open>One fetched expert fills every slot that selected it; \<open>contrib\<close> has one entry per token and slot.\<close>

definition chunk_apply ::
  "('f, 'd) fpu \<Rightarrow> 'f libm \<Rightarrow> cpu \<Rightarrow> 'f k3_cfg \<Rightarrow> (nat \<times> 'f) list list \<Rightarrow> 'f list list \<Rightarrow> nat \<Rightarrow> k3_expertq \<Rightarrow> 'f list list list \<Rightarrow> 'f list list list" where
  "chunk_apply fp lm cpu c route zz e q contrib =
     map (\<lambda>t. map (\<lambda>j. if fst (route ! t ! j) = e then expert_q fp lm cpu c (zz ! t) q else contrib ! t ! j) [0..<length (route ! t)]) [0..<length route]"

fun chunk_fetch ::
  "('f, 'd) fpu \<Rightarrow> 'f libm \<Rightarrow> cpu \<Rightarrow> 'f k3_cfg \<Rightarrow> 's expert_src \<Rightarrow> nat \<Rightarrow> (nat \<times> 'f) list list \<Rightarrow> 'f list list \<Rightarrow> nat list \<Rightarrow> 'f list list list \<Rightarrow>
   nat \<times> 's \<Rightarrow> 'f list list list \<times> nat \<times> 's" where
  "chunk_fetch fp lm cpu c es layer route zz [] contrib (d, s) = (contrib, d, s)"
| "chunk_fetch fp lm cpu c es layer route zz (e # us) contrib (d, s) =
     (case es_get es layer e s of
        (None, s) \<Rightarrow> chunk_fetch fp lm cpu c es layer route zz us contrib (d + 1, s)
      | (Some q, s) \<Rightarrow> chunk_fetch fp lm cpu c es layer route zz us (chunk_apply fp lm cpu c route zz e q contrib) (d, s))"

definition moe_prefill_chunk ::
  "('f, 'd) fpu \<Rightarrow> 'f libm \<Rightarrow> bool \<Rightarrow> cpu \<Rightarrow> 'f k3_cfg \<Rightarrow> 'f k3_moe_w \<Rightarrow> 's expert_src \<Rightarrow> (nat \<Rightarrow> nat \<Rightarrow> 'f list) \<Rightarrow> 'f list list \<Rightarrow> nat \<times> 's \<Rightarrow>
   'f list list \<times> nat \<times> 's" where
  "moe_prefill_chunk fp lm avx2 cpu c w es junk x st =
     (let E = kc_hidden c; L = kc_latent c; T = length x; (d, s) = st;
          route = map (moe_route fp lm c w) x;
          zz = map (\<lambda>xt. k3_mmw fp avx2 xt (ow_down w) E L) x;
          uniq = chunk_uniq (kc_n_experts c) (map fst (concat route));
          contrib = map (\<lambda>t. map (junk t) [0..<length (route ! t)]) [0..<T];
          s = (case es_getmany es of Some getmany \<Rightarrow> getmany (ow_layer w) uniq s | None \<Rightarrow> s);
          (contrib, st) = chunk_fetch fp lm cpu c es (ow_layer w) route zz uniq contrib (d, s);
          agg = (\<lambda>t. foldl (\<lambda>acc j. axpy fp L (snd (route ! t ! j)) (contrib ! t ! j) acc) (replicate L (f_of_int fp 0)) [0..<length (route ! t)])
      in (map (\<lambda>t. moe_tail fp lm avx2 c w (x ! t) (agg t)) [0..<T], st))"

definition PREFILL_CHUNK :: nat where
  "PREFILL_CHUNK = 64"

function prefill_chunks ::
  "('f, 'd) fpu \<Rightarrow> 'f libm \<Rightarrow> bool \<Rightarrow> cpu \<Rightarrow> 'f k3_cfg \<Rightarrow> 'f k3_moe_w \<Rightarrow> 's expert_src \<Rightarrow> (nat \<Rightarrow> nat \<Rightarrow> nat \<Rightarrow> 'f list) \<Rightarrow> nat \<Rightarrow> 'f list list \<Rightarrow> nat \<times> 's \<Rightarrow>
   ('f list list \<times> nat \<times> 's) option" where
  "prefill_chunks fp lm avx2 cpu c w es junk t0 x st =
     (if x = [] then Some ([], st)
      else let n = min PREFILL_CHUNK (length x) in
        case (if n = 1 then k3_moe fp lm avx2 cpu c w (Some es) (take n x) st
              else Some (moe_prefill_chunk fp lm avx2 cpu c w es (junk t0) (take n x) st)) of
          None \<Rightarrow> None
        | Some (out, st) \<Rightarrow> map_option (\<lambda>(out', st). (out @ out', st))
            (prefill_chunks fp lm avx2 cpu c w es junk (t0 + PREFILL_CHUNK) (drop n x) st))"
  by pat_completeness auto
termination by (relation "measure (\<lambda>(_, _, _, _, _, _, _, _, _, x, _). length x)") (auto simp: PREFILL_CHUNK_def)

text \<open>\<open>no_batch\<close>: \<^verbatim>\<open>K3_NO_BATCH_PREFILL\<close> is set in the environment.\<close>

definition k3_moe_prefill ::
  "('f, 'd) fpu \<Rightarrow> 'f libm \<Rightarrow> bool \<Rightarrow> cpu \<Rightarrow> bool \<Rightarrow> 'f k3_cfg \<Rightarrow> 'f k3_moe_w \<Rightarrow> 's expert_src option \<Rightarrow> (nat \<Rightarrow> nat \<Rightarrow> nat \<Rightarrow> 'f list) \<Rightarrow> 'f list list \<Rightarrow> nat \<times> 's \<Rightarrow>
   ('f list list \<times> nat \<times> 's) option" where
  "k3_moe_prefill fp lm avx2 cpu no_batch c w src junk x st =
     (case src of
        None \<Rightarrow> k3_moe fp lm avx2 cpu c w None x st
      | Some es \<Rightarrow> if length x \<le> 1 \<or> no_batch \<or> ow_cache_only w then k3_moe fp lm avx2 cpu c w src x st
                   else prefill_chunks fp lm avx2 cpu c w es junk 0 x st)"

end
