(* ===== verification/K3_Layer.thy ===== *)
theory K3_Layer
  imports K3_Moe
begin

text \<open>
  The decoder layer of \<^verbatim>\<open>src/core/k3_ops.c\<close> and the sizes of its scratch memory.  The block residuals
  are one array of \<open>maxb\<close> rows per token.  A layer has either a KDA or an MLA block, and either a mixture of
  experts or a dense block; \<open>kc_attn_res_block\<close> is positive, which the configuration reader checks.
\<close>

record 'f k3_dense_w =
  dw_gate :: "'f k3_mat"
  dw_up :: "'f k3_mat"
  dw_down :: "'f k3_mat"

record 'f k3_layer_w =
  lw_in_norm :: "'f list"
  lw_post_norm :: "'f list"
  lw_attn_res_norm :: "'f list"
  lw_attn_res_proj :: "'f list"
  lw_mlp_res_norm :: "'f list"
  lw_mlp_res_proj :: "'f list"
  lw_attn :: "'f k3_kda_w + 'f k3_mla_w"
  lw_mlp :: "'f k3_moe_w + 'f k3_dense_w"

section \<open>Scratch sizes\<close>

definition k3_mla_scratch_cached :: "'f k3_cfg \<Rightarrow> nat \<Rightarrow> nat \<Rightarrow> bool \<Rightarrow> nat" where
  "k3_mla_scratch_cached c T cap cached_mode =
     (let H = kc_n_heads c; qh = kc_qk_nope c + kc_qk_rope c; vh = kc_v_head c; kvd = kc_qk_nope c + vh;
          n = T * H * qh + (kc_kv_lora c + kc_qk_rope c) + kc_q_lora c + 2 * H * vh + (if cap > T then cap else T)
      in if cached_mode then n else n + (T * H * kvd + T * kc_qk_rope c))"

definition k3_mla_scratch :: "'f k3_cfg \<Rightarrow> nat \<Rightarrow> nat" where
  "k3_mla_scratch c T = k3_mla_scratch_cached c T T False"

definition k3_moe_scratch :: "'f k3_cfg \<Rightarrow> nat" where
  "k3_moe_scratch c = (let SI = kc_moe_inter c * kc_n_shared c in 2 * kc_latent c + 3 * kc_moe_inter c + kc_latent c + 3 * SI + kc_hidden c)"

definition k3_kda_scratch :: "'f k3_cfg \<Rightarrow> nat \<Rightarrow> nat" where
  "k3_kda_scratch c T =
     (let P = kc_kda_heads c * kc_kda_head_dim c in 3 * T * P + 2 * T * P + T * kc_kda_heads c + T * P + 2 * P + kc_kda_head_dim c)"

definition k3_layer_scratch :: "'f k3_cfg \<Rightarrow> nat \<Rightarrow> nat" where
  "k3_layer_scratch c T =
     (let a = k3_mla_scratch c T; b = k3_kda_scratch c T; m = k3_moe_scratch c;
          sub = (if a > b then a else b); sub = (if m > sub then m else sub)
      in 3 * T * kc_hidden c + 2 * kc_hidden c + (kc_n_layers c div kc_attn_res_block c + 2) * kc_hidden c + 2 * kc_dense_inter c + sub)"

text \<open>Rows of the block-residual array, and where the layer's regions begin: \<open>src\<close>, \<open>dgu\<close> and \<open>sub\<close>.\<close>

definition layer_maxb :: "'f k3_cfg \<Rightarrow> nat" where
  "layer_maxb c = kc_n_layers c div kc_attn_res_block c + 2"

definition layer_src_off :: "'f k3_cfg \<Rightarrow> nat \<Rightarrow> nat" where
  "layer_src_off c T = T * kc_hidden c + T * kc_hidden c + T * kc_hidden c + kc_hidden c + kc_hidden c"

definition layer_dgu_off :: "'f k3_cfg \<Rightarrow> nat \<Rightarrow> nat" where
  "layer_dgu_off c T = layer_src_off c T + layer_maxb c * kc_hidden c"

definition layer_sub_off :: "'f k3_cfg \<Rightarrow> nat \<Rightarrow> nat" where
  "layer_sub_off c T = layer_dgu_off c T + 2 * kc_dense_inter c"

section \<open>Scratch layouts\<close>

text \<open>
  Where the blocks put their arrays.  A layout lists the arrays that are live together, each with its first
  float and the number of floats written to it; the pointers are those of the source.  \<open>kvc\<close> says whether a KV
  cache is passed.  The batched mixture overlays the arrays of its second and third phase.
\<close>

type_synonym layout = "(nat \<times> nat) list"

definition mla_layout :: "'f k3_cfg \<Rightarrow> nat \<Rightarrow> bool \<Rightarrow> nat \<Rightarrow> nat \<Rightarrow> layout" where
  "mla_layout c T kvc cached scratch =
     (let H = kc_n_heads c; qr = kc_qk_rope c; vh = kc_v_head c; qh = kc_qk_nope c + qr; kvw = kc_kv_lora c + qr; kvd = kc_qk_nope c + vh;
          cached = (if kvc then cached else 0);
          q = scratch; ct = q + T * H * qh; ql = ct + kvw; acc = ql + kc_q_lora c; gbuf = acc + H * vh; sc = gbuf + H * vh;
          kvs = sc + (cached + T); rps = kvs + (if kvc then 0 else T * H * kvd)
      in [(q, T * H * qh), (ct, kvw), (ql, kc_q_lora c), (acc, H * vh), (gbuf, H * vh), (sc, cached + T)] @
         (if kvc then [] else [(kvs, T * H * kvd), (rps, T * qr)]))"

definition kda_layout :: "'f k3_cfg \<Rightarrow> nat \<Rightarrow> nat \<Rightarrow> layout" where
  "kda_layout c T scratch =
     (let H = kc_kda_heads c; D = kc_kda_head_dim c; P = H * D;
          q = scratch; k = q + T * P; v = k + T * P; z = v + T * P; al = z + T * P; bt = al + T * P; ot = bt + T * H; gb = ot + T * P;
          wr = gb + P; fa = wr + P
      in [(q, T * P), (k, T * P), (v, T * P), (z, T * P), (al, T * P), (bt, T * H), (ot, T * P), (gb, P), (wr, P), (fa, D)])"

definition moe_layout :: "'f k3_cfg \<Rightarrow> nat \<Rightarrow> layout" where
  "moe_layout c scratch =
     (let L = kc_latent c; I = kc_moe_inter c; SI = I * kc_n_shared c;
          z = scratch; accL = z + L; gu = accL + L; act = gu + 2 * I; edn = act + I; sgu = edn + L; sact = sgu + 2 * SI; sdn = sact + SI
      in [(z, L), (accL, L), (gu, 2 * I), (act, I), (edn, L), (sgu, 2 * SI), (sact, SI), (sdn, kc_hidden c)])"

definition chunk_layouts :: "'f k3_cfg \<Rightarrow> nat \<Rightarrow> layout list" where
  "chunk_layouts c scratch =
     (let L = kc_latent c; I = kc_moe_inter c; SI = I * kc_n_shared c;
          gu = scratch; act = gu + 2 * I; edn = act + I; sgu = gu; sact = sgu + 2 * SI; sdn = sact + SI
      in [[(gu, 2 * I), (act, I), (edn, L)], [(sgu, 2 * SI), (sact, SI), (sdn, kc_hidden c)]])"

text \<open>The arrays of the layer itself: \<open>nb\<close> snapshots and the running sum go to the source stack.\<close>

definition layer_layout :: "'f k3_cfg \<Rightarrow> nat \<Rightarrow> nat \<Rightarrow> layout" where
  "layer_layout c T nb =
     (let E = kc_hidden c; pref = 0; tmp = pref + T * E; hin = tmp + T * E; foldA = hin + T * E; foldM = foldA + E
      in [(pref, T * E), (tmp, T * E), (hin, T * E), (foldA, E), (foldM, E), (layer_src_off c T, (nb + 1) * E),
          (layer_dgu_off c T, 2 * kc_dense_inter c)])"

text \<open>What lies in the last region, \<open>sub\<close>, at the four points where the layer uses it.\<close>

definition sub_layouts :: "'f k3_cfg \<Rightarrow> 'f k3_layer_w \<Rightarrow> nat \<Rightarrow> bool \<Rightarrow> nat \<Rightarrow> layout list" where
  "sub_layouts c w T kvc cached =
     (let sub = layer_sub_off c T
      in (case lw_attn w of Inl _ \<Rightarrow> kda_layout c T sub | Inr _ \<Rightarrow> mla_layout c T kvc cached sub) #
         (case lw_mlp w of Inl _ \<Rightarrow> moe_layout c sub # chunk_layouts c sub | Inr _ \<Rightarrow> [[(sub, kc_dense_inter c)]]))"

section \<open>The decoder layer\<close>

definition layer_sources :: "'f list list list \<Rightarrow> nat \<Rightarrow> 'f list list \<Rightarrow> nat \<Rightarrow> 'f list list" where
  "layer_sources br n_blocks pref t = take n_blocks (br ! t) @ [pref ! t]"

definition add_rows :: "('f, 'd) fpu \<Rightarrow> nat \<Rightarrow> 'f list list \<Rightarrow> 'f list list \<Rightarrow> 'f list list" where
  "add_rows fp E p q = map (\<lambda>t. map (\<lambda>i. f_add fp (p ! t ! i) (q ! t ! i)) [0..<E]) [0..<length p]"

definition layer_dense :: "('f, 'd) fpu \<Rightarrow> 'f libm \<Rightarrow> bool \<Rightarrow> 'f k3_cfg \<Rightarrow> 'f k3_dense_w \<Rightarrow> 'f list \<Rightarrow> 'f list" where
  "layer_dense fp lm avx2 c w hin =
     (let E = kc_hidden c; DI = kc_dense_inter c;
          dgu = k3_mmw fp avx2 hin (dw_gate w) E DI @ k3_mmw fp avx2 hin (dw_up w) E DI
      in k3_mmw fp avx2 (k3_situ_glu fp lm dgu DI (kc_situ_b1 c) (kc_situ_b2 c)) (dw_down w) DI E)"

record ('f, 's) layer_st =
  ls_br :: "'f list list list"
  ls_nb :: nat
  ls_kda :: "'f kda_state option"
  ls_kv :: "('f list list \<times> 'f list list) option"
  ls_src :: "nat \<times> 's"

definition layer_attn ::
  "('f, 'd) fpu \<Rightarrow> 'f libm \<Rightarrow> bool \<Rightarrow> 'f k3_cfg \<Rightarrow> 'f k3_layer_w \<Rightarrow> 'f list list \<Rightarrow> nat \<Rightarrow> nat \<Rightarrow> ('f, 's) layer_st \<Rightarrow> ('f list list \<times> ('f, 's) layer_st) option" where
  "layer_attn fp lm avx2 c w hin cached cap st =
     (case lw_attn w of
        Inl kda \<Rightarrow> (let (tmp, ks) = k3_kda_layer fp lm avx2 c kda hin (ls_kda st) in Some (tmp, st\<lparr>ls_kda := ks\<rparr>))
      | Inr mla \<Rightarrow> (case k3_mla_cached fp lm avx2 c mla hin (ls_kv st) cached cap of None \<Rightarrow> None
                    | Some (tmp, kv) \<Rightarrow> Some (tmp, st\<lparr>ls_kv := (case ls_kv st of None \<Rightarrow> None | Some _ \<Rightarrow> Some kv)\<rparr>)))"

definition layer_mlp ::
  "('f, 'd) fpu \<Rightarrow> 'f libm \<Rightarrow> bool \<Rightarrow> cpu \<Rightarrow> bool \<Rightarrow> 'f k3_cfg \<Rightarrow> 'f k3_layer_w \<Rightarrow> 's expert_src option \<Rightarrow> (nat \<Rightarrow> nat \<Rightarrow> nat \<Rightarrow> 'f list) \<Rightarrow> 'f list list \<Rightarrow>
   ('f, 's) layer_st \<Rightarrow> ('f list list \<times> ('f, 's) layer_st) option" where
  "layer_mlp fp lm avx2 cpu no_batch c w src junk hin st =
     (case lw_mlp w of
        Inl moe \<Rightarrow> map_option (\<lambda>(tmp, ds). (tmp, st\<lparr>ls_src := ds\<rparr>)) (k3_moe_prefill fp lm avx2 cpu no_batch c moe src junk hin (ls_src st))
      | Inr dense \<Rightarrow> Some (map (layer_dense fp lm avx2 c dense) hin, st))"

definition k3_decoder_layer_inc ::
  "('f, 'd) fpu \<Rightarrow> 'f libm \<Rightarrow> bool \<Rightarrow> cpu \<Rightarrow> bool \<Rightarrow> 'f k3_cfg \<Rightarrow> 'f k3_layer_w \<Rightarrow> 's expert_src option \<Rightarrow> (nat \<Rightarrow> nat \<Rightarrow> nat \<Rightarrow> 'f list) \<Rightarrow> nat \<Rightarrow>
   'f list list \<Rightarrow> nat \<Rightarrow> nat \<Rightarrow> ('f, 's) layer_st \<Rightarrow> ('f list list \<times> ('f, 's) layer_st) option" where
  "k3_decoder_layer_inc fp lm avx2 cpu no_batch c w src junk layer_idx h cached cap st =
     (let E = kc_hidden c; T = length h; eps = kc_rms_eps c;
          foldA = map (\<lambda>i. f_mul fp (lw_attn_res_norm w ! i) (lw_attn_res_proj w ! i)) [0..<E];
          foldM = map (\<lambda>i. f_mul fp (lw_mlp_res_norm w ! i) (lw_mlp_res_proj w ! i)) [0..<E];
          pref = h;
          h = (if ls_nb st > 0
               then map (\<lambda>t. k3_attn_res fp (layer_sources (ls_br st) (ls_nb st) pref t) foldA E eps) [0..<T] else h);
          boundary = (layer_idx mod kc_attn_res_block c = 0);
          st = (if boundary
                then st\<lparr>ls_br := map (\<lambda>t. (ls_br st ! t)[ls_nb st := pref ! t]) [0..<T] @ drop T (ls_br st), ls_nb := ls_nb st + 1\<rparr>
                else st);
          hin = map (\<lambda>x. k3_rmsnorm fp x (lw_in_norm w) E eps) h
      in case layer_attn fp lm avx2 c w hin cached cap st of None \<Rightarrow> None
       | Some (tmp, st) \<Rightarrow>
           (let pref = (if boundary then tmp else add_rows fp E pref tmp);
                h = map (\<lambda>t. k3_attn_res fp (layer_sources (ls_br st) (ls_nb st) pref t) foldM E eps) [0..<T];
                hin = map (\<lambda>x. k3_rmsnorm fp x (lw_post_norm w) E eps) h
            in map_option (\<lambda>(tmp, st). (add_rows fp E pref tmp, st)) (layer_mlp fp lm avx2 cpu no_batch c w src junk hin st)))"

definition k3_decoder_layer ::
  "('f, 'd) fpu \<Rightarrow> 'f libm \<Rightarrow> bool \<Rightarrow> cpu \<Rightarrow> bool \<Rightarrow> 'f k3_cfg \<Rightarrow> 'f k3_layer_w \<Rightarrow> 's expert_src option \<Rightarrow> (nat \<Rightarrow> nat \<Rightarrow> nat \<Rightarrow> 'f list) \<Rightarrow> nat \<Rightarrow>
   'f list list \<Rightarrow> ('f, 's) layer_st \<Rightarrow> ('f list list \<times> ('f, 's) layer_st) option" where
  "k3_decoder_layer fp lm avx2 cpu no_batch c w src junk layer_idx h st =
     map_option (\<lambda>(h, st'). (h, st'\<lparr>ls_kv := ls_kv st\<rparr>))
       (k3_decoder_layer_inc fp lm avx2 cpu no_batch c w src junk layer_idx h 0 0 (st\<lparr>ls_kv := None\<rparr>))"

end
