(* ===== verification/K3_Ops_Props.thy ===== *)
theory K3_Ops_Props
  imports K3_Ops Row_Local
begin

text \<open>
  What the K3 operators promise: the attention of a position reads the cache up to that position only, so
  a sequence may be cut anywhere, and a cached run of any chunking gives what the uncached call gives; the
  same for the convolution history and the recurrent state of a KDA layer.
\<close>

section \<open>MLA\<close>

lemma foldl_upt_cong:
  assumes "\<And>a i. i < n \<Longrightarrow> f a i = g a i"
  shows "foldl f a [0..<n] = foldl g a [0..<n]"
  by (rule foldl_cong) (auto simp: assms)

definition put_at :: "nat \<Rightarrow> 'a list \<Rightarrow> 'a list \<Rightarrow> 'a list" where
  "put_at p vs kv = foldl (\<lambda>kv t. kv[p + t := vs ! t]) kv [0..<length vs]"

lemma put_at_snoc: "put_at p (vs @ [v]) kv = (put_at p vs kv)[p + length vs := v]"
proof -
  have "foldl (\<lambda>kv t. kv[p + t := (vs @ [v]) ! t]) kv [0..<length vs] = foldl (\<lambda>kv t. kv[p + t := vs ! t]) kv [0..<length vs]"
    by (rule foldl_upt_cong) (simp add: nth_append)
  then show ?thesis by (simp add: put_at_def)
qed

lemma put_at_Nil [simp]: "put_at p [] kv = kv"
  by (simp add: put_at_def)

lemma put_at_length [simp]: "length (put_at p vs kv) = length kv"
  by (induction vs rule: rev_induct) (simp_all add: put_at_snoc)

lemma put_at_append: "put_at p (us @ vs) kv = put_at (p + length us) vs (put_at p us kv)"
proof (induction vs rule: rev_induct)
  case Nil then show ?case by simp
next
  case (snoc v vs)
  have "put_at p (us @ vs @ [v]) kv = (put_at p (us @ vs) kv)[p + length (us @ vs) := v]"
    using put_at_snoc [of p "us @ vs" v kv] by simp
  then show ?case by (simp add: snoc put_at_snoc add.assoc)
qed

lemma put_at_before: "s < p \<Longrightarrow> put_at p vs kv ! s = kv ! s"
  by (induction vs rule: rev_induct) (simp_all add: put_at_snoc)

lemma put_at_in:
  assumes "s < length vs" "p + s < length kv"
  shows "put_at p vs kv ! (p + s) = vs ! s"
  using assms(1)
proof (induction vs rule: rev_induct)
  case (snoc v vs)
  then show ?case using assms(2) by (cases "s = length vs") (simp_all add: put_at_snoc nth_append)
qed simp

lemma mla_head_prefix:
  assumes "\<And>s. s \<le> p \<Longrightarrow> kv ! s = kv' ! s \<and> rope ! s = rope' ! s"
  shows "mla_head fp lm c q kv rope p h = mla_head fp lm c q kv' rope' p h"
proof -
  have sc: "map (\<lambda>s. mla_score fp c q h (kv ! s) (rope ! s)) [0..<p + 1] = map (\<lambda>s. mla_score fp c q h (kv' ! s) (rope' ! s)) [0..<p + 1]"
    using assms by simp
  show ?thesis
    unfolding mla_head_def Let_def sc by (rule foldl_upt_cong) (simp add: assms)
qed

lemma mla_attend_prefix:
  assumes "\<And>s. s \<le> p \<Longrightarrow> kv ! s = kv' ! s \<and> rope ! s = rope' ! s"
  shows "mla_attend fp lm avx2 c w xt q kv rope p = mla_attend fp lm avx2 c w xt q kv' rope' p"
proof -
  have "mla_head fp lm c q kv rope p = mla_head fp lm c q kv' rope' p"
    by (rule ext) (rule mla_head_prefix [OF assms])
  then show ?thesis by (simp add: mla_attend_def)
qed

text \<open>The call with a cache, its writes named.\<close>

lemma mla_cached_eq:
  "k3_mla_cached fp lm avx2 c w x (Some (kv, rope)) cached cap =
     (if cached + length x > cap then None
      else let pr = map (mla_project fp avx2 c w) x;
               kv' = put_at cached (map (fst \<circ> snd) pr) kv; rope' = put_at cached (map (snd \<circ> snd) pr) rope
           in Some (map (\<lambda>t. mla_attend fp lm avx2 c w (x ! t) (fst (pr ! t)) kv' rope' (cached + t)) [0..<length x], kv', rope'))"
proof -
  have w: "foldl (\<lambda>kv t. kv[cached + t := g (pr ! t)]) kv [0..<length x] = put_at cached (map g pr) kv"
    if "length pr = length x" for g pr and kv :: "'a list list"
    unfolding put_at_def length_map that by (rule foldl_upt_cong) (simp add: that)
  show ?thesis
    using w [of "map (mla_project fp avx2 c w) x" "fst \<circ> snd" kv] w [of "map (mla_project fp avx2 c w) x" "snd \<circ> snd" rope]
    by (simp add: k3_mla_cached_def Let_def)
qed

lemma mla_cached_append:
  "k3_mla_cached fp lm avx2 c w (xs @ ys) (Some a) cached cap =
     (case k3_mla_cached fp lm avx2 c w xs (Some a) cached cap of None \<Rightarrow> None
      | Some (o1, a1) \<Rightarrow> map_option (\<lambda>(o2, a2). (o1 @ o2, a2)) (k3_mla_cached fp lm avx2 c w ys (Some a1) (cached + length xs) cap))"
proof (cases "cached + length xs > cap")
  case True
  then show ?thesis by (cases a) (simp add: mla_cached_eq)
next
  case fits: False
  obtain kv rope where a: "a = (kv, rope)" by (cases a)
  let ?pr = "mla_project fp avx2 c w" and ?n = "length xs" and ?m = "length ys"
  define k1 r1 where k1: "k1 = put_at cached (map (fst \<circ> snd) (map ?pr xs)) kv" and r1: "r1 = put_at cached (map (snd \<circ> snd) (map ?pr xs)) rope"
  define k2 r2 where k2: "k2 = put_at (cached + ?n) (map (fst \<circ> snd) (map ?pr ys)) k1" and r2: "r2 = put_at (cached + ?n) (map (snd \<circ> snd) (map ?pr ys)) r1"
  have early: "mla_attend fp lm avx2 c w xt q k2 r2 p = mla_attend fp lm avx2 c w xt q k1 r1 p" if "p < cached + ?n" for xt q p
    by (rule mla_attend_prefix) (use that in \<open>simp add: k2 r2 put_at_before\<close>)
  have outs: "map (\<lambda>t. mla_attend fp lm avx2 c w ((xs @ ys) ! t) (fst (map ?pr (xs @ ys) ! t)) k2 r2 (cached + t)) [0..<?n + ?m] =
      map (\<lambda>t. mla_attend fp lm avx2 c w (xs ! t) (fst (map ?pr xs ! t)) k1 r1 (cached + t)) [0..<?n] @
      map (\<lambda>t. mla_attend fp lm avx2 c w (ys ! t) (fst (map ?pr ys ! t)) k2 r2 (cached + ?n + t)) [0..<?m]"
    by (rule nth_equalityI) (auto simp: nth_append early)
  show ?thesis
  proof (cases "cached + ?n + ?m > cap")
    case True
    then show ?thesis using fits by (simp add: a mla_cached_eq Let_def)
  next
    case False
    then show ?thesis
      using fits outs by (simp add: a mla_cached_eq Let_def put_at_append k1 [symmetric] r1 [symmetric] k2 [symmetric] r2 [symmetric] del: map_map)
  qed
qed

lemma mla_fresh:
  assumes "length x \<le> length kv" "length x \<le> length rope" "length x \<le> cap"
  shows "map_option fst (k3_mla_cached fp lm avx2 c w x (Some (kv, rope)) 0 cap) = k3_mla fp lm avx2 c w x"
proof -
  let ?pr = "map (mla_project fp avx2 c w) x" and ?E = "replicate (length x) []"
  have unc: "k3_mla fp lm avx2 c w x = map_option fst (k3_mla_cached fp lm avx2 c w x (Some (?E, ?E)) 0 (length x))"
    by (simp add: k3_mla_def k3_mla_cached_def Let_def)
  have "mla_attend fp lm avx2 c w xt q (put_at 0 (map (fst \<circ> snd) ?pr) kv) (put_at 0 (map (snd \<circ> snd) ?pr) rope) p
      = mla_attend fp lm avx2 c w xt q (put_at 0 (map (fst \<circ> snd) ?pr) ?E) (put_at 0 (map (snd \<circ> snd) ?pr) ?E) p"
    if p: "p < length x" for xt q p
  proof (rule mla_attend_prefix)
    fix s assume "s \<le> p"
    then have "s < length x" using p by simp
    then show "put_at 0 (map (fst \<circ> snd) ?pr) kv ! s = put_at 0 (map (fst \<circ> snd) ?pr) ?E ! s \<and>
        put_at 0 (map (snd \<circ> snd) ?pr) rope ! s = put_at 0 (map (snd \<circ> snd) ?pr) ?E ! s"
      using assms by (simp add: put_at_in [of s _ 0, simplified])
  qed
  then show ?thesis using assms by (simp add: unc mla_cached_eq Let_def)
qed

text \<open>A run over chunks: each call carries the arrays on and counts the positions.\<close>

fun mla_chunks ::
  "('f, 'd) fpu \<Rightarrow> 'f libm \<Rightarrow> bool \<Rightarrow> 'f k3_cfg \<Rightarrow> 'f k3_mla_w \<Rightarrow> 'f list list list \<Rightarrow> 'f list list \<times> 'f list list \<Rightarrow> nat \<Rightarrow> nat \<Rightarrow>
   'f list list option" where
  "mla_chunks fp lm avx2 c w [] a cached cap = Some []"
| "mla_chunks fp lm avx2 c w (xs # xss) a cached cap =
     (case k3_mla_cached fp lm avx2 c w xs (Some a) cached cap of None \<Rightarrow> None
      | Some (o1, a1) \<Rightarrow> map_option (\<lambda>o2. o1 @ o2) (mla_chunks fp lm avx2 c w xss a1 (cached + length xs) cap))"

lemma mla_chunks_concat:
  assumes "cached \<le> cap"
  shows "mla_chunks fp lm avx2 c w xss a cached cap = map_option fst (k3_mla_cached fp lm avx2 c w (concat xss) (Some a) cached cap)"
  using assms
proof (induction xss arbitrary: a cached)
  case Nil
  then show ?case by (cases a) (simp add: mla_cached_eq Let_def)
next
  case (Cons xs xss)
  show ?case
  proof (cases "k3_mla_cached fp lm avx2 c w xs (Some a) cached cap")
    case None
    then show ?thesis by (simp add: mla_cached_append)
  next
    case (Some r)
    obtain o1 a1 where r: "r = (o1, a1)" by (cases r)
    have "cached + length xs \<le> cap"
      using Some by (cases a) (auto simp: mla_cached_eq split: if_splits)
    then show ?thesis
      by (simp add: mla_cached_append Some r Cons.IH option.map_comp comp_def split_beta)
  qed
qed

text \<open>C23: However a sequence is cut into chunks, down to one token at a time, the MLA layer run chunk by
  chunk over a KV cache with room for it gives exactly the rows of the single uncached call: incremental
  decoding recomputes nothing and changes nothing.\<close>

theorem mla_incremental_exact:
  assumes "length (concat xss) \<le> length kv" "length (concat xss) \<le> length rope" "length (concat xss) \<le> cap"
  shows "mla_chunks fp lm avx2 c w xss (kv, rope) 0 cap = k3_mla fp lm avx2 c w (concat xss)"
  using mla_fresh [OF assms] by (simp add: mla_chunks_concat)

definition one_mla :: "int k3_mla_w" where
  "one_mla = \<lparr>mw_q_a = K3_WF32 [1], mw_q_b = K3_WF32 [1, 2], mw_kv_a = K3_WF32 [1, 1], mw_kv_b = K3_WF32 [2, 1], mw_o = K3_WF32 [1], mw_g = None,
     mw_q_a_norm = [1], mw_kv_a_norm = [1]\<rparr>"

theorem mla_incremental_exact_witness:
  "mla_chunks int_fpu int_libm False one_kc one_mla [[[1]], [[2], [3]]] (replicate 4 [], replicate 4 []) 0 4 =
     k3_mla int_fpu int_libm False one_kc one_mla [[1], [2], [3]] \<and> k3_mla int_fpu int_libm False one_kc one_mla [[1], [2], [3]] \<noteq> None"
proof -
  have "k3_mla int_fpu int_libm False one_kc one_mla [[1], [2], [3]] \<noteq> None" by (simp add: k3_mla_def k3_mla_cached_def Let_def)
  then show ?thesis
    using mla_incremental_exact [of "[[[1]], [[2], [3]]]" "replicate 4 []" "replicate 4 []" 4 int_fpu int_libm False one_kc one_mla] by simp
qed

section \<open>Matrix products\<close>

lemma bf16_avx2_row:
  "k3_matmul_bf16 fp True x W nin nout = map (\<lambda>p. f_of_d fp (eng_avx2_dot_bf16_exact fp x (drop (p * nin) W) nin)) [0..<nout]"
  by (simp add: k3_matmul_bf16_def eng_avx2_dot_bf16_exact_def bf16_to_pd4_def k3_bf16f_def eng_bf16f_def Let_def case_prod_beta)

lemma bf16_scalar_row:
  "k3_matmul_bf16 fp False x W nin nout = map (\<lambda>p. f_of_d fp (eng_ref_dot_bf16_exact fp x (drop (p * nin) W) nin)) [0..<nout]"
  by (simp add: k3_matmul_bf16_def eng_ref_dot_bf16_exact_def k3_bf16f_def eng_bf16f_def Let_def)

lemma bf16_any_build: "k3_matmul_bf16 fp avx2 x W nin nout = map (\<lambda>p. f_of_d fp (eng_ref_dot_bf16_exact fp x (drop (p * nin) W) nin)) [0..<nout]"
  by (cases avx2) (simp_all add: bf16_avx2_row bf16_scalar_row avx2_bf16_exact_same)

text \<open>C26: A product over bf16 storage equals, bit for bit and in either build, the product over the
  same weights widened to floats beforehand.\<close>

theorem bf16_storage_exact:
  assumes "nin * nout \<le> length W"
  shows "k3_mmw fp avx2 x (K3_WBF16 W) nin nout = k3_mmw fp avx2' x (K3_WF32 (map (k3_bf16f fp) W)) nin nout"
proof -
  have "dot_exact_loop fp (\<lambda>i. d_of_f fp (eng_bf16f fp (drop (p * nin) W ! i))) (\<lambda>i. d_of_f fp (x ! i)) nin =
        dot_exact_loop fp (\<lambda>i. d_of_f fp (drop (p * nin) (map (k3_bf16f fp) W) ! i)) (\<lambda>i. d_of_f fp (x ! i)) nin"
    if p: "p < nout" for p
  proof (rule dot_exact_loop_cong)
    fix i assume i: "i < nin"
    have "p * nin + i < length W"
    proof -
      have "p * nin + i < Suc p * nin" using i by simp
      also have "\<dots> \<le> nout * nin" using p by (intro mult_le_mono1) simp
      finally show ?thesis using assms by (simp add: mult.commute)
    qed
    then show "d_of_f fp (eng_bf16f fp (drop (p * nin) W ! i)) = d_of_f fp (drop (p * nin) (map (k3_bf16f fp) W) ! i) \<and>
        d_of_f fp (x ! i) = d_of_f fp (x ! i)"
      by (simp add: k3_bf16f_def eng_bf16f_def)
  qed
  then show ?thesis by (simp add: bf16_any_build eng_ref_dot_bf16_exact_def k3_matmul_def Let_def)
qed

theorem bf16_storage_exact_witness:
  "k3_mmw int_fpu True [3, 5] (K3_WBF16 [1, 2, 3, 4]) 2 2 = k3_mmw int_fpu False [3, 5] (K3_WF32 (map (k3_bf16f int_fpu) [1, 2, 3, 4])) 2 2"
  using bf16_storage_exact [of 2 2 "[1, 2, 3, 4]" int_fpu True "[3, 5]" False] by simp

section \<open>KDA\<close>

lemma conv_chan_append:
  "conv_chan fp w hist buf (xs @ ys) =
     (let (o1, buf) = conv_chan fp w hist buf xs; (o2, buf) = conv_chan fp w hist buf ys in (o1 @ o2, buf))"
  by (induction xs arbitrary: buf) (simp_all add: Let_def case_prod_beta)

lemma conv_chan_length [simp]: "length (fst (conv_chan fp w hist buf xs)) = length xs"
  by (induction xs arbitrary: buf) (simp_all add: Let_def case_prod_beta)

lemma shortconv_append:
  "k3_shortconv fp (xs @ ys) w (Some st) channels k =
     (let (o1, s1) = k3_shortconv fp xs w (Some st) channels k; (o2, s2) = k3_shortconv fp ys w s1 channels k in (o1 @ o2, s2))"
  unfolding k3_shortconv_def Let_def
  by (auto simp: conv_chan_append Let_def case_prod_beta nth_append intro!: nth_equalityI)

lemma shortconv_length [simp]: "length (fst (k3_shortconv fp x w st channels k)) = length x"
  by (simp add: k3_shortconv_def Let_def)

lemma shortconv_state: "\<exists>s. snd (k3_shortconv fp x w (Some st) channels k) = Some s"
  by (simp add: k3_shortconv_def Let_def)

lemma kda_head_append:
  "kda_head fp lm D h S (xs @ ys) = (let (o1, S) = kda_head fp lm D h S xs; (o2, S) = kda_head fp lm D h S ys in (o1 @ o2, S))"
  by (induction xs arbitrary: S) (simp_all add: Let_def case_prod_beta)

lemma kda_head_length [simp]: "length (fst (kda_head fp lm D h S xs)) = length xs"
  by (induction xs arbitrary: S) (simp_all add: Let_def case_prod_beta)

definition kda_fresh :: "('f, 'd) fpu \<Rightarrow> 'f k3_cfg \<Rightarrow> 'f kda_state" where
  "kda_fresh fp c = (let H = kc_kda_heads c; D = kc_kda_head_dim c;
       conv = replicate (H * D) (replicate (kc_conv_k c - 1) (f_of_int fp 0))
     in \<lparr>ks_S = replicate H (replicate D (replicate D (f_of_int fp 0))), ks_q = conv, ks_k = conv, ks_v = conv\<rparr>)"

lemma shortconv_fresh:
  "fst (k3_shortconv fp x w None channels k) = fst (k3_shortconv fp x w (Some (replicate channels (replicate (k - 1) (f_of_int fp 0)))) channels k)"
  by (simp add: k3_shortconv_def Let_def)

lemma kda_layer_fresh: "fst (k3_kda_layer fp lm avx2 c w x None) = fst (k3_kda_layer fp lm avx2 c w x (Some (kda_fresh fp c)))"
  by (simp add: k3_kda_layer_def kda_fresh_def Let_def case_prod_beta shortconv_fresh)

text \<open>What the tokens of a call feed to the recurrence.\<close>

definition kda_ins ::
  "('f, 'd) fpu \<Rightarrow> 'f libm \<Rightarrow> bool \<Rightarrow> 'f k3_cfg \<Rightarrow> 'f k3_kda_w \<Rightarrow> 'f list list \<Rightarrow> 'f list list \<Rightarrow> 'f list list \<Rightarrow> 'f list list \<Rightarrow> 'f kda_in list" where
  "kda_ins fp lm avx2 c w x q k v =
     (let E = kc_hidden c; H = kc_kda_heads c; D = kc_kda_head_dim c; nrm = each_slice H D (\<lambda>s. l2norm fp s D (lm_tiny lm)) in
      map (\<lambda>t. (nrm (q ! t), nrm (k ! t), v ! t,
        k3_kda_decay fp (k3_mmw fp avx2 (k3_mmw fp avx2 (x ! t) (kw_f_a w) E D) (kw_f_b w) D (H * D)) (kw_A_log w) (kw_dt_bias w) H D (kc_gate_lb c),
        map (\<lambda>b. sigmoidf fp b) (k3_mmw fp avx2 (x ! t) (kw_b w) E H))) [0..<length x])"

lemma kda_ins_append:
  assumes "length q = length x" "length k = length x" "length v = length x"
  shows "kda_ins fp lm avx2 c w (x @ y) (q @ q') (k @ k') (v @ v') = kda_ins fp lm avx2 c w x q k v @ kda_ins fp lm avx2 c w y q' k' v'"
  unfolding kda_ins_def Let_def by (rule nth_equalityI) (auto simp: assms nth_append)

lemma kda_ins_length [simp]: "length (kda_ins fp lm avx2 c w x q k v) = length x"
  by (simp add: kda_ins_def Let_def)

definition kda_conv :: "('f, 'd) fpu \<Rightarrow> bool \<Rightarrow> 'f k3_cfg \<Rightarrow> 'f k3_mat \<Rightarrow> 'f list \<Rightarrow> 'f list list \<Rightarrow> 'f list list option \<Rightarrow> 'f list list \<times> 'f list list option" where
  "kda_conv fp avx2 c m cw x st =
     (let P = kc_kda_heads c * kc_kda_head_dim c in k3_shortconv fp (map (\<lambda>xt. k3_mmw fp avx2 xt m (kc_hidden c) P) x) cw st P (kc_conv_k c))"

lemma kda_conv_append:
  "kda_conv fp avx2 c m cw (xs @ ys) (Some st) =
     (let (o1, s1) = kda_conv fp avx2 c m cw xs (Some st); (o2, s2) = kda_conv fp avx2 c m cw ys s1 in (o1 @ o2, s2))"
  by (simp add: kda_conv_def Let_def shortconv_append)

lemma kda_conv_length [simp]: "length (fst (kda_conv fp avx2 c m cw x st)) = length x"
  by (simp add: kda_conv_def Let_def)

lemma kda_conv_state: "\<exists>o' s. kda_conv fp avx2 c m cw x (Some st) = (o', Some s) \<and> length o' = length x"
  by (simp add: kda_conv_def k3_shortconv_def Let_def)

definition kda_run where
  "kda_run fp lm c S ins = map (\<lambda>h. kda_head fp lm (kc_kda_head_dim c) h (S ! h) ins) [0..<kc_kda_heads c]"

definition kda_rows where
  "kda_rows fp avx2 c w x run = map (\<lambda>t. kda_out fp avx2 c w (x ! t) (concat (map (\<lambda>r. fst r ! t) run))) [0..<length x]"

lemma kda_layer_eq:
  "k3_kda_layer fp lm avx2 c w x (Some st) =
     (let (q, cq) = kda_conv fp avx2 c (kw_q w) (kw_q_conv w) x (Some (ks_q st));
          (k, ck) = kda_conv fp avx2 c (kw_k w) (kw_k_conv w) x (Some (ks_k st));
          (v, cv) = kda_conv fp avx2 c (kw_v w) (kw_v_conv w) x (Some (ks_v st));
          run = kda_run fp lm c (ks_S st) (kda_ins fp lm avx2 c w x q k v)
      in (kda_rows fp avx2 c w x run, Some \<lparr>ks_S = map snd run, ks_q = the cq, ks_k = the ck, ks_v = the cv\<rparr>))"
proof -
  have ins: "map (\<lambda>t. (nrm (q ! t), nrm (k ! t), v ! t, map f (map g x) ! t, map h x ! t)) [0..<length x] =
      map (\<lambda>t. (nrm (q ! t), nrm (k ! t), v ! t, f (g (x ! t)), h (x ! t))) [0..<length x]" for nrm :: "'a list \<Rightarrow> 'a list" and q k v f and g :: "'a list \<Rightarrow> 'a list" and h
    by simp
  have rows: "map (\<lambda>t. kda_out fp avx2 c w (x ! t) (map f [0..<length x] ! t)) [0..<length x] = map (\<lambda>t. kda_out fp avx2 c w (x ! t) (f t)) [0..<length x]" for f
    by simp
  show ?thesis
    unfolding k3_kda_layer_def kda_conv_def kda_ins_def kda_run_def kda_rows_def Let_def case_prod_beta ins rows by simp
qed

lemma kda_rows_append:
  assumes "\<And>h. h < n \<Longrightarrow> fst (f h) = fst (g h) @ fst (g' h) \<and> length (fst (g h)) = length xs"
  shows "kda_rows fp avx2 c w (xs @ ys) (map f [0..<n]) = kda_rows fp avx2 c w xs (map g [0..<n]) @ kda_rows fp avx2 c w ys (map g' [0..<n])"
proof -
  have m: "map (\<lambda>h. fst (f h) ! t) [0..<n] = (if t < length xs then map (\<lambda>h. fst (g h) ! t) [0..<n] else map (\<lambda>h. fst (g' h) ! (t - length xs)) [0..<n])" for t
    using assms by (auto simp: nth_append)
  show ?thesis unfolding kda_rows_def by (rule nth_equalityI) (auto simp: nth_append m comp_def)
qed

lemma kda_layer_append:
  "k3_kda_layer fp lm avx2 c w (xs @ ys) (Some st) =
     (let (o1, s1) = k3_kda_layer fp lm avx2 c w xs (Some st); (o2, s2) = k3_kda_layer fp lm avx2 c w ys s1 in (o1 @ o2, s2))"
proof -
  obtain q cq where q: "kda_conv fp avx2 c (kw_q w) (kw_q_conv w) xs (Some (ks_q st)) = (q, Some cq)" "length q = length xs"
    using kda_conv_state by blast
  obtain k ck where k: "kda_conv fp avx2 c (kw_k w) (kw_k_conv w) xs (Some (ks_k st)) = (k, Some ck)" "length k = length xs"
    using kda_conv_state by blast
  obtain v cv where v: "kda_conv fp avx2 c (kw_v w) (kw_v_conv w) xs (Some (ks_v st)) = (v, Some cv)" "length v = length xs"
    using kda_conv_state by blast
  let ?kv = "\<lambda>m cw s. kda_conv fp avx2 c m cw ys (Some s)"
  let ?i1 = "kda_ins fp lm avx2 c w xs q k v"
    and ?i2 = "kda_ins fp lm avx2 c w ys (fst (?kv (kw_q w) (kw_q_conv w) cq)) (fst (?kv (kw_k w) (kw_k_conv w) ck)) (fst (?kv (kw_v w) (kw_v_conv w) cv))"
  define S1 where S1: "S1 = map snd (kda_run fp lm c (ks_S st) ?i1)"
  have rows: "kda_rows fp avx2 c w (xs @ ys) (kda_run fp lm c (ks_S st) (?i1 @ ?i2)) =
      kda_rows fp avx2 c w xs (kda_run fp lm c (ks_S st) ?i1) @ kda_rows fp avx2 c w ys (kda_run fp lm c S1 ?i2)"
    unfolding kda_run_def
    by (rule kda_rows_append) (simp add: S1 kda_run_def kda_head_append Let_def case_prod_beta)
  have states: "map snd (kda_run fp lm c (ks_S st) (?i1 @ ?i2)) = map snd (kda_run fp lm c S1 ?i2)"
    by (simp add: S1 kda_run_def kda_head_append Let_def case_prod_beta)
  show ?thesis
    by (simp add: kda_layer_eq kda_conv_append q k v kda_ins_append rows states S1 [symmetric] Let_def case_prod_beta)
qed

text \<open>A run over chunks, the state carried.\<close>

fun kda_chunks ::
  "('f, 'd) fpu \<Rightarrow> 'f libm \<Rightarrow> bool \<Rightarrow> 'f k3_cfg \<Rightarrow> 'f k3_kda_w \<Rightarrow> 'f list list list \<Rightarrow> 'f kda_state option \<Rightarrow> 'f list list" where
  "kda_chunks fp lm avx2 c w [] st = []"
| "kda_chunks fp lm avx2 c w (xs # xss) st = (let (o1, st) = k3_kda_layer fp lm avx2 c w xs st in o1 @ kda_chunks fp lm avx2 c w xss st)"

lemma kda_layer_keeps_state: "\<exists>o' s. k3_kda_layer fp lm avx2 c w x (Some st) = (o', Some s)"
  by (simp add: kda_layer_eq Let_def case_prod_beta)

lemma kda_chunks_concat: "kda_chunks fp lm avx2 c w xss (Some st) = fst (k3_kda_layer fp lm avx2 c w (concat xss) (Some st))"
proof (induction xss arbitrary: st)
  case Nil
  then show ?case by (simp add: kda_layer_eq kda_rows_def Let_def case_prod_beta)
next
  case (Cons xs xss)
  obtain o' s where "k3_kda_layer fp lm avx2 c w xs (Some st) = (o', Some s)" using kda_layer_keeps_state by blast
  then show ?case by (simp add: kda_layer_append Cons.IH Let_def case_prod_beta)
qed

text \<open>C24: However a sequence is cut into chunks, a KDA layer started from zeroed state and run chunk by chunk,
  its recurrent matrices and its three convolution histories carried from call to call, gives exactly the
  rows of the one call that keeps no state.\<close>

theorem kda_incremental_exact:
  "kda_chunks fp lm avx2 c w xss (Some (kda_fresh fp c)) = fst (k3_kda_layer fp lm avx2 c w (concat xss) None)"
  by (simp add: kda_chunks_concat kda_layer_fresh)

end
