(* ===== verification/K3_St.thy ===== *)
theory K3_St
  imports Bpe_Map Tensor Storage "HOL-Library.List_Lexorder"
begin

text \<open>
  The safetensors reader of the K3 checkpoint, \<^verbatim>\<open>src/io/k3_st.c\<close>: the header scanner, the name
  index over all shards and the three ways of reading a tensor.

  A \<open>Scan\<close> is the list of bytes between its two pointers; a scanner that fails (a return of 0, a jump
  to \<open>bad\<close>) is \<open>None\<close>.  A scanner that fails may have skipped white space; whatever runs after a failed
  \<open>lit\<close> skips white space again, so the position is not kept.  The tables of a \<open>K3St\<close> are lists; a
  name is the bytes of its C string.  Messages are left out and allocation succeeds, with one
  exception: a header length that is negative as a \<open>ssize_t\<close> is refused (\<open>malloc\<close> or \<open>pread\<close> refuses it).
  Numbers of tensors stay below \<open>2 ^ 29\<close>, where the \<open>int\<close> arithmetic of the index overflows.
\<close>

section \<open>Types\<close>

datatype k3_dtype = K3_DT_UNKNOWN | K3_DT_U8 | K3_DT_BF16 | K3_DT_F16 | K3_DT_F32 | K3_DT_I8R

record k3_tensor =
  kt_name :: "byte list"
  kt_shard :: int
  kt_dtype :: k3_dtype
  kt_shape :: "int list"
  kt_off :: int
  kt_nbytes :: int

text \<open>A shard: its path, size, descriptor and direct descriptor.\<close>

record k3_shard =
  sh_path :: "byte list"
  sh_size :: int
  sh_fd :: pread_fn
  sh_dfd :: "pread_fn option"

record k3_st =
  st_shard :: "k3_shard list"
  st_t :: "k3_tensor list"
  st_bucket :: "int list"

fun k3_st_elemsize :: "k3_dtype \<Rightarrow> int" where
  "k3_st_elemsize K3_DT_U8 = 1"
| "k3_st_elemsize K3_DT_BF16 = 2"
| "k3_st_elemsize K3_DT_F16 = 2"
| "k3_st_elemsize K3_DT_F32 = 4"
| "k3_st_elemsize K3_DT_UNKNOWN = 0"
| "k3_st_elemsize K3_DT_I8R = 0"

definition k3_st_numel :: "int list \<Rightarrow> int" where
  "k3_st_numel shape = foldl (\<lambda>n d. i64 (n * d)) 1 shape"

definition dtype_of :: "byte list \<Rightarrow> k3_dtype" where
  "dtype_of s = (if s = ascii ''U8'' then K3_DT_U8 else if s = ascii ''BF16'' then K3_DT_BF16
     else if s = ascii ''F16'' then K3_DT_F16 else if s = ascii ''F32'' then K3_DT_F32 else K3_DT_UNKNOWN)"

definition fnv1a :: "byte list \<Rightarrow> 64 word" where
  "fnv1a s = foldl (\<lambda>h b. (h XOR ucast b) * 1099511628211) 1469598103934665603 s"

section \<open>The scanner\<close>

definition ws :: "byte list \<Rightarrow> byte list" where
  "ws s = dropWhile (\<lambda>c. c \<le> 32) s"

definition lit :: "byte \<Rightarrow> byte list \<Rightarrow> byte list option" where
  "lit c s = (case ws s of [] \<Rightarrow> None | x # r \<Rightarrow> if x = c then Some r else None)"

text \<open>A hexadecimal digit as the source computes it from a signed \<open>char\<close>.\<close>

definition hex_digit :: "byte \<Rightarrow> 32 word" where
  "hex_digit h = word_of_int (if sint h \<le> 57 then sint h - 48 else (sint h OR 32) - 97 + 10)"

definition u_escape :: "byte list \<Rightarrow> byte" where
  "u_escape hs = (let v = foldl (\<lambda>v h. v * 16 + hex_digit h) 0 hs in if v < 128 then ucast v else 63)"

definition escape :: "byte \<Rightarrow> byte" where
  "escape e = (if e = 110 then 10 else if e = 116 then 9 else if e = 114 then 13 else if e = 98 then 8
     else if e = 102 then 12 else e)"

fun str_body :: "byte list \<Rightarrow> (byte list \<times> byte list) option" where
  "str_body [] = None"
| "str_body (c # r) =
     (if c = 34 then Some ([], r)
      else if c = 92
      then (case r of [] \<Rightarrow> None
            | e # r \<Rightarrow>
                if e = 117
                then (case r of h1 # h2 # h3 # h4 # r \<Rightarrow> map_option (apfst ((#) (u_escape [h1, h2, h3, h4]))) (str_body r)
                      | _ \<Rightarrow> None)
                else map_option (apfst ((#) (escape e))) (str_body r))
      else map_option (apfst ((#) c)) (str_body r))"

definition scan_str :: "nat \<Rightarrow> byte list \<Rightarrow> (byte list \<times> byte list) option" where
  "scan_str cap s =
     (case ws s of [] \<Rightarrow> None
      | q # r \<Rightarrow> if q \<noteq> 34 then None
          else (case str_body r of None \<Rightarrow> None
                | Some (out, r) \<Rightarrow> if length out + 1 > cap then None else Some (out, r)))"

definition is_dig :: "byte \<Rightarrow> bool" where
  "is_dig c \<longleftrightarrow> 48 \<le> c \<and> c \<le> 57"

definition scan_i64 :: "byte list \<Rightarrow> (int \<times> byte list) option" where
  "scan_i64 s =
     (let s = ws s;
          neg = (s \<noteq> [] \<and> hd s = 45);
          s = (if s \<noteq> [] \<and> (hd s = 45 \<or> hd s = 43) then tl s else s)
      in if s = [] \<or> \<not> is_dig (hd s) then None
         else let a = foldl (\<lambda>a c. i64 (a * 10 + (uint c - 48))) 0 (takeWhile is_dig s)
              in Some (if neg then i64 (- a) else a, dropWhile is_dig s))"

text \<open>Past the closing quote of a string.\<close>

fun skip_str :: "byte list \<Rightarrow> byte list option" where
  "skip_str [] = None"
| "skip_str (c # r) =
     (if c = 34 then Some r
      else if c = 92 then (case r of [] \<Rightarrow> None | _ # r \<Rightarrow> skip_str r)
      else skip_str r)"

lemma skip_str_length: "skip_str s = Some r \<Longrightarrow> length r < length s"
  by (induction s rule: skip_str.induct) (auto split: if_splits list.splits)

function skip_nest :: "int \<Rightarrow> byte list \<Rightarrow> byte list option" where
  "skip_nest depth s =
     (case s of [] \<Rightarrow> None
      | c # r \<Rightarrow>
          if c = 34
          then (case skip_str r of None \<Rightarrow> None
                | Some r \<Rightarrow> if depth > 0 then skip_nest depth r else Some r)
          else let depth = (if c = 123 \<or> c = 91 then depth + 1 else if c = 125 \<or> c = 93 then depth - 1 else depth)
               in if depth > 0 then skip_nest depth r else Some r)"
  by pat_completeness auto
termination
  by (relation "measure (\<lambda>(depth, s). length s)") (auto dest!: skip_str_length)

declare skip_nest.simps [simp del]

definition skip_value :: "byte list \<Rightarrow> byte list option" where
  "skip_value s =
     (case ws s of [] \<Rightarrow> None
      | c # r \<Rightarrow>
          if c = 34 then skip_str r
          else if c = 123 \<or> c = 91 then skip_nest 0 (c # r)
          else Some (dropWhile (\<lambda>c. c \<noteq> 44 \<and> c \<noteq> 125 \<and> c \<noteq> 93) (c # r)))"

section \<open>One shard\<close>

text \<open>An entry while its fields are read: \<open>kt_off\<close> and \<open>kt_nbytes\<close> come from the two offsets at the end.\<close>

record st_entry =
  en_dtype :: "k3_dtype option"
  en_shape :: "int list"
  en_offs :: "(int \<times> int) option"

function scan_dims :: "int list \<Rightarrow> byte list \<Rightarrow> (int list \<times> byte list) option" where
  "scan_dims sh s =
     (case scan_i64 s of None \<Rightarrow> None
      | Some (d, s) \<Rightarrow>
          if length sh < 4
          then (case lit 44 s of
                  Some s \<Rightarrow> scan_dims (sh @ [d]) s
                | None \<Rightarrow> (case lit 93 s of Some s \<Rightarrow> Some (sh @ [d], s) | None \<Rightarrow> None))
          else None)"
  by pat_completeness auto
termination
  by (relation "measure (\<lambda>(sh, s). 4 - length sh)") auto

declare scan_dims.simps [simp del]

definition scan_field :: "st_entry \<Rightarrow> byte list \<Rightarrow> (st_entry \<times> byte list) option" where
  "scan_field e s =
     Option.bind (scan_str 64 s) (\<lambda>(key, s).
     Option.bind (lit 58 s) (\<lambda>s.
       if cstr key = ascii ''dtype''
       then Option.bind (scan_str 32 s) (\<lambda>(dv, s).
              if dtype_of dv = K3_DT_UNKNOWN then None else Some (e\<lparr>en_dtype := Some (dtype_of dv)\<rparr>, s))
       else if cstr key = ascii ''shape''
       then Option.bind (lit 91 s) (\<lambda>s.
              if ws s \<noteq> [] \<and> hd (ws s) = 93 then Some (e, tl (ws s))
              else map_option (apfst (\<lambda>sh. e\<lparr>en_shape := sh\<rparr>)) (scan_dims (en_shape e) s))
       else if cstr key = ascii ''data_offsets''
       then Option.bind (lit 91 s) (\<lambda>s.
            Option.bind (scan_i64 s) (\<lambda>(o0, s).
            Option.bind (lit 44 s) (\<lambda>s.
            Option.bind (scan_i64 s) (\<lambda>(o1, s).
            Option.bind (lit 93 s) (\<lambda>s. Some (e\<lparr>en_offs := Some (o0, o1)\<rparr>, s))))))
       else map_option (\<lambda>s. (e, s)) (skip_value s)))"

text \<open>Every scanner moves forward.\<close>

lemma ws_length: "length (ws s) \<le> length s"
  by (simp add: ws_def length_dropWhile_le)

lemma lit_length: "lit c s = Some r \<Longrightarrow> length r < length s"
  using ws_length [of s] by (auto simp: lit_def split: list.splits if_splits)

lemma str_body_length: "str_body s = Some (out, r) \<Longrightarrow> length r < length s"
  by (induction s arbitrary: out rule: str_body.induct) (fastforce split: if_splits list.splits)+

lemma str_length: "scan_str cap s = Some (out, r) \<Longrightarrow> length r < length s"
  using ws_length [of s] by (auto simp: scan_str_def split: list.splits if_splits option.splits dest!: str_body_length)

lemma i64_length: "scan_i64 s = Some (v, r) \<Longrightarrow> length r \<le> length s"
  using ws_length [of s] length_dropWhile_le [of is_dig "ws s"] length_dropWhile_le [of is_dig "tl (ws s)"]
  by (auto simp: scan_i64_def Let_def split: if_splits)

lemma skip_nest_length: "skip_nest d s = Some r \<Longrightarrow> length r < length s"
proof (induction d s rule: skip_nest.induct)
  case (1 d s)
  then show ?case
    by (subst (asm) (3) skip_nest.simps) (fastforce simp: Let_def split: list.splits if_splits option.splits dest!: skip_str_length)
qed


lemma skip_value_length: "skip_value s = Some r \<Longrightarrow> length r \<le> length s"
proof -
  assume a: "skip_value s = Some r"
  obtain c cs where cs: "ws s = c # cs" using a by (auto simp: skip_value_def split: list.splits)
  have "length (c # cs) \<le> length s" using ws_length [of s] cs by simp
  moreover have "length r \<le> length (c # cs)"
    using a [unfolded skip_value_def cs] length_dropWhile_le [of "\<lambda>c. c \<noteq> 44 \<and> c \<noteq> 125 \<and> c \<noteq> 93" "c # cs"]
    by (auto split: if_splits dest!: skip_str_length skip_nest_length)
  ultimately show ?thesis by linarith
qed

lemma scan_dims_length: "scan_dims sh s = Some (sh', r) \<Longrightarrow> length r < length s"
proof (induction sh s rule: scan_dims.induct)
  case (1 sh s)
  from 1(2) obtain d s1 where d: "scan_i64 s = Some (d, s1)" "length sh < 4"
    by (subst (asm) scan_dims.simps) (auto split: option.splits if_splits)
  show ?case
  proof (cases "lit 44 s1")
    case None
    then show ?thesis using 1(2) d by (subst (asm) scan_dims.simps) (auto split: option.splits dest!: i64_length lit_length)
  next
    case (Some s2)
    have "scan_dims (sh @ [d]) s2 = Some (sh', r)" using 1(2) d Some by (subst (asm) scan_dims.simps) simp
    from 1(1) [OF d(1) refl d(2) Some this] i64_length [OF d(1)] lit_length [OF Some] show ?thesis by linarith
  qed
qed

lemma tl_ws_length: "length (tl (ws s)) \<le> length s"
  using ws_length [of s] by simp

lemma scan_field_length: "scan_field e s = Some (e', r) \<Longrightarrow> length r < length s"
proof -
  assume a: "scan_field e s = Some (e', r)"
  then obtain key s1 s2 where k: "scan_str 64 s = Some (key, s1)" "lit 58 s1 = Some s2"
    by (auto simp: scan_field_def split: bind_splits)
  have "length r \<le> length s2"
    using a k
    by (auto simp: scan_field_def split: if_splits bind_splits
        dest!: str_length lit_length i64_length skip_value_length scan_dims_length intro: order_trans [OF tl_ws_length])
  with str_length [OF k(1)] lit_length [OF k(2)] show ?thesis by linarith
qed

function scan_fields :: "bool \<Rightarrow> st_entry \<Rightarrow> byte list \<Rightarrow> (st_entry \<times> byte list) option" where
  "scan_fields f1 e s =
     (if ws s \<noteq> [] \<and> hd (ws s) = 125 then Some (e, tl (ws s))
      else (case (if f1 then Some s else lit 44 s) of None \<Rightarrow> None
            | Some s \<Rightarrow> (case scan_field e s of None \<Rightarrow> None | Some (e, s) \<Rightarrow> scan_fields False e s)))"
  by pat_completeness auto
termination
  by (relation "measure (\<lambda>(f1, e, s). length s)") (auto split: if_splits dest!: scan_field_length lit_length)

declare scan_fields.simps [simp del]

text \<open>The checks made on a complete entry.\<close>

definition finish_entry :: "int \<Rightarrow> int \<Rightarrow> int \<Rightarrow> byte list \<Rightarrow> st_entry \<Rightarrow> k3_tensor option" where
  "finish_entry base fsize shard name e =
     (case (en_dtype e, en_offs e) of
        (Some dt, Some (o0, o1)) \<Rightarrow>
          let t = \<lparr>kt_name = cstr name, kt_shard = shard, kt_dtype = dt, kt_shape = en_shape e,
                   kt_off = i64 (base + o0), kt_nbytes = i64 (o1 - o0)\<rparr>;
              want = i64 (k3_st_numel (kt_shape t) * k3_st_elemsize dt)
          in if kt_nbytes t \<noteq> want then None
             else if i64 (base + o1) > fsize then None
             else Some t
      | _ \<Rightarrow> None)"

text \<open>One member of the header object: the tensors it adds and the rest of the header.\<close>

definition scan_entry :: "int \<Rightarrow> int \<Rightarrow> int \<Rightarrow> byte list \<Rightarrow> (k3_tensor list \<times> byte list) option" where
  "scan_entry base fsize shard s =
     Option.bind (scan_str 512 s) (\<lambda>(name, s).
     Option.bind (lit 58 s) (\<lambda>s.
       if cstr name = ascii ''__metadata__'' then map_option (\<lambda>s. ([], s)) (skip_value s)
       else Option.bind (lit 123 s) (\<lambda>s.
            Option.bind (scan_fields True \<lparr>en_dtype = None, en_shape = [], en_offs = None\<rparr> s) (\<lambda>(e, s).
            Option.bind (finish_entry base fsize shard name e) (\<lambda>t. Some ([t], s))))))"

lemma scan_fields_length: "scan_fields f e s = Some (e', r) \<Longrightarrow> length r < length s"
proof (induction f e s rule: scan_fields.induct)
  case (1 f e s)
  show ?case
  proof (cases "ws s \<noteq> [] \<and> hd (ws s) = 125")
    case True
    then have "r = tl (ws s)" using 1(2) by (subst (asm) scan_fields.simps) simp
    then show ?thesis using ws_length [of s] True by (cases "ws s") auto
  next
    case False
    then obtain s1 e1 s2 where s: "(if f then Some s else lit 44 s) = Some s1" "scan_field e s1 = Some (e1, s2)"
        "scan_fields False e1 s2 = Some (e', r)"
      using 1(2) by (subst (asm) scan_fields.simps) (auto split: option.splits if_splits)
    have "length r < length s2" by (rule 1(1) [OF False s(1) s(2) refl s(3)])
    moreover have "length s1 \<le> length s" using s(1) by (auto split: if_splits dest!: lit_length)
    ultimately show ?thesis using scan_field_length [OF s(2)] by linarith
  qed
qed

lemma scan_entry_length: "scan_entry base fsize shard s = Some (ts, r) \<Longrightarrow> length r < length s"
  by (fastforce simp: scan_entry_def split: if_splits bind_splits dest!: str_length lit_length skip_value_length scan_fields_length)

function scan_entries :: "int \<Rightarrow> int \<Rightarrow> int \<Rightarrow> bool \<Rightarrow> k3_tensor list \<Rightarrow> byte list \<Rightarrow> k3_tensor list option" where
  "scan_entries base fsize shard first acc s =
     (if ws s \<noteq> [] \<and> hd (ws s) = 125 then Some acc
      else (case (if first then Some s else lit 44 s) of None \<Rightarrow> None
            | Some s \<Rightarrow>
                if ws s \<noteq> [] \<and> hd (ws s) = 125 then Some acc
                else (case scan_entry base fsize shard s of None \<Rightarrow> None
                      | Some (ts, s) \<Rightarrow> scan_entries base fsize shard False (acc @ ts) s)))"
  by pat_completeness auto
termination
  by (relation "measure (\<lambda>(base, fsize, shard, first, acc, s). length s)") (auto split: if_splits dest!: scan_entry_length lit_length)

declare scan_entries.simps [simp del]

text \<open>Eight little-endian bytes.\<close>

definition header_len :: "byte list \<Rightarrow> 64 word" where
  "header_len lenbuf = foldl (\<lambda>h i. push_bit 8 h OR ucast (lenbuf ! i)) 0 (rev [0..<8])"

definition scan_shard :: "int \<Rightarrow> k3_shard option \<Rightarrow> k3_tensor list option" where
  "scan_shard shard file =
     (case file of None \<Rightarrow> None
      | Some f \<Rightarrow>
          let lenbuf = sh_fd f 0 8; hlen = header_len lenbuf in
          if length lenbuf \<noteq> 8 then None
          else if hlen = 0 \<or> word_of_int (sh_size f) < 8 + hlen then None
          else if sint hlen < 0 then None
          else let json = pread_loop (sh_fd f) (sint hlen) 8 []; base = sint (8 + hlen) in
               if int (length json) \<noteq> sint hlen then None
               else Option.bind (lit 123 json) (scan_entries base (sh_size f) shard True []))"

section \<open>The index\<close>

fun scan_shards :: "int \<Rightarrow> (byte list \<times> k3_shard option) list \<Rightarrow> k3_tensor list option" where
  "scan_shards i [] = Some []"
| "scan_shards i ((name, f) # fs) =
     Option.bind (scan_shard i f) (\<lambda>ts. map_option (\<lambda>us. ts @ us) (scan_shards (i + 1) fs))"

text \<open>
  The bucket of a name or the first free one, from bucket \<open>j\<close> on; \<open>None\<close> would be a loop that never
  ends.
\<close>

fun st_slot :: "k3_tensor list \<Rightarrow> int list \<Rightarrow> byte list \<Rightarrow> int \<Rightarrow> nat \<Rightarrow> int option" where
  "st_slot ts bk name j 0 = None"
| "st_slot ts bk name j (Suc n) =
     (if bk ! nat j < 0 then Some j
      else if kt_name (ts ! nat (bk ! nat j)) = name then Some j
      else st_slot ts bk name ((j + 1) AND (int (length bk) - 1)) n)"

definition st_home :: "int list \<Rightarrow> byte list \<Rightarrow> int" where
  "st_home bk name = sint (ucast (fnv1a name AND word_of_int (int (length bk) - 1)) :: 32 word)"

definition st_insert :: "k3_tensor list \<Rightarrow> int list \<Rightarrow> nat \<Rightarrow> int list option" where
  "st_insert ts bk i =
     (case st_slot ts bk (kt_name (ts ! i)) (st_home bk (kt_name (ts ! i))) (length bk) of
        None \<Rightarrow> None
      | Some j \<Rightarrow> if bk ! nat j \<ge> 0 then None else Some (bk[nat j := int i]))"

fun st_index :: "k3_tensor list \<Rightarrow> int list \<Rightarrow> nat list \<Rightarrow> int list option" where
  "st_index ts bk [] = Some bk"
| "st_index ts bk (i # is) = Option.bind (st_insert ts bk i) (\<lambda>bk. st_index ts bk is)"

definition is_safetensors :: "byte list \<Rightarrow> bool" where
  "is_safetensors n \<longleftrightarrow> length n \<ge> 12 \<and> drop (length n - 12) n = ascii ''.safetensors''"

text \<open>\<open>dir\<close> is the directory in the order of \<open>readdir\<close>; a file that cannot be opened is \<open>None\<close>.\<close>

definition k3_st_open :: "(byte list \<times> k3_shard option) list \<Rightarrow> k3_st option" where
  "k3_st_open dir =
     (let files = sort_key fst (filter (\<lambda>(n, f). is_safetensors n) dir) in
      if files = [] then None
      else Option.bind (scan_shards 0 files) (\<lambda>ts.
        let nb = grow_cap 1024 (int (length ts)) in
        map_option (\<lambda>bk. \<lparr>st_shard = map (\<lambda>(n, f). the f) files, st_t = ts, st_bucket = bk\<rparr>)
          (st_index ts (replicate (nat nb) (-1)) [0..<length ts])))"

definition st_find_idx :: "k3_st \<Rightarrow> byte list \<Rightarrow> int" where
  "st_find_idx s name =
     (if st_bucket s = [] then -1
      else case st_slot (st_t s) (st_bucket s) name (st_home (st_bucket s) name) (length (st_bucket s)) of
             None \<Rightarrow> -1
           | Some j \<Rightarrow> st_bucket s ! nat j)"

definition k3_st_find :: "k3_st \<Rightarrow> byte list \<Rightarrow> k3_tensor option" where
  "k3_st_find s name = (let i = st_find_idx s name in if i < 0 then None else Some (st_t s ! nat i))"

section \<open>Reading\<close>

definition K3_ST_ALIGN :: int where "K3_ST_ALIGN = 4096"

definition k3_st_read_aligned :: "k3_st \<Rightarrow> int \<Rightarrow> int \<Rightarrow> int \<Rightarrow> int \<Rightarrow> rd_result" where
  "k3_st_read_aligned s shard off nbytes bufcap =
     (if shard < 0 \<or> shard \<ge> int (length (st_shard s)) then \<lparr>rr_ret = 0, rr_poff = None, rr_buf = []\<rparr>
      else let f = st_shard s ! nat shard in
        case sh_dfd f of
          None \<Rightarrow>
            if bufcap < nbytes then \<lparr>rr_ret = 0, rr_poff = Some 0, rr_buf = []\<rparr>
            else let d = pread_loop (sh_fd f) nbytes off [] in \<lparr>rr_ret = int (length d), rr_poff = Some 0, rr_buf = d\<rparr>
        | Some dfd \<Rightarrow>
            let lo = off AND NOT (K3_ST_ALIGN - 1);
                hi = (off + nbytes + K3_ST_ALIGN - 1) AND NOT (K3_ST_ALIGN - 1);
                len = hi - lo;
                pad = off - lo
            in if len > bufcap then \<lparr>rr_ret = 0, rr_poff = None, rr_buf = []\<rparr>
               else let d = pread_loop dfd len lo []; got = int (length d) in
                 \<lparr>rr_ret = (if got \<ge> pad + nbytes then nbytes else if got > pad then got - pad else 0),
                  rr_poff = Some pad, rr_buf = d\<rparr>)"

text \<open>The bytes delivered; the return value is their number.\<close>

definition k3_st_read :: "k3_st \<Rightarrow> k3_tensor \<Rightarrow> byte list" where
  "k3_st_read s t = pread_loop (sh_fd (st_shard s ! nat (kt_shard t))) (kt_nbytes t) (kt_off t) []"

definition K3_WIDEN_CHUNK :: int where "K3_WIDEN_CHUNK = 4 * 2 ^ 20"

definition k3_bf16_to_f32 :: "16 word \<Rightarrow> 32 word" where
  "k3_bf16_to_f32 h = push_bit 16 (ucast h)"

text \<open>The conversion of a byte to \<open>float\<close>, which is exact.\<close>

definition k3_u8_to_f32 :: "byte \<Rightarrow> 32 word" where
  "k3_u8_to_f32 c =
     (if c = 0 then 0
      else let k = (if c \<ge> 128 then 7 else if c \<ge> 64 then 6 else if c \<ge> 32 then 5 else if c \<ge> 16 then 4
                    else if c \<ge> 8 then 3 else if c \<ge> 4 then 2 else if c \<ge> 2 then 1 else 0)
           in push_bit 23 (of_nat (127 + k)) OR (push_bit (23 - k) (ucast c) AND 0x7FFFFF))"

definition k3_f16_to_f32 :: "16 word \<Rightarrow> 32 word option" where
  "k3_f16_to_f32 h =
     (let sign = push_bit 16 (ucast (h AND 0x8000) :: 32 word);
          exp = ucast (drop_bit 10 h) AND 0x1F;
          man = ucast h AND 0x3FF
      in if exp = 0
         then if man = 0 then Some sign
              else map_option (\<lambda>(man, sh). sign OR push_bit 23 (127 - 15 - sh + 1) OR push_bit 13 (man AND 0x3FF)) (renorm man 0)
         else if exp = 31 then Some (sign OR 0x7F800000 OR push_bit 13 man)
         else Some (sign OR push_bit 23 (exp - 15 + 127) OR push_bit 13 man))"

text \<open>Little-endian elements of a buffer.\<close>

definition le16_at :: "byte list \<Rightarrow> nat \<Rightarrow> 16 word" where
  "le16_at p i = ucast (p ! (2 * i)) OR push_bit 8 (ucast (p ! (2 * i + 1)))"

definition le32_at :: "byte list \<Rightarrow> nat \<Rightarrow> 32 word" where
  "le32_at p i = ucast (p ! (4 * i)) OR push_bit 8 (ucast (p ! (4 * i + 1))) OR
     push_bit 16 (ucast (p ! (4 * i + 2))) OR push_bit 24 (ucast (p ! (4 * i + 3)))"

text \<open>Element \<open>i\<close> of a chunk, widened; a \<open>None\<close> of the renormalisation cannot occur.\<close>

definition widen_at :: "k3_dtype \<Rightarrow> byte list \<Rightarrow> nat \<Rightarrow> 32 word" where
  "widen_at dt raw i =
     (case dt of
        K3_DT_BF16 \<Rightarrow> k3_bf16_to_f32 (le16_at raw i)
      | K3_DT_U8 \<Rightarrow> k3_u8_to_f32 (raw ! i)
      | K3_DT_F16 \<Rightarrow> the (k3_f16_to_f32 (le16_at raw i))
      | _ \<Rightarrow> le32_at raw i)"

text \<open>The floats written so far are \<open>out\<close>.\<close>

function widen_loop :: "pread_fn \<Rightarrow> k3_dtype \<Rightarrow> int \<Rightarrow> int \<Rightarrow> 32 word list \<Rightarrow> 32 word list" where
  "widen_loop fd dt off n out =
     (let fin = int (length out); esz = k3_st_elemsize dt; chunk_elems = c_div K3_WIDEN_CHUNK esz in
      if fin < n \<and> 0 < esz
      then let tk = (if n - fin < chunk_elems then n - fin else chunk_elems);
               raw = pread_loop fd (tk * esz) (off + fin * esz) []
           in if int (length raw) < tk * esz then out
              else widen_loop fd dt off n (out @ map (widen_at dt raw) [0..<nat tk])
      else out)"
  by pat_completeness auto
termination
proof (relation "measure (\<lambda>(fd, dt, off, n, out). nat (n - int (length out)))", goal_cases)
  case (2 fd dt off n out x xa xb xc xd)
  then have "0 < xc" by (cases dt) (auto simp: K3_WIDEN_CHUNK_def)
  then show ?case using 2 by auto
qed simp

declare widen_loop.simps [simp del]

text \<open>The return value and the floats written.\<close>

definition k3_st_read_f32 :: "k3_st \<Rightarrow> k3_tensor \<Rightarrow> int \<times> 32 word list" where
  "k3_st_read_f32 s t =
     (if kt_dtype t = K3_DT_F32
      then let d = k3_st_read s t in (c_div (int (length d)) 4, map (le32_at d) [0..<length d div 4])
      else if k3_st_elemsize (kt_dtype t) \<le> 0 then (0, [])
      else let out = widen_loop (sh_fd (st_shard s ! nat (kt_shard t))) (kt_dtype t) (kt_off t) (k3_st_numel (kt_shape t)) []
           in (if int (length out) < k3_st_numel (kt_shape t) then int (length out) else k3_st_numel (kt_shape t), out))"

end
