(* ===== verification/K3_Load.thy ===== *)
theory K3_Load
  imports K3_St K3_Ops
begin

text \<open>
  The expert loader, \<^verbatim>\<open>src/io/k3_load.c\<close>: the six tensors of a routed expert resolved to one run of
  bytes, and the read of that run.  A buffer that is written in pieces is a function from offsets to bytes,
  \<open>mem\<close> its contents before.
\<close>

section \<open>Resolving an expert\<close>

record k3_qmat =
  qm_p_off :: int
  qm_p_bytes :: int
  qm_s_off :: int
  qm_s_bytes :: int
  qm_rows :: int
  qm_pcols :: int
  qm_scols :: int

record k3_expert_ref =
  xr_layer :: nat
  xr_expert :: nat
  xr_shard :: int
  xr_off :: int
  xr_nbytes :: int
  xr_contiguous :: bool
  xr_m :: "k3_qmat list"

definition k3_qmat_numel :: "k3_qmat \<Rightarrow> int" where
  "k3_qmat_numel m = i64 (i64 (qm_rows m * qm_pcols m) * 2)"

definition expert_name :: "nat \<Rightarrow> nat \<Rightarrow> nat \<Rightarrow> string \<Rightarrow> byte list" where
  "expert_name layer expert i part =
     ascii (''language_model.model.layers.'' @ dec_nat layer @ ''.block_sparse_moe.experts.'' @ dec_nat expert @ ''.'' @
       [''w1'', ''w2'', ''w3''] ! i @ ''.'' @ part)"

definition zero_qmat :: k3_qmat where
  "zero_qmat = \<lparr>qm_p_off = 0, qm_p_bytes = 0, qm_s_off = 0, qm_s_bytes = 0, qm_rows = 0, qm_pcols = 0, qm_scols = 0\<rparr>"

definition zero_ref :: k3_expert_ref where
  "zero_ref = \<lparr>xr_layer = 0, xr_expert = 0, xr_shard = 0, xr_off = 0, xr_nbytes = 0, xr_contiguous = False, xr_m = replicate 3 zero_qmat\<rparr>"

text \<open>The checks on one matrix; \<open>shard0\<close> is the shard of the first.\<close>

definition pair_ok :: "k3_tensor \<Rightarrow> k3_tensor \<Rightarrow> int option \<Rightarrow> bool" where
  "pair_ok pk sc shard0 \<longleftrightarrow>
     kt_dtype pk = K3_DT_U8 \<and> kt_dtype sc = K3_DT_U8 \<and> length (kt_shape pk) = 2 \<and> length (kt_shape sc) = 2 \<and>
     kt_shape pk ! 0 = kt_shape sc ! 0 \<and> i64 (kt_shape sc ! 1 * int K3_MXFP4_GROUP) = i64 (kt_shape pk ! 1 * 2) \<and>
     kt_shard pk = kt_shard sc \<and> (case shard0 of None \<Rightarrow> True | Some s \<Rightarrow> kt_shard pk = s)"

text \<open>The loop over the three matrices: the tensors found, or how far it came with the reference filled so far.\<close>

fun ref_loop :: "k3_st \<Rightarrow> nat \<Rightarrow> nat \<Rightarrow> nat list \<Rightarrow> (k3_tensor \<times> k3_tensor) list \<Rightarrow> k3_expert_ref \<Rightarrow> (k3_tensor \<times> k3_tensor) list option \<times> k3_expert_ref" where
  "ref_loop s layer expert [] found r = (Some found, r)"
| "ref_loop s layer expert (i # is) found r =
     (case (k3_st_find s (expert_name layer expert i ''weight_packed''), k3_st_find s (expert_name layer expert i ''weight_scale'')) of
        (Some pk, Some sc) \<Rightarrow>
          if pair_ok pk sc (if found = [] then None else Some (kt_shard (fst (hd found))))
          then ref_loop s layer expert is (found @ [(pk, sc)])
                 (r\<lparr>xr_m := (xr_m r)[i := (xr_m r ! i)\<lparr>qm_rows := i32 (kt_shape pk ! 0), qm_pcols := i32 (kt_shape pk ! 1),
                     qm_scols := i32 (kt_shape sc ! 1), qm_p_bytes := kt_nbytes pk, qm_s_bytes := kt_nbytes sc\<rparr>]\<rparr>)
          else (None, r)
      | _ \<Rightarrow> (None, r))"

definition flat_pairs :: "('a \<times> 'a) list \<Rightarrow> 'a list" where
  "flat_pairs ps = concat (map (\<lambda>(p, s). [p, s]) ps)"

text \<open>Offsets of the matrices when they are packed one after another.\<close>

fun pack_offsets :: "int \<Rightarrow> k3_qmat list \<Rightarrow> k3_qmat list \<times> int" where
  "pack_offsets o' [] = ([], o')"
| "pack_offsets o' (m # ms) =
     (let so = o' + qm_p_bytes m; (ms, e) = pack_offsets (so + qm_s_bytes m) ms in (m\<lparr>qm_p_off := o', qm_s_off := so\<rparr> # ms, e))"

definition k3_expert_ref :: "k3_st \<Rightarrow> nat \<Rightarrow> nat \<Rightarrow> bool \<times> k3_expert_ref" where
  "k3_expert_ref s layer expert =
     (case ref_loop s layer expert [0, 1, 2] [] (zero_ref\<lparr>xr_layer := layer, xr_expert := expert\<rparr>) of
        (None, r) \<Rightarrow> (False, r)
      | (Some ps, r) \<Rightarrow>
          let r = r\<lparr>xr_shard := kt_shard (fst (hd ps))\<rparr>;
              ts = flat_pairs ps;
              lo = foldl (\<lambda>lo t. if kt_off t < lo then kt_off t else lo) (kt_off (fst (hd ps))) ts;
              hi = foldl (\<lambda>hi t. if i64 (kt_off t + kt_nbytes t) > hi then i64 (kt_off t + kt_nbytes t) else hi) 0 ts;
              own = foldl (\<lambda>own t. i64 (own + kt_nbytes t)) 0 ts
          in if i64 (hi - lo) = own
             then (True, r\<lparr>xr_contiguous := True, xr_off := lo, xr_nbytes := own,
                    xr_m := map (\<lambda>i. (xr_m r ! i)\<lparr>qm_p_off := kt_off (fst (ps ! i)) - lo, qm_s_off := kt_off (snd (ps ! i)) - lo\<rparr>) [0..<3]\<rparr>)
             else (let (ms, e) = pack_offsets 0 (xr_m r) in (True, r\<lparr>xr_contiguous := False, xr_off := lo, xr_nbytes := e, xr_m := ms\<rparr>)))"

section \<open>Loading\<close>

definition write_at :: "int \<Rightarrow> byte list \<Rightarrow> (int \<Rightarrow> byte) \<Rightarrow> int \<Rightarrow> byte" where
  "write_at o' d mem i = (if o' \<le> i \<and> i < o' + int (length d) then d ! nat (i - o') else mem i)"

fun load_pieces :: "k3_st \<Rightarrow> k3_expert_ref \<Rightarrow> nat list \<Rightarrow> int \<Rightarrow> (int \<Rightarrow> byte) \<Rightarrow> int \<times> (int \<Rightarrow> byte)" where
  "load_pieces s r [] got mem = (got, mem)"
| "load_pieces s r (i # is) got mem =
     (case (k3_st_find s (expert_name (xr_layer r) (xr_expert r) i ''weight_packed''), k3_st_find s (expert_name (xr_layer r) (xr_expert r) i ''weight_scale'')) of
        (Some p, Some c) \<Rightarrow>
          let dp = k3_st_read s p; dc = k3_st_read s c
          in load_pieces s r is (got + int (length dp) + int (length dc))
               (write_at (qm_s_off (xr_m r ! i)) dc (write_at (qm_p_off (xr_m r ! i)) dp mem))
      | _ \<Rightarrow> (got, mem))"

definition k3_expert_load :: "k3_st \<Rightarrow> k3_expert_ref \<Rightarrow> (int \<Rightarrow> byte) \<Rightarrow> int \<times> (int \<Rightarrow> byte)" where
  "k3_expert_load s r mem =
     (if xr_contiguous r
      then let d = k3_st_read s \<lparr>kt_name = ascii ''expert'', kt_shard = xr_shard r, kt_dtype = K3_DT_U8, kt_shape = [xr_nbytes r],
                                  kt_off = xr_off r, kt_nbytes = xr_nbytes r\<rparr>
           in (int (length d), write_at 0 d mem)
      else load_pieces s r [0, 1, 2] 0 mem)"

text \<open>The result: bytes delivered, payload offset and the \<open>bufcap\<close> bytes of the buffer.\<close>

definition k3_expert_load_direct :: "k3_st \<Rightarrow> k3_expert_ref \<Rightarrow> (int \<Rightarrow> byte) \<Rightarrow> int \<Rightarrow> int \<times> int option \<times> byte list" where
  "k3_expert_load_direct s r mem bufcap =
     (if \<not> xr_contiguous r
      then let (got, mem) = k3_expert_load s r mem in (got, Some 0, map (\<lambda>i. mem (int i)) [0..<nat bufcap])
      else let rd = k3_st_read_aligned s (xr_shard r) (xr_off r) (xr_nbytes r) bufcap in (rr_ret rd, rr_poff rd, rr_buf rd))"

text \<open>Each of the three matrices, unless its destination is null.\<close>

definition k3_expert_dequant :: "('f, 'd) fpu \<Rightarrow> k3_expert_ref \<Rightarrow> byte list \<Rightarrow> bool list \<Rightarrow> 'f list option list" where
  "k3_expert_dequant fp r buf want =
     map (\<lambda>i. let m = xr_m r ! i in
        if want ! i
        then Some (k3_mxfp4_dequant fp (drop (nat (qm_p_off m)) buf) (drop (nat (qm_s_off m)) buf) (nat (qm_rows m)) (nat (qm_pcols m)) K3_MXFP4_GROUP)
        else None) [0..<3]"

end
