(* ===== verification/K3_Cache.thy ===== *)
theory K3_Cache
  imports K3_Load K3_Moe Weight_Cache
begin

text \<open>
  The expert cache of K3, \<^verbatim>\<open>src/cache/k3_cache.c\<close>: the binding of the generic weight cache to (layer,
  expert) keys and to the expert loader, and the table of functions the mixture of experts calls.  \<open>stale k\<close>
  is what the slot held before expert \<open>k\<close> was loaded into it.
\<close>

record k3_cache =
  kx_gc :: "k3_expert_ref eng_cache"
  kx_n_layers :: nat
  kx_n_experts :: nat
  kx_slot_bytes :: int
  kx_nslot :: nat
  kx_hits :: nat
  kx_misses :: nat
  kx_evictions :: nat
  kx_bytes_read :: nat
  kx_prefetch_reads :: nat

definition k3key :: "k3_cache \<Rightarrow> nat \<Rightarrow> nat \<Rightarrow> nat" where
  "k3key c layer expert = layer * kx_n_experts c + expert"

definition sync_stats :: "k3_cache \<Rightarrow> k3_cache" where
  "sync_stats c = (let s = kx_gc c in
     c\<lparr>kx_hits := hits s, kx_misses := misses s, kx_evictions := evictions s, kx_bytes_read := bytes_read s,
       kx_prefetch_reads := prefetch_reads s, kx_nslot := nslot s, kx_slot_bytes := stride s\<rparr>)"

text \<open>A pointer into a slot is the rest of its payload.\<close>

definition fill_q :: "byte list \<Rightarrow> k3_expert_ref \<Rightarrow> k3_expertq" where
  "fill_q b r =
     \<lparr>xq_p1 = drop (nat (qm_p_off (xr_m r ! 0))) b, xq_s1 = drop (nat (qm_s_off (xr_m r ! 0))) b,
      xq_p3 = drop (nat (qm_p_off (xr_m r ! 2))) b, xq_s3 = drop (nat (qm_s_off (xr_m r ! 2))) b,
      xq_p2 = drop (nat (qm_p_off (xr_m r ! 1))) b, xq_s2 = drop (nat (qm_s_off (xr_m r ! 1))) b\<rparr>"

section \<open>The source of the generic cache\<close>

definition k3_describe :: "k3_st \<Rightarrow> nat \<Rightarrow> nat \<Rightarrow> k3_expert_ref \<Rightarrow> bool \<times> int \<times> k3_expert_ref" where
  "k3_describe st n_experts key m =
     (let (ok, r) = k3_expert_ref st (key div n_experts) (key mod n_experts) in (ok, if ok then xr_nbytes r else 0, r))"

definition k3_load :: "k3_st \<Rightarrow> (nat \<Rightarrow> int \<Rightarrow> byte) \<Rightarrow> nat \<Rightarrow> k3_expert_ref \<Rightarrow> int \<Rightarrow> int \<times> int \<times> byte list" where
  "k3_load st stale key m bufcap =
     (let (got, poff, buf) = k3_expert_load_direct st m (stale key) bufcap in (got, case poff of Some p \<Rightarrow> p | None \<Rightarrow> 0, buf))"

definition k3_locate :: "k3_expert_ref \<Rightarrow> int \<times> int" where
  "k3_locate r = (xr_shard r, xr_off r)"

definition k3_cache_src :: "k3_st \<Rightarrow> nat \<Rightarrow> (nat \<Rightarrow> int \<Rightarrow> byte) \<Rightarrow> cache_sys \<Rightarrow> k3_expert_ref cache_src" where
  "k3_cache_src st n_experts stale os =
     \<lparr>describe = k3_describe st n_experts, load = k3_load st stale, locate = Some k3_locate, zero_meta = zero_ref, c_sys = os\<rparr>"

section \<open>The table of functions\<close>

definition K3_MAX_TOPK :: nat where "K3_MAX_TOPK = 64"

definition cache_get :: "k3_expert_ref cache_src \<Rightarrow> nat \<Rightarrow> nat \<Rightarrow> k3_cache \<Rightarrow> k3_expertq option \<times> k3_cache" where
  "cache_get src layer expert c =
     (if layer \<ge> kx_n_layers c \<or> expert \<ge> kx_n_experts c then (None, c)
      else let (e, gc) = eng_cache_get src (kx_gc c) (k3key c layer expert); c = sync_stats (c\<lparr>kx_gc := gc\<rparr>)
           in (map_option (\<lambda>e. fill_q (e_data e) (e_meta e)) e, c))"

definition cache_getmany :: "k3_expert_ref cache_src \<Rightarrow> nat \<Rightarrow> nat list \<Rightarrow> k3_cache \<Rightarrow> nat \<times> k3_cache" where
  "cache_getmany src layer ids c =
     (if ids = [] then (0, c)
      else let keys = map (k3key c layer) (filter (\<lambda>e. e < kx_n_experts c) (take K3_MAX_TOPK ids));
               (got, gc) = eng_cache_get_many src (kx_gc c) keys
           in (got, sync_stats (c\<lparr>kx_gc := gc\<rparr>)))"

definition cache_resident :: "nat \<Rightarrow> nat \<Rightarrow> k3_cache \<Rightarrow> k3_expertq option" where
  "cache_resident layer expert c =
     (if layer \<ge> kx_n_layers c \<or> expert \<ge> kx_n_experts c then None
      else map_option (\<lambda>e. fill_q (e_data e) (e_meta e)) (eng_cache_peek (kx_gc c) (k3key c layer expert)))"

text \<open>\<open>noprefetch\<close>: \<^verbatim>\<open>K3_NOPREFETCH\<close> is set in the environment.\<close>

definition k3_source :: "k3_expert_ref cache_src \<Rightarrow> bool \<Rightarrow> k3_cache expert_src" where
  "k3_source src noprefetch =
     \<lparr>es_get = cache_get src,
      es_getmany = (if noprefetch then None else Some (\<lambda>layer ids c. snd (cache_getmany src layer ids c))),
      es_resident = Some cache_resident\<rparr>"

section \<open>Life cycle\<close>

fun probe_expert :: "k3_st \<Rightarrow> 'f k3_cfg \<Rightarrow> nat list \<Rightarrow> k3_expert_ref option" where
  "probe_expert st kc [] = None"
| "probe_expert st kc (L # Ls) =
     (if k3_is_dense kc L then probe_expert st kc Ls
      else let (ok, r) = k3_expert_ref st L 0 in if ok then Some r else probe_expert st kc Ls)"

definition k3_cache_init :: "k3_st \<Rightarrow> 'f k3_cfg \<Rightarrow> int \<Rightarrow> (nat \<Rightarrow> int \<Rightarrow> byte) \<Rightarrow> cache_sys \<Rightarrow> k3_cache option" where
  "k3_cache_init st kc budget stale os =
     (case probe_expert st kc [0..<kc_n_layers kc] of None \<Rightarrow> None
      | Some found \<Rightarrow>
          let cc = \<lparr>budget_bytes = budget, slot_bytes = xr_nbytes found, nkeys = int (kc_n_layers kc) * int (kc_n_experts kc),
                    min_slots = int (kc_topk kc) + 1, want_hist = True, want_trace = True, hugepages = - 1\<rparr>
          in map_option (\<lambda>gc. sync_stats \<lparr>kx_gc = gc, kx_n_layers = kc_n_layers kc, kx_n_experts = kc_n_experts kc,
                 kx_slot_bytes = 0, kx_nslot = 0, kx_hits = 0, kx_misses = 0, kx_evictions = 0, kx_bytes_read = 0, kx_prefetch_reads = 0\<rparr>)
               (eng_cache_create cc (k3_cache_src st (kc_n_experts kc) stale os)))"

definition k3_cache_pin :: "k3_cache \<Rightarrow> nat \<Rightarrow> nat \<Rightarrow> bool \<Rightarrow> bool \<times> k3_cache" where
  "k3_cache_pin c layer expert pin =
     (if layer \<ge> kx_n_layers c \<or> expert \<ge> kx_n_experts c then (False, c)
      else let (r, gc) = eng_cache_pin (kx_gc c) (k3key c layer expert) pin in (r, c\<lparr>kx_gc := gc\<rparr>))"

definition k3_cache_prefetch :: "k3_expert_ref cache_src \<Rightarrow> k3_cache \<Rightarrow> nat \<Rightarrow> nat \<Rightarrow> bool \<times> k3_cache" where
  "k3_cache_prefetch src c layer expert =
     (let (e, gc) = eng_cache_get src (kx_gc c) (k3key c layer expert) in (e \<noteq> None, sync_stats (c\<lparr>kx_gc := gc\<rparr>)))"

definition k3_cache_reset_stats :: "k3_cache \<Rightarrow> k3_cache" where
  "k3_cache_reset_stats c = sync_stats (c\<lparr>kx_gc := eng_cache_reset_stats (kx_gc c)\<rparr>)"

text \<open>The histogram file, and the pairs of the trace file.\<close>

definition dump_entries :: "k3_cache \<Rightarrow> 32 word list \<Rightarrow> string list" where
  "dump_entries c h =
     concat (map (\<lambda>L. concat (map (\<lambda>e.
       let k = L * kx_n_experts c + e; v = h ! k in
       if k \<ge> length h \<or> v = 0 then []
       else [''    '' @ [CHR 0x22] @ dec_nat L @ '','' @ dec_nat e @ [CHR 0x22] @ '': '' @ dec_nat (unat v)]) [0..<kx_n_experts c])) [0..<kx_n_layers c])"

fun join_lines :: "string list \<Rightarrow> string" where
  "join_lines [] = []"
| "join_lines [x] = x"
| "join_lines (x # xs) = x @ '','' @ [CHR 0x0A] @ join_lines xs"

definition k3_cache_dump_hist :: "k3_cache \<Rightarrow> string option" where
  "k3_cache_dump_hist c =
     map_option (\<lambda>h. ''{'' @ [CHR 0x0A] @ ''  '' @ [CHR 0x22] @ ''n_layers'' @ [CHR 0x22] @ '': '' @ dec_nat (kx_n_layers c) @ '','' @ [CHR 0x0A] @
         ''  '' @ [CHR 0x22] @ ''n_experts'' @ [CHR 0x22] @ '': '' @ dec_nat (kx_n_experts c) @ '','' @ [CHR 0x0A] @
         ''  '' @ [CHR 0x22] @ ''counts'' @ [CHR 0x22] @ '': {'' @ [CHR 0x0A] @
         join_lines (dump_entries c h) @ [CHR 0x0A] @ ''  }'' @ [CHR 0x0A] @ ''}'' @ [CHR 0x0A])
       (hist (kx_gc c))"

definition k3_cache_dump_trace :: "k3_cache \<Rightarrow> (int \<times> int) list option" where
  "k3_cache_dump_trace c =
     (if trace (kx_gc c) = [] then None
      else Some (map (\<lambda>k. (i32 (int (k div kx_n_experts c)), i32 (int (k mod kx_n_experts c)))) (trace (kx_gc c))))"

end
