(* ===== verification/K3_Moe_Props.thy ===== *)
theory K3_Moe_Props
  imports K3_Moe "HOL-Library.Multiset"
begin

text \<open>
  The router selects what a stable sort by the biased score would put first.  The interface \<open>expert_source\<close>
  says what the mixture of experts asks of its supplier of experts; over it, the batched prefill computes the
  rows of the token-by-token mixture whenever neither run drops an expert.
\<close>

section \<open>The router\<close>

lemma sort_key_first:
  fixes f :: "nat \<Rightarrow> 'k :: linorder"
  assumes b: "b \<in> set xs" and s: "sorted xs" "distinct xs" and min: "\<And>e. e \<in> set xs \<Longrightarrow> f b \<le> f e \<and> (e < b \<longrightarrow> f b < f e)"
  shows "sort_key f xs = b # sort_key f (remove1 b xs)"
proof (rule properties_for_sort_key)
  show "mset (b # sort_key f (remove1 b xs)) = mset xs" using b by simp
  show "sorted (map f (b # sort_key f (remove1 b xs)))" using min by (auto dest: notin_set_remove1 in_set_remove1 [THEN iffD1, rotated] simp: s(2))
  fix k assume "k \<in> set (b # sort_key f (remove1 b xs))"
  obtain us vs where xs: "xs = us @ b # vs" "b \<notin> set us" using b split_list_first by metis
  have "f b < f e" if "e \<in> set us" for e
    using that min [of e] s unfolding xs(1) by (auto simp: sorted_append less_le)
  then have "filter (\<lambda>x. f b = f x) us = []" by (force simp: filter_empty_conv)
  then show "filter (\<lambda>x. f k = f x) (b # sort_key f (remove1 b xs)) = filter (\<lambda>x. f k = f x) xs"
    using xs(2) sort_key_stable [of f "f k" "remove1 b xs"] by (cases "f k = f b") (auto simp: xs(1) remove1_append eq_commute)
qed

lemma sort_key_agree:
  assumes "\<And>x. x \<in> set xs \<Longrightarrow> f x = g x"
  shows "sort_key f xs = sort_key g xs"
  using assms
proof (induction xs)
  case (Cons x xs)
  have "insort_key f x ys = insort_key g x ys" if "set ys \<subseteq> set xs" for ys
    using that Cons.prems by (induction ys) auto
  then show ?case using Cons by simp
qed simp

text \<open>The scan finds the first of the largest; \<open>A\<close> are the entries not yet taken.\<close>

lemma router_best_eq:
  fixes rank :: "'f \<Rightarrow> real"
  assumes gt: "\<And>a b. a \<in> insert (lm_ninf lm) (set cs) \<Longrightarrow> b \<in> insert (lm_ninf lm) (set cs) \<Longrightarrow> f_gt fp a b \<longleftrightarrow> rank b < rank a"
    and fin: "\<And>a. a \<in> set cs \<Longrightarrow> rank (lm_ninf lm) < rank a"
    and A: "A \<subseteq> {..<length cs}" "A \<noteq> {}"
  shows "\<exists>b\<in>A. router_best fp lm (map (\<lambda>e. if e \<in> A then cs ! e else lm_ninf lm) [0..<length cs]) = Some b \<and>
    (\<forall>e\<in>A. rank (cs ! e) \<le> rank (cs ! b) \<and> (e < b \<longrightarrow> rank (cs ! e) < rank (cs ! b)))"
proof -
  let ?ch = "map (\<lambda>e. if e \<in> A then cs ! e else lm_ninf lm) [0..<length cs]"
  define scan where scan: "scan m = foldl (\<lambda>(best, bv) e. if f_gt fp (?ch ! e) bv then (Some e, ?ch ! e) else (best, bv)) (None, lm_ninf lm) [0..<m]" for m
  have scan_0: "scan 0 = (None, lm_ninf lm)" by (simp add: scan)
  have scan_Suc: "scan (Suc m) = (if f_gt fp (if m \<in> A then cs ! m else lm_ninf lm) (snd (scan m)) then (Some m, if m \<in> A then cs ! m else lm_ninf lm) else scan m)"
    if "m < length cs" for m
    using that by (simp add: scan case_prod_beta)
  have low: "\<not> f_gt fp (lm_ninf lm) v" if "v \<in> insert (lm_ninf lm) (set cs)" for v
    using that gt [of "lm_ninf lm" v] fin [of v] by auto
  define top where top: "top m b \<longleftrightarrow> b \<in> A \<and> b < m \<and> scan m = (Some b, cs ! b) \<and>
      (\<forall>e\<in>A. e < m \<longrightarrow> rank (cs ! e) \<le> rank (cs ! b) \<and> (e < b \<longrightarrow> rank (cs ! e) < rank (cs ! b)))" for m b
  have "(A \<inter> {..<m} = {} \<and> scan m = (None, lm_ninf lm)) \<or> (\<exists>b. top m b)" if "m \<le> length cs" for m
    using that
  proof (induction m)
    case (Suc m)
    then have m: "m < length cs" and IH: "(A \<inter> {..<m} = {} \<and> scan m = (None, lm_ninf lm)) \<or> (\<exists>b. top m b)" by auto
    have cm: "cs ! m \<in> set cs" using m by simp
    have sm: "snd (scan m) \<in> insert (lm_ninf lm) (set cs)" using IH m by (auto simp: top)
    show ?case
    proof (cases "m \<in> A")
      case out: False
      have "scan (Suc m) = scan m" using m out low [OF sm] by (simp add: scan_Suc)
      moreover have "A \<inter> {..<Suc m} = A \<inter> {..<m}" "\<And>e. e \<in> A \<Longrightarrow> e < Suc m \<longleftrightarrow> e < m" using out by (auto simp: less_Suc_eq)
      ultimately show ?thesis using IH by (simp add: top less_SucI cong: conj_cong)
    next
      case taken: True
      from IH show ?thesis
      proof (elim disjE exE conjE)
        assume none: "A \<inter> {..<m} = {}" "scan m = (None, lm_ninf lm)"
        then have "scan (Suc m) = (Some m, cs ! m)" using m taken gt [of "cs ! m" "lm_ninf lm"] fin [OF cm] cm by (simp add: scan_Suc)
        moreover have "e = m" if "e \<in> A" "e < Suc m" for e using that none(1) by (auto simp: less_Suc_eq)
        ultimately have "top (Suc m) m" using taken by (auto simp: top)
        then show ?thesis by blast
      next
        fix b assume b: "top m b"
        have "scan (Suc m) = (if rank (cs ! b) < rank (cs ! m) then (Some m, cs ! m) else (Some b, cs ! b))"
          using b m taken gt [of "cs ! m" "cs ! b"] by (simp add: scan_Suc top)
        then have "top (Suc m) (if rank (cs ! b) < rank (cs ! m) then m else b)" using b taken by (auto simp: top less_Suc_eq)
        then show ?thesis by blast
      qed
    qed
  qed (simp add: scan_0)
  from this [of "length cs"] A obtain b where "top (length cs) b" by auto
  moreover have "router_best fp lm ?ch = fst (scan (length cs))" by (simp add: router_best_def scan)
  ultimately show ?thesis using A(1) by (intro bexI [of _ b]) (auto simp: top)
qed

lemma router_pick_sorted:
  fixes rank :: "'f \<Rightarrow> real"
  assumes gt: "\<And>a b. a \<in> insert (lm_ninf lm) (set cs) \<Longrightarrow> b \<in> insert (lm_ninf lm) (set cs) \<Longrightarrow> f_gt fp a b \<longleftrightarrow> rank b < rank a"
    and fin: "\<And>a. a \<in> set cs \<Longrightarrow> rank (lm_ninf lm) < rank a"
    and xs: "sorted xs" "distinct xs" "set xs \<subseteq> {..<length cs}" "k \<le> length xs"
  shows "router_pick fp lm score (map (\<lambda>e. if e \<in> set xs then cs ! e else lm_ninf lm) [0..<length cs]) k =
         map (\<lambda>e. (e, score ! e)) (take k (sort_key (\<lambda>e. - rank (cs ! e)) xs))"
  using xs
proof (induction k arbitrary: xs)
  case (Suc k)
  let ?m = "\<lambda>A. map (\<lambda>e. if e \<in> A then cs ! e else lm_ninf lm) [0..<length cs]"
  have "set xs \<noteq> {}" using Suc.prems by auto
  then obtain b where b: "b \<in> set xs" "router_best fp lm (?m (set xs)) = Some b"
    and best: "\<And>e. e \<in> set xs \<Longrightarrow> rank (cs ! e) \<le> rank (cs ! b) \<and> (e < b \<longrightarrow> rank (cs ! e) < rank (cs ! b))"
    using router_best_eq [OF gt fin, where A = "set xs"] Suc.prems by blast
  have rest: "set (remove1 b xs) = set xs - {b}" "length (remove1 b xs) = length xs - 1"
    using b(1) Suc.prems by (auto simp: length_remove1)
  have mark: "(?m (set xs))[b := lm_ninf lm] = ?m (set (remove1 b xs))"
    unfolding rest using b(1) Suc.prems(3) by (intro nth_equalityI) (auto simp: nth_list_update)
  have srt: "sort_key (\<lambda>e. - rank (cs ! e)) xs = b # sort_key (\<lambda>e. - rank (cs ! e)) (remove1 b xs)"
    using b(1) best Suc.prems by (intro sort_key_first) auto
  have "router_pick fp lm score (?m (set (remove1 b xs))) k = map (\<lambda>e. (e, score ! e)) (take k (sort_key (\<lambda>e. - rank (cs ! e)) (remove1 b xs)))"
    using Suc.prems rest by (intro Suc.IH) (auto simp: sorted_remove1)
  then show ?case by (simp add: b(2) mark srt del: sort_key_simps)
qed simp

text \<open>C25: The router takes the experts that a stable sort by the biased score puts first: the \<open>topk\<close> largest, in
  descending order, of equal ones the lower index, each once; their weights come from the unbiased scores.  The
  comparison has to order the scores (no NaN among them) and the scores to be finite.\<close>

theorem router_selects_topk:
  fixes rank :: "'f \<Rightarrow> real"
  assumes gt: "\<And>a b. {a, b} \<subseteq> insert (lm_ninf lm) (router_choice fp x W bias hidden ` {..<n}) \<Longrightarrow> f_gt fp a b \<longleftrightarrow> rank b < rank a"
    and fin: "\<And>e. e < n \<Longrightarrow> rank (lm_ninf lm) < rank (router_choice fp x W bias hidden e)" and k: "topk \<le> n"
    and sel: "sel = take topk (sort_key (\<lambda>e. - rank (router_choice fp x W bias hidden e)) [0..<n])"
  shows "k3_router fp lm x W bias hidden n topk moe_renorm routed_scale =
    zip sel (router_weights fp moe_renorm routed_scale (map (router_score fp x W hidden) sel))"
proof -
  define choice where ch: "choice = router_choice fp x W bias hidden"
  let ?cs = "map choice [0..<n]" and ?sc = "map (router_score fp x W hidden) [0..<n]"
  have all: "map (\<lambda>e. if e \<in> set [0..<n] then ?cs ! e else lm_ninf lm) [0..<length ?cs] = ?cs" by (rule nth_equalityI) auto
  have "sort_key (\<lambda>e. - rank (?cs ! e)) [0..<n] = sort_key (\<lambda>e. - rank (choice e)) [0..<n]"
    by (rule sort_key_agree) simp
  then have sel': "take topk (sort_key (\<lambda>e. - rank (?cs ! e)) [0..<n]) = sel" by (simp add: sel ch)
  have "router_pick fp lm ?sc (map (\<lambda>e. if e \<in> set [0..<n] then ?cs ! e else lm_ninf lm) [0..<length ?cs]) topk =
      map (\<lambda>e. (e, ?sc ! e)) (take topk (sort_key (\<lambda>e. - rank (?cs ! e)) [0..<n]))"
    by (rule router_pick_sorted) (use gt fin k in \<open>auto simp: ch\<close>)
  then have "router_pick fp lm ?sc ?cs topk = map (\<lambda>e. (e, ?sc ! e)) sel" by (simp only: all sel')
  also have "\<dots> = map (\<lambda>e. (e, router_score fp x W hidden e)) sel"
    unfolding sel by (rule map_cong) (auto dest: in_set_takeD)
  finally have "router_pick fp lm ?sc ?cs topk = map (\<lambda>e. (e, router_score fp x W hidden e)) sel" .
  then show ?thesis by (simp add: k3_router_def ch [symmetric] comp_def Let_def)
qed

theorem router_selects_topk_witness:
  "k3_router int_fpu int_libm [1] [1, 3, 2, 3] (Some [0, 1, 1, 1]) 1 4 2 False 1 =
     zip [1, 2] (router_weights int_fpu False 1 (map (router_score int_fpu [1] [1, 3, 2, 3] 1) [1, 2]))"
proof -
  let ?ch = "router_choice int_fpu [1] [1, 3, 2, 3] (Some [0, 1, 1, 1]) 1"
  have ch: "map ?ch [0..<4] = [0, 1, 1, 1]" by code_simp
  then have e: "?ch 0 = 0" "?ch 1 = 1" "?ch 2 = 1" "?ch 3 = 1" by (simp_all add: upt_rec numeral_eq_Suc)
  have pos: "- 1 < real_of_int (?ch e)" if "e < 4" for e
    using that e by (auto simp: numeral_eq_Suc less_Suc_eq)
  have "sort_key (\<lambda>e. - real_of_int (?ch e)) [0..<4] = [1, 2, 3, 0]"
    using e by (simp add: upt_rec numeral_eq_Suc)
  then show ?thesis
    using router_selects_topk [of int_libm int_fpu "[1]" "[1, 3, 2, 3]" "Some [0, 1, 1, 1]" 1 4 real_of_int 2 "[1, 2]" False 1] pos
    by (simp add: int_fpu_def int_libm_def)
qed

lemma router_best_less: "router_best fp lm choice = Some b \<Longrightarrow> b < length choice"
proof -
  let ?f = "\<lambda>(best, bv) e. if f_gt fp (choice ! e) bv then (Some e, choice ! e) else (best, bv)"
  have "fst (foldl ?f (None, lm_ninf lm) [0..<m]) = Some b \<Longrightarrow> b < m" for m
    by (induction m) (auto simp: case_prod_beta split: if_splits)
  then show "router_best fp lm choice = Some b \<Longrightarrow> b < length choice" by (simp add: router_best_def)
qed

lemma router_pick_less: "0 < length choice \<Longrightarrow> e \<in> fst ` set (router_pick fp lm score choice k) \<Longrightarrow> e < length choice"
proof (induction k arbitrary: choice)
  case (Suc k)
  show ?case
  proof (cases "router_best fp lm choice")
    case None
    then show ?thesis using Suc.prems Suc.IH [of choice] by auto
  next
    case (Some b)
    then show ?thesis using Suc.prems Suc.IH [of "choice[b := lm_ninf lm]"] router_best_less [OF Some] by auto
  qed
qed simp

lemma route_less:
  assumes "0 < kc_n_experts c" "e \<in> fst ` set (moe_route fp lm c w xt)"
  shows "e < kc_n_experts c"
  using assms router_pick_less [of "map (router_choice fp xt (ow_gate w) (ow_bias w) (kc_hidden c)) [0..<kc_n_experts c]"]
  by (force simp: moe_route_def k3_router_def Let_def dest: set_zip_leftD)

lemma moe_token_exact:
  assumes "\<not> ow_cache_only w"
  shows "moe_token fp lm avx2 cpu c w (Some es) xt (d, s) =
    map_option (\<lambda>(acc, st). (moe_tail fp lm avx2 c w xt acc, st))
      (moe_experts fp lm cpu c w (Some es) (k3_mmw fp avx2 xt (ow_down w) (kc_hidden c) (kc_latent c)) (moe_route fp lm c w xt)
        (replicate (kc_latent c) (f_of_int fp 0)) (d, case es_getmany es of Some g \<Rightarrow> g (ow_layer w) (map fst (moe_route fp lm c w xt)) s | None \<Rightarrow> s))"
  unfolding moe_token_def Let_def prod.case option.case if_not_P [OF assms] by (cases "es_resident es"; cases "es_getmany es"; simp only: option.case)

lemma chunk_uniq_set: "set (chunk_uniq n es) = set es \<inter> {..<n}"
  unfolding chunk_uniq_def by (induction es rule: rev_induct) auto

lemma chunk_uniq_distinct: "distinct (chunk_uniq n es)"
  unfolding chunk_uniq_def by (induction es rule: rev_induct) auto

lemma foldl_index: "foldl f a xs = foldl (\<lambda>a j. f a (xs ! j)) a [0..<length xs]"
proof -
  have "xs = map ((!) xs) [0..<length xs]" by (simp add: map_nth)
  then show ?thesis by (metis foldl_map)
qed

section \<open>The mixture over a source of experts\<close>

text \<open>The sum and the row of a token when every expert is what the checkpoint holds.\<close>

definition bank_sum ::
  "('f, 'd) fpu \<Rightarrow> 'f libm \<Rightarrow> cpu \<Rightarrow> 'f k3_cfg \<Rightarrow> (nat \<Rightarrow> k3_expertq) \<Rightarrow> 'f list \<Rightarrow> (nat \<times> 'f) list \<Rightarrow> 'f list \<Rightarrow> 'f list" where
  "bank_sum fp lm cpu c bank z js acc = foldl (\<lambda>acc (e, wj). axpy fp (kc_latent c) wj (expert_q fp lm cpu c z (bank e)) acc) acc js"

definition bank_token ::
  "('f, 'd) fpu \<Rightarrow> 'f libm \<Rightarrow> bool \<Rightarrow> cpu \<Rightarrow> 'f k3_cfg \<Rightarrow> 'f k3_moe_w \<Rightarrow> (nat \<Rightarrow> k3_expertq) \<Rightarrow> 'f list \<Rightarrow> 'f list" where
  "bank_token fp lm avx2 cpu c w bank xt =
     moe_tail fp lm avx2 c w xt (bank_sum fp lm cpu c bank (k3_mmw fp avx2 xt (ow_down w) (kc_hidden c) (kc_latent c))
       (moe_route fp lm c w xt) (replicate (kc_latent c) (f_of_int fp 0)))"

text \<open>What the mixture asks of a source: from a good state, a request for a usable expert gives that expert of
  the checkpoint or fails, and leaves a good state; so does a batch request.\<close>

locale expert_source =
  fixes es :: "'s expert_src" and ok :: "'s \<Rightarrow> bool" and usable :: "nat \<Rightarrow> nat \<Rightarrow> bool" and bank :: "nat \<Rightarrow> nat \<Rightarrow> k3_expertq"
  assumes get_ok: "ok s \<Longrightarrow> usable l e \<Longrightarrow> es_get es l e s = (r, s') \<Longrightarrow> ok s' \<and> (r = None \<or> r = Some (bank l e))"
    and many_ok: "ok s \<Longrightarrow> (\<And>e. e \<in> set ks \<Longrightarrow> usable l e) \<Longrightarrow> es_getmany es = Some g \<Longrightarrow> ok (g l ks s)"
begin

lemma many_all:
  assumes "ok s" "\<And>e. e \<in> set ks \<Longrightarrow> usable l e"
  shows "ok (case es_getmany es of Some g \<Rightarrow> g l ks s | None \<Rightarrow> s)"
proof (cases "es_getmany es")
  case (Some g)
  from many_ok [OF assms Some] show ?thesis by (simp add: Some)
qed (simp add: assms)

lemma experts_exact:
  assumes "\<not> ow_cache_only w" "ok s" "\<And>e. e \<in> fst ` set js \<Longrightarrow> usable (ow_layer w) e"
  shows "\<exists>acc' d' s'. moe_experts fp lm cpu c w (Some es) z js acc (d, s) = Some (acc', d', s') \<and> ok s' \<and> d \<le> d' \<and>
    (d' = d \<longrightarrow> acc' = bank_sum fp lm cpu c (bank (ow_layer w)) z js acc)"
  using assms(2,3)
proof (induction js arbitrary: acc d s)
  case Nil
  then show ?case by (simp add: bank_sum_def)
next
  case (Cons j js)
  obtain e wj where j: "j = (e, wj)" by (cases j)
  obtain r s1 where g: "es_get es (ow_layer w) e s = (r, s1)" by (cases "es_get es (ow_layer w) e s")
  have s1: "ok s1" "r = None \<or> r = Some (bank (ow_layer w) e)" using get_ok [OF _ _ g] Cons.prems by (auto simp: j)
  have u: "\<And>e. e \<in> fst ` set js \<Longrightarrow> usable (ow_layer w) e" using Cons.prems by auto
  show ?case
  proof (cases r)
    case None
    from Cons.IH [OF s1(1) u, of acc "d + 1"] show ?thesis using assms(1) by (auto simp: j g None)
  next
    case (Some q)
    from Cons.IH [OF s1(1) u, of "axpy fp (kc_latent c) wj (expert_q fp lm cpu c z q) acc" d] show ?thesis
      using assms(1) s1(2) by (auto simp: j g Some bank_sum_def)
  qed
qed

lemma moe_exact:
  assumes "\<not> ow_cache_only w" "ok s" "0 < kc_n_experts c" "\<And>e. e < kc_n_experts c \<Longrightarrow> usable (ow_layer w) e"
  shows "\<exists>out d' s'. k3_moe fp lm avx2 cpu c w (Some es) x (d, s) = Some (out, d', s') \<and> ok s' \<and> d \<le> d' \<and>
    (d' = d \<longrightarrow> out = map (bank_token fp lm avx2 cpu c w (bank (ow_layer w))) x)"
  using assms(2)
proof (induction x arbitrary: d s)
  case (Cons xt x)
  let ?js = "moe_route fp lm c w xt" and ?z = "k3_mmw fp avx2 xt (ow_down w) (kc_hidden c) (kc_latent c)"
  have u: "\<And>e. e \<in> fst ` set ?js \<Longrightarrow> usable (ow_layer w) e" using assms(3,4) by (blast dest: route_less)
  define s0 where s0: "s0 = (case es_getmany es of Some g \<Rightarrow> g (ow_layer w) (map fst ?js) s | None \<Rightarrow> s)"
  have "ok s0" unfolding s0 using Cons.prems u by (intro many_all) auto
  then obtain acc d1 s1 where e: "moe_experts fp lm cpu c w (Some es) ?z ?js (replicate (kc_latent c) (f_of_int fp 0)) (d, s0) = Some (acc, d1, s1)"
    and s1: "ok s1" "d \<le> d1" "d1 = d \<longrightarrow> acc = bank_sum fp lm cpu c (bank (ow_layer w)) ?z ?js (replicate (kc_latent c) (f_of_int fp 0))"
    using experts_exact [OF assms(1) _ u] by blast
  have t: "moe_token fp lm avx2 cpu c w (Some es) xt (d, s) = Some (moe_tail fp lm avx2 c w xt acc, d1, s1)"
    by (simp only: moe_token_exact [OF assms(1)] s0 [symmetric] e option.map prod.case)
  obtain out d2 s2 where r: "k3_moe fp lm avx2 cpu c w (Some es) x (d1, s1) = Some (out, d2, s2)"
    and s2: "ok s2" "d1 \<le> d2" "d2 = d1 \<longrightarrow> out = map (bank_token fp lm avx2 cpu c w (bank (ow_layer w))) x"
    using Cons.IH [OF s1(1)] by blast
  show ?case using s1 s2 by (auto simp: t r bank_token_def)
qed simp

text \<open>The slots whose expert has been fetched hold that expert's output.\<close>

lemma chunk_fetch_exact:
  assumes "ok s" "\<And>e. e \<in> set us \<Longrightarrow> usable l e"
    and old: "\<And>t j. t < length route \<Longrightarrow> j < length (route ! t) \<Longrightarrow> fst (route ! t ! j) \<in> done' \<Longrightarrow>
      contrib ! t ! j = expert_q fp lm cpu c (zz ! t) (bank l (fst (route ! t ! j)))"
  shows "\<exists>contrib' d' s'. chunk_fetch fp lm cpu c es l route zz us contrib (d, s) = (contrib', d', s') \<and> ok s' \<and> d \<le> d' \<and>
    (d' = d \<longrightarrow> (\<forall>t<length route. \<forall>j<length (route ! t). fst (route ! t ! j) \<in> done' \<union> set us \<longrightarrow>
      contrib' ! t ! j = expert_q fp lm cpu c (zz ! t) (bank l (fst (route ! t ! j)))))"
  using assms
proof (induction us arbitrary: contrib d s done')
  case (Cons e us)
  obtain r s1 where g: "es_get es l e s = (r, s1)" by (cases "es_get es l e s")
  have s1: "ok s1" "r = None \<or> r = Some (bank l e)" using get_ok [OF _ _ g] Cons.prems(1,2) by auto
  have u: "\<And>e. e \<in> set us \<Longrightarrow> usable l e" using Cons.prems(2) by auto
  show ?case
  proof (cases r)
    case None
    from Cons.IH [OF s1(1) u Cons.prems(3), where d = "d + 1"] obtain contrib' d' s' where
      "chunk_fetch fp lm cpu c es l route zz us contrib (d + 1, s1) = (contrib', d', s')" "ok s'" "d + 1 \<le> d'" by blast
    then show ?thesis by (auto simp: g None)
  next
    case (Some q)
    let ?con = "chunk_apply fp lm cpu c route zz e q contrib"
    have "?con ! t ! j = expert_q fp lm cpu c (zz ! t) (bank l (fst (route ! t ! j)))"
      if "t < length route" "j < length (route ! t)" "fst (route ! t ! j) \<in> insert e done'" for t j
      using that Cons.prems(3) [of t j] s1(2) Some by (auto simp: chunk_apply_def)
    from Cons.IH [where done' = "insert e done'" and d = d, OF s1(1) u this] show ?thesis by (simp add: g Some)
  qed
qed simp

lemma chunk_exact:
  assumes "\<not> ow_cache_only w" "ok s" "0 < kc_n_experts c" "\<And>e. e < kc_n_experts c \<Longrightarrow> usable (ow_layer w) e"
  shows "\<exists>out d' s'. moe_prefill_chunk fp lm avx2 cpu c w es junk x (d, s) = (out, d', s') \<and> ok s' \<and> d \<le> d' \<and>
    (d' = d \<longrightarrow> out = map (bank_token fp lm avx2 cpu c w (bank (ow_layer w))) x)"
proof -
  let ?route = "map (moe_route fp lm c w) x" and ?zz = "map (\<lambda>xt. k3_mmw fp avx2 xt (ow_down w) (kc_hidden c) (kc_latent c)) x"
  let ?uniq = "chunk_uniq (kc_n_experts c) (map fst (concat ?route))"
  define s0 where s0: "s0 = (case es_getmany es of Some g \<Rightarrow> g (ow_layer w) ?uniq s | None \<Rightarrow> s)"
  have uniq: "set ?uniq = set (map fst (concat ?route)) \<inter> {..<kc_n_experts c}" by (rule chunk_uniq_set)
  have u: "\<And>e. e \<in> set ?uniq \<Longrightarrow> usable (ow_layer w) e" unfolding uniq using assms(4) by auto
  have "ok s0" unfolding s0 using assms(2) u by (intro many_all) auto
  let ?con = "map (\<lambda>t. map (junk t) [0..<length (?route ! t)]) [0..<length x]"
  obtain contrib d1 s1 where f: "chunk_fetch fp lm cpu c es (ow_layer w) ?route ?zz ?uniq ?con (d, s0) = (contrib, d1, s1)"
    and s1: "ok s1" "d \<le> d1" and full: "d1 = d \<longrightarrow> (\<forall>t<length ?route. \<forall>j<length (?route ! t). fst (?route ! t ! j) \<in> {} \<union> set ?uniq \<longrightarrow>
      contrib ! t ! j = expert_q fp lm cpu c (?zz ! t) (bank (ow_layer w) (fst (?route ! t ! j))))"
    using chunk_fetch_exact [OF \<open>ok s0\<close> u, where done' = "{}" and route = ?route and zz = ?zz and contrib = ?con and fp = fp and lm = lm and cpu = cpu and c = c and d = d]
    by blast
  have slot: "contrib ! t ! j = expert_q fp lm cpu c (k3_mmw fp avx2 (x ! t) (ow_down w) (kc_hidden c) (kc_latent c)) (bank (ow_layer w) (fst (moe_route fp lm c w (x ! t) ! j)))"
    if "d1 = d" "t < length x" "j < length (moe_route fp lm c w (x ! t))" for t j
  proof -
    have m: "fst (moe_route fp lm c w (x ! t) ! j) \<in> fst ` set (moe_route fp lm c w (x ! t))" using that by simp
    have "moe_route fp lm c w (x ! t) \<in> set ?route" using that by simp
    with m have "fst (moe_route fp lm c w (x ! t) ! j) \<in> set (map fst (concat ?route))" unfolding set_map set_concat by blast
    then have "fst (moe_route fp lm c w (x ! t) ! j) \<in> set ?uniq" unfolding uniq using route_less [OF assms(3) m] by simp
    then show ?thesis using full that by simp
  qed
  let ?agg = "\<lambda>t. foldl (\<lambda>acc j. axpy fp (kc_latent c) (snd (?route ! t ! j)) (contrib ! t ! j) acc) (replicate (kc_latent c) (f_of_int fp 0)) [0..<length (?route ! t)]"
  have agg: "moe_tail fp lm avx2 c w (x ! t) (?agg t) = bank_token fp lm avx2 cpu c w (bank (ow_layer w)) (x ! t)" if "d1 = d" "t < length x" for t
  proof -
    have "?agg t = foldl (\<lambda>acc j. (\<lambda>(e, wj). axpy fp (kc_latent c) wj (expert_q fp lm cpu c (k3_mmw fp avx2 (x ! t) (ow_down w) (kc_hidden c) (kc_latent c)) (bank (ow_layer w) e)) acc)
        (moe_route fp lm c w (x ! t) ! j)) (replicate (kc_latent c) (f_of_int fp 0)) [0..<length (moe_route fp lm c w (x ! t))]"
      unfolding nth_map [OF that(2)] by (rule foldl_cong) (auto simp: slot that case_prod_beta)
    also have "\<dots> = bank_sum fp lm cpu c (bank (ow_layer w)) (k3_mmw fp avx2 (x ! t) (ow_down w) (kc_hidden c) (kc_latent c)) (moe_route fp lm c w (x ! t)) (replicate (kc_latent c) (f_of_int fp 0))"
      unfolding bank_sum_def by (rule foldl_index [symmetric])
    finally show ?thesis by (simp add: bank_token_def)
  qed
  have "moe_prefill_chunk fp lm avx2 cpu c w es junk x (d, s) = (map (\<lambda>t. moe_tail fp lm avx2 c w (x ! t) (?agg t)) [0..<length x], d1, s1)"
    unfolding moe_prefill_chunk_def Let_def prod.case s0 [symmetric] f ..
  moreover have "map (\<lambda>t. moe_tail fp lm avx2 c w (x ! t) (?agg t)) [0..<length x] = map (bank_token fp lm avx2 cpu c w (bank (ow_layer w))) x" if "d1 = d"
    by (rule nth_equalityI) (use agg [OF that] in simp_all)
  ultimately show ?thesis using s1 by blast
qed

lemma prefill_chunks_exact:
  assumes "\<not> ow_cache_only w" "ok s" "0 < kc_n_experts c" "\<And>e. e < kc_n_experts c \<Longrightarrow> usable (ow_layer w) e"
  shows "\<exists>out d' s'. prefill_chunks fp lm avx2 cpu c w es junk t0 x (d, s) = Some (out, d', s') \<and> ok s' \<and> d \<le> d' \<and>
    (d' = d \<longrightarrow> out = map (bank_token fp lm avx2 cpu c w (bank (ow_layer w))) x)"
  using assms(2)
proof (induction "length x" arbitrary: x t0 d s rule: less_induct)
  case less
  show ?case
  proof (cases "x = []")
    case False
    define n where n: "n = min PREFILL_CHUNK (length x)"
    have short: "length (drop n x) < length x" using False by (simp add: n PREFILL_CHUNK_def)
    define r where r: "r = (if n = 1 then k3_moe fp lm avx2 cpu c w (Some es) (take n x) (d, s)
      else Some (moe_prefill_chunk fp lm avx2 cpu c w es (junk t0) (take n x) (d, s)))"
    have "\<exists>out d' s'. r = Some (out, d', s') \<and> ok s' \<and> d \<le> d' \<and> (d' = d \<longrightarrow> out = map (bank_token fp lm avx2 cpu c w (bank (ow_layer w))) (take n x))"
      using moe_exact [OF assms(1) less.prems assms(3,4), of fp lm avx2 cpu "take n x" d]
        chunk_exact [OF assms(1) less.prems assms(3,4), of fp lm avx2 cpu "junk t0" "take n x" d]
      by (cases "n = 1") (simp_all only: r if_True if_False simp_thms option.inject HOL.refl)
    then obtain out d1 s1 where o: "r = Some (out, d1, s1)" "ok s1" "d \<le> d1" "d1 = d \<longrightarrow> out = map (bank_token fp lm avx2 cpu c w (bank (ow_layer w))) (take n x)"
      by blast
    obtain out' d2 s2 where o': "prefill_chunks fp lm avx2 cpu c w es junk (t0 + PREFILL_CHUNK) (drop n x) (d1, s1) = Some (out', d2, s2)"
      "ok s2" "d1 \<le> d2" "d2 = d1 \<longrightarrow> out' = map (bank_token fp lm avx2 cpu c w (bank (ow_layer w))) (drop n x)"
      using less.hyps [OF short o(2)] by blast
    have "prefill_chunks fp lm avx2 cpu c w es junk t0 x (d, s) = Some (out @ out', d2, s2)"
      unfolding prefill_chunks.simps [of _ _ _ _ _ _ _ _ _ x] Let_def if_not_P [OF False] n [symmetric] r [symmetric] o(1) option.case prod.case o'(1) option.map ..
    then show ?thesis using o o' by (auto simp flip: map_append)
  qed (use less.prems in \<open>simp add: prefill_chunks.simps\<close>)
qed

lemma prefill_exact:
  assumes "\<not> ow_cache_only w" "ok s" "0 < kc_n_experts c" "\<And>e. e < kc_n_experts c \<Longrightarrow> usable (ow_layer w) e"
  shows "\<exists>out d' s'. k3_moe_prefill fp lm avx2 cpu no_batch c w (Some es) junk x (d, s) = Some (out, d', s') \<and> ok s' \<and> d \<le> d' \<and>
    (d' = d \<longrightarrow> out = map (bank_token fp lm avx2 cpu c w (bank (ow_layer w))) x)"
  using moe_exact [OF assms, of fp lm avx2 cpu x d] prefill_chunks_exact [OF assms, of fp lm avx2 cpu junk 0 x d]
  by (cases "length x \<le> 1 \<or> no_batch") (simp_all add: k3_moe_prefill_def assms(1) del: k3_moe.simps prefill_chunks.simps)

end

end
