(* ===== verification/K3_St_Index.thy ===== *)
theory K3_St_Index
  imports K3_St
begin

text \<open>
  The name index of \<^verbatim>\<open>io/k3_st.c\<close> is the hash map of \<^verbatim>\<open>tokenizer/bpe.c\<close> with the names left in the
  tensor table: reading every bucket through that table gives a \<open>table\<close> of \<open>Bpe_Map\<close>, on which insertion
  and lookup are \<open>map_put\<close> and \<open>map_get\<close>.
\<close>

definition bucket_table :: "k3_tensor list \<Rightarrow> int list \<Rightarrow> table" where
  "bucket_table ts bk = map (\<lambda>i. if i < 0 then None else Some (kt_name (ts ! nat i), i)) bk"

definition index_len :: "int list \<Rightarrow> bool" where
  "index_len bk \<longleftrightarrow> (\<exists>k\<le>30. length bk = 2 ^ k)"

lemma bucket_table_length [simp]: "length (bucket_table ts bk) = length bk"
  by (simp add: bucket_table_def)

lemma bucket_table_nth: "i < length bk \<Longrightarrow> bucket_table ts bk ! i = (if bk ! i < 0 then None else Some (kt_name (ts ! nat (bk ! i)), bk ! i))"
  by (simp add: bucket_table_def)

lemma bucket_table_update:
  "i < length bk \<Longrightarrow> 0 \<le> v \<Longrightarrow> bucket_table ts (bk[i := v]) = (bucket_table ts bk)[i := Some (kt_name (ts ! nat v), v)]"
  by (simp add: bucket_table_def map_update)

lemma index_pow2: "index_len bk \<Longrightarrow> pow2_len (bucket_table ts bk)"
proof -
  assume "index_len bk"
  then obtain k where "k \<le> 30" "length bk = 2 ^ k" by (auto simp: index_len_def)
  then show ?thesis unfolding pow2_len_def by (intro exI [of _ k]) simp
qed

lemma and_len_mod:
  assumes "index_len bk"
  shows "j AND (int (length bk) - 1) = j mod int (length bk)"
proof -
  obtain k where "length bk = 2 ^ k" using assms by (auto simp: index_len_def)
  then show ?thesis by (simp add: take_bit_eq_mod flip: mask_eq_exp_minus_1 take_bit_eq_mask)
qed

lemma index_small: "index_len bk \<Longrightarrow> 0 < length bk \<and> length bk \<le> 2 ^ 30"
  using power_increasing [of _ 30 "2 :: nat"] by (auto simp: index_len_def)

lemma slot_probe:
  assumes "index_len bk" "unat h < length bk"
  shows "st_slot ts bk name (uint h) n = map_option uint (probe (bucket_table ts bk) name h n)"
  using assms(2)
proof (induction n arbitrary: h)
  case (Suc n)
  let ?h = "(h + 1) AND (of_nat (length (bucket_table ts bk)) - 1)"
  have nx: "unat ?h = (unat h + 1) mod length bk" using next_index [OF index_pow2 [OF assms(1), of ts], of h] by simp
  have "int (unat ?h) = (uint h + 1) mod int (length bk)" unfolding nx by (simp add: zmod_int add.commute)
  then have u: "uint ?h = (uint h + 1) AND (int (length bk) - 1)" by (simp add: and_len_mod [OF assms(1)])
  have lt: "unat ?h < length bk" unfolding nx using index_small [OF assms(1)] by simp
  have e: "bucket_table ts bk ! unat h = (if bk ! nat (uint h) < 0 then None else Some (kt_name (ts ! nat (bk ! nat (uint h))), bk ! nat (uint h)))"
    using bucket_table_nth [OF Suc.prems, of ts] by simp
  show ?case using Suc.IH [OF lt] unfolding u by (simp add: e)
qed simp

lemma home_eq:
  assumes "index_len bk"
  shows "st_home bk name = uint (home (bucket_table ts bk) name)"
proof -
  have w: "(word_of_int (int (length bk) - 1) :: 64 word) = of_nat (length (bucket_table ts bk)) - 1" by simp
  have f: "fnv1a name = hash_bytes name" by (simp add: fnv1a_def hash_bytes_def)
  let ?h = "home (bucket_table ts bk) name"
  have "unat ?h < length bk" using home_less [OF index_pow2 [OF assms], of ts name] by simp
  then have "unat ?h < 2 ^ 30" using index_small [OF assms] by linarith
  then have l: "uint ?h < 2 ^ 30" using of_nat_less_iff [where 'a = int, of "unat ?h" "2 ^ 30"] by simp
  have "st_home bk name = sint (ucast ?h :: 32 word)" by (simp add: st_home_def home_def w f)
  also have "\<dots> = uint ?h"
  proof -
    have "signed_take_bit 31 (uint ?h) = uint ?h" 
    proof (rule signed_take_bit_int_eq_self)
      show "- (2 ^ 31) \<le> uint ?h" by (rule order_trans [of _ 0]) simp_all
      show "uint ?h < 2 ^ 31" using l by simp
    qed
    moreover have "take_bit 32 (uint ?h) = uint ?h" using l by (intro take_bit_int_eq_self) simp_all
    ultimately show ?thesis by (simp add: sint_uint unsigned_ucast_eq)
  qed
  finally show ?thesis .
qed

lemma slot_table:
  assumes "index_len bk"
  shows "st_slot ts bk name (st_home bk name) (length bk) = map_option uint (probe (bucket_table ts bk) name (home (bucket_table ts bk) name) (length bk))"
  using slot_probe [OF assms, of "home (bucket_table ts bk) name"] home_less [OF index_pow2 [OF assms], of ts name]
  by (simp add: home_eq [OF assms, where ts = ts])

lemma probe_in_range:
  assumes "index_len bk" "probe (bucket_table ts bk) name (home (bucket_table ts bk) name) (length bk) = Some h"
  shows "unat h < length bk"
  using probe_slot [of "bucket_table ts bk" name h] index_pow2 [OF assms(1)] assms(2) by simp

lemma find_idx_get:
  assumes "index_len bk"
  shows "st_find_idx \<lparr>st_shard = sh, st_t = ts, st_bucket = bk\<rparr> name < 0 \<longleftrightarrow> map_get (bucket_table ts bk) name < 0"
    "\<not> map_get (bucket_table ts bk) name < 0 \<Longrightarrow>
      st_find_idx \<lparr>st_shard = sh, st_t = ts, st_bucket = bk\<rparr> name = map_get (bucket_table ts bk) name"
proof -
  have ne: "bk \<noteq> []" "bucket_table ts bk \<noteq> []" using index_small [OF assms] by (auto simp: bucket_table_def)
  let ?p = "probe (bucket_table ts bk) name (home (bucket_table ts bk) name) (length bk)"
  have "st_find_idx \<lparr>st_shard = sh, st_t = ts, st_bucket = bk\<rparr> name = (case ?p of None \<Rightarrow> -1 | Some h \<Rightarrow> bk ! unat h)"
    using ne by (simp add: st_find_idx_def slot_table [OF assms, where ts = ts] split: option.split)
  moreover have "map_get (bucket_table ts bk) name = (case ?p of None \<Rightarrow> -1 | Some h \<Rightarrow> if bk ! unat h < 0 then -1 else bk ! unat h)"
    using ne probe_in_range [OF assms, of ts name] by (auto simp: map_get_def bucket_table_nth split: option.split)
  ultimately show "st_find_idx \<lparr>st_shard = sh, st_t = ts, st_bucket = bk\<rparr> name < 0 \<longleftrightarrow> map_get (bucket_table ts bk) name < 0"
    "\<not> map_get (bucket_table ts bk) name < 0 \<Longrightarrow>
      st_find_idx \<lparr>st_shard = sh, st_t = ts, st_bucket = bk\<rparr> name = map_get (bucket_table ts bk) name"
    by (auto split: option.splits if_splits)
qed

text \<open>An insertion succeeds exactly for a name that is not there yet.\<close>

lemma insert_put:
  assumes "index_len bk" "room (bucket_table ts bk) (Suc n)"
  shows "st_insert ts bk i \<noteq> None \<longleftrightarrow> map_get (bucket_table ts bk) (kt_name (ts ! i)) = -1"
    and "st_insert ts bk i = Some bk' \<Longrightarrow> index_len bk' \<and> room (bucket_table ts bk') n \<and>
      (\<forall>t. map_get (bucket_table ts bk') t = (if t = kt_name (ts ! i) then int i else map_get (bucket_table ts bk) t))"
proof -
  let ?m = "bucket_table ts bk" and ?k = "kt_name (ts ! i)"
  obtain m' where m': "map_put ?m ?k (int i) = Some m'" "room m' n"
      "\<And>t. map_get m' t = (if t = ?k \<and> map_get ?m ?k = -1 then int i else map_get ?m t)"
    using map_put_ok [OF assms(2), of "int i" ?k] by auto
  then obtain h where h: "probe ?m ?k (home ?m ?k) (length bk) = Some h"
    by (auto simp: map_put_def split: option.splits)
  have lt: "unat h < length bk" by (rule probe_in_range [OF assms(1) h])
  have s: "st_slot ts bk ?k (st_home bk ?k) (length bk) = Some (uint h)" by (simp add: slot_table [OF assms(1)] h)
  have ne: "?m \<noteq> []" using lt by (auto simp: bucket_table_def)
  have inv: "table_inv ?m" using assms(2) by (simp add: room_def)
  have g: "map_get ?m ?k = (if bk ! unat h < 0 then -1 else bk ! unat h)"
    using ne h lt by (simp add: map_get_def bucket_table_nth)
  have ins: "st_insert ts bk i = (if bk ! unat h \<ge> 0 then None else Some (bk[unat h := int i]))"
    by (simp add: st_insert_def s)
  show "st_insert ts bk i \<noteq> None \<longleftrightarrow> map_get ?m ?k = -1" using g ins by auto
  assume b: "st_insert ts bk i = Some bk'"
  then have neg: "bk ! unat h < 0" and bk': "bk' = bk[unat h := int i]" using ins by (auto split: if_splits)
  have "m' = bucket_table ts bk'"
    using m'(1) h neg lt by (simp add: map_put_def bucket_table_nth bk' bucket_table_update)
  with m'(2,3) g neg bk' assms(1) show "index_len bk' \<and> room (bucket_table ts bk') n \<and>
      (\<forall>t. map_get (bucket_table ts bk') t = (if t = ?k then int i else map_get ?m t))"
    by (simp add: index_len_def)
qed

lemma index_upto:
  assumes "index_len bk" "room (bucket_table ts bk) (length ns)" "\<forall>t. map_get (bucket_table ts bk) t = -1 \<or> 0 \<le> map_get (bucket_table ts bk) t"
  shows "st_index ts bk ns \<noteq> None \<longleftrightarrow>
      distinct (map (\<lambda>i. kt_name (ts ! i)) ns) \<and> (\<forall>i \<in> set ns. map_get (bucket_table ts bk) (kt_name (ts ! i)) = -1)"
    and "st_index ts bk ns = Some bk' \<Longrightarrow> index_len bk' \<and>
      (\<forall>i \<in> set ns. map_get (bucket_table ts bk') (kt_name (ts ! i)) = int i) \<and>
      (\<forall>t. t \<notin> (\<lambda>i. kt_name (ts ! i)) ` set ns \<longrightarrow> map_get (bucket_table ts bk') t = map_get (bucket_table ts bk) t)"
  using assms
proof (induction ns arbitrary: bk)
  case (Cons i ns)
  {
    case 1
    note ok = insert_put [OF 1(1), of ts "length ns" i]
    show ?case
    proof (cases "st_insert ts bk i")
      case None
      then show ?thesis using ok(1) 1(2) by auto
    next
      case (Some b)
      have b: "index_len b" "room (bucket_table ts b) (length ns)"
          "\<And>t. map_get (bucket_table ts b) t = (if t = kt_name (ts ! i) then int i else map_get (bucket_table ts bk) t)"
        using ok(2) [OF _ Some] 1(2) by auto
      have "map_get (bucket_table ts bk) (kt_name (ts ! i)) = -1" using ok(1) Some 1(2) by auto
      with Cons.IH(1) [OF b(1,2)] b(3) 1(3) Some show ?thesis by (auto simp: image_iff)
    qed
  next
    case 2
    then obtain b where i: "st_insert ts bk i = Some b" "st_index ts b ns = Some bk'" by (auto split: bind_splits)
    have b: "index_len b" "room (bucket_table ts b) (length ns)"
        "\<And>t. map_get (bucket_table ts b) t = (if t = kt_name (ts ! i) then int i else map_get (bucket_table ts bk) t)"
      using insert_put(2) [OF 2(2) _ i(1)] 2(3) by auto
    have n: "\<forall>t. map_get (bucket_table ts b) t = -1 \<or> 0 \<le> map_get (bucket_table ts b) t" using b(3) 2(4) by auto
    have d: "\<forall>j \<in> set ns. map_get (bucket_table ts b) (kt_name (ts ! j)) = -1" using Cons.IH(1) [OF b(1,2) n] i(2) by simp
    then have ni: "kt_name (ts ! i) \<notin> (\<lambda>j. kt_name (ts ! j)) ` set ns" using b(3) by fastforce
    from Cons.IH(2) [OF i(2) b(1,2) n] ni b(3) show ?case by auto
  }
qed simp_all

text \<open>The fresh index.\<close>

lemma fresh_index:
  assumes "n \<le> 2 ^ 29"
  shows "index_len (replicate (nat (grow_cap 1024 (int n))) (-1))"
    "room (bucket_table ts (replicate (nat (grow_cap 1024 (int n))) (-1))) n"
    "map_get (bucket_table ts (replicate (nat (grow_cap 1024 (int n))) (-1))) t = -1"
proof -
  have "\<exists>k\<le>30. (1024::int) = 2 ^ k" by (intro exI [of _ 10]) simp
  from grow_cap_ok [of 1024 "int n", OF _ _ _ this] assms obtain k
    where k: "k \<le> 30" "grow_cap 1024 (int n) = 2 ^ k" "int n * 2 \<le> grow_cap 1024 (int n)" "1024 \<le> grow_cap 1024 (int n)" by auto
  let ?bk = "replicate (nat (grow_cap 1024 (int n))) (-1 :: int)"
  have t: "bucket_table ts ?bk = replicate (2 ^ k) None" by (simp add: bucket_table_def k(2) nat_power_eq)
  show "index_len ?bk" unfolding index_len_def using k(1,2) by (auto simp: nat_power_eq)
  have inv: "table_inv (bucket_table ts ?bk)" unfolding t table_inv_def pow2_len_def using k(1) by auto
  moreover have "n < 2 ^ k"
  proof -
    have "int n < 2 ^ k" using k(2-4) by linarith
    then show ?thesis by (metis of_nat_less_iff of_nat_numeral of_nat_power)
  qed
  ultimately show "room (bucket_table ts ?bk) n" unfolding room_def t by (simp add: used_slots_def)
  show "map_get (bucket_table ts ?bk) t = -1" by (rule get_absent [OF inv]) (simp add: t)
qed

lemma st_index_all:
  assumes "length ts \<le> 2 ^ 29"
  defines "bk0 \<equiv> replicate (nat (grow_cap 1024 (int (length ts)))) (-1)"
  shows "st_index ts bk0 [0..<length ts] \<noteq> None \<longleftrightarrow> distinct (map kt_name ts)"
    and "st_index ts bk0 [0..<length ts] = Some bk \<Longrightarrow>
      k3_st_find \<lparr>st_shard = sh, st_t = ts, st_bucket = bk\<rparr> name = List.find (\<lambda>t. kt_name t = name) ts"
proof -
  note f = fresh_index [OF assms(1), folded bk0_def]
  have names: "map (\<lambda>i. kt_name (ts ! i)) [0..<length ts] = map kt_name ts" by (rule nth_equalityI) auto
  note up = index_upto [OF f(1), of ts "[0..<length ts]"]
  show d: "st_index ts bk0 [0..<length ts] \<noteq> None \<longleftrightarrow> distinct (map kt_name ts)"
    using up(1) f(2,3) [of ts] names by simp
  assume s: "st_index ts bk0 [0..<length ts] = Some bk"
  have bk: "index_len bk" "\<And>i. i < length ts \<Longrightarrow> map_get (bucket_table ts bk) (kt_name (ts ! i)) = int i"
      "\<And>t. t \<notin> (\<lambda>i. kt_name (ts ! i)) ` set [0..<length ts] \<Longrightarrow> map_get (bucket_table ts bk) t = -1"
    using up(2) [OF _ _ s] f(2,3) [of ts] by auto
  show "k3_st_find \<lparr>st_shard = sh, st_t = ts, st_bucket = bk\<rparr> name = List.find (\<lambda>t. kt_name t = name) ts"
  proof (cases "\<exists>i<length ts. kt_name (ts ! i) = name")
    case True
    then obtain i where i: "i < length ts" "kt_name (ts ! i) = name" by blast
    then have g: "st_find_idx \<lparr>st_shard = sh, st_t = ts, st_bucket = bk\<rparr> name = int i"
      using find_idx_get(2) [OF bk(1), of ts name sh] bk(2) [OF i(1)] by simp
    have "\<forall>j<i. kt_name (ts ! j) \<noteq> name" using d s i by (auto simp: distinct_conv_nth)
    then have "List.find (\<lambda>t. kt_name t = name) ts = Some (ts ! i)" using i by (auto simp: find_Some_iff)
    then show ?thesis by (simp add: k3_st_find_def g)
  next
    case False
    then have "map_get (bucket_table ts bk) name = -1" by (intro bk(3)) auto
    then have "st_find_idx \<lparr>st_shard = sh, st_t = ts, st_bucket = bk\<rparr> name < 0" using find_idx_get(1) [OF bk(1), of sh ts name] by simp
    moreover have "List.find (\<lambda>t. kt_name t = name) ts = None" using False by (auto simp: find_None_iff in_set_conv_nth)
    ultimately show ?thesis by (simp add: k3_st_find_def Let_def)
  qed
qed

end
