(* ===== verification/K3_St_Header.thy ===== *)
theory K3_St_Header
  imports K3_St_Index Gguf_Props
begin

text \<open>
  Safetensors headers as the format prescribes them, and that the scanner of \<^verbatim>\<open>io/k3_st.c\<close> reads them
  back: names with quotes and backslashes, metadata objects and trailing padding included.
\<close>

section \<open>Texts\<close>

definition dec :: "nat \<Rightarrow> byte list" where
  "dec n = ascii (dec_nat n)"

definition esc_str :: "byte list \<Rightarrow> byte list" where
  "esc_str s = concat (map (\<lambda>c. if c = 34 \<or> c = 92 then [92, c] else [c]) s)"

definition quoted :: "byte list \<Rightarrow> byte list" where
  "quoted s = 34 # esc_str s @ [34]"

fun commas :: "byte list list \<Rightarrow> byte list" where
  "commas [] = []"
| "commas (x # xs) = x @ (if xs = [] then [] else 44 # commas xs)"

fun dtype_text :: "k3_dtype \<Rightarrow> byte list" where
  "dtype_text K3_DT_U8 = ascii ''U8''"
| "dtype_text K3_DT_BF16 = ascii ''BF16''"
| "dtype_text K3_DT_F16 = ascii ''F16''"
| "dtype_text K3_DT_F32 = ascii ''F32''"
| "dtype_text _ = []"

datatype member = Meta "(byte list \<times> byte list) list" | Weight k3_tensor

definition fields_text :: "int \<Rightarrow> k3_tensor \<Rightarrow> byte list" where
  "fields_text base t =
     quoted (ascii ''dtype'') @ 58 # quoted (dtype_text (kt_dtype t)) @ 44 #
     quoted (ascii ''shape'') @ 58 # 91 # commas (map (\<lambda>d. dec (nat d)) (kt_shape t)) @ 93 # 44 #
     quoted (ascii ''data_offsets'') @ 58 # 91 # dec (nat (kt_off t - base)) @ 44 # dec (nat (kt_off t - base + kt_nbytes t)) @ [93]"

fun member_text :: "int \<Rightarrow> member \<Rightarrow> byte list" where
  "member_text base (Meta kvs) =
     quoted (ascii ''__metadata__'') @ 58 # 123 # commas (map (\<lambda>(k, v). quoted k @ 58 # quoted v) kvs) @ [125]"
| "member_text base (Weight t) = quoted (kt_name t) @ 58 # 123 # fields_text base t @ [125]"

definition header_text :: "int \<Rightarrow> member list \<Rightarrow> nat \<Rightarrow> byte list" where
  "header_text base ms pad = 123 # commas (map (member_text base) ms) @ 125 # replicate pad 32"

definition weights :: "member list \<Rightarrow> k3_tensor list" where
  "weights ms = concat (map (\<lambda>m. case m of Weight t \<Rightarrow> [t] | Meta _ \<Rightarrow> []) ms)"

text \<open>A tensor that the format allows in shard \<open>sh\<close> of a file of \<open>fsize\<close> bytes.\<close>

definition tensor_fits :: "int \<Rightarrow> int \<Rightarrow> int \<Rightarrow> k3_tensor \<Rightarrow> bool" where
  "tensor_fits base fsize sh t \<longleftrightarrow>
     0 \<notin> set (kt_name t) \<and> length (kt_name t) \<le> 511 \<and> kt_name t \<noteq> ascii ''__metadata__'' \<and> kt_shard t = sh \<and>
     kt_dtype t \<in> {K3_DT_U8, K3_DT_BF16, K3_DT_F16, K3_DT_F32} \<and>
     length (kt_shape t) \<le> 4 \<and> (\<forall>d \<in> set (kt_shape t). 0 \<le> d \<and> d < 2 ^ 63) \<and>
     kt_nbytes t = i64 (k3_st_numel (kt_shape t) * k3_st_elemsize (kt_dtype t)) \<and> 0 \<le> kt_nbytes t \<and>
     base \<le> kt_off t \<and> kt_off t + kt_nbytes t \<le> fsize"

section \<open>Numbers\<close>

lemma ascii_append [simp]: "ascii (xs @ ys) = ascii xs @ ascii ys"
  by (simp add: ascii_def)

lemma digit_byte:
  assumes "n < 10"
  shows "ascii [char_of (48 + n)] = [of_nat (48 + n)]" "is_dig (of_nat (48 + n))" "uint (of_nat (48 + n) :: byte) = 48 + int n"
    "(of_nat (48 + n) :: byte) \<noteq> 45" "(of_nat (48 + n) :: byte) \<noteq> 43" "\<not> (of_nat (48 + n) :: byte) \<le> 32"
proof -
  show a: "ascii [char_of (48 + n)] = [of_nat (48 + n)]" using assms by (simp add: ascii_def)
  have "uint (of_nat (48 + n) :: byte) = int (48 + n)" using assms by (simp add: unsigned_of_nat take_bit_nat_eq_self del: of_nat_add)
  then have u: "uint (of_nat (48 + n) :: byte) = 48 + int n" by simp
  then show "uint (of_nat (48 + n) :: byte) = 48 + int n" .
  show "is_dig (of_nat (48 + n))" "\<not> (of_nat (48 + n) :: byte) \<le> 32"
    using u assms by (simp_all add: is_dig_def word_le_def del: of_nat_add)
  show "(of_nat (48 + n) :: byte) \<noteq> 45" "(of_nat (48 + n) :: byte) \<noteq> 43"
    using u arg_cong [of "of_nat (48 + n) :: byte" 45 uint] arg_cong [of "of_nat (48 + n) :: byte" 43 uint] by (auto simp del: of_nat_add)
qed

lemma dec_unfold: "dec n = (if n < 10 then [of_nat (48 + n)] else dec (n div 10) @ [of_nat (48 + n mod 10)])"
proof (cases "n < 10")
  case True
  then show ?thesis using digit_byte(1) [OF True] by (simp add: dec_def dec_nat.simps [of n])
next
  case False
  have "n mod 10 < 10" by simp
  from digit_byte(1) [OF this] False show ?thesis by (simp add: dec_def dec_nat.simps [of n])
qed

lemma dec_digits: "dec n \<noteq> [] \<and> list_all (\<lambda>c. is_dig c \<and> c \<noteq> 45 \<and> c \<noteq> 43 \<and> \<not> c \<le> 32) (dec n)"
proof (induction n rule: less_induct)
  case (less n)
  show ?case
  proof (cases "n < 10")
    case True
    then show ?thesis using digit_byte [OF True] by (simp add: dec_unfold [of n])
  next
    case False
    have m: "n mod 10 < 10" by simp
    have "n div 10 < n" using False by simp
    from less [OF this] digit_byte [OF m] False show ?thesis by (simp add: dec_unfold [of n] del: of_nat_add)
  qed
qed

lemma dec_value: "int n < 2 ^ 63 \<Longrightarrow> foldl (\<lambda>a c. i64 (a * 10 + (uint c - 48))) 0 (dec n) = int n"
proof (induction n rule: less_induct)
  case (less n)
  show ?case
  proof (cases "n < 10")
    case True
    then have "in_i64 (int n)" using less.prems by (simp add: in_i64_nonneg)
    then show ?thesis using digit_byte(3) [OF True] True by (simp add: dec_unfold [of n] del: of_nat_add)
  next
    case False
    have m: "n mod 10 < 10" by simp
    have lt: "n div 10 < n" using False by simp
    have "int (n div 10) < 2 ^ 63" using less.prems lt by linarith
    note IH = less.IH [OF lt this]
    have e: "int (n div 10) * 10 + int (n mod 10) = int n" by (metis div_mult_mod_eq of_nat_add of_nat_mult of_nat_numeral)
    have "in_i64 (int n)" using less.prems by (simp add: in_i64_nonneg)
    with IH e digit_byte(3) [OF m] False show ?thesis by (subst dec_unfold) (simp del: of_nat_add)
  qed
qed

lemma takeWhile_digits:
  assumes "list_all P xs" "ys = [] \<or> \<not> P (hd ys)"
  shows "takeWhile P (xs @ ys) = xs" "dropWhile P (xs @ ys) = ys"
  using assms by (induction xs; cases ys; auto)+

lemma scan_dec:
  assumes "int n < 2 ^ 63" "r \<noteq> []" "\<not> is_dig (hd r)"
  shows "scan_i64 (dec n @ r) = Some (int n, r)"
proof -
  obtain c cs where c: "dec n = c # cs" using dec_digits [of n] by (cases "dec n") auto
  have d: "is_dig c" "c \<noteq> 45" "c \<noteq> 43" "\<not> c \<le> 32" "list_all is_dig (dec n)"
    using dec_digits [of n] unfolding c by (auto simp: list_all_iff)
  have w: "ws (dec n @ r) = dec n @ r" unfolding c using d by (simp add: ws_def)
  have "takeWhile is_dig (dec n @ r) = dec n" "dropWhile is_dig (dec n @ r) = r"
    using takeWhile_digits [OF d(5), of r] assms(2,3) by auto
  then show ?thesis unfolding scan_i64_def Let_def w using d dec_value [OF assms(1)] c by simp
qed

section \<open>Strings\<close>

lemma str_body_esc: "str_body (esc_str s @ 34 # r) = Some (s, r)"
  by (induction s) (simp_all add: esc_str_def escape_def)

lemma scan_quoted: "length s + 1 \<le> cap \<Longrightarrow> scan_str cap (quoted s @ r) = Some (s, r)"
  by (simp add: scan_str_def quoted_def ws_def str_body_esc)

lemma scan_quoted': "length s + 1 \<le> cap \<Longrightarrow> scan_str cap (44 # quoted s @ r) = None"
  by (simp add: scan_str_def ws_def)

lemma skip_str_esc: "skip_str (esc_str s @ 34 # r) = Some r"
  by (induction s) (simp_all add: esc_str_def)

lemma lit_same: "\<not> c \<le> 32 \<Longrightarrow> lit c (c # r) = Some r"
  by (simp add: lit_def ws_def)

lemma lit_other: "\<not> d \<le> 32 \<Longrightarrow> d \<noteq> c \<Longrightarrow> lit c (d # r) = None"
  by (simp add: lit_def ws_def)

lemma ws_head: "\<not> c \<le> 32 \<Longrightarrow> ws (c # r) = c # r"
  by (simp add: ws_def)

lemma not_ws: "\<not> (34 :: byte) \<le> 32" "\<not> (44 :: byte) \<le> 32" "\<not> (58 :: byte) \<le> 32" "\<not> (91 :: byte) \<le> 32" "\<not> (93 :: byte) \<le> 32"
    "\<not> (123 :: byte) \<le> 32" "\<not> (125 :: byte) \<le> 32"
  by (simp_all add: word_le_def)

lemma cstr_id: "0 \<notin> set s \<Longrightarrow> cstr s = s"
  by (auto simp: cstr_def takeWhile_eq_all_conv)

lemma not_dig: "\<not> is_dig 44" "\<not> is_dig 93"
  by (simp_all add: is_dig_def word_le_def)

section \<open>Fields\<close>

lemma scan_dims_dec:
  assumes "ds \<noteq> []" "length sh + length ds \<le> 4" "\<forall>d \<in> set ds. 0 \<le> d \<and> d < 2 ^ 63"
  shows "scan_dims sh (commas (map (\<lambda>d. dec (nat d)) ds) @ 93 # r) = Some (sh @ ds, r)"
  using assms
proof (induction ds arbitrary: sh)
  case (Cons d ds)
  have d: "int (nat d) < 2 ^ 63" "int (nat d) = d" using Cons.prems(3) by auto
  show ?case
  proof (cases "ds = []")
    case True
    have "scan_i64 (dec (nat d) @ 93 # r) = Some (int (nat d), 93 # r)" by (rule scan_dec [OF d(1)]) (simp_all add: not_dig)
    then show ?thesis using True Cons.prems(2) d(2) by (subst scan_dims.simps) (simp add: lit_other lit_same not_ws)
  next
    case False
    let ?r = "44 # commas (map (\<lambda>d. dec (nat d)) ds) @ 93 # r"
    have "scan_i64 (dec (nat d) @ ?r) = Some (int (nat d), ?r)" by (rule scan_dec [OF d(1)]) (simp_all add: not_dig)
    then have "scan_dims sh (commas (map (\<lambda>d. dec (nat d)) (d # ds)) @ 93 # r) = scan_dims (sh @ [d]) (commas (map (\<lambda>d. dec (nat d)) ds) @ 93 # r)"
      using False Cons.prems(2) d(2) by (subst scan_dims.simps) (simp add: lit_same not_ws)
    then show ?thesis using Cons.IH [of "sh @ [d]"] False Cons.prems by simp
  qed
qed simp

lemma keys_distinct: "ascii ''dtype'' \<noteq> ascii ''shape''" "ascii ''dtype'' \<noteq> ascii ''data_offsets''" "ascii ''shape'' \<noteq> ascii ''data_offsets''"
    "cstr (ascii ''dtype'') = ascii ''dtype''" "cstr (ascii ''shape'') = ascii ''shape''" "cstr (ascii ''data_offsets'') = ascii ''data_offsets''"
    "cstr (ascii ''__metadata__'') = ascii ''__metadata__''"
  by (simp_all add: ascii_def cstr_def)

lemma key_lengths: "length (ascii s) = length s"
  by (simp add: ascii_def)

lemma dtype_of_text: "dt \<in> {K3_DT_U8, K3_DT_BF16, K3_DT_F16, K3_DT_F32} \<Longrightarrow> dtype_of (dtype_text dt) = dt \<and> length (dtype_text dt) \<le> 4"
  by (auto simp: dtype_of_def ascii_def)

lemma field_dtype:
  assumes "dt \<in> {K3_DT_U8, K3_DT_BF16, K3_DT_F16, K3_DT_F32}"
  shows "scan_field e (quoted (ascii ''dtype'') @ 58 # quoted (dtype_text dt) @ r) = Some (e\<lparr>en_dtype := Some dt\<rparr>, r)"
proof -
  have "scan_str 32 (quoted (dtype_text dt) @ r) = Some (dtype_text dt, r)" using dtype_of_text [OF assms] by (intro scan_quoted) simp
  then show ?thesis using dtype_of_text [OF assms] assms
    by (auto simp: scan_field_def scan_quoted key_lengths lit_same not_ws keys_distinct)
qed

lemma field_shape:
  assumes "length sh \<le> 4" "\<forall>d \<in> set sh. 0 \<le> d \<and> d < 2 ^ 63" "en_shape e = []"
  shows "scan_field e (quoted (ascii ''shape'') @ 58 # 91 # commas (map (\<lambda>d. dec (nat d)) sh) @ 93 # r) = Some (e\<lparr>en_shape := sh\<rparr>, r)"
proof (cases "sh = []")
  case True
  then have "e\<lparr>en_shape := sh\<rparr> = e" using assms(3) by simp
  with True show ?thesis
    by (simp add: scan_field_def scan_quoted key_lengths lit_same not_ws keys_distinct keys_distinct(1,3) [symmetric] ws_head)
next
  case False
  let ?s = "commas (map (\<lambda>d. dec (nat d)) sh) @ 93 # r"
  obtain d ds where sh: "sh = d # ds" using False by (cases sh) auto
  obtain c cs where c: "dec (nat d) = c # cs" "is_dig c" "\<not> c \<le> 32"
    using dec_digits [of "nat d"] by (cases "dec (nat d)") auto
  have h: "hd (ws ?s) \<noteq> 93" using c not_dig(2) by (auto simp: sh ws_def)
  have "scan_dims [] ?s = Some (sh, r)" using scan_dims_dec [OF False, of "[]"] assms(1,2) by simp
  with h assms(3) show ?thesis
    by (simp add: scan_field_def scan_quoted key_lengths lit_same not_ws keys_distinct keys_distinct(1,3) [symmetric])
qed

lemma field_offsets:
  assumes "int a < 2 ^ 63" "int b < 2 ^ 63"
  shows "scan_field e (quoted (ascii ''data_offsets'') @ 58 # 91 # dec a @ 44 # dec b @ 93 # r) = Some (e\<lparr>en_offs := Some (int a, int b)\<rparr>, r)"
proof -
  have "scan_i64 (dec a @ 44 # dec b @ 93 # r) = Some (int a, 44 # dec b @ 93 # r)" by (rule scan_dec [OF assms(1)]) (simp_all add: not_dig)
  moreover have "scan_i64 (dec b @ 93 # r) = Some (int b, 93 # r)" by (rule scan_dec [OF assms(2)]) (simp_all add: not_dig)
  ultimately show ?thesis
    by (simp add: scan_field_def scan_quoted key_lengths lit_same not_ws keys_distinct keys_distinct(1-3) [symmetric])
qed

lemma fields_more:
  assumes "scan_field e s = Some (e', r)" "s = 34 # s'"
  shows "scan_fields True e s = scan_fields False e' r" "scan_fields False e (44 # s) = scan_fields False e' r"
  using assms by (subst scan_fields.simps; simp add: ws_head not_ws lit_same)+

lemma fields_done: "scan_fields f e (125 # r) = Some (e, r)"
  by (subst scan_fields.simps) (simp add: ws_head not_ws)

lemma quoted_Cons: "quoted s @ r = 34 # (esc_str s @ 34 # r)"
  by (simp add: quoted_def)

lemma scan_fields_text:
  assumes "tensor_fits base fsize sh t" "0 \<le> base" "fsize < 2 ^ 63"
  shows "scan_fields True \<lparr>en_dtype = None, en_shape = [], en_offs = None\<rparr> (fields_text base t @ 125 # r) =
    Some (\<lparr>en_dtype = Some (kt_dtype t), en_shape = kt_shape t, en_offs = Some (kt_off t - base, kt_off t - base + kt_nbytes t)\<rparr>, r)"
proof -
  let ?a = "nat (kt_off t - base)" and ?b = "nat (kt_off t - base + kt_nbytes t)"
  have t: "kt_dtype t \<in> {K3_DT_U8, K3_DT_BF16, K3_DT_F16, K3_DT_F32}" "length (kt_shape t) \<le> 4"
      "\<forall>d \<in> set (kt_shape t). 0 \<le> d \<and> d < 2 ^ 63" "int ?a < 2 ^ 63" "int ?b < 2 ^ 63"
      "base \<le> kt_off t" "0 \<le> kt_off t - base + kt_nbytes t"
    using assms by (auto simp: tensor_fits_def)
  note f1 = fields_more(1) [OF field_dtype [OF t(1)]]
  note f2 = fields_more(2) [OF field_shape [OF t(2,3)]]
  note f3 = fields_more(2) [OF field_offsets [OF t(4,5)]]
  show ?thesis unfolding fields_text_def append_assoc append_Cons append_Nil
    by (subst f1, rule quoted_Cons, subst f2, simp, rule quoted_Cons, subst f3, rule quoted_Cons) (simp add: fields_done t(6,7))
qed

section \<open>Members\<close>

lemma nest_step:
  "skip_str r = Some r' \<Longrightarrow> 0 < d \<Longrightarrow> skip_nest d (34 # r) = skip_nest d r'"
  "c \<in> {44, 58} \<Longrightarrow> 0 < d \<Longrightarrow> skip_nest d (c # r) = skip_nest d r"
  "0 \<le> d \<Longrightarrow> skip_nest d (123 # r) = skip_nest (d + 1) r"
  "skip_nest 1 (125 # r) = Some r"
  by (subst skip_nest.simps; auto)+

lemma skip_pair: "0 < d \<Longrightarrow> skip_nest d (quoted k @ 58 # quoted v @ r) = skip_nest d r"
  unfolding quoted_Cons by (simp add: nest_step(1) [OF skip_str_esc] nest_step(2) quoted_Cons)

lemma skip_pairs: "skip_nest 1 (commas (map (\<lambda>(k, v). quoted k @ 58 # quoted v) kvs) @ 125 # r) = Some r"
proof (induction kvs)
  case Nil
  show ?case by (simp add: nest_step(4))
next
  case (Cons kv kvs)
  show ?case
  proof (cases "kvs = []")
    case True
    then show ?thesis using skip_pair [of 1 "fst kv" "snd kv" "125 # r"] by (simp add: nest_step(4) split_def)
  next
    case False
    then show ?thesis using Cons.IH skip_pair [of 1 "fst kv" "snd kv"] by (simp add: nest_step(2) split_def)
  qed
qed

lemma finish_fits:
  assumes "tensor_fits base fsize sh t" "0 \<le> base" "fsize < 2 ^ 63"
  shows "finish_entry base fsize sh (kt_name t)
    \<lparr>en_dtype = Some (kt_dtype t), en_shape = kt_shape t, en_offs = Some (kt_off t - base, kt_off t - base + kt_nbytes t)\<rparr> = Some t"
proof -
  have t: "0 \<notin> set (kt_name t)" "kt_shard t = sh" "base \<le> kt_off t" "0 \<le> kt_nbytes t" "kt_off t + kt_nbytes t \<le> fsize"
      "kt_nbytes t = i64 (k3_st_numel (kt_shape t) * k3_st_elemsize (kt_dtype t))"
    using assms(1) by (auto simp: tensor_fits_def)
  have "in_i64 (kt_off t)" "in_i64 (kt_nbytes t)" "in_i64 (kt_off t + kt_nbytes t)"
    using t assms(2,3) by (auto intro!: in_i64_nonneg)
  with t show ?thesis by (simp add: finish_entry_def Let_def cstr_id)
qed

lemma scan_entry_member:
  assumes "\<forall>t \<in> set (weights [m]). tensor_fits base fsize sh t" "0 \<le> base" "fsize < 2 ^ 63"
  shows "scan_entry base fsize sh (member_text base m @ r) = Some (weights [m], r)"
proof (cases m)
  case (Meta kvs)
  have "skip_value (123 # commas (map (\<lambda>(k, v). quoted k @ 58 # quoted v) kvs) @ 125 # r) = Some r"
    using skip_pairs [of kvs r] by (simp add: skip_value_def ws_head not_ws nest_step(3))
  then show ?thesis
    by (simp add: Meta scan_entry_def scan_quoted key_lengths lit_same not_ws keys_distinct weights_def)
next
  case (Weight t)
  have t: "tensor_fits base fsize sh t" using assms(1) Weight by (simp add: weights_def)
  then have n: "length (kt_name t) + 1 \<le> 512" "cstr (kt_name t) = kt_name t" "kt_name t \<noteq> ascii ''__metadata__''"
    by (auto simp: tensor_fits_def cstr_id)
  show ?thesis
    by (simp add: Weight scan_entry_def scan_quoted [OF n(1)] n(2,3) lit_same not_ws scan_fields_text [OF t assms(2,3)] finish_fits [OF t assms(2,3)] weights_def)
qed

lemma member_Cons: "\<exists>s. member_text base m @ r = 34 # s"
  by (cases m) (simp_all add: quoted_def)

lemma weights_Cons: "weights (m # ms) = weights [m] @ weights ms"
  by (simp add: weights_def)

lemma scan_entries_text:
  assumes "\<forall>t \<in> set (weights ms). tensor_fits base fsize sh t" "0 \<le> base" "fsize < 2 ^ 63"
  shows "scan_entries base fsize sh True acc (commas (map (member_text base) ms) @ 125 # r) = Some (acc @ weights ms)"
    and "ms \<noteq> [] \<Longrightarrow> scan_entries base fsize sh False acc (44 # commas (map (member_text base) ms) @ 125 # r) = Some (acc @ weights ms)"
  using assms(1)
proof (induction ms arbitrary: acc)
  case Nil
  { case 1 show ?case by (subst scan_entries.simps) (simp add: ws_head not_ws weights_def) }
  { case 2 then show ?case by simp }
next
  case (Cons m ms)
  let ?rest = "(if ms = [] then [] else 44 # commas (map (member_text base) ms)) @ 125 # r"
  have fit: "\<forall>t \<in> set (weights [m]). tensor_fits base fsize sh t" if "\<forall>t \<in> set (weights (m # ms)). tensor_fits base fsize sh t"
    using that by (simp add: weights_Cons [of m ms])
  have rest: "scan_entries base fsize sh False a ?rest = Some (a @ weights ms)" if "\<forall>t \<in> set (weights (m # ms)). tensor_fits base fsize sh t" for a
  proof (cases "ms = []")
    case True
    then show ?thesis by (subst scan_entries.simps) (simp add: ws_head not_ws weights_def)
  next
    case False
    then show ?thesis using Cons.IH(2) that by (simp add: weights_Cons [of m ms])
  qed
  obtain q where q: "member_text base m @ ?rest = 34 # q" using member_Cons by blast
  have tm: "commas (map (member_text base) (m # ms)) @ 125 # r = member_text base m @ ?rest" by simp
  {
    case 1
    note e = scan_entry_member [OF fit [OF 1] assms(2,3), of ?rest]
    show ?case unfolding tm weights_Cons [of m ms]
      using e rest [OF 1, of "acc @ weights [m]"] unfolding q
      by (subst scan_entries.simps) (simp add: ws_head not_ws)
  next
    case 2
    note e = scan_entry_member [OF fit [OF 2(2)] assms(2,3), of ?rest]
    show ?case unfolding tm weights_Cons [of m ms]
      using e rest [OF 2(2), of "acc @ weights [m]"] unfolding q
      by (subst scan_entries.simps) (simp add: ws_head not_ws lit_same)
  }
qed

section \<open>A whole shard\<close>

definition shard_image :: "int \<Rightarrow> member list \<Rightarrow> nat \<Rightarrow> byte list \<Rightarrow> byte list" where
  "shard_image base ms pad data =
     enc_le 8 (of_nat (length (header_text base ms pad))) @ header_text base ms pad @ data"

lemma header_len_le_from:
  assumes "length bs = 8"
  shows "header_len bs = le_from 0 bs 0"
proof -
  obtain b0 b1 b2 b3 b4 b5 b6 b7 where bs: "bs = [b0, b1, b2, b3, b4, b5, b6, b7]"
    using assms by (auto simp: numeral_eq_Suc length_Suc_conv)
  show ?thesis unfolding bs header_len_def
    by (simp add: upt_rec push_bit_or or.assoc or.commute or.left_commute)
qed

lemma header_len_enc: "header_len (enc_le 8 w) = w"
  using header_len_le_from [of "enc_le 8 w"] le_from_enc [of 8 w] by (simp add: take_bit_word_eq_self)

lemma scan_shard_image:
  assumes "img = shard_image base ms pad data" "base = 8 + int (length (header_text base ms pad))"
    and "sh_size f = int (length img)" "int (length img) < 2 ^ 60"
    and "pread_sound img (sh_fd f)" "pread_live img (sh_fd f)" "length (sh_fd f 0 8) = 8"
    and "\<forall>t \<in> set (weights ms). tensor_fits base (sh_size f) sh t"
  shows "scan_shard sh (Some f) = Some (weights ms)"
proof -
  let ?h = "header_text base ms pad" and ?n = "length (header_text base ms pad)"
  let ?w = "of_nat ?n :: 64 word"
  have n: "?n + 8 < 2 ^ 60" "0 < ?n" "8 + int ?n \<le> int (length img)"
    using assms(4) by (auto simp: assms(1) shard_image_def header_text_def)
  obtain k where "k \<le> 8" "sh_fd f 0 8 = take k img" using pread_soundD [OF assms(5), of 0 8] by auto
  then have "sh_fd f 0 8 = enc_le 8 ?w" using assms(7) by (auto simp: assms(1) shard_image_def)
  then have hl: "header_len (sh_fd f 0 8) = ?w" by (simp add: header_len_enc)
  have u: "uint ?w = int ?n" "uint (8 + ?w) = 8 + int ?n" "uint (word_of_int (sh_size f) :: 64 word) = sh_size f"
    using n assms(3,4) by (simp_all add: unsigned_of_nat take_bit_nat_eq_self uint_word_ariths unsigned_of_int take_bit_int_eq_self)
  have s: "sint ?w = int ?n" "sint (8 + ?w) = base"
    using sint_of_nat_small [of ?n] sint_of_nat_small [of "8 + ?n"] n assms(2) by simp_all
  have g: "?w \<noteq> 0" "\<not> word_of_int (sh_size f) < 8 + ?w"
    using u n assms(3) by (auto simp: word_less_def)
  have d: "drop 8 img = ?h @ data" by (simp add: assms(1) shard_image_def)
  have "pread_loop (sh_fd f) (int ?n) 8 [] = ?h"
  proof -
    obtain m where m: "m \<le> nat (int ?n)" "pread_loop (sh_fd f) (int ?n) 8 [] = take m (drop (nat 8) img)"
      using pread_loop_slice [OF assms(5), of 8 "int ?n"] by auto
    have "int ?n \<le> int (length (pread_loop (sh_fd f) (int ?n) 8 []))"
      using pread_loop_complete [OF assms(6), of 8 "int ?n" "[]"] n(3) by auto
    then show ?thesis using m d by simp
  qed
  moreover have "lit 123 ?h = Some (commas (map (member_text base) ms) @ 125 # replicate pad 32)"
    by (simp add: header_text_def lit_same not_ws)
  moreover have "scan_entries base (sh_size f) sh True [] (commas (map (member_text base) ms) @ 125 # replicate pad 32) = Some (weights ms)"
    using scan_entries_text(1) [OF assms(8), of "[]"] assms(2-4) by simp
  ultimately show ?thesis using assms(7) hl s g by (simp add: scan_shard_def Let_def)
qed

end
