(* ===== verification/K3_St_Props.thy ===== *)
theory K3_St_Props
  imports K3_St_Header Tensor_Props
begin

text \<open>
  Properties of the K3 safetensors reader: well-formed checkpoints are read back, the name index is
  exact on every directory it accepts, an accepted tensor lies inside its shard unless its offset is
  negative, and the chunked widening read is the element-wise one.
\<close>

section \<open>What an accepted tensor satisfies\<close>

definition tensor_checked :: "int \<Rightarrow> k3_tensor \<Rightarrow> bool" where
  "tensor_checked fsize t \<longleftrightarrow>
     kt_nbytes t = i64 (k3_st_numel (kt_shape t) * k3_st_elemsize (kt_dtype t)) \<and>
     i64 (kt_off t + kt_nbytes t) \<le> fsize \<and> in_i64 (kt_off t)"

lemma i64_signed: "i64 x = signed_take_bit 63 x"
  by (simp add: i64_def signed_take_bit_eq_take_bit_shift take_bit_eq_mod)

lemma i64_sum: "i64 (i64 a + i64 b) = i64 (a + b)"
  by (simp add: i64_signed signed_take_bit_add)

lemma finish_checked:
  assumes "finish_entry base fsize sh name e = Some t"
  shows "tensor_checked fsize t \<and> kt_shard t = sh"
proof -
  obtain dt o0 o1 where e: "en_dtype e = Some dt" "en_offs e = Some (o0, o1)"
    using assms by (auto simp: finish_entry_def split: option.splits)
  have "i64 (i64 (base + o0) + i64 (o1 - o0)) = i64 (base + o1)" by (simp add: i64_sum)
  then show ?thesis using assms e by (auto simp: finish_entry_def tensor_checked_def Let_def split: if_splits)
qed

lemma scan_entries_checked:
  assumes "scan_entries base fsize sh f acc s = Some ts" "\<forall>t \<in> set acc. tensor_checked fsize t \<and> kt_shard t = sh"
  shows "\<forall>t \<in> set ts. tensor_checked fsize t \<and> kt_shard t = sh"
  using assms
proof (induction base fsize sh f acc s rule: scan_entries.induct)
  case (1 base fsize sh f acc s)
  let ?stop = "\<lambda>s. ws s \<noteq> [] \<and> hd (ws s) = 125"
  note u = 1(2) [unfolded scan_entries.simps [of base fsize sh f acc s]]
  show ?case
  proof (cases "?stop s")
    case True
    then show ?thesis using u 1(3) by simp
  next
    case s0: False
    note u = u [unfolded if_not_P [OF s0]]
    obtain s1 where s1: "(if f then Some s else lit 44 s) = Some s1" using u by (cases "if f then Some s else lit 44 s") auto
    note u = u [unfolded s1 option.case]
    show ?thesis
    proof (cases "?stop s1")
      case True
      then show ?thesis using u 1(3) by simp
    next
      case n1: False
      note u = u [unfolded if_not_P [OF n1]]
      obtain us s2 where e: "scan_entry base fsize sh s1 = Some (us, s2)" using u by (cases "scan_entry base fsize sh s1") auto
      then have r: "scan_entries base fsize sh False (acc @ us) s2 = Some ts" using u by simp
      have "\<forall>t \<in> set us. tensor_checked fsize t \<and> kt_shard t = sh"
        using e by (auto simp: scan_entry_def split: bind_splits if_splits dest!: finish_checked)
      then have "\<forall>t \<in> set (acc @ us). tensor_checked fsize t \<and> kt_shard t = sh" using 1(3) by auto
      then show ?thesis by (rule 1(1) [OF s0 s1 n1 e refl r])
    qed
  qed
qed

lemma scan_shard_checked:
  assumes "scan_shard sh f = Some ts" "t \<in> set ts"
  shows "\<exists>g. f = Some g \<and> tensor_checked (sh_size g) t \<and> kt_shard t = sh"
  using assms by (auto simp: scan_shard_def Let_def split: option.splits if_splits bind_splits dest!: scan_entries_checked)

lemma scan_shards_checked:
  assumes "scan_shards i fs = Some ts" "t \<in> set ts"
  shows "\<exists>n < length fs. \<exists>g. snd (fs ! n) = Some g \<and> tensor_checked (sh_size g) t \<and> kt_shard t = i + int n"
  using assms
proof (induction i fs arbitrary: ts rule: scan_shards.induct)
  case (2 i name f fs)
  then obtain us vs where e: "scan_shard i f = Some us" "scan_shards (i + 1) fs = Some vs" "ts = us @ vs"
    by (auto split: bind_splits)
  show ?case
  proof (cases "t \<in> set us")
    case True
    with scan_shard_checked [OF e(1)] show ?thesis by (intro exI [of _ 0]) auto
  next
    case False
    then obtain n g where n: "n < length fs" "snd (fs ! n) = Some g" "tensor_checked (sh_size g) t" "kt_shard t = i + 1 + int n"
      using 2(1) [OF e(1,2)] 2(3) e(3) by auto
    then show ?thesis by (intro exI [of _ "Suc n"]) auto
  qed
qed simp

lemma open_parts:
  assumes "k3_st_open dir = Some s"
  obtains files bk where "files = sort_key fst (filter (\<lambda>(n, f). is_safetensors n) dir)" "files \<noteq> []"
    "scan_shards 0 files = Some (st_t s)" "st_index (st_t s) (replicate (nat (grow_cap 1024 (int (length (st_t s))))) (-1)) [0..<length (st_t s)] = Some bk"
    "s = \<lparr>st_shard = map (\<lambda>(n, f). the f) files, st_t = st_t s, st_bucket = bk\<rparr>"
  using assms by (auto simp: k3_st_open_def Let_def split: if_splits bind_splits)

text \<open>The shard of a tensor of an open checkpoint.\<close>

definition shard_of :: "k3_st \<Rightarrow> k3_tensor \<Rightarrow> k3_shard" where
  "shard_of s t = st_shard s ! nat (kt_shard t)"

lemma open_checked:
  assumes "k3_st_open dir = Some s" "t \<in> set (st_t s)"
  shows "tensor_checked (sh_size (shard_of s t)) t" "0 \<le> kt_shard t" "kt_shard t < int (length (st_shard s))"
proof -
  obtain files bk where f: "scan_shards 0 files = Some (st_t s)"
      "s = \<lparr>st_shard = map (\<lambda>(n, f). the f) files, st_t = st_t s, st_bucket = bk\<rparr>"
    using open_parts [OF assms(1)] by metis
  obtain n g where n: "n < length files" "snd (files ! n) = Some g" "tensor_checked (sh_size g) t" "kt_shard t = int n"
    using scan_shards_checked [OF f(1) assms(2)] by auto
  have "st_shard s ! n = g" using n(1,2) by (subst f(2)) (simp add: split_def)
  then show "tensor_checked (sh_size (shard_of s t)) t" using n(3,4) by (simp add: shard_of_def)
  show "0 \<le> kt_shard t" "kt_shard t < int (length (st_shard s))" using n(1,4) by (simp_all) (subst f(2), simp)
qed

lemma checked_bound:
  assumes "tensor_checked fsize t" "0 \<le> kt_off t" "0 \<le> kt_nbytes t" "kt_off t + kt_nbytes t < 2 ^ 63"
  shows "kt_off t + kt_nbytes t \<le> fsize"
proof -
  have "in_i64 (kt_off t + kt_nbytes t)" using assms(2-4) by (intro in_i64_nonneg) auto
  then show ?thesis using assms(1) by (simp add: tensor_checked_def)
qed

section \<open>Reading\<close>

lemma widen_at_shift:
  assumes "0 \<le> off" "raw = slice (off + int fin * k3_st_elemsize dt) (int tk * k3_st_elemsize dt) img" "0 < k3_st_elemsize dt"
    and "int (length raw) = int tk * k3_st_elemsize dt" "i < tk"
  shows "widen_at dt raw i = widen_at dt (drop (nat off) img) (fin + i)"
proof -
  define e where "e = nat (k3_st_elemsize dt)"
  have e: "int e = k3_st_elemsize dt" using assms(3) by (simp add: e_def)
  have raw: "raw = take (tk * e) (drop (nat off + fin * e) img)"
  proof -
    have "nat (off + int fin * int e) = nat off + fin * e" "nat (int tk * int e) = tk * e"
      using assms(1) by (simp_all add: nat_add_distrib nat_mult_distrib)
    then show ?thesis by (simp add: assms(2) slice_def e [symmetric])
  qed
  have len: "tk * e + (nat off + fin * e) \<le> length img"
  proof -
    have "int (length raw) = int (tk * e)" using assms(4) e by simp
    then have "length raw = tk * e" by linarith
    then have "min (length img - (nat off + fin * e)) (tk * e) = tk * e" unfolding raw by (simp add: min.commute)
    moreover have "0 < tk * e" using assms(3,5) by (simp add: e_def)
    ultimately show ?thesis by linarith
  qed
  have nth: "raw ! (i * e + j) = drop (nat off) img ! ((fin + i) * e + j)" if "j < e" for j
  proof -
    have "i * e + j < (i + 1) * e" using that by simp
    also have "\<dots> \<le> tk * e" using assms(5) by (intro mult_right_mono) auto
    finally have "i * e + j < tk * e" .
    then show ?thesis using len by (simp add: raw algebra_simps)
  qed
  show ?thesis
    using nth [of 0] nth [of 1] nth [of 2] nth [of 3] assms(3)
    by (cases dt) (simp_all add: widen_at_def le16_at_def le32_at_def e_def mult.commute)
qed

lemma widen_loop_all:
  assumes "pread_sound img fd" "pread_live img fd" "0 \<le> off" "dt \<in> {K3_DT_BF16, K3_DT_F16, K3_DT_U8}"
    and "0 \<le> n" "off + n * k3_st_elemsize dt \<le> int (length img)"
    and "int (length outp) \<le> n" "outp = map (widen_at dt (drop (nat off) img)) [0..<length outp]"
  shows "widen_loop fd dt off n outp = map (widen_at dt (drop (nat off) img)) [0..<nat n]"
  using assms
proof (induction fd dt off n outp rule: widen_loop.induct)
  case (1 fd dt off n outp)
  let ?W = "widen_at dt (drop (nat off) img)" and ?e = "k3_st_elemsize dt" and ?fin = "int (length outp)"
  have e: "0 < ?e" "?e \<le> 2" using 1(5) by auto
  show ?case
  proof (cases "?fin < n")
    case False
    then have "nat n = length outp" using 1(8) by simp
    then show ?thesis using False 1(9) by (subst widen_loop.simps) (simp add: Let_def)
  next
    case True
    define tk where "tk = (if n - ?fin < c_div K3_WIDEN_CHUNK ?e then n - ?fin else c_div K3_WIDEN_CHUNK ?e)"
    have ck: "0 < c_div K3_WIDEN_CHUNK ?e" using 1(5) by (auto simp: K3_WIDEN_CHUNK_def)
    then have tk: "0 < tk" "tk \<le> n - ?fin" using True by (auto simp: tk_def)
    let ?raw = "pread_loop fd (tk * ?e) (off + ?fin * ?e) []"
    have o: "0 \<le> off + ?fin * ?e" "0 \<le> tk * ?e" using 1(4) e tk by auto
    have "(?fin + tk) * ?e \<le> n * ?e" using tk e by (intro mult_right_mono) auto
    then have fit: "off + ?fin * ?e + tk * ?e \<le> int (length img)" using 1(7) by (simp add: algebra_simps)
    obtain m where m: "m \<le> nat (tk * ?e)" "?raw = take m (drop (nat (off + ?fin * ?e)) img)"
      using pread_loop_slice [OF 1(2) o] by auto
    have full: "tk * ?e \<le> int (length ?raw)"
      using pread_loop_complete [OF 1(3) o(1), of "tk * ?e" "[]"] fit by linarith
    have "length ?raw \<le> m" using m(2) by simp
    then have "m = nat (tk * ?e)" using m(1) full by linarith
    then have raw: "?raw = slice (off + ?fin * ?e) (tk * ?e) img" using m(2) by (simp only: slice_def)
    have "int (length ?raw) = tk * ?e" using full \<open>length ?raw \<le> m\<close> m(1) o(2) by linarith
    then have rl: "int (length ?raw) = int (nat tk) * ?e" using tk by simp
    have el: "map (widen_at dt ?raw) [0..<nat tk] = map ?W [length outp..<length outp + nat tk]"
    proof (rule nth_equalityI)
      fix i assume i: "i < length (map (widen_at dt ?raw) [0..<nat tk])"
      have "widen_at dt ?raw i = ?W (length outp + i)"
        using i tk by (intro widen_at_shift [OF 1(4) _ e(1) rl]) (simp_all only: raw length_map length_upt, simp_all)
      then show "map (widen_at dt ?raw) [0..<nat tk] ! i = map ?W [length outp..<length outp + nat tk] ! i" using i by simp
    qed simp
    let ?o = "outp @ map (widen_at dt ?raw) [0..<nat tk]"
    have o2: "?o = map ?W [0..<length ?o]"
      using 1(9) by (simp add: el upt_add_eq_append [of 0])
    have "widen_loop fd dt off n outp = widen_loop fd dt off n ?o"
      using True e(1) full by (subst widen_loop.simps) (simp add: Let_def tk_def)
    also have "\<dots> = map ?W [0..<nat n]"
      using 1(1) [OF refl refl refl _ tk_def refl _ 1(2-7) _ o2] True e(1) full tk by simp
    finally show ?thesis .
  qed
qed

lemma f32_at:
  assumes "0 \<le> off" "i < n"
  shows "le32_at (slice off (4 * int n) img) i = widen_at K3_DT_F32 (drop (nat off) img) i"
proof -
  have "nat (4 * int n) = 4 * n" by simp
  then have "slice off (4 * int n) img = take (4 * n) (drop (nat off) img)" by (simp add: slice_def)
  then show ?thesis using assms by (simp add: le32_at_def widen_at_def)
qed

lemma read_slice:
  assumes "pread_sound img fd" "pread_live img fd" "0 \<le> off" "0 \<le> n" "off + n \<le> int (length img)"
  shows "pread_loop fd n off [] = slice off n img"
proof -
  obtain m where m: "m \<le> nat n" "pread_loop fd n off [] = take m (drop (nat off) img)"
    using pread_loop_slice [OF assms(1,3,4)] by auto
  have "n \<le> int (length (pread_loop fd n off []))"
    using pread_loop_complete [OF assms(2,3), of n "[]"] assms(5) by linarith
  then have "nat n \<le> m" using m(2) by simp
  then show ?thesis using m by (simp add: slice_def)
qed

lemma f16_same: "k3_f16_to_f32 h = eng_f16_to_f32 h"
proof -
  have "(e :: 32 word) - 15 + 127 = e + (127 - 15)" for e by simp
  then show ?thesis by (simp only: k3_f16_to_f32_def eng_f16_to_f32_def Let_def mask_numeral)
qed

lemma read_f32_all:
  assumes "pread_sound img (sh_fd (shard_of s t))" "pread_live img (sh_fd (shard_of s t))" "0 \<le> kt_off t"
    and "kt_dtype t \<in> {K3_DT_BF16, K3_DT_F16, K3_DT_U8, K3_DT_F32}" "0 \<le> k3_st_numel (kt_shape t)"
    and "kt_nbytes t = k3_st_numel (kt_shape t) * k3_st_elemsize (kt_dtype t)" "kt_off t + kt_nbytes t \<le> int (length img)"
  shows "k3_st_read_f32 s t = (k3_st_numel (kt_shape t),
    map (widen_at (kt_dtype t) (drop (nat (kt_off t)) img)) [0..<nat (k3_st_numel (kt_shape t))])"
proof (cases "kt_dtype t = K3_DT_F32")
  case True
  obtain n where n: "k3_st_numel (kt_shape t) = int n" using assms(5) by (metis nonneg_int_cases)
  have nb: "kt_nbytes t = 4 * int n" using assms(6) True n by simp
  have rd: "k3_st_read s t = slice (kt_off t) (4 * int n) img"
    using read_slice [OF assms(1-3), of "kt_nbytes t"] assms(7) nb by (simp add: k3_st_read_def shard_of_def)
  have "nat (4 * int n) = 4 * n" by simp
  then have "length (slice (kt_off t) (4 * int n) img) = 4 * n" using assms(3,7) nb by (simp add: slice_def)
  then show ?thesis using True assms(3) n by (simp add: k3_st_read_f32_def rd Let_def f32_at)
next
  case False
  have "widen_loop (sh_fd (shard_of s t)) (kt_dtype t) (kt_off t) (k3_st_numel (kt_shape t)) [] =
      map (widen_at (kt_dtype t) (drop (nat (kt_off t)) img)) [0..<nat (k3_st_numel (kt_shape t))]"
    using assms(4-7) False by (intro widen_loop_all [OF assms(1-3)]) auto
  then show ?thesis using False assms(4,5) by (auto simp: k3_st_read_f32_def shard_of_def Let_def)
qed

section \<open>A small checkpoint\<close>

definition demo_weight :: k3_tensor where
  "demo_weight = \<lparr>kt_name = [97, 34, 98], kt_shard = 0, kt_dtype = K3_DT_BF16, kt_shape = [2], kt_off = 94, kt_nbytes = 4\<rparr>"

definition demo_members :: "member list" where
  "demo_members = [Meta [([107], [118])], Weight demo_weight]"

definition demo_image :: "byte list" where
  "demo_image = shard_image 94 demo_members 3 [128, 63, 0, 64]"

definition demo_shard :: k3_shard where
  "demo_shard = \<lparr>sh_path = [], sh_size = 98, sh_fd = short_pread demo_image 16, sh_dfd = None\<rparr>"

definition demo_dir :: "(byte list \<times> k3_shard option) list" where
  "demo_dir = [(ascii ''notes'', None), (ascii ''m.safetensors'', Some demo_shard)]"

lemma demo_header: "length (header_text 94 demo_members 3) = 86"
  by code_simp

lemma demo_size: "length demo_image = 98"
  by (simp add: demo_image_def shard_image_def demo_header)

lemma demo_fd: "pread_sound demo_image (sh_fd demo_shard)" "pread_live demo_image (sh_fd demo_shard)" "length (sh_fd demo_shard 0 8) = 8"
  by (simp_all add: demo_shard_def short_pread_sound short_pread_live) (simp add: short_pread_def demo_size)

lemma demo_fits: "tensor_fits 94 98 0 demo_weight"
  by (simp add: tensor_fits_def demo_weight_def ascii_def k3_st_numel_def i64_def)

section \<open>Properties\<close>

text \<open>Shard number \<open>i\<close> is a complete file that was written for the members \<open>ms\<close>.\<close>

definition shard_holds :: "int \<Rightarrow> k3_shard option \<Rightarrow> member list \<Rightarrow> bool" where
  "shard_holds i fo ms \<longleftrightarrow>
     (\<exists>f img base pad data. fo = Some f \<and> img = shard_image base ms pad data \<and>
        base = 8 + int (length (header_text base ms pad)) \<and> sh_size f = int (length img) \<and> int (length img) < 2 ^ 60 \<and>
        pread_sound img (sh_fd f) \<and> pread_live img (sh_fd f) \<and> length (sh_fd f 0 8) = 8 \<and>
        (\<forall>t \<in> set (weights ms). tensor_fits base (sh_size f) i t))"

lemma scan_shards_holds:
  assumes "length mss = length fs" "\<forall>n < length fs. shard_holds (i + int n) (snd (fs ! n)) (mss ! n)"
  shows "scan_shards i fs = Some (concat (map weights mss))"
  using assms
proof (induction mss fs arbitrary: i rule: list_induct2)
  case (Cons ms mss x fs)
  obtain name f where x: "x = (name, f)" by (cases x)
  have h: "shard_holds i f ms" using Cons.prems [rule_format, of 0] by (simp add: x)
  then have "scan_shard i f = Some (weights ms)"
    unfolding shard_holds_def by (auto intro!: scan_shard_image)
  moreover have "\<forall>n < length fs. shard_holds (i + 1 + int n) (snd (fs ! n)) (mss ! n)"
    using Cons.prems [rule_format, of "Suc _"] by (simp add: add.assoc)
  ultimately show ?case using Cons.IH [of "i + 1"] by (simp add: x)
qed simp

lemma demo_holds: "shard_holds 0 (Some demo_shard) demo_members"
  unfolding shard_holds_def
proof (intro exI conjI)
  show "demo_image = shard_image 94 demo_members 3 [128, 63, 0, 64]" by (rule demo_image_def)
  show "\<forall>t \<in> set (weights demo_members). tensor_fits 94 (sh_size demo_shard) 0 t"
    using demo_fits by (simp add: demo_members_def weights_def demo_shard_def)
qed (use demo_fd in \<open>simp_all add: demo_header demo_size demo_shard_def\<close>)

lemma demo_files: "sort_key fst (filter (\<lambda>(n, f). is_safetensors n) demo_dir) = [(ascii ''m.safetensors'', Some demo_shard)]"
  by (simp add: demo_dir_def is_safetensors_def ascii_def)

lemma demo_opens: "\<exists>s. k3_st_open demo_dir = Some s \<and> st_t s = [demo_weight] \<and> st_shard s = [demo_shard]"
proof -
  have sc: "scan_shards 0 [(ascii ''m.safetensors'', Some demo_shard)] = Some [demo_weight]"
    using scan_shards_holds [of "[demo_members]" "[(ascii ''m.safetensors'', Some demo_shard)]" 0] demo_holds by (simp add: weights_def demo_members_def)
  obtain bk where "st_index [demo_weight] (replicate (nat (grow_cap 1024 (int (length [demo_weight])))) (-1)) [0..<length [demo_weight]] = Some bk"
    using st_index_all(1) [of "[demo_weight]"] by auto
  then show ?thesis unfolding k3_st_open_def demo_files Let_def using sc by auto
qed



text \<open>
  C18: on every directory that \<open>k3_st_open\<close> accepts, hostile or not, the names are distinct and the hash
  index is exact: each tensor is found by its name and a name that no shard has is reported missing.
\<close>

theorem k3_st_find_exact:
  assumes "k3_st_open dir = Some s" "length (st_t s) \<le> 2 ^ 29"
  shows "distinct (map kt_name (st_t s)) \<and> (\<forall>t \<in> set (st_t s). k3_st_find s (kt_name t) = Some t) \<and>
    (\<forall>name. k3_st_find s name = None \<longleftrightarrow> name \<notin> kt_name ` set (st_t s))"
proof -
  obtain bk sh where i: "st_index (st_t s) (replicate (nat (grow_cap 1024 (int (length (st_t s))))) (-1)) [0..<length (st_t s)] = Some bk"
      "s = \<lparr>st_shard = sh, st_t = st_t s, st_bucket = bk\<rparr>"
    using open_parts [OF assms(1)] by metis
  have d: "distinct (map kt_name (st_t s))" using st_index_all(1) [OF assms(2)] i(1) by simp
  have f: "k3_st_find s name = List.find (\<lambda>t. kt_name t = name) (st_t s)" for name
    using st_index_all(2) [OF assms(2) i(1), of sh name] i(2) by metis
  have "List.find (\<lambda>u. kt_name u = kt_name t) (st_t s) = Some t" if "t \<in> set (st_t s)" for t
  proof (cases "List.find (\<lambda>u. kt_name u = kt_name t) (st_t s)")
    case None
    then show ?thesis using that by (auto simp: find_None_iff)
  next
    case (Some u)
    then have "u \<in> set (st_t s)" "kt_name u = kt_name t" by (auto simp: find_Some_iff)
    then show ?thesis using Some d that by (auto simp: distinct_map inj_on_def)
  qed
  then show ?thesis using d by (auto simp: f find_None_iff)
qed

theorem k3_st_find_exact_witness:
  "\<exists>s. k3_st_open demo_dir = Some s \<and> distinct (map kt_name (st_t s)) \<and> k3_st_find s [97, 34, 98] = Some demo_weight \<and> k3_st_find s [97] = None"
proof -
  obtain s where s: "k3_st_open demo_dir = Some s" "st_t s = [demo_weight]" using demo_opens by blast
  from k3_st_find_exact [OF s(1)] s show ?thesis by (auto simp: demo_weight_def)
qed

text \<open>
  C40: for a tensor of an open checkpoint whose data begins at a non-negative offset and whose
  number of elements and end fit an \<open>int64_t\<close> (the reader checks neither, see below): the tensor lies inside
  its shard, reading it delivers the stored bytes whatever the length of the single reads, and the
  widening read, which works in chunks of 4 MiB, delivers every element once, widened; a half-precision
  element is widened as \<open>eng_f16_to_f32\<close> does.
\<close>

theorem k3_read_f32_exact:
  assumes "k3_st_open dir = Some s" "t \<in> set (st_t s)" "sh_size (shard_of s t) = int (length img)"
    and "pread_sound img (sh_fd (shard_of s t))" "pread_live img (sh_fd (shard_of s t))"
    and "kt_dtype t \<in> {K3_DT_BF16, K3_DT_F16, K3_DT_U8, K3_DT_F32}"
    and "0 \<le> kt_off t" "0 \<le> k3_st_numel (kt_shape t)" "in_i64 (kt_off t + k3_st_numel (kt_shape t) * k3_st_elemsize (kt_dtype t))"
  shows "kt_off t + kt_nbytes t \<le> sh_size (shard_of s t) \<and> k3_st_read s t = slice (kt_off t) (kt_nbytes t) img \<and>
    k3_st_read_f32 s t = (k3_st_numel (kt_shape t),
      map (widen_at (kt_dtype t) (drop (nat (kt_off t)) img)) [0..<nat (k3_st_numel (kt_shape t))]) \<and>
    (\<forall>h. k3_f16_to_f32 h = eng_f16_to_f32 h)"
proof -
  let ?n = "k3_st_numel (kt_shape t) * k3_st_elemsize (kt_dtype t)"
  note c = open_checked(1) [OF assms(1,2)]
  have n0: "0 \<le> ?n" using assms(6,8) by auto
  have "in_i64 ?n" using assms(7,9) n0 by (auto simp: in_i64_def)
  then have nb: "kt_nbytes t = ?n" using c by (simp add: tensor_checked_def)
  have b: "kt_off t + kt_nbytes t \<le> sh_size (shard_of s t)"
    using assms(7,9) n0 by (intro checked_bound [OF c]) (auto simp: nb in_i64_def)
  have "k3_st_read s t = slice (kt_off t) (kt_nbytes t) img"
    using read_slice [OF assms(4,5,7), of "kt_nbytes t"] n0 b by (simp add: k3_st_read_def shard_of_def nb assms(3) [unfolded shard_of_def])
  with b read_f32_all [OF assms(4,5,7,6,8) nb] assms(3) show ?thesis by (simp add: f16_same)
qed

lemma demo_tail: "drop 94 demo_image = [128, 63, 0, 64]"
proof -
  have "length (enc_le 8 (of_nat (length (header_text 94 demo_members 3))) @ header_text 94 demo_members 3) = 94"
    by (simp add: demo_header)
  then show ?thesis unfolding demo_image_def shard_image_def by (simp add: demo_header)
qed

theorem k3_read_f32_exact_witness:
  "\<exists>s. k3_st_open demo_dir = Some s \<and> k3_st_read_f32 s demo_weight = (2, [0x3F800000, 0x40000000])"
proof -
  obtain s where s: "k3_st_open demo_dir = Some s" "st_t s = [demo_weight]" "st_shard s = [demo_shard]" using demo_opens by blast
  have sh: "shard_of s demo_weight = demo_shard" by (simp add: shard_of_def s demo_weight_def)
  have n: "k3_st_numel [2] = 2" by (simp add: k3_st_numel_def i64_def)
  have "k3_st_read_f32 s demo_weight = (k3_st_numel (kt_shape demo_weight),
      map (widen_at (kt_dtype demo_weight) (drop (nat (kt_off demo_weight)) demo_image)) [0..<nat (k3_st_numel (kt_shape demo_weight))])"
    using k3_read_f32_exact [OF s(1), of demo_weight demo_image] demo_fd(1,2) s(2) sh
    by (simp add: demo_weight_def n in_i64_def demo_size) (simp add: demo_shard_def)
  also have "\<dots> = (2, [0x3F800000, 0x40000000])"
    by (simp add: demo_weight_def n demo_tail widen_at_def le16_at_def k3_bf16_to_f32_def upt_rec)
  finally show ?thesis using s(1) by blast
qed

text \<open>
  A negative data offset is accepted.  The checks compare the length with the shape and the end
  with the size of the file but not the start with the header, so a header can name its own text, here
  its last four bytes, as a weight.
\<close>

theorem k3_header_text_accepted_as_weight:
  "scan_entry 94 98 0 (quoted [119] @ ascii '':{'' @ quoted (ascii ''dtype'') @ 58 # quoted (ascii ''U8'') @ 44 # quoted (ascii ''shape'') @
      ascii '':[4],'' @ quoted (ascii ''data_offsets'') @ ascii '':[-4,0]}'') =
   Some ([\<lparr>kt_name = [119], kt_shard = 0, kt_dtype = K3_DT_U8, kt_shape = [4], kt_off = 90, kt_nbytes = 4\<rparr>], [])"
  by code_simp

end
