(* ===== verification/K3_Load_Props.thy ===== *)
theory K3_Load_Props
  imports K3_Load K3_St_Props
begin

text \<open>
  Whichever way an expert is loaded, in one read of a contiguous run or in six reads, the offsets of its
  reference point at the bytes of the six tensors.
\<close>

text \<open>Every tensor of the checkpoint has a plausible range in a shard that exists.\<close>

definition st_sane :: "k3_st \<Rightarrow> bool" where
  "st_sane s \<longleftrightarrow> (\<forall>nm t. k3_st_find s nm = Some t \<longrightarrow>
     0 \<le> kt_off t \<and> 0 \<le> kt_nbytes t \<and> kt_off t + kt_nbytes t < 2 ^ 60 \<and> 0 \<le> kt_shard t \<and> kt_shard t < int (length (st_shard s)))"

text \<open>The descriptors of every shard deliver bytes of its image.\<close>

definition st_sound :: "k3_st \<Rightarrow> (int \<Rightarrow> byte list) \<Rightarrow> bool" where
  "st_sound s img \<longleftrightarrow> (\<forall>n<length (st_shard s). pread_sound (img (int n)) (sh_fd (st_shard s ! n)) \<and>
     (\<forall>dfd. sh_dfd (st_shard s ! n) = Some dfd \<longrightarrow> pread_sound (img (int n)) dfd))"

definition tensor_data :: "(int \<Rightarrow> byte list) \<Rightarrow> k3_tensor \<Rightarrow> byte list" where
  "tensor_data img t = slice (kt_off t) (kt_nbytes t) (img (kt_shard t))"

lemma find_sane:
  assumes "st_sane s" "k3_st_find s nm = Some t"
  shows "0 \<le> kt_off t" "0 \<le> kt_nbytes t" "kt_off t + kt_nbytes t < 2 ^ 60" "0 \<le> kt_shard t" "kt_shard t < int (length (st_shard s))"
  using assms unfolding st_sane_def by blast+

text \<open>What a resolved expert consists of.\<close>

definition expert_pairs :: "k3_st \<Rightarrow> nat \<Rightarrow> nat \<Rightarrow> (k3_tensor \<times> k3_tensor) list \<Rightarrow> bool" where
  "expert_pairs s l e ps \<longleftrightarrow> length ps = 3 \<and> (\<forall>i<3. k3_st_find s (expert_name l e i ''weight_packed'') = Some (fst (ps ! i)) \<and>
     k3_st_find s (expert_name l e i ''weight_scale'') = Some (snd (ps ! i)) \<and>
     kt_shard (fst (ps ! i)) = kt_shard (fst (ps ! 0)) \<and> kt_shard (snd (ps ! i)) = kt_shard (fst (ps ! 0)))"

lemma expert_pairs_find:
  assumes "expert_pairs s l e ps" "i < 3"
  shows "k3_st_find s (expert_name l e i ''weight_packed'') = Some (fst (ps ! i))"
    "k3_st_find s (expert_name l e i ''weight_scale'') = Some (snd (ps ! i))"
  using assms unfolding expert_pairs_def by blast+

lemma expert_pairs_length: "expert_pairs s l e ps \<Longrightarrow> length ps = 3"
  unfolding expert_pairs_def by (rule conjunct1)

lemma less3: "(\<forall>i<3. P i) \<longleftrightarrow> P 0 \<and> P 1 \<and> P (2 :: nat)"
  by (auto simp: numeral_3_eq_3 less_Suc_eq numeral_2_eq_2)

lemma ref_loop_pairs:
  assumes "ref_loop s l e [0, 1, 2] [] (zero_ref\<lparr>xr_layer := l, xr_expert := e\<rparr>) = (Some ps, r)"
  shows "expert_pairs s l e ps \<and> xr_layer r = l \<and> xr_expert r = e \<and> length (xr_m r) = 3 \<and>
    (\<forall>i<3. qm_p_bytes (xr_m r ! i) = kt_nbytes (fst (ps ! i)) \<and> qm_s_bytes (xr_m r ! i) = kt_nbytes (snd (ps ! i)))"
  using assms unfolding expert_pairs_def less3
  by (auto simp: zero_ref_def pair_ok_def numeral_3_eq_3 numeral_2_eq_2 split: option.splits if_splits)

lemma i64_small: "0 \<le> x \<Longrightarrow> x < 2 ^ 63 \<Longrightarrow> i64 x = x"
  by (rule i64_id) (rule in_i64_nonneg)

lemma expert_pairsD:
  assumes "expert_pairs s l e ps"
  obtains p0 s0 p1 s1 p2 s2 where "ps = [(p0, s0), (p1, s1), (p2, s2)]"
  using assms unfolding expert_pairs_def
  by (auto simp: numeral_3_eq_3 length_Suc_conv)

lemma fold_lowest: "foldl (\<lambda>lo t. if f t < lo then f t else lo) (a :: int) ts \<le> a \<and> (\<forall>t\<in>set ts. foldl (\<lambda>lo t. if f t < lo then f t else lo) a ts \<le> f t)"
  by (induction ts rule: rev_induct) auto

lemma fold_lowest_in: "foldl (\<lambda>lo t. if f t < lo then f t else lo) (a :: int) ts \<in> insert a (f ` set ts)"
  by (induction ts rule: rev_induct) auto

lemma fold_highest: "\<forall>t\<in>set ts. f t \<le> foldl (\<lambda>hi t. if f t > hi then f t else hi) (a :: int) ts"
  by (induction ts rule: rev_induct) auto

lemma fold_highest_in: "foldl (\<lambda>hi t. if f t > hi then f t else hi) (a :: int) ts \<in> insert a (f ` set ts)"
  by (induction ts rule: rev_induct) auto

text \<open>The two layouts of a resolved expert.\<close>

definition run_layout :: "k3_expert_ref \<Rightarrow> (k3_tensor \<times> k3_tensor) list \<Rightarrow> bool" where
  "run_layout r ps \<longleftrightarrow> 0 \<le> xr_off r \<and> 0 \<le> xr_nbytes r \<and> (\<forall>i<3.
     qm_p_off (xr_m r ! i) = kt_off (fst (ps ! i)) - xr_off r \<and> qm_s_off (xr_m r ! i) = kt_off (snd (ps ! i)) - xr_off r \<and>
     xr_off r \<le> kt_off (fst (ps ! i)) \<and> kt_off (fst (ps ! i)) + kt_nbytes (fst (ps ! i)) \<le> xr_off r + xr_nbytes r \<and>
     xr_off r \<le> kt_off (snd (ps ! i)) \<and> kt_off (snd (ps ! i)) + kt_nbytes (snd (ps ! i)) \<le> xr_off r + xr_nbytes r)"

lemma ref_resolved:
  assumes ref: "k3_expert_ref s l e = (True, r)" and sane: "st_sane s"
  obtains ps where "expert_pairs s l e ps" "xr_layer r = l" "xr_expert r = e" "xr_shard r = kt_shard (fst (ps ! 0))"
    "\<forall>i<3. qm_p_bytes (xr_m r ! i) = kt_nbytes (fst (ps ! i)) \<and> qm_s_bytes (xr_m r ! i) = kt_nbytes (snd (ps ! i))"
    "if xr_contiguous r then run_layout r ps
     else \<exists>m. length m = 3 \<and> (\<forall>i<3. qm_p_bytes (m ! i) = kt_nbytes (fst (ps ! i)) \<and> qm_s_bytes (m ! i) = kt_nbytes (snd (ps ! i))) \<and>
       pack_offsets 0 m = (xr_m r, xr_nbytes r)"
proof -
  obtain ps r0 where l: "ref_loop s l e [0, 1, 2] [] (zero_ref\<lparr>xr_layer := l, xr_expert := e\<rparr>) = (Some ps, r0)"
    using ref unfolding k3_expert_ref_def by (auto split: prod.splits option.splits)
  note q = ref_loop_pairs [OF l]
  obtain p0 s0 p1 s1 p2 s2 where ps: "ps = [(p0, s0), (p1, s1), (p2, s2)]" using expert_pairsD q by metis
  define ts where ts: "ts = flat_pairs ps"
  have tset: "set ts = {p0, s0, p1, s1, p2, s2}" by (auto simp: ts ps flat_pairs_def)
  have found: "\<exists>nm. k3_st_find s nm = Some t" if "t \<in> set ts" for t
    using that q unfolding tset expert_pairs_def less3 ps by auto
  have tsane: "0 \<le> kt_off t" "0 \<le> kt_nbytes t" "kt_off t + kt_nbytes t < 2 ^ 60" if "t \<in> set ts" for t
    using found [OF that] find_sane [OF sane] by blast+
  define lo where lo: "lo = foldl (\<lambda>lo t. if kt_off t < lo then kt_off t else lo) (kt_off (fst (hd ps))) ts"
  define hi where hi: "hi = foldl (\<lambda>hi t. if i64 (kt_off t + kt_nbytes t) > hi then i64 (kt_off t + kt_nbytes t) else hi) 0 ts"
  define own where own: "own = foldl (\<lambda>own t. i64 (own + kt_nbytes t)) 0 ts"
  have end_id: "i64 (kt_off t + kt_nbytes t) = kt_off t + kt_nbytes t" if "t \<in> set ts" for t
    using tsane [OF that] by (intro i64_small) auto
  have p0: "fst (hd ps) \<in> set ts" "p0 \<in> set ts" by (simp_all add: tset ps)
  have lo0: "0 \<le> lo"
    using fold_lowest_in [of kt_off "kt_off (fst (hd ps))" ts] tsane(1) p0(1) unfolding lo by (metis (no_types, lifting) imageE insertE)
  have lo1: "lo \<le> kt_off t" if "t \<in> set ts" for t
    using fold_lowest [of kt_off "kt_off (fst (hd ps))" ts] that unfolding lo by blast
  have hi1: "kt_off t + kt_nbytes t \<le> hi" if "t \<in> set ts" for t
    using fold_highest [of ts "\<lambda>t. i64 (kt_off t + kt_nbytes t)" 0] end_id that unfolding hi by fastforce
  have hi0: "hi < 2 ^ 60" using fold_highest_in [of "\<lambda>t. i64 (kt_off t + kt_nbytes t)" 0 ts] end_id tsane(3) unfolding hi by auto
  have "lo \<le> hi" using hi1 [OF p0(2)] lo1 [OF p0(2)] tsane(2) [OF p0(2)] by linarith
  then have d: "i64 (hi - lo) = hi - lo" using lo0 hi0 by (intro i64_small) auto
  have r: "r = (if hi - lo = own
      then r0\<lparr>xr_shard := kt_shard p0, xr_contiguous := True, xr_off := lo, xr_nbytes := own,
             xr_m := map (\<lambda>i. (xr_m r0 ! i)\<lparr>qm_p_off := kt_off (fst (ps ! i)) - lo, qm_s_off := kt_off (snd (ps ! i)) - lo\<rparr>) [0..<3]\<rparr>
      else r0\<lparr>xr_shard := kt_shard p0, xr_contiguous := False, xr_off := lo, xr_nbytes := snd (pack_offsets 0 (xr_m r0)), xr_m := fst (pack_offsets 0 (xr_m r0))\<rparr>)"
    using ref unfolding k3_expert_ref_def l Let_def prod.case option.case ts [symmetric] lo [symmetric] hi [symmetric] own [symmetric] d
    by (cases "hi - lo = own") (simp_all add: ps case_prod_beta)
  have bytes: "length (fst (pack_offsets o' m)) = length m \<and> (\<forall>i<length m. qm_p_bytes (fst (pack_offsets o' m) ! i) = qm_p_bytes (m ! i) \<and> qm_s_bytes (fst (pack_offsets o' m) ! i) = qm_s_bytes (m ! i))" for o' m
    by (induction m arbitrary: o') (auto simp: Let_def case_prod_beta less_Suc_eq_0_disj)
  show thesis
  proof (cases "hi - lo = own")
    case True
    have "run_layout r ps" using lo0 lo1 hi1 \<open>lo \<le> hi\<close> tset True unfolding r if_P [OF True] run_layout_def less3 ps by (simp add: algebra_simps)
    moreover have "xr_contiguous r" "xr_shard r = kt_shard (fst (ps ! 0))" "xr_layer r = l" "xr_expert r = e"
      "\<forall>i<3. qm_p_bytes (xr_m r ! i) = qm_p_bytes (xr_m r0 ! i) \<and> qm_s_bytes (xr_m r ! i) = qm_s_bytes (xr_m r0 ! i)"
      using q True by (simp_all add: r) (simp add: ps)
    ultimately show thesis using q by (intro that [of ps]) simp_all
  next
    case False
    then have "\<not> xr_contiguous r" "xr_shard r = kt_shard (fst (ps ! 0))" "xr_layer r = l" "xr_expert r = e"
      "pack_offsets 0 (xr_m r0) = (xr_m r, xr_nbytes r)"
      "\<forall>i<3. qm_p_bytes (xr_m r ! i) = qm_p_bytes (xr_m r0 ! i) \<and> qm_s_bytes (xr_m r ! i) = qm_s_bytes (xr_m r0 ! i)"
      using q bytes [of 0 "xr_m r0"] by (simp_all add: r) (simp add: ps)
    then show thesis using q by (intro that [of ps]) auto
  qed
qed

section \<open>Loading\<close>

lemma slice_slice:
  assumes "0 \<le> lo" "0 \<le> a" "0 \<le> n" "a + n \<le> N"
  shows "slice a n (slice lo N xs) = slice (lo + a) n xs"
  using assms by (simp add: slice_def drop_take nat_add_distrib add.commute min_absorb1 nat_le_eq_zle flip: nat_diff_distrib)

lemma write_at_in: "i < length d \<Longrightarrow> write_at o' d mem (o' + int i) = d ! i"
  by (simp add: write_at_def)

lemma write_at_before: "j < o' \<Longrightarrow> write_at o' d mem j = mem j"
  by (simp add: write_at_def)

lemma slice_mem:
  assumes "\<And>i. i < length d \<Longrightarrow> mem (o' + int i) = d ! i" "0 \<le> o'" "n = int (length d)" "o' + n \<le> cap"
  shows "slice o' n (map (\<lambda>i. mem (int i)) [0..<nat cap]) = d"
proof (rule nth_equalityI)
  show "length (slice o' n (map (\<lambda>i. mem (int i)) [0..<nat cap])) = length d" using assms(2-4) by (simp add: slice_def)
  fix i assume "i < length (slice o' n (map (\<lambda>i. mem (int i)) [0..<nat cap]))"
  then have i: "i < length d" using assms(2-4) by (simp add: slice_def)
  then have "nat o' + i < nat cap" using assms(2-4) by linarith
  with i show "slice o' n (map (\<lambda>i. mem (int i)) [0..<nat cap]) ! i = d ! i"
    using assms by (simp add: slice_def nat_add_distrib)
qed

lemma read_prefix:
  assumes "st_sane s" "st_sound s img" "k3_st_find s nm = Some t"
  shows "int (length (k3_st_read s t)) \<le> kt_nbytes t"
    and "int (length (k3_st_read s t)) = kt_nbytes t \<Longrightarrow> k3_st_read s t = tensor_data img t"
proof -
  note t = find_sane [OF assms(1,3)]
  have "pread_sound (img (kt_shard t)) (sh_fd (st_shard s ! nat (kt_shard t)))"
    using assms(2) t(4,5) unfolding st_sound_def by (metis nat_less_iff int_nat_eq)
  from pread_loop_slice [OF this t(1,2)] obtain m where m: "m \<le> nat (kt_nbytes t)"
    "k3_st_read s t = take m (drop (nat (kt_off t)) (img (kt_shard t)))" by (auto simp: k3_st_read_def)
  show "int (length (k3_st_read s t)) \<le> kt_nbytes t" using m t(2) by simp
  assume "int (length (k3_st_read s t)) = kt_nbytes t"
  then have "m = nat (kt_nbytes t)" using m by simp
  then show "k3_st_read s t = tensor_data img t" using m by (simp add: tensor_data_def slice_def)
qed

lemma read_run:
  assumes "st_sound s img" "0 \<le> sh" "sh < int (length (st_shard s))" "0 \<le> off" "0 < n"
    and "rr_ret (k3_st_read_aligned s sh off n cap) = n"
  shows "\<exists>p. rr_poff (k3_st_read_aligned s sh off n cap) = Some p \<and> 0 \<le> p \<and> p < ENG_IO_ALIGN \<and>
    slice p n (rr_buf (k3_st_read_aligned s sh off n cap)) = slice off n (img sh)"
proof -
  let ?f = "st_shard s ! nat sh"
  define dfd where dfd: "dfd = (case sh_dfd ?f of None \<Rightarrow> sh_fd ?f | Some d \<Rightarrow> d)"
  define st :: eng_storage where st: "st = \<lparr>fc_dfd = (sh_dfd ?f \<noteq> None), fc_size = 0, st_reads = 0, st_bytes_read = 0, st_direct_reads = 0\<rparr>"
  have same: "k3_st_read_aligned s sh off n cap = fst (file_read_aligned (sh_fd ?f) dfd st off n cap)"
    using assms(2-5) by (auto simp: k3_st_read_aligned_def file_read_aligned_def file_read_def pread_all_def st dfd K3_ST_ALIGN_def ENG_IO_ALIGN_def
        align_down_def align_up_def Let_def split: option.splits)
  have "pread_sound (img sh) (sh_fd ?f) \<and> pread_sound (img sh) dfd"
    using assms(1-3) unfolding st_sound_def dfd by (auto simp: nat_less_iff dest!: spec [of _ "nat sh"] split: option.splits)
  with file_read_aligned_sound [of "img sh" "sh_fd ?f" dfd off n st cap] assms(4-6) show ?thesis
    unfolding same by auto
qed

text \<open>Six complete reads leave the six tensors at their packed offsets.\<close>

lemma pieces_exact:
  assumes s: "st_sane s" "st_sound s img" and ps: "expert_pairs s (xr_layer r) (xr_expert r) ps"
    and m: "length m = 3" "\<forall>i<3. qm_p_bytes (m ! i) = kt_nbytes (fst (ps ! i)) \<and> qm_s_bytes (m ! i) = kt_nbytes (snd (ps ! i))"
      "pack_offsets 0 m = (xr_m r, xr_nbytes r)"
    and ld: "load_pieces s r [0, 1, 2] 0 mem = (xr_nbytes r, mem')" and cap: "xr_nbytes r \<le> cap" and i: "i < 3"
  shows "slice (qm_p_off (xr_m r ! i)) (qm_p_bytes (xr_m r ! i)) (map (\<lambda>i. mem' (int i)) [0..<nat cap]) = tensor_data img (fst (ps ! i)) \<and>
    slice (qm_s_off (xr_m r ! i)) (qm_s_bytes (xr_m r ! i)) (map (\<lambda>i. mem' (int i)) [0..<nat cap]) = tensor_data img (snd (ps ! i)) \<and>
    0 \<le> qm_p_off (xr_m r ! i) \<and> 0 \<le> qm_s_off (xr_m r ! i) \<and>
    qm_p_off (xr_m r ! i) + qm_p_bytes (xr_m r ! i) \<le> xr_nbytes r \<and> qm_s_off (xr_m r ! i) + qm_s_bytes (xr_m r ! i) \<le> xr_nbytes r"
proof -
  obtain p0 s0 p1 s1 p2 s2 where pe: "ps = [(p0, s0), (p1, s1), (p2, s2)]" using expert_pairsD [OF ps] by metis
  obtain m0 m1 m2 where me: "m = [m0, m1, m2]" using m(1) by (auto simp: numeral_3_eq_3 length_Suc_conv)
  note f = ps [unfolded expert_pairs_def less3 pe, simplified]
  define d where d: "d t = k3_st_read s t" for t
  have le: "int (length (d t)) \<le> kt_nbytes t" "int (length (d t)) = kt_nbytes t \<Longrightarrow> d t = tensor_data img t"
    if "t \<in> {p0, s0, p1, s1, p2, s2}" for t
  proof -
    have "\<exists>nm. k3_st_find s nm = Some t" using that f by (elim insertE emptyE) blast+
    then show "int (length (d t)) \<le> kt_nbytes t" "int (length (d t)) = kt_nbytes t \<Longrightarrow> d t = tensor_data img t"
      unfolding d using read_prefix [OF s] by blast+
  qed
  have b: "qm_p_bytes m0 = kt_nbytes p0" "qm_s_bytes m0 = kt_nbytes s0" "qm_p_bytes m1 = kt_nbytes p1"
    "qm_s_bytes m1 = kt_nbytes s1" "qm_p_bytes m2 = kt_nbytes p2" "qm_s_bytes m2 = kt_nbytes s2"
    using m(2) unfolding less3 pe me by auto
  define o1 o2 o3 o4 o5 where o: "o1 = kt_nbytes p0" "o2 = o1 + kt_nbytes s0" "o3 = o2 + kt_nbytes p1" "o4 = o3 + kt_nbytes s1" "o5 = o4 + kt_nbytes p2"
  have x: "xr_m r = [m0\<lparr>qm_p_off := 0, qm_s_off := o1\<rparr>, m1\<lparr>qm_p_off := o2, qm_s_off := o3\<rparr>, m2\<lparr>qm_p_off := o4, qm_s_off := o5\<rparr>]"
    "xr_nbytes r = o5 + kt_nbytes s2"
    using m(3) b by (auto simp: me o Let_def)
  have mm: "mem' = write_at o5 (d s2) (write_at o4 (d p2) (write_at o3 (d s1) (write_at o2 (d p1) (write_at o1 (d s0) (write_at 0 (d p0) mem)))))"
    and tot: "int (length (d p0)) + int (length (d s0)) + int (length (d p1)) + int (length (d s1)) + int (length (d p2)) + int (length (d s2)) = xr_nbytes r"
    using ld f unfolding d by (auto simp: x(1) Let_def)
  have l: "int (length (d p0)) \<le> kt_nbytes p0" "int (length (d s0)) \<le> kt_nbytes s0" "int (length (d p1)) \<le> kt_nbytes p1"
    "int (length (d s1)) \<le> kt_nbytes s1" "int (length (d p2)) \<le> kt_nbytes p2" "int (length (d s2)) \<le> kt_nbytes s2"
    by (simp_all add: le(1))
  have len: "int (length (d p0)) = kt_nbytes p0" "int (length (d s0)) = kt_nbytes s0" "int (length (d p1)) = kt_nbytes p1"
    "int (length (d s1)) = kt_nbytes s1" "int (length (d p2)) = kt_nbytes p2" "int (length (d s2)) = kt_nbytes s2"
    using tot l unfolding x(2) o by linarith+
  have t: "tensor_data img p0 = d p0" "tensor_data img s0 = d s0" "tensor_data img p1 = d p1" "tensor_data img s1 = d s1"
    "tensor_data img p2 = d p2" "tensor_data img s2 = d s2"
    using le(2) len by simp_all
  let ?b = "map (\<lambda>i. mem' (int i)) [0..<nat cap]"
  have "slice 0 (kt_nbytes p0) ?b = d p0" "slice o1 (kt_nbytes s0) ?b = d s0" "slice o2 (kt_nbytes p1) ?b = d p1"
    "slice o3 (kt_nbytes s1) ?b = d s1" "slice o4 (kt_nbytes p2) ?b = d p2" "slice o5 (kt_nbytes s2) ?b = d s2"
    by (rule slice_mem; use len cap in \<open>simp add: mm write_at_def x(2) o\<close>)+
  then show ?thesis
    using i len unfolding less_Suc_eq numeral_3_eq_3 by (auto simp: x b pe t o numeral_2_eq_2)
qed

lemma expert_load_tensors:
  assumes s: "st_sane s" "st_sound s img" and ref: "k3_expert_ref s l e = (True, r)"
    and ld: "k3_expert_load_direct s r mem cap = (xr_nbytes r, poff, buf)" and cap: "0 < xr_nbytes r" "xr_nbytes r \<le> cap"
  shows "\<exists>p ps. poff = Some p \<and> 0 \<le> p \<and> p < ENG_IO_ALIGN \<and> expert_pairs s l e ps \<and> (\<forall>i<3.
    slice (qm_p_off (xr_m r ! i)) (qm_p_bytes (xr_m r ! i)) (slice p (xr_nbytes r) buf) = tensor_data img (fst (ps ! i)) \<and>
    slice (qm_s_off (xr_m r ! i)) (qm_s_bytes (xr_m r ! i)) (slice p (xr_nbytes r) buf) = tensor_data img (snd (ps ! i)))"
proof -
  obtain ps where ps: "expert_pairs s l e ps" "xr_layer r = l" "xr_expert r = e" "xr_shard r = kt_shard (fst (ps ! 0))"
    and bytes: "\<forall>i<3. qm_p_bytes (xr_m r ! i) = kt_nbytes (fst (ps ! i)) \<and> qm_s_bytes (xr_m r ! i) = kt_nbytes (snd (ps ! i))"
    and lay: "if xr_contiguous r then run_layout r ps
     else \<exists>m. length m = 3 \<and> (\<forall>i<3. qm_p_bytes (m ! i) = kt_nbytes (fst (ps ! i)) \<and> qm_s_bytes (m ! i) = kt_nbytes (snd (ps ! i))) \<and>
       pack_offsets 0 m = (xr_m r, xr_nbytes r)"
    using ref_resolved [OF ref s(1)] by metis
  have nn: "0 \<le> kt_nbytes (fst (ps ! i))" "0 \<le> kt_nbytes (snd (ps ! i))" if "i < 3" for i
    using find_sane(2) [OF s(1)] ps(1) that unfolding expert_pairs_def by blast+
  show ?thesis
  proof (cases "xr_contiguous r")
    case True
    have run: "run_layout r ps" using lay True by simp
    have sh: "0 \<le> xr_shard r" "xr_shard r < int (length (st_shard s))"
      using find_sane(4,5) [OF s(1), of _ "fst (ps ! 0)"] ps(1) unfolding ps(4) expert_pairs_def less3 by blast+
    have rd: "rr_ret (k3_st_read_aligned s (xr_shard r) (xr_off r) (xr_nbytes r) cap) = xr_nbytes r"
      "rr_poff (k3_st_read_aligned s (xr_shard r) (xr_off r) (xr_nbytes r) cap) = poff"
      "rr_buf (k3_st_read_aligned s (xr_shard r) (xr_off r) (xr_nbytes r) cap) = buf"
      using ld True by (auto simp: k3_expert_load_direct_def Let_def)
    have off: "0 \<le> xr_off r" using run by (simp add: run_layout_def)
    from read_run [OF s(2) sh off cap(1) rd(1)] obtain p where p: "poff = Some p" "0 \<le> p" "p < ENG_IO_ALIGN"
      "slice p (xr_nbytes r) buf = slice (xr_off r) (xr_nbytes r) (img (xr_shard r))" unfolding rd by blast
    have "slice (qm_p_off (xr_m r ! i)) (qm_p_bytes (xr_m r ! i)) (slice p (xr_nbytes r) buf) = tensor_data img (fst (ps ! i)) \<and>
      slice (qm_s_off (xr_m r ! i)) (qm_s_bytes (xr_m r ! i)) (slice p (xr_nbytes r) buf) = tensor_data img (snd (ps ! i))" if i: "i < 3" for i
    proof -
      have "kt_shard (fst (ps ! i)) = xr_shard r" "kt_shard (snd (ps ! i)) = xr_shard r"
        using ps(1) i unfolding ps(4) expert_pairs_def by blast+
      moreover have "qm_p_off (xr_m r ! i) = kt_off (fst (ps ! i)) - xr_off r" "qm_s_off (xr_m r ! i) = kt_off (snd (ps ! i)) - xr_off r"
          "xr_off r \<le> kt_off (fst (ps ! i))" "kt_off (fst (ps ! i)) + kt_nbytes (fst (ps ! i)) \<le> xr_off r + xr_nbytes r"
          "xr_off r \<le> kt_off (snd (ps ! i))" "kt_off (snd (ps ! i)) + kt_nbytes (snd (ps ! i)) \<le> xr_off r + xr_nbytes r"
        using run i unfolding run_layout_def by blast+
      ultimately show ?thesis using bytes i nn [OF i] off by (simp add: p(4) tensor_data_def slice_slice)
    qed
    with p ps(1) show ?thesis by blast
  next
    case False
    obtain mem' where lp: "load_pieces s r [0, 1, 2] 0 mem = (xr_nbytes r, mem')" "poff = Some 0" "buf = map (\<lambda>i. mem' (int i)) [0..<nat cap]"
      using ld False by (auto simp: k3_expert_load_direct_def k3_expert_load_def Let_def simp del: load_pieces.simps split: prod.splits)
    obtain m where m: "length m = 3" "\<forall>i<3. qm_p_bytes (m ! i) = kt_nbytes (fst (ps ! i)) \<and> qm_s_bytes (m ! i) = kt_nbytes (snd (ps ! i))"
      "pack_offsets 0 m = (xr_m r, xr_nbytes r)" using lay False by auto
    have "slice (qm_p_off (xr_m r ! i)) (qm_p_bytes (xr_m r ! i)) (slice 0 (xr_nbytes r) buf) = tensor_data img (fst (ps ! i)) \<and>
      slice (qm_s_off (xr_m r ! i)) (qm_s_bytes (xr_m r ! i)) (slice 0 (xr_nbytes r) buf) = tensor_data img (snd (ps ! i))" if i: "i < 3" for i
      using pieces_exact [OF s _ m lp(1) cap(2) i] ps(1-3) bytes nn [OF i] i by (simp add: slice_slice lp(3))
    then show ?thesis using lp(2) ps(1) by (intro exI [of _ 0] exI [of _ ps]) (auto simp: ENG_IO_ALIGN_def)
  qed
qed

end
