(* ===== verification/K3_Cache_Props.thy ===== *)
theory K3_Cache_Props
  imports K3_Cache K3_Moe_Props K3_Load_Props Cache_Props
begin

text \<open>
  The expert cache is a source of experts in the sense of the mixture: what it hands out for a usable expert is
  that expert of the checkpoint, read as one run or in six pieces, however the slots were reused in between.
\<close>

section \<open>The cache as a source\<close>

text \<open>An expert that resolves and fits a slot.\<close>

definition k3_usable :: "k3_st \<Rightarrow> nat \<Rightarrow> nat \<Rightarrow> int \<Rightarrow> nat \<Rightarrow> nat \<Rightarrow> bool" where
  "k3_usable st nl ne sb l e \<longleftrightarrow> l < nl \<and> e < ne \<and> fst (k3_expert_ref st l e) \<and> xr_nbytes (snd (k3_expert_ref st l e)) \<le> sb"

definition k3_cache_ok :: "k3_expert_ref cache_src \<Rightarrow> nat \<Rightarrow> nat \<Rightarrow> int \<Rightarrow> k3_cache \<Rightarrow> bool" where
  "k3_cache_ok src nl ne sb c \<longleftrightarrow> cache_inv (kx_gc c) \<and> quiescent (kx_gc c) \<and> data_ok True src (kx_gc c) \<and> kx_n_layers c = nl \<and> kx_n_experts c = ne \<and>
     slot_bytes (cfg (kx_gc c)) = sb \<and> nkeys (cfg (kx_gc c)) = int nl * int ne \<and> stride (kx_gc c) = eng_cache_stride_for sb"

text \<open>The expert a key stands for.\<close>

definition k3_bank :: "k3_expert_ref cache_src \<Rightarrow> nat \<Rightarrow> int \<Rightarrow> nat \<Rightarrow> nat \<Rightarrow> k3_expertq" where
  "k3_bank src ne sb l e = (case object_of src (eng_cache_stride_for sb) (l * ne + e) of
     Some (d, n, r) \<Rightarrow> fill_q d r | None \<Rightarrow> fill_q [] zero_ref)"

lemma sync_simps [simp]:
  "kx_gc (sync_stats c) = kx_gc c" "kx_n_layers (sync_stats c) = kx_n_layers c" "kx_n_experts (sync_stats c) = kx_n_experts c"
  by (simp_all add: sync_stats_def Let_def)

text \<open>The description of an expert overwrites the metadata, so it does not depend on what was there.\<close>

lemma k3_source_fills: "fills_meta (k3_cache_src st ne stale os)"
  by (simp add: fills_meta_def k3_cache_src_def k3_describe_def case_prod_beta Let_def)

lemma usable_faithful:
  assumes "k3_usable st nl ne sb l e"
  shows "faithful_at True (k3_cache_src st ne stale os) sb (l * ne + e)"
proof -
  have "(l * ne + e) div ne = l" "(l * ne + e) mod ne = e" using assms by (auto simp: k3_usable_def)
  then show ?thesis using assms by (auto simp: faithful_at_def k3_cache_src_def k3_describe_def k3_usable_def case_prod_beta Let_def)
qed

interpretation k3src: expert_source "k3_source (k3_cache_src st ne stale os) noprefetch"
  "k3_cache_ok (k3_cache_src st ne stale os) nl ne sb" "k3_usable st nl ne sb" "k3_bank (k3_cache_src st ne stale os) ne sb"
  for st ne stale os noprefetch nl sb
proof
  let ?src = "k3_cache_src st ne stale os"
  fix c l e r c'
  assume c: "k3_cache_ok ?src nl ne sb c" and u: "k3_usable st nl ne sb l e" and g: "es_get (k3_source ?src noprefetch) l e c = (r, c')"
  obtain ent gc where eg: "eng_cache_get ?src (kx_gc c) (l * ne + e) = (ent, gc)" by fastforce
  have cc: "c' = sync_stats (c\<lparr>kx_gc := gc\<rparr>)" "r = map_option (\<lambda>e. fill_q (e_data e) (e_meta e)) ent"
    using g c u eg by (auto simp: k3_source_def cache_get_def k3key_def k3_cache_ok_def k3_usable_def Let_def split: if_splits)
  have "cache_inv gc" "quiescent gc" "cfg gc = cfg (kx_gc c)" "stride gc = stride (kx_gc c)" "data_ok True ?src gc"
    using c get_inv [of "kx_gc c" ?src "l * ne + e"] get_quiescent_stats [of "kx_gc c" ?src "l * ne + e"] get_stride [of "kx_gc c" ?src "l * ne + e"]
      get_data [of "kx_gc c" True ?src "l * ne + e"] by (auto simp: k3_cache_ok_def eg)
  then have ok: "k3_cache_ok ?src nl ne sb c'" using c by (simp add: k3_cache_ok_def cc(1))
  have "r = Some (k3_bank ?src ne sb l e)" if "ent = Some x" for x
    using get_entry [of "kx_gc c" True ?src "l * ne + e" x gc] c eg that
    by (auto simp: k3_cache_ok_def cc(2) k3_bank_def split: option.splits)
  with ok cc(2) show "k3_cache_ok ?src nl ne sb c' \<and> (r = None \<or> r = Some (k3_bank ?src ne sb l e))" by (cases ent) auto
next
  let ?src = "k3_cache_src st ne stale os"
  fix c ks l g
  assume c: "k3_cache_ok ?src nl ne sb c" and u: "\<And>e. e \<in> set ks \<Longrightarrow> k3_usable st nl ne sb l e" and g: "es_getmany (k3_source ?src noprefetch) = Some g"
  define keys where keys: "keys = map (k3key c l) (filter (\<lambda>e. e < kx_n_experts c) (take K3_MAX_TOPK ks))"
  let ?gc = "snd (eng_cache_get_many ?src (kx_gc c) keys)"
  have "faithful_at True ?src sb k" if k: "k \<in> set keys" for k
  proof -
    obtain e where "e \<in> set (take K3_MAX_TOPK ks)" "k = k3key c l e" using k unfolding keys by auto
    then have "e \<in> set ks" "k = l * ne + e" using c by (auto simp: k3key_def k3_cache_ok_def dest: in_set_takeD)
    then show ?thesis using usable_faithful [OF u] by blast
  qed
  then have "cache_inv ?gc \<and> quiescent ?gc \<and> data_ok True ?src ?gc \<and> cfg ?gc = cfg (kx_gc c) \<and> stride ?gc = stride (kx_gc c)"
    using c get_many_inv [of "kx_gc c" ?src keys] get_many_data [of "kx_gc c" True ?src keys] get_many_stats [of ?src "kx_gc c" keys]
    by (auto simp: k3_cache_ok_def)
  moreover have "g l ks c = (if ks = [] then c else sync_stats (c\<lparr>kx_gc := ?gc\<rparr>))"
    using g by (auto simp: k3_source_def cache_getmany_def keys Let_def split: if_splits prod.splits)
  ultimately show "k3_cache_ok ?src nl ne sb (g l ks c)" using c by (simp add: k3_cache_ok_def)
qed

lemma init_ok:
  assumes "k3_cache_init st kc budget stale os = Some c"
  obtains L where "L < kc_n_layers kc" "fst (k3_expert_ref st L 0)" "\<not> k3_is_dense kc L"
    "k3_cache_ok (k3_cache_src st (kc_n_experts kc) stale os) (kc_n_layers kc) (kc_n_experts kc) (xr_nbytes (snd (k3_expert_ref st L 0))) c"
    "kc_topk kc < nslot (kx_gc c)"
proof -
  have probe: "\<exists>L\<in>set Ls. fst (k3_expert_ref st L 0) \<and> \<not> k3_is_dense kc L \<and> r = snd (k3_expert_ref st L 0)" if "probe_expert st kc Ls = Some r" for Ls r
    using that by (induction Ls) (auto simp: Let_def case_prod_beta split: if_splits)
  obtain r where r: "probe_expert st kc [0..<kc_n_layers kc] = Some r" using assms by (auto simp: k3_cache_init_def split: option.splits)
  obtain gc where gc: "eng_cache_create \<lparr>budget_bytes = budget, slot_bytes = xr_nbytes r, nkeys = int (kc_n_layers kc) * int (kc_n_experts kc),
      min_slots = int (kc_topk kc) + 1, want_hist = True, want_trace = True, hugepages = - 1\<rparr> (k3_cache_src st (kc_n_experts kc) stale os) = Some gc"
    "kx_gc c = gc" "kx_n_layers c = kc_n_layers kc" "kx_n_experts c = kc_n_experts kc"
    using assms by (auto simp: k3_cache_init_def r Let_def)
  from probe [OF r] obtain L where L: "L < kc_n_layers kc" "fst (k3_expert_ref st L 0)" "\<not> k3_is_dense kc L" "r = snd (k3_expert_ref st L 0)" by auto
  show thesis
    by (rule that [OF L(1-3)]) (use create_inv [OF gc(1)] gc(2-4) L(4) in \<open>auto simp: k3_cache_ok_def\<close>)
qed

text \<open>What a served expert consists of: the bytes of its six tensors in the shard files.\<close>

lemma bank_tensors:
  assumes s: "st_sane st" "st_sound st img" and u: "k3_usable st nl ne sb l e" and pos: "0 < xr_nbytes (snd (k3_expert_ref st l e))"
    and obj: "object_of (k3_cache_src st ne stale os) (eng_cache_stride_for sb) (l * ne + e) = Some (d, n, r)"
  shows "r = snd (k3_expert_ref st l e) \<and> (\<exists>ps. expert_pairs st l e ps \<and> (\<forall>i<3.
    slice (qm_p_off (xr_m r ! i)) (qm_p_bytes (xr_m r ! i)) d = tensor_data img (fst (ps ! i)) \<and>
    slice (qm_s_off (xr_m r ! i)) (qm_s_bytes (xr_m r ! i)) d = tensor_data img (snd (ps ! i))))"
proof -
  have k: "(l * ne + e) div ne = l" "(l * ne + e) mod ne = e" using u by (auto simp: k3_usable_def)
  obtain r0 where ref: "k3_expert_ref st l e = (True, r0)" using u by (cases "k3_expert_ref st l e") (auto simp: k3_usable_def)
  obtain got poff buf where ld: "k3_expert_load_direct st r0 (stale (l * ne + e)) (eng_cache_stride_for sb) = (got, poff, buf)"
    by (metis prod_cases3)
  have x: "got = xr_nbytes r0" "r = r0" "n = got" "d = slice (i32 (case poff of Some p \<Rightarrow> p | None \<Rightarrow> 0)) got buf"
    using obj unfolding object_of_def k3_cache_src_def k3_describe_def k3_load_def cache_src.simps k ref ld Let_def prod.case if_True
    by (auto split: if_splits)
  have cap: "xr_nbytes r0 \<le> eng_cache_stride_for sb"
    using u pos align_up_ge [of "sb + 2 * ENG_IO_ALIGN"] by (auto simp: k3_usable_def stride_for_align ENG_IO_ALIGN_def ref)
  have "0 < xr_nbytes r0" using pos by (simp add: ref)
  from expert_load_tensors [OF s ref ld [unfolded x(1)] this cap] obtain p ps where p: "poff = Some p" "0 \<le> p" "p < ENG_IO_ALIGN" "expert_pairs st l e ps"
    "\<forall>i<3. slice (qm_p_off (xr_m r0 ! i)) (qm_p_bytes (xr_m r0 ! i)) (slice p (xr_nbytes r0) buf) = tensor_data img (fst (ps ! i)) \<and>
     slice (qm_s_off (xr_m r0 ! i)) (qm_s_bytes (xr_m r0 ! i)) (slice p (xr_nbytes r0) buf) = tensor_data img (snd (ps ! i))" by blast
  have "i32 p = p" using p(2,3) by (simp add: ENG_IO_ALIGN_def in_i32_def)
  then show ?thesis using p x by (auto simp: ref)
qed

lemma expert_pairs_unique:
  assumes "expert_pairs s l e ps" "expert_pairs s l e ps'"
  shows "ps = ps'"
proof (rule nth_equalityI)
  show "length ps = length ps'" using assms [THEN expert_pairs_length] by simp
  fix i assume "i < length ps"
  then have "i < 3" using assms(1) [THEN expert_pairs_length] by simp
  then have "Some (fst (ps ! i)) = Some (fst (ps' ! i))" "Some (snd (ps ! i)) = Some (snd (ps' ! i))"
    using expert_pairs_find [OF assms(1), of i] expert_pairs_find [OF assms(2), of i] by simp_all
  then show "ps ! i = ps' ! i" by (simp add: prod_eq_iff)
qed

subsection \<open>A checkpoint with one expert\<close>

definition one_tensor :: "nat \<Rightarrow> string \<Rightarrow> int \<Rightarrow> int \<Rightarrow> int \<Rightarrow> k3_tensor" where
  "one_tensor i part off cols n = \<lparr>kt_name = expert_name 0 0 i part, kt_shard = 0, kt_dtype = K3_DT_U8, kt_shape = [1, cols], kt_off = off, kt_nbytes = n\<rparr>"

definition one_img :: "byte list" where
  "one_img = map of_nat [0..<60]"

definition one_st :: k3_st where
  "one_st = (let ts = [one_tensor 0 ''weight_packed'' 5 16 16, one_tensor 0 ''weight_scale'' 21 1 1, one_tensor 1 ''weight_packed'' 22 16 16,
       one_tensor 1 ''weight_scale'' 38 1 1, one_tensor 2 ''weight_packed'' 39 16 16, one_tensor 2 ''weight_scale'' 55 1 1]
     in \<lparr>st_shard = [\<lparr>sh_path = [], sh_size = 60, sh_fd = short_pread one_img 7, sh_dfd = None\<rparr>], st_t = ts,
         st_bucket = [0, -1, 1, -1, 5, 2, 3, 4]\<rparr>)"

lemma one_home:
  "st_home [0, -1, 1, -1, 5, 2, 3, 4] (expert_name 0 0 0 ''weight_packed'') = 0" "st_home [0, -1, 1, -1, 5, 2, 3, 4] (expert_name 0 0 0 ''weight_scale'') = 2"
  "st_home [0, -1, 1, -1, 5, 2, 3, 4] (expert_name 0 0 1 ''weight_packed'') = 5" "st_home [0, -1, 1, -1, 5, 2, 3, 4] (expert_name 0 0 1 ''weight_scale'') = 5"
  "st_home [0, -1, 1, -1, 5, 2, 3, 4] (expert_name 0 0 2 ''weight_packed'') = 6" "st_home [0, -1, 1, -1, 5, 2, 3, 4] (expert_name 0 0 2 ''weight_scale'') = 4"
  by code_simp+

lemma one_names: "expert_name 0 0 1 ''weight_packed'' \<noteq> expert_name 0 0 1 ''weight_scale''" "expert_name 0 0 1 ''weight_scale'' \<noteq> expert_name 0 0 2 ''weight_packed''"
  by (simp_all add: expert_name_def ascii_def)

lemma slot_hit:
  "0 < n \<Longrightarrow> 0 \<le> bk ! nat j \<Longrightarrow> kt_name (ts ! nat (bk ! nat j)) = name \<Longrightarrow> st_slot ts bk name j n = Some j"
  by (cases n) auto

lemma slot_next:
  "0 < n \<Longrightarrow> 0 \<le> bk ! nat j \<Longrightarrow> kt_name (ts ! nat (bk ! nat j)) \<noteq> name \<Longrightarrow>
   st_slot ts bk name j n = st_slot ts bk name ((j + 1) AND (int (length bk) - 1)) (n - 1)"
  by (cases n) auto

lemma one_find:
  "k3_st_find one_st (expert_name 0 0 0 ''weight_packed'') = Some (one_tensor 0 ''weight_packed'' 5 16 16)"
  "k3_st_find one_st (expert_name 0 0 0 ''weight_scale'') = Some (one_tensor 0 ''weight_scale'' 21 1 1)"
  "k3_st_find one_st (expert_name 0 0 1 ''weight_packed'') = Some (one_tensor 1 ''weight_packed'' 22 16 16)"
  "k3_st_find one_st (expert_name 0 0 1 ''weight_scale'') = Some (one_tensor 1 ''weight_scale'' 38 1 1)"
  "k3_st_find one_st (expert_name 0 0 2 ''weight_packed'') = Some (one_tensor 2 ''weight_packed'' 39 16 16)"
  "k3_st_find one_st (expert_name 0 0 2 ''weight_scale'') = Some (one_tensor 2 ''weight_scale'' 55 1 1)"
  unfolding k3_st_find_def st_find_idx_def one_st_def Let_def k3_st.simps one_home
  by (simp_all add: slot_hit slot_next one_names [unfolded One_nat_def] one_tensor_def)

lemma one_ref: "fst (k3_expert_ref one_st 0 0) \<and> xr_nbytes (snd (k3_expert_ref one_st 0 0)) = 51"
  unfolding k3_expert_ref_def
  by (simp add: one_find [unfolded One_nat_def] one_find one_tensor_def pair_ok_def K3_MXFP4_GROUP_def flat_pairs_def i64_def Let_def case_prod_beta)

lemma find_member:
  assumes "index_len (st_bucket s)" "\<And>b. b \<in> set (st_bucket s) \<Longrightarrow> b < int (length (st_t s))" "k3_st_find s nm = Some t"
  shows "t \<in> set (st_t s)"
proof -
  let ?bk = "st_bucket s"
  let ?p = "probe (bucket_table (st_t s) ?bk) nm (home (bucket_table (st_t s) ?bk) nm) (length ?bk)"
  obtain h where h: "?p = Some h" "0 \<le> ?bk ! unat h" "t = st_t s ! nat (?bk ! unat h)"
    using assms(3) by (auto simp: k3_st_find_def st_find_idx_def slot_table [OF assms(1), where ts = "st_t s"] Let_def split: if_splits option.splits)
  have "?bk ! unat h \<in> set ?bk" using probe_in_range [OF assms(1) h(1)] by simp
  from assms(2) [OF this] h(2,3) show ?thesis by simp
qed

lemma one_sane: "st_sane one_st"
proof -
  have "index_len (st_bucket one_st)" unfolding index_len_def by (rule exI [of _ 3]) (simp add: one_st_def Let_def)
  moreover have "b < int (length (st_t one_st))" if "b \<in> set (st_bucket one_st)" for b using that by (auto simp: one_st_def Let_def)
  ultimately have "k3_st_find one_st nm = Some t \<Longrightarrow> t \<in> set (st_t one_st)" for nm t by (rule find_member)
  moreover have "0 \<le> kt_off t \<and> 0 \<le> kt_nbytes t \<and> kt_off t + kt_nbytes t < 2 ^ 60 \<and> 0 \<le> kt_shard t \<and> kt_shard t < int (length (st_shard one_st))"
    if "t \<in> set (st_t one_st)" for t
    using that by (auto simp: one_st_def one_tensor_def Let_def)
  ultimately show ?thesis unfolding st_sane_def by blast
qed

lemma one_sound: "st_sound one_st (\<lambda>_. one_img)"
  by (simp add: st_sound_def one_st_def Let_def short_pread_sound)

lemma one_init: "k3_cache_init one_st one_kc 24576 (\<lambda>_ _. 0) calm_sys \<noteq> None"
proof -
  have "probe_expert one_st one_kc [0..<kc_n_layers one_kc] = Some (snd (k3_expert_ref one_st 0 0))"
    using one_ref by (simp add: one_kc_def k3_is_dense_def case_prod_beta)
  then show ?thesis using one_ref
    by (simp add: k3_cache_init_def one_kc_def eng_cache_create_def eng_cache_stride_for_def ENG_IO_ALIGN_def c_div_def i32_def Let_def
        k3_cache_src_def calm_sys_def case_prod_beta)
qed

definition one_ref_run :: k3_expert_ref where
  "one_ref_run = \<lparr>xr_layer = 0, xr_expert = 0, xr_shard = 0, xr_off = 5, xr_nbytes = 51, xr_contiguous = True,
     xr_m = map (\<lambda>i. \<lparr>qm_p_off = 17 * int i, qm_p_bytes = 16, qm_s_off = 17 * int i + 16, qm_s_bytes = 1, qm_rows = 1, qm_pcols = 16, qm_scols = 1\<rparr>) [0..<3]\<rparr>"

lemma zero_ref_eq: "zero_ref = \<lparr>xr_layer = 0, xr_expert = 0, xr_shard = 0, xr_off = 0, xr_nbytes = 0, xr_contiguous = False, xr_m = [zero_qmat, zero_qmat, zero_qmat]\<rparr>"
  by (simp add: zero_ref_def numeral_eq_Suc)

lemma upt_three: "[0..<3] = [0, 1, 2]"
  by (simp add: numeral_eq_Suc)

lemma one_ref_eq: "k3_expert_ref one_st 0 0 = (True, one_ref_run)"
  unfolding k3_expert_ref_def
  by (simp add: one_find [unfolded One_nat_def] one_find one_tensor_def pair_ok_def K3_MXFP4_GROUP_def flat_pairs_def i64_def i32_def Let_def case_prod_beta
      zero_ref_eq zero_qmat_def one_ref_run_def upt_three)

definition one_src :: "k3_expert_ref cache_src" where
  "one_src = k3_cache_src one_st 1 (\<lambda>_ _. 0) calm_sys"

definition one_cache :: k3_cache where
  "one_cache = the (k3_cache_init one_st one_kc 24576 (\<lambda>_ _. 0) calm_sys)"

lemma one_load: "k3_expert_load_direct one_st one_ref_run mem 12288 = (51, Some 0, slice 5 51 one_img)"
  by code_simp

lemma one_cache_ok: "k3_cache_ok (k3_cache_src one_st 1 (\<lambda>_ _. 0) calm_sys) 1 1 51 one_cache"
proof -
  have "k3_cache_init one_st one_kc 24576 (\<lambda>_ _. 0) calm_sys = Some one_cache" using one_init by (simp add: one_cache_def)
  then show ?thesis by (rule init_ok) (auto simp: one_kc_def one_ref_eq one_ref_run_def)
qed

lemma one_get: "\<exists>q c'. cache_get (k3_cache_src one_st 1 (\<lambda>_ _. 0) calm_sys) 0 0 one_cache = (Some q, c')"
proof -
  let ?src = "k3_cache_src one_st 1 (\<lambda>_ _. 0) calm_sys"
  have "probe_expert one_st one_kc [0..<kc_n_layers one_kc] = Some one_ref_run"
    by (simp add: one_kc_def k3_is_dense_def one_ref_eq)
  then have c: "kx_n_layers one_cache = 1" "kx_n_experts one_cache = 1" "nkeys (cfg (kx_gc one_cache)) = 1" "slot_bytes (cfg (kx_gc one_cache)) = 51"
    "slot_of (kx_gc one_cache) = [None]" "key_of (kx_gc one_cache) = [Empty, Empty]" "nslot (kx_gc one_cache) = 2" "stride (kx_gc one_cache) = 12288"
    "meta (kx_gc one_cache) = [zero_ref, zero_ref]"
    by (simp_all add: one_cache_def k3_cache_init_def one_kc_def one_ref_run_def eng_cache_create_def eng_cache_stride_for_def
        ENG_IO_ALIGN_def c_div_def i32_def Let_def k3_cache_src_def calm_sys_def case_prod_beta numeral_eq_Suc)
  have v: "pick_victim (x\<lparr>misses := n\<rparr>) = Some 0" if "key_of x = [Empty, Empty]" "nslot x = 2" for x :: "k3_expert_ref eng_cache" and n
    using that by (simp add: pick_victim_def numeral_eq_Suc)
  have "describe ?src 0 m = (True, 51, one_ref_run)" "load ?src 0 one_ref_run 12288 = (51, 0, slice 5 51 one_img)" for m
    by (simp_all add: k3_cache_src_def k3_describe_def k3_load_def one_ref_eq one_load) (simp add: one_ref_run_def)
  then have "\<exists>c'. admit ?src (get_noted ?src (kx_gc one_cache) 0) 0 = (Some 0, c')"
    by (simp add: admit_def c v Let_def)
  then show ?thesis
    by (auto simp: cache_get_def c k3key_def eng_cache_get_in_range Let_def)
qed

section \<open>Properties\<close>

text \<open>C22: An expert that the cache serves is that expert of the checkpoint: the six pointers it hands to the kernels
  point at the bytes of the six tensors in the shard file, whether the expert was in memory, was read as one
  contiguous run or was read in six pieces, and whatever the slot held before.\<close>

theorem k3_expert_served_exact:
  assumes "st_sane st" "st_sound st img" "k3_cache_ok (k3_cache_src st ne stale os) nl ne sb c" "k3_usable st nl ne sb l e"
    "0 < xr_nbytes (snd (k3_expert_ref st l e))" "cache_get (k3_cache_src st ne stale os) l e c = (Some q, c')"
  shows "\<exists>ps. expert_pairs st l e ps \<and>
    take (nat (kt_nbytes (fst (ps ! 0)))) (xq_p1 q) = tensor_data img (fst (ps ! 0)) \<and>
    take (nat (kt_nbytes (snd (ps ! 0)))) (xq_s1 q) = tensor_data img (snd (ps ! 0)) \<and>
    take (nat (kt_nbytes (fst (ps ! 1)))) (xq_p2 q) = tensor_data img (fst (ps ! 1)) \<and>
    take (nat (kt_nbytes (snd (ps ! 1)))) (xq_s2 q) = tensor_data img (snd (ps ! 1)) \<and>
    take (nat (kt_nbytes (fst (ps ! 2)))) (xq_p3 q) = tensor_data img (fst (ps ! 2)) \<and>
    take (nat (kt_nbytes (snd (ps ! 2)))) (xq_s3 q) = tensor_data img (snd (ps ! 2))"
proof -
  let ?src = "k3_cache_src st ne stale os"
  have u: "l < nl" "e < ne" using assms(4) by (auto simp: k3_usable_def)
  obtain ent gc where eg: "eng_cache_get ?src (kx_gc c) (l * ne + e) = (Some ent, gc)" and q: "q = fill_q (e_data ent) (e_meta ent)"
    using assms(3,6) u by (auto simp: cache_get_def k3key_def k3_cache_ok_def Let_def split: prod.splits)
  have "object_of ?src (eng_cache_stride_for sb) (l * ne + e) = Some (e_data ent, e_nbytes ent, e_meta ent)"
    using get_entry [OF _ _ eg, of True] assms(3) by (auto simp: k3_cache_ok_def)
  from bank_tensors [OF assms(1,2,4,5) this] obtain ps where r: "e_meta ent = snd (k3_expert_ref st l e)" and ps: "expert_pairs st l e ps"
    and t: "\<forall>i<3. slice (qm_p_off (xr_m (e_meta ent) ! i)) (qm_p_bytes (xr_m (e_meta ent) ! i)) (e_data ent) = tensor_data img (fst (ps ! i)) \<and>
      slice (qm_s_off (xr_m (e_meta ent) ! i)) (qm_s_bytes (xr_m (e_meta ent) ! i)) (e_data ent) = tensor_data img (snd (ps ! i))" by auto
  have ref: "k3_expert_ref st l e = (True, e_meta ent)" using assms(4) r by (auto simp: k3_usable_def prod_eq_iff)
  obtain ps' where ps': "expert_pairs st l e ps'" "\<forall>i<3. qm_p_bytes (xr_m (e_meta ent) ! i) = kt_nbytes (fst (ps' ! i)) \<and> qm_s_bytes (xr_m (e_meta ent) ! i) = kt_nbytes (snd (ps' ! i))"
    using ref_resolved [OF ref assms(1)] by metis
  have "ps' = ps" by (rule expert_pairs_unique [OF ps'(1) ps])
  with t ps'(2) ps show ?thesis unfolding less3 by (intro exI [of _ ps]) (simp add: q fill_q_def slice_def)
qed

text \<open>C21: The batched prefill of the mixture of experts, which fetches every expert of a chunk once, computes for
  each token the row that the token-by-token mixture computes, bit for bit and whatever was in the memory it
  allocates: both runs return, whatever their caches hold at the start, and when neither has dropped an expert
  their outputs are equal.\<close>

theorem k3_batched_prefill_exact:
  assumes "k3_cache_ok (k3_cache_src st ne stale os) nl ne sb c1" "k3_cache_ok (k3_cache_src st ne stale os) nl ne sb c2"
    "ne = kc_n_experts kc" "0 < ne" "\<And>e. e < ne \<Longrightarrow> k3_usable st nl ne sb (ow_layer w) e" "\<not> ow_cache_only w"
  shows "\<exists>out1 d1' c1' out2 d2' c2'.
    k3_moe_prefill fp lm avx2 cpu no_batch kc w (Some (k3_source (k3_cache_src st ne stale os) noprefetch)) junk x (d1, c1) = Some (out1, d1', c1') \<and>
    k3_moe fp lm avx2 cpu kc w (Some (k3_source (k3_cache_src st ne stale os) noprefetch')) x (d2, c2) = Some (out2, d2', c2') \<and>
    d1 \<le> d1' \<and> d2 \<le> d2' \<and> (d1' = d1 \<and> d2' = d2 \<longrightarrow> out1 = out2)"
proof -
  let ?src = "k3_cache_src st ne stale os" and ?row = "bank_token fp lm avx2 cpu kc w (k3_bank (k3_cache_src st ne stale os) ne sb (ow_layer w))"
  have "\<exists>out d' c'. k3_moe_prefill fp lm avx2 cpu no_batch kc w (Some (k3_source ?src noprefetch)) junk x (d1, c1) = Some (out, d', c') \<and>
      k3_cache_ok ?src nl ne sb c' \<and> d1 \<le> d' \<and> (d' = d1 \<longrightarrow> out = map ?row x)"
    by (rule k3src.prefill_exact) (use assms in auto)
  moreover have "\<exists>out d' c'. k3_moe fp lm avx2 cpu kc w (Some (k3_source ?src noprefetch')) x (d2, c2) = Some (out, d', c') \<and>
      k3_cache_ok ?src nl ne sb c' \<and> d2 \<le> d' \<and> (d' = d2 \<longrightarrow> out = map ?row x)"
    by (rule k3src.moe_exact) (use assms in auto)
  ultimately show ?thesis by (elim exE conjE) blast
qed

theorem k3_expert_served_exact_witness:
  "\<exists>q c' ps. cache_get (k3_cache_src one_st 1 (\<lambda>_ _. 0) calm_sys) 0 0 one_cache = (Some q, c') \<and> expert_pairs one_st 0 0 ps \<and>
     take (nat (kt_nbytes (snd (ps ! 2)))) (xq_s3 q) = tensor_data (\<lambda>_. one_img) (snd (ps ! 2))"
proof -
  obtain q c' where g: "cache_get (k3_cache_src one_st 1 (\<lambda>_ _. 0) calm_sys) 0 0 one_cache = (Some q, c')" using one_get by blast
  have u: "k3_usable one_st 1 1 51 0 0" "0 < xr_nbytes (snd (k3_expert_ref one_st 0 0))" by (simp_all add: k3_usable_def one_ref_eq one_ref_run_def)
  show ?thesis using k3_expert_served_exact [OF one_sane one_sound one_cache_ok u g] g by blast
qed

theorem k3_batched_prefill_exact_witness:
  "\<exists>out1 d1' c1' out2 d2' c2' w.
    k3_moe_prefill int_fpu int_libm False scalar_cpu False one_kc w (Some (k3_source (k3_cache_src one_st 1 (\<lambda>_ _. 0) calm_sys) False))
      (\<lambda>_ _ _. [7]) [[1], [2]] (0, one_cache) = Some (out1, d1', c1') \<and>
    k3_moe int_fpu int_libm False scalar_cpu one_kc w (Some (k3_source (k3_cache_src one_st 1 (\<lambda>_ _. 0) calm_sys) True))
      [[1], [2]] (0, one_cache) = Some (out2, d2', c2') \<and>
    (d1' = 0 \<and> d2' = 0 \<longrightarrow> out1 = out2)"
proof -
  define w :: "int k3_moe_w" where "w = \<lparr>ow_gate = [1], ow_bias = None, ow_w1 = [], ow_w3 = [], ow_w2 = [], ow_latent_norm = [1], ow_down = K3_WF32 [1],
    ow_up = K3_WF32 [1], ow_sh1 = K3_WF32 [1], ow_sh3 = K3_WF32 [1], ow_sh2 = K3_WF32 [1], ow_layer = 0, ow_cache_only = False\<rparr>"
  have h: "(1 :: nat) = kc_n_experts one_kc" "(0 :: nat) < 1" "\<And>e. e < 1 \<Longrightarrow> k3_usable one_st 1 1 51 (ow_layer w) e" "\<not> ow_cache_only w"
    by (simp_all add: one_kc_def w_def k3_usable_def one_ref_eq one_ref_run_def)
  show ?thesis
    using k3_batched_prefill_exact [OF one_cache_ok one_cache_ok h, where fp = int_fpu and lm = int_libm
      and ?avx2.0 = False and cpu = scalar_cpu and no_batch = False and noprefetch = False and noprefetch' = True
      and junk = "\<lambda>_ _ _. [7]" and x = "[[1], [2]]" and ?d1.0 = 0 and ?d2.0 = 0] by blast
qed

end
