(* ===== verification/K3_Layer_Props.thy ===== *)
theory K3_Layer_Props
  imports K3_Layer K3_Ops_Props K3_Cache_Props
begin

text \<open>
  Bounds of the decoder layer's memory, and that a sequence may be fed to it in chunks.
\<close>

section \<open>Memory\<close>

text \<open>The snapshots taken by the first \<open>n\<close> layers.\<close>

definition blocks_before :: "'f k3_cfg \<Rightarrow> nat \<Rightarrow> nat" where
  "blocks_before c n = card {l. l < n \<and> l mod kc_attn_res_block c = 0}"

lemma blocks_before_Suc: "blocks_before c (Suc n) = (if n mod kc_attn_res_block c = 0 then blocks_before c n + 1 else blocks_before c n)"
proof -
  have "{l. l < Suc n \<and> l mod kc_attn_res_block c = 0} = (if n mod kc_attn_res_block c = 0 then insert n {l. l < n \<and> l mod kc_attn_res_block c = 0}
      else {l. l < n \<and> l mod kc_attn_res_block c = 0})" by (auto simp: less_Suc_eq)
  then show ?thesis by (simp add: blocks_before_def)
qed

lemma blocks_before_bound: "0 < kc_attn_res_block c \<Longrightarrow> blocks_before c n * kc_attn_res_block c < n + kc_attn_res_block c"
proof -
  let ?b = "kc_attn_res_block c"
  assume b: "0 < ?b"
  have "blocks_before c n \<le> (n + ?b - 1) div ?b"
  proof (induction n)
    case (Suc n)
    show ?case
    proof (cases "n mod ?b = 0")
      case True
      then obtain q where n: "n = q * ?b" by (metis True mod_0_imp_dvd dvdE mult.commute)
      have "n + ?b - 1 = (?b - 1) + q * ?b" using b unfolding n by simp
      then have "(n + ?b - 1) div ?b = q + (?b - 1) div ?b" using div_mult_self1 [of ?b "?b - 1" q] b by (simp only:)
      then have "(n + ?b - 1) div ?b = q" using b by simp
      moreover have "(Suc n + ?b - 1) div ?b = q + 1" using b unfolding n by simp
      ultimately show ?thesis using Suc True by (simp add: blocks_before_Suc)
    next
      case False
      have "(n + ?b - 1) div ?b \<le> (Suc n + ?b - 1) div ?b" by (rule div_le_mono) simp
      then show ?thesis using Suc False by (simp add: blocks_before_Suc)
    qed
  qed (use b in \<open>simp add: blocks_before_def\<close>)
  then have "blocks_before c n * ?b \<le> (n + ?b - 1) div ?b * ?b" by (rule mult_le_mono1)
  also have "\<dots> \<le> n + ?b - 1" by simp
  finally show ?thesis using b by linarith
qed

lemma blocks_fit: "0 < kc_attn_res_block c \<Longrightarrow> n \<le> kc_n_layers c \<Longrightarrow> blocks_before c n + 1 \<le> layer_maxb c"
proof -
  let ?b = "kc_attn_res_block c"
  assume b: "0 < ?b" and n: "n \<le> kc_n_layers c"
  have "blocks_before c n * ?b < (kc_n_layers c div ?b + 2) * ?b"
    using blocks_before_bound [OF b, of n] n div_mult_mod_eq [of "kc_n_layers c" ?b] mod_less_divisor [OF b, of "kc_n_layers c"] unfolding add_mult_distrib by linarith
  then have "blocks_before c n < kc_n_layers c div ?b + 2" using mult_less_cancel2 by blast
  then show ?thesis by (simp add: layer_maxb_def)
qed

section \<open>The layer row by row\<close>

definition add_vec :: "('f, 'd) fpu \<Rightarrow> nat \<Rightarrow> 'f list \<Rightarrow> 'f list \<Rightarrow> 'f list" where
  "add_vec fp E p q = map (\<lambda>i. f_add fp (p ! i) (q ! i)) [0..<E]"

definition fold_vec :: "('f, 'd) fpu \<Rightarrow> nat \<Rightarrow> 'f list \<Rightarrow> 'f list \<Rightarrow> 'f list" where
  "fold_vec fp E n p = map (\<lambda>i. f_mul fp (n ! i) (p ! i)) [0..<E]"

definition pre_row :: "('f, 'd) fpu \<Rightarrow> 'f k3_cfg \<Rightarrow> 'f k3_layer_w \<Rightarrow> nat \<Rightarrow> 'f list list \<Rightarrow> 'f list \<Rightarrow> 'f list" where
  "pre_row fp c w nb br x = k3_rmsnorm fp (if nb > 0
     then k3_attn_res fp (take nb br @ [x]) (fold_vec fp (kc_hidden c) (lw_attn_res_norm w) (lw_attn_res_proj w)) (kc_hidden c) (kc_rms_eps c) else x)
     (lw_in_norm w) (kc_hidden c) (kc_rms_eps c)"

definition post_row :: "('f, 'd) fpu \<Rightarrow> 'f k3_cfg \<Rightarrow> 'f k3_layer_w \<Rightarrow> nat \<Rightarrow> 'f list list \<Rightarrow> 'f list \<Rightarrow> 'f list" where
  "post_row fp c w nb br x = k3_rmsnorm fp (k3_attn_res fp (take nb br @ [x]) (fold_vec fp (kc_hidden c) (lw_mlp_res_norm w) (lw_mlp_res_proj w)) (kc_hidden c) (kc_rms_eps c))
     (lw_post_norm w) (kc_hidden c) (kc_rms_eps c)"

lemma map_upt_map2: "length ys = length xs \<Longrightarrow> map (\<lambda>t. f (xs ! t) (ys ! t)) [0..<length xs] = map2 f xs ys"
  by (rule nth_equalityI) auto

lemma layer_attn_keeps:
  assumes "layer_attn fp lm avx2 c w hin cached cap st = Some (tmp, st')"
  shows "length tmp = length hin" "ls_br st' = ls_br st" "ls_nb st' = ls_nb st" "ls_src st' = ls_src st"
proof -
  have "length (fst (k3_kda_layer fp lm avx2 c kda hin ks)) = length hin" for kda ks
    by (simp add: k3_kda_layer_def Let_def case_prod_beta)
  moreover have "k3_mla_cached fp lm avx2 c mla hin kv cached cap = Some (tmp', kv') \<Longrightarrow> length tmp' = length hin" for mla kv tmp' kv'
    by (auto simp: k3_mla_cached_def Let_def case_prod_beta split: if_splits)
  ultimately show "length tmp = length hin" "ls_br st' = ls_br st" "ls_nb st' = ls_nb st" "ls_src st' = ls_src st"
    using assms by (auto simp: layer_attn_def Let_def case_prod_beta split: sum.splits option.splits)
qed

definition boundary :: "'f k3_cfg \<Rightarrow> nat \<Rightarrow> bool" where
  "boundary c l \<longleftrightarrow> l mod kc_attn_res_block c = 0"

definition snap :: "'f k3_cfg \<Rightarrow> nat \<Rightarrow> nat \<Rightarrow> 'f list list \<Rightarrow> 'f list \<Rightarrow> 'f list list" where
  "snap c l nb br x = (if boundary c l then br[nb := x] else br)"

definition snap_count :: "'f k3_cfg \<Rightarrow> nat \<Rightarrow> nat \<Rightarrow> nat" where
  "snap_count c l nb = (if boundary c l then nb + 1 else nb)"

lemma layer_rows:
  assumes "length (ls_br st) = length h"
  shows "k3_decoder_layer_inc fp lm avx2 cpu no_batch c w src junk l h cached cap st =
    (case layer_attn fp lm avx2 c w (map2 (pre_row fp c w (ls_nb st)) (ls_br st) h) cached cap
        (st\<lparr>ls_br := map2 (snap c l (ls_nb st)) (ls_br st) h, ls_nb := snap_count c l (ls_nb st)\<rparr>) of None \<Rightarrow> None
     | Some (tmp, st) \<Rightarrow> (let pref = map2 (\<lambda>x y. if boundary c l then y else add_vec fp (kc_hidden c) x y) h tmp in
         map_option (\<lambda>(tmp, st). (add_rows fp (kc_hidden c) pref tmp, st))
           (layer_mlp fp lm avx2 cpu no_batch c w src junk (map2 (post_row fp c w (ls_nb st)) (ls_br st) pref) st)))"
proof -
  have hin: "map (\<lambda>x. k3_rmsnorm fp x (lw_in_norm w) (kc_hidden c) (kc_rms_eps c)) (if 0 < ls_nb st
      then map (\<lambda>t. k3_attn_res fp (layer_sources (ls_br st) (ls_nb st) h t) (fold_vec fp (kc_hidden c) (lw_attn_res_norm w) (lw_attn_res_proj w)) (kc_hidden c) (kc_rms_eps c)) [0..<length h]
      else h) = map2 (pre_row fp c w (ls_nb st)) (ls_br st) h"
    using assms by (intro nth_equalityI) (auto simp: pre_row_def layer_sources_def)
  have stb: "(if l mod kc_attn_res_block c = 0
      then st\<lparr>ls_br := map (\<lambda>t. (ls_br st ! t)[ls_nb st := h ! t]) [0..<length h] @ drop (length h) (ls_br st), ls_nb := ls_nb st + 1\<rparr> else st)
      = st\<lparr>ls_br := map2 (snap c l (ls_nb st)) (ls_br st) h, ls_nb := snap_count c l (ls_nb st)\<rparr>"
  proof (cases "boundary c l")
    case True
    have "map (\<lambda>t. (ls_br st ! t)[ls_nb st := h ! t]) [0..<length h] = map2 (snap c l (ls_nb st)) (ls_br st) h"
      using assms True by (intro nth_equalityI) (auto simp: snap_def)
    then show ?thesis using assms True by (simp add: boundary_def snap_count_def)
  next
    case False
    have "map2 (snap c l (ls_nb st)) (ls_br st) h = ls_br st" using assms False by (intro nth_equalityI) (auto simp: snap_def)
    then show ?thesis using False by (simp add: boundary_def snap_count_def)
  qed
  have pref: "(if l mod kc_attn_res_block c = 0 then tmp else add_rows fp (kc_hidden c) h tmp)
      = map2 (\<lambda>x y. if boundary c l then y else add_vec fp (kc_hidden c) x y) h tmp" if "length tmp = length h" for tmp
    using that by (intro nth_equalityI) (auto simp: boundary_def add_rows_def add_vec_def)
  have post: "map (\<lambda>x. k3_rmsnorm fp x (lw_post_norm w) (kc_hidden c) (kc_rms_eps c))
      (map (\<lambda>t. k3_attn_res fp (layer_sources br nb p t) (fold_vec fp (kc_hidden c) (lw_mlp_res_norm w) (lw_mlp_res_proj w)) (kc_hidden c) (kc_rms_eps c)) [0..<length h])
      = map2 (post_row fp c w nb) br p" if "length p = length h" "length br = length h" for p br nb
    using that by (intro nth_equalityI) (auto simp: post_row_def layer_sources_def)
  let ?a = "layer_attn fp lm avx2 c w (map2 (pre_row fp c w (ls_nb st)) (ls_br st) h) cached cap
      (st\<lparr>ls_br := map2 (snap c l (ls_nb st)) (ls_br st) h, ls_nb := snap_count c l (ls_nb st)\<rparr>)"
  show ?thesis
  proof (cases ?a)
    case None
    show ?thesis unfolding k3_decoder_layer_inc_def Let_def fold_vec_def [symmetric] hin stb None by simp
  next
    case (Some r)
    obtain tmp st' where r: "r = (tmp, st')" by (cases r)
    have k: "length tmp = length h" "length (ls_br st') = length h" using layer_attn_keeps [OF Some [unfolded r]] assms by simp_all
    have p: "length (map2 (\<lambda>x y. if boundary c l then y else add_vec fp (kc_hidden c) x y) h tmp) = length h" using k by simp
    show ?thesis unfolding k3_decoder_layer_inc_def Let_def fold_vec_def [symmetric] hin stb Some r option.case prod.case pref [OF k(1)] post [OF p k(2)] ..
  qed
qed

section \<open>Chunks\<close>

text \<open>The attention block as a function of the two carried states.\<close>

definition attn_core where
  "attn_core fp lm avx2 c w hin cached cap ks kv =
     (case lw_attn w of
        Inl kda \<Rightarrow> (let (tmp, ks) = k3_kda_layer fp lm avx2 c kda hin ks in Some (tmp, ks, kv))
      | Inr mla \<Rightarrow> map_option (\<lambda>(tmp, kv'). (tmp, ks, map_option (\<lambda>_. kv') kv)) (k3_mla_cached fp lm avx2 c mla hin kv cached cap))"

lemma layer_attn_core:
  "layer_attn fp lm avx2 c w hin cached cap st =
     map_option (\<lambda>(tmp, ks, kv). (tmp, st\<lparr>ls_kda := ks, ls_kv := kv\<rparr>)) (attn_core fp lm avx2 c w hin cached cap (ls_kda st) (ls_kv st))"
  by (auto simp: layer_attn_def attn_core_def Let_def case_prod_beta split: sum.split option.split)

lemma attn_append:
  "attn_core fp lm avx2 c w (xs @ ys) cached cap (Some ks) (Some kv) =
    (case attn_core fp lm avx2 c w xs cached cap (Some ks) (Some kv) of None \<Rightarrow> None
     | Some (o1, ks1, kv1) \<Rightarrow> map_option (\<lambda>(o2, st2). (o1 @ o2, st2)) (attn_core fp lm avx2 c w ys (cached + length xs) cap ks1 kv1))"
proof (cases "lw_attn w")
  case (Inl kda)
  obtain o1 k1 where k1: "k3_kda_layer fp lm avx2 c kda xs (Some ks) = (o1, Some k1)" using kda_layer_keeps_state by blast
  then show ?thesis by (simp add: attn_core_def Inl kda_layer_append Let_def case_prod_beta)
next
  case (Inr mla)
  show ?thesis
    by (cases "k3_mla_cached fp lm avx2 c mla xs (Some kv) cached cap")
      (auto simp: attn_core_def Inr mla_cached_append option.map_comp comp_def case_prod_beta)
qed

text \<open>The block after attention, over the experts of the checkpoint.\<close>

definition mlp_row where
  "mlp_row fp lm avx2 cpu c w bank = (case lw_mlp w of Inl moe \<Rightarrow> bank_token fp lm avx2 cpu c moe (bank (ow_layer moe)) | Inr d \<Rightarrow> layer_dense fp lm avx2 c d)"

definition mlp_served :: "k3_st \<Rightarrow> nat \<Rightarrow> int \<Rightarrow> 'f k3_cfg \<Rightarrow> 'f k3_layer_w \<Rightarrow> bool" where
  "mlp_served st nl sb c w \<longleftrightarrow> 0 < kc_n_experts c \<and> (\<forall>moe. lw_mlp w = Inl moe \<longrightarrow> \<not> ow_cache_only moe \<and>
     (\<forall>e<kc_n_experts c. k3_usable st nl (kc_n_experts c) sb (ow_layer moe) e))"

lemma mlp_rows:
  assumes "mlp_served st nl sb c w" "k3_cache_ok (k3_cache_src st (kc_n_experts c) stale os) nl (kc_n_experts c) sb (snd (ls_src s))"
  shows "\<exists>out d' c'. layer_mlp fp lm avx2 cpu no_batch c w (Some (k3_source (k3_cache_src st (kc_n_experts c) stale os) noprefetch)) junk hin s = Some (out, s\<lparr>ls_src := (d', c')\<rparr>) \<and>
    (d' = fst (ls_src s) \<longrightarrow> out = map (mlp_row fp lm avx2 cpu c w (k3_bank (k3_cache_src st (kc_n_experts c) stale os) (kc_n_experts c) sb)) hin)"
proof (cases "lw_mlp w")
  case (Inl moe)
  obtain d c0 where dc: "ls_src s = (d, c0)" by (cases "ls_src s")
  have "\<exists>out d' c'. k3_moe_prefill fp lm avx2 cpu no_batch c moe (Some (k3_source (k3_cache_src st (kc_n_experts c) stale os) noprefetch)) junk hin (d, c0) = Some (out, d', c') \<and>
      k3_cache_ok (k3_cache_src st (kc_n_experts c) stale os) nl (kc_n_experts c) sb c' \<and> d \<le> d' \<and>
      (d' = d \<longrightarrow> out = map (bank_token fp lm avx2 cpu c moe (k3_bank (k3_cache_src st (kc_n_experts c) stale os) (kc_n_experts c) sb (ow_layer moe))) hin)"
    by (rule k3src.prefill_exact) (use assms Inl dc in \<open>auto simp: mlp_served_def\<close>)
  then obtain out d' c' where o: "k3_moe_prefill fp lm avx2 cpu no_batch c moe (Some (k3_source (k3_cache_src st (kc_n_experts c) stale os) noprefetch)) junk hin (d, c0) = Some (out, d', c')"
    "d' = d \<longrightarrow> out = map (bank_token fp lm avx2 cpu c moe (k3_bank (k3_cache_src st (kc_n_experts c) stale os) (kc_n_experts c) sb (ow_layer moe))) hin" by blast
  show ?thesis by (rule exI [of _ out], rule exI [of _ d'], rule exI [of _ c']) (use o in \<open>simp add: layer_mlp_def Inl dc mlp_row_def\<close>)
next
  case (Inr d)
  then show ?thesis by (intro exI [of _ "fst (ls_src s)"] exI [of _ "snd (ls_src s)"] exI) (auto simp: layer_mlp_def mlp_row_def)
qed

text \<open>A run of the layer that drops no expert.\<close>

lemma layer_run:
  assumes len: "length (ls_br s) = length h"
    and served: "mlp_served st nl sb c w" "k3_cache_ok (k3_cache_src st (kc_n_experts c) stale os) nl (kc_n_experts c) sb (snd (ls_src s))"
    and run: "k3_decoder_layer_inc fp lm avx2 cpu no_batch c w (Some (k3_source (k3_cache_src st (kc_n_experts c) stale os) noprefetch)) junk l h cached cap s = Some (out, s')"
      "fst (ls_src s') = fst (ls_src s)"
  shows "\<exists>tmp ks kv. attn_core fp lm avx2 c w (map2 (pre_row fp c w (ls_nb s)) (ls_br s) h) cached cap (ls_kda s) (ls_kv s) = Some (tmp, ks, kv) \<and>
    length tmp = length h \<and> ls_kda s' = ks \<and> ls_kv s' = kv \<and>
    out = map2 (\<lambda>b (x, y). let p = (if boundary c l then y else add_vec fp (kc_hidden c) x y) in
      add_vec fp (kc_hidden c) p (mlp_row fp lm avx2 cpu c w (k3_bank (k3_cache_src st (kc_n_experts c) stale os) (kc_n_experts c) sb)
        (post_row fp c w (snap_count c l (ls_nb s)) (snap c l (ls_nb s) b x) p))) (ls_br s) (zip h tmp)"
proof -
  let ?src = "Some (k3_source (k3_cache_src st (kc_n_experts c) stale os) noprefetch)"
  let ?sb = "s\<lparr>ls_br := map2 (snap c l (ls_nb s)) (ls_br s) h, ls_nb := snap_count c l (ls_nb s)\<rparr>"
  let ?row = "mlp_row fp lm avx2 cpu c w (k3_bank (k3_cache_src st (kc_n_experts c) stale os) (kc_n_experts c) sb)"
  obtain tmp s1 where a: "layer_attn fp lm avx2 c w (map2 (pre_row fp c w (ls_nb s)) (ls_br s) h) cached cap ?sb = Some (tmp, s1)"
    using run(1) unfolding layer_rows [OF len] by (auto split: option.splits)
  then obtain ks kv where core: "attn_core fp lm avx2 c w (map2 (pre_row fp c w (ls_nb s)) (ls_br s) h) cached cap (ls_kda s) (ls_kv s) = Some (tmp, ks, kv)"
    and s1: "s1 = ?sb\<lparr>ls_kda := ks, ls_kv := kv\<rparr>" unfolding layer_attn_core by auto
  have lt: "length tmp = length h" using layer_attn_keeps(1) [OF a] len by simp
  let ?pref = "map2 (\<lambda>x y. if boundary c l then y else add_vec fp (kc_hidden c) x y) h tmp"
  have "k3_cache_ok (k3_cache_src st (kc_n_experts c) stale os) nl (kc_n_experts c) sb (snd (ls_src s1))" using served(2) by (simp add: s1)
  from mlp_rows [OF served(1) this, of fp lm avx2 cpu no_batch noprefetch junk "map2 (post_row fp c w (ls_nb s1)) (ls_br s1) ?pref"] obtain o2 d' c' where m: "layer_mlp fp lm avx2 cpu no_batch c w ?src junk (map2 (post_row fp c w (ls_nb s1)) (ls_br s1) ?pref) s1 = Some (o2, s1\<lparr>ls_src := (d', c')\<rparr>)"
      "d' = fst (ls_src s1) \<longrightarrow> o2 = map ?row (map2 (post_row fp c w (ls_nb s1)) (ls_br s1) ?pref)"
    by blast
  have o: "out = add_rows fp (kc_hidden c) ?pref o2" "s' = s1\<lparr>ls_src := (d', c')\<rparr>"
    using run(1) unfolding layer_rows [OF len] a option.case prod.case Let_def m(1) by auto
  have "o2 = map ?row (map2 (post_row fp c w (ls_nb s1)) (ls_br s1) ?pref)" using m(2) run(2) by (simp add: o(2) s1)
  then have "out = map2 (\<lambda>b (x, y). let p = (if boundary c l then y else add_vec fp (kc_hidden c) x y) in
      add_vec fp (kc_hidden c) p (?row (post_row fp c w (snap_count c l (ls_nb s)) (snap c l (ls_nb s) b x) p))) (ls_br s) (zip h tmp)"
    unfolding o(1) using len lt by (intro nth_equalityI) (auto simp: add_rows_def add_vec_def s1 Let_def)
  with core lt show ?thesis by (auto simp: o(2) s1)
qed

text \<open>C20: A decoder layer may be fed a sequence in two parts.  With the recurrent state and the KV cache carried
  from the first call to the second, with the residual snapshots of each token given to the call that has the
  token, and with the experts served by the cache in whatever state it is, the rows and the carried state are those
  of the one call over the whole sequence, bit for bit, as long as no run has dropped an expert.\<close>

theorem k3_layer_incremental_exact:
  assumes st: "ls_kda s = Some ks" "ls_kv s = Some kv" "ls_br s = br1 @ br2" "length br1 = length xs" "length br2 = length ys"
    and served: "mlp_served st nl sb c w" "\<And>e. e \<in> {snd (ls_src s), c1, c2} \<Longrightarrow> k3_cache_ok (k3_cache_src st (kc_n_experts c) stale os) nl (kc_n_experts c) sb e"
    and whole: "k3_decoder_layer_inc fp lm avx2 cpu no_batch c w (Some (k3_source (k3_cache_src st (kc_n_experts c) stale os) noprefetch)) junk l (xs @ ys) cached cap s = Some (out, s')"
      "fst (ls_src s') = fst (ls_src s)"
    and first: "k3_decoder_layer_inc fp lm avx2 cpu no_batch c w (Some (k3_source (k3_cache_src st (kc_n_experts c) stale os) noprefetch)) junk1 l xs cached cap
      (s\<lparr>ls_br := br1, ls_src := (d1, c1)\<rparr>) = Some (out1, s1)" "fst (ls_src s1) = d1"
    and second: "k3_decoder_layer_inc fp lm avx2 cpu no_batch c w (Some (k3_source (k3_cache_src st (kc_n_experts c) stale os) noprefetch)) junk2 l ys (cached + length xs) cap
      (s1\<lparr>ls_br := br2, ls_nb := ls_nb s, ls_src := (d2, c2)\<rparr>) = Some (out2, s2)" "fst (ls_src s2) = d2"
  shows "out = out1 @ out2 \<and> ls_kda s' = ls_kda s2 \<and> ls_kv s' = ls_kv s2"
proof -
  let ?pre = "map2 (pre_row fp c w (ls_nb s))"
  obtain t ks' kv' where w: "attn_core fp lm avx2 c w (?pre br1 xs @ ?pre br2 ys) cached cap (Some ks) (Some kv) = Some (t, ks', kv')"
      "ls_kda s' = ks'" "ls_kv s' = kv'" and ow: "out = map2 (\<lambda>b (x, y). let p = (if boundary c l then y else add_vec fp (kc_hidden c) x y) in
      add_vec fp (kc_hidden c) p (mlp_row fp lm avx2 cpu c w (k3_bank (k3_cache_src st (kc_n_experts c) stale os) (kc_n_experts c) sb)
        (post_row fp c w (snap_count c l (ls_nb s)) (snap c l (ls_nb s) b x) p))) (br1 @ br2) (zip (xs @ ys) t)"
    using layer_run [OF _ served(1) _ whole] st served(2) by (simp add: zip_append) blast
  obtain t1 ks1 kv1 where f: "attn_core fp lm avx2 c w (?pre br1 xs) cached cap (Some ks) (Some kv) = Some (t1, ks1, kv1)"
      "length t1 = length xs" "ls_kda s1 = ks1" "ls_kv s1 = kv1" and of: "out1 = map2 (\<lambda>b (x, y). let p = (if boundary c l then y else add_vec fp (kc_hidden c) x y) in
      add_vec fp (kc_hidden c) p (mlp_row fp lm avx2 cpu c w (k3_bank (k3_cache_src st (kc_n_experts c) stale os) (kc_n_experts c) sb)
        (post_row fp c w (snap_count c l (ls_nb s)) (snap c l (ls_nb s) b x) p))) br1 (zip xs t1)"
    using layer_run [OF _ served(1) _ first(1)] first(2) st served(2) by simp blast
  obtain t2 ks2 kv2 where g: "attn_core fp lm avx2 c w (?pre br2 ys) (cached + length xs) cap ks1 kv1 = Some (t2, ks2, kv2)"
      "length t2 = length ys" "ls_kda s2 = ks2" "ls_kv s2 = kv2" and og: "out2 = map2 (\<lambda>b (x, y). let p = (if boundary c l then y else add_vec fp (kc_hidden c) x y) in
      add_vec fp (kc_hidden c) p (mlp_row fp lm avx2 cpu c w (k3_bank (k3_cache_src st (kc_n_experts c) stale os) (kc_n_experts c) sb)
        (post_row fp c w (snap_count c l (ls_nb s)) (snap c l (ls_nb s) b x) p))) br2 (zip ys t2)"
    using layer_run [OF _ served(1) _ second(1)] second(2) st served(2) f by simp blast
  have "t = t1 @ t2" "ks' = ks2" "kv' = kv2" using w(1) st(4) unfolding attn_append by (simp_all add: f(1) g(1))
  then show ?thesis using w f(2) g st(4,5) by (simp add: ow of og zip_append)
qed

subsection \<open>A small layer\<close>

definition one_kda :: "int k3_kda_w" where
  "one_kda = \<lparr>kw_q = K3_WF32 [1], kw_k = K3_WF32 [2], kw_v = K3_WF32 [1], kw_q_conv = [1, 1], kw_k_conv = [1, 2], kw_v_conv = [1, 1], kw_f_a = K3_WF32 [1],
     kw_f_b = K3_WF32 [1], kw_A_log = [0], kw_dt_bias = [0], kw_b = K3_WF32 [1], kw_g = K3_WF32 [1], kw_o_norm = [1], kw_o = K3_WF32 [1]\<rparr>"

definition one_layer :: "int k3_layer_w" where
  "one_layer = \<lparr>lw_in_norm = [1], lw_post_norm = [1], lw_attn_res_norm = [1], lw_attn_res_proj = [1], lw_mlp_res_norm = [1], lw_mlp_res_proj = [1],
     lw_attn = Inl one_kda, lw_mlp = Inr \<lparr>dw_gate = K3_WF32 [1], dw_up = K3_WF32 [1], dw_down = K3_WF32 [1]\<rparr>\<rparr>"

definition one_state :: "nat \<Rightarrow> (int, k3_cache) layer_st" where
  "one_state T = \<lparr>ls_br = replicate T (replicate 3 [0]), ls_nb = 0, ls_kda = Some (kda_fresh int_fpu one_kc), ls_kv = Some ([], []), ls_src = (0, one_cache)\<rparr>"

lemma one_layer_returns:
  "\<exists>out s'. k3_decoder_layer_inc fp lm avx2 cpu no_batch c one_layer src junk l h cached cap s = Some (out, s') \<and> ls_src s' = ls_src s"
  by (auto simp: k3_decoder_layer_inc_def Let_def layer_attn_def layer_mlp_def one_layer_def case_prod_beta)

theorem k3_layer_incremental_exact_witness:
  "\<exists>out s' out1 s1 out2 s2.
    k3_decoder_layer_inc int_fpu int_libm False scalar_cpu False one_kc one_layer (Some (k3_source (k3_cache_src one_st (kc_n_experts one_kc) (\<lambda>_ _. 0) calm_sys) False))
      (\<lambda>_ _ _. []) 0 ([[1], [2]] @ [[3]]) 0 8 (one_state 3) = Some (out, s') \<and>
    k3_decoder_layer_inc int_fpu int_libm False scalar_cpu False one_kc one_layer (Some (k3_source (k3_cache_src one_st (kc_n_experts one_kc) (\<lambda>_ _. 0) calm_sys) False))
      (\<lambda>_ _ _. []) 0 [[1], [2]] 0 8 ((one_state 3)\<lparr>ls_br := replicate 2 (replicate 3 [0]), ls_src := (0, one_cache)\<rparr>) = Some (out1, s1) \<and>
    k3_decoder_layer_inc int_fpu int_libm False scalar_cpu False one_kc one_layer (Some (k3_source (k3_cache_src one_st (kc_n_experts one_kc) (\<lambda>_ _. 0) calm_sys) False))
      (\<lambda>_ _ _. []) 0 [[3]] (0 + length [[1], [2 :: int]]) 8 (s1\<lparr>ls_br := replicate 1 (replicate 3 [0]), ls_nb := ls_nb (one_state 3), ls_src := (0, one_cache)\<rparr>) = Some (out2, s2) \<and>
    out = out1 @ out2 \<and> ls_kda s' = ls_kda s2"
proof -
  let ?src = "Some (k3_source (k3_cache_src one_st (kc_n_experts one_kc) (\<lambda>_ _. 0) calm_sys) False)"
  let ?run = "k3_decoder_layer_inc int_fpu int_libm False scalar_cpu False one_kc one_layer ?src (\<lambda>_ _ _. []) 0"
  obtain out s' where w: "?run ([[1], [2]] @ [[3]]) 0 8 (one_state 3) = Some (out, s')" "fst (ls_src s') = fst (ls_src (one_state 3))"
    using one_layer_returns by metis
  obtain out1 s1 where f: "?run [[1], [2]] 0 8 ((one_state 3)\<lparr>ls_br := replicate 2 (replicate 3 [0]), ls_src := (0, one_cache)\<rparr>) = Some (out1, s1)" "fst (ls_src s1) = 0"
    using one_layer_returns [of int_fpu int_libm False scalar_cpu False one_kc ?src "\<lambda>_ _ _. []" 0 "[[1], [2]]" 0 8 "(one_state 3)\<lparr>ls_br := replicate 2 (replicate 3 [0]), ls_src := (0, one_cache)\<rparr>"] by auto
  let ?s1 = "s1\<lparr>ls_br := replicate 1 (replicate 3 [0]), ls_nb := ls_nb (one_state 3), ls_src := (0, one_cache)\<rparr>"
  obtain out2 s2 where g: "?run [[3]] (0 + length [[1], [2 :: int]]) 8 ?s1 = Some (out2, s2)" "fst (ls_src s2) = 0"
    using one_layer_returns [of int_fpu int_libm False scalar_cpu False one_kc ?src "\<lambda>_ _ _. []" 0 "[[3]]" "0 + length [[1], [2 :: int]]" 8 ?s1] by auto
  have st: "ls_kda (one_state 3) = Some (kda_fresh int_fpu one_kc)" "ls_kv (one_state 3) = Some ([], [])"
    "ls_br (one_state 3) = replicate 2 (replicate 3 [0]) @ replicate 1 (replicate 3 [0])"
    "length (replicate 2 (replicate 3 [0 :: int])) = length [[1], [2 :: int]]" "length (replicate 1 (replicate 3 [0 :: int])) = length [[3 :: int]]"
    by (simp_all add: one_state_def numeral_eq_Suc)
  have sv: "mlp_served one_st 1 51 one_kc one_layer" by (simp add: mlp_served_def one_layer_def one_kc_def)
  have ok: "k3_cache_ok (k3_cache_src one_st (kc_n_experts one_kc) (\<lambda>_ _. 0) calm_sys) 1 (kc_n_experts one_kc) 51 e"
    if "e \<in> {snd (ls_src (one_state 3)), one_cache, one_cache}" for e
    using that one_cache_ok by (auto simp: one_state_def one_kc_def)
  from k3_layer_incremental_exact [OF st sv ok w f g] w(1) f(1) g(1) show ?thesis by blast
qed

text \<open>A layout inside \<open>n\<close> floats whose arrays follow each other without overlap.\<close>

definition disjoint_within :: "nat \<Rightarrow> layout \<Rightarrow> bool" where
  "disjoint_within n L \<longleftrightarrow> list_all (\<lambda>r. fst r + snd r \<le> n) L \<and> sorted_wrt (\<lambda>a b. fst a + snd a \<le> fst b) L"

lemma disjoint_append:
  "disjoint_within m A \<Longrightarrow> disjoint_within n B \<Longrightarrow> m \<le> n \<Longrightarrow> list_all (\<lambda>b. m \<le> fst b) B \<Longrightarrow> disjoint_within n (A @ B)"
  by (fastforce simp: disjoint_within_def list_all_iff sorted_wrt_append)

lemma disjoint_mono: "disjoint_within m A \<Longrightarrow> m \<le> n \<Longrightarrow> disjoint_within n A"
  by (fastforce simp: disjoint_within_def list_all_iff)

lemma kda_layout_fits: "disjoint_within (off + k3_kda_scratch c T) (kda_layout c T off)" "list_all (\<lambda>r. off \<le> fst r) (kda_layout c T off)"
  by (simp_all add: disjoint_within_def kda_layout_def k3_kda_scratch_def Let_def)

lemma moe_layout_fits: "disjoint_within (off + k3_moe_scratch c) (moe_layout c off)" "list_all (\<lambda>r. off \<le> fst r) (moe_layout c off)"
  by (simp_all add: disjoint_within_def moe_layout_def k3_moe_scratch_def Let_def)

lemma chunk_layouts_fit:
  "B \<in> set (chunk_layouts c off) \<Longrightarrow> disjoint_within (off + k3_moe_scratch c) B \<and> list_all (\<lambda>r. off \<le> fst r) B"
  by (auto simp: disjoint_within_def chunk_layouts_def k3_moe_scratch_def Let_def)

text \<open>A call over \<open>cached\<close> earlier positions needs the scores of all of them.\<close>

lemma mla_layout_cached:
  assumes "cached + T \<le> cap"
  shows "disjoint_within (off + k3_mla_scratch_cached c T cap True) (mla_layout c T True cached off)"
  using assms by (auto simp: disjoint_within_def mla_layout_def k3_mla_scratch_cached_def Let_def)

lemma mla_layout_uncached: "disjoint_within (off + k3_mla_scratch c T) (mla_layout c T False cached off)"
  by (simp add: disjoint_within_def mla_layout_def k3_mla_scratch_def k3_mla_scratch_cached_def Let_def)

lemma mla_layout_off: "list_all (\<lambda>r. off \<le> fst r) (mla_layout c T kvc cached off)"
  by (simp add: mla_layout_def Let_def)

lemma mla_scratch_mono:
  assumes "T \<le> M"
  shows "k3_mla_scratch c T \<le> k3_mla_scratch c M" "k3_mla_scratch_cached c T M True \<le> k3_mla_scratch c M"
proof -
  have le: "T * x * y \<le> M * x * y" "T * x \<le> M * x" for x y by (intro mult_le_mono1 assms)+
  show "k3_mla_scratch c T \<le> k3_mla_scratch c M"
    unfolding k3_mla_scratch_def k3_mla_scratch_cached_def Let_def by (simp add: assms le add_mono)
  show "k3_mla_scratch_cached c T M True \<le> k3_mla_scratch c M"
    unfolding k3_mla_scratch_def k3_mla_scratch_cached_def Let_def
    using assms trans_le_add1 [OF le(1) [of "kc_n_heads c" "kc_qk_nope c + kc_qk_rope c"]] by (auto simp: add.assoc)
qed

lemma kda_scratch_mono: "T \<le> M \<Longrightarrow> k3_kda_scratch c T \<le> k3_kda_scratch c M"
  by (auto simp: k3_kda_scratch_def Let_def intro!: add_mono mult_le_mono1)

definition layer_sub_size :: "'f k3_cfg \<Rightarrow> nat \<Rightarrow> nat" where
  "layer_sub_size c T = max (max (k3_mla_scratch c T) (k3_kda_scratch c T)) (k3_moe_scratch c)"

lemma layer_scratch_split: "k3_layer_scratch c T = layer_sub_off c T + layer_sub_size c T"
  by (simp add: layer_sub_size_def layer_sub_off_def layer_dgu_off_def layer_src_off_def layer_maxb_def k3_layer_scratch_def Let_def
      max_def algebra_simps)

lemma sub_off_mono: "T \<le> M \<Longrightarrow> layer_sub_off c T \<le> layer_sub_off c M"
  by (auto simp: layer_sub_off_def layer_dgu_off_def layer_src_off_def intro!: add_mono mult_le_mono1)

lemma layer_layout_fits:
  assumes "nb + 1 \<le> layer_maxb c"
  shows "disjoint_within (layer_sub_off c T) (layer_layout c T nb)"
proof -
  have "layer_src_off c T + (nb + 1) * kc_hidden c \<le> layer_dgu_off c T"
    unfolding layer_dgu_off_def using mult_le_mono1 [OF assms, of "kc_hidden c"] by simp
  moreover have "layer_dgu_off c T + 2 * kc_dense_inter c = layer_sub_off c T" by (simp add: layer_sub_off_def)
  ultimately show ?thesis by (simp add: disjoint_within_def layer_layout_def layer_src_off_def Let_def)
qed

lemma sub_layouts_fit:
  assumes "T \<le> M" "kvc \<longrightarrow> cached + T \<le> M" "\<forall>d. lw_mlp w = Inr d \<longrightarrow> kc_dense_inter c \<le> layer_sub_size c M"
    "B \<in> set (sub_layouts c w T kvc cached)"
  shows "disjoint_within (k3_layer_scratch c M) B \<and> list_all (\<lambda>r. layer_sub_off c T \<le> fst r) B"
proof -
  let ?o = "layer_sub_off c T"
  have fit: "disjoint_within (k3_layer_scratch c M) B" if "disjoint_within (?o + n) B" "n \<le> layer_sub_size c M" for n
    using that sub_off_mono [OF assms(1), of c] by (intro disjoint_mono [OF that(1)]) (simp add: layer_scratch_split)
  have sz: "k3_mla_scratch c M \<le> layer_sub_size c M" "k3_kda_scratch c T \<le> layer_sub_size c M" "k3_moe_scratch c \<le> layer_sub_size c M"
    using kda_scratch_mono [OF assms(1), of c] by (auto simp: layer_sub_size_def)
  have mla: "disjoint_within (?o + k3_mla_scratch c M) (mla_layout c T kvc cached ?o)"
  proof (cases kvc)
    case True
    then have "disjoint_within (?o + k3_mla_scratch_cached c T M True) (mla_layout c T True cached ?o)" using assms(2) by (intro mla_layout_cached) simp
    then show ?thesis using True mla_scratch_mono(2) [OF assms(1), of c] by (auto elim: disjoint_mono)
  next
    case False
    have "disjoint_within (?o + k3_mla_scratch c M) (mla_layout c T False cached ?o)"
      by (rule disjoint_mono [OF mla_layout_uncached]) (simp add: mla_scratch_mono(1) [OF assms(1)])
    then show ?thesis using False by simp
  qed
  consider (kda) k where "lw_attn w = Inl k" "B = kda_layout c T ?o" | (mla) a where "lw_attn w = Inr a" "B = mla_layout c T kvc cached ?o"
    | (moe) m where "lw_mlp w = Inl m" "B = moe_layout c ?o" | (chunk) "B \<in> set (chunk_layouts c ?o)"
    | (dense) d where "lw_mlp w = Inr d" "B = [(?o, kc_dense_inter c)]"
    using assms(4) by (auto simp: sub_layouts_def Let_def split: sum.splits)
  then show ?thesis
  proof cases
    case kda
    then show ?thesis using fit [OF _ sz(2)] kda_layout_fits [where off = ?o and c = c and T = T] by simp
  next
    case mla
    then show ?thesis using fit [OF _ sz(1)] \<open>disjoint_within _ _\<close> mla_layout_off [of ?o c T kvc cached] by simp
  next
    case moe
    then show ?thesis using fit [OF _ sz(3)] moe_layout_fits [where off = ?o and c = c] by simp
  next
    case chunk
    then show ?thesis using fit [OF _ sz(3)] chunk_layouts_fit by blast
  next
    case dense
    then show ?thesis using fit [of "kc_dense_inter c"] assms(3) by (simp add: disjoint_within_def)
  qed
qed

text \<open>C27: The memory of a layer run is enough.  The snapshots: a run whose count of snapshots is that of the layers
  before it writes its own inside the row of the token and leaves the count of the layers up to it.  The
  scratch: in a buffer of \<open>k3_layer_scratch c Tmax\<close> floats every array of the layer, of its attention block and of
  its expert or dense block lies inside the buffer, and no two that are live together overlap, for every call
  that stays within \<open>Tmax\<close> positions: \<open>T\<close> tokens, after \<open>cached\<close> earlier ones when a KV cache is passed.  A dense block
  is covered when its activation is no wider than the largest of the other blocks' scratch.\<close>

theorem k3_layer_memory_fits:
  assumes "0 < kc_attn_res_block c" "l < kc_n_layers c" "ls_nb s = blocks_before c l" "length (ls_br s) = length h"
    "k3_decoder_layer_inc fp lm avx2 cpu no_batch c w src junk l h cached cap s = Some (out, s')"
    "length h \<le> Tmax" "ls_kv s \<noteq> None \<longrightarrow> cached + length h \<le> Tmax"
    "\<forall>d. lw_mlp w = Inr d \<longrightarrow> kc_dense_inter c \<le> layer_sub_size c Tmax"
  shows "ls_nb s' = blocks_before c (Suc l) \<and> ls_nb s < layer_maxb c \<and>
    (\<forall>B \<in> set (sub_layouts c w (length h) (ls_kv s \<noteq> None) cached).
       disjoint_within (k3_layer_scratch c Tmax) (layer_layout c (length h) (ls_nb s') @ B))"
proof -
  have m: "layer_mlp fp lm avx2 cpu no_batch c w src junk x t = Some (y, t') \<Longrightarrow> ls_nb t' = ls_nb t" for x t y t'
    by (auto simp: layer_mlp_def split: sum.splits)
  have "ls_nb s' = snap_count c l (ls_nb s)"
    using assms(5) unfolding layer_rows [OF assms(4)]
    by (auto simp: Let_def split: option.splits dest!: m layer_attn_keeps(3))
  then have nb: "ls_nb s' = blocks_before c (Suc l)" by (simp add: assms(3) snap_count_def boundary_def blocks_before_Suc)
  then have room: "ls_nb s < layer_maxb c" "ls_nb s' + 1 \<le> layer_maxb c"
    using blocks_fit [OF assms(1), of l] blocks_fit [OF assms(1), of "Suc l"] assms(2,3) by auto
  have "disjoint_within (k3_layer_scratch c Tmax) (layer_layout c (length h) (ls_nb s') @ B)"
    if "B \<in> set (sub_layouts c w (length h) (ls_kv s \<noteq> None) cached)" for B
    using sub_layouts_fit [OF assms(6,7,8) that] sub_off_mono [OF assms(6), of c]
    by (intro disjoint_append [OF layer_layout_fits [OF room(2)]]) (auto simp: layer_scratch_split)
  then show ?thesis using nb room(1) by blast
qed

theorem k3_layer_memory_fits_witness:
  "\<exists>out s'. k3_decoder_layer_inc int_fpu int_libm False scalar_cpu False one_kc one_layer None (\<lambda>_ _ _. []) 0 [[1], [2], [3]] 0 8 (one_state 3) = Some (out, s') \<and>
     disjoint_within (k3_layer_scratch one_kc 8) (layer_layout one_kc 3 1 @ kda_layout one_kc 3 (layer_sub_off one_kc 3))"
proof -
  obtain out s' where r: "k3_decoder_layer_inc int_fpu int_libm False scalar_cpu False one_kc one_layer None (\<lambda>_ _ _. []) 0 [[1], [2], [3]] 0 8 (one_state 3) = Some (out, s')"
    using one_layer_returns by metis
  have b: "blocks_before one_kc 0 = 0" "blocks_before one_kc (Suc 0) = 1" by (simp_all add: blocks_before_Suc) (simp_all add: blocks_before_def)
  have d: "kc_dense_inter one_kc \<le> layer_sub_size one_kc 8" by code_simp
  let ?n = "length [[1], [2], [3 :: int]]"
  have k: "kda_layout one_kc ?n (layer_sub_off one_kc ?n) \<in> set (sub_layouts one_kc one_layer ?n (ls_kv (one_state 3) \<noteq> None) 0)"
    by (simp add: sub_layouts_def one_layer_def Let_def)
  have c: "0 < kc_attn_res_block one_kc" "0 < kc_n_layers one_kc" by (simp_all add: one_kc_def)
  have s: "ls_nb (one_state 3) = blocks_before one_kc 0" "length (ls_br (one_state 3)) = length [[1], [2], [3 :: int]]" "ls_kv (one_state 3) \<noteq> None"
    by (simp_all add: one_state_def b)
  have t: "length [[1], [2], [3 :: int]] \<le> 8" "ls_kv (one_state 3) \<noteq> None \<longrightarrow> 0 + length [[1], [2], [3 :: int]] \<le> 8"
    "\<forall>x. lw_mlp one_layer = Inr x \<longrightarrow> kc_dense_inter one_kc \<le> layer_sub_size one_kc 8" using d by simp_all
  note f = k3_layer_memory_fits [OF c s(1,2) r t]
  have "ls_nb s' = 1" "disjoint_within (k3_layer_scratch one_kc 8) (layer_layout one_kc ?n (ls_nb s') @ kda_layout one_kc ?n (layer_sub_off one_kc ?n))"
    using f b(2) by simp (rule bspec [OF f [THEN conjunct2, THEN conjunct2] k])
  then show ?thesis using r by (simp add: numeral_eq_Suc)
qed

text \<open>The scratch does not count the activation of the dense block, which the layer writes to its last region.\<close>

theorem dense_activation_not_counted:
  "k3_layer_scratch (one_kc\<lparr>kc_dense_inter := 100\<rparr>) 1 < layer_sub_off (one_kc\<lparr>kc_dense_inter := 100\<rparr>) 1 + kc_dense_inter (one_kc\<lparr>kc_dense_inter := 100\<rparr>)"
  by code_simp

end
