(* ===== verification/Spec2Isabelle.thy ===== *)
theory Spec2Isabelle
  imports Cache_Props Planner_Props Bpe_Props Gguf_Props Quant_Mx_Props Qwen3_Props Chat Registry_Props K3_Layer_Props
begin

text \<open>
  A verification of multi-model-llm-engine, an inference engine that runs language models larger
  than memory by streaming their weights from disk.  The program is C under \<^verbatim>\<open>src/src\<close>; paths
  below are relative to it.

  \<^bold>\<open>How the program is put together.\<close>  A container (\<^verbatim>\<open>formats/gguf.c\<close>) describes tensors and a
  tokenizer.  The planner (\<^verbatim>\<open>runtime/planner.c\<close>, \<^verbatim>\<open>runtime/memory.c\<close>) splits the memory of the
  machine between resident weights, working sets, the key-value cache, a block streamer and an
  expert cache.  The streamer (\<^verbatim>\<open>storage/streamer.c\<close>) pins a prefix of the layers and runs the
  others through a ring of slots, with one asynchronous read in flight; the cache
  (\<^verbatim>\<open>storage/cache.c\<close>) keeps objects that are reached at random.  Both read through the storage
  layer (\<^verbatim>\<open>storage/file.c\<close>), whose direct reads are widened to aligned ranges.  Rows of weights,
  dense or packed, are multiplied by the kernels (\<^verbatim>\<open>kernels/\<close>, \<^verbatim>\<open>quant/\<close>); text is turned into ids
  and back by \<^verbatim>\<open>tokenizer/bpe.c\<close>.

  \<^bold>\<open>Theories, sources and results.\<close>

  \<^item> \<open>Eng_Prelude\<close>: C integer arithmetic (\<open>i64\<close>, \<open>i32\<close>, truncating division), power-of-two rounding
    (\<open>align_up\<close>), shared list lemmas, the collection \<open>eng_simps\<close>.
  \<^item> \<open>Storage\<close> (\<^verbatim>\<open>storage/file.c\<close>): plain and widened reads over an abstract \<open>pread\<close>; the locale
    \<open>aligned_store\<close> states what clients rely on and is interpreted on \<open>file_read_aligned\<close>.
  \<^item> \<open>Weight_Cache\<close>, \<open>Cache_Batch\<close>, \<open>Cache_LRU\<close>, \<open>Cache_Props\<close> (\<^verbatim>\<open>storage/cache.c\<close>): the record
    \<open>eng_cache\<close> is \<open>struct EngCache\<close>; one definition per operation and per phase of the batched
    lookup.  An invariant of every reachable state, exactness of what a lookup returns (of its
    metadata only for a source that leaves it alone when it refuses a key),
    independence of the parallel reads, the LRU victim, the cyclic scan that never hits.
  \<^item> \<open>Streamer\<close>, \<open>Streamer_Inv\<close>, \<open>Streamer_Props\<close>, \<open>Streamer_Walk\<close> (\<^verbatim>\<open>storage/streamer.c\<close>): sizing,
    creation with the rounding of each allocation, get and prefetch; \<open>io_main\<close>, the reader thread, is a
    step that may come between any two calls.  \<open>stream_reach\<close> allows every sequence of calls.  Without
    a reader thread every get is exact along all of them; with one a get can return the wrong block
    (\<open>stale_prefetch_returns_wrong_block\<close>), but not in the cyclic walk the engine performs, the relation
    \<open>stream_walk\<close>: there the block in use stays intact and the next is always served.  What the sizing
    plans stays within the budget; what is allocated may exceed it by the huge-page rounding.
  \<^item> \<open>Planner\<close>, \<open>Planner_Props\<close> (\<^verbatim>\<open>runtime/memory.c\<close>, \<^verbatim>\<open>runtime/planner.c\<close>): the plan as a record; it
    partitions the budget exactly and is refused exactly when the fixed costs do not fit; how its
    stream budget meets the streamer's creation.
  \<^item> \<open>Tensor\<close>, \<open>Tensor_Props\<close> (\<^verbatim>\<open>tensor/\<close>): the data-type table, sizes, views, and the widening of a
    half, exact for all bit patterns.
  \<^item> \<open>Gguf\<close>, \<open>Gguf_Props\<close> (\<^verbatim>\<open>formats/gguf.c\<close>): the header parser reads back what the format writes,
    accepted tensors lie in the file, and the string pool never runs out.
  \<^item> \<open>Bpe\<close>, \<open>Bpe_Map\<close>, \<open>Bpe_Props\<close> (\<^verbatim>\<open>tokenizer/bpe.c\<close>): the open-addressing table satisfies the
    locale \<open>string_map\<close>, in which loading a vocabulary is proved; encoding ends, succeeds on a
    complete vocabulary and is inverted by decoding; merges take the leftmost lowest rank.
  \<^item> \<open>Fpu\<close>: floating point as a record of operations, the loops of the kernels, the AVX2
    intrinsics as functions on lanes, and real arithmetic as the record \<open>exact_fpu\<close>.
  \<^item> \<open>Kernel\<close>, \<open>Kernel_Props\<close> (\<^verbatim>\<open>kernels/kernel.c\<close>, \<^verbatim>\<open>kernels/kernel_avx2.c\<close>): for every
    floating-point unit the exact policy gives the same values on both implementations; in real
    arithmetic each dot product is the sum of products, softmax normalises and rotary scores are
    relative.
  \<^item> \<open>Quant\<close>, \<open>Quant_Props\<close>, \<open>Quant_Mx\<close>, \<open>Quant_Mx_Props\<close> (\<^verbatim>\<open>quant/\<close>): Q4_K, Q6_K, Q8_0 and MXFP4;
    the vector paths equal the scalar ones for every rounding, a fused dot product is that of the
    materialised row in real arithmetic, the six-bit packing loses nothing, and the registry with
    the packed matrix product.
  \<^item> \<open>Row_Local\<close>: a row kernel reads its row and nothing else, so a matrix product is the list of its
    row products however the rows are delivered.
  \<^item> \<open>Qwen3\<close> (\<^verbatim>\<open>models/qwen3/qwen3.c\<close>): the backend's records and every step from the container to
    the logits; an access outside an array is the outcome \<open>Fault\<close>.  Its layer
    loop is a walk of \<open>Streamer_Walk\<close>.  \<open>Qwen3_Spec\<close> states the forward pass without buffers, streamer or threads;
    \<open>Qwen3_Phase\<close> and \<open>Qwen3_Decode\<close> show that a decode step computes it on every model that is
    \<open>ready\<close>; \<open>Qwen3_Load\<close> that loading gives such a model.
  \<^item> \<open>Qwen3_Gen\<close> (\<^verbatim>\<open>app/cli.c\<close>, the loop of \<open>cmd_run\<close>) and \<open>Qwen3_Props\<close>: generation is the same under
    every memory configuration, its output is bounded, the planner's figure for the key-value cache
    is exact, and the two inputs on which a decode step leaves its buffers.
  \<^item> \<open>Chat\<close> (\<^verbatim>\<open>tokenizer/chat.c\<close>, and the choice of the prompt in \<^verbatim>\<open>app/cli.c\<close>): the turn markers of a
    built prompt are those the template puts, because no fragment of the pre-tokenizer contains one;
    the fallback to a plain continuation does not have this property.
  \<^item> \<open>Registry\<close> (\<^verbatim>\<open>models/registry.c\<close>, the probe and vtable of \<^verbatim>\<open>models/kimi/kimi.c\<close>) and
    \<open>Registry_Props\<close>: registration keeps names distinct and claims honest, and probing picks the first
    backend of the highest score.
  \<^item> \<open>K3_St\<close> (\<^verbatim>\<open>io/k3_st.c\<close>): the header scanner, the name index and the reads of the K3 safetensors
    reader.  \<open>K3_St_Index\<close> reduces the index to the hash map of \<open>Bpe_Map\<close>, \<open>K3_St_Header\<close> states the
    format and that the scanner reads it back, \<open>K3_St_Props\<close> puts a whole checkpoint together: open, find,
    read and widen.
  \<^item> \<open>K3_Ops\<close> (\<^verbatim>\<open>core/k3_ops.c\<close>, \<^verbatim>\<open>k3/k3.h\<close>): the arithmetic of the K3 model over the operations of
    \<open>Fpu\<close> (norms, the short convolution, the delta-rule step, the matrix products in every storage
    format, gated MLA with its cache, the KDA layer).  \<open>K3_Ops_Props\<close>: a sequence may be cut anywhere
    with the state carried over, and widening a weight before or inside a product is the same.
  \<^item> \<open>K3_Moe\<close>: router, the mixture of experts per token and per chunk, and the pull interface
    \<open>K3ExpertSrc\<close> as a record of functions.  \<open>K3_Moe_Props\<close> relates the router to a stable sort and
    states in the locale \<open>expert_source\<close> what a source has to promise for the two forms of the mixture
    to agree.
  \<^item> \<open>K3_Load\<close> (\<^verbatim>\<open>io/k3_load.c\<close>) and \<open>K3_Load_Props\<close>: where the six tensors of an expert are, and that a
    load puts their bytes at the recorded offsets on the contiguous and on the scattered path.
  \<^item> \<open>K3_Cache\<close> (\<^verbatim>\<open>cache/k3_cache.c\<close>) and \<open>K3_Cache_Props\<close>: the expert cache over \<open>Weight_Cache\<close>; it
    meets the locale \<open>expert_source\<close>, so the mixture computes the same whatever is resident.
  \<^item> \<open>K3_Layer\<close> (\<open>k3_decoder_layer_inc\<close> of \<^verbatim>\<open>core/k3_ops.c\<close>) and \<open>K3_Layer_Props\<close>: the decoder layer with its
    block-residual stack; a split run is the single run.  The layouts list the arrays each
    block cuts from the scratch buffer; they lie inside what \<open>k3_layer_scratch\<close> reserves and apart from
    each other, except for a wide dense block.
  \<^bold>\<open>Conventions.\<close>  A pointer into an array is an index or a dropped prefix; a NULL return is
  \<open>None\<close>; a loop that has no structural bound is a \<open>function\<close> with a measure, and the one whose end
  is part of the claim (the renormalisation of a half) is a \<open>partial_function\<close>.  Reads outside an
  array are the unspecified value of \<open>xs ! i\<close>; theorems whose truth depends on them carry the
  length as a hypothesis.  Callbacks, \<open>pread\<close>, the allocator and the floating-point unit are
  parameters.  Probing of a hash table is bounded by its size, and building a table is shown never
  to meet that bound; no other definition uses fuel.

  \<^bold>\<open>Not modelled.\<close>  Printing, timing, hardware detection, command lines and tests, which have no
  state of their own; the vendored JSON reader and tokenizer under \<^verbatim>\<open>third_party\<close> and the code that
  only adapts them.  Of the K3 code base, the configuration reader \<^verbatim>\<open>k3_cfg.h\<close>, the resident trunk \<^verbatim>\<open>io/k3_trunk.c\<close>, the binding of tensors to layers \<^verbatim>\<open>model/k3_bind.c\<close> and the driver \<^verbatim>\<open>cli/k3_run.c\<close>.
\<close>

end
